(* ===== verification/Lake_Prelude.thy ===== *)
theory Lake_Prelude
  imports "HOL-Library.Word" "HOL-Library.Char_ord" "HOL-Library.Code_Target_Numeral"
begin

text \<open>
  Shared vocabulary of the development: bytes and byte strings, the exception classes of the
  deploy scripts as one datatype, the result type of every function that may raise, and the
  generic lemmas (results, bits, positional numbers, hexadecimal digits) the component theories
  share. Nothing in this theory models one particular script; it models the parts of Python and
  of its standard library that several of them use.
\<close>

unbundle bit_operations_syntax

named_theorems res_simps \<open>case analysis of results: when a sequence of fallible steps succeeds\<close>
named_theorems len_simps \<open>lengths of encoded byte strings\<close>

section \<open>Bytes\<close>

type_synonym byte = "8 word"
type_synonym bytes = "byte list"

lemma unat_byte_lt [simp]: "unat (b :: byte) < 256"
proof -
  have "unat b < 2 ^ LENGTH(8)" by (rule unsigned_less)
  then show ?thesis by simp
qed

lemma unat_byte_of_nat: "unat (word_of_nat n :: byte) = n mod 256"
  by (simp add: unat_of_nat)

lemma byte_of_unat [simp]: "(word_of_nat (unat (b :: byte)) :: byte) = b"
  by simp

section \<open>Exceptions and results\<close>

text \<open>
  One constructor per exception class that a modelled statement raises or catches, with its
  message where the script gives one (\<open>LargeExportError\<close> is the class \<open>ExportError\<close> of
  \<open>export_large_lake_block.py\<close>). \<open>ValueError\<close> stands for its subclasses too
  (\<open>json.JSONDecodeError\<close>, \<open>UnicodeDecodeError\<close>, \<open>binascii.Error\<close>).
\<close>

datatype exn =
    ReplicationError string
  | RawBlockStoreError string
  | ArchiveError string
  | InventoryError string
  | AuditError string
  | ReadbackError string
  | ExportError string
  | RefusedError string
  | ShipError string
  | ImportError string
  | RecoveryError string
  | BatchError string
  | MirrorError string
  | LargeExportError string
  | ValueError
  | KeyError
  | TypeError
  | AttributeError
  | IndexError
  | OverflowError
  | StructError
  | OSError
  | TimeoutExpired
  | CalledProcessError
  | SystemExit string

type_synonym 'a res = "exn + 'a"

fun rbind :: "'a res \<Rightarrow> ('a \<Rightarrow> 'b res) \<Rightarrow> 'b res" where
  "rbind (Inl e) f = Inl e"
| "rbind (Inr x) f = f x"

lemma rbind_eq_Inr [res_simps]: "rbind m f = Inr y \<longleftrightarrow> (\<exists>x. m = Inr x \<and> f x = Inr y)"
  by (cases m) auto

lemma rbind_eq_Inl: "rbind m f = Inl e \<longleftrightarrow> m = Inl e \<or> (\<exists>x. m = Inr x \<and> f x = Inl e)"
  by (cases m) auto

lemma rbind_cong [fundef_cong]:
  "m = m' \<Longrightarrow> (\<And>x. m' = Inr x \<Longrightarrow> f x = g x) \<Longrightarrow> rbind m f = rbind m' g"
  by (cases m') auto

lemma rbind_assoc: "rbind (rbind m f) g = rbind m (\<lambda>x. rbind (f x) g)"
  by (cases m) auto

definition is_ok :: "'a res \<Rightarrow> bool" where
  "is_ok r = (case r of Inl _ \<Rightarrow> False | Inr _ \<Rightarrow> True)"

lemma is_ok_simps [simp]: "is_ok (Inr x)" "\<not> is_ok (Inl e)"
  by (simp_all add: is_ok_def)

lemma is_ok_iff: "is_ok r \<longleftrightarrow> (\<exists>x. r = Inr x)"
  by (cases r) auto

text \<open>The value of a result, forgetting which exception was raised.\<close>

definition ok_of :: "'a res \<Rightarrow> 'a option" where
  "ok_of r = (case r of Inl _ \<Rightarrow> None | Inr x \<Rightarrow> Some x)"

lemma ok_of_simps [simp]: "ok_of (Inr x) = Some x" "ok_of (Inl e) = None"
  by (simp_all add: ok_of_def)

lemma ok_of_eq_Some [simp]: "ok_of r = Some x \<longleftrightarrow> r = Inr x"
  by (cases r) auto

lemma ok_of_eq_None [simp]: "ok_of r = None \<longleftrightarrow> (\<exists>e. r = Inl e)"
  by (cases r) auto

lemma if_Inl_eq_Inr [res_simps]:
  "(if c then Inl e else r) = Inr y \<longleftrightarrow> \<not> c \<and> r = Inr y"
  "(if c then r else Inl e) = Inr y \<longleftrightarrow> c \<and> r = Inr y"
  by auto

lemma case_option_eq_Inr [res_simps]:
  "(case x of None \<Rightarrow> Inl e | Some y \<Rightarrow> f y) = Inr z \<longleftrightarrow> (\<exists>y. x = Some y \<and> f y = Inr z)"
  by (cases x) auto

text \<open>\<open>for x in xs\<close> with a body that may raise: the loop stops at the first exception.\<close>

fun foldM :: "('s \<Rightarrow> 'a \<Rightarrow> 's res) \<Rightarrow> 's \<Rightarrow> 'a list \<Rightarrow> 's res" where
  "foldM f s [] = Inr s"
| "foldM f s (x # xs) = rbind (f s x) (\<lambda>s'. foldM f s' xs)"

lemma foldM_append: "foldM f s (xs @ ys) = rbind (foldM f s xs) (\<lambda>s'. foldM f s' ys)"
  by (induction xs arbitrary: s) (simp_all add: rbind_assoc)

lemma foldM_invariant:
  assumes "foldM f s xs = Inr s'" and "P s"
    and "\<And>s x s'. x \<in> set xs \<Longrightarrow> P s \<Longrightarrow> f s x = Inr s' \<Longrightarrow> P s'"
  shows "P s'"
  using assms
proof (induction xs arbitrary: s)
  case Nil
  then show ?case by simp
next
  case (Cons x xs)
  from Cons.prems(1) obtain s1 where "f s x = Inr s1" and rest: "foldM f s1 xs = Inr s'"
    by (auto simp: res_simps)
  then have "P s1" using Cons.prems(2,3) by (meson list.set_intros(1))
  with rest show ?case using Cons.IH Cons.prems(3) by (meson list.set_intros(2))
qed

section \<open>Bits and positional numbers\<close>

lemma and_127 [simp]: "(n :: nat) AND 127 = n mod 128"
  using take_bit_eq_mask [of 7 n] by (simp add: take_bit_eq_mod mask_eq_exp_minus_1)

lemma or_push_bit: "v < 2 ^ k \<Longrightarrow> (v :: nat) OR push_bit k w = v + w * 2 ^ k"
proof -
  assume "v < 2 ^ k"
  then have "take_bit k v = v" by (simp add: take_bit_nat_eq_self)
  then have "\<not> bit v (k + i)" for i by (metis bit_take_bit_iff not_add_less1)
  then have "\<not> bit v n" if "k \<le> n" for n using that by (metis le_add_diff_inverse)
  then have "v AND push_bit k w = 0"
    by (intro bit_eqI) (auto simp: bit_and_iff bit_push_bit_iff)
  from disjunctive_add_eq_or [OF this] show ?thesis by (simp add: push_bit_eq_mult)
qed

lemma or_128: "n < 128 \<Longrightarrow> (n :: nat) OR 128 = n + 128"
  using or_push_bit [of n 7 1] by simp


text \<open>
  \<open>digits b k n\<close> are the \<open>k\<close> least significant base-\<open>b\<close> digits of \<open>n\<close>, most significant first;
  \<open>dval b ds\<close> reads such a list back, as the loops \<open>value = value * b + digit\<close> do.
\<close>

fun digits :: "nat \<Rightarrow> nat \<Rightarrow> nat \<Rightarrow> nat list" where
  "digits b 0 n = []"
| "digits b (Suc k) n = digits b k (n div b) @ [n mod b]"

definition dval :: "nat \<Rightarrow> nat list \<Rightarrow> nat" where
  "dval b ds = foldl (\<lambda>value d. value * b + d) 0 ds"

lemma dval_Nil [simp]: "dval b [] = 0"
  by (simp add: dval_def)

lemma dval_snoc [simp]: "dval b (ds @ [d]) = dval b ds * b + d"
  by (simp add: dval_def)

lemma length_digits [simp, len_simps]: "length (digits b k n) = k"
  by (induction k arbitrary: n) simp_all

lemma digits_less: "0 < b \<Longrightarrow> d \<in> set (digits b k n) \<Longrightarrow> d < b"
  by (induction k arbitrary: n) auto

lemma dval_append: "dval b (xs @ ys) = dval b xs * b ^ length ys + dval b ys"
proof (induction ys rule: rev_induct)
  case Nil
  then show ?case by simp
next
  case (snoc y ys)
  then show ?case using dval_snoc [of b "xs @ ys" y] by (simp add: algebra_simps)
qed

lemma dval_digits: "dval b (digits b k n) = n mod b ^ k"
proof (induction k arbitrary: n)
  case 0
  then show ?case by simp
next
  case (Suc k)
  have "n mod b ^ Suc k = (n div b mod b ^ k) * b + n mod b"
    using mod_mult2_eq [of n b "b ^ k"] by (simp add: mult.commute)
  with Suc show ?case by simp
qed

lemma dval_less: "0 < b \<Longrightarrow> (\<And>d. d \<in> set ds \<Longrightarrow> d < b) \<Longrightarrow> dval b ds < b ^ length ds"
proof (induction ds rule: rev_induct)
  case Nil
  then show ?case by simp
next
  case (snoc d ds)
  then have "dval b ds < b ^ length ds" and "d < b" by auto
  then have "Suc (dval b ds) * b \<le> b ^ length ds * b" by (intro mult_le_mono1) simp
  with \<open>d < b\<close> show ?case by (simp add: mult.commute)
qed

lemma digits_dval: "0 < b \<Longrightarrow> (\<And>d. d \<in> set ds \<Longrightarrow> d < b) \<Longrightarrow> digits b (length ds) (dval b ds) = ds"
proof (induction ds rule: rev_induct)
  case Nil
  then show ?case by simp
next
  case (snoc d ds)
  then have "d < b" by simp
  then have "(dval b ds * b + d) div b = dval b ds" by simp
  with snoc \<open>d < b\<close> show ?case by simp
qed

lemma digits_add: "digits b (i + j) n = digits b i (n div b ^ j) @ digits b j n"
  by (induction j arbitrary: n) (simp_all add: div_mult2_eq)

text \<open>\<open>int.to_bytes(k, "big")\<close> and \<open>int.from_bytes(bs, "big")\<close>.\<close>

definition to_bytes_be :: "nat \<Rightarrow> nat \<Rightarrow> bytes" where
  "to_bytes_be k n = map word_of_nat (digits 256 k n)"

definition from_bytes_be :: "bytes \<Rightarrow> nat" where
  "from_bytes_be bs = dval 256 (map unat bs)"

lemma length_to_bytes_be [simp, len_simps]: "length (to_bytes_be k n) = k"
  by (simp add: to_bytes_be_def)

lemma to_from_bytes_be [simp]: "to_bytes_be (length bs) (from_bytes_be bs) = bs"
proof -
  have "digits 256 (length (map unat bs)) (dval 256 (map unat bs)) = map unat bs"
    by (rule digits_dval) auto
  then show ?thesis by (simp add: to_bytes_be_def from_bytes_be_def o_def)
qed

lemma from_to_bytes_be: "from_bytes_be (to_bytes_be k n) = n mod 256 ^ k"
proof -
  have "map (unat \<circ> (word_of_nat :: nat \<Rightarrow> byte)) (digits 256 k n) = digits 256 k n"
    by (rule map_idI) (use digits_less [of 256] in \<open>force simp: unat_byte_of_nat\<close>)
  then show ?thesis by (simp add: to_bytes_be_def from_bytes_be_def dval_digits)
qed

lemma from_bytes_be_less: "from_bytes_be bs < 256 ^ length bs"
proof -
  have "dval 256 (map unat bs) < 256 ^ length (map unat bs)" by (rule dval_less) auto
  then show ?thesis by (simp add: from_bytes_be_def)
qed

lemma from_bytes_be_append:
  "from_bytes_be (xs @ ys) = from_bytes_be xs * 256 ^ length ys + from_bytes_be ys"
  by (simp add: from_bytes_be_def dval_append)

text \<open>\<open>int.bit_length()\<close>.\<close>

fun bit_length :: "nat \<Rightarrow> nat" where
  "bit_length n = (if n = 0 then 0 else Suc (bit_length (n div 2)))"

declare bit_length.simps [simp del]

lemma bit_length_eq: "2 ^ k \<le> n \<Longrightarrow> n < 2 ^ Suc k \<Longrightarrow> bit_length n = Suc k"
proof (induction k arbitrary: n)
  case 0
  then have "n = 1" by simp
  then show ?case by (simp add: bit_length.simps)
next
  case (Suc k)
  then have "bit_length (n div 2) = Suc k" and "n \<noteq> 0" by auto
  then show ?case by (subst bit_length.simps) simp
qed

text \<open>\<open>bytes.hex()\<close> and the pattern \<open>[0-9a-f]{64}\<close> of a SHA-256 digest in text form.\<close>

definition hex_digits :: string where
  "hex_digits = ''0123456789abcdef''"

definition hex_byte :: "byte \<Rightarrow> string" where
  "hex_byte b = [hex_digits ! (unat b div 16), hex_digits ! (unat b mod 16)]"

definition hex :: "bytes \<Rightarrow> string" where
  "hex bs = concat (map hex_byte bs)"

definition match_sha256 :: "string \<Rightarrow> bool" where
  "match_sha256 s \<longleftrightarrow> length s = 64 \<and> list_all (\<lambda>c. c \<in> set hex_digits) s"

lemma length_hex [simp, len_simps]: "length (hex bs) = 2 * length bs"
  by (induction bs) (simp_all add: hex_def hex_byte_def)

lemma hex_Nil [simp]: "hex [] = []"
  and hex_Cons: "hex (b # bs) = hex_byte b @ hex bs"
  by (simp_all add: hex_def)

lemma distinct_hex_digits: "distinct hex_digits" "length hex_digits = 16"
  by (simp_all add: hex_digits_def)

lemma hex_byte_inject: "hex_byte a = hex_byte b \<longleftrightarrow> a = b"
proof
  assume "hex_byte a = hex_byte b"
  moreover have "unat a div 16 < 16" "unat b div 16 < 16"
    using unat_byte_lt [of a] unat_byte_lt [of b] by linarith+
  ultimately have "unat a div 16 = unat b div 16" "unat a mod 16 = unat b mod 16"
    using distinct_hex_digits by (auto simp: hex_byte_def nth_eq_iff_index_eq)
  then have "unat a = unat b" by (metis div_mult_mod_eq)
  then show "a = b" by (metis byte_of_unat)
qed simp

lemma hex_inject: "length as = length bs \<Longrightarrow> hex as = hex bs \<longleftrightarrow> as = bs"
proof (induction as bs rule: list_induct2)
  case Nil
  then show ?case by simp
next
  case (Cons a as b bs)
  have "hex_byte a @ hex as = hex_byte b @ hex bs \<longleftrightarrow> hex_byte a = hex_byte b \<and> hex as = hex bs"
    by (rule append_eq_append_conv) (simp add: hex_byte_def)
  then show ?case using Cons by (simp add: hex_Cons hex_byte_inject)
qed

lemma match_sha256_hex: "length d = 32 \<Longrightarrow> match_sha256 (hex d)"
proof -
  have "list_all (\<lambda>c. c \<in> set hex_digits) (hex bs)" for bs
  proof (induction bs)
    case (Cons b bs)
    have "unat b div 16 < 16" using unat_byte_lt [of b] by linarith
    then show ?case using Cons distinct_hex_digits(2) by (simp add: hex_Cons hex_byte_def)
  qed simp
  then show "length d = 32 \<Longrightarrow> match_sha256 (hex d)" by (simp add: match_sha256_def)
qed

text \<open>For concrete instances: a hash that sends everything to one digest.\<close>

definition sample_sha :: "bytes \<Rightarrow> bytes" where
  "sample_sha _ = replicate 32 7"

end
