(* ===== verification/Varint.thy ===== *)
theory Varint
  imports Lake_Prelude
begin

text \<open>
  Unsigned LEB128 numbers ("varints"). The deploy scripts contain two encoders
  (\<open>carv2_zstd.uvarint\<close>, \<open>export_lake_car_from_kubo.varint\<close>) and three decoders
  (\<open>raw_block_store._varint\<close>, \<open>export_lake_car_from_kubo.read_varint\<close> here,
  \<open>carv2_zstd.read_uvarint\<close> in \<open>Carv2\<close>). All are translated as written, and each is shown to
  refine one reference codec, \<open>leb\<close> and \<open>leb_dec\<close>.
\<close>

section \<open>Reference codec\<close>

fun leb :: "nat \<Rightarrow> bytes" where
  "leb v = (if v < 128 then [word_of_nat v] else word_of_nat (v mod 128 + 128) # leb (v div 128))"

declare leb.simps [simp del]

text \<open>\<open>leb_dec n bs\<close> reads at most \<open>n\<close> bytes; the result is the value and the bytes consumed.\<close>

fun leb_dec :: "nat \<Rightarrow> bytes \<Rightarrow> (nat \<times> nat) option" where
  "leb_dec 0 bs = None"
| "leb_dec (Suc n) [] = None"
| "leb_dec (Suc n) (b # bs) =
     (if unat b < 128 then Some (unat b, 1)
      else map_option (\<lambda>(v, k). (unat b mod 128 + 128 * v, Suc k)) (leb_dec n bs))"

lemma leb_small: "v < 128 \<Longrightarrow> leb v = [word_of_nat v]"
  by (simp add: leb.simps)

lemma leb_big: "128 \<le> v \<Longrightarrow> leb v = word_of_nat (v mod 128 + 128) # leb (v div 128)"
  by (simp add: leb.simps)

lemma leb_not_Nil [simp]: "leb v \<noteq> []"
  by (subst leb.simps) simp

lemma length_leb_pos [simp]: "0 < length (leb v)"
  by simp

lemma unat_continuation_byte [simp]:
  "unat (word_of_nat (v mod 128) + 128 :: byte) = v mod 128 + 128"
  using unat_byte_of_nat [of "v mod 128 + 128"] by simp

lemma leb_dec_leb: "v < 128 ^ n \<Longrightarrow> 0 < n \<Longrightarrow> leb_dec n (leb v @ rest) = Some (v, length (leb v))"
proof (induction n arbitrary: v)
  case 0
  then show ?case by simp
next
  case (Suc n)
  show ?case
  proof (cases "v < 128")
    case True
    then show ?thesis by (simp add: leb_small unat_byte_of_nat)
  next
    case False
    have "v div 128 < 128 ^ n"
      using Suc.prems by (simp add: div_less_iff_less_mult mult.commute)
    moreover have "0 < n" using Suc.prems False by (cases n) auto
    ultimately have IH: "leb_dec n (leb (v div 128) @ rest) = Some (v div 128, length (leb (v div 128)))"
      by (rule Suc.IH)
    with False show ?thesis by (simp add: leb_big)
  qed
qed

lemma leb_dec_bounds: "leb_dec n bs = Some (v, k) \<Longrightarrow> 0 < k \<and> k \<le> length bs \<and> k \<le> n \<and> v < 128 ^ k"
proof (induction n bs arbitrary: v k rule: leb_dec.induct)
  case (3 n b bs)
  show ?case
  proof (cases "unat b < 128")
    case True
    with "3.prems" show ?thesis by auto
  next
    case False
    with "3.prems" obtain v' k' where r: "leb_dec n bs = Some (v', k')"
      and v: "v = unat b mod 128 + 128 * v'" and k: "k = Suc k'" by auto
    have IH: "0 < k' \<and> k' \<le> length bs \<and> k' \<le> n \<and> v' < 128 ^ k'"
      using "3.IH" False r by blast
    then have "Suc v' \<le> 128 ^ k'" by simp
    then have "128 * Suc v' \<le> 128 * 128 ^ k'" by (rule mult_le_mono2)
    moreover have "unat b mod 128 < 128" by simp
    ultimately have "v < 128 ^ Suc k'" unfolding v by simp
    with IH k show ?thesis by simp
  qed
qed simp_all

lemma leb_dec_take: "leb_dec n bs = Some (v, k) \<Longrightarrow> leb_dec n (take k bs @ rest) = Some (v, k)"
proof (induction n bs arbitrary: v k rule: leb_dec.induct)
  case (3 n b bs)
  then show ?case by (cases "unat b < 128") (auto split: if_splits)
qed simp_all

lemma leb_dec_prefix:
  assumes "leb_dec n bs = Some (v, k)" and "k \<le> m"
  shows "leb_dec n (take m bs @ rest) = Some (v, k)"
proof -
  have "take m bs = take k bs @ drop k (take m bs)"
    using assms(2) by (metis append_take_drop_id min.absorb1 take_take)
  then have e: "take m bs @ rest = take k bs @ drop k (take m bs) @ rest" by (metis append_assoc)
  show ?thesis unfolding e by (rule leb_dec_take [OF assms(1)])
qed

lemma leb_dec_Nil [simp]: "leb_dec n [] = None"
  by (cases n) simp_all

text \<open>An encoding is never longer than any other byte string that decodes to the same number.\<close>

lemma length_leb_le: "v < 128 ^ k \<Longrightarrow> 0 < k \<Longrightarrow> length (leb v) \<le> k"
proof (induction k arbitrary: v)
  case 0
  then show ?case by simp
next
  case (Suc k)
  show ?case
  proof (cases "v < 128")
    case True
    then show ?thesis by (simp add: leb_small)
  next
    case False
    with Suc.prems have "0 < k" by (cases k) auto
    moreover have "v div 128 < 128 ^ k"
      using Suc.prems by (simp add: div_less_iff_less_mult mult.commute)
    ultimately show ?thesis using Suc.IH [of "v div 128"] False by (simp add: leb_big)
  qed
qed

lemma leb_dec_minimal: "leb_dec n bs = Some (v, k) \<Longrightarrow> length (leb v) \<le> k"
  using leb_dec_bounds length_leb_le by blast

section \<open>The encoders\<close>

text \<open>
  \<open>carv2_zstd.uvarint\<close> and \<open>export_lake_car_from_kubo.varint\<close>: a loop over a bytearray. Python
  integers are unbounded; a negative argument is refused before the loop.
\<close>

function uvarint_loop :: "nat \<Rightarrow> bytes \<Rightarrow> bytes" where
  "uvarint_loop value out =
     (if 128 \<le> value
      then uvarint_loop (drop_bit 7 value) (out @ [word_of_nat ((value AND 127) OR 128)])
      else out @ [word_of_nat value])"
  by pat_completeness auto
termination
  by (relation "measure fst") (auto simp: drop_bit_eq_div)

declare uvarint_loop.simps [simp del]

definition uvarint :: "int \<Rightarrow> bytes res" where
  "uvarint value =
     (if value < 0 then Inl (ArchiveError ''negative varint'')
      else Inr (uvarint_loop (nat value) []))"

function varint_loop :: "nat \<Rightarrow> bytes \<Rightarrow> bytes" where
  "varint_loop value result =
     (if value \<ge> 128
      then varint_loop (drop_bit 7 value) (result @ [word_of_nat ((value AND 127) OR 128)])
      else result @ [word_of_nat value])"
  by pat_completeness auto
termination
  by (relation "measure fst") (auto simp: drop_bit_eq_div)

declare varint_loop.simps [simp del]

definition varint :: "int \<Rightarrow> bytes res" where
  "varint value =
     (if value < 0 then Inl (ExportError ''negative varint'')
      else Inr (varint_loop (nat value) []))"

lemma uvarint_loop_leb: "uvarint_loop v out = out @ leb v"
proof (induction v out rule: uvarint_loop.induct)
  case (1 v out)
  show ?case
  proof (cases "128 \<le> v")
    case True
    with 1 have "uvarint_loop (drop_bit 7 v) (out @ [word_of_nat ((v AND 127) OR 128)]) =
        (out @ [word_of_nat ((v AND 127) OR 128)]) @ leb (drop_bit 7 v)" by blast
    with True show ?thesis
      by (subst uvarint_loop.simps) (simp add: leb_big or_128 drop_bit_eq_div)
  next
    case False
    then show ?thesis by (subst uvarint_loop.simps) (simp add: leb_small)
  qed
qed

lemma varint_loop_leb: "varint_loop v out = out @ leb v"
proof (induction v out rule: varint_loop.induct)
  case (1 v out)
  show ?case
  proof (cases "128 \<le> v")
    case True
    with 1 have "varint_loop (drop_bit 7 v) (out @ [word_of_nat ((v AND 127) OR 128)]) =
        (out @ [word_of_nat ((v AND 127) OR 128)]) @ leb (drop_bit 7 v)" by blast
    with True show ?thesis
      by (subst varint_loop.simps) (simp add: leb_big or_128 drop_bit_eq_div)
  next
    case False
    then show ?thesis by (subst varint_loop.simps) (simp add: leb_small)
  qed
qed

lemma uvarint_of_nat [simp]: "uvarint (int n) = Inr (leb n)"
  by (simp add: uvarint_def uvarint_loop_leb)

lemma varint_of_nat [simp]: "varint (int n) = Inr (leb n)"
  by (simp add: varint_def varint_loop_leb)

section \<open>The two offset decoders\<close>

text \<open>
  \<open>raw_block_store._varint\<close>: \<open>for shift in range(0, 70, 7)\<close> over a byte string and an offset.
\<close>

fun raw_varint_loop :: "bytes \<Rightarrow> nat \<Rightarrow> nat \<Rightarrow> nat list \<Rightarrow> (nat \<times> nat) res" where
  "raw_varint_loop data offset value [] = Inl (RawBlockStoreError ''oversized CID varint'')"
| "raw_varint_loop data offset value (shift # shifts) =
     (if length data \<le> offset then Inl (RawBlockStoreError ''truncated CID varint'')
      else
        let byte = unat (data ! offset);
            value' = value OR push_bit shift (byte AND 127)
        in if byte AND 128 = 0 then Inr (value', offset + 1)
           else raw_varint_loop data (offset + 1) value' shifts)"

definition raw_varint :: "bytes \<Rightarrow> nat \<Rightarrow> (nat \<times> nat) res" where
  "raw_varint data offset = raw_varint_loop data offset 0 (map (\<lambda>i. 7 * i) [0..<10])"

text \<open>\<open>export_lake_car_from_kubo.read_varint\<close>: a \<open>while\<close> loop that breaks once \<open>shift > 63\<close>.\<close>

function read_varint_loop :: "bytes \<Rightarrow> nat \<Rightarrow> nat \<Rightarrow> nat \<Rightarrow> (nat \<times> nat) res" where
  "read_varint_loop data offset value shift =
     (if offset < length data then
        let byte = unat (data ! offset);
            value' = value OR push_bit shift (byte AND 127)
        in if byte < 128 then Inr (value', offset + 1)
           else if 63 < shift + 7 then Inl (ExportError ''invalid CID varint'')
           else read_varint_loop data (offset + 1) value' (shift + 7)
      else Inl (ExportError ''invalid CID varint''))"
  by pat_completeness auto
termination
  by (relation "measure (\<lambda>(data, offset, _, _). length data - offset)") auto

declare read_varint_loop.simps [simp del]

definition read_varint :: "bytes \<Rightarrow> nat \<Rightarrow> (nat \<times> nat) res" where
  "read_varint data offset = read_varint_loop data offset 0 0"

lemma and_128_eq_0: "n < 256 \<Longrightarrow> (n :: nat) AND 128 = 0 \<longleftrightarrow> n < 128"
proof -
  assume n: "n < 256"
  have "n AND 128 = 0 \<longleftrightarrow> \<not> bit n 7"
    using and_exp_eq_0_iff_not_bit [of n 7] by simp
  also have "\<dots> \<longleftrightarrow> n < 128"
  proof (cases "n < 128")
    case True
    then show ?thesis by (simp add: bit_iff_odd)
  next
    case False
    with n have "n div 128 = 1" by (intro div_nat_eqI) auto
    with False show ?thesis by (simp add: bit_iff_odd)
  qed
  finally show ?thesis .
qed

lemma byte_and_128 [simp]: "unat (b :: byte) AND 128 = 0 \<longleftrightarrow> unat b < 128"
  by (simp add: and_128_eq_0)


section \<open>The decoders refine the reference codec\<close>

lemma leb_step:
  assumes "(value :: nat) < 2 ^ (7 * m)"
  shows leb_step_or: "value OR push_bit (7 * m) (b mod 128) = value + (b mod 128) * 2 ^ (7 * m)"
    and leb_step_less: "value + (b mod 128) * 2 ^ (7 * m) < 2 ^ (7 * Suc m)"
proof -
  show "value OR push_bit (7 * m) (b mod 128) = value + (b mod 128) * 2 ^ (7 * m)"
    using assms by (rule or_push_bit)
  have "b mod 128 \<le> 127" using mod_less_divisor [of 128 b] by linarith
  then have "(b mod 128) * 2 ^ (7 * m) \<le> 127 * 2 ^ (7 * m)" by (rule mult_le_mono1)
  then have "value + (b mod 128) * 2 ^ (7 * m) < 128 * 2 ^ (7 * m)" using assms by linarith
  also have "128 * 2 ^ (7 * m) = (2 :: nat) ^ (7 * Suc m)" by (simp add: power_add)
  finally show "value + (b mod 128) * 2 ^ (7 * m) < 2 ^ (7 * Suc m)" .
qed

text \<open>One more byte of the reference decoder, in the accumulator form of the loops.\<close>

definition leb_acc :: "nat \<Rightarrow> nat \<Rightarrow> nat \<Rightarrow> nat \<Rightarrow> bytes \<Rightarrow> (nat \<times> nat) option" where
  "leb_acc n m offset value bs =
     map_option (\<lambda>(v, k). (value + v * 2 ^ (7 * m), offset + k)) (leb_dec n bs)"

lemma leb_acc_Cons:
  assumes "value < 2 ^ (7 * m)"
  shows "leb_acc (Suc n) m offset value (b # bs) =
    (let value' = value OR push_bit (7 * m) (unat b mod 128)
     in if unat b < 128 then Some (value', offset + 1)
        else leb_acc n (Suc m) (offset + 1) value' bs)"
  using leb_step_or [OF assms, of "unat b"]
  by (auto simp: leb_acc_def option.map_comp o_def algebra_simps power_add
      intro!: map_option_cong split: option.splits)

lemma leb_acc_0 [simp]: "leb_acc 0 m offset value bs = None"
  and leb_acc_Nil [simp]: "leb_acc n m offset value [] = None"
  by (cases n; simp add: leb_acc_def)+

lemma raw_varint_loop_acc:
  "w < 2 ^ (7 * m) \<Longrightarrow>
    ok_of (raw_varint_loop data offset w (map (\<lambda>i. 7 * i) [m..<m + n])) =
      leb_acc n m offset w (drop offset data)"
proof (induction n arbitrary: m w offset)
  case 0
  then show ?case by simp
next
  case (Suc n)
  show ?case
  proof (cases "offset < length data")
    case True
    let ?b = "data ! offset"
    let ?wnew = "w OR push_bit (7 * m) (unat ?b mod 128)"
    have "?wnew < 2 ^ (7 * Suc m)"
      using leb_step_or leb_step_less Suc.prems by simp
    then have "ok_of (raw_varint_loop data (offset + 1) ?wnew (map (\<lambda>i. 7 * i) [Suc m..<Suc m + n])) =
        leb_acc n (Suc m) (offset + 1) ?wnew (drop (offset + 1) data)"
      by (rule Suc.IH)
    then show ?thesis
      using True leb_acc_Cons [OF Suc.prems, of n offset ?b "drop (offset + 1) data"]
      by (simp add: upt_conv_Cons Let_def Cons_nth_drop_Suc del: upt_Suc)
  next
    case False
    then show ?thesis by (simp add: upt_conv_Cons del: upt_Suc)
  qed
qed

lemma read_varint_loop_acc:
  "w < 2 ^ (7 * m) \<Longrightarrow> m + n = 10 \<Longrightarrow> 0 < n \<Longrightarrow>
    ok_of (read_varint_loop data offset w (7 * m)) = leb_acc n m offset w (drop offset data)"
proof (induction n arbitrary: m w offset)
  case 0
  then show ?case by simp
next
  case (Suc n)
  show ?case
  proof (cases "offset < length data")
    case True
    let ?b = "data ! offset"
    let ?wnew = "w OR push_bit (7 * m) (unat ?b mod 128)"
    have "?wnew < 2 ^ (7 * Suc m)"
      using leb_step_or leb_step_less Suc.prems(1) by simp
    then have IH: "ok_of (read_varint_loop data (offset + 1) ?wnew (7 * Suc m)) =
        leb_acc n (Suc m) (offset + 1) ?wnew (drop (offset + 1) data)" if "0 < n"
      using Suc.IH [of ?wnew "Suc m" "offset + 1"] Suc.prems(2) that by simp
    have n0: "63 < 7 * m + 7 \<longleftrightarrow> n = 0" using Suc.prems(2) by arith
    show ?thesis
      using True leb_acc_Cons [OF Suc.prems(1), of n offset ?b "drop (offset + 1) data"] IH n0
      by (subst read_varint_loop.simps) (simp add: Let_def Cons_nth_drop_Suc add.commute)
  next
    case False
    then show ?thesis by (subst read_varint_loop.simps) simp
  qed
qed

text \<open>
  The contract both offset decoders meet. A client (the CID parsers of \<open>raw_block_store\<close> and
  \<open>export_lake_car_from_kubo\<close>) reads a header of several varints one after the other; the
  lemmas it needs follow from the contract alone.
\<close>

locale varint_decoder =
  fixes dec :: "bytes \<Rightarrow> nat \<Rightarrow> (nat \<times> nat) res"
  assumes dec_leb_dec: "ok_of (dec data offset) =
    map_option (\<lambda>(v, k). (v, offset + k)) (leb_dec 10 (drop offset data))"
begin

lemma dec_encoded:
  assumes "v < 2 ^ 70" and "drop offset data = leb v @ rest"
  shows "dec data offset = Inr (v, offset + length (leb v))"
proof -
  have "leb_dec 10 (drop offset data) = Some (v, length (leb v))"
    using assms leb_dec_leb [of v 10 rest] by simp
  then show ?thesis using dec_leb_dec [of data offset] by simp
qed

lemma dec_bounds:
  assumes "dec data offset = Inr (v, offset')"
  shows "offset < offset'" and "offset' \<le> length data" and "offset' \<le> offset + 10"
    and "v < 2 ^ 70"
proof -
  from assms obtain k where k: "leb_dec 10 (drop offset data) = Some (v, k)"
    and o: "offset' = offset + k"
    using dec_leb_dec [of data offset] by (auto split: option.splits simp: eq_commute [of "Some _"])
  from leb_dec_bounds [OF k] have b: "0 < k" "k \<le> length data - offset" "k \<le> 10" "v < 128 ^ k"
    by auto
  show "offset < offset'" "offset' \<le> length data" "offset' \<le> offset + 10" using b o by auto
  have "(128 :: nat) ^ k \<le> 128 ^ 10" using b(3) by (rule power_increasing) simp
  with b(4) show "v < 2 ^ 70" by simp
qed

text \<open>Only the bytes from the offset on matter, so a parser may cut the buffer between two fields.\<close>

lemma dec_shift:
  "ok_of (dec (drop n data) offset) = map_option (\<lambda>(v, o'). (v, o' - n)) (ok_of (dec data (n + offset)))"
  by (simp add: dec_leb_dec option.map_comp o_def add.commute case_prod_unfold)

lemma dec_drop:
  "dec data (n + offset) = Inr (v, offset') \<Longrightarrow> dec (drop n data) offset = Inr (v, offset' - n)"
  using dec_shift [of n data offset] by simp

lemma dec_needs_input: "length data \<le> offset \<Longrightarrow> \<not> is_ok (dec data offset)"
  using dec_leb_dec [of data offset] leb_dec_Nil by (cases "dec data offset") auto

end

interpretation raw_dec: varint_decoder raw_varint
  by unfold_locales
    (use raw_varint_loop_acc [of 0 0 _ _ 10] in \<open>simp add: raw_varint_def leb_acc_def\<close>)

interpretation export_dec: varint_decoder read_varint
  by unfold_locales
    (use read_varint_loop_acc [of 0 0 10] in \<open>simp add: read_varint_def leb_acc_def\<close>)

lemma raw_varint_error: "raw_varint data offset = Inl e \<Longrightarrow> \<exists>m. e = RawBlockStoreError m"
proof -
  have "raw_varint_loop data off w shifts = Inl e \<Longrightarrow> \<exists>m. e = RawBlockStoreError m"
    for off w shifts
    by (induction data off w shifts rule: raw_varint_loop.induct)
      (auto simp: Let_def split: if_splits)
  then show "raw_varint data offset = Inl e \<Longrightarrow> \<exists>m. e = RawBlockStoreError m"
    by (simp add: raw_varint_def)
qed

lemma read_varint_error: "read_varint data offset = Inl e \<Longrightarrow> e = ExportError ''invalid CID varint''"
proof -
  have "read_varint_loop data off w shift = Inl e \<Longrightarrow> e = ExportError ''invalid CID varint''"
    for off w shift
    by (induction data off w shift rule: read_varint_loop.induct)
      (subst (asm) (2) read_varint_loop.simps, auto simp: Let_def split: if_splits)
  then show "read_varint data offset = Inl e \<Longrightarrow> e = ExportError ''invalid CID varint''"
    by (simp add: read_varint_def)
qed

end
