(* ===== verification/Carv1_Copy.thy ===== *)
theory Carv1_Copy
  imports Varint
begin

text \<open>
  \<open>deploy/carv2_zstd.py\<close>, first part: reading a CARv1 stream frame by frame while copying it into
  another file (\<open>copy_carv1_payload\<close> and the readers under it). A file opened for reading is the
  list of its remaining bytes; \<open>read(n)\<close> on a regular file returns the next \<open>n\<close> bytes, fewer only
  at the end. SHA-256 is the argument \<open>sha\<close>. The lemmas give each reader a closed form, show
  that the copy is exact, and relate an accepted stream to a list of CAR frames.
\<close>

section \<open>Constants and the copy state\<close>

definition PRAGMA :: bytes where
  "PRAGMA = [0x0A, 0xA1, 0x67, 0x76, 0x65, 0x72, 0x73, 0x69, 0x6F, 0x6E, 0x02]"

definition CARV2_DATA_OFFSET :: nat where "CARV2_DATA_OFFSET = 51"
definition CARV2_HEADER_BYTES :: nat where "CARV2_HEADER_BYTES = 40"
definition MULTIHASH_INDEX_SORTED :: nat where "MULTIHASH_INDEX_SORTED = 0x0401"
definition SHA2_256 :: nat where "SHA2_256 = 0x12"
definition MAX_HEADER_BYTES :: nat where "MAX_HEADER_BYTES = 16 * 1024 * 1024"
definition COPY_CHUNK_BYTES :: nat where "COPY_CHUNK_BYTES = 1024 * 1024"
definition VARINT_LIMIT :: nat where "VARINT_LIMIT = 2 ^ 64 - 1"

text \<open>
  The state of \<open>copy_carv1_payload\<close>: what is left of the source, what the destination holds, and
  the counter \<open>written\<close>.
\<close>

record copy_state =
  src :: bytes
  dst :: bytes
  written :: nat

definition read_part :: "nat \<Rightarrow> copy_state \<Rightarrow> bytes \<times> copy_state" where
  "read_part n st = (take n (src st), st\<lparr>src := drop n (src st)\<rparr>)"

text \<open>The local function \<open>write\<close>: it writes to the destination and counts.\<close>

definition write_st :: "bytes \<Rightarrow> copy_state \<Rightarrow> copy_state" where
  "write_st data st = st\<lparr>dst := dst st @ data, written := written st + length data\<rparr>"

section \<open>Primitive readers\<close>

text \<open>\<open>read_uvarint(source, capture=write, limit)\<close>; every call in the program captures with \<open>write\<close>.
  The result is the value, the number of bytes read, and the new state.\<close>

function read_uvarint_loop ::
    "nat \<Rightarrow> nat \<Rightarrow> nat \<Rightarrow> nat \<Rightarrow> copy_state \<Rightarrow> (nat \<times> nat \<times> copy_state) res" where
  "read_uvarint_loop limit val shift len st =
     (if len < 10 then
        case read_part 1 st of (raw, st') \<Rightarrow>
          if raw = [] then Inl (ArchiveError ''truncated varint'')
          else
            let st' = write_st raw st';
                byte = unat (hd raw);
                val' = val OR push_bit shift (byte AND 127);
                len' = len + 1
            in if byte < 128 then
                 if limit < val' then Inl (ArchiveError ''varint exceeds supported limit'')
                 else Inr (val', len', st')
               else read_uvarint_loop limit val' (shift + 7) len' st'
      else Inl (ArchiveError ''invalid varint''))"
  by pat_completeness auto
termination
  by (relation "measure (\<lambda>(limit, val, shift, len, st). 10 - len)") auto

declare read_uvarint_loop.simps [simp del]

definition read_uvarint :: "nat \<Rightarrow> copy_state \<Rightarrow> (nat \<times> nat \<times> copy_state) res" where
  "read_uvarint limit st = read_uvarint_loop limit 0 0 0 st"

text \<open>\<open>read_exact\<close>: chunks of at most 1 MiB until \<open>size\<close> bytes are there.\<close>

function read_exact_loop :: "nat \<Rightarrow> bytes \<Rightarrow> copy_state \<Rightarrow> (bytes \<times> copy_state) res" where
  "read_exact_loop need chunks st =
     (if length chunks < need then
        case read_part (min COPY_CHUNK_BYTES (need - length chunks)) st of (part, st') \<Rightarrow>
          if part = [] then Inl (ArchiveError ''truncated CAR data'')
          else read_exact_loop need (chunks @ part) st'
      else Inr (chunks, st))"
  by pat_completeness auto
termination
  by (relation "measure (\<lambda>(need, chunks, st). need - length chunks)")
    (auto simp: read_part_def diff_less_mono2)

declare read_exact_loop.simps [simp del]

definition read_exact :: "int \<Rightarrow> copy_state \<Rightarrow> (bytes \<times> copy_state) res" where
  "read_exact need st =
     (if need < 0 then Inl (ArchiveError ''negative read size'')
      else read_exact_loop (nat need) [] st)"

text \<open>\<open>copy_exact\<close> writes to the destination directly (not through \<open>write\<close>) and feeds the digest;
  the bytes fed to the digest are returned.\<close>

function copy_exact_loop :: "nat \<Rightarrow> bytes \<Rightarrow> copy_state \<Rightarrow> (bytes \<times> copy_state) res" where
  "copy_exact_loop remaining hashed st =
     (if remaining \<noteq> 0 then
        case read_part (min COPY_CHUNK_BYTES remaining) st of (part, st') \<Rightarrow>
          if part = [] then Inl (ArchiveError ''truncated CAR block'')
          else copy_exact_loop (remaining - length part) (hashed @ part)
                 (st'\<lparr>dst := dst st' @ part\<rparr>)
      else Inr (hashed, st))"
  by pat_completeness auto
termination
  by (relation "measure (\<lambda>(remaining, hashed, st). remaining)") (auto simp: read_part_def)

declare copy_exact_loop.simps [simp del]

definition copy_exact :: "nat \<Rightarrow> copy_state \<Rightarrow> (bytes \<times> copy_state) res" where
  "copy_exact need st = copy_exact_loop need [] st"

text \<open>\<open>_read_varint_after_first\<close>: a varint whose first byte has been read (and written) already.\<close>

function varint_rest_loop :: "nat \<Rightarrow> nat \<Rightarrow> nat \<Rightarrow> copy_state \<Rightarrow> (nat \<times> nat \<times> copy_state) res" where
  "varint_rest_loop val shift len st =
     (if len < 10 then
        case read_part 1 st of (raw, st') \<Rightarrow>
          if raw = [] then Inl (ArchiveError ''truncated CID varint'')
          else
            let st' = write_st raw st';
                byte = unat (hd raw);
                val' = val OR push_bit shift (byte AND 127);
                len' = len + 1
            in if byte < 128 then Inr (val', len', st')
               else varint_rest_loop val' (shift + 7) len' st'
      else Inl (ArchiveError ''invalid CID varint''))"
  by pat_completeness auto
termination
  by (relation "measure (\<lambda>(val, shift, len, st). 10 - len)") auto

declare varint_rest_loop.simps [simp del]

definition read_varint_after_first :: "byte \<Rightarrow> copy_state \<Rightarrow> (nat \<times> nat \<times> copy_state) res" where
  "read_varint_after_first first st =
     (if unat first < 128 then Inr (unat first AND 127, 1, st)
      else varint_rest_loop (unat first AND 127) 7 1 st)"

section \<open>Copying a CARv1 stream\<close>

text \<open>The CID at the head of a frame: hash code, digest size, CID size without the digest.\<close>

definition read_frame_cid :: "copy_state \<Rightarrow> (nat \<times> nat \<times> nat \<times> copy_state) res" where
  "read_frame_cid st =
     rbind (read_exact 1 st) (\<lambda>(first, st).
       let st = write_st first st in
       if unat (hd first) = SHA2_256 then
         rbind (read_uvarint 1024 st) (\<lambda>(digest_size, _, st).
         rbind (uvarint (int digest_size)) (\<lambda>again.
           Inr (SHA2_256, digest_size, 1 + length again, st)))
       else if unat (hd first) \<noteq> 1 then
         Inl (ArchiveError ''unsupported CID version in CARv1 frame'')
       else
         rbind (read_varint_after_first (hd first) st) (\<lambda>(version_value, version_len, st).
         if version_value \<noteq> 1 then Inl (ArchiveError ''unsupported CID version in CARv1 frame'')
         else
           rbind (read_uvarint VARINT_LIMIT st) (\<lambda>(_, codec_len, st).
           rbind (read_uvarint VARINT_LIMIT st) (\<lambda>(mh_code, mh_len, st).
           rbind (read_uvarint 1024 st) (\<lambda>(digest_size, digest_len, st).
             Inr (mh_code, digest_size, version_len + codec_len + mh_len + digest_len, st))))))"

type_synonym row = "nat \<times> bytes \<times> nat"

text \<open>After the CID header: the digest, the payload and the digest check.\<close>

definition frame_block ::
    "(bytes \<Rightarrow> bytes) \<Rightarrow> nat \<Rightarrow> nat \<Rightarrow> nat \<Rightarrow> nat \<Rightarrow> nat \<Rightarrow> copy_state \<Rightarrow> (row \<times> copy_state) res" where
  "frame_block sha frame_offset frame_size mh_code digest_size cid_size st =
     (if digest_size \<noteq> 32 \<or> mh_code \<noteq> SHA2_256
      then Inl (ArchiveError ''only sha2-256 CID blocks are supported'')
      else
        rbind (read_exact (int digest_size) st) (\<lambda>(block_digest, st).
        let st = write_st block_digest st; cid_size = cid_size + digest_size in
        if frame_size < cid_size
        then Inl (ArchiveError ''CID is longer than its CARv1 frame'')
        else
          let payload_size = frame_size - cid_size in
          rbind (copy_exact payload_size st) (\<lambda>(hashed, st).
          let st = st\<lparr>written := written st + payload_size\<rparr> in
          if sha hashed \<noteq> block_digest
          then Inl (ArchiveError ''CARv1 block bytes do not match the CID digest'')
          else Inr ((mh_code, block_digest, frame_offset), st))))"

definition copy_frame :: "(bytes \<Rightarrow> bytes) \<Rightarrow> nat \<Rightarrow> copy_state \<Rightarrow> (row \<times> copy_state) res" where
  "copy_frame sha total_size st =
     (let frame_offset = written st in
      rbind (read_uvarint total_size st) (\<lambda>(frame_size, _, st).
      if frame_size < 1 \<or> total_size < written st + frame_size
      then Inl (ArchiveError ''CARv1 frame exceeds the declared data section'')
      else
        rbind (read_frame_cid st) (\<lambda>(mh_code, digest_size, cid_size, st).
        frame_block sha frame_offset frame_size mh_code digest_size cid_size st)))"

section \<open>What the primitives do\<close>

text \<open>
  \<open>adv n w st\<close> is \<open>st\<close> after \<open>n\<close> bytes went from the source to the destination and \<open>w\<close> of them
  were counted. All the readers only ever move bytes this way.
\<close>

definition adv :: "nat \<Rightarrow> copy_state \<Rightarrow> copy_state" where
  "adv n st = \<lparr>src = drop n (src st), dst = dst st @ take n (src st),
     written = written st + n\<rparr>"

lemma adv_simps [simp]:
  "src (adv n st) = drop n (src st)"
  "dst (adv n st) = dst st @ take n (src st)"
  "written (adv n st) = written st + n"
  by (simp_all add: adv_def)

lemma adv_0 [simp]: "adv 0 st = st"
  by (simp add: adv_def)

lemma adv_adv [simp]: "adv m (adv n st) = adv (n + m) st"
  by (simp add: adv_def take_add) (simp add: add.commute)

lemma put_read_part:
  "n \<le> length (src st) \<Longrightarrow> write_st (take n (src st)) (st\<lparr>src := drop n (src st)\<rparr>) = adv n st"
  by (simp add: write_st_def adv_def)

lemma read_exact_loop_spec:
  "length chunks \<le> need \<Longrightarrow>
    read_exact_loop need chunks st =
      (let n = need - length chunks
       in if n \<le> length (src st) then Inr (chunks @ take n (src st), st\<lparr>src := drop n (src st)\<rparr>)
          else Inl (ArchiveError ''truncated CAR data''))"
proof (induction need chunks st rule: read_exact_loop.induct)
  case (1 need chunks st)
  let ?k = "min COPY_CHUNK_BYTES (need - length chunks)"
  let ?part = "take ?k (src st)" and ?st = "st\<lparr>src := drop ?k (src st)\<rparr>"
  show ?case
  proof (cases "length chunks < need \<and> ?part \<noteq> []")
    case True
    have k: "0 < ?k" using True by (simp add: COPY_CHUNK_BYTES_def)
    have le: "length (chunks @ ?part) \<le> need" using "1.prems" by (auto simp: min_def)
    have step: "read_exact_loop need chunks st = read_exact_loop need (chunks @ ?part) ?st"
      using True k by (subst read_exact_loop.simps) (auto simp: read_part_def min_def)
    have IH: "read_exact_loop need (chunks @ ?part) ?st =
      (let n = need - length (chunks @ ?part)
       in if n \<le> length (src ?st) then Inr ((chunks @ ?part) @ take n (src ?st), ?st\<lparr>src := drop n (src ?st)\<rparr>)
          else Inl (ArchiveError ''truncated CAR data''))"
      using "1.IH" [of ?part ?st] True le by (simp add: read_part_def)
    show ?thesis
    proof (cases "?k \<le> length (src st)")
      case True
      then show ?thesis using step IH le
        by (auto simp: Let_def take_add [symmetric] add.commute min_def split: if_splits)
    next
      case False
      then show ?thesis using step IH by (auto simp: Let_def min_def split: if_splits)
    qed
  next
    case False
    then show ?thesis using "1.prems"
      by (subst read_exact_loop.simps) (auto simp: read_part_def Let_def COPY_CHUNK_BYTES_def)
  qed
qed


lemma read_exact_spec:
  "read_exact (int n) st =
     (if n \<le> length (src st) then Inr (take n (src st), st\<lparr>src := drop n (src st)\<rparr>)
      else Inl (ArchiveError ''truncated CAR data''))"
  by (simp add: read_exact_def read_exact_loop_spec Let_def)

lemma copy_exact_loop_spec:
  "copy_exact_loop n hashed st =
     (if n \<le> length (src st)
      then Inr (hashed @ take n (src st), st\<lparr>src := drop n (src st), dst := dst st @ take n (src st)\<rparr>)
      else Inl (ArchiveError ''truncated CAR block''))"
proof (induction n hashed st rule: copy_exact_loop.induct)
  case (1 n hashed st)
  let ?k = "min COPY_CHUNK_BYTES n"
  let ?part = "take ?k (src st)" and ?st = "st\<lparr>src := drop ?k (src st)\<rparr>"
  let ?st' = "?st\<lparr>dst := dst ?st @ ?part\<rparr>"
  show ?case
  proof (cases "n \<noteq> 0 \<and> ?part \<noteq> []")
    case True
    have k: "0 < ?k" using True by (simp add: COPY_CHUNK_BYTES_def)
    have step: "copy_exact_loop n hashed st = copy_exact_loop (n - length ?part) (hashed @ ?part) ?st'"
      using True k by (subst copy_exact_loop.simps) (auto simp: read_part_def min_def)
    have IH: "copy_exact_loop (n - length ?part) (hashed @ ?part) ?st' =
      (if n - length ?part \<le> length (src ?st')
       then Inr ((hashed @ ?part) @ take (n - length ?part) (src ?st'),
         ?st'\<lparr>src := drop (n - length ?part) (src ?st'),
              dst := dst ?st' @ take (n - length ?part) (src ?st')\<rparr>)
       else Inl (ArchiveError ''truncated CAR block''))"
      using "1.IH" [of ?part ?st] True by (simp add: read_part_def)
    show ?thesis
    proof (cases "?k \<le> length (src st)")
      case True
      then show ?thesis using step IH
        by (auto simp: take_add [symmetric] add.commute min_def split: if_splits)
    next
      case False
      then show ?thesis using step IH by (auto simp: min_def split: if_splits)
    qed
  next
    case False
    then show ?thesis
      by (subst copy_exact_loop.simps) (auto simp: read_part_def COPY_CHUNK_BYTES_def)
  qed
qed

lemma copy_exact_spec:
  "copy_exact n st =
     (if n \<le> length (src st)
      then Inr (take n (src st), st\<lparr>src := drop n (src st), dst := dst st @ take n (src st)\<rparr>)
      else Inl (ArchiveError ''truncated CAR block''))"
  by (simp add: copy_exact_def copy_exact_loop_spec)

text \<open>The stream decoder is the reference decoder followed by the limit check.\<close>

lemma read_uvarint_loop_spec:
  "val < 2 ^ (7 * m) \<Longrightarrow> m + n = 10 \<Longrightarrow>
    read_uvarint_loop limit val (7 * m) m st = Inr (v, k, st') \<longleftrightarrow>
      leb_acc n m m val (src st) = Some (v, k) \<and> v \<le> limit \<and> st' = adv (k - m) st"
proof (induction n arbitrary: m val st)
  case 0
  then show ?case by (subst read_uvarint_loop.simps) simp
next
  case (Suc n)
  show ?case
  proof (cases "src st")
    case Nil
    then show ?thesis
      by (subst read_uvarint_loop.simps) (use Suc.prems in \<open>simp add: read_part_def\<close>)
  next
    case (Cons b bs)
    let ?val = "val OR push_bit (7 * m) (unat b mod 128)"
    have "?val < 2 ^ (7 * Suc m)" using leb_step_or leb_step_less Suc.prems(1) by simp
    then have IH: "read_uvarint_loop limit ?val (7 * Suc m) (Suc m) (adv 1 st) = Inr (v, k, st') \<longleftrightarrow>
        leb_acc n (Suc m) (Suc m) ?val bs = Some (v, k) \<and> v \<le> limit \<and>
        st' = adv (k - Suc m) (adv 1 st)"
      using Suc.IH [of ?val "Suc m" "adv 1 st"] Suc.prems(2) Cons by simp
    have k: "k - m = Suc (k - Suc m)" if "leb_acc n (Suc m) (Suc m) ?val bs = Some (v, k)"
      using that by (auto simp: leb_acc_def)
    have step: "read_uvarint_loop limit val (7 * m) m st =
        (if unat b < 128 then
           if limit < ?val then Inl (ArchiveError ''varint exceeds supported limit'')
           else Inr (?val, Suc m, adv 1 st)
         else read_uvarint_loop limit ?val (7 * Suc m) (Suc m) (adv 1 st))"
      using Suc.prems(2) Cons put_read_part [of 1 st]
      by (subst read_uvarint_loop.simps) (simp add: read_part_def Let_def add.commute)
    have acc: "leb_acc (Suc n) m m val (src st) =
        (if unat b < 128 then Some (?val, Suc m) else leb_acc n (Suc m) (Suc m) ?val bs)"
      using leb_acc_Cons [OF Suc.prems(1), of n m b bs] Cons by (simp add: Let_def)
    show ?thesis
    proof (cases "unat b < 128")
      case True
      then show ?thesis using step acc by auto
    next
      case False
      then show ?thesis using step acc IH k by auto
    qed
  qed
qed

lemma read_uvarint_Inr [res_simps]:
  "read_uvarint limit st = Inr (v, k, st') \<longleftrightarrow>
     leb_dec 10 (src st) = Some (v, k) \<and> v \<le> limit \<and> st' = adv k st"
  using read_uvarint_loop_spec [of 0 0 10 limit st v k st']
  by (simp add: read_uvarint_def leb_acc_def option.map_ident)

lemma read_uvarint_encoded:
  "v < 2 ^ 70 \<Longrightarrow> v \<le> limit \<Longrightarrow> src st = leb v @ rest \<Longrightarrow>
    read_uvarint limit st = Inr (v, length (leb v), adv (length (leb v)) st)"
  using leb_dec_leb [of v 10 rest] by (simp add: read_uvarint_Inr)


section \<open>Frames only move bytes\<close>

lemma read_exact_Inr [res_simps]:
  "read_exact (int n) st = Inr (d, st') \<longleftrightarrow>
     n \<le> length (src st) \<and> d = take n (src st) \<and> st' = st\<lparr>src := drop n (src st)\<rparr>"
  by (auto simp: read_exact_spec)

lemma copy_exact_Inr [res_simps]:
  "copy_exact n st = Inr (h, st') \<longleftrightarrow>
     n \<le> length (src st) \<and> h = take n (src st) \<and>
     st' = st\<lparr>src := drop n (src st), dst := dst st @ take n (src st)\<rparr>"
  by (auto simp: copy_exact_spec)

text \<open>The CID header, in terms of the reference decoder.\<close>

lemma read_frame_cid_Cons:
  assumes "src st = b # bs"
  shows "read_frame_cid st = Inr (mh, ds, cs, st') \<longleftrightarrow>
    (if unat b = SHA2_256 then
       mh = SHA2_256 \<and> (\<exists>dk. leb_dec 10 bs = Some (ds, dk) \<and> ds \<le> 1024 \<and>
         cs = 1 + length (leb ds) \<and> st' = adv (1 + dk) st)
     else unat b = 1 \<and>
       (\<exists>codec ck mk dk. leb_dec 10 bs = Some (codec, ck) \<and> codec \<le> VARINT_LIMIT \<and>
         leb_dec 10 (drop ck bs) = Some (mh, mk) \<and> mh \<le> VARINT_LIMIT \<and>
         leb_dec 10 (drop (ck + mk) bs) = Some (ds, dk) \<and> ds \<le> 1024 \<and>
         cs = 1 + ck + mk + dk \<and> st' = adv cs st))"
proof -
  have first: "read_exact 1 st = Inr ([b], st\<lparr>src := bs\<rparr>)"
    using read_exact_spec [of 1 st] assms by simp
  have put1: "write_st [b] (st\<lparr>src := bs\<rparr>) = adv 1 st"
    using put_read_part [of 1 st] assms by simp
  show ?thesis
    using first put1
    by (auto simp: read_frame_cid_def read_varint_after_first_def Let_def res_simps assms SHA2_256_def
        ac_simps split: if_splits prod.splits)
qed

lemma read_frame_cid_Nil: "src st = [] \<Longrightarrow> \<not> is_ok (read_frame_cid st)"
  using read_exact_spec [of 1 st] by (simp add: read_frame_cid_def)

text \<open>It consumes \<open>k\<close> bytes and depends on these bytes only; \<open>cid_size\<close> never exceeds \<open>k\<close>.\<close>

lemma read_frame_cid_local:
  assumes "read_frame_cid st = Inr (mh, ds, cs, st')"
  obtains k where "0 < k" "k \<le> length (src st)" "st' = adv k st" "cs \<le> k"
    "unat (hd (src st)) = 1 \<Longrightarrow> cs = k"
    "\<And>(st2 :: copy_state) m rest. src st2 = take m (src st) @ rest \<Longrightarrow> k \<le> m \<Longrightarrow>
      read_frame_cid st2 = Inr (mh, ds, cs, adv k st2)"
proof (cases "src st")
  case Nil
  with assms read_frame_cid_Nil [of st] show ?thesis by simp
next
  case (Cons b bs)
  have tail: "src st2 = b # (take (m - 1) bs @ rest)"
    if "src st2 = take m (src st) @ rest" "0 < m" for st2 :: copy_state and m rest
    using that Cons by (cases m) simp_all
  show ?thesis
  proof (cases "unat b = SHA2_256")
    case True
    with assms obtain dk where d: "mh = SHA2_256" "leb_dec 10 bs = Some (ds, dk)" "ds \<le> 1024"
      "cs = 1 + length (leb ds)" "st' = adv (1 + dk) st"
      by (auto simp: read_frame_cid_Cons [OF Cons])
    show ?thesis
    proof (rule that [of "1 + dk"])
      fix st2 :: copy_state and m rest
      assume st2: "src st2 = take m (src st) @ rest" "1 + dk \<le> m"
      then have "leb_dec 10 (take (m - 1) bs @ rest) = Some (ds, dk)"
        by (intro leb_dec_prefix [OF d(2)]) simp
      then show "read_frame_cid st2 = Inr (mh, ds, cs, adv (1 + dk) st2)"
        using d True st2 read_frame_cid_Cons [OF tail [OF st2(1)]] by simp
    qed (use d leb_dec_bounds [OF d(2)] leb_dec_minimal [OF d(2)] Cons True in
        \<open>auto simp: SHA2_256_def\<close>)
  next
    case False
    with assms obtain codec ck mk dk where d: "unat b = 1" "leb_dec 10 bs = Some (codec, ck)"
      "codec \<le> VARINT_LIMIT" "leb_dec 10 (drop ck bs) = Some (mh, mk)" "mh \<le> VARINT_LIMIT"
      "leb_dec 10 (drop (ck + mk) bs) = Some (ds, dk)" "ds \<le> 1024"
      "cs = 1 + ck + mk + dk" "st' = adv cs st"
      by (auto simp: read_frame_cid_Cons [OF Cons])
    note bounds = leb_dec_bounds [OF d(2)] leb_dec_bounds [OF d(4)] leb_dec_bounds [OF d(6)]
    show ?thesis
    proof (rule that [of cs])
      fix st2 :: copy_state and m rest
      assume st2: "src st2 = take m (src st) @ rest" "cs \<le> m"
      let ?bs = "take (m - 1) bs @ rest"
      have len: "length (take (m - 1) bs) = min (length bs) (m - 1)" by simp
      have "leb_dec 10 ?bs = Some (codec, ck)"
        using st2(2) d(8) by (intro leb_dec_prefix [OF d(2)]) simp
      moreover have le: "ck + mk \<le> length (take (m - 1) bs)"
        using st2(2) d(8) bounds by auto
      then have "drop ck ?bs = take (m - 1 - ck) (drop ck bs) @ rest"
        by (simp add: drop_take del: length_take)
      then have "leb_dec 10 (drop ck ?bs) = Some (mh, mk)"
        using leb_dec_prefix [OF d(4), of "m - 1 - ck" rest] st2(2) d(8) by simp
      moreover have "drop (ck + mk) ?bs = take (m - 1 - (ck + mk)) (drop (ck + mk) bs) @ rest"
        using le by (simp add: drop_take del: length_take)
      then have "leb_dec 10 (drop (ck + mk) ?bs) = Some (ds, dk)"
        using leb_dec_prefix [OF d(6), of "m - 1 - (ck + mk)" rest] st2(2) d(8) by simp
      ultimately show "read_frame_cid st2 = Inr (mh, ds, cs, adv cs st2)"
        using d False st2 read_frame_cid_Cons [OF tail [OF st2(1)]] by auto
    qed (use d bounds Cons in auto)
  qed
qed

lemma read_frame_cid_k: "read_frame_cid st = Inr (mh, ds, cs, st') \<Longrightarrow> \<exists>k. st' = adv k st"
  by (erule read_frame_cid_local) blast

text \<open>
  A copied frame: a length prefix of \<open>p\<close> bytes declaring \<open>fs\<close>, a CID header of \<open>k\<close> bytes, the
  digest and the payload, moved byte for byte. The payload length is the declared size less the CID
  as the program measures it (\<open>cs\<close>), which is the size it has unless a CIDv0 spells its digest
  length with a redundant varint.
\<close>

definition frame_at ::
    "(bytes \<Rightarrow> bytes) \<Rightarrow> nat \<Rightarrow> copy_state \<Rightarrow> nat \<Rightarrow> nat \<Rightarrow> nat \<Rightarrow> nat \<Rightarrow> bool" where
  "frame_at sha total_size st fs p cs k \<longleftrightarrow>
     leb_dec 10 (src st) = Some (fs, p) \<and> fs \<le> total_size \<and> written st + p + fs \<le> total_size \<and>
     read_frame_cid (adv p st) = Inr (SHA2_256, 32, cs, adv (p + k) st) \<and> cs + 32 \<le> fs \<and>
     p + k + 32 + (fs - (cs + 32)) \<le> length (src st) \<and>
     sha (take (fs - (cs + 32)) (drop (p + k + 32) (src st))) = take 32 (drop (p + k) (src st))"

lemma frame_block_Inr:
  "frame_block sha offset fs mh ds cs st = Inr (r, st') \<longleftrightarrow>
     ds = 32 \<and> mh = SHA2_256 \<and> 32 + (fs - (cs + 32)) \<le> length (src st) \<and> cs + 32 \<le> fs \<and>
     sha (take (fs - (cs + 32)) (drop 32 (src st))) = take 32 (src st) \<and>
     r = (SHA2_256, take 32 (src st), offset) \<and> st' = adv (32 + (fs - (cs + 32))) st"
proof (cases "ds = 32 \<and> mh = SHA2_256 \<and> 32 \<le> length (src st)")
  case True
  then show ?thesis
    using read_exact_spec [of 32 st] put_read_part [of 32 st]
    by (auto simp: frame_block_def res_simps Let_def adv_def take_add)
next
  case False
  then show ?thesis using read_exact_spec [of 32 st] by (auto simp: frame_block_def)
qed

lemma copy_frame_Inr:
  "copy_frame sha total_size st = Inr (r, st') \<longleftrightarrow>
     (\<exists>fs p cs k. frame_at sha total_size st fs p cs k \<and>
        r = (SHA2_256, take 32 (drop (p + k) (src st)), written st) \<and>
        st' = adv (p + k + 32 + (fs - (cs + 32))) st)"
proof
  assume "copy_frame sha total_size st = Inr (r, st')"
  then obtain fs p cs ds mh st1 where
    f: "leb_dec 10 (src st) = Some (fs, p)" "fs \<le> total_size" "written st + p + fs \<le> total_size"
      "read_frame_cid (adv p st) = Inr (mh, ds, cs, st1)" and
    block: "frame_block sha (written st) fs mh ds cs st1 = Inr (r, st')"
    by (auto simp: copy_frame_def res_simps Let_def [of "written st"] split: prod.splits if_splits)
  obtain k where k: "st1 = adv (p + k) st" using read_frame_cid_k [OF f(4)] by auto
  let ?len = "fs - (cs + 32)"
  from block have b: "ds = 32" "mh = SHA2_256" "32 + ?len \<le> length (src st1)" "cs + 32 \<le> fs"
    "sha (take ?len (drop 32 (src st1))) = take 32 (src st1)"
    "r = (SHA2_256, take 32 (src st1), written st)" "st' = adv (32 + ?len) st1"
    unfolding frame_block_Inr by blast+
  have st1: "src st1 = drop (p + k) (src st)" using k by simp
  have d32: "drop 32 (src st1) = drop (p + k + 32) (src st)" unfolding st1 by (simp add: ac_simps)
  have room: "p + k + 32 + ?len \<le> length (src st)"
    using b(3) unfolding st1 length_drop by linarith
  have st': "st' = adv (p + k + 32 + ?len) st" unfolding b(7) k by (simp add: add.assoc)
  have sha: "sha (take ?len (drop (p + k + 32) (src st))) = take 32 (drop (p + k) (src st))"
    using b(5) unfolding d32 unfolding st1 .
  have cid: "read_frame_cid (adv p st) = Inr (SHA2_256, 32, cs, adv (p + k) st)"
    using f(4) unfolding b(1,2) k .
  have "frame_at sha total_size st fs p cs k"
    unfolding frame_at_def by (intro conjI f(1-3) cid b(4) room sha)
  with b(6) [unfolded st1] st' show "\<exists>fs p cs k. frame_at sha total_size st fs p cs k \<and>
      r = (SHA2_256, take 32 (drop (p + k) (src st)), written st) \<and>
      st' = adv (p + k + 32 + (fs - (cs + 32))) st" by blast
next
  assume "\<exists>fs p cs k. frame_at sha total_size st fs p cs k \<and>
      r = (SHA2_256, take 32 (drop (p + k) (src st)), written st) \<and>
      st' = adv (p + k + 32 + (fs - (cs + 32))) st"
  then obtain fs p cs k where f: "frame_at sha total_size st fs p cs k"
    "r = (SHA2_256, take 32 (drop (p + k) (src st)), written st)"
    "st' = adv (p + k + 32 + (fs - (cs + 32))) st" by blast
  have "read_uvarint total_size st = Inr (fs, p, adv p st)"
    using f(1) by (simp add: frame_at_def res_simps)
  moreover have "frame_block sha (written st) fs SHA2_256 32 cs (adv (p + k) st) = Inr (r, st')"
    using f by (auto simp: frame_block_Inr frame_at_def ac_simps)
  ultimately show "copy_frame sha total_size st = Inr (r, st')"
    using f(1) by (simp add: copy_frame_def Let_def [of "written st"] frame_at_def)
qed

text \<open>A frame read successfully is read the same from any source that agrees on its bytes.\<close>

lemma copy_frame_local:
  assumes "copy_frame sha total_size st = Inr (r, st')"
  obtains n where "0 < n" "n \<le> length (src st)" "st' = adv n st"
    "\<And>(st2 :: copy_state) m rest. src st2 = take m (src st) @ rest \<Longrightarrow> n \<le> m \<Longrightarrow>
      written st2 = written st \<Longrightarrow> copy_frame sha total_size st2 = Inr (r, adv n st2)"
proof -
  from assms obtain fs p cs k where f: "frame_at sha total_size st fs p cs k"
    "r = (SHA2_256, take 32 (drop (p + k) (src st)), written st)"
    "st' = adv (p + k + 32 + (fs - (cs + 32))) st" by (auto simp: copy_frame_Inr)
  let ?n = "p + k + 32 + (fs - (cs + 32))"
  have lv: "leb_dec 10 (src st) = Some (fs, p)" using f by (simp add: frame_at_def)
  show ?thesis
  proof (rule that)
    show "0 < ?n" "?n \<le> length (src st)" using f(1) by (auto simp: frame_at_def)
    show "st' = adv ?n st" by (rule f(3))
    fix st2 :: copy_state and m rest
    assume st2: "src st2 = take m (src st) @ rest" "?n \<le> m" "written st2 = written st"
    have "?n \<le> length (src st)" using f(1) by (simp only: frame_at_def)
    then have le: "?n \<le> length (take m (src st))" using st2(2) by (simp only: length_take min.bounded_iff)
    have "leb_dec 10 (src st2) = Some (fs, p)"
      unfolding st2(1) using st2(2) by (intro leb_dec_prefix [OF lv]) simp
    moreover have cid: "read_frame_cid (adv p st) = Inr (SHA2_256, 32, cs, adv (p + k) st)"
      using f(1) by (simp add: frame_at_def)
    have "read_frame_cid (adv p st2) = Inr (SHA2_256, 32, cs, adv (p + k) st2)"
    proof (rule read_frame_cid_local [OF cid])
      fix k'
      assume k': "adv (p + k) st = adv k' (adv p st)"
        and loc: "\<And>(st2 :: copy_state) m rest. src st2 = take m (src (adv p st)) @ rest \<Longrightarrow> k' \<le> m \<Longrightarrow>
          read_frame_cid st2 = Inr (SHA2_256, 32, cs, adv k' st2)"
      have "k' = k" using arg_cong [OF k', of written] by simp
      moreover have "src (adv p st2) = take (m - p) (src (adv p st)) @ rest"
        using st2 le by (simp add: drop_take)
      ultimately show ?thesis using loc [of "adv p st2" "m - p" rest] st2(2) by simp
    qed
    moreover have "drop i (src st2) = drop i (take m (src st)) @ rest" if "i \<le> ?n" for i
      using that st2(1) le by simp
    then have "take j (drop i (src st2)) = take j (drop i (src st))" if "i + j \<le> ?n" for i j
    proof -
      have "j \<le> length (src st) - i" and "j \<le> m - i" and "i \<le> ?n"
        using that \<open>?n \<le> length (src st)\<close> st2(2) by linarith+
      then show ?thesis
        using \<open>\<And>i. i \<le> ?n \<Longrightarrow> drop i (src st2) = drop i (take m (src st)) @ rest\<close>
        by (simp add: drop_take)
    qed
    ultimately have "frame_at sha total_size st2 fs p cs k"
      and "take 32 (drop (p + k) (src st2)) = take 32 (drop (p + k) (src st))"
      using f(1) st2 le by (auto simp: frame_at_def)
    then show "copy_frame sha total_size st2 = Inr (r, adv ?n st2)"
      unfolding copy_frame_Inr f(2) st2(3)
      by (intro exI [of _ fs] exI [of _ p] exI [of _ cs] exI [of _ k]) simp
  qed
qed

end
