(* ===== verification/Cid_Codec.thy ===== *)
theory Cid_Codec
  imports Varint
begin

text \<open>
  Content identifiers as text: the regular expressions that admit them, base58 and base32
  decoding, \<open>raw_block_store._sha256_digest\<close> and \<open>verify_cid\<close>, and the exporter's
  \<open>cid_bytes\<close>. SHA-256 itself is the argument \<open>sha\<close> of the definitions that use it: nothing here
  depends on which hash function it is.
\<close>

section \<open>The accepted texts\<close>

definition BASE58 :: string where
  "BASE58 = ''123456789ABCDEFGHJKLMNPQRSTUVWXYZabcdefghijkmnopqrstuvwxyz''"

definition match_cid_v0 :: "string \<Rightarrow> bool" where
  \<comment> \<open>\<open>^Qm[1-9A-HJ-NP-Za-km-z]{44}$\<close>: the class is the base58 alphabet\<close>
  "match_cid_v0 s \<longleftrightarrow>
     length s = 46 \<and> take 2 s = ''Qm'' \<and> list_all (\<lambda>c. c \<in> set BASE58) (drop 2 s)"

definition is_base32_lower :: "char \<Rightarrow> bool" where
  "is_base32_lower c \<longleftrightarrow> (CHR ''a'' \<le> c \<and> c \<le> CHR ''z'') \<or> (CHR ''2'' \<le> c \<and> c \<le> CHR ''7'')"

definition match_cid_v1 :: "string \<Rightarrow> bool" where
  \<comment> \<open>\<open>^b[a-z2-7]{20,200}$\<close>\<close>
  "match_cid_v1 s \<longleftrightarrow>
     (case s of [] \<Rightarrow> False
      | c # t \<Rightarrow> c = CHR ''b'' \<and> 20 \<le> length t \<and> length t \<le> 200 \<and> list_all is_base32_lower t)"

text \<open>The combined pattern of the exporter, the auditor and the replicator (\<open>valid_cid\<close>).\<close>

definition match_cid :: "string \<Rightarrow> bool" where
  "match_cid s \<longleftrightarrow> match_cid_v0 s \<or> match_cid_v1 s"

text \<open>\<open>serve_lake.CID\<close>, \<open>^[a-zA-Z0-9]{46,100}$\<close>, is a coarser pattern.\<close>

definition is_alnum :: "char \<Rightarrow> bool" where
  "is_alnum c \<longleftrightarrow> (CHR ''a'' \<le> c \<and> c \<le> CHR ''z'') \<or> (CHR ''A'' \<le> c \<and> c \<le> CHR ''Z'') \<or>
     (CHR ''0'' \<le> c \<and> c \<le> CHR ''9'')"

definition match_served_cid :: "string \<Rightarrow> bool" where
  "match_served_cid s \<longleftrightarrow> 46 \<le> length s \<and> length s \<le> 100 \<and> list_all is_alnum s"

lemma match_cid_v0_v1_disjoint: "match_cid_v0 s \<Longrightarrow> \<not> match_cid_v1 s"
  by (cases s) (auto simp: match_cid_v0_def match_cid_v1_def)

section \<open>Alphabets\<close>

fun find_index :: "char \<Rightarrow> string \<Rightarrow> nat option" where
  "find_index c [] = None"
| "find_index c (x # xs) = (if x = c then Some 0 else map_option Suc (find_index c xs))"

lemma find_index_Some: "find_index c xs = Some i \<Longrightarrow> i < length xs \<and> xs ! i = c"
  by (induction xs arbitrary: i) (auto split: if_splits)

lemma find_index_None: "find_index c xs = None \<longleftrightarrow> c \<notin> set xs"
  by (induction xs) auto

lemma find_index_nth: "distinct xs \<Longrightarrow> i < length xs \<Longrightarrow> find_index (xs ! i) xs = Some i"
proof (induction xs arbitrary: i)
  case (Cons x xs)
  then show ?case by (cases i) (auto simp: nth_mem)
qed simp

text \<open>\<open>str.index\<close> raises \<open>ValueError\<close> when the character is absent.\<close>

definition str_index :: "string \<Rightarrow> char \<Rightarrow> nat res" where
  "str_index xs c = (case find_index c xs of None \<Rightarrow> Inl ValueError | Some i \<Rightarrow> Inr i)"

definition base58_value :: "string \<Rightarrow> nat res" where
  "base58_value cid =
     foldM (\<lambda>value char. rbind (str_index BASE58 char) (\<lambda>i. Inr (value * 58 + i))) 0 cid"

definition base58_text :: "nat \<Rightarrow> nat \<Rightarrow> string" where
  "base58_text k n = map (\<lambda>d. BASE58 ! d) (digits 58 k n)"

lemma BASE58_facts: "length BASE58 = 58" "distinct BASE58"
  by code_simp+

lemma base58_value_digits:
  assumes "\<And>d. d \<in> set ds \<Longrightarrow> d < 58"
  shows "base58_value (map (\<lambda>d. BASE58 ! d) ds) = Inr (dval 58 ds)"
  using assms
proof (induction ds rule: rev_induct)
  case Nil
  then show ?case by (simp add: base58_value_def)
next
  case (snoc d ds)
  then have "d < length BASE58" using BASE58_facts by simp
  then have "find_index (BASE58 ! d) BASE58 = Some d" by (rule find_index_nth [OF BASE58_facts(2)])
  with snoc show ?case by (simp add: base58_value_def foldM_append str_index_def)
qed

lemma base58_value_text: "n < 58 ^ k \<Longrightarrow> base58_value (base58_text k n) = Inr n"
  unfolding base58_text_def
  by (subst base58_value_digits) (auto dest: digits_less [rotated] simp: dval_digits)

section \<open>Base32\<close>

definition BASE32 :: string where
  "BASE32 = ''ABCDEFGHIJKLMNOPQRSTUVWXYZ234567''"

definition BASE32_lower :: string where
  "BASE32_lower = ''abcdefghijklmnopqrstuvwxyz234567''"

text \<open>\<open>str.upper()\<close> on ASCII.\<close>

definition upper_char :: "char \<Rightarrow> char" where
  "upper_char c = (if CHR ''a'' \<le> c \<and> c \<le> CHR ''z'' then char_of (of_char c - 32 :: nat) else c)"

text \<open>
  \<open>base64.b32decode\<close> (Python's standard library): the input must be a multiple of eight
  characters; \<open>=\<close> is stripped from the end and 0, 1, 3, 4 or 6 of them are acceptable; each
  quantum of eight digits gives five bytes, and a last quantum short by \<open>p\<close> digits gives the
  first \<open>(43 - 5 p) div 8\<close> bytes of the zero-extended quantum.
\<close>

fun b32_quanta :: "nat list \<Rightarrow> bytes" where
  "b32_quanta ds =
     (if 8 \<le> length ds then to_bytes_be 5 (dval 32 (take 8 ds)) @ b32_quanta (drop 8 ds)
      else if ds = [] then []
      else
        let p = 8 - length ds
        in take ((43 - 5 * p) div 8) (to_bytes_be 5 (dval 32 ds * 32 ^ p)))"

declare b32_quanta.simps [simp del]

definition rstrip_eq :: "string \<Rightarrow> string" where
  "rstrip_eq s = rev (dropWhile (\<lambda>c. c = CHR ''='') (rev s))"

definition b32_digits :: "string \<Rightarrow> nat list res" where
  "b32_digits s =
     foldM (\<lambda>ds c. rbind (str_index BASE32 c) (\<lambda>i. Inr (ds @ [i]))) [] s"

definition b32decode :: "string \<Rightarrow> bytes res" where
  "b32decode s =
     (if length s mod 8 \<noteq> 0 then Inl ValueError
      else
        let body = rstrip_eq s; padchars = length s - length body
        in rbind (b32_digits body)
             (\<lambda>ds. if padchars \<notin> {0, 1, 3, 4, 6} then Inl ValueError else Inr (b32_quanta ds)))"

section \<open>The CID parsers\<close>

text \<open>
  \<open>raw_block_store._sha256_digest\<close>. For a CIDv0 the text is one base58 number, written big-endian
  on as few bytes as it needs, after one zero byte for each leading \<open>1\<close>.
\<close>

definition pad_base32 :: "string \<Rightarrow> string" where
  "pad_base32 text = text @ replicate ((8 - length text mod 8) mod 8) (CHR ''='')"

definition leading_ones :: "string \<Rightarrow> nat" where
  "leading_ones cid = length (takeWhile (\<lambda>c. c = CHR ''1'') cid)"

definition multihash_of_cid :: "string \<Rightarrow> bytes res" where
  "multihash_of_cid cid =
     (if match_cid_v0 cid then
        rbind (base58_value cid) (\<lambda>value.
          Inr (replicate (leading_ones cid) 0 @ to_bytes_be ((bit_length value + 7) div 8) value))
      else if match_cid_v1 cid then
        let text = map upper_char (tl cid)
        in case b32decode (pad_base32 text) of
             Inl ValueError \<Rightarrow> Inl (RawBlockStoreError ''invalid CID base32'')
           | Inl e \<Rightarrow> Inl e
           | Inr encoded \<Rightarrow>
               rbind (raw_varint encoded 0) (\<lambda>(version, offset).
                 if version \<noteq> 1 then Inl (RawBlockStoreError ''unsupported CID version'')
                 else rbind (raw_varint encoded offset) (\<lambda>(_, offset). Inr (drop offset encoded)))
      else Inl (RawBlockStoreError ''invalid CID syntax''))"

definition sha256_digest :: "string \<Rightarrow> bytes res" where
  "sha256_digest cid =
     rbind (multihash_of_cid cid) (\<lambda>encoded.
       rbind (raw_varint encoded 0) (\<lambda>(code, offset).
         rbind (raw_varint encoded offset) (\<lambda>(len, offset).
           if code \<noteq> 0x12 \<or> len \<noteq> 32 \<or> length encoded - offset \<noteq> 32
           then Inl (RawBlockStoreError ''raw store requires a sha2-256 CID'')
           else Inr (drop offset encoded))))"

definition verify_cid :: "(bytes \<Rightarrow> bytes) \<Rightarrow> string \<Rightarrow> bytes \<Rightarrow> unit res" where
  "verify_cid sha cid data =
     rbind (sha256_digest cid) (\<lambda>digest.
       if sha data \<noteq> digest then Inl (RawBlockStoreError ''raw block CID differs from bytes'')
       else Inr ())"

text \<open>\<open>export_lake_car_from_kubo.cid_bytes\<close>: the binary CID and its digest.\<close>

definition cid_bytes :: "string \<Rightarrow> (bytes \<times> bytes) res" where
  "cid_bytes cid =
     (if \<not> match_cid cid then Inl (ExportError ''invalid inventory CID'')
      else rbind
        (if take 2 cid = ''Qm'' then
           rbind (base58_value cid) (\<lambda>number.
             Inr ([0x01, 0x70] @ to_bytes_be ((bit_length number + 7) div 8) number))
         else b32decode (pad_base32 (map upper_char (tl cid))))
        (\<lambda>data.
          rbind (read_varint data 0) (\<lambda>(version, offset).
          rbind (read_varint data offset) (\<lambda>(codec, offset).
          rbind (read_varint data offset) (\<lambda>(hash_code, offset).
          rbind (read_varint data offset) (\<lambda>(hash_length, offset).
            if version \<noteq> 1 \<or> codec \<notin> {0x55, 0x70, 0x71, 0x129} \<or> hash_code \<noteq> 0x12 \<or>
               hash_length \<noteq> 32 \<or> length data \<noteq> offset + 32
            then Inl (ExportError ''unsupported inventory CID'')
            else Inr (data, drop offset data)))))))"


section \<open>Base32 decoding inverts base32 encoding\<close>

text \<open>The encoder of RFC 4648, as digits: five bytes give eight digits, a shorter rest gives
  as many digits as it needs. It is the reference for the decoder, not part of the program.\<close>

fun b32_encode :: "bytes \<Rightarrow> nat list" where
  "b32_encode bs =
     (if 5 \<le> length bs then digits 32 8 (from_bytes_be (take 5 bs)) @ b32_encode (drop 5 bs)
      else if bs = [] then []
      else take ((8 * length bs + 4) div 5)
             (digits 32 8 (from_bytes_be (bs @ replicate (5 - length bs) 0))))"

declare b32_encode.simps [simp del]

lemma b32_encode_small: "d \<in> set (b32_encode bs) \<Longrightarrow> d < 32"
proof (induction bs rule: b32_encode.induct)
  case (1 bs)
  have "d < 32" if "d \<in> set (digits 32 8 n)" for n using that digits_less by simp
  with 1 show ?case
    by (subst (asm) (2) b32_encode.simps) (auto split: if_splits dest!: in_set_takeD)
qed

lemma length_b32_encode: "length (b32_encode bs) = (8 * length bs + 4) div 5"
proof (induction bs rule: b32_encode.induct)
  case (1 bs)
  show ?case
  proof (cases "5 \<le> length bs")
    case True
    with 1 have "length (b32_encode bs) = 8 + (8 * (length bs - 5) + 4) div 5"
      by (subst b32_encode.simps) simp
    with True show ?thesis by (simp add: diff_mult_distrib2)
  next
    case False
    then show ?thesis by (subst b32_encode.simps) auto
  qed
qed

lemma from_bytes_be_zeros: "from_bytes_be (bs @ replicate k 0) = from_bytes_be bs * 256 ^ k"
proof -
  have "from_bytes_be (replicate k 0) = 0"
    by (induction k) (simp_all add: from_bytes_be_def dval_def)
  then show ?thesis by (simp add: from_bytes_be_append)
qed

lemma dval_take_digits:
  assumes "n < 32 ^ 8" and "m \<le> 8"
  shows "dval 32 (take m (digits 32 8 n)) = n div 32 ^ (8 - m)"
proof -
  have "digits 32 8 n = digits 32 m (n div 32 ^ (8 - m)) @ digits 32 (8 - m) n"
    using digits_add [of 32 m "8 - m" n] assms(2) by simp
  then have "dval 32 (take m (digits 32 8 n)) = (n div 32 ^ (8 - m)) mod 32 ^ m"
    by (simp add: dval_digits)
  moreover have "n div 32 ^ (8 - m) < 32 ^ m"
    using assms by (simp add: div_less_iff_less_mult flip: power_add)
  ultimately show ?thesis by simp
qed

lemma b32_tail:
  assumes "bs \<noteq> []" and "length bs < 5"
  defines "m \<equiv> (8 * length bs + 4) div 5" and "n \<equiv> from_bytes_be (bs @ replicate (5 - length bs) 0)"
  shows "m < 8" "(43 - 5 * (8 - m)) div 8 = length bs"
    and "to_bytes_be 5 (dval 32 (take m (digits 32 8 n)) * 32 ^ (8 - m)) =
      bs @ replicate (5 - length bs) 0"
proof -
  have small: "k \<in> {1, 2, 3, 4}" if "k \<noteq> 0" "k < 5" for k :: nat
    using that by auto
  have l: "length bs \<in> {1, 2, 3, 4}" by (rule small) (use assms(1,2) in auto)
  from l show "m < 8" and "(43 - 5 * (8 - m)) div 8 = length bs" by (auto simp: m_def)
  have "n < 256 ^ 5"
    using from_bytes_be_less [of "bs @ replicate (5 - length bs) 0"] assms(2) by (simp add: n_def)
  then have v: "dval 32 (take m (digits 32 8 n)) = n div 32 ^ (8 - m)"
    using \<open>m < 8\<close> by (intro dval_take_digits) simp_all
  have "(32 :: nat) ^ (8 - m) dvd 256 ^ (5 - length bs)"
    using l by (auto simp: m_def)
  then have "32 ^ (8 - m) dvd n"
    by (simp add: n_def from_bytes_be_zeros)
  then have "dval 32 (take m (digits 32 8 n)) * 32 ^ (8 - m) = n"
    using v by simp
  moreover have "to_bytes_be 5 n = bs @ replicate (5 - length bs) 0"
    using to_from_bytes_be [of "bs @ replicate (5 - length bs) 0"] assms(2) by (simp add: n_def)
  ultimately show "to_bytes_be 5 (dval 32 (take m (digits 32 8 n)) * 32 ^ (8 - m)) =
      bs @ replicate (5 - length bs) 0" by simp
qed

lemma b32_quanta_encode: "b32_quanta (b32_encode bs) = bs"
proof (induction bs rule: b32_encode.induct)
  case (1 bs)
  consider "5 \<le> length bs" | "bs = []" | "bs \<noteq> []" "length bs < 5" by force
  then show ?case
  proof cases
    case 1
    then have "b32_encode bs = digits 32 8 (from_bytes_be (take 5 bs)) @ b32_encode (drop 5 bs)"
      by (subst b32_encode.simps) simp
    then have "b32_quanta (b32_encode bs) =
        to_bytes_be 5 (from_bytes_be (take 5 bs) mod 32 ^ 8) @ b32_quanta (b32_encode (drop 5 bs))"
      by (subst b32_quanta.simps) (simp add: dval_digits)
    moreover have "from_bytes_be (take 5 bs) < 32 ^ 8"
      using from_bytes_be_less [of "take 5 bs"] 1 by simp
    moreover have "to_bytes_be 5 (from_bytes_be (take 5 bs)) = take 5 bs"
      using to_from_bytes_be [of "take 5 bs"] 1 by simp
    ultimately show ?thesis using "1.IH" 1 by simp
  next
    case 2
    then show ?thesis by (simp add: b32_encode.simps b32_quanta.simps)
  next
    case 3
    note tail = b32_tail [OF 3]
    have e: "b32_encode bs = take ((8 * length bs + 4) div 5)
        (digits 32 8 (from_bytes_be (bs @ replicate (5 - length bs) 0)))"
      using 3 by (subst b32_encode.simps) simp
    have l: "length (b32_encode bs) = (8 * length bs + 4) div 5" by (rule length_b32_encode)
    have "b32_encode bs \<noteq> []" using l 3 by (cases bs) auto
    moreover have "\<not> 8 \<le> length (b32_encode bs)" using l tail(1) by simp
    ultimately show ?thesis
      using tail l e by (subst b32_quanta.simps) (simp add: Let_def)
  qed
qed


section \<open>The text of a CID and what the parsers make of it\<close>

definition cid_v1_binary :: "nat \<Rightarrow> bytes \<Rightarrow> bytes" where
  "cid_v1_binary codec digest = [1] @ leb codec @ [0x12, 0x20] @ digest"

definition cid_v1_text :: "nat \<Rightarrow> bytes \<Rightarrow> string" where
  "cid_v1_text codec digest =
     CHR ''b'' # map (\<lambda>d. BASE32_lower ! d) (b32_encode (cid_v1_binary codec digest))"

definition cid_v0_text :: "bytes \<Rightarrow> string" where
  "cid_v0_text digest = base58_text 46 (from_bytes_be ([0x12, 0x20] @ digest))"

lemma base32_alphabet_list:
  "list_all (\<lambda>d. upper_char (BASE32_lower ! d) = BASE32 ! d \<and> is_base32_lower (BASE32_lower ! d) \<and>
     BASE32 ! d \<noteq> CHR ''='' \<and> find_index (BASE32 ! d) BASE32 = Some d) [0..<32]"
  by code_simp

lemma base32_alphabet:
  assumes "d < 32"
  shows "upper_char (BASE32_lower ! d) = BASE32 ! d" "is_base32_lower (BASE32_lower ! d)"
    "BASE32 ! d \<noteq> CHR ''=''" "find_index (BASE32 ! d) BASE32 = Some d"
  using base32_alphabet_list assms by (simp_all add: list_all_iff)

lemma rstrip_eq_pad: "CHR ''='' \<notin> set s \<Longrightarrow> rstrip_eq (s @ replicate k (CHR ''='')) = s"
proof -
  assume "CHR ''='' \<notin> set s"
  then have "dropWhile (\<lambda>c. c = CHR ''='') (rev s) = rev s"
    by (cases s rule: rev_cases) auto
  moreover have "dropWhile (\<lambda>c. c = CHR ''='') (replicate k (CHR ''='') @ rev s) =
      dropWhile (\<lambda>c. c = CHR ''='') (rev s)"
    by (rule dropWhile_append2) simp
  ultimately show ?thesis by (simp add: rstrip_eq_def)
qed

lemma b32_digits_text:
  "(\<And>d. d \<in> set ds \<Longrightarrow> d < 32) \<Longrightarrow> b32_digits (map (\<lambda>d. BASE32 ! d) ds) = Inr ds"
proof (induction ds rule: rev_induct)
  case (snoc d ds)
  then have "find_index (BASE32 ! d) BASE32 = Some d" by (simp add: base32_alphabet)
  with snoc show ?case by (simp add: b32_digits_def foldM_append str_index_def)
qed (simp add: b32_digits_def)

lemma b32_pad_mod: "(8 - ((8 * n + 4) div 5) mod 8) mod 8 \<in> {0, 1, 3, 4, 6 :: nat}"
proof -
  obtain q r where n: "n = 5 * q + r" "r < 5"
    by (metis div_mod_decomp mod_less_divisor mult.commute zero_less_numeral)
  then have "(8 * n + 4) div 5 = 8 * q + (8 * r + 4) div 5" by simp
  moreover have "r \<in> {0, 1, 2, 3, 4}" using n(2) by auto
  ultimately show ?thesis by auto
qed

lemma pad8_mod: "(n + (8 - n mod 8) mod 8) mod 8 = (0 :: nat)"
proof (cases "n mod 8 = 0")
  case False
  then have e: "(8 - n mod 8) mod 8 = 8 - n mod 8" by simp
  have "n mod 8 + (8 - n mod 8) = 8" by simp
  moreover have "n + d = 8 * (q + 1)" if "m + d = 8" "q * 8 + m = n" for m d q :: nat
    using that by auto
  ultimately have "n + (8 - n mod 8) = 8 * (n div 8 + 1)"
    using div_mult_mod_eq [of n 8] by blast
  then have "(n + (8 - n mod 8)) mod 8 = 0" by (metis mod_mult_self1_is_0)
  then show ?thesis by (simp add: e)
qed simp

lemma b32decode_encode:
  "b32decode (pad_base32 (map (\<lambda>d. BASE32 ! d) (b32_encode bs))) = Inr bs"
proof -
  let ?t = "map (\<lambda>d. BASE32 ! d) (b32_encode bs)"
  let ?k = "(8 - length ?t mod 8) mod 8"
  have "CHR ''='' \<notin> set ?t"
    using b32_encode_small base32_alphabet(3) by force
  then have r: "rstrip_eq (pad_base32 ?t) = ?t" by (simp add: pad_base32_def rstrip_eq_pad)
  have l: "length (pad_base32 ?t) = length ?t + ?k" by (simp add: pad_base32_def)
  have "(length ?t + ?k) mod 8 = 0" by (rule pad8_mod)
  moreover have "?k \<in> {0, 1, 3, 4, 6}" using b32_pad_mod by (simp add: length_b32_encode)
  moreover have "b32_digits ?t = Inr (b32_encode bs)"
    by (rule b32_digits_text) (rule b32_encode_small)
  ultimately show ?thesis
    unfolding b32decode_def Let_def r l by (simp add: b32_quanta_encode del: length_map)
qed

lemma upper_cid_v1_text:
  "map upper_char (tl (cid_v1_text codec digest)) =
    map (\<lambda>d. BASE32 ! d) (b32_encode (cid_v1_binary codec digest))"
  using b32_encode_small by (auto simp: cid_v1_text_def base32_alphabet)

lemma leb_one_byte: "v < 128 \<Longrightarrow> [word_of_nat v] @ bs = leb v @ bs"
  by (simp add: leb_small)

lemma match_cid_v1_text:
  assumes "codec < 2 ^ 70" and "length digest = 32"
  shows "match_cid_v1 (cid_v1_text codec digest)"
proof -
  have "length (leb codec) \<le> 10" using assms(1) by (intro length_leb_le) simp_all
  then have "36 \<le> length (cid_v1_binary codec digest)" "length (cid_v1_binary codec digest) \<le> 45"
    using assms(2) by (simp_all add: cid_v1_binary_def Suc_le_eq)
  then have "20 \<le> length (b32_encode (cid_v1_binary codec digest))"
    "length (b32_encode (cid_v1_binary codec digest)) \<le> 200"
    by (simp_all add: length_b32_encode)
  moreover have "list_all is_base32_lower
      (map (\<lambda>d. BASE32_lower ! d) (b32_encode (cid_v1_binary codec digest)))"
    using b32_encode_small by (auto simp: list_all_iff base32_alphabet)
  ultimately show ?thesis by (simp add: match_cid_v1_def cid_v1_text_def)
qed

text \<open>Reading \<open>code\<close>, \<open>length\<close>, digest out of a sha2-256 multihash.\<close>

lemma raw_varint_at:
  "v < 2 ^ 70 \<Longrightarrow> drop offset data = leb v @ rest \<Longrightarrow>
    raw_varint data offset = Inr (v, offset + length (leb v))"
  by (rule raw_dec.dec_encoded)

lemma read_varint_at:
  "v < 2 ^ 70 \<Longrightarrow> drop offset data = leb v @ rest \<Longrightarrow>
    read_varint data offset = Inr (v, offset + length (leb v))"
  by (rule export_dec.dec_encoded)

lemmas multihash_bytes = leb_small [of 1, simplified] leb_small [of 18, simplified]
  leb_small [of 32, simplified] leb_small [of 112, simplified]

lemma raw_multihash_fields:
  "raw_varint ([0x12, 0x20] @ digest) 0 = Inr (0x12, 1)"
  "raw_varint ([0x12, 0x20] @ digest) 1 = Inr (0x20, 2)"
  using raw_varint_at [of 18 0 "[0x12, 0x20] @ digest" "0x20 # digest"]
    raw_varint_at [of 32 1 "[0x12, 0x20] @ digest" digest]
  by (simp_all add: multihash_bytes)

lemma sha256_digest_of_multihash:
  assumes "multihash_of_cid cid = Inr ([0x12, 0x20] @ digest)" and "length digest = 32"
  shows "sha256_digest cid = Inr digest"
  using assms raw_multihash_fields [of digest] by (simp add: sha256_digest_def)

lemma multihash_of_cid_v1:
  assumes "codec < 2 ^ 70" and "length digest = 32"
  shows "multihash_of_cid (cid_v1_text codec digest) = Inr ([0x12, 0x20] @ digest)"
proof -
  let ?data = "cid_v1_binary codec digest"
  have "raw_varint ?data 0 = Inr (1, 1)"
    using raw_varint_at [of 1 0 ?data "leb codec @ [0x12, 0x20] @ digest"]
    by (simp add: cid_v1_binary_def multihash_bytes)
  moreover have "raw_varint ?data 1 = Inr (codec, 1 + length (leb codec))"
    using raw_varint_at [OF assms(1), of 1 ?data "[0x12, 0x20] @ digest"]
    by (simp add: cid_v1_binary_def)
  moreover have "drop (1 + length (leb codec)) ?data = [0x12, 0x20] @ digest"
    by (simp add: cid_v1_binary_def)
  ultimately show ?thesis
    using match_cid_v1_text [OF assms] match_cid_v0_v1_disjoint
    by (auto simp: multihash_of_cid_def upper_cid_v1_text b32decode_encode)
qed


subsection \<open>CIDv0\<close>

lemma multihash_number_bounds:
  assumes "length digest = 32"
  shows "0x1220 * 256 ^ 32 \<le> from_bytes_be ([0x12, 0x20] @ digest)"
    and "from_bytes_be ([0x12, 0x20] @ digest) < 0x1221 * 256 ^ 32"
proof -
  have "from_bytes_be [0x12, 0x20] = 0x1220"
    by (simp add: from_bytes_be_def dval_def)
  then have "from_bytes_be ([0x12, 0x20] @ digest) = 0x1220 * 256 ^ 32 + from_bytes_be digest"
    using assms by (simp only: from_bytes_be_append)
  moreover have "from_bytes_be digest < 256 ^ 32"
    using from_bytes_be_less [of digest] assms by simp
  ultimately show "0x1220 * 256 ^ 32 \<le> from_bytes_be ([0x12, 0x20] @ digest)"
    and "from_bytes_be ([0x12, 0x20] @ digest) < 0x1221 * 256 ^ 32" by simp_all
qed

text \<open>Every sha2-256 multihash starts with \<open>Qm\<close> in base58 and fills exactly 46 characters.\<close>

lemma cid_v0_text_prefix:
  assumes "length digest = 32"
  shows "take 2 (cid_v0_text digest) = ''Qm''"
proof -
  let ?N = "from_bytes_be ([0x12, 0x20] @ digest)"
  have "?N div 58 ^ 44 = 1378"
    using multihash_number_bounds [OF assms] by (intro div_nat_eqI) simp_all
  then have "digits 58 46 ?N = digits 58 2 1378 @ digits 58 44 ?N"
    using digits_add [of 58 2 44 ?N] by simp
  moreover have "map (\<lambda>d. BASE58 ! d) (digits 58 2 1378) = ''Qm''" by code_simp
  ultimately show ?thesis by (simp add: cid_v0_text_def base58_text_def)
qed

lemma match_cid_v0_text:
  assumes "length digest = 32"
  shows "match_cid_v0 (cid_v0_text digest)"
proof -
  have "\<forall>c \<in> set (cid_v0_text digest). c \<in> set BASE58"
    using digits_less [of 58] BASE58_facts(1)
    by (auto simp: cid_v0_text_def base58_text_def intro!: nth_mem)
  then have "list_all (\<lambda>c. c \<in> set BASE58) (drop 2 (cid_v0_text digest))"
    by (auto simp: list_all_iff dest: in_set_dropD)
  moreover have "length (cid_v0_text digest) = 46"
    by (simp add: cid_v0_text_def base58_text_def)
  ultimately show ?thesis using cid_v0_text_prefix [OF assms] by (simp add: match_cid_v0_def)
qed

lemma base58_value_cid_v0:
  assumes "length digest = 32"
  shows "base58_value (cid_v0_text digest) = Inr (from_bytes_be ([0x12, 0x20] @ digest))"
  unfolding cid_v0_text_def
  using multihash_number_bounds [OF assms] by (intro base58_value_text) simp

lemma multihash_bytes_of_number:
  assumes "length digest = 32"
  shows "to_bytes_be ((bit_length (from_bytes_be ([0x12, 0x20] @ digest)) + 7) div 8)
      (from_bytes_be ([0x12, 0x20] @ digest)) = [0x12, 0x20] @ digest"
proof -
  let ?N = "from_bytes_be ([0x12, 0x20] @ digest)"
  have "bit_length ?N = Suc 268"
    using multihash_number_bounds [OF assms] by (intro bit_length_eq) simp_all
  then show ?thesis using to_from_bytes_be [of "[0x12, 0x20] @ digest"] assms by simp
qed

lemma multihash_of_cid_v0:
  assumes "length digest = 32"
  shows "multihash_of_cid (cid_v0_text digest) = Inr ([0x12, 0x20] @ digest)"
proof -
  have "leading_ones (cid_v0_text digest) = 0"
    using cid_v0_text_prefix [OF assms] by (cases "cid_v0_text digest") (auto simp: leading_ones_def)
  then show ?thesis
    using match_cid_v0_text [OF assms] base58_value_cid_v0 [OF assms]
      multihash_bytes_of_number [OF assms]
    by (simp add: multihash_of_cid_def)
qed

section \<open>Properties of the parsers\<close>

text \<open>\<open>_sha256_digest\<close> recovers the digest from the text of every sha2-256 CID: from the
  46-character base58 text of a CIDv0 and from the base32 text of a CIDv1 with any codec that
  fits the ten-byte varints of the parser.\<close>

theorem sha256_digest_roundtrip:
  assumes "length digest = 32" and "codec < 2 ^ 70"
  shows "sha256_digest (cid_v0_text digest) = Inr digest \<and>
    sha256_digest (cid_v1_text codec digest) = Inr digest"
  using sha256_digest_of_multihash multihash_of_cid_v0 multihash_of_cid_v1 assms by simp

theorem sha256_digest_roundtrip_witness:
  "sha256_digest (cid_v0_text (replicate 32 7)) = Inr (replicate 32 7) \<and>
   sha256_digest (cid_v1_text 0x55 (replicate 32 7)) = Inr (replicate 32 7)"
  by (rule sha256_digest_roundtrip) simp_all

text \<open>Everything \<open>_sha256_digest\<close> returns is 32 bytes long; everything it refuses is refused with
  the store's own exception, which is the one its callers catch.\<close>

lemma sha256_digest_length: "sha256_digest cid = Inr d \<Longrightarrow> length d = 32"
  by (auto simp: sha256_digest_def res_simps split: prod.splits)

lemma base58_value_v0_ok:
  assumes "list_all (\<lambda>c. c \<in> set BASE58) cid"
  shows "\<exists>n. base58_value cid = Inr n"
  using assms
proof (induction cid rule: rev_induct)
  case (snoc c cid)
  then obtain n where "base58_value cid = Inr n" by auto
  moreover obtain i where "find_index c BASE58 = Some i"
    using snoc.prems find_index_None [of c BASE58] by auto
  ultimately show ?case by (simp add: base58_value_def foldM_append str_index_def)
qed (simp add: base58_value_def)

lemma match_cid_v0_base58: "match_cid_v0 cid \<Longrightarrow> \<exists>n. base58_value cid = Inr n"
proof -
  assume v0: "match_cid_v0 cid"
  have "list_all (\<lambda>c. c \<in> set BASE58) ''Qm''" by code_simp
  then have "list_all (\<lambda>c. c \<in> set BASE58) (take 2 cid @ drop 2 cid)"
    using v0 by (simp only: match_cid_v0_def list_all_append)
  then show ?thesis by (intro base58_value_v0_ok) simp
qed

lemma b32decode_error: "b32decode s = Inl e \<Longrightarrow> e = ValueError"
proof -
  have "foldM (\<lambda>ds c. rbind (str_index BASE32 c) (\<lambda>i. Inr (ds @ [i]))) ds s = Inl e \<Longrightarrow> e = ValueError"
    for ds s
    by (induction s arbitrary: ds) (auto simp: rbind_eq_Inl str_index_def split: option.splits)
  then show "b32decode s = Inl e \<Longrightarrow> e = ValueError"
    by (auto simp: b32decode_def b32_digits_def rbind_eq_Inl Let_def split: if_splits)
qed

lemma sha256_digest_error: "sha256_digest cid = Inl e \<Longrightarrow> \<exists>m. e = RawBlockStoreError m"
proof -
  have mh: "\<exists>m. e = RawBlockStoreError m" if "multihash_of_cid cid = Inl e" for e
    using that match_cid_v0_base58 [of cid] raw_varint_error b32decode_error
    by (fastforce simp: multihash_of_cid_def rbind_eq_Inl Let_def
        split: if_splits sum.splits exn.splits prod.splits)
  show "sha256_digest cid = Inl e \<Longrightarrow> \<exists>m. e = RawBlockStoreError m"
    using raw_varint_error mh
    by (auto simp: sha256_digest_def rbind_eq_Inl split: if_splits prod.splits)
qed

lemma verify_cid_ok: "verify_cid sha cid data = Inr u \<longleftrightarrow> sha256_digest cid = Inr (sha data)"
  by (auto simp: verify_cid_def res_simps)

lemma verify_cid_error: "verify_cid sha cid data = Inl e \<Longrightarrow> \<exists>m. e = RawBlockStoreError m"
  using sha256_digest_error by (auto simp: verify_cid_def rbind_eq_Inl split: if_splits)


subsection \<open>The two parsers agree\<close>

lemma raw_read_agree: "raw_varint data offset = Inr r \<longleftrightarrow> read_varint data offset = Inr r"
  using raw_dec.dec_leb_dec [of data offset] export_dec.dec_leb_dec [of data offset]
  by (metis ok_of_eq_Some)

lemma sha256_digest_of_fields:
  assumes "multihash_of_cid cid = Inr (drop n data)"
    and "read_varint data n = Inr (0x12, n1)" and "read_varint data n1 = Inr (32, n2)"
    and "length data = n2 + 32"
  shows "sha256_digest cid = Inr (drop n2 data)"
proof -
  have le: "n < n1" "n1 < n2" using export_dec.dec_bounds assms(2,3) by blast+
  have "raw_varint (drop n data) 0 = Inr (0x12, n1 - n)"
    using export_dec.dec_drop [of data n 0] assms(2) by (simp add: raw_read_agree)
  moreover have "raw_varint (drop n data) (n1 - n) = Inr (32, n2 - n)"
    using export_dec.dec_drop [of data n "n1 - n"] assms(3) le by (simp add: raw_read_agree)
  ultimately show ?thesis using assms(1,4) le by (simp add: sha256_digest_def)
qed

lemma cid_bytes_fields:
  assumes "cid_bytes cid = Inr (binary, digest)"
  obtains n n1 n2 codec m where "multihash_of_cid cid = Inr (drop n binary)"
    and "read_varint binary 0 = Inr (1, m)" and "read_varint binary m = Inr (codec, n)"
    and "codec \<in> {0x55, 0x70, 0x71, 0x129}"
    and "read_varint binary n = Inr (0x12, n1)" and "read_varint binary n1 = Inr (32, n2)"
    and "length binary = n2 + 32" and "digest = drop n2 binary"
proof (cases "take 2 cid = ''Qm''")
  case True
  with assms have v0: "match_cid_v0 cid"
    by (cases cid) (auto simp: cid_bytes_def match_cid_def match_cid_v1_def split: if_splits)
  from assms True obtain number m codec n n1 n2 where
    number: "base58_value cid = Inr number" and
    binary: "binary = [0x01, 0x70] @ to_bytes_be ((bit_length number + 7) div 8) number" and
    r: "read_varint binary 0 = Inr (1, m)" "read_varint binary m = Inr (codec, n)"
      "codec \<in> {0x55, 0x70, 0x71, 0x129}"
      "read_varint binary n = Inr (0x12, n1)" "read_varint binary n1 = Inr (32, n2)"
      "length binary = n2 + 32" "digest = drop n2 binary"
    by (auto simp: cid_bytes_def res_simps split: prod.splits if_splits)
  have "read_varint binary 0 = Inr (1, 1)"
    using read_varint_at [of 1 0 binary "drop 1 binary"] by (simp add: binary multihash_bytes)
  with r(1) have m: "m = 1" by simp
  have "read_varint binary 1 = Inr (0x70, 2)"
    using read_varint_at [of "0x70" 1 binary "drop 2 binary"] by (simp add: binary multihash_bytes)
  with r(2) m have "n = 2" by simp
  then have "drop n binary = to_bytes_be ((bit_length number + 7) div 8) number"
    by (simp add: binary)
  moreover have "leading_ones cid = 0" using True by (cases cid) (auto simp: leading_ones_def)
  ultimately have "multihash_of_cid cid = Inr (drop n binary)"
    using v0 number by (simp add: multihash_of_cid_def)
  with r show ?thesis by (rule_tac that)
next
  case False
  with assms have v1: "match_cid_v1 cid" "\<not> match_cid_v0 cid"
    by (auto simp: cid_bytes_def match_cid_def match_cid_v0_def split: if_splits)
  from assms False obtain m codec n n1 n2 where
    b32: "b32decode (pad_base32 (map upper_char (tl cid))) = Inr binary" and
    r: "read_varint binary 0 = Inr (1, m)" "read_varint binary m = Inr (codec, n)"
      "codec \<in> {0x55, 0x70, 0x71, 0x129}"
      "read_varint binary n = Inr (0x12, n1)" "read_varint binary n1 = Inr (32, n2)"
      "length binary = n2 + 32" "digest = drop n2 binary"
    by (auto simp: cid_bytes_def res_simps split: prod.splits if_splits)
  have "multihash_of_cid cid = Inr (drop n binary)"
    using v1 b32 r(1,2) by (simp add: multihash_of_cid_def flip: raw_read_agree)
  with r show ?thesis by (rule_tac that)
qed

lemma cid_digest_agrees:
  assumes "cid_bytes cid = Inr (binary, digest)"
  shows "sha256_digest cid = Inr digest \<and> length digest = 32 \<and>
    digest = drop (length binary - 32) binary"
proof -
  from assms obtain n n1 n2 codec m where f: "multihash_of_cid cid = Inr (drop n binary)"
    "read_varint binary 0 = Inr (1, m)" "read_varint binary m = Inr (codec, n)"
    "codec \<in> {0x55, 0x70, 0x71, 0x129}" "read_varint binary n = Inr (0x12, n1)"
    "read_varint binary n1 = Inr (32, n2)" "length binary = n2 + 32" "digest = drop n2 binary"
    by (rule cid_bytes_fields)
  from sha256_digest_of_fields [OF f(1,5,6,7)] f(8) have "sha256_digest cid = Inr digest" by simp
  with f(7,8) show ?thesis by simp
qed

text \<open>The exporter's parser and the raw block store's parser agree: whenever \<open>cid_bytes\<close>
  accepts the text of a CID, \<open>_sha256_digest\<close> accepts it too and both return the same 32-byte
  digest, which is the tail of the binary CID. So a block the exporter has checked against its
  digest passes \<open>verify_cid\<close>.\<close>

theorem cid_parsers_agree:
  assumes "cid_bytes cid = Inr (binary, digest)"
  shows "sha256_digest cid = Inr digest \<and> length digest = 32 \<and>
    digest = drop (length binary - 32) binary"
  using assms by (rule cid_digest_agrees)

theorem cid_parsers_agree_witness:
  "sha256_digest ''bafkreibmsfku23elxwds53iriwuwueot2rsb72pxvr35nisowufmlvf6w4'' =
     map_sum id snd (cid_bytes ''bafkreibmsfku23elxwds53iriwuwueot2rsb72pxvr35nisowufmlvf6w4'') \<and>
   is_ok (cid_bytes ''bafkreibmsfku23elxwds53iriwuwueot2rsb72pxvr35nisowufmlvf6w4'')"
proof -
  have ok: "is_ok (cid_bytes ''bafkreibmsfku23elxwds53iriwuwueot2rsb72pxvr35nisowufmlvf6w4'')"
    by code_simp
  then obtain binary digest where c:
    "cid_bytes ''bafkreibmsfku23elxwds53iriwuwueot2rsb72pxvr35nisowufmlvf6w4'' = Inr (binary, digest)"
    by (auto simp: is_ok_iff)
  from cid_parsers_agree [OF c] ok show ?thesis by (simp add: c)
qed

text \<open>On the texts of the codecs it supports, the exporter returns the canonical binary CID.\<close>

lemma cid_bytes_v1_text:
  assumes "codec \<in> {0x55, 0x70, 0x71, 0x129}" and "length digest = 32"
  shows "cid_bytes (cid_v1_text codec digest) = Inr (cid_v1_binary codec digest, digest)"
proof -
  let ?data = "cid_v1_binary codec digest" and ?n = "1 + length (leb codec)"
  have c: "codec < 2 ^ 70" using assms(1) by auto
  have "read_varint ?data 0 = Inr (1, 1)"
    using read_varint_at [of 1 0 ?data "leb codec @ [0x12, 0x20] @ digest"]
    by (simp add: cid_v1_binary_def multihash_bytes)
  moreover have "read_varint ?data 1 = Inr (codec, ?n)"
    using read_varint_at [OF c, of 1 ?data "[0x12, 0x20] @ digest"] by (simp add: cid_v1_binary_def)
  moreover have "read_varint ?data ?n = Inr (0x12, Suc ?n)"
    using read_varint_at [of 18 ?n ?data "0x20 # digest"] by (simp add: cid_v1_binary_def multihash_bytes)
  moreover have "read_varint ?data (Suc ?n) = Inr (32, Suc (Suc ?n))"
    using read_varint_at [of 32 "Suc ?n" ?data digest] by (simp add: cid_v1_binary_def multihash_bytes)
  moreover have "take 2 (cid_v1_text codec digest) \<noteq> ''Qm''"
    by (simp add: cid_v1_text_def)
  ultimately show ?thesis
    using match_cid_v1_text [OF c assms(2)] assms
    by (auto simp: cid_bytes_def match_cid_def upper_cid_v1_text b32decode_encode cid_v1_binary_def)
qed

lemma cid_bytes_v0_text:
  assumes "length digest = 32"
  shows "cid_bytes (cid_v0_text digest) = Inr ([0x01, 0x70, 0x12, 0x20] @ digest, digest)"
proof -
  let ?data = "[0x01, 0x70] @ [0x12, 0x20] @ digest"
  have "read_varint ?data 0 = Inr (1, 1)" "read_varint ?data 1 = Inr (0x70, 2)"
    "read_varint ?data 2 = Inr (0x12, 3)" "read_varint ?data 3 = Inr (32, 4)"
    using read_varint_at [of 1 0 ?data "tl ?data"] read_varint_at [of "0x70" 1 ?data "drop 2 ?data"]
      read_varint_at [of 18 2 ?data "drop 3 ?data"] read_varint_at [of 32 3 ?data digest]
    by (simp_all add: multihash_bytes)
  then show ?thesis
    using match_cid_v0_text [OF assms] cid_v0_text_prefix [OF assms] base58_value_cid_v0 [OF assms]
      multihash_bytes_of_number [OF assms] assms
    by (simp add: cid_bytes_def match_cid_def)
qed

end
