(* ===== verification/Carv1_Stream.thy ===== *)
theory Carv1_Stream
  imports Carv1_Copy Cid_Codec
begin

text \<open>
  The frame loop of \<open>carv2_zstd.copy_carv1_payload\<close>. An accepted stream is shown to be a header
  followed by frames whose payloads hash to their digests, copied byte for byte; every stream
  written in the standard form (canonical varints, CIDv0 or CIDv1 sha2-256 blocks) is accepted.
\<close>

section \<open>The loop\<close>

function copy_frames ::
    "(bytes \<Rightarrow> bytes) \<Rightarrow> nat \<Rightarrow> nat \<Rightarrow> row list \<Rightarrow> copy_state \<Rightarrow> (row list \<times> copy_state) res" where
  "copy_frames sha total_size max_blocks rows st =
     (if written st < total_size then
        rbind (copy_frame sha total_size st) (\<lambda>(r, st').
          if max_blocks < length (rows @ [r])
          then Inl (ArchiveError ''CARv1 block count exceeds the configured limit'')
          else copy_frames sha total_size max_blocks (rows @ [r]) st')
      else Inr (rows, st))"
  by pat_completeness auto
termination
proof (relation "measure (\<lambda>(sha, total_size, max_blocks, rows, st). length (src st))")
  fix sha :: "bytes \<Rightarrow> bytes" and total_size max_blocks :: nat and rows :: "row list"
    and st st' :: copy_state and r :: row and x
  assume "copy_frame sha total_size st = Inr x" and "(r, st') = x"
  then have "copy_frame sha total_size st = Inr ((fst r, fst (snd r), snd (snd r)), st')" by simp
  then obtain n where "0 < n" "n \<le> length (src st)" "st' = adv n st"
    by (rule copy_frame_local) blast
  then show "((sha, total_size, max_blocks, rows @ [r], st'), sha, total_size, max_blocks, rows, st)
      \<in> measure (\<lambda>(sha, total_size, max_blocks, rows, st). length (src st))" by simp
qed simp

declare copy_frames.simps [simp del]

definition copy_carv1_payload ::
    "(bytes \<Rightarrow> bytes) \<Rightarrow> bytes \<Rightarrow> bytes \<Rightarrow> nat \<Rightarrow> nat \<Rightarrow> nat \<Rightarrow> bool \<Rightarrow> (row list \<times> copy_state) res" where
  "copy_carv1_payload sha source destination total_size max_blocks start_offset require_eof =
     (let st = \<lparr>src = drop start_offset source, dst = destination, written = 0\<rparr> in
      rbind (read_uvarint MAX_HEADER_BYTES st) (\<lambda>(header_size, _, st).
      if header_size < 1 \<or> MAX_HEADER_BYTES < header_size
      then Inl (ArchiveError ''invalid CARv1 header size'')
      else
        rbind (read_exact (int header_size) st) (\<lambda>(header, st).
        let st = write_st header st in
        rbind (copy_frames sha total_size max_blocks [] st) (\<lambda>(rows, st).
        if written st \<noteq> total_size \<or> (require_eof \<and> fst (read_part 1 st) \<noteq> [])
        then Inl (ArchiveError ''CARv1 has trailing or missing bytes'')
        else if rows = [] then Inl (ArchiveError ''CARv1 contains no block frames'')
        else Inr (rows, st)))))"

lemma copy_carv1_payload_unfold:
  "copy_carv1_payload sha source destination total_size max_blocks start eof =
     rbind (read_uvarint MAX_HEADER_BYTES \<lparr>src = drop start source, dst = destination, written = 0\<rparr>)
       (\<lambda>(h, _, st).
         if h < 1 \<or> MAX_HEADER_BYTES < h then Inl (ArchiveError ''invalid CARv1 header size'')
         else if h \<le> length (src st) then
           rbind (copy_frames sha total_size max_blocks [] (adv h st)) (\<lambda>(rows, st).
             if written st \<noteq> total_size \<or> eof \<and> src st \<noteq> []
             then Inl (ArchiveError ''CARv1 has trailing or missing bytes'')
             else if rows = [] then Inl (ArchiveError ''CARv1 contains no block frames'')
             else Inr (rows, st))
         else Inl (ArchiveError ''truncated CAR data''))"
  unfolding copy_carv1_payload_def Let_def
  by (rule arg_cong [where f = "rbind _"])
    (auto simp: fun_eq_iff read_exact_spec put_read_part read_part_def)

section \<open>Accepted streams are lists of frames\<close>

record car_frame =
  fr_prefix :: bytes
  fr_head :: bytes
  fr_digest :: bytes
  fr_payload :: bytes

definition frame_bytes :: "car_frame \<Rightarrow> bytes" where
  "frame_bytes f = fr_prefix f @ fr_head f @ fr_digest f @ fr_payload f"

fun frame_rows :: "nat \<Rightarrow> car_frame list \<Rightarrow> row list" where
  "frame_rows offset [] = []"
| "frame_rows offset (f # fs) =
     (SHA2_256, fr_digest f, offset) # frame_rows (offset + length (frame_bytes f)) fs"

text \<open>
  What the reader guarantees of a frame: the payload hashes to the digest and, for a CIDv1, the
  length prefix is the exact length of the rest of the frame.
\<close>

definition good_frame :: "(bytes \<Rightarrow> bytes) \<Rightarrow> car_frame \<Rightarrow> bool" where
  "good_frame sha f \<longleftrightarrow>
     fr_prefix f \<noteq> [] \<and> fr_head f \<noteq> [] \<and> length (fr_digest f) = 32 \<and>
     sha (fr_payload f) = fr_digest f \<and>
     (unat (hd (fr_head f)) = 1 \<longrightarrow>
        leb_dec 10 (fr_prefix f) =
          Some (length (fr_head f) + 32 + length (fr_payload f), length (fr_prefix f)))"

lemma length_frame_rows [simp]: "length (frame_rows offset fs) = length fs"
  by (induction fs arbitrary: offset) simp_all

lemma frame_rows_append:
  "frame_rows offset (fs @ gs) =
     frame_rows offset fs @ frame_rows (offset + length (concat (map frame_bytes fs))) gs"
  by (induction fs arbitrary: offset) (simp_all add: add.assoc)

lemma copy_frame_frame:
  assumes "copy_frame sha total_size st = Inr (r, st')"
  obtains f rest where "src st = frame_bytes f @ rest" "good_frame sha f"
    "r = (SHA2_256, fr_digest f, written st)" "st' = adv (length (frame_bytes f)) st"
proof -
  from assms obtain fs p cs k where fr: "frame_at sha total_size st fs p cs k"
    and r: "r = (SHA2_256, take 32 (drop (p + k) (src st)), written st)"
    and st': "st' = adv (p + k + 32 + (fs - (cs + 32))) st" by (auto simp: copy_frame_Inr)
  let ?n = "fs - (cs + 32)"
  have lv: "leb_dec 10 (src st) = Some (fs, p)" and cs: "cs + 32 \<le> fs"
    and cid: "read_frame_cid (adv p st) = Inr (SHA2_256, 32, cs, adv (p + k) st)"
    and le: "p + k + 32 + ?n \<le> length (src st)"
    and sha: "sha (take ?n (drop (p + k + 32) (src st))) = take 32 (drop (p + k) (src st))"
    using fr by (simp_all only: frame_at_def)
  have p: "0 < p" using leb_dec_bounds [OF lv] by simp
  have k: "0 < k" "unat (src st ! p) = 1 \<Longrightarrow> cs = k"
  proof -
    obtain k' where k': "0 < k'" "adv (p + k) st = adv k' (adv p st)"
      "unat (hd (src (adv p st))) = 1 \<Longrightarrow> cs = k'" using cid by (rule read_frame_cid_local) blast
    have "k' = k" using arg_cong [OF k'(2), of written] by simp
    with k'(1) show "0 < k" by simp
    with k'(3) \<open>k' = k\<close> show "cs = k" if "unat (src st ! p) = 1"
      using that le by (simp add: hd_drop_conv_nth)
  qed
  define f where "f = \<lparr>fr_prefix = take p (src st), fr_head = take k (drop p (src st)),
    fr_digest = take 32 (drop (p + k) (src st)), fr_payload = take ?n (drop (p + k + 32) (src st))\<rparr>"
  have split4: "take (p + k + 32 + ?n) (src st) = frame_bytes f"
    by (simp add: f_def frame_bytes_def take_add add.assoc) (simp add: ac_simps)
  then have bytes: "src st = frame_bytes f @ drop (p + k + 32 + ?n) (src st)"
    by (metis append_take_drop_id)
  have len: "length (frame_bytes f) = p + k + 32 + ?n"
    using arg_cong [OF split4, of length] le by simp
  have "leb_dec 10 (take p (src st)) = Some (fs, p)"
    using leb_dec_take [OF lv, of "[]"] by simp
  moreover have "hd (take k (drop p (src st))) = src st ! p"
    using p k le by (simp add: hd_drop_conv_nth)
  ultimately have "good_frame sha f"
    using p k le cs sha by (auto simp: good_frame_def f_def)
  from that [OF bytes this] show ?thesis
    using r st' len by (simp add: f_def)
qed

lemma copy_frames_sound:
  assumes "copy_frames sha total_size max_blocks rows st = Inr (rows', st')"
    and "length rows \<le> max_blocks"
  shows "\<exists>fs. rows' = rows @ frame_rows (written st) fs \<and> (\<forall>f \<in> set fs. good_frame sha f) \<and>
    (\<exists>rest. src st = concat (map frame_bytes fs) @ rest) \<and>
    st' = adv (length (concat (map frame_bytes fs))) st \<and>
    length rows' \<le> max_blocks \<and> total_size \<le> written st'"
  using assms
proof (induction sha total_size max_blocks rows st rule: copy_frames.induct)
  case (1 sha total_size max_blocks rows st)
  show ?case
  proof (cases "written st < total_size")
    case False
    with "1.prems" have "rows' = rows" "st' = st" "total_size \<le> written st"
      by (subst (asm) copy_frames.simps; simp)+
    with "1.prems" show ?thesis by (intro exI [of _ "[]"]) simp
  next
    case True
    with "1.prems"(1) obtain r st1 where r: "copy_frame sha total_size st = Inr (r, st1)"
      and room: "\<not> max_blocks < length (rows @ [r])"
      and rest: "copy_frames sha total_size max_blocks (rows @ [r]) st1 = Inr (rows', st')"
      by (subst (asm) copy_frames.simps) (auto simp: res_simps split: prod.splits if_splits)
    from r obtain f tail where f: "src st = frame_bytes f @ tail" "good_frame sha f"
      "r = (SHA2_256, fr_digest f, written st)" "st1 = adv (length (frame_bytes f)) st"
      by (rule copy_frame_frame)
    from "1.IH" [OF True r refl room rest] room obtain fs rest' where
      fs: "rows' = (rows @ [r]) @ frame_rows (written st1) fs" "\<forall>f \<in> set fs. good_frame sha f"
        "src st1 = concat (map frame_bytes fs) @ rest'"
        "st' = adv (length (concat (map frame_bytes fs))) st1"
        "length rows' \<le> max_blocks" "total_size \<le> written st'"
      by auto
    show ?thesis
    proof (intro exI [of _ "f # fs"] conjI exI)
      show "rows' = rows @ frame_rows (written st) (f # fs)" using fs(1) f(3,4) by simp
      show "src st = concat (map frame_bytes (f # fs)) @ rest'" using f fs(3) by simp
    qed (use f fs in auto)
  qed
qed

text \<open>
  The whole stream: what was accepted is what is in the source, and it was copied unchanged.
\<close>

lemma copy_carv1_payload_sound:
  assumes "copy_carv1_payload sha source destination total_size max_blocks start eof = Inr (rows, st)"
  obtains prefix header fs where
    "take total_size (drop start source) = prefix @ header @ concat (map frame_bytes fs)"
    "leb_dec 10 prefix = Some (length header, length prefix)" "header \<noteq> []"
    "rows = frame_rows (length prefix + length header) fs"
    "\<forall>f \<in> set fs. good_frame sha f" "fs \<noteq> []" "length fs \<le> max_blocks"
    "total_size \<le> length (drop start source)"
    "st = adv total_size \<lparr>src = drop start source, dst = destination, written = 0\<rparr>"
    "eof \<longrightarrow> length (drop start source) = total_size"
proof -
  let ?st = "\<lparr>src = drop start source, dst = destination, written = 0\<rparr>"
  from assms obtain h k where h: "leb_dec 10 (drop start source) = Some (h, k)" "0 < h"
    and le: "h \<le> length (drop k (drop start source))"
    and loop: "copy_frames sha total_size max_blocks [] (adv (k + h) ?st) = Inr (rows, st)"
    and wr: "written st = total_size" and eof: "eof \<longrightarrow> src st = []" and ne: "rows \<noteq> []"
    by (auto simp: copy_carv1_payload_unfold res_simps split: prod.splits if_splits)
  from leb_dec_bounds [OF h(1)] have k: "0 < k" "k \<le> length (drop start source)" by auto
  define prefix where "prefix = take k (drop start source)"
  define header where "header = take h (drop k (drop start source))"
  from copy_frames_sound [OF loop] obtain fs rest where
    fs: "rows = frame_rows (k + h) fs" "\<forall>f \<in> set fs. good_frame sha f"
      "drop (k + h) (drop start source) = concat (map frame_bytes fs) @ rest"
      "st = adv (length (concat (map frame_bytes fs))) (adv (k + h) ?st)" "length rows \<le> max_blocks"
    by auto
  have total: "total_size = k + h + length (concat (map frame_bytes fs))"
    using wr fs(4) by simp
  have src: "drop start source = prefix @ header @ concat (map frame_bytes fs) @ rest"
    by (metis prefix_def header_def fs(3) append_take_drop_id drop_drop add.commute)
  have len: "length prefix = k" "length header = h"
    using k le by (simp_all add: prefix_def header_def)
  show ?thesis
  proof (rule that)
    show "take total_size (drop start source) = prefix @ header @ concat (map frame_bytes fs)"
      by (subst src) (simp add: total len)
    show "leb_dec 10 prefix = Some (length header, length prefix)"
      using leb_dec_take [OF h(1), of "[]"] len by (simp add: prefix_def)
    show "rows = frame_rows (length prefix + length header) fs" using fs(1) len by simp
    show "total_size \<le> length (drop start source)" by (subst src) (simp add: total len)
    show st: "st = adv total_size ?st" using fs(4) total by simp
    show "eof \<longrightarrow> length (drop start source) = total_size"
      using eof \<open>total_size \<le> length (drop start source)\<close> st by auto
  qed (use h len fs ne in auto)
qed


section \<open>Standard streams are accepted\<close>

text \<open>A CARv1 file in the form the exporter writes: canonical varints, one section per block.\<close>

definition car_section :: "bytes \<times> bytes \<Rightarrow> bytes" where
  "car_section b = leb (length (fst b) + length (snd b)) @ fst b @ snd b"

definition car_bytes :: "bytes \<Rightarrow> (bytes \<times> bytes) list \<Rightarrow> bytes" where
  "car_bytes header blocks = leb (length header) @ header @ concat (map car_section blocks)"

definition block_cid :: "(bytes \<Rightarrow> bytes) \<Rightarrow> bytes \<times> bytes \<Rightarrow> bool" where
  "block_cid sha b \<longleftrightarrow>
     length (sha (snd b)) = 32 \<and>
     (fst b = [0x12, 0x20] @ sha (snd b) \<or>
      (\<exists>codec < 2 ^ 64. fst b = cid_v1_binary codec (sha (snd b))))"

fun section_rows :: "(bytes \<Rightarrow> bytes) \<Rightarrow> nat \<Rightarrow> (bytes \<times> bytes) list \<Rightarrow> row list" where
  "section_rows sha offset [] = []"
| "section_rows sha offset (b # bs) =
     (SHA2_256, sha (snd b), offset) # section_rows sha (offset + length (car_section b)) bs"

lemma length_section_rows [simp]: "length (section_rows sha offset bs) = length bs"
  by (induction bs arbitrary: offset) simp_all

lemma read_frame_cid_v0:
  assumes "src st = [0x12, 0x20] @ rest"
  shows "read_frame_cid st = Inr (SHA2_256, 32, 2, adv 2 st)"
proof -
  have "read_exact 1 st = Inr ([0x12], st\<lparr>src := 0x20 # rest\<rparr>)"
    using read_exact_spec [of 1 st] assms by simp
  moreover have "write_st [0x12] (st\<lparr>src := 0x20 # rest\<rparr>) = adv 1 st"
    using put_read_part [of 1 st] assms by simp
  moreover have "read_uvarint 1024 (adv 1 st) = Inr (32, 1, adv 1 (adv 1 st))"
    using read_uvarint_encoded [of 32 1024 "adv 1 st" rest] assms by (simp add: multihash_bytes)
  moreover have "uvarint 32 = Inr (leb 32)" using uvarint_of_nat [of 32] by simp
  ultimately show ?thesis
    by (simp add: read_frame_cid_def SHA2_256_def multihash_bytes flip: numeral_2_eq_2)
qed

lemma read_frame_cid_v1:
  assumes "src st = [1] @ leb codec @ [0x12, 0x20] @ rest" and "codec < 2 ^ 64"
  shows "read_frame_cid st = Inr (SHA2_256, 32, length (leb codec) + 3, adv (length (leb codec) + 3) st)"
proof -
  let ?n = "length (leb codec)"
  have s1: "src (adv 1 st) = leb codec @ [0x12, 0x20] @ rest"
    and s2: "src (adv (1 + ?n) st) = [0x12, 0x20] @ rest"
    and s3: "src (adv (2 + ?n) st) = [0x20] @ rest"
    using assms(1) by simp_all
  have "read_exact 1 st = Inr ([1], st\<lparr>src := leb codec @ [0x12, 0x20] @ rest\<rparr>)"
    using read_exact_spec [of 1 st] assms by simp
  moreover have "write_st [1] (st\<lparr>src := leb codec @ [0x12, 0x20] @ rest\<rparr>) = adv 1 st"
    using put_read_part [of 1 st] assms by simp
  moreover have "read_uvarint VARINT_LIMIT (adv 1 st) = Inr (codec, ?n, adv (1 + ?n) st)"
    using read_uvarint_encoded [of codec VARINT_LIMIT, OF _ _ s1] assms(2)
    by (simp add: VARINT_LIMIT_def)
  moreover have "read_uvarint VARINT_LIMIT (adv (1 + ?n) st) = Inr (18, 1, adv (2 + ?n) st)"
    using read_uvarint_encoded [of 18 VARINT_LIMIT "adv (1 + ?n) st" "[0x20] @ rest"] s2
    by (simp add: VARINT_LIMIT_def multihash_bytes)
  moreover have "read_uvarint 1024 (adv (2 + ?n) st) = Inr (32, 1, adv (3 + ?n) st)"
    using read_uvarint_encoded [of 32 1024 "adv (2 + ?n) st" rest] s3
    by (simp add: multihash_bytes numeral_3_eq_3)
  moreover have "adv (Suc (Suc (Suc ?n))) st = adv (3 + ?n) st" by (simp add: numeral_3_eq_3)
  ultimately show ?thesis
    by (simp add: read_frame_cid_def SHA2_256_def read_varint_after_first_def add.commute)
qed

lemma block_cid_head:
  assumes "block_cid sha b"
  obtains head where "fst b = head @ sha (snd b)" "head \<noteq> []" "length (sha (snd b)) = 32"
    "\<And>(st :: copy_state) rest. src st = head @ rest \<Longrightarrow>
       read_frame_cid st = Inr (SHA2_256, 32, length head, adv (length head) st)"
proof (cases "fst b = [0x12, 0x20] @ sha (snd b)")
  case True
  show ?thesis
    by (rule that [of "[0x12, 0x20]"])
      (use True assms read_frame_cid_v0 in \<open>auto simp: block_cid_def\<close>)
next
  case False
  with assms obtain codec where c: "codec < 2 ^ 64" "fst b = cid_v1_binary codec (sha (snd b))"
    and l: "length (sha (snd b)) = 32" by (auto simp: block_cid_def)
  show ?thesis
  proof (rule that [of "[1] @ leb codec @ [0x12, 0x20]"])
    fix st :: copy_state and rest
    assume "src st = ([1] @ leb codec @ [0x12, 0x20]) @ rest"
    then show "read_frame_cid st = Inr (SHA2_256, 32, length ([1] @ leb codec @ [0x12, 0x20]),
        adv (length ([1] @ leb codec @ [0x12, 0x20])) st)"
      using read_frame_cid_v1 [of st codec rest] c(1) by (simp add: numeral_3_eq_3)
  qed (use c l in \<open>simp_all add: cid_v1_binary_def\<close>)
qed

lemma copy_frame_section:
  assumes "block_cid sha b" and "src st = car_section b @ rest"
    and "written st + length (car_section b) \<le> total_size" and "total_size < 2 ^ 64"
  shows "copy_frame sha total_size st =
    Inr ((SHA2_256, sha (snd b), written st), adv (length (car_section b)) st)"
proof -
  let ?F = "length (fst b) + length (snd b)" and ?d = "sha (snd b)"
  let ?p = "length (leb ?F)"
  from assms(1) obtain head where head: "fst b = head @ ?d" "head \<noteq> []" "length ?d = 32"
    "\<And>st rest. src st = head @ rest \<Longrightarrow>
       read_frame_cid st = Inr (SHA2_256, 32, length head, adv (length head) st)"
    by (rule block_cid_head) blast
  have len: "length (car_section b) = ?p + ?F" by (simp add: car_section_def)
  have src: "src st = leb ?F @ head @ ?d @ snd b @ rest"
    using assms(2) head(1) by (simp add: car_section_def)
  have F: "?F \<le> total_size" using assms(3) len by linarith
  then have "read_uvarint total_size st = Inr (?F, ?p, adv ?p st)"
    using read_uvarint_encoded [of ?F total_size st] assms(4) src by simp
  moreover have "read_frame_cid (adv ?p st) = Inr (SHA2_256, 32, length head, adv (?p + length head) st)"
    using head(4) [of "adv ?p st" "?d @ snd b @ rest"] src by simp
  moreover have "read_exact 32 (adv (?p + length head) st) =
      Inr (?d, (adv (?p + length head) st)\<lparr>src := snd b @ rest\<rparr>)"
    using read_exact_spec [of 32 "adv (?p + length head) st"] src head(3) by simp
  moreover have "write_st ?d ((adv (?p + length head) st)\<lparr>src := snd b @ rest\<rparr>) =
      adv (?p + length head + 32) st"
    using put_read_part [of 32 "adv (?p + length head) st"] src head(3) by simp
  moreover have "copy_exact (length (snd b)) (adv (?p + length head + 32) st) =
      Inr (snd b, (adv (?p + length head + 32) st)\<lparr>src := rest,
        dst := dst (adv (?p + length head + 32) st) @ snd b\<rparr>)"
    using copy_exact_spec [of "length (snd b)" "adv (?p + length head + 32) st"] src head(3) by simp
  ultimately show ?thesis
    using assms(3) len head(1,2,3) src
    by (simp add: copy_frame_def frame_block_def Let_def adv_def)
qed

lemma copy_frames_sections:
  assumes "\<forall>b \<in> set bs. block_cid sha b" and "src st = concat (map car_section bs) @ rest"
    and "written st + length (concat (map car_section bs)) = total_size" and "total_size < 2 ^ 64"
    and "length rows + length bs \<le> max_blocks"
  shows "copy_frames sha total_size max_blocks rows st =
    Inr (rows @ section_rows sha (written st) bs, adv (length (concat (map car_section bs))) st)"
  using assms
proof (induction bs arbitrary: rows st)
  case Nil
  then show ?case by (subst copy_frames.simps) simp
next
  case (Cons b bs)
  have "0 < length (car_section b)" by (simp add: car_section_def)
  then have more: "written st < total_size"
    using Cons.prems(3) unfolding list.map concat.simps length_append by linarith
  have "copy_frame sha total_size st =
      Inr ((SHA2_256, sha (snd b), written st), adv (length (car_section b)) st)"
    using Cons.prems by (intro copy_frame_section) auto
  moreover have "copy_frames sha total_size max_blocks (rows @ [(SHA2_256, sha (snd b), written st)])
      (adv (length (car_section b)) st) =
    Inr ((rows @ [(SHA2_256, sha (snd b), written st)]) @
        section_rows sha (written (adv (length (car_section b)) st)) bs,
      adv (length (concat (map car_section bs))) (adv (length (car_section b)) st))"
    using Cons.prems by (intro Cons.IH) auto
  ultimately show ?case using Cons.prems more by (subst copy_frames.simps) simp
qed

lemma copy_carv1_payload_complete:
  assumes "\<forall>b \<in> set blocks. block_cid sha b" and "blocks \<noteq> []" and "length blocks \<le> max_blocks"
    and "header \<noteq> []" and "length header \<le> MAX_HEADER_BYTES"
    and "length (car_bytes header blocks) < 2 ^ 64"
    and "drop start source = car_bytes header blocks @ rest" and "eof \<longrightarrow> rest = []"
  shows "copy_carv1_payload sha source destination (length (car_bytes header blocks)) max_blocks
      start eof =
    Inr (section_rows sha (length (leb (length header)) + length header) blocks,
      \<lparr>src = rest, dst = destination @ car_bytes header blocks,
       written = length (car_bytes header blocks)\<rparr>)"
proof -
  let ?st = "\<lparr>src = drop start source, dst = destination, written = 0\<rparr>"
  let ?p = "length (leb (length header))" and ?h = "length header"
  let ?n = "length (concat (map car_section blocks))"
  have len: "length (car_bytes header blocks) = ?p + ?h + ?n" by (simp add: car_bytes_def)
  have src: "src ?st = leb ?h @ header @ concat (map car_section blocks) @ rest"
    using assms(7) by (simp add: car_bytes_def)
  have "read_uvarint MAX_HEADER_BYTES ?st = Inr (?h, ?p, adv ?p ?st)"
    using read_uvarint_encoded [OF _ assms(5) src] assms(5) by (simp add: MAX_HEADER_BYTES_def)
  moreover have "copy_frames sha (?p + ?h + ?n) max_blocks [] (adv (?p + ?h) ?st) =
      Inr ([] @ section_rows sha (written (adv (?p + ?h) ?st)) blocks, adv ?n (adv (?p + ?h) ?st))"
    using assms src len by (intro copy_frames_sections [where rest = rest]) auto
  moreover have "section_rows sha (?p + ?h) blocks \<noteq> []"
    using assms(2) by (metis length_section_rows length_0_conv)
  moreover have "0 < ?h" using assms(4) by simp
  ultimately show ?thesis
    using assms(5,7,8) len by (simp add: copy_carv1_payload_unfold car_bytes_def adv_def add.assoc)
qed

section \<open>A stream is judged by its own bytes\<close>

lemma copy_frames_local:
  assumes "copy_frames sha total_size max_blocks rows st = Inr (rows', st')"
  obtains n where "n \<le> length (src st)" "st' = adv n st"
    "\<And>(st2 :: copy_state) m rest. src st2 = take m (src st) @ rest \<Longrightarrow> n \<le> m \<Longrightarrow>
      written st2 = written st \<Longrightarrow>
      copy_frames sha total_size max_blocks rows st2 = Inr (rows', adv n st2)"
  using assms
proof (induction sha total_size max_blocks rows st arbitrary: thesis rule: copy_frames.induct)
  case (1 sha total_size max_blocks rows st)
  show ?case
  proof (cases "written st < total_size")
    case False
    with "1.prems"(2) have "rows' = rows" "st' = st"
      by (subst (asm) copy_frames.simps; simp)+
    with False show ?thesis
      by (intro "1.prems"(1) [of 0]) (simp_all add: copy_frames.simps)
  next
    case True
    with "1.prems"(2) obtain r st1 where r: "copy_frame sha total_size st = Inr (r, st1)"
      and room: "\<not> max_blocks < length (rows @ [r])"
      and rest: "copy_frames sha total_size max_blocks (rows @ [r]) st1 = Inr (rows', st')"
      by (subst (asm) copy_frames.simps) (auto simp: res_simps split: prod.splits if_splits)
    obtain n where n: "n \<le> length (src st)" "st1 = adv n st"
      "\<And>(st2 :: copy_state) m rest. src st2 = take m (src st) @ rest \<Longrightarrow> n \<le> m \<Longrightarrow>
        written st2 = written st \<Longrightarrow> copy_frame sha total_size st2 = Inr (r, adv n st2)"
      using r by (rule copy_frame_local) blast
    obtain n' where n': "n' \<le> length (src st1)" "st' = adv n' st1"
      "\<And>(st2 :: copy_state) m rest. src st2 = take m (src st1) @ rest \<Longrightarrow> n' \<le> m \<Longrightarrow>
        written st2 = written st1 \<Longrightarrow>
        copy_frames sha total_size max_blocks (rows @ [r]) st2 = Inr (rows', adv n' st2)"
      using "1.IH" [OF True r refl room _ rest] by blast
    show ?thesis
    proof (rule "1.prems"(1) [of "n + n'"])
      show "n + n' \<le> length (src st)" "st' = adv (n + n') st" using n n'(1,2) by auto
      fix st2 :: copy_state and m rest
      assume st2: "src st2 = take m (src st) @ rest" "n + n' \<le> m" "written st2 = written st"
      have "src (adv n st2) = take (m - n) (src st1) @ rest"
        using st2 n(1) by (simp add: n(2) drop_take)
      then have "copy_frames sha total_size max_blocks (rows @ [r]) (adv n st2) =
          Inr (rows', adv n' (adv n st2))"
        using st2 by (intro n'(3) [of _ "m - n" rest]) (simp_all add: n(2))
      then show "copy_frames sha total_size max_blocks rows st2 = Inr (rows', adv (n + n') st2)"
        using n(3) [of st2 m rest] st2 True room by (subst copy_frames.simps) simp
    qed
  qed
qed

text \<open>
  What \<open>copy_carv1_payload\<close> returns depends on the \<open>total_size\<close> bytes it reads only, not on what
  surrounds them, on the destination, or on the flag \<open>require_eof\<close> when nothing follows them.
\<close>

lemma copy_carv1_payload_local:
  assumes "copy_carv1_payload sha source destination total_size max_blocks start eof = Inr (rows, st)"
    and "take total_size (drop start2 source2) = take total_size (drop start source)"
    and "eof2 \<longrightarrow> length (drop start2 source2) = total_size"
  shows "copy_carv1_payload sha source2 destination2 total_size max_blocks start2 eof2 =
    Inr (rows, adv total_size \<lparr>src = drop start2 source2, dst = destination2, written = 0\<rparr>)"
proof -
  let ?st = "\<lparr>src = drop start source, dst = destination, written = 0\<rparr>"
  let ?st2 = "\<lparr>src = drop start2 source2, dst = destination2, written = 0\<rparr>"
  have total: "total_size \<le> length (drop start source)"
    by (rule copy_carv1_payload_sound [OF assms(1)])
  have st: "st = adv total_size ?st"
    by (rule copy_carv1_payload_sound [OF assms(1)])
  from assms(1) obtain h k where h: "leb_dec 10 (drop start source) = Some (h, k)" "0 < h"
      "h \<le> MAX_HEADER_BYTES"
    and loop: "copy_frames sha total_size max_blocks [] (adv (k + h) ?st) = Inr (rows, st)"
    and rows: "rows \<noteq> []"
    by (auto simp: copy_carv1_payload_unfold res_simps split: prod.splits if_splits)
  obtain n where n: "n \<le> length (src (adv (k + h) ?st))" "st = adv n (adv (k + h) ?st)"
    and loc: "\<And>(st2 :: copy_state) m rest. src st2 = take m (src (adv (k + h) ?st)) @ rest \<Longrightarrow>
      n \<le> m \<Longrightarrow> written st2 = written (adv (k + h) ?st) \<Longrightarrow>
      copy_frames sha total_size max_blocks [] st2 = Inr (rows, adv n st2)"
    using loop by (rule copy_frames_local) blast
  have sum: "total_size = k + h + n" using arg_cong [OF n(2), of written] st by simp
  have src2: "drop start2 source2 = take total_size (drop start source) @ drop total_size (drop start2 source2)"
    using append_take_drop_id [of total_size "drop start2 source2"] by (simp only: assms(2))
  have "leb_dec 10 (drop start2 source2) = Some (h, k)"
    by (subst src2) (rule leb_dec_prefix [OF h(1)], simp add: sum)
  moreover have "src (adv (k + h) ?st2) =
      take n (src (adv (k + h) ?st)) @ drop total_size (drop start2 source2)"
    using src2 total by (simp add: sum drop_take)
  from loc [OF this] have "copy_frames sha total_size max_blocks [] (adv (k + h) ?st2) =
      Inr (rows, adv total_size ?st2)" by (simp add: sum)
  moreover have "total_size \<le> length (drop start2 source2)"
    using arg_cong [OF assms(2), of length] total by (simp only: length_take)
  then have "h \<le> length (drop k (drop start2 source2))" unfolding length_drop [of k] sum by linarith
  ultimately show ?thesis
    using h(2,3) assms(3) rows
    by (auto simp: copy_carv1_payload_unfold rbind_eq_Inr read_uvarint_Inr simp del: drop_drop)
qed

text \<open>The block limit decides whether a stream is accepted, never what its rows are.\<close>

lemma copy_frames_limit:
  "copy_frames sha total_size max_blocks rows st = Inr x \<Longrightarrow>
    copy_frames sha total_size max_blocks2 rows st = Inr y \<Longrightarrow> x = y"
proof (induction sha total_size max_blocks rows st rule: copy_frames.induct)
  case (1 sha total_size max_blocks rows st)
  show ?case
  proof (cases "written st < total_size")
    case True
    with "1.prems" obtain r st1 where r: "copy_frame sha total_size st = Inr (r, st1)"
      and room: "\<not> max_blocks < length (rows @ [r])"
      and rest: "copy_frames sha total_size max_blocks (rows @ [r]) st1 = Inr x"
        "copy_frames sha total_size max_blocks2 (rows @ [r]) st1 = Inr y"
      by (subst (asm) (1 2) copy_frames.simps) (auto simp: res_simps split: prod.splits if_splits)
    from "1.IH" [OF True r refl room rest] show ?thesis .
  qed (use "1.prems" in \<open>simp add: copy_frames.simps\<close>)
qed

lemma copy_carv1_payload_rows_unique:
  assumes "copy_carv1_payload sha source destination total_size max_blocks start eof = Inr (rows, st)"
    and "copy_carv1_payload sha source destination total_size max_blocks2 start eof = Inr (rows2, st2)"
  shows "rows = rows2"
  using assms copy_frames_limit
  by (fastforce simp: copy_carv1_payload_unfold res_simps split: prod.splits if_splits)

end
