(* ===== verification/Carv2_Index.thy ===== *)
theory Carv2_Index
  imports Carv1_Stream "HOL-Library.List_Lexorder" "HOL-Library.Product_Lexorder" "HOL-Library.Multiset"
begin

text \<open>
  \<open>carv2_zstd.encode_index\<close> and \<open>carv2_header\<close>: the MultihashIndexSorted section of a CARv2 file
  and its fixed header, with \<open>struct.pack\<close>'s range checks. For the rows of an accepted stream the
  index has one bucket of 40-byte records, sorted by digest and offset, and can be read back.
\<close>

section \<open>Little-endian packing\<close>

definition le_bytes :: "nat \<Rightarrow> nat \<Rightarrow> bytes" where
  "le_bytes k n = rev (to_bytes_be k n)"

definition le_value :: "bytes \<Rightarrow> nat" where
  "le_value bs = from_bytes_be (rev bs)"

text \<open>\<open>struct.pack("<I", n)\<close> and \<open>"<Q"\<close>: \<open>struct.error\<close> outside the range of the format.\<close>

definition pack_le :: "nat \<Rightarrow> nat \<Rightarrow> bytes res" where
  "pack_le k n = (if n < 256 ^ k then Inr (le_bytes k n) else Inl StructError)"

lemma length_le_bytes [simp, len_simps]: "length (le_bytes k n) = k"
  by (simp add: le_bytes_def)

lemma le_value_bytes: "n < 256 ^ k \<Longrightarrow> le_value (le_bytes k n) = n"
  by (simp add: le_value_def le_bytes_def from_to_bytes_be)

lemma le_bytes_value: "le_bytes (length bs) (le_value bs) = bs"
  using to_from_bytes_be [of "rev bs"] by (simp add: le_bytes_def le_value_def)

lemma le_value_less: "le_value bs < 256 ^ length bs"
  using from_bytes_be_less [of "rev bs"] by (simp add: le_value_def)

lemma pack_le_Inr [res_simps]: "pack_le k n = Inr d \<longleftrightarrow> n < 256 ^ k \<and> d = le_bytes k n"
  by (auto simp: pack_le_def)

lemma pack_le_ok [simp]: "n < 256 ^ k \<Longrightarrow> pack_le k n = Inr (le_bytes k n)"
  by (simp add: pack_le_def)

section \<open>The index\<close>

text \<open>
  \<open>by_code\<close> is a dictionary of dictionaries, code to record width to the list of (digest, offset)
  pairs in the order of the rows; both levels are visited in sorted key order.
\<close>

definition index_codes :: "row list \<Rightarrow> nat list" where
  "index_codes rows = sort (remdups (map fst rows))"

definition index_widths :: "row list \<Rightarrow> nat \<Rightarrow> nat list" where
  "index_widths rows code =
     sort (remdups (map (\<lambda>(_, digest, _). length digest + 8) (filter (\<lambda>r. fst r = code) rows)))"

definition index_bucket :: "row list \<Rightarrow> nat \<Rightarrow> nat \<Rightarrow> (bytes \<times> nat) list" where
  "index_bucket rows code width =
     map snd (filter (\<lambda>(c, digest, _). c = code \<and> length digest + 8 = width) rows)"

definition encode_record :: "bytes \<Rightarrow> bytes \<times> nat \<Rightarrow> bytes res" where
  "encode_record out r =
     (case r of (digest, offset) \<Rightarrow>
        rbind (pack_le 8 offset) (\<lambda>o8. Inr (out @ digest @ o8)))"

definition encode_width :: "row list \<Rightarrow> nat \<Rightarrow> bytes \<Rightarrow> nat \<Rightarrow> bytes res" where
  "encode_width rows code out width =
     (let records = sort (index_bucket rows code width) in
      rbind (pack_le 4 width) (\<lambda>w4.
      rbind (pack_le 8 (width * length records)) (\<lambda>n8.
      foldM encode_record (out @ w4 @ n8) records)))"

definition encode_code :: "row list \<Rightarrow> bytes \<Rightarrow> nat \<Rightarrow> bytes res" where
  "encode_code rows out code =
     (let widths = index_widths rows code in
      rbind (pack_le 8 code) (\<lambda>c8.
      rbind (pack_le 4 (length widths)) (\<lambda>n4.
      foldM (encode_width rows code) (out @ c8 @ n4) widths)))"

definition encode_index :: "row list \<Rightarrow> bytes res" where
  "encode_index rows =
     rbind (uvarint (int MULTIHASH_INDEX_SORTED)) (\<lambda>out.
     rbind (pack_le 4 (length (index_codes rows))) (\<lambda>n4.
     foldM (encode_code rows) (out @ n4) (index_codes rows)))"

definition carv2_header :: "nat \<Rightarrow> nat \<Rightarrow> bytes res" where
  "carv2_header data_size index_offset =
     rbind (pack_le 8 CARV2_DATA_OFFSET) (\<lambda>a.
     rbind (pack_le 8 data_size) (\<lambda>b.
     rbind (pack_le 8 index_offset) (\<lambda>c.
       Inr (replicate 16 0 @ a @ b @ c))))"

section \<open>The index of sha2-256 rows\<close>

definition sha_rows :: "row list \<Rightarrow> bool" where
  "sha_rows rows \<longleftrightarrow>
     rows \<noteq> [] \<and> (\<forall>(code, digest, offset) \<in> set rows. code = SHA2_256 \<and> length digest = 32)"

definition index_prologue :: "nat \<Rightarrow> bytes" where
  "index_prologue n =
     leb MULTIHASH_INDEX_SORTED @ le_bytes 4 1 @ le_bytes 8 SHA2_256 @ le_bytes 4 1 @
     le_bytes 4 40 @ le_bytes 8 (40 * n)"

definition record_bytes :: "bytes \<times> nat \<Rightarrow> bytes" where
  "record_bytes r = fst r @ le_bytes 8 (snd r)"

lemma foldM_encode_record:
  "foldM encode_record out records = Inr idx \<longleftrightarrow>
     (\<forall>r \<in> set records. snd r < 256 ^ 8) \<and> idx = out @ concat (map record_bytes records)"
proof (induction records arbitrary: out)
  case Nil
  then show ?case by auto
next
  case (Cons r records)
  then show ?case
    by (cases r) (auto simp: encode_record_def res_simps record_bytes_def)
qed

lemma remdups_const: "xs \<noteq> [] \<Longrightarrow> \<forall>x \<in> set xs. x = c \<Longrightarrow> remdups xs = [c]"
proof (induction xs)
  case (Cons x xs)
  then show ?case by (cases xs) auto
qed simp

lemma sha_rows_index:
  assumes "sha_rows rows"
  shows "index_codes rows = [SHA2_256]" and "index_widths rows SHA2_256 = [40]"
    and "index_bucket rows SHA2_256 40 = map snd rows"
proof -
  have all: "\<forall>r \<in> set rows. fst r = SHA2_256 \<and> length (fst (snd r)) = 32"
    using assms by (auto simp: sha_rows_def)
  have "remdups (map fst rows) = [SHA2_256]"
    using assms all by (intro remdups_const) (auto simp: sha_rows_def)
  then show "index_codes rows = [SHA2_256]" by (simp add: index_codes_def)
  have f: "filter (\<lambda>r. fst r = SHA2_256) rows = rows" using all by (simp add: filter_id_conv)
  have "remdups (map (\<lambda>(_, digest, _). length digest + 8) rows) = [40]"
    using assms all by (intro remdups_const) (auto simp: sha_rows_def)
  then show "index_widths rows SHA2_256 = [40]" by (simp add: index_widths_def f)
  have "filter (\<lambda>(c, digest, _). c = SHA2_256 \<and> length digest + 8 = 40) rows = rows"
    using all by (auto simp: filter_id_conv)
  then show "index_bucket rows SHA2_256 40 = map snd rows" by (simp add: index_bucket_def)
qed

lemma encode_index_sha_rows:
  assumes "sha_rows rows"
  shows "encode_index rows = Inr idx \<longleftrightarrow>
    40 * length rows < 256 ^ 8 \<and> (\<forall>r \<in> set rows. snd (snd r) < 256 ^ 8) \<and>
    idx = index_prologue (length rows) @ concat (map record_bytes (sort (map snd rows)))"
  using sha_rows_index [OF assms]
  by (auto simp: encode_index_def encode_code_def encode_width_def res_simps foldM_encode_record
      index_prologue_def SHA2_256_def MULTIHASH_INDEX_SORTED_def simp del: of_nat_numeral)

text \<open>Reading an index back: records of 40 bytes after the 32-byte prologue.\<close>

fun read_records :: "bytes \<Rightarrow> (bytes \<times> nat) list" where
  "read_records bs =
     (if length bs < 40 then []
      else (take 32 bs, le_value (take 8 (drop 32 bs))) # read_records (drop 40 bs))"

declare read_records.simps [simp del]

definition index_entries :: "bytes \<Rightarrow> (bytes \<times> nat) list" where
  "index_entries idx = read_records (drop (length (index_prologue 0)) idx)"

lemma read_records_concat:
  "\<forall>r \<in> set records. length (fst r) = 32 \<and> snd r < 256 ^ 8 \<Longrightarrow>
    read_records (concat (map record_bytes records)) = records"
proof (induction records)
  case Nil
  then show ?case by (simp add: read_records.simps)
next
  case (Cons r records)
  have "read_records (concat (map record_bytes (r # records))) =
      (fst r, le_value (le_bytes 8 (snd r))) # read_records (concat (map record_bytes records))"
    using Cons.prems by (subst read_records.simps) (simp add: record_bytes_def)
  then show ?case using Cons by (simp add: le_value_bytes)
qed

lemma length_index_prologue: "length (index_prologue n) = length (index_prologue 0)"
  by (simp add: index_prologue_def)

text \<open>The index lists every row exactly once, in sorted order: reading the records of
  \<open>encode_index\<close> back gives the sorted list of the (digest, frame offset) pairs of the rows.\<close>

theorem encode_index_lists_rows:
  assumes "sha_rows rows" and "encode_index rows = Inr idx"
  shows "index_entries idx = sort (map snd rows) \<and>
    mset (index_entries idx) = mset (map snd rows) \<and> sorted (index_entries idx)"
proof -
  have idx: "idx = index_prologue (length rows) @ concat (map record_bytes (sort (map snd rows)))"
    and range: "\<forall>r \<in> set rows. snd (snd r) < 256 ^ 8"
    using assms(2) encode_index_sha_rows [OF assms(1)] by auto
  have "\<forall>r \<in> set (sort (map snd rows)). length (fst r) = 32 \<and> snd r < 256 ^ 8"
    using assms(1) range by (auto simp: sha_rows_def)
  from read_records_concat [OF this] have "index_entries idx = sort (map snd rows)"
    by (simp add: index_entries_def idx flip: length_index_prologue [of "length rows"])
  then show ?thesis by simp
qed

theorem encode_index_lists_rows_witness:
  "sha_rows [(SHA2_256, replicate 32 9, 59), (SHA2_256, replicate 32 4, 200)] \<and>
   (\<exists>idx. encode_index [(SHA2_256, replicate 32 9, 59), (SHA2_256, replicate 32 4, 200)] = Inr idx \<and>
     index_entries idx = [(replicate 32 4, 200), (replicate 32 9, 59)])"
proof -
  let ?rows = "[(SHA2_256, replicate 32 (9 :: byte), 59), (SHA2_256, replicate 32 4, 200)] :: row list"
  have rows: "sha_rows ?rows" by (simp add: sha_rows_def)
  obtain idx where idx: "encode_index ?rows = Inr idx"
    using encode_index_sha_rows [OF rows] by simp
  have "sort (map snd ?rows) = [(replicate 32 4, 200), (replicate 32 9, 59)]" by code_simp
  with encode_index_lists_rows [OF rows idx] idx rows show ?thesis by auto
qed

end
