(* ===== verification/Carv2_Archive.thy ===== *)
theory Carv2_Archive
  imports Carv2_Index
begin

text \<open>
  \<open>deploy/carv2_zstd.py\<close>: how \<open>pack\<close> assembles a CARv2 file (written forward, then the header
  patched in place), how \<open>validate_carv2\<close> checks one, and the parser of the Zstandard frame header.
  The validator accepts exactly the files the packer can write.
\<close>

section \<open>Assembling a CARv2 file\<close>

text \<open>A file open for writing: \<open>write\<close> overwrites at the position, \<open>seek\<close> moves it.\<close>

record out_file =
  contents :: bytes
  pos :: nat

definition fwrite :: "bytes \<Rightarrow> out_file \<Rightarrow> out_file" where
  "fwrite data f =
     (let c = contents f @ replicate (pos f - length (contents f)) 0 in
      \<lparr>contents = take (pos f) c @ data @ drop (pos f + length data) c,
       pos = pos f + length data\<rparr>)"

definition fseek :: "nat \<Rightarrow> out_file \<Rightarrow> out_file" where
  "fseek n f = f\<lparr>pos := n\<rparr>"

text \<open>
  The block of \<open>pack\<close> that writes \<open>temp_carv2\<close>. \<open>copy_carv1_payload\<close> appends, so it works on the
  contents and leaves the position at the end.
\<close>

definition write_carv2 ::
    "(bytes \<Rightarrow> bytes) \<Rightarrow> bytes \<Rightarrow> nat \<Rightarrow> (row list \<times> bytes) res" where
  "write_carv2 sha carv1 max_blocks =
     (let f = fwrite (replicate CARV2_HEADER_BYTES 0) (fwrite PRAGMA \<lparr>contents = [], pos = 0\<rparr>) in
      rbind (copy_carv1_payload sha carv1 (contents f) (length carv1) max_blocks 0 True)
        (\<lambda>(rows, st).
      let f = \<lparr>contents = dst st, pos = length (dst st)\<rparr>;
          data_size = pos f - CARV2_DATA_OFFSET;
          index_offset = pos f in
      rbind (encode_index rows) (\<lambda>index.
      let f = fseek (length PRAGMA) (fwrite index f) in
      rbind (carv2_header data_size index_offset) (\<lambda>header.
        Inr (rows, contents (fwrite header f))))))"

section \<open>Validation\<close>

record validation =
  carv2_bytes :: nat
  blocks :: nat
  index_entry_count :: nat

definition validate_carv2 ::
    "(bytes \<Rightarrow> bytes) \<Rightarrow> bytes \<Rightarrow> nat \<Rightarrow> validation res" where
  "validate_carv2 sha file max_blocks =
     (let file_size = length file in
      if take (length PRAGMA) file \<noteq> PRAGMA
      then Inl (ArchiveError ''decompressed stream is not CARv2'')
      else
        rbind (read_exact (int CARV2_HEADER_BYTES)
            \<lparr>src = drop (length PRAGMA) file, dst = [], written = 0\<rparr>) (\<lambda>(raw_header, _).
        if list_ex (\<lambda>b. b \<noteq> 0) (take 16 raw_header)
        then Inl (ArchiveError ''CARv2 requests unsupported characteristics'')
        else
          let data_offset = le_value (take 8 (drop 16 raw_header));
              data_size = le_value (take 8 (drop 24 raw_header));
              index_offset = le_value (take 8 (drop 32 raw_header)) in
          if data_offset \<noteq> CARV2_DATA_OFFSET \<or> data_size < 1 \<or> index_offset \<noteq> data_offset + data_size
          then Inl (ArchiveError ''CARv2 offsets are invalid'')
          else if file_size \<le> index_offset
          then Inl (ArchiveError ''CARv2 index is missing'')
          else
            rbind (copy_carv1_payload sha file [] data_size max_blocks data_offset False)
              (\<lambda>(rows, _).
            rbind (encode_index rows) (\<lambda>expected_index.
            let actual_index = take (length expected_index + 1) (drop index_offset file) in
            if actual_index \<noteq> expected_index
            then Inl (ArchiveError ''CARv2 index does not match its CARv1 data'')
            else Inr \<lparr>carv2_bytes = file_size, blocks = length rows,
                      index_entry_count = length rows\<rparr>))))"

section \<open>The layout of an assembled file\<close>

definition header_bytes :: "nat \<Rightarrow> bytes" where
  "header_bytes data_size =
     replicate 16 0 @ le_bytes 8 CARV2_DATA_OFFSET @ le_bytes 8 data_size @
     le_bytes 8 (CARV2_DATA_OFFSET + data_size)"

lemma length_header_bytes [simp, len_simps]: "length (header_bytes n) = 40"
  by (simp add: header_bytes_def)

lemma length_PRAGMA [simp, len_simps]: "length PRAGMA = 11"
  by (simp add: PRAGMA_def)

lemma carv2_header_Inr [res_simps]:
  "carv2_header n (CARV2_DATA_OFFSET + n) = Inr h \<longleftrightarrow>
     CARV2_DATA_OFFSET + n < 256 ^ 8 \<and> h = header_bytes n"
  by (auto simp: carv2_header_def res_simps header_bytes_def CARV2_DATA_OFFSET_def)

lemma patch_header:
  assumes "length h = 40"
  shows "contents (fwrite h (fseek 11 (fwrite index
      \<lparr>contents = PRAGMA @ replicate 40 0 @ data, pos = CARV2_DATA_OFFSET + length data\<rparr>))) =
    PRAGMA @ h @ data @ index"
  using assms by (simp add: fwrite_def fseek_def Let_def CARV2_DATA_OFFSET_def)

lemma write_carv2_Inr:
  "write_carv2 sha carv1 max_blocks = Inr (rows, file) \<longleftrightarrow>
     (\<exists>st index. copy_carv1_payload sha carv1 (PRAGMA @ replicate 40 0) (length carv1) max_blocks 0 True =
         Inr (rows, st) \<and> encode_index rows = Inr index \<and>
       CARV2_DATA_OFFSET + length carv1 < 256 ^ 8 \<and>
       file = PRAGMA @ header_bytes (length carv1) @ carv1 @ index)"
    (is "?l = ?r")
proof -
  let ?copy = "copy_carv1_payload sha carv1 (PRAGMA @ replicate 40 0) (length carv1) max_blocks 0 True"
  have head: "fwrite (replicate CARV2_HEADER_BYTES 0) (fwrite PRAGMA \<lparr>contents = [], pos = 0\<rparr>) =
      \<lparr>contents = PRAGMA @ replicate 40 0, pos = 51\<rparr>"
    by (simp add: fwrite_def CARV2_HEADER_BYTES_def)
  have dst: "dst st = PRAGMA @ replicate 40 0 @ carv1" if "?copy = Inr (rows', st)" for rows' st
  proof -
    have "st = adv (length carv1) \<lparr>src = drop 0 carv1, dst = PRAGMA @ replicate 40 0, written = 0\<rparr>"
      by (rule copy_carv1_payload_sound [OF that])
    then show ?thesis by simp
  qed
  have off: "51 + length carv1 = CARV2_DATA_OFFSET + length carv1" by (simp add: CARV2_DATA_OFFSET_def)
  show ?thesis
  proof
    assume ?l
    then show ?r
      unfolding write_carv2_def Let_def head
      by (auto simp: res_simps dst off patch_header split: prod.splits)
  next
    assume ?r
    then show ?l
      unfolding write_carv2_def Let_def head
      by (auto simp: res_simps dst off patch_header)
  qed
qed

lemma encode_index_nonempty: "sha_rows rows \<Longrightarrow> encode_index rows = Inr index \<Longrightarrow> index \<noteq> []"
  by (auto simp: encode_index_sha_rows index_prologue_def)

lemma frame_rows_sha: "\<forall>f \<in> set fs. good_frame sha f \<Longrightarrow> fs \<noteq> [] \<Longrightarrow> sha_rows (frame_rows n fs)"
proof -
  have "\<forall>f \<in> set fs. good_frame sha f \<Longrightarrow>
      \<forall>(code, digest, _) \<in> set (frame_rows n fs). code = SHA2_256 \<and> length digest = 32" for n fs
    by (induction fs arbitrary: n) (auto simp: good_frame_def)
  moreover have "fs \<noteq> [] \<Longrightarrow> frame_rows n fs \<noteq> []" by (cases fs) auto
  ultimately show "\<forall>f \<in> set fs. good_frame sha f \<Longrightarrow> fs \<noteq> [] \<Longrightarrow> sha_rows (frame_rows n fs)"
    by (auto simp: sha_rows_def)
qed

lemma copy_carv1_payload_sha_rows:
  assumes "copy_carv1_payload sha source destination total_size max_blocks start eof = Inr (rows, st)"
  shows "sha_rows rows"
  by (rule copy_carv1_payload_sound [OF assms]) (use frame_rows_sha in blast)

section \<open>The validator accepts what the packer writes, and nothing else\<close>

lemma header_of_fields:
  assumes "length raw = 40" and "\<not> list_ex (\<lambda>b. b \<noteq> 0) (take 16 raw)"
    and "le_value (take 8 (drop 16 raw)) = CARV2_DATA_OFFSET"
    and "le_value (take 8 (drop 24 raw)) = n"
    and "le_value (take 8 (drop 32 raw)) = CARV2_DATA_OFFSET + n"
  shows "raw = header_bytes n"
proof -
  have field: "take 8 (drop k raw) = le_bytes 8 (le_value (take 8 (drop k raw)))" if "k + 8 \<le> 40" for k
    using le_bytes_value [of "take 8 (drop k raw)"] that assms(1) by simp
  have "take 16 raw = replicate 16 0"
    using assms(1,2) by (intro replicate_eqI) (auto simp: list_ex_iff)
  moreover have "raw = take 16 raw @ take 8 (drop 16 raw) @ take 8 (drop 24 raw) @ take 8 (drop 32 raw)"
  proof -
    have "drop 16 raw = take 8 (drop 16 raw) @ drop 24 raw" and "drop 24 raw = take 8 (drop 24 raw) @ drop 32 raw"
      and "drop 32 raw = take 8 (drop 32 raw)"
      using append_take_drop_id [of 8 "drop 16 raw"] append_take_drop_id [of 8 "drop 24 raw"] assms(1)
      by simp_all
    then show ?thesis by (metis append_take_drop_id)
  qed
  ultimately show ?thesis using assms(3-5) field [of 16] field [of 24] field [of 32]
    by (simp add: header_bytes_def)
qed

lemma header_bytes_fields:
  assumes "CARV2_DATA_OFFSET + n < 256 ^ 8"
  shows "\<not> list_ex (\<lambda>b. b \<noteq> 0) (take 16 (header_bytes n))"
    and "le_value (take 8 (drop 16 (header_bytes n))) = CARV2_DATA_OFFSET"
    and "le_value (take 8 (drop 24 (header_bytes n))) = n"
    and "le_value (take 8 (drop 32 (header_bytes n))) = CARV2_DATA_OFFSET + n"
  using assms
  by (simp_all add: header_bytes_def le_value_bytes CARV2_DATA_OFFSET_def list_ex_iff)

lemma take_Suc_eq: "take (Suc (length xs)) ys = xs \<longleftrightarrow> ys = xs"
proof
  assume *: "take (Suc (length xs)) ys = xs"
  then have "length ys \<le> length xs" 
    by (metis length_take min_def Suc_n_not_le_n not_less_eq_eq)
  with * show "ys = xs" by simp
qed simp

text \<open>\<open>validate_carv2\<close> as one condition on the fields of the file.\<close>

lemma validate_carv2_Inr:
  "validate_carv2 sha file max_blocks = Inr rep \<longleftrightarrow>
     (\<exists>rows st index. let n = le_value (take 8 (drop 24 (take 40 (drop 11 file)))) in
       take 11 file = PRAGMA \<and> 51 \<le> length file \<and>
       \<not> list_ex (\<lambda>b. b \<noteq> 0) (take 16 (take 40 (drop 11 file))) \<and>
       le_value (take 8 (drop 16 (take 40 (drop 11 file)))) = CARV2_DATA_OFFSET \<and>
       le_value (take 8 (drop 32 (take 40 (drop 11 file)))) = CARV2_DATA_OFFSET + n \<and>
       1 \<le> n \<and> CARV2_DATA_OFFSET + n < length file \<and>
       copy_carv1_payload sha file [] n max_blocks CARV2_DATA_OFFSET False = Inr (rows, st) \<and>
       encode_index rows = Inr index \<and> drop (CARV2_DATA_OFFSET + n) file = index \<and>
       rep = \<lparr>carv2_bytes = length file, blocks = length rows, index_entry_count = length rows\<rparr>)"
proof -
  have hdr: "read_exact (int 40) \<lparr>src = drop 11 file, dst = [], written = 0\<rparr> =
      (if 51 \<le> length file
       then Inr (take 40 (drop 11 file), \<lparr>src = drop 51 file, dst = [], written = 0\<rparr>)
       else Inl (ArchiveError ''truncated CAR data''))"
    unfolding read_exact_spec by auto
  show ?thesis
    unfolding validate_carv2_def Let_def CARV2_HEADER_BYTES_def length_PRAGMA hdr
    by (rule iffI) (auto simp: res_simps take_Suc_eq not_less not_le split: if_splits prod.splits)
qed

lemma split_file:
  "file = take 11 file @ take 40 (drop 11 file) @ take n (drop CARV2_DATA_OFFSET file) @
     drop (CARV2_DATA_OFFSET + n) file"
proof -
  have "drop (CARV2_DATA_OFFSET + n) file = drop n (drop CARV2_DATA_OFFSET file)"
    by (simp add: add.commute)
  moreover have "drop CARV2_DATA_OFFSET file = drop 40 (drop 11 file)"
    by (simp add: CARV2_DATA_OFFSET_def)
  ultimately show ?thesis by (simp only: append_take_drop_id)
qed

lemma validate_carv2_iff:
  "validate_carv2 sha file max_blocks = Inr rep \<longleftrightarrow>
     (\<exists>carv1 rows. write_carv2 sha carv1 max_blocks = Inr (rows, file) \<and>
        rep = \<lparr>carv2_bytes = length file, blocks = length rows, index_entry_count = length rows\<rparr>)"
proof
  let ?raw = "take 40 (drop 11 file)"
  assume "validate_carv2 sha file max_blocks = Inr rep"
  then obtain rows st n where n: "le_value (take 8 (drop 24 ?raw)) = n" and v: "take 11 file = PRAGMA" "51 \<le> length file"
    "\<not> list_ex (\<lambda>b. b \<noteq> 0) (take 16 ?raw)" "le_value (take 8 (drop 16 ?raw)) = CARV2_DATA_OFFSET"
    "le_value (take 8 (drop 32 ?raw)) = CARV2_DATA_OFFSET + n" "CARV2_DATA_OFFSET + n < length file"
    "copy_carv1_payload sha file [] n max_blocks CARV2_DATA_OFFSET False = Inr (rows, st)"
    "encode_index rows = Inr (drop (CARV2_DATA_OFFSET + n) file)"
    "rep = \<lparr>carv2_bytes = length file, blocks = length rows, index_entry_count = length rows\<rparr>"
    unfolding validate_carv2_Inr Let_def by blast
  define carv1 where "carv1 = take n (drop CARV2_DATA_OFFSET file)"
  have len: "length carv1 = n" using v(6) by (simp add: carv1_def)
  have raw: "?raw = header_bytes n" using v(2-5) n by (intro header_of_fields) auto
  have "n + CARV2_DATA_OFFSET < 256 ^ 8"
    using le_value_less [of "take 8 (drop 32 ?raw)"] v(2) unfolding v(5) by simp
  moreover have "file = PRAGMA @ header_bytes n @ carv1 @ drop (CARV2_DATA_OFFSET + n) file"
    using split_file [of "file" n] unfolding v(1) raw carv1_def .
  moreover have "copy_carv1_payload sha carv1 (PRAGMA @ replicate 40 0) (length carv1) max_blocks 0 True =
      Inr (rows, adv (length carv1) \<lparr>src = drop 0 carv1, dst = PRAGMA @ replicate 40 0, written = 0\<rparr>)"
    unfolding len by (rule copy_carv1_payload_local [OF v(7)]) (use v(6) in \<open>simp_all add: carv1_def\<close>)
  ultimately have "write_carv2 sha carv1 max_blocks = Inr (rows, file)"
    using v(8) len by (auto simp: write_carv2_Inr add.commute)
  with v(9) show "\<exists>carv1 rows. write_carv2 sha carv1 max_blocks = Inr (rows, file) \<and>
      rep = \<lparr>carv2_bytes = length file, blocks = length rows, index_entry_count = length rows\<rparr>" by blast
next
  assume "\<exists>carv1 rows. write_carv2 sha carv1 max_blocks = Inr (rows, file) \<and>
      rep = \<lparr>carv2_bytes = length file, blocks = length rows, index_entry_count = length rows\<rparr>"
  then obtain carv1 rows st index where
    copy: "copy_carv1_payload sha carv1 (PRAGMA @ replicate 40 0) (length carv1) max_blocks 0 True =
      Inr (rows, st)" and
    index: "encode_index rows = Inr index" and range: "CARV2_DATA_OFFSET + length carv1 < 256 ^ 8" and
    layout: "file = PRAGMA @ header_bytes (length carv1) @ carv1 @ index" and
    rep: "rep = \<lparr>carv2_bytes = length file, blocks = length rows, index_entry_count = length rows\<rparr>"
    by (auto simp: write_carv2_Inr)
  have ne: "index \<noteq> []"
    by (rule encode_index_nonempty [OF copy_carv1_payload_sha_rows [OF copy] index])
  have raw: "take 40 (drop 11 file) = header_bytes (length carv1)" by (simp add: layout)
  have "0 < length carv1"
  proof (rule ccontr)
    assume "\<not> 0 < length carv1"
    then have "leb_dec 10 carv1 = None" by simp
    with copy show False by (simp add: copy_carv1_payload_unfold res_simps)
  qed
  moreover have "copy_carv1_payload sha file [] (length carv1) max_blocks CARV2_DATA_OFFSET False =
      Inr (rows, adv (length carv1) \<lparr>src = drop CARV2_DATA_OFFSET file, dst = [], written = 0\<rparr>)"
    by (rule copy_carv1_payload_local [OF copy]) (simp_all add: layout CARV2_DATA_OFFSET_def)
  ultimately show "validate_carv2 sha file max_blocks = Inr rep"
    unfolding validate_carv2_Inr Let_def raw header_bytes_fields [OF range] rep
    using header_bytes_fields(1) [OF range] index ne
    by (auto simp: layout CARV2_DATA_OFFSET_def Suc_le_eq)
qed

text \<open>The CARv1 stream inside a CARv2 file, by the size its header declares.\<close>

definition data_section :: "bytes \<Rightarrow> bytes" where
  "data_section file =
     take (le_value (take 8 (drop 24 (take 40 (drop 11 file))))) (drop CARV2_DATA_OFFSET file)"

lemma write_carv2_data:
  assumes "write_carv2 sha carv1 max_blocks = Inr (rows, file)"
  shows "data_section file = carv1"
proof -
  from assms obtain index where range: "CARV2_DATA_OFFSET + length carv1 < 256 ^ 8"
    and layout: "file = PRAGMA @ header_bytes (length carv1) @ carv1 @ index"
    by (auto simp: write_carv2_Inr)
  then have "take 40 (drop 11 file) = header_bytes (length carv1)"
    and "drop CARV2_DATA_OFFSET file = carv1 @ index" by (simp_all add: CARV2_DATA_OFFSET_def)
  then show ?thesis by (simp add: data_section_def header_bytes_fields [OF range])
qed

text \<open>Two files that pass \<open>validate_carv2\<close> (under any block limits) and carry the same CARv1
  data are the same file: nothing outside the data section can be varied without being refused.\<close>

theorem validated_file_determined_by_data:
  assumes "validate_carv2 sha file1 max_blocks1 = Inr rep1"
    and "validate_carv2 sha file2 max_blocks2 = Inr rep2"
    and "data_section file1 = data_section file2"
  shows "file1 = file2"
proof -
  obtain carv1 rows1 where w1: "write_carv2 sha carv1 max_blocks1 = Inr (rows1, file1)"
    using assms(1) unfolding validate_carv2_iff by blast
  obtain carv1' rows2 where w2: "write_carv2 sha carv1' max_blocks2 = Inr (rows2, file2)"
    using assms(2) unfolding validate_carv2_iff by blast
  have same: "carv1' = carv1" using write_carv2_data [OF w1] write_carv2_data [OF w2] assms(3) by simp
  from w1 obtain st1 where c1: "copy_carv1_payload sha carv1 (PRAGMA @ replicate 40 0) (length carv1)
      max_blocks1 0 True = Inr (rows1, st1)" by (auto simp: write_carv2_Inr)
  from w2 obtain st2 where c2: "copy_carv1_payload sha carv1 (PRAGMA @ replicate 40 0) (length carv1)
      max_blocks2 0 True = Inr (rows2, st2)" by (auto simp: write_carv2_Inr same)
  have "rows1 = rows2" by (rule copy_carv1_payload_rows_unique [OF c1 c2])
  with w1 w2 show ?thesis by (auto simp: write_carv2_Inr same)
qed

section \<open>The Zstandard frame header\<close>

definition nth_res :: "nat list \<Rightarrow> nat \<Rightarrow> nat res" where
  "nth_res xs i = (if i < length xs then Inr (xs ! i) else Inl IndexError)"

text \<open>\<open>zstd_frame_content_size\<close>, with the file's contents as argument. The dictionary-id width and
  the content-size width are looked up in tuples indexed by two-bit fields.\<close>

definition zstd_frame_content_size :: "bytes \<Rightarrow> nat res" where
  "zstd_frame_content_size file =
     (let prefix = take 18 file in
      if length prefix < 5 \<or> take 4 prefix \<noteq> [0x28, 0xB5, 0x2F, 0xFD]
      then Inl (ArchiveError ''input is not a regular Zstandard frame'')
      else
        let descriptor = prefix ! 4 in
        if descriptor AND 0x18 \<noteq> 0
        then Inl (ArchiveError ''Zstandard frame has reserved descriptor bits'')
        else
          let fcs_flag = unat (drop_bit 6 descriptor);
              single_segment = (descriptor AND 0x20 \<noteq> 0);
              dict_flag = unat (descriptor AND 0x03);
              offset = 5 + (if single_segment then 0 else 1) in
          rbind (nth_res [0, 1, 2, 4] dict_flag) (\<lambda>dict_width.
          let offset = offset + dict_width in
          rbind (if fcs_flag = 0 then Inr (if single_segment then 1 else 0)
                 else nth_res [2, 4, 8] (fcs_flag - 1)) (\<lambda>fcs_width.
          if fcs_width = 0 \<or> length prefix < offset + fcs_width
          then Inl (ArchiveError ''Zstandard frame does not declare its content size'')
          else
            let declared = le_value (take fcs_width (drop offset prefix)) in
            Inr (if fcs_width = 2 then declared + 256 else declared))))"

text \<open>A frame header as the Zstandard format lays it out: magic number, descriptor byte (content-size
  flag, single-segment flag, checksum flag, dictionary flag), window descriptor unless single
  segment, dictionary id, content size.\<close>

definition zstd_descriptor :: "nat \<Rightarrow> bool \<Rightarrow> bool \<Rightarrow> nat \<Rightarrow> byte" where
  "zstd_descriptor fcs single checksum dict =
     word_of_nat (fcs * 64 + (if single then 32 else 0) + (if checksum then 4 else 0) + dict)"

definition zstd_size_width :: "nat \<Rightarrow> bool \<Rightarrow> nat" where
  "zstd_size_width fcs single = (if fcs = 0 then (if single then 1 else 0) else 2 ^ fcs)"

definition zstd_size_bias :: "nat \<Rightarrow> nat" where
  "zstd_size_bias fcs = (if fcs = 1 then 256 else 0)"

definition zstd_header ::
    "nat \<Rightarrow> bool \<Rightarrow> bool \<Rightarrow> nat \<Rightarrow> bytes \<Rightarrow> bytes \<Rightarrow> nat \<Rightarrow> bytes" where
  "zstd_header fcs single checksum dict window dict_id content =
     [0x28, 0xB5, 0x2F, 0xFD, zstd_descriptor fcs single checksum dict] @ window @ dict_id @
     le_bytes (zstd_size_width fcs single) (content - zstd_size_bias fcs)"

lemma zstd_descriptor_fields:
  assumes "fcs < 4" "dict < 4"
  shows "zstd_descriptor fcs single checksum dict AND 0x18 = 0"
    and "unat (drop_bit 6 (zstd_descriptor fcs single checksum dict)) = fcs"
    and "zstd_descriptor fcs single checksum dict AND 0x20 \<noteq> 0 \<longleftrightarrow> single"
    and "unat (zstd_descriptor fcs single checksum dict AND 3) = dict"
proof -
  have "list_all (\<lambda>fcs. list_all (\<lambda>dict. list_all (\<lambda>single. list_all (\<lambda>checksum.
      zstd_descriptor fcs single checksum dict AND 0x18 = 0 \<and>
      unat (drop_bit 6 (zstd_descriptor fcs single checksum dict)) = fcs \<and>
      (zstd_descriptor fcs single checksum dict AND 0x20 \<noteq> 0 \<longleftrightarrow> single) \<and>
      unat (zstd_descriptor fcs single checksum dict AND 3) = dict)
      [False, True]) [False, True]) [0..<4]) [0..<4]"
    by code_simp
  then show "zstd_descriptor fcs single checksum dict AND 0x18 = 0"
    and "unat (drop_bit 6 (zstd_descriptor fcs single checksum dict)) = fcs"
    and "zstd_descriptor fcs single checksum dict AND 0x20 \<noteq> 0 \<longleftrightarrow> single"
    and "unat (zstd_descriptor fcs single checksum dict AND 3) = dict"
    using assms by (cases single; cases checksum; simp add: list_all_iff)+
qed

text \<open>\<open>zstd_frame_content_size\<close> reads the content size out of every frame header that declares
  one, for each of the layouts the format allows.\<close>

theorem zstd_frame_content_size_reads:
  assumes "fcs < 4" and "dict < 4" and "fcs \<noteq> 0 \<or> single"
    and "length window = (if single then 0 else 1)" and "length dict_id = [0, 1, 2, 4] ! dict"
    and "zstd_size_bias fcs \<le> content"
    and "content - zstd_size_bias fcs < 256 ^ zstd_size_width fcs single"
  shows "zstd_frame_content_size (zstd_header fcs single checksum dict window dict_id content @ rest) =
    Inr content"
proof -
  let ?h = "zstd_header fcs single checksum dict window dict_id content"
  let ?w = "zstd_size_width fcs single"
  let ?off = "5 + (if single then 0 else 1) + [0, 1, 2, 4] ! dict :: nat"
  let ?c = "le_bytes ?w (content - zstd_size_bias fcs)"
  have w: "0 < ?w" "?w \<le> 8" and dw: "[0, 1, 2, 4] ! dict \<le> (4 :: nat)"
    and width: "(if fcs = 0 then Inr (if single then 1 else 0) else nth_res [2, 4, 8] (fcs - 1)) = Inr ?w"
    and dict_width: "nth_res [0, 1, 2, 4] dict = Inr ([0, 1, 2, 4] ! dict)"
    and two: "?w = 2 \<longleftrightarrow> fcs = 1"
    using assms(1-3) by (auto simp: zstd_size_width_def less_Suc_eq numeral_eq_Suc nth_res_def)
  have len: "length ?h = ?off + ?w" using assms(4,5) by (simp add: zstd_header_def)
  have "length ?h \<le> 18" using len w dw by auto
  then obtain more where prefix: "take 18 (?h @ rest) = ?h @ more" by simp
  have d4: "(?h @ more) ! 4 = zstd_descriptor fcs single checksum dict"
    and magic: "take 4 (?h @ more) = [0x28, 0xB5, 0x2F, 0xFD]" by (simp_all add: zstd_header_def)
  have "take ?w (drop ?off (?h @ more)) = ?c"
  proof -
    let ?head = "[0x28, 0xB5, 0x2F, 0xFD, zstd_descriptor fcs single checksum dict] @ window @ dict_id"
    have "?h @ more = ?head @ ?c @ more" by (simp add: zstd_header_def)
    moreover have "length ?head = ?off" using assms(4,5) by simp
    ultimately show ?thesis by (metis append_eq_conv_conj length_le_bytes)
  qed
  then have field: "le_value (take ?w (drop ?off (?h @ more))) = content - zstd_size_bias fcs"
    using assms(7) by (simp add: le_value_bytes)
  note fields = zstd_descriptor_fields [OF assms(1,2), of single checksum]
  show ?thesis
    unfolding zstd_frame_content_size_def Let_def prefix d4 magic fields dict_width rbind.simps width field
    using len w two assms(6) by (auto simp: zstd_size_bias_def)
qed

theorem zstd_frame_content_size_reads_witness:
  "zstd_frame_content_size (zstd_header 1 True True 0 [] [] 700 @ [7, 7]) = Inr 700"
  by (rule zstd_frame_content_size_reads) (simp_all add: zstd_size_bias_def zstd_size_width_def)

text \<open>C4: \<open>validate_carv2\<close> accepts a file exactly when \<open>pack\<close> could have assembled it from some
  CARv1 stream (under the same block limit), and it reports the true size and block count. So the
  self-check of \<open>pack\<close> never fails, and no other arrangement of header, data and index passes.\<close>

theorem validate_carv2_accepts_packed_only:
  "validate_carv2 sha file max_blocks = Inr rep \<longleftrightarrow>
     (\<exists>carv1 rows. write_carv2 sha carv1 max_blocks = Inr (rows, file) \<and> data_section file = carv1 \<and>
        rep = \<lparr>carv2_bytes = length file, blocks = length rows, index_entry_count = length rows\<rparr>)"
  unfolding validate_carv2_iff by (metis write_carv2_data)

section \<open>Standard streams are packed\<close>

text \<open>A small archive for the witnesses.\<close>

definition sample_blocks :: "(bytes \<times> bytes) list" where
  "sample_blocks =
     [([0x12, 0x20] @ replicate 32 7, [1, 2, 3]), (cid_v1_binary 0x55 (replicate 32 7), [4])]"

lemma sample_blocks_ok:
  "\<forall>b \<in> set sample_blocks. block_cid sample_sha b" "sample_blocks \<noteq> []" "length sample_blocks \<le> 10"
proof -
  have "block_cid sample_sha (cid_v1_binary 85 (replicate 32 7), [4])"
    unfolding block_cid_def sample_sha_def fst_conv snd_conv
    by (intro conjI disjI2 exI [of _ 85]) simp_all
  then show "\<forall>b \<in> set sample_blocks. block_cid sample_sha b"
    by (simp add: sample_blocks_def) (simp add: sample_sha_def block_cid_def)
qed (simp_all add: sample_blocks_def)

lemma section_rows_offsets:
  "r \<in> set (section_rows sha n bs) \<Longrightarrow> snd (snd r) \<le> n + length (concat (map car_section bs))"
  by (induction bs arbitrary: n) fastforce+

lemma section_rows_sha:
  assumes "\<forall>b \<in> set bs. block_cid sha b" "bs \<noteq> []"
  shows "sha_rows (section_rows sha n bs)"
proof -
  have "\<forall>b \<in> set bs. block_cid sha b \<Longrightarrow>
      \<forall>(code, digest, _) \<in> set (section_rows sha n bs). code = SHA2_256 \<and> length digest = 32" for n bs
    by (induction bs arbitrary: n) (auto simp: block_cid_def)
  moreover have "section_rows sha n bs \<noteq> []" using assms(2) by (cases bs) auto
  ultimately show ?thesis using assms(1) by (auto simp: sha_rows_def)
qed

lemma length_le_car_sections: "length bs \<le> length (concat (map car_section bs))"
proof (induction bs)
  case (Cons b bs)
  have "0 < length (car_section b)" by (simp add: car_section_def)
  with Cons show ?case unfolding list.map concat.simps length_append list.size by linarith
qed simp

lemma standard_car_packed:
  assumes "\<forall>b \<in> set bs. block_cid sha b" and "bs \<noteq> []" and "length bs \<le> max_blocks"
    and "header \<noteq> []" and "length header \<le> MAX_HEADER_BYTES"
    and "length (car_bytes header bs) < 2 ^ 58"
  shows "\<exists>archive. write_carv2 sha (car_bytes header bs) max_blocks =
      Inr (section_rows sha (length (leb (length header)) + length header) bs, archive) \<and>
    data_section archive = car_bytes header bs \<and>
    validate_carv2 sha archive max_blocks =
      Inr \<lparr>carv2_bytes = length archive, blocks = length bs, index_entry_count = length bs\<rparr>"
proof -
  let ?rows = "section_rows sha (length (leb (length header)) + length header) bs"
  let ?car = "car_bytes header bs"
  have copy: "copy_carv1_payload sha ?car (PRAGMA @ replicate 40 0) (length ?car) max_blocks 0 True =
    Inr (?rows, \<lparr>src = [], dst = (PRAGMA @ replicate 40 0) @ ?car, written = length ?car\<rparr>)"
    using assms by (intro copy_carv1_payload_complete) simp_all
  have len: "length ?car = length (leb (length header)) + length header + length (concat (map car_section bs))"
    by (simp add: car_bytes_def)
  have few: "length bs \<le> length ?car" unfolding len using length_le_car_sections [of bs] by linarith
  have offs: "snd (snd r) < 256 ^ 8" if "r \<in> set ?rows" for r
    using section_rows_offsets [OF that] assms(6) unfolding len by simp
  obtain index where index: "encode_index ?rows = Inr index"
    using encode_index_sha_rows [OF section_rows_sha [OF assms(1,2)]] offs few assms(6) by auto
  let ?archive = "PRAGMA @ header_bytes (length ?car) @ ?car @ index"
  have w: "write_carv2 sha ?car max_blocks = Inr (?rows, ?archive)"
    using copy index assms(6) unfolding write_carv2_Inr by (auto simp: CARV2_DATA_OFFSET_def)
  then have "validate_carv2 sha ?archive max_blocks = Inr \<lparr>carv2_bytes = length ?archive,
      blocks = length ?rows, index_entry_count = length ?rows\<rparr>"
    unfolding validate_carv2_iff by blast
  with w write_carv2_data [OF w] show ?thesis by auto
qed

text \<open>Every CARv1 file in the exporter's form, whose blocks carry the sha2-256 digest of their
  bytes in a CIDv0 or CIDv1, is packed: \<open>pack\<close> writes a CARv2 file around it that passes
  \<open>validate_carv2\<close>, holds the stream unchanged, and indexes each block at its frame offset.\<close>

theorem packer_accepts_standard_car:
  assumes "\<forall>b \<in> set bs. block_cid sha b" and "bs \<noteq> []" and "length bs \<le> max_blocks"
    and "header \<noteq> []" and "length header \<le> MAX_HEADER_BYTES"
    and "length (car_bytes header bs) < 2 ^ 58"
  shows "\<exists>archive. write_carv2 sha (car_bytes header bs) max_blocks =
      Inr (section_rows sha (length (leb (length header)) + length header) bs, archive) \<and>
    data_section archive = car_bytes header bs \<and>
    validate_carv2 sha archive max_blocks =
      Inr \<lparr>carv2_bytes = length archive, blocks = length bs, index_entry_count = length bs\<rparr>"
  using assms by (rule standard_car_packed)

theorem packer_accepts_standard_car_witness:
  "\<exists>archive. write_carv2 sample_sha (car_bytes [0xA0] sample_blocks) 10 =
      Inr (section_rows sample_sha 2 sample_blocks, archive) \<and>
    data_section archive = car_bytes [0xA0] sample_blocks \<and>
    validate_carv2 sample_sha archive 10 =
      Inr \<lparr>carv2_bytes = length archive, blocks = 2, index_entry_count = 2\<rparr>"
proof -
  have "length (car_bytes [0xA0] sample_blocks) = 78" "length (leb (length [0xA0 :: byte])) = 1"
    "length sample_blocks = 2" by code_simp+
  with packer_accepts_standard_car [OF sample_blocks_ok, of "[0xA0]"] show ?thesis
    by (simp add: MAX_HEADER_BYTES_def flip: numeral_2_eq_2)
qed

theorem validated_file_determined_by_data_witness:
  "\<exists>archive archive2. is_ok (validate_carv2 sample_sha archive 10) \<and>
     is_ok (validate_carv2 sample_sha archive2 2) \<and>
     data_section archive2 = data_section archive \<and> archive = archive2"
proof -
  have "length (car_bytes [0xA0] sample_blocks) = 78" and two: "length sample_blocks \<le> 2" by code_simp+
  then obtain a a2 where
    a: "is_ok (validate_carv2 sample_sha a 10)" "data_section a = car_bytes [0xA0] sample_blocks" and
    a2: "is_ok (validate_carv2 sample_sha a2 2)" "data_section a2 = car_bytes [0xA0] sample_blocks"
    using standard_car_packed [OF sample_blocks_ok, of "[0xA0]"]
      standard_car_packed [OF sample_blocks_ok(1,2) two, of "[0xA0]"]
    by (auto simp: MAX_HEADER_BYTES_def is_ok_iff)
  then have "a = a2" by (auto simp: is_ok_iff intro: validated_file_determined_by_data)
  with a a2 show ?thesis by auto
qed

text \<open>
  A CIDv0 whose digest length is spelled with a redundant varint is measured one byte too short
  (\<open>1 + len(uvarint(digest_size))\<close>), so a last frame that overruns its own length prefix by that
  byte is accepted.
\<close>

lemma overlong_cidv0_frame_accepted:
  "is_ok (copy_carv1_payload sample_sha
     ([1, 0xA0] @ [35] @ [0x12, 0xA0, 0x00] @ replicate 32 7 @ [5]) [] 39 10 0 True)"
  by code_simp

end
