(* ===== verification/Json_Files.thy ===== *)
theory Json_Files
  imports Cid_Codec "HOL-Library.AList"
begin

text \<open>
  What the scripts share of Python's standard library besides bytes: decoded JSON values with
  Python's comparison and access rules, and a file system as a finite table from paths to nodes.
  The JSON text format, SHA-256 and the other library routines a script calls are fields of the
  record \<open>pylib\<close>, an argument of the definitions that use them.
\<close>

section \<open>JSON values\<close>

text \<open>
  The values \<open>json.loads\<close> builds. A finite float is the pair \<open>as_integer_ratio()\<close> gives: numerator
  and positive denominator, in lowest terms. Dictionaries keep insertion order and have no
  duplicate keys.
\<close>

datatype json =
    JNull
  | JBool bool
  | JInt int
  | JFloat int nat
  | JStr string
  | JList "json list"
  | JDict "(string \<times> json) list"

text \<open>\<open>v == i\<close> for an integer \<open>i\<close>: \<open>==\<close> between numbers compares values, and \<open>True\<close> and \<open>False\<close> are
  the integers 1 and 0. \<open>v == s\<close> for a string \<open>s\<close>.\<close>

fun eq_int :: "json \<Rightarrow> int \<Rightarrow> bool" where
  "eq_int (JBool b) i \<longleftrightarrow> i = (if b then 1 else 0)"
| "eq_int (JInt j) i \<longleftrightarrow> j = i"
| "eq_int (JFloat n d) i \<longleftrightarrow> n = i * int d \<and> d \<noteq> 0"
| "eq_int _ i \<longleftrightarrow> False"

definition eq_str :: "json \<Rightarrow> string \<Rightarrow> bool" where
  "eq_str v s \<longleftrightarrow> v = JStr s"

lemma eq_int_unique: "eq_int v i \<Longrightarrow> eq_int v j \<Longrightarrow> i = j"
  by (cases v) auto

text \<open>\<open>v.get(key)\<close> and \<open>v[key]\<close> with a string key.\<close>

fun jget :: "json \<Rightarrow> string \<Rightarrow> json res" where
  "jget (JDict kvs) key = Inr (case map_of kvs key of None \<Rightarrow> JNull | Some v \<Rightarrow> v)"
| "jget _ key = Inl AttributeError"

fun jsub :: "json \<Rightarrow> string \<Rightarrow> json res" where
  "jsub (JDict kvs) key = (case map_of kvs key of None \<Rightarrow> Inl KeyError | Some v \<Rightarrow> Inr v)"
| "jsub _ key = Inl TypeError"

text \<open>The same access on a value already known to be a dictionary.\<close>

definition field :: "(string \<times> json) list \<Rightarrow> string \<Rightarrow> json" where
  "field kvs key = (case map_of kvs key of None \<Rightarrow> JNull | Some v \<Rightarrow> v)"

lemma jget_JDict [simp]: "jget (JDict kvs) key = Inr (field kvs key)"
  by (simp add: field_def)

declare jget.simps(1) [simp del]

lemma jget_Inr [res_simps]: "jget v key = Inr x \<longleftrightarrow> (\<exists>kvs. v = JDict kvs \<and> x = field kvs key)"
  by (cases v) auto

lemma field_simps [simp]:
  "field [] key = JNull"
  "field ((k, v) # kvs) key = (if k = key then v else field kvs key)"
  by (simp_all add: field_def)

text \<open>\<open>isinstance(v, int)\<close> (booleans included), \<open>type(v) is int\<close>, \<open>isinstance(v, str)\<close>.\<close>

fun isinstance_int :: "json \<Rightarrow> bool" where
  "isinstance_int (JBool _) = True"
| "isinstance_int (JInt _) = True"
| "isinstance_int _ = False"

fun as_int :: "json \<Rightarrow> int option" where
  "as_int (JInt i) = Some i"
| "as_int _ = None"

fun as_str :: "json \<Rightarrow> string option" where
  "as_str (JStr s) = Some s"
| "as_str _ = None"

lemma as_int_Some [simp]: "as_int v = Some i \<longleftrightarrow> v = JInt i"
  by (cases v) auto

lemma as_str_Some [simp]: "as_str v = Some s \<longleftrightarrow> v = JStr s"
  by (cases v) auto

text \<open>Library routines the definitions are given: SHA-256, \<open>json.loads\<close> of a file's bytes, and the
  bytes \<open>json.dump\<close> writes for a value.\<close>

record pylib =
  sha256 :: "bytes \<Rightarrow> bytes"
  json_loads :: "bytes \<Rightarrow> json res"
  json_dumps :: "json \<Rightarrow> bytes"

text \<open>\<open>str.encode("ascii")\<close> on text whose characters are ASCII.\<close>

definition ascii :: "string \<Rightarrow> bytes" where
  "ascii s = map (\<lambda>c. word_of_nat (of_char c)) s"

section \<open>Files\<close>

text \<open>
  A path is the list of its components. A symbolic link is recorded with the node it leads to, none
  if it dangles. \<open>exists\<close>, \<open>is_file\<close>, \<open>is_dir\<close> and opening a file follow links.
\<close>

type_synonym path = "string list"

datatype node = File bytes | Dir | Link "node option"

type_synonym fs = "(path \<times> node) list"

fun resolve :: "node \<Rightarrow> node option" where
  "resolve (File data) = Some (File data)"
| "resolve Dir = Some Dir"
| "resolve (Link None) = None"
| "resolve (Link (Some n)) = resolve n"

definition stat :: "fs \<Rightarrow> path \<Rightarrow> node option" where
  "stat fs p = Option.bind (map_of fs p) resolve"

definition exists_path :: "fs \<Rightarrow> path \<Rightarrow> bool" where
  "exists_path fs p = (stat fs p \<noteq> None)"

definition is_file :: "fs \<Rightarrow> path \<Rightarrow> bool" where
  "is_file fs p = (case stat fs p of Some (File _) \<Rightarrow> True | _ \<Rightarrow> False)"

definition is_dir :: "fs \<Rightarrow> path \<Rightarrow> bool" where
  "is_dir fs p = (stat fs p = Some Dir)"

definition is_symlink :: "fs \<Rightarrow> path \<Rightarrow> bool" where
  "is_symlink fs p = (case map_of fs p of Some (Link _) \<Rightarrow> True | _ \<Rightarrow> False)"

definition read_bytes :: "fs \<Rightarrow> path \<Rightarrow> bytes res" where
  "read_bytes fs p = (case stat fs p of Some (File data) \<Rightarrow> Inr data | _ \<Rightarrow> Inl OSError)"

lemmas query_defs = exists_path_def is_file_def is_dir_def is_symlink_def read_bytes_def stat_def

lemma file_simps [simp]:
  assumes "map_of fs p = Some (File data)"
  shows "exists_path fs p" "is_file fs p" "\<not> is_dir fs p" "\<not> is_symlink fs p" "read_bytes fs p = Inr data"
  using assms by (simp_all add: query_defs)

lemma dir_simps [simp]:
  assumes "map_of fs p = Some Dir"
  shows "exists_path fs p" "\<not> is_file fs p" "is_dir fs p" "\<not> is_symlink fs p"
  using assms by (simp_all add: query_defs)

lemma absent_simps [simp]:
  assumes "map_of fs p = None"
  shows "\<not> exists_path fs p" "\<not> is_file fs p" "\<not> is_dir fs p" "\<not> is_symlink fs p"
    "read_bytes fs p = Inl OSError"
  using assms by (simp_all add: query_defs)

lemma present_if:
  "is_file fs p \<Longrightarrow> map_of fs p \<noteq> None" "is_dir fs p \<Longrightarrow> map_of fs p \<noteq> None"
  "read_bytes fs p = Inr d \<Longrightarrow> map_of fs p \<noteq> None" "exists_path fs p \<Longrightarrow> map_of fs p \<noteq> None"
  by (cases "map_of fs p"; simp)+

lemma regular_file:
  "is_file fs p \<Longrightarrow> \<not> is_symlink fs p \<Longrightarrow> \<exists>data. map_of fs p = Some (File data)"
  by (auto simp: query_defs bind_eq_Some_conv split: option.splits node.splits)

lemma is_file_read: "is_file fs p \<longleftrightarrow> is_ok (read_bytes fs p)"
  by (auto simp: is_file_def read_bytes_def split: option.splits node.splits)

text \<open>Queries on a path depend on the node at that path only.\<close>

lemma query_cong:
  assumes "map_of fs p = map_of fs' p"
  shows "exists_path fs p = exists_path fs' p" "is_file fs p = is_file fs' p"
    "is_dir fs p = is_dir fs' p" "is_symlink fs p = is_symlink fs' p" "read_bytes fs p = read_bytes fs' p"
  using assms by (simp_all add: query_defs)

definition write_node :: "path \<Rightarrow> node \<Rightarrow> fs \<Rightarrow> fs" where
  "write_node p n fs = AList.update p n fs"

definition unlink :: "path \<Rightarrow> fs \<Rightarrow> fs" where
  "unlink p fs = AList.delete p fs"

lemma map_of_write_node [simp]: "map_of (write_node p n fs) = (map_of fs)(p \<mapsto> n)"
  by (simp add: write_node_def update_conv')

lemma map_of_unlink [simp]: "map_of (unlink p fs) = (map_of fs)(p := None)"
  by (simp add: unlink_def delete_conv')

text \<open>\<open>mkdir(parents=True, exist_ok=True)\<close> creates the missing ancestors first and forgives existing
  directories, not other nodes.\<close>

definition ancestors :: "path \<Rightarrow> path list" where
  "ancestors p = map (\<lambda>k. take k p) [1..<Suc (length p)]"

definition can_mkdir :: "fs \<Rightarrow> path \<Rightarrow> bool" where
  "can_mkdir fs p = (map_of fs p = None \<or> is_dir fs p)"

lemma ancestors_length: "p \<in> set (ancestors root) \<Longrightarrow> length p \<le> length root"
  by (auto simp: ancestors_def)

section \<open>Steps on a directory and power failures\<close>

text \<open>
  The steps by which the scripts publish a file: create directories, write and \<open>fsync\<close> a temporary
  file (\<open>Create\<close>, also the plain exclusive creation), rename it over its target (the renamed inode
  has the contents that were synced), remove a name, and \<open>fsync\<close> a directory.
\<close>

datatype step =
    Mkdir path
  | Create path bytes
  | Rename path path bytes
  | Unlink path
  | SyncDir path

fun run_step :: "step \<Rightarrow> fs \<Rightarrow> fs" where
  "run_step (Mkdir p) fs = (if map_of fs p = None then write_node p Dir fs else fs)"
| "run_step (Create p data) fs = write_node p (File data) fs"
| "run_step (Rename p q data) fs = write_node q (File data) (unlink p fs)"
| "run_step (Unlink p) fs = unlink p fs"
| "run_step (SyncDir d) fs = fs"

definition run_steps :: "step list \<Rightarrow> fs \<Rightarrow> fs" where
  "run_steps steps fs = fold run_step steps fs"

lemma run_steps_simps [simp]:
  "run_steps [] fs = fs"
  "run_steps (s # ss) fs = run_steps ss (run_step s fs)"
  "run_steps (ss @ ts) fs = run_steps ts (run_steps ss fs)"
  by (simp_all add: run_steps_def)

text \<open>The directory whose entries a step changes.\<close>

fun step_dir :: "step \<Rightarrow> path option" where
  "step_dir (Mkdir p) = Some (butlast p)"
| "step_dir (Create p _) = Some (butlast p)"
| "step_dir (Rename _ q _) = Some (butlast q)"
| "step_dir (Unlink p) = Some (butlast p)"
| "step_dir (SyncDir d) = None"

text \<open>
  \<open>survives steps fs fs'\<close>: after a power failure at the end of \<open>steps\<close> the disk may hold \<open>fs'\<close>. Each
  step has either reached the disk or not, independently, except that a step followed by a \<open>SyncDir\<close>
  of its directory has.
\<close>

inductive survives :: "step list \<Rightarrow> fs \<Rightarrow> fs \<Rightarrow> bool" where
  survives_Nil: "survives [] fs fs"
| survives_done: "survives ss (run_step s fs) fs' \<Longrightarrow> survives (s # ss) fs fs'"
| survives_lost: "survives ss fs fs' \<Longrightarrow> \<forall>d. step_dir s = Some d \<longrightarrow> SyncDir d \<notin> set ss \<Longrightarrow>
    survives (s # ss) fs fs'"

inductive_cases survives_NilE: "survives [] fs fs'"
inductive_cases survives_ConsE: "survives (s # ss) fs fs'"

text \<open>A crash may come after any prefix of the steps.\<close>

definition crash_state :: "step list \<Rightarrow> fs \<Rightarrow> fs \<Rightarrow> bool" where
  "crash_state steps fs fs' \<longleftrightarrow> (\<exists>done rest. steps = done @ rest \<and> survives done fs fs')"

lemma survives_all: "survives ss fs (run_steps ss fs)"
  by (induction ss arbitrary: fs) (auto intro: survives.intros)

lemma crash_state_Nil [simp]: "crash_state [] fs fs' \<longleftrightarrow> fs' = fs"
  by (auto simp: crash_state_def intro: survives_Nil elim: survives_NilE)

lemma survives_append:
  "survives (ss @ ts) fs fs' \<Longrightarrow> \<exists>mid. survives ss fs mid \<and> survives ts mid fs'"
proof (induction ss arbitrary: fs)
  case Nil
  then show ?case by (auto intro: survives_Nil)
next
  case (Cons s ss)
  have "survives (ss @ ts) (run_step s fs) fs' \<or>
      survives (ss @ ts) fs fs' \<and> (\<forall>d. step_dir s = Some d \<longrightarrow> SyncDir d \<notin> set ss)"
    using Cons.prems by (auto elim: survives_ConsE)
  then show ?case using Cons.IH by (metis survives_done survives_lost)
qed

fun touches :: "step \<Rightarrow> path set" where
  "touches (Mkdir p) = {p}"
| "touches (Create p _) = {p}"
| "touches (Rename p q _) = {p, q}"
| "touches (Unlink p) = {p}"
| "touches (SyncDir d) = {}"

lemma run_step_untouched [simp]: "p \<notin> touches s \<Longrightarrow> map_of (run_step s fs) p = map_of fs p"
  by (cases s) auto

lemma run_steps_untouched: "\<forall>s \<in> set ss. p \<notin> touches s \<Longrightarrow> map_of (run_steps ss fs) p = map_of fs p"
  by (induction ss arbitrary: fs) auto

lemma survives_untouched:
  "survives ss fs fs' \<Longrightarrow> \<forall>s \<in> set ss. p \<notin> touches s \<Longrightarrow> map_of fs' p = map_of fs p"
  by (induction rule: survives.induct) auto

text \<open>A path that is only ever renamed over by one temporary file holds its old node or that file.\<close>

lemma survives_renamed:
  "survives ss fs fs' \<Longrightarrow> \<forall>s \<in> set ss. p \<notin> touches s \<or> (\<exists>t. t \<noteq> p \<and> s = Rename t p data) \<Longrightarrow>
    map_of fs' p = map_of fs p \<or> map_of fs' p = Some (File data)"
  by (induction rule: survives.induct) auto

text \<open>Once the directory is synced the rename is durable.\<close>

lemma survives_publish:
  assumes "survives [Create t data, Rename t p data, SyncDir (butlast p)] fs fs'" and "t \<noteq> p"
  shows "map_of fs' p = Some (File data)"
  using assms by (auto elim!: survives_ConsE survives_NilE)

text \<open>A path that is only ever created as a directory keeps its node or becomes one.\<close>

lemma survives_mkdir:
  "survives ss fs fs' \<Longrightarrow> \<forall>s \<in> set ss. p \<notin> touches s \<or> s = Mkdir p \<Longrightarrow>
    map_of fs' p = map_of fs p \<or> map_of fs p = None \<and> map_of fs' p = Some Dir"
  by (induction rule: survives.induct) (auto split: if_splits)

lemma crash_prefix: "crash_state (ss @ ts) fs (run_steps ss fs)"
  using survives_all [of ss fs] by (auto simp: crash_state_def)

definition mkdirs :: "path \<Rightarrow> fs \<Rightarrow> fs res" where
  "mkdirs p fs =
     (if list_all (can_mkdir fs) (ancestors p) then Inr (run_steps (map Mkdir (ancestors p)) fs)
      else Inl OSError)"

lemma mkdirs_untouched:
  "mkdirs p fs = Inr fs' \<Longrightarrow> map_of fs q \<noteq> None \<Longrightarrow> map_of fs' q = map_of fs q"
proof -
  have "map_of fs q \<noteq> None \<Longrightarrow> map_of (run_steps (map Mkdir ps) fs) q = map_of fs q" for ps
    by (induction ps arbitrary: fs) auto
  then show "mkdirs p fs = Inr fs' \<Longrightarrow> map_of fs q \<noteq> None \<Longrightarrow> map_of fs' q = map_of fs q"
    by (auto simp: mkdirs_def split: if_splits)
qed

lemma mkdirs_other: "mkdirs p fs = Inr fs' \<Longrightarrow> q \<notin> set (ancestors p) \<Longrightarrow> map_of fs' q = map_of fs q"
proof -
  have "q \<notin> set ps \<Longrightarrow> map_of (run_steps (map Mkdir ps) fs) q = map_of fs q" for ps
    by (rule run_steps_untouched) auto
  then show "mkdirs p fs = Inr fs' \<Longrightarrow> q \<notin> set (ancestors p) \<Longrightarrow> map_of fs' q = map_of fs q"
    by (auto simp: mkdirs_def split: if_splits)
qed

lemma is_dir_map_of: "is_dir fs p \<Longrightarrow> map_of fs p \<noteq> None"
  by (cases "map_of fs p") (simp_all add: is_dir_def stat_def)

lemma mkdir_keeps_dir: "is_dir fs r \<Longrightarrow> is_dir (run_step (Mkdir p) fs) r"
proof -
  assume dir: "is_dir fs r"
  then have "map_of (run_step (Mkdir p) fs) r = map_of fs r"
    using is_dir_map_of [OF dir] by (cases "r = p") auto
  from query_cong(3) [OF this] dir show ?thesis by simp
qed

lemma mkdirs_keep_dir: "is_dir fs r \<Longrightarrow> is_dir (run_steps (map Mkdir ps) fs) r"
  by (induction ps arbitrary: fs) (simp_all add: mkdir_keeps_dir del: run_step.simps)

lemma can_mkdir_step: "can_mkdir fs q \<Longrightarrow> can_mkdir (run_step (Mkdir p) fs) q"
  using mkdir_keeps_dir [of fs q p] by (cases "q = p") (auto simp: can_mkdir_def)

lemma run_mkdirs_dirs:
  "\<forall>q \<in> set ps. can_mkdir fs q \<Longrightarrow> q \<in> set ps \<Longrightarrow> is_dir (run_steps (map Mkdir ps) fs) q"
proof (induction ps arbitrary: fs)
  case (Cons p ps)
  have can: "\<forall>q \<in> set ps. can_mkdir (run_step (Mkdir p) fs) q"
    using Cons.prems(1) can_mkdir_step by (simp del: run_step.simps)
  have "is_dir (run_step (Mkdir p) fs) p" using Cons.prems(1) by (auto simp: can_mkdir_def)
  then have "is_dir (run_steps (map Mkdir ps) (run_step (Mkdir p) fs)) p" by (rule mkdirs_keep_dir)
  then show ?case using Cons.IH [OF can] Cons.prems(2) by (auto simp del: run_step.simps)
qed simp

lemma mkdirs_dirs: "mkdirs p fs = Inr fs' \<Longrightarrow> q \<in> set (ancestors p) \<Longrightarrow> is_dir fs' q"
  using run_mkdirs_dirs [of "ancestors p" fs q] by (auto simp: mkdirs_def list_all_iff split: if_splits)

lemma mkdirs_keep: "mkdirs p fs = Inr fs' \<Longrightarrow> is_dir fs q \<Longrightarrow> is_dir fs' q"
  using mkdirs_keep_dir by (auto simp: mkdirs_def split: if_splits)

lemma mkdirs_again: "\<forall>q \<in> set (ancestors p). is_dir fs q \<Longrightarrow> mkdirs p fs = Inr fs"
proof -
  have "\<forall>q \<in> set ps. is_dir fs q \<Longrightarrow> run_steps (map Mkdir ps) fs = fs" for ps
    by (induction ps) (use is_dir_map_of in auto)
  then show "\<forall>q \<in> set (ancestors p). is_dir fs q \<Longrightarrow> mkdirs p fs = Inr fs"
    by (auto simp: mkdirs_def list_all_iff can_mkdir_def)
qed

section \<open>URLs and the text of a JSON file\<close>

text \<open>What \<open>urlsplit\<close> gives, and whether a credential is absent or empty.\<close>

record split_url =
  url_scheme :: string
  url_hostname :: "string option"
  url_port :: "nat option"
  url_path :: string
  url_query :: string
  url_fragment :: string
  url_username :: "string option"
  url_password :: "string option"

definition empty_text :: "string option \<Rightarrow> bool" where
  "empty_text v \<longleftrightarrow> v = None \<or> v = Some []"

text \<open>\<open>json.dump\<close> and a newline.\<close>

definition json_text :: "pylib \<Rightarrow> json \<Rightarrow> bytes" where
  "json_text py v = json_dumps py v @ [10]"

section \<open>Text of command output\<close>

text \<open>\<open>str.strip()\<close> and \<open>str.splitlines()\<close> on Latin-1 text.\<close>

definition py_space :: "char \<Rightarrow> bool" where
  "py_space c \<longleftrightarrow> (let n = of_char c :: nat in 9 \<le> n \<and> n \<le> 13 \<or> 28 \<le> n \<and> n \<le> 32 \<or> n = 133 \<or> n = 160)"

definition strip :: "string \<Rightarrow> string" where
  "strip s = rev (dropWhile py_space (rev (dropWhile py_space s)))"

definition line_break :: "char \<Rightarrow> bool" where
  "line_break c \<longleftrightarrow> (let n = of_char c :: nat in 10 \<le> n \<and> n \<le> 13 \<or> 28 \<le> n \<and> n \<le> 30 \<or> n = 133)"

fun splitlines_loop :: "string \<Rightarrow> string \<Rightarrow> string list" where
  "splitlines_loop cur [] = (if cur = [] then [] else [cur])"
| "splitlines_loop cur (c # cs) =
     (if line_break c
      then cur # splitlines_loop []
        (if of_char c = (13 :: nat) \<and> cs \<noteq> [] \<and> of_char (hd cs) = (10 :: nat) then tl cs else cs)
      else splitlines_loop (cur @ [c]) cs)"

definition splitlines :: "string \<Rightarrow> string list" where
  "splitlines s = splitlines_loop [] s"

definition startswith :: "string \<Rightarrow> string \<Rightarrow> bool" where
  "startswith s prefix \<longleftrightarrow> take (length prefix) s = prefix"

section \<open>Concrete values for the instances\<close>

definition sample_cid :: string where
  "sample_cid = ''bafkreiaha4dqobyha4dqobyha4dqobyha4dqobyha4dqobyha4dqobyha4''"

text \<open>A toy line format for inventories: the first byte of a line is the size of the block.\<close>

definition row_py :: pylib where
  "row_py = \<lparr>sha256 = sample_sha,
     json_loads = (\<lambda>line. case line of
         [] \<Rightarrow> Inl ValueError
       | b # _ \<Rightarrow> Inr (JDict [(''cid'', JStr sample_cid), (''bytes'', JInt (int (unat b)))])),
     json_dumps = (\<lambda>_. [])\<rparr>"

end
