(* ===== verification/Actions.thy ===== *)
theory Actions
  imports Json_Files
begin

text \<open>
  Statements that change something and may raise: an action takes the state to a result and the state
  after it, which is kept when an exception is raised. External programs are run through a function
  that is an argument of the model; \<open>'w\<close> is whatever their outcome depends on.
\<close>

type_synonym ('s, 'a) action = "'s \<Rightarrow> 'a res \<times> 's"

definition areturn :: "'a \<Rightarrow> ('s, 'a) action" where "areturn x s = (Inr x, s)"

definition araise :: "exn \<Rightarrow> ('s, 'a) action" where "araise e s = (Inl e, s)"

definition alift :: "'a res \<Rightarrow> ('s, 'a) action" where "alift r s = (r, s)"

definition abind :: "('s, 'a) action \<Rightarrow> ('a \<Rightarrow> ('s, 'b) action) \<Rightarrow> ('s, 'b) action" where
  "abind m f s = (case m s of (Inl e, s') \<Rightarrow> (Inl e, s') | (Inr x, s') \<Rightarrow> f x s')"

lemma action_simps [simp]:
  "areturn x s = (Inr x, s)" "araise e s = (Inl e, s)" "alift r s = (r, s)"
  by (simp_all add: areturn_def araise_def alift_def)

named_theorems action_dest \<open>how an action ended\<close>

lemma abind_Inr [action_dest]:
  "abind m f s = (Inr y, s') \<longleftrightarrow> (\<exists>x s1. m s = (Inr x, s1) \<and> f x s1 = (Inr y, s'))"
  by (auto simp: abind_def split: prod.splits sum.splits)

lemma abind_Inl [action_dest]:
  "abind m f s = (Inl e, s') \<longleftrightarrow> m s = (Inl e, s') \<or> (\<exists>x s1. m s = (Inr x, s1) \<and> f x s1 = (Inl e, s'))"
  by (auto simp: abind_def split: prod.splits sum.splits)

lemma abind_cong [fundef_cong]:
  "m s = m' s' \<Longrightarrow> (\<And>x s1. m' s' = (Inr x, s1) \<Longrightarrow> f x s1 = g x s1) \<Longrightarrow> abind m f s = abind m' g s'"
  by (auto simp: abind_def split: prod.splits sum.splits)

text \<open>\<open>for x in xs\<close>.\<close>

fun afold :: "('b \<Rightarrow> 'a \<Rightarrow> ('s, 'b) action) \<Rightarrow> 'b \<Rightarrow> 'a list \<Rightarrow> ('s, 'b) action" where
  "afold f acc [] s = (Inr acc, s)"
| "afold f acc (x # xs) s = (case f acc x s of (Inl e, s') \<Rightarrow> (Inl e, s') | (Inr acc', s') \<Rightarrow> afold f acc' xs s')"

text \<open>What an action keeps, whatever way it ends.\<close>

definition keeps :: "('s \<Rightarrow> bool) \<Rightarrow> ('s, 'a) action \<Rightarrow> bool" where
  "keeps P m \<longleftrightarrow> (\<forall>s. P s \<longrightarrow> P (snd (m s)))"

named_theorems keeps_intros \<open>actions that keep a property of the state\<close>

lemma keeps_basic [keeps_intros]:
  "keeps P (areturn x)" "keeps P (araise e)" "keeps P (alift r)"
  by (simp_all add: keeps_def)

lemma keeps_abind [keeps_intros]: "keeps P m \<Longrightarrow> (\<And>x. keeps P (f x)) \<Longrightarrow> keeps P (abind m f)"
  unfolding keeps_def abind_def by (fastforce split: prod.splits sum.splits)

lemma keeps_if [keeps_intros]: "(c \<Longrightarrow> keeps P a) \<Longrightarrow> (\<not> c \<Longrightarrow> keeps P b) \<Longrightarrow> keeps P (if c then a else b)"
  by simp

lemma keeps_case_option [keeps_intros]:
  "keeps P a \<Longrightarrow> (\<And>x. keeps P (f x)) \<Longrightarrow> keeps P (case v of None \<Rightarrow> a | Some x \<Rightarrow> f x)"
  by (cases v) simp_all

lemma keeps_case_prod [keeps_intros]: "(\<And>x y. keeps P (f x y)) \<Longrightarrow> keeps P (case v of (x, y) \<Rightarrow> f x y)"
  by (cases v) simp

lemma keeps_afold [keeps_intros]: "(\<And>acc x. keeps P (f acc x)) \<Longrightarrow> keeps P (afold f acc xs)"
proof -
  assume f: "\<And>acc x. keeps P (f acc x)"
  have "P s \<Longrightarrow> P (snd (afold f acc xs s))" for s
  proof (induction xs arbitrary: acc s)
    case (Cons x xs)
    then have "P (snd (f acc x s))" using f by (simp add: keeps_def)
    then show ?case using Cons.IH by (auto split: prod.splits sum.splits)
  qed simp
  then show ?thesis by (simp add: keeps_def)
qed

lemma keepsD: "keeps P m \<Longrightarrow> P s \<Longrightarrow> m s = (r, s') \<Longrightarrow> P s'"
  by (metis keeps_def snd_conv)

section \<open>External programs\<close>

text \<open>A run of a program: its exit status and standard output, or the exception of \<open>subprocess.run\<close>.\<close>

type_synonym 'w runner = "string list \<Rightarrow> 'w \<Rightarrow> (int \<times> bytes) res \<times> 'w"

text \<open>The commands run so far, beside the state of the world.\<close>

definition logged :: "'w runner \<Rightarrow> ('w \<times> string list list) runner" where
  "logged run argv s = (case run argv (fst s) of (r, w) \<Rightarrow> (r, (w, snd s @ [argv])))"

lemma logged_log [simp]: "snd (snd (logged run argv s)) = snd s @ [argv]"
  by (simp add: logged_def split: prod.splits)

end
