(* ===== verification/File_Actions.thy ===== *)
theory File_Actions
  imports Actions
begin

text \<open>
  Statements on the file system as actions: making directories, links that do not replace, \<open>try\<close> with
  \<open>finally\<close>; and the two ways of writing a file that the scripts share, with what they leave untouched.
\<close>

text \<open>\<open>path.mkdir(parents=True, exist_ok=True)\<close>\<close>

definition amkdirs :: "path \<Rightarrow> (fs, unit) action" where
  "amkdirs p fs = (case mkdirs p fs of Inl e \<Rightarrow> (Inl e, fs) | Inr fs' \<Rightarrow> (Inr (), fs'))"

text \<open>\<open>try: m finally: cleanup\<close>, and \<open>try: m except BaseException: undo; raise\<close>.\<close>

definition afinally :: "('s, 'a) action \<Rightarrow> ('s \<Rightarrow> 's) \<Rightarrow> ('s, 'a) action" where
  "afinally m cleanup s = (case m s of (r, s') \<Rightarrow> (r, cleanup s'))"

definition aundo :: "('s, 'a) action \<Rightarrow> ('s \<Rightarrow> 's) \<Rightarrow> ('s, 'a) action" where
  "aundo m undo s = (case m s of (Inl e, s') \<Rightarrow> (Inl e, undo s') | (Inr x, s') \<Rightarrow> (Inr x, s'))"

definition aread :: "path \<Rightarrow> (fs, bytes) action" where
  "aread p fs = (read_bytes fs p, fs)"

definition awrite :: "path \<Rightarrow> bytes \<Rightarrow> (fs, unit) action" where
  "awrite p data fs = (Inr (), write_node p (File data) fs)"

text \<open>\<open>os.link(p, q)\<close>, where \<open>FileExistsError\<close> is turned into an \<open>ArchiveError\<close>.\<close>

definition link_new :: "path \<Rightarrow> path \<Rightarrow> string \<Rightarrow> (fs, unit) action" where
  "link_new p q message fs =
     (if map_of fs q \<noteq> None then (Inl (ArchiveError message), fs)
      else case map_of fs p of None \<Rightarrow> (Inl OSError, fs) | Some n \<Rightarrow> (Inr (), write_node q n fs))"

lemma afinally_Inr [action_dest]:
  "afinally m cleanup s = (Inr x, s') \<longleftrightarrow> (\<exists>s1. m s = (Inr x, s1) \<and> s' = cleanup s1)"
  by (auto simp: afinally_def split: prod.splits)

lemma aundo_Inr [action_dest]: "aundo m undo s = (Inr x, s') \<longleftrightarrow> m s = (Inr x, s')"
  by (auto simp: aundo_def split: prod.splits sum.splits)

lemma amkdirs_Inr [action_dest]: "amkdirs p fs = (Inr u, fs') \<longleftrightarrow> mkdirs p fs = Inr fs'"
  by (auto simp: amkdirs_def split: sum.splits)

lemma aread_Inr [action_dest]: "aread p fs = (Inr d, fs') \<longleftrightarrow> read_bytes fs p = Inr d \<and> fs' = fs"
  by (auto simp: aread_def)

lemma awrite_Inr [action_dest]: "awrite p d fs = (Inr u, fs') \<longleftrightarrow> fs' = write_node p (File d) fs"
  by (auto simp: awrite_def)

lemma link_new_Inr [action_dest]:
  "link_new p q m fs = (Inr u, fs') \<longleftrightarrow>
     map_of fs q = None \<and> (\<exists>n. map_of fs p = Some n \<and> fs' = write_node q n fs)"
  by (auto simp: link_new_def split: option.splits)

section \<open>What an action leaves alone\<close>

text \<open>\<open>P\<close> holds between the files before and after, whatever way the action ends; \<open>P\<close> is a preorder.\<close>

definition adds_only :: "path set \<Rightarrow> fs \<Rightarrow> fs \<Rightarrow> bool" where
  "adds_only temps fs fs' \<longleftrightarrow>
     (\<forall>p. p \<notin> temps \<longrightarrow> map_of fs' p = map_of fs p \<or> map_of fs p = None \<and> map_of fs' p = Some Dir)"

definition add_only :: "path set \<Rightarrow> (fs, 'a) action \<Rightarrow> bool" where
  "add_only temps m \<longleftrightarrow> (\<forall>fs. adds_only temps fs (snd (m fs)))"

lemma adds_only_refl [simp]: "adds_only temps fs fs"
  by (simp add: adds_only_def)

lemma adds_only_trans: "adds_only temps fs fs1 \<Longrightarrow> adds_only temps fs1 fs2 \<Longrightarrow> adds_only temps fs fs2"
  unfolding adds_only_def by (metis option.distinct(1))

lemma adds_only_write [simp]: "p \<in> temps \<Longrightarrow> adds_only temps fs (write_node p n fs)"
  by (auto simp: adds_only_def)

lemma adds_only_unlink [simp]: "p \<in> temps \<Longrightarrow> adds_only temps fs (unlink p fs)"
  by (auto simp: adds_only_def)

lemma adds_only_after [intro]:
  "adds_only temps fs fs1 \<Longrightarrow> p \<in> temps \<Longrightarrow> adds_only temps fs (write_node p n fs1)"
  "adds_only temps fs fs1 \<Longrightarrow> p \<in> temps \<Longrightarrow> adds_only temps fs (unlink p fs1)"
  using adds_only_trans adds_only_write adds_only_unlink by blast+

lemma mkdirs_adds: "mkdirs p fs = Inr fs' \<Longrightarrow> adds_only temps fs fs'"
proof -
  have "map_of (run_steps (map Mkdir ps) fs) q = map_of fs q \<or>
      map_of fs q = None \<and> map_of (run_steps (map Mkdir ps) fs) q = Some Dir" for ps q fs
  proof (induction ps arbitrary: fs)
    case (Cons p ps)
    show ?case using Cons.IH [of "run_step (Mkdir p) fs"] by (auto split: if_splits)
  qed simp
  then show "mkdirs p fs = Inr fs' \<Longrightarrow> adds_only temps fs fs'"
    by (auto simp: mkdirs_def adds_only_def split: if_splits)
qed

named_theorems add_intros \<open>actions that only add directories and touch temporary files\<close>

lemma add_only_basic [add_intros]:
  "add_only temps (areturn x)" "add_only temps (araise e)" "add_only temps (alift r)"
  "add_only temps (aread p)" "add_only temps (amkdirs p)"
  by (auto simp: add_only_def aread_def amkdirs_def dest: mkdirs_adds split: sum.split)

lemma add_only_write [add_intros]: "p \<in> temps \<Longrightarrow> add_only temps (awrite p d)"
  by (simp add: add_only_def awrite_def)

lemma add_only_link [add_intros]: "q \<in> temps \<Longrightarrow> add_only temps (link_new p q m)"
  by (simp add: add_only_def link_new_def split: option.split)

lemma add_only_bind [add_intros]:
  assumes "add_only temps m" and "\<And>x. add_only temps (f x)"
  shows "add_only temps (abind m f)"
  unfolding add_only_def
proof
  fix fs
  obtain r fs1 where m: "m fs = (r, fs1)" by (metis surj_pair)
  have "adds_only temps fs fs1" using assms(1) m by (metis add_only_def snd_conv)
  moreover have "adds_only temps fs1 (snd (f x fs1))" for x using assms(2) by (simp add: add_only_def)
  ultimately show "adds_only temps fs (snd (abind m f fs))"
    using adds_only_trans by (auto simp: abind_def m split: sum.split)
qed

lemma add_only_if [add_intros]:
  "(c \<Longrightarrow> add_only temps a) \<Longrightarrow> (\<not> c \<Longrightarrow> add_only temps b) \<Longrightarrow> add_only temps (if c then a else b)"
  by simp

lemma add_only_finally [add_intros]:
  assumes "add_only temps m" and "\<And>fs. adds_only temps fs (c fs)"
  shows "add_only temps (afinally m c)"
  using assms adds_only_trans unfolding add_only_def afinally_def
  by (metis (mono_tags, lifting) case_prod_beta snd_conv)

lemma add_onlyD: "add_only temps m \<Longrightarrow> m fs = (r, fs') \<Longrightarrow> adds_only temps fs fs'"
  by (metis add_only_def snd_conv)

end
