(* ===== verification/Carv2_Commands.thy ===== *)
theory Carv2_Commands
  imports Carv2_Archive File_Actions
begin

text \<open>
  \<open>deploy/carv2_zstd.py\<close>, the commands \<open>pack\<close> and \<open>unpack\<close>: files published without replacement, receipts,
  and the way back. The program \<open>zstd\<close> is an argument. Shown: unpacking a packed archive restores the CAR,
  a command that fails leaves nothing behind, and a repeated command returns the saved receipt.
\<close>

section \<open>Publishing\<close>

definition publish_no_replace :: "path \<Rightarrow> path \<Rightarrow> (fs, unit) action" where
  "publish_no_replace temp output =
     abind (amkdirs (butlast output)) (\<lambda>_.
     afinally (link_new temp output ''output already exists'') (unlink temp))"

text \<open>\<open>temp.open("x")\<close>\<close>

definition create_new :: "path \<Rightarrow> bytes \<Rightarrow> string \<Rightarrow> (fs, unit) action" where
  "create_new p data message fs =
     (if map_of fs p \<noteq> None then (Inl (ArchiveError message), fs) else awrite p data fs)"

definition receipt_temp :: "path \<Rightarrow> string \<Rightarrow> path" where
  "receipt_temp path tag = butlast path @ [last path @ ''.'' @ tag @ ''.partial'']"

definition receipt_text :: "pylib \<Rightarrow> (string \<times> json) list \<Rightarrow> bytes" where
  "receipt_text py receipt = json_dumps py (JDict receipt) @ [10]"

definition write_json_no_replace :: "pylib \<Rightarrow> path \<Rightarrow> string \<Rightarrow> (string \<times> json) list \<Rightarrow> (fs, unit) action" where
  "write_json_no_replace py path tag receipt =
     abind (amkdirs (butlast path)) (\<lambda>_.
     afinally
       (abind (create_new (receipt_temp path tag) (receipt_text py receipt) ''receipt already exists'') (\<lambda>_.
          link_new (receipt_temp path tag) path ''receipt already exists''))
       (unlink (receipt_temp path tag)))"

text \<open>\<open>run_zstd\<close>: whether the program is there, and its exit status and output file for compressing or
  decompressing some bytes.\<close>

record zstd =
  zs_installed :: bool
  zs_run :: "bool \<Rightarrow> bytes \<Rightarrow> (int \<times> bytes) res"

definition archive_failure :: "'a res \<Rightarrow> 'a res" where
  "archive_failure r =
     (case r of Inl e \<Rightarrow> Inl (if e = OSError \<or> e = TimeoutExpired then ArchiveError ''zstd command failed'' else e)
      | Inr x \<Rightarrow> Inr x)"

lemma archive_failure_Inr [res_simps]: "archive_failure r = Inr x \<longleftrightarrow> r = Inr x"
  by (cases r) (simp_all add: archive_failure_def)

definition run_zstd :: "zstd \<Rightarrow> bool \<Rightarrow> bytes \<Rightarrow> bytes res" where
  "run_zstd z compress data =
     (if \<not> zs_installed z then Inl (ArchiveError ''zstd CLI is required'')
      else rbind (archive_failure (zs_run z compress data)) (\<lambda>(rc, out).
        if rc \<noteq> 0 then Inl (ArchiveError ''zstd refused the archive'') else Inr out))"

section \<open>pack\<close>

record pack_args =
  pk_carv1 :: path
  pk_output :: path
  pk_receipt :: "path option"
  pk_max_blocks :: int
  pk_max_bytes :: int

text \<open>What varies from run to run, or is floating-point text: free space, temporary names, and the two
  rounded ratios of sizes.\<close>

record pack_env =
  pe_free :: int
  pe_tag :: string
  pe_uuid :: string
  pe_ratio :: "nat \<Rightarrow> nat \<Rightarrow> json res"
  pe_saved :: "nat \<Rightarrow> nat \<Rightarrow> json res"

definition with_suffix_json :: "path \<Rightarrow> path" where
  "with_suffix_json p = butlast p @ [last p @ ''.json'']"

definition receipt_of :: "path \<Rightarrow> path option \<Rightarrow> path" where
  "receipt_of output receipt = (case receipt of None \<Rightarrow> with_suffix_json output | Some p \<Rightarrow> p)"

definition temp_carv2 :: "path \<Rightarrow> string \<Rightarrow> path" where
  "temp_carv2 output tag = butlast output @ [last output @ ''.'' @ tag @ ''.carv2.partial'']"

definition temp_zst :: "path \<Rightarrow> string \<Rightarrow> path" where
  "temp_zst output tag = butlast output @ [last output @ ''.'' @ tag @ ''.carv2.partial.zst'']"

text \<open>The branch for an output that is already there.\<close>

definition saved_pack :: "pylib \<Rightarrow> path \<Rightarrow> path \<Rightarrow> path \<Rightarrow> (fs, json) action" where
  "saved_pack py source output receipt_path fs =
     (if \<not> is_file fs output \<or> \<not> is_file fs receipt_path
      then (Inl (ArchiveError ''saved output is missing its matching receipt''), fs)
      else
        (rbind (rbind (read_bytes fs receipt_path) (json_loads py)) (\<lambda>saved.
         rbind (read_bytes fs source) (\<lambda>car.
         rbind (read_bytes fs output) (\<lambda>compressed.
         rbind (jget saved ''format'') (\<lambda>fmt.
         rbind (jget saved ''carv1_sha256'') (\<lambda>car_sha.
         rbind (jget saved ''compressed_sha256'') (\<lambda>out_sha.
         rbind (jget saved ''compressed_bytes'') (\<lambda>out_bytes.
         if \<not> eq_str fmt ''carv2+zstd'' \<or> \<not> eq_str car_sha (hex (sha256 py car)) \<or>
           \<not> eq_str out_sha (hex (sha256 py compressed)) \<or> \<not> eq_int out_bytes (int (length compressed))
         then Inl (ArchiveError ''saved compressed archive differs from its receipt'')
         else Inr saved))))))), fs))"

definition pack_receipt ::
    "pylib \<Rightarrow> nat \<Rightarrow> bytes \<Rightarrow> bytes \<Rightarrow> bytes \<Rightarrow> nat \<Rightarrow> json \<Rightarrow> json \<Rightarrow> (string \<times> json) list" where
  "pack_receipt py carv1_size car carv2 compressed n ratio saved_fraction =
     [(''schema'', JInt 1), (''format'', JStr ''carv2+zstd''), (''carv1_sha256'', JStr (hex (sha256 py car))),
      (''carv1_bytes'', JInt (int carv1_size)), (''carv2_sha256'', JStr (hex (sha256 py carv2))),
      (''carv2_bytes'', JInt (int (length carv2))), (''compressed_sha256'', JStr (hex (sha256 py compressed))),
      (''compressed_bytes'', JInt (int (length compressed))), (''blocks'', JInt (int n)),
      (''index_entries'', JInt (int n)), (''compression'', JStr ''zstd''), (''compression_level'', JInt 9),
      (''ratio_uncompressed_over_compressed'', ratio), (''saved_fraction'', saved_fraction)]"

text \<open>The \<open>try\<close> of \<open>pack\<close>, after the temporary file was made; \<open>carv1_size\<close> was taken before.\<close>

definition pack_files ::
    "pylib \<Rightarrow> zstd \<Rightarrow> pack_env \<Rightarrow> pack_args \<Rightarrow> bytes \<Rightarrow> (fs, json) action" where
  "pack_files py z env args car =
     (let source = pk_carv1 args; output = pk_output args; receipt_path = receipt_of output (pk_receipt args);
          temp = temp_carv2 output (pe_tag env); zst = temp_zst output (pe_tag env) in
      abind (alift (write_carv2 (sha256 py) car (nat (pk_max_blocks args)))) (\<lambda>(rows, carv2).
      abind (awrite temp carv2) (\<lambda>_.
      abind (alift (validate_carv2 (sha256 py) carv2 (nat (pk_max_blocks args)))) (\<lambda>checked.
      if blocks checked \<noteq> length rows
      then araise (ArchiveError ''CARv2 validation returned a different block count'')
      else
        abind (alift (run_zstd z True carv2)) (\<lambda>compressed.
        abind (awrite zst compressed) (\<lambda>_.
        abind (publish_no_replace zst output) (\<lambda>_.
        abind (aread source) (\<lambda>again.
        abind (alift (pe_ratio env (length carv2) (length compressed))) (\<lambda>ratio.
        abind (alift (pe_saved env (length carv2) (length compressed))) (\<lambda>saved_fraction.
        let receipt = pack_receipt py (length car) again carv2 compressed (length rows) ratio saved_fraction in
        abind (aundo (write_json_no_replace py receipt_path (pe_uuid env) receipt) (unlink output)) (\<lambda>_.
        areturn (JDict receipt))))))))))))"

definition pack :: "pylib \<Rightarrow> zstd \<Rightarrow> pack_env \<Rightarrow> pack_args \<Rightarrow> (fs, json) action" where
  "pack py z env args fs =
     (let source = pk_carv1 args; output = pk_output args; receipt_path = receipt_of output (pk_receipt args) in
      case read_bytes fs source of
        Inl _ \<Rightarrow> (Inl (ArchiveError ''CARv1 input is absent''), fs)
      | Inr car \<Rightarrow>
          let carv1_size = int (length car) in
          if pk_max_blocks args < 1 \<or> 1000 < pk_max_blocks args \<or> carv1_size < 1 \<or> pk_max_bytes args < carv1_size
          then (Inl (ArchiveError ''CARv1 exceeds configured block or byte bounds''), fs)
          else if exists_path fs output \<or> exists_path fs receipt_path
          then saved_pack py source output receipt_path fs
          else
            abind (amkdirs (butlast output)) (\<lambda>_.
            if pe_free env < 2 * carv1_size + 64 * 1024 * 1024
            then araise (ArchiveError ''disk reserve is too low for CARv2 and Zstandard temporaries'')
            else
              afinally
                (abind (awrite (temp_carv2 output (pe_tag env)) []) (\<lambda>_. pack_files py z env args car))
                (unlink (temp_zst output (pe_tag env)) \<circ> unlink (temp_carv2 output (pe_tag env)))) fs)"

section \<open>unpack\<close>

record unpack_args =
  up_compressed :: path
  up_output :: path
  up_receipt :: "path option"
  up_expected_compressed :: "string option"
  up_expected_carv2 :: "string option"
  up_max_blocks :: nat
  up_max_bytes :: int

text \<open>\<open>expected and actual != expected\<close>: an absent or empty expectation accepts everything.\<close>

definition differs_from :: "string option \<Rightarrow> string \<Rightarrow> bool" where
  "differs_from expected actual = (case expected of None \<Rightarrow> False | Some e \<Rightarrow> e \<noteq> [] \<and> actual \<noteq> e)"

definition temp_unpacked :: "path \<Rightarrow> string \<Rightarrow> path" where
  "temp_unpacked output tag = butlast output @ [last output @ ''.'' @ tag @ ''.partial'']"

definition saved_unpack :: "pylib \<Rightarrow> unpack_args \<Rightarrow> path \<Rightarrow> string \<Rightarrow> (fs, json) action" where
  "saved_unpack py args receipt_path compressed_sha fs =
     (if \<not> is_file fs (up_output args) \<or> \<not> is_file fs receipt_path
      then (Inl (ArchiveError ''saved CARv2 is missing its matching receipt''), fs)
      else
        (rbind (rbind (read_bytes fs receipt_path) (json_loads py)) (\<lambda>saved.
         rbind (read_bytes fs (up_output args)) (\<lambda>carv2.
         rbind (validate_carv2 (sha256 py) carv2 (up_max_blocks args)) (\<lambda>checked.
         rbind (jget saved ''format'') (\<lambda>fmt.
         rbind (jget saved ''compressed_sha256'') (\<lambda>zst_sha.
         rbind (jget saved ''carv2_sha256'') (\<lambda>carv2_sha.
         rbind (jget saved ''blocks'') (\<lambda>n.
         rbind (jget saved ''carv2_bytes'') (\<lambda>size.
         if \<not> eq_str fmt ''carv2+zstd'' \<or> \<not> eq_str zst_sha compressed_sha \<or>
           \<not> eq_str carv2_sha (hex (sha256 py carv2)) \<or> \<not> eq_int n (int (blocks checked)) \<or>
           \<not> eq_int size (int (carv2_bytes checked)) \<or>
           differs_from (up_expected_carv2 args) (case as_str carv2_sha of None \<Rightarrow> [] | Some s \<Rightarrow> s)
         then Inl (ArchiveError ''saved CARv2 differs from its receipt'')
         else Inr saved)))))))), fs))"

definition unpack_receipt ::
    "pylib \<Rightarrow> bytes \<Rightarrow> bytes \<Rightarrow> validation \<Rightarrow> (string \<times> json) list" where
  "unpack_receipt py compressed carv2 checked =
     [(''schema'', JInt 1), (''format'', JStr ''carv2+zstd''),
      (''compressed_sha256'', JStr (hex (sha256 py compressed))), (''compressed_bytes'', JInt (int (length compressed))),
      (''carv2_sha256'', JStr (hex (sha256 py carv2))), (''carv2_bytes'', JInt (int (carv2_bytes checked))),
      (''blocks'', JInt (int (blocks checked))), (''index_entries'', JInt (int (index_entry_count checked))),
      (''status'', JStr ''complete'')]"

definition unpack_files ::
    "pylib \<Rightarrow> zstd \<Rightarrow> string \<Rightarrow> string \<Rightarrow> unpack_args \<Rightarrow> bytes \<Rightarrow> nat \<Rightarrow> (fs, json) action" where
  "unpack_files py z tag uuid args compressed declared_size =
     (let output = up_output args; temp = temp_unpacked output tag in
      abind (\<lambda>fs. (Inr (), unlink temp fs)) (\<lambda>_.
      abind (alift (run_zstd z False compressed)) (\<lambda>carv2.
      abind (awrite temp carv2) (\<lambda>_.
      if length carv2 \<noteq> declared_size
      then araise (ArchiveError ''Zstandard output size differs from its frame header'')
      else
        abind (alift (validate_carv2 (sha256 py) carv2 (up_max_blocks args))) (\<lambda>checked.
        if differs_from (up_expected_carv2 args) (hex (sha256 py carv2))
        then araise (ArchiveError ''decompressed CARv2 SHA-256 differs from the expected receipt'')
        else
          abind (publish_no_replace temp output) (\<lambda>_.
          let receipt = unpack_receipt py compressed carv2 checked in
          abind (aundo (write_json_no_replace py (receipt_of output (up_receipt args)) uuid receipt) (unlink output))
            (\<lambda>_. areturn (JDict receipt))))))))"

definition unpack :: "pylib \<Rightarrow> zstd \<Rightarrow> string \<Rightarrow> string \<Rightarrow> unpack_args \<Rightarrow> (fs, json) action" where
  "unpack py z tag uuid args fs =
     (let output = up_output args; receipt_path = receipt_of output (up_receipt args) in
      case read_bytes fs (up_compressed args) of
        Inl _ \<Rightarrow> (Inl (ArchiveError ''compressed input is absent''), fs)
      | Inr compressed \<Rightarrow>
          let compressed_sha = hex (sha256 py compressed) in
          if differs_from (up_expected_compressed args) compressed_sha
          then (Inl (ArchiveError ''compressed SHA-256 differs from the expected receipt''), fs)
          else if exists_path fs output \<or> exists_path fs receipt_path
          then saved_unpack py args receipt_path compressed_sha fs
          else case zstd_frame_content_size compressed of
            Inl e \<Rightarrow> (Inl e, fs)
          | Inr declared_size \<Rightarrow>
              if up_max_bytes args + 128 * int (up_max_blocks args) + 1024 < int declared_size
              then (Inl (ArchiveError ''Zstandard content size exceeds the configured CAR bound''), fs)
              else
                abind (amkdirs (butlast output)) (\<lambda>_.
                afinally
                  (abind (awrite (temp_unpacked output tag) []) (\<lambda>_.
                     unpack_files py z tag uuid args compressed declared_size))
                  (unlink (temp_unpacked output tag))) fs)"

section \<open>Which files a command touches\<close>

definition pack_temps :: "pack_env \<Rightarrow> pack_args \<Rightarrow> path set" where
  "pack_temps env args =
     {temp_carv2 (pk_output args) (pe_tag env), temp_zst (pk_output args) (pe_tag env),
      receipt_temp (receipt_of (pk_output args) (pk_receipt args)) (pe_uuid env)}"

definition unpack_temps :: "string \<Rightarrow> string \<Rightarrow> unpack_args \<Rightarrow> path set" where
  "unpack_temps tag uuid args =
     {temp_unpacked (up_output args) tag, receipt_temp (receipt_of (up_output args) (up_receipt args)) uuid}"

text \<open>The names do not collide; \<open>mkstemp\<close> and \<open>uuid4\<close> give new ones.\<close>

definition names_apart :: "path \<Rightarrow> path \<Rightarrow> path set \<Rightarrow> bool" where
  "names_apart output receipt temps \<longleftrightarrow> output \<noteq> receipt \<and> output \<notin> temps \<and> receipt \<notin> temps"

text \<open>Writing the receipt fails with the receipt as it was, or it succeeds.\<close>

lemma write_json_cases:
  assumes "write_json_no_replace py path tag receipt fs = (r, fs')"
  shows "(\<exists>e. r = Inl e) \<and> adds_only {receipt_temp path tag} fs fs' \<or>
    r = Inr () \<and> map_of fs path = None \<and> map_of fs' path = Some (File (receipt_text py receipt)) \<and>
      adds_only {receipt_temp path tag, path} fs fs'"
proof -
  let ?t = "receipt_temp path tag"
  have ne: "?t \<noteq> path" "path \<noteq> ?t"
  proof -
    have "last ?t \<noteq> last path" by (simp add: receipt_temp_def)
    then show "?t \<noteq> path" "path \<noteq> ?t" by auto
  qed
  show ?thesis
  proof (cases "mkdirs (butlast path) fs")
    case (Inl e)
    then show ?thesis using assms by (auto simp: write_json_no_replace_def amkdirs_def abind_def)
  next
    case (Inr fs1)
    note dirs = mkdirs_adds [OF Inr]
    have body: "write_json_no_replace py path tag receipt fs =
      (if map_of fs1 ?t \<noteq> None then (Inl (ArchiveError ''receipt already exists''), unlink ?t fs1)
       else if map_of fs1 path \<noteq> None
       then (Inl (ArchiveError ''receipt already exists''), unlink ?t (write_node ?t (File (receipt_text py receipt)) fs1))
       else (Inr (), unlink ?t (write_node path (File (receipt_text py receipt))
           (write_node ?t (File (receipt_text py receipt)) fs1))))"
      using Inr ne
      by (simp add: write_json_no_replace_def amkdirs_def abind_def afinally_def create_new_def awrite_def link_new_def)
    have gone: "map_of fs1 path = None \<Longrightarrow> map_of fs path = None"
      using mkdirs_untouched [OF Inr] by metis
    consider (taken) e where "r = Inl e" "fs' = unlink ?t fs1 \<or>
        fs' = unlink ?t (write_node ?t (File (receipt_text py receipt)) fs1)"
      | (written) "r = Inr ()" "map_of fs1 path = None" "fs' = unlink ?t (write_node path (File (receipt_text py receipt))
           (write_node ?t (File (receipt_text py receipt)) fs1))"
      using assms unfolding body by (auto split: if_splits)
    then show ?thesis
    proof cases
      case taken
      then have "adds_only {?t} fs fs'" using dirs by (auto intro!: adds_only_after)
      then show ?thesis using taken by simp
    next
      case written
      then have "adds_only {?t, path} fs fs'" using dirs by (auto intro!: adds_only_after)
      then show ?thesis using written ne gone by simp
    qed
  qed
qed

lemma publish_cases:
  assumes "publish_no_replace temp output fs = (r, fs')" and "map_of fs temp = Some n" and "temp \<noteq> output"
  shows "(\<exists>e. r = Inl e) \<and> adds_only {temp} fs fs' \<or>
    r = Inr () \<and> map_of fs output = None \<and> map_of fs' output = Some n \<and> adds_only {temp, output} fs fs'"
proof (cases "mkdirs (butlast output) fs")
  case (Inl e)
  then show ?thesis using assms(1) by (auto simp: publish_no_replace_def amkdirs_def abind_def)
next
  case (Inr fs1)
  have here: "map_of fs1 temp = Some n" using mkdirs_untouched [OF Inr, of temp] assms(2) by simp
  then have body: "publish_no_replace temp output fs =
      (if map_of fs1 output \<noteq> None then (Inl (ArchiveError ''output already exists''), unlink temp fs1)
       else (Inr (), unlink temp (write_node output n fs1)))"
    using Inr by (simp add: publish_no_replace_def amkdirs_def abind_def afinally_def link_new_def)
  have gone: "map_of fs1 output = None \<Longrightarrow> map_of fs output = None" using mkdirs_untouched [OF Inr] by metis
  note dirs = mkdirs_adds [OF Inr]
  show ?thesis
  proof (cases "map_of fs1 output = None")
    case True
    then have "adds_only {temp, output} fs (unlink temp (write_node output n fs1))" using dirs by (auto intro!: adds_only_after)
    then show ?thesis using assms(1,3) gone True unfolding body by auto
  next
    case False
    then have "adds_only {temp} fs (unlink temp fs1)" using dirs by (auto intro!: adds_only_after)
    then show ?thesis using assms(1) False unfolding body by auto
  qed
qed

text \<open>Both commands end the same way: publish the file, then the receipt; if that fails, take the file back.\<close>

definition deliver :: "pylib \<Rightarrow> path \<Rightarrow> path \<Rightarrow> path \<Rightarrow> string \<Rightarrow> (string \<times> json) list \<Rightarrow> (fs, json) action" where
  "deliver py temp output receipt_path uuid receipt =
     abind (publish_no_replace temp output) (\<lambda>_.
     abind (aundo (write_json_no_replace py receipt_path uuid receipt) (unlink output)) (\<lambda>_.
     areturn (JDict receipt)))"

lemma adds_only_mono: "adds_only T fs fs' \<Longrightarrow> T \<subseteq> T' \<Longrightarrow> adds_only T' fs fs'"
  unfolding adds_only_def by blast

lemma adds_only_take_back:
  "adds_only (insert q T) fs fs' \<Longrightarrow> map_of fs q = None \<Longrightarrow> adds_only T fs (unlink q fs')"
  by (auto simp: adds_only_def)

text \<open>The outcome of a command: all or nothing.\<close>

definition all_or_nothing ::
    "path set \<Rightarrow> path \<Rightarrow> path \<Rightarrow> fs \<Rightarrow> 'a res \<Rightarrow> fs \<Rightarrow> bool" where
  "all_or_nothing temps output receipt fs r fs' \<longleftrightarrow>
     (case r of
        Inl e \<Rightarrow> adds_only temps fs fs'
      | Inr _ \<Rightarrow> map_of fs output = None \<and> map_of fs receipt = None \<and> adds_only (temps \<union> {output, receipt}) fs fs')"

lemma deliver_cases:
  assumes "deliver py temp output receipt_path uuid receipt fs = (r, fs')" and "map_of fs temp = Some n"
    and "names_apart output receipt_path {temp, receipt_temp receipt_path uuid}"
  shows "all_or_nothing {temp, receipt_temp receipt_path uuid} output receipt_path fs r fs' \<and>
    (\<forall>v. r = Inr v \<longrightarrow> v = JDict receipt \<and> map_of fs' output = Some n \<and>
       map_of fs' receipt_path = Some (File (receipt_text py receipt)))"
proof -
  let ?t = "receipt_temp receipt_path uuid"
  obtain r1 fs1 where p: "publish_no_replace temp output fs = (r1, fs1)" by (metis surj_pair)
  have apart: "temp \<noteq> output" "receipt_path \<noteq> temp" using assms(3) by (auto simp: names_apart_def)
  from publish_cases [OF p assms(2) apart(1)] show ?thesis
  proof (elim disjE conjE exE)
    fix e
    assume "r1 = Inl e" "adds_only {temp} fs fs1"
    moreover from this have "adds_only {temp, ?t} fs fs1" by (auto intro: adds_only_mono)
    ultimately show ?thesis using assms(1) p by (auto simp: deliver_def abind_def all_or_nothing_def)
  next
    assume r1: "r1 = Inr ()" "map_of fs output = None" "map_of fs1 output = Some n" "adds_only {temp, output} fs fs1"
    obtain r2 fs2 where w: "write_json_no_replace py receipt_path uuid receipt fs1 = (r2, fs2)" by (metis surj_pair)
    have sub: "adds_only {temp, ?t, output, receipt_path} fs fs1" using r1(4) by (auto intro: adds_only_mono)
    from write_json_cases [OF w] show ?thesis
    proof (elim disjE conjE exE)
      fix e
      assume r2: "r2 = Inl e" "adds_only {?t} fs1 fs2"
      have "adds_only {?t, temp, output} fs fs2"
        using adds_only_trans [of "{?t, temp, output}" fs fs1 fs2] r1(4) r2(2) by (auto intro: adds_only_mono)
      then have "adds_only (insert output {temp, ?t}) fs fs2" by (simp add: insert_commute)
      then have "adds_only {temp, ?t} fs (unlink output fs2)" using r1(2) by (rule adds_only_take_back)
      then show ?thesis using assms(1) p r1(1) w r2(1) by (auto simp: deliver_def abind_def aundo_def all_or_nothing_def)
    next
      assume r2: "r2 = Inr ()" "map_of fs1 receipt_path = None"
        "map_of fs2 receipt_path = Some (File (receipt_text py receipt))" "adds_only {?t, receipt_path} fs1 fs2"
      have "output \<notin> {?t, receipt_path}" using assms(3) by (auto simp: names_apart_def)
      then have out: "map_of fs2 output = Some n" using r2(4) r1(3) unfolding adds_only_def by auto
      have none: "map_of fs receipt_path = None"
        using r1(4) r2(2) assms(3) unfolding adds_only_def names_apart_def by fastforce
      have "adds_only ({temp, ?t} \<union> {output, receipt_path}) fs fs2"
        using adds_only_trans [OF sub, of fs2] r2(4) by (auto intro: adds_only_mono)
      then show ?thesis
        using assms(1) p r1 w r2 out none by (auto simp: deliver_def abind_def aundo_def all_or_nothing_def)
    qed
  qed
qed

lemma all_or_nothing_before:
  assumes "adds_only temps fs fs1" and "all_or_nothing temps output receipt fs1 r fs'"
    and "names_apart output receipt temps"
  shows "all_or_nothing temps output receipt fs r fs'"
proof (cases r)
  case (Inl e)
  then show ?thesis using assms adds_only_trans by (auto simp: all_or_nothing_def)
next
  case (Inr v)
  have "adds_only (temps \<union> {output, receipt}) fs fs1" using assms(1) by (rule adds_only_mono) auto
  then have "adds_only (temps \<union> {output, receipt}) fs fs'"
    using assms(2) by (auto simp: all_or_nothing_def Inr intro: adds_only_trans)
  moreover have "map_of fs output = None" "map_of fs receipt = None"
    using assms unfolding adds_only_def by (auto simp: all_or_nothing_def Inr names_apart_def)
  ultimately show ?thesis by (simp add: all_or_nothing_def Inr)
qed

lemma all_or_nothing_after:
  "all_or_nothing temps output receipt fs r fs' \<Longrightarrow> p \<in> temps \<Longrightarrow>
    all_or_nothing temps output receipt fs r (unlink p fs')"
  by (auto simp: all_or_nothing_def split: sum.splits)

lemma all_or_nothing_mono:
  "all_or_nothing temps output receipt fs r fs' \<Longrightarrow> temps \<subseteq> temps' \<Longrightarrow>
    all_or_nothing temps' output receipt fs r fs'"
  by (auto simp: all_or_nothing_def split: sum.splits intro: adds_only_mono)

lemma all_or_nothing_failed: "adds_only temps fs fs' \<Longrightarrow> all_or_nothing temps output receipt fs (Inl e) fs'"
  by (simp add: all_or_nothing_def)

lemma unpack_files_outcome:
  fixes args :: unpack_args
  defines "output \<equiv> up_output args" and "receipt_path \<equiv> receipt_of (up_output args) (up_receipt args)"
  assumes run: "unpack_files py z tag uuid args compressed declared_size fs = (r, fs')"
    and apart: "names_apart output receipt_path (unpack_temps tag uuid args)"
  shows "all_or_nothing (unpack_temps tag uuid args) output receipt_path fs r fs' \<and>
    (\<forall>v. r = Inr v \<longrightarrow> (\<exists>carv2 checked. run_zstd z False compressed = Inr carv2 \<and> length carv2 = declared_size \<and>
       validate_carv2 (sha256 py) carv2 (up_max_blocks args) = Inr checked \<and>
       \<not> differs_from (up_expected_carv2 args) (hex (sha256 py carv2)) \<and>
       v = JDict (unpack_receipt py compressed carv2 checked) \<and> map_of fs' output = Some (File carv2) \<and>
       map_of fs' receipt_path = Some (File (receipt_text py (unpack_receipt py compressed carv2 checked)))))"
proof -
  let ?T = "unpack_temps tag uuid args" and ?temp = "temp_unpacked output tag"
  have temps: "?T = {?temp, receipt_temp receipt_path uuid}" by (simp add: unpack_temps_def output_def receipt_path_def)
  show ?thesis
  proof (cases "run_zstd z False compressed")
    case (Inl e)
    then have "r = Inl e" "fs' = unlink ?temp fs"
      using run by (simp_all add: unpack_files_def output_def Let_def abind_def)
    then show ?thesis by (auto simp: temps intro!: all_or_nothing_failed)
  next
    case (Inr carv2)
    let ?fs1 = "write_node ?temp (File carv2) (unlink ?temp fs)"
    have one: "adds_only ?T fs ?fs1" by (auto simp: temps)
    show ?thesis
    proof (cases "length carv2 = declared_size \<and> is_ok (validate_carv2 (sha256 py) carv2 (up_max_blocks args)) \<and>
        \<not> differs_from (up_expected_carv2 args) (hex (sha256 py carv2))")
      case False
      then have "(\<exists>e. r = Inl e) \<and> fs' = ?fs1"
        using run Inr by (auto simp: unpack_files_def output_def Let_def abind_def awrite_def is_ok_iff
            split: sum.splits if_splits)
      then show ?thesis using one by (auto intro!: all_or_nothing_failed)
    next
      case True
      then obtain checked where checked: "validate_carv2 (sha256 py) carv2 (up_max_blocks args) = Inr checked"
        by (auto simp: is_ok_iff)
      have d: "deliver py ?temp output receipt_path uuid (unpack_receipt py compressed carv2 checked) ?fs1 = (r, fs')"
        using run Inr True checked
        by (simp add: unpack_files_def output_def receipt_path_def Let_def abind_def [of "alift _"] abind_def [of "awrite _ _"]
            abind_def [of "\<lambda>fs. (Inr (), unlink _ fs)"] awrite_def deliver_def)
      have "map_of ?fs1 ?temp = Some (File carv2)" by simp
      from deliver_cases [OF d this apart [unfolded temps]] have
        out: "all_or_nothing ?T output receipt_path ?fs1 r fs'"
        and ok: "\<forall>v. r = Inr v \<longrightarrow> v = JDict (unpack_receipt py compressed carv2 checked) \<and>
          map_of fs' output = Some (File carv2) \<and>
          map_of fs' receipt_path = Some (File (receipt_text py (unpack_receipt py compressed carv2 checked)))"
        by (simp_all add: temps)
      from all_or_nothing_before [OF one out apart] ok Inr True checked show ?thesis by blast
    qed
  qed
qed

lemma saved_unpack_files: "saved_unpack py args receipt_path compressed_sha fs = (r, fs') \<Longrightarrow> fs' = fs"
  by (auto simp: saved_unpack_def split: if_splits)

lemma unpack_outcome:
  fixes args :: unpack_args
  defines "output \<equiv> up_output args" and "receipt_path \<equiv> receipt_of (up_output args) (up_receipt args)"
  assumes run: "unpack py z tag uuid args fs = (r, fs')"
    and apart: "names_apart output receipt_path (unpack_temps tag uuid args)"
  shows "fs' = fs \<and> (\<forall>v. r = Inr v \<longrightarrow> is_file fs output \<and> is_file fs receipt_path) \<or>
    all_or_nothing (unpack_temps tag uuid args) output receipt_path fs r fs' \<and>
    (\<forall>v. r = Inr v \<longrightarrow> (\<exists>compressed carv2 checked. read_bytes fs (up_compressed args) = Inr compressed \<and>
       \<not> differs_from (up_expected_compressed args) (hex (sha256 py compressed)) \<and>
       run_zstd z False compressed = Inr carv2 \<and> zstd_frame_content_size compressed = Inr (length carv2) \<and>
       validate_carv2 (sha256 py) carv2 (up_max_blocks args) = Inr checked \<and>
       \<not> differs_from (up_expected_carv2 args) (hex (sha256 py carv2)) \<and>
       v = JDict (unpack_receipt py compressed carv2 checked) \<and> map_of fs' output = Some (File carv2) \<and>
       map_of fs' receipt_path = Some (File (receipt_text py (unpack_receipt py compressed carv2 checked)))))"
proof -
  let ?T = "unpack_temps tag uuid args" and ?temp = "temp_unpacked output tag"
  have temp: "?temp \<in> ?T" by (simp add: unpack_temps_def output_def)
  show ?thesis
  proof (cases "\<exists>compressed n fs1. read_bytes fs (up_compressed args) = Inr compressed \<and>
      \<not> differs_from (up_expected_compressed args) (hex (sha256 py compressed)) \<and>
      \<not> exists_path fs output \<and> \<not> exists_path fs receipt_path \<and> zstd_frame_content_size compressed = Inr n \<and>
      int n \<le> up_max_bytes args + 128 * int (up_max_blocks args) + 1024 \<and> mkdirs (butlast output) fs = Inr fs1")
    case False
    then have "fs' = fs \<and> (\<forall>v. r = Inr v \<longrightarrow> is_file fs output \<and> is_file fs receipt_path)"
      using run unfolding unpack_def output_def receipt_path_def Let_def
      by (auto simp: amkdirs_def abind_def saved_unpack_def split: sum.splits if_splits)
    then show ?thesis by blast
  next
    case True
    then obtain compressed n fs1 where c: "read_bytes fs (up_compressed args) = Inr compressed"
      "\<not> differs_from (up_expected_compressed args) (hex (sha256 py compressed))"
      "zstd_frame_content_size compressed = Inr n" "mkdirs (butlast output) fs = Inr fs1"
      and rest: "\<not> exists_path fs output" "\<not> exists_path fs receipt_path"
        "int n \<le> up_max_bytes args + 128 * int (up_max_blocks args) + 1024" by blast
    let ?fs2 = "write_node ?temp (File []) fs1"
    obtain r1 fs3 where files: "unpack_files py z tag uuid args compressed n ?fs2 = (r1, fs3)" by (metis surj_pair)
    have eq: "r = r1" "fs' = unlink ?temp fs3"
      using run c rest files
      by (simp_all add: unpack_def output_def receipt_path_def Let_def amkdirs_def abind_def [of "amkdirs _"]
          abind_def [of "awrite _ _"] afinally_def awrite_def)
    note out = unpack_files_outcome [OF files apart [unfolded output_def receipt_path_def]]
    have pre: "adds_only ?T fs ?fs2" using mkdirs_adds [OF c(4)] temp by auto
    have "all_or_nothing ?T output receipt_path fs r1 fs3"
      by (rule all_or_nothing_before [OF pre _ apart]) (use out in \<open>simp add: output_def receipt_path_def\<close>)
    then have "all_or_nothing ?T output receipt_path fs r (unlink ?temp fs3)"
      unfolding eq(1) by (rule all_or_nothing_after [OF _ temp])
    moreover have "map_of fs' output = map_of fs3 output" "map_of fs' receipt_path = map_of fs3 receipt_path"
      using apart temp by (auto simp: eq(2) names_apart_def)
    ultimately show ?thesis using out c eq by (auto simp: output_def receipt_path_def)
  qed
qed

lemma saved_pack_files: "saved_pack py source output receipt_path fs = (r, fs') \<Longrightarrow> fs' = fs"
  by (auto simp: saved_pack_def split: if_splits)

text \<open>The rounded ratios of positive sizes are computed without an exception.\<close>

definition rounding_ok :: "pack_env \<Rightarrow> bool" where
  "rounding_ok env \<longleftrightarrow> (\<forall>a b. 0 < a \<longrightarrow> 0 < b \<longrightarrow> is_ok (pe_ratio env a b) \<and> is_ok (pe_saved env a b))"

text \<open>An archive program never writes an empty frame.\<close>

definition frames_nonempty :: "zstd \<Rightarrow> bool" where
  "frames_nonempty z \<longleftrightarrow> (\<forall>data out. zs_run z True data = Inr (0, out) \<longrightarrow> out \<noteq> [])"

lemma run_zstd_Inr: "run_zstd z c data = Inr out \<longleftrightarrow> zs_installed z \<and> zs_run z c data = Inr (0, out)"
  by (auto simp: run_zstd_def res_simps)

text \<open>The end of \<open>pack\<close> is \<open>deliver\<close>: the input is still there to be hashed.\<close>

lemma pack_deliver:
  assumes "read_bytes fs source = Inr car" and "map_of fs temp = Some n" and "temp \<noteq> output"
    and "source \<noteq> temp" and "source \<noteq> output" and "ratio = Inr a" and "saved = Inr b"
  shows "abind (publish_no_replace temp output) (\<lambda>_.
      abind (aread source) (\<lambda>again.
      abind (alift ratio) (\<lambda>a.
      abind (alift saved) (\<lambda>b.
      abind (aundo (write_json_no_replace py receipt_path uuid (rcpt again a b)) (unlink output)) (\<lambda>_.
      areturn (JDict (rcpt again a b))))))) fs =
    deliver py temp output receipt_path uuid (rcpt car a b) fs"
proof -
  obtain r1 fs1 where p: "publish_no_replace temp output fs = (r1, fs1)" by (metis surj_pair)
  from publish_cases [OF p assms(2,3)] show ?thesis
  proof (elim disjE conjE exE)
    fix e
    assume "r1 = Inl e"
    then show ?thesis using p by (simp add: deliver_def abind_def)
  next
    assume r1: "r1 = Inr ()" "adds_only {temp, output} fs fs1"
    have "map_of fs source \<noteq> None" using assms(1) by (rule present_if)
    then have "map_of fs1 source = map_of fs source"
      using r1(2) assms(4,5) unfolding adds_only_def by (metis insertE singletonD)
    then have "read_bytes fs1 source = Inr car" using assms(1) query_cong(5) by metis
    then show ?thesis using p r1(1) assms(6,7) by (simp add: deliver_def abind_def aread_def)
  qed
qed

lemma pack_files_outcome:
  fixes args :: pack_args
  defines "output \<equiv> pk_output args" and "receipt_path \<equiv> receipt_of (pk_output args) (pk_receipt args)"
  assumes run: "pack_files py z env args car fs = (r, fs')"
    and apart: "names_apart output receipt_path (pack_temps env args)"
    and source: "read_bytes fs (pk_carv1 args) = Inr car" "pk_carv1 args \<notin> pack_temps env args" "pk_carv1 args \<noteq> output"
    and env: "rounding_ok env" "frames_nonempty z"
  shows "all_or_nothing (pack_temps env args) output receipt_path fs r fs' \<and>
    (\<forall>v. r = Inr v \<longrightarrow> (\<exists>rows carv2 compressed ratio saved.
       write_carv2 (sha256 py) car (nat (pk_max_blocks args)) = Inr (rows, carv2) \<and> run_zstd z True carv2 = Inr compressed \<and>
       v = JDict (pack_receipt py (length car) car carv2 compressed (length rows) ratio saved) \<and>
       map_of fs' output = Some (File compressed) \<and>
       map_of fs' receipt_path =
         Some (File (receipt_text py (pack_receipt py (length car) car carv2 compressed (length rows) ratio saved)))))"
proof -
  let ?T = "pack_temps env args" and ?temp = "temp_carv2 output (pe_tag env)" and ?zst = "temp_zst output (pe_tag env)"
  have temps: "?T = {?temp, ?zst, receipt_temp receipt_path (pe_uuid env)}"
    by (simp add: pack_temps_def output_def receipt_path_def)
  show ?thesis
  proof (cases "write_carv2 (sha256 py) car (nat (pk_max_blocks args))")
    case (Inl e)
    then have "r = Inl e" "fs' = fs" using run by (simp_all add: pack_files_def Let_def abind_def)
    then show ?thesis by (auto intro!: all_or_nothing_failed)
  next
    case written: (Inr w)
    obtain rows carv2 where w: "w = (rows, carv2)" by (cases w)
    let ?fs1 = "write_node ?temp (File carv2) fs"
    have valid: "validate_carv2 (sha256 py) carv2 (nat (pk_max_blocks args)) =
        Inr \<lparr>carv2_bytes = length carv2, blocks = length rows, index_entry_count = length rows\<rparr>"
      using written by (auto simp: validate_carv2_iff w)
    show ?thesis
    proof (cases "run_zstd z True carv2")
      case (Inl e)
      then have "r = Inl e" "fs' = ?fs1"
        using run written valid by (simp_all add: pack_files_def Let_def abind_def awrite_def w output_def)
      then show ?thesis by (auto simp: temps intro!: all_or_nothing_failed)
    next
      case zst: (Inr compressed)
      let ?fs2 = "write_node ?zst (File compressed) ?fs1"
      have two: "adds_only ?T fs ?fs2" by (auto simp: temps intro!: adds_only_after)
      have "0 < length carv2" using written by (auto simp: w write_carv2_Inr PRAGMA_def)
      moreover have "0 < length compressed" using env(2) zst by (auto simp: frames_nonempty_def run_zstd_Inr)
      ultimately obtain a b where ab: "pe_ratio env (length carv2) (length compressed) = Inr a"
        "pe_saved env (length carv2) (length compressed) = Inr b"
        using env(1) unfolding rounding_ok_def is_ok_iff by metis
      have src: "read_bytes ?fs2 (pk_carv1 args) = Inr car"
      proof -
        have "map_of ?fs2 (pk_carv1 args) = map_of fs (pk_carv1 args)" using source(2) by (auto simp: temps)
        then show ?thesis using source(1) query_cong(5) by metis
      qed
      have ne: "?zst \<noteq> output" "pk_carv1 args \<noteq> ?zst" using apart source(2) by (auto simp: names_apart_def temps)
      let ?receipt = "\<lambda>again a b. pack_receipt py (length car) again carv2 compressed (length rows) a b"
      have "deliver py ?zst output receipt_path (pe_uuid env) (?receipt car a b) ?fs2 = (r, fs')"
        unfolding pack_deliver [OF src _ ne(1,2) source(3) ab, of "File compressed" py receipt_path "pe_uuid env" ?receipt, symmetric, simplified]
        using run written valid zst
        by (simp add: pack_files_def Let_def abind_def [of "alift (Inr _)"] abind_def [of "awrite _ _"] awrite_def w output_def
            receipt_path_def)
      from deliver_cases [OF this _ ] apart have
        "all_or_nothing {?zst, receipt_temp receipt_path (pe_uuid env)} output receipt_path ?fs2 r fs'"
        and ok: "\<forall>v. r = Inr v \<longrightarrow> v = JDict (?receipt car a b) \<and> map_of fs' output = Some (File compressed) \<and>
          map_of fs' receipt_path = Some (File (receipt_text py (?receipt car a b)))"
        by (simp_all add: temps names_apart_def)
      from this(1) have "all_or_nothing ?T output receipt_path ?fs2 r fs'"
        by (rule all_or_nothing_mono) (auto simp: temps)
      from all_or_nothing_before [OF two this apart] show ?thesis using ok written zst w by blast
    qed
  qed
qed

text \<open>What a fresh \<open>pack\<close> that returned has written.\<close>

definition packed :: "pylib \<Rightarrow> zstd \<Rightarrow> pack_args \<Rightarrow> fs \<Rightarrow> json \<Rightarrow> fs \<Rightarrow> bool" where
  "packed py z args fs v fs' \<longleftrightarrow>
     (\<exists>car rows carv2 compressed ratio saved. read_bytes fs (pk_carv1 args) = Inr car \<and>
       int (length car) \<le> pk_max_bytes args \<and>
       write_carv2 (sha256 py) car (nat (pk_max_blocks args)) = Inr (rows, carv2) \<and> run_zstd z True carv2 = Inr compressed \<and>
       v = JDict (pack_receipt py (length car) car carv2 compressed (length rows) ratio saved) \<and>
       map_of fs' (pk_output args) = Some (File compressed) \<and>
       map_of fs' (receipt_of (pk_output args) (pk_receipt args)) =
         Some (File (receipt_text py (pack_receipt py (length car) car carv2 compressed (length rows) ratio saved))))"

lemma pack_outcome:
  fixes args :: pack_args
  defines "output \<equiv> pk_output args" and "receipt_path \<equiv> receipt_of (pk_output args) (pk_receipt args)"
  assumes run: "pack py z env args fs = (r, fs')"
    and apart: "names_apart output receipt_path (pack_temps env args)" "pk_carv1 args \<notin> pack_temps env args"
    and env: "rounding_ok env" "frames_nonempty z"
  shows "fs' = fs \<and> (\<forall>v. r = Inr v \<longrightarrow> is_file fs output \<and> is_file fs receipt_path) \<or>
    all_or_nothing (pack_temps env args) output receipt_path fs r fs' \<and>
    (\<forall>v. r = Inr v \<longrightarrow> packed py z args fs v fs')"
proof -
  let ?T = "pack_temps env args" and ?temp = "temp_carv2 output (pe_tag env)" and ?zst = "temp_zst output (pe_tag env)"
  have temp: "?temp \<in> ?T" "?zst \<in> ?T" by (simp_all add: pack_temps_def output_def)
  show ?thesis
  proof (cases "\<exists>car fs1. read_bytes fs (pk_carv1 args) = Inr car \<and> 1 \<le> pk_max_blocks args \<and> pk_max_blocks args \<le> 1000 \<and>
      car \<noteq> [] \<and> int (length car) \<le> pk_max_bytes args \<and> \<not> exists_path fs output \<and> \<not> exists_path fs receipt_path \<and>
      mkdirs (butlast output) fs = Inr fs1")
    case False
    then have "fs' = fs \<and> (\<forall>v. r = Inr v \<longrightarrow> is_file fs output \<and> is_file fs receipt_path)"
      using run unfolding pack_def output_def receipt_path_def Let_def
      by (auto simp: amkdirs_def abind_def saved_pack_def Suc_le_eq not_le split: sum.splits if_splits)
    then show ?thesis by blast
  next
    case True
    then obtain car fs1 where c: "read_bytes fs (pk_carv1 args) = Inr car" "int (length car) \<le> pk_max_bytes args"
      and rest: "1 \<le> pk_max_blocks args" "pk_max_blocks args \<le> 1000" "car \<noteq> []"
        "\<not> exists_path fs output" "\<not> exists_path fs receipt_path" "mkdirs (butlast output) fs = Inr fs1" by blast
    let ?fs2 = "write_node ?temp (File []) fs1"
    show ?thesis
    proof (cases "pe_free env < 2 * int (length car) + 64 * 1024 * 1024")
      case True
      then have "(\<exists>e. r = Inl e) \<and> fs' = fs1"
        using run c rest by (auto simp: pack_def output_def receipt_path_def Let_def amkdirs_def abind_def [of "amkdirs _"])
      then show ?thesis using mkdirs_adds [OF rest(6)] by (auto intro!: all_or_nothing_failed)
    next
      case False
      obtain r1 fs3 where files: "pack_files py z env args car ?fs2 = (r1, fs3)" by (metis surj_pair)
      have eq: "r = r1" "fs' = unlink ?zst (unlink ?temp fs3)"
        using run c rest files False
        by (simp_all add: pack_def output_def receipt_path_def Let_def amkdirs_def abind_def [of "amkdirs _"]
            abind_def [of "awrite _ _"] afinally_def awrite_def)
      have present: "map_of fs (pk_carv1 args) \<noteq> None" using c(1) by (rule present_if)
      then have "map_of ?fs2 (pk_carv1 args) = map_of fs (pk_carv1 args)"
        using mkdirs_untouched [OF rest(6)] temp apart(2) by auto
      then have src: "read_bytes ?fs2 (pk_carv1 args) = Inr car" using c(1) query_cong(5) by metis
      have ne: "pk_carv1 args \<noteq> output" using rest(4) c(1) by (auto simp: query_defs split: option.splits)
      note out = pack_files_outcome [OF files apart(1) [unfolded output_def receipt_path_def] src apart(2)
          ne [unfolded output_def] env]
      have pre: "adds_only ?T fs ?fs2" using mkdirs_adds [OF rest(6)] temp by auto
      have "all_or_nothing ?T output receipt_path fs r1 fs3"
        by (rule all_or_nothing_before [OF pre _ apart(1)]) (use out in \<open>simp add: output_def receipt_path_def\<close>)
      then have "all_or_nothing ?T output receipt_path fs r fs'"
        unfolding eq by (intro all_or_nothing_after temp)
      moreover have "map_of fs' output = map_of fs3 output" "map_of fs' receipt_path = map_of fs3 receipt_path"
        using apart(1) temp by (auto simp: eq(2) names_apart_def)
      ultimately show ?thesis using out c eq(1) by (auto simp: output_def receipt_path_def packed_def)
    qed
  qed
qed

section \<open>There and back\<close>

lemma deliver_succeeds:
  assumes "map_of fs temp = Some (File data)" and "names_apart output receipt_path {temp, receipt_temp receipt_path uuid}"
    and "butlast receipt_path = butlast output" and "\<forall>q \<in> set (ancestors (butlast output)). is_dir fs q"
    and "map_of fs output = None" and "map_of fs receipt_path = None" and "map_of fs (receipt_temp receipt_path uuid) = None"
  shows "\<exists>fs'. deliver py temp output receipt_path uuid receipt fs = (Inr (JDict receipt), fs')"
proof -
  let ?t = "receipt_temp receipt_path uuid" and ?fs1 = "unlink temp (write_node output (File data) fs)"
  have ne: "temp \<noteq> output" "receipt_path \<noteq> temp" "output \<noteq> receipt_path" "receipt_path \<noteq> output"
      "?t \<noteq> receipt_path" "?t \<noteq> output" "receipt_path \<noteq> ?t" "?t \<noteq> temp"
    using assms(1,2,7) by (auto simp: names_apart_def)
  have p: "publish_no_replace temp output fs = (Inr (), ?fs1)"
    using assms(1,5) mkdirs_again [OF assms(4)]
    by (simp add: publish_no_replace_def amkdirs_def abind_def afinally_def link_new_def)
  have "is_dir ?fs1 q" if "q \<in> set (ancestors (butlast output))" for q
  proof -
    have "is_dir fs q" using assms(4) that by blast
    moreover from this have "q \<noteq> temp" "q \<noteq> output" using assms(1,5) by auto
    ultimately show ?thesis using query_cong(3) [of ?fs1 q fs] by simp
  qed
  then have again: "mkdirs (butlast receipt_path) ?fs1 = Inr ?fs1" unfolding assms(3) by (intro mkdirs_again ballI)
  have "write_json_no_replace py receipt_path uuid receipt ?fs1 =
      (Inr (), unlink ?t (write_node receipt_path (File (receipt_text py receipt))
         (write_node ?t (File (receipt_text py receipt)) ?fs1)))"
    using assms(6,7) ne again
    by (simp add: write_json_no_replace_def amkdirs_def abind_def afinally_def create_new_def awrite_def link_new_def)
  then show ?thesis using p by (simp add: deliver_def abind_def aundo_def)
qed

text \<open>\<open>zstd\<close> gives back what it compressed, and its frames declare the size of their content.\<close>

definition zstd_restores :: "zstd \<Rightarrow> bool" where
  "zstd_restores z \<longleftrightarrow> (\<forall>data out. zs_run z True data = Inr (0, out) \<longrightarrow>
     zs_run z False out = Inr (0, data) \<and> zstd_frame_content_size out = Inr (length data))"

lemma written_size:
  assumes "write_carv2 sha car max_blocks = Inr (rows, carv2)"
  shows "length carv2 \<le> length car + 128 * max_blocks + 1024" and "length rows \<le> max_blocks"
proof -
  from assms obtain st index where copy: "copy_carv1_payload sha car (PRAGMA @ replicate 40 0) (length car) max_blocks 0 True =
      Inr (rows, st)" and index: "encode_index rows = Inr index"
    and carv2: "carv2 = PRAGMA @ header_bytes (length car) @ car @ index" by (auto simp: write_carv2_Inr)
  show rows: "length rows \<le> max_blocks"
    by (rule copy_carv1_payload_sound [OF copy]) (simp add: length_frame_rows)
  have "sha_rows rows" by (rule copy_carv1_payload_sha_rows [OF copy])
  then have digests: "\<forall>r \<in> set (map snd rows). length (fst r) = 32" by (auto simp: sha_rows_def)
  have "\<forall>r \<in> set rs. length (fst r) = 32 \<Longrightarrow> length (concat (map record_bytes rs)) = 40 * length rs"
    for rs :: "(bytes \<times> nat) list" by (induction rs) (simp_all add: record_bytes_def)
  from this [of "sort (map snd rows)"] digests
  have "length (concat (map record_bytes (sort (map snd rows)))) = 40 * length rows" by simp
  moreover have "index = index_prologue (length rows) @ concat (map record_bytes (sort (map snd rows)))"
    using index \<open>sha_rows rows\<close> by (simp add: encode_index_sha_rows)
  moreover have "length (index_prologue (length rows)) \<le> 40"
    unfolding length_index_prologue [of "length rows"] by code_simp
  moreover have "length (header_bytes (length car)) = 40" by simp
  ultimately show "length carv2 \<le> length car + 128 * max_blocks + 1024"
    using rows by (simp add: carv2 PRAGMA_def)
qed

text \<open>A directory to unpack into: it exists, the names are free and do not collide.\<close>

definition unpack_place :: "fs \<Rightarrow> string \<Rightarrow> string \<Rightarrow> unpack_args \<Rightarrow> bool" where
  "unpack_place fs tag uuid args \<longleftrightarrow>
     (let output = up_output args; receipt_path = receipt_of output (up_receipt args) in
      names_apart output receipt_path (unpack_temps tag uuid args) \<and> butlast receipt_path = butlast output \<and>
      (\<forall>q \<in> set (ancestors (butlast output)). is_dir fs q) \<and>
      (\<forall>p \<in> {output, receipt_path} \<union> unpack_temps tag uuid args. map_of fs p = None) \<and>
      temp_unpacked output tag \<noteq> receipt_temp receipt_path uuid)"

text \<open>C10: a CAR that was packed is restored by unpacking the archive anywhere else, under the same limits and
  with the digests of the packing receipt demanded: the command succeeds, and what it publishes is the
  CARv2 file whose data section is exactly the CAR that was packed.\<close>

theorem unpack_restores_packed:
  assumes "pack py z env pargs fs = (Inr v, fs')" and "\<not> exists_path fs (pk_output pargs)"
    and "names_apart (pk_output pargs) (receipt_of (pk_output pargs) (pk_receipt pargs)) (pack_temps env pargs)"
    and "pk_carv1 pargs \<notin> pack_temps env pargs" and "rounding_ok env" and "frames_nonempty z" and "zstd_restores z"
    and "read_bytes fs2 (up_compressed uargs) = read_bytes fs' (pk_output pargs)"
    and "v = JDict kvs" and "up_expected_compressed uargs = as_str (field kvs ''compressed_sha256'')"
    and "up_expected_carv2 uargs = as_str (field kvs ''carv2_sha256'')"
    and "up_max_blocks uargs = nat (pk_max_blocks pargs)" and "up_max_bytes uargs = pk_max_bytes pargs"
    and place: "unpack_place fs2 tag uuid uargs"
  shows "\<exists>u fs3 car carv2. unpack py z tag uuid uargs fs2 = (Inr u, fs3) \<and>
    read_bytes fs (pk_carv1 pargs) = Inr car \<and> read_bytes fs3 (up_output uargs) = Inr carv2 \<and>
    data_section carv2 = car \<and> is_ok (validate_carv2 (sha256 py) carv2 (up_max_blocks uargs))"
proof -
  let ?out = "up_output uargs" and ?rcpt = "receipt_of (up_output uargs) (up_receipt uargs)"
  let ?temp = "temp_unpacked ?out tag"
  have apart: "names_apart ?out ?rcpt {?temp, receipt_temp ?rcpt uuid}" and same_dir: "butlast ?rcpt = butlast ?out"
    and dirs: "\<forall>q \<in> set (ancestors (butlast ?out)). is_dir fs2 q"
    and absent: "map_of fs2 ?out = None" "map_of fs2 ?rcpt = None" "map_of fs2 ?temp = None"
      "map_of fs2 (receipt_temp ?rcpt uuid) = None" and temps: "?temp \<noteq> receipt_temp ?rcpt uuid"
    using place by (auto simp: unpack_place_def unpack_temps_def Let_def)
  have "is_file fs (pk_output pargs) \<longrightarrow> exists_path fs (pk_output pargs)"
    by (auto simp: query_defs split: option.splits)
  with pack_outcome [OF assms(1,3,4,5,6)] assms(2) have "packed py z pargs fs v fs'" by blast
  then obtain car rows carv2 compressed ratio saved where
    p: "read_bytes fs (pk_carv1 pargs) = Inr car" "int (length car) \<le> pk_max_bytes pargs"
      "write_carv2 (sha256 py) car (nat (pk_max_blocks pargs)) = Inr (rows, carv2)" "run_zstd z True carv2 = Inr compressed"
      "v = JDict (pack_receipt py (length car) car carv2 compressed (length rows) ratio saved)"
      "map_of fs' (pk_output pargs) = Some (File compressed)" unfolding packed_def by blast
  have kvs: "kvs = pack_receipt py (length car) car carv2 compressed (length rows) ratio saved" using p(5) assms(9) by simp
  have src: "read_bytes fs2 (up_compressed uargs) = Inr compressed" using assms(8) p(6) by simp
  have zst: "run_zstd z False compressed = Inr carv2" "zstd_frame_content_size compressed = Inr (length carv2)"
    using assms(7) p(4) by (auto simp: zstd_restores_def run_zstd_Inr)
  have valid: "validate_carv2 (sha256 py) carv2 (up_max_blocks uargs) =
      Inr \<lparr>carv2_bytes = length carv2, blocks = length rows, index_entry_count = length rows\<rparr>"
    using p(3) assms(12) by (auto simp: validate_carv2_iff)
  have expect: "\<not> differs_from (up_expected_compressed uargs) (hex (sha256 py compressed))"
    "\<not> differs_from (up_expected_carv2 uargs) (hex (sha256 py carv2))"
    using assms(10,11) by (simp_all add: kvs pack_receipt_def field_def differs_from_def)
  have room: "\<not> up_max_bytes uargs + 128 * int (up_max_blocks uargs) + 1024 < int (length carv2)"
    using written_size(1) [OF p(3)] p(2) assms(12,13) by linarith
  let ?fs1 = "write_node ?temp (File carv2) (unlink ?temp (write_node ?temp (File []) fs2))"
  let ?receipt = "unpack_receipt py compressed carv2
    \<lparr>carv2_bytes = length carv2, blocks = length rows, index_entry_count = length rows\<rparr>"
  have "is_dir ?fs1 q" if "q \<in> set (ancestors (butlast ?out))" for q
  proof -
    have "is_dir fs2 q" using dirs that by blast
    moreover from this have "q \<noteq> ?temp" using absent(3) by auto
    ultimately show ?thesis using query_cong(3) [of ?fs1 q fs2] by simp
  qed
  then have "\<exists>fs3. deliver py ?temp ?out ?rcpt uuid ?receipt ?fs1 = (Inr (JDict ?receipt), fs3)"
    using absent apart same_dir temps by (intro deliver_succeeds [where data = carv2]) (auto simp: names_apart_def)
  then obtain fs3 where fin: "deliver py ?temp ?out ?rcpt uuid ?receipt ?fs1 = (Inr (JDict ?receipt), fs3)" by blast
  have unpacked: "unpack py z tag uuid uargs fs2 = (Inr (JDict ?receipt), unlink ?temp fs3)"
    using fin src zst valid expect room absent mkdirs_again [OF dirs]
    by (simp add: unpack_def unpack_files_def Let_def amkdirs_def abind_def [of "alift _"] abind_def [of "awrite _ _"]
        abind_def [of "amkdirs _"] abind_def [of "\<lambda>fs. (Inr (), unlink _ fs)"] afinally_def awrite_def deliver_def)
  from deliver_cases [OF fin _ apart, of "File carv2"] have "map_of fs3 ?out = Some (File carv2)" by simp
  then have "read_bytes (unlink ?temp fs3) ?out = Inr carv2" using apart by (simp add: names_apart_def)
  then show ?thesis using unpacked p(1) write_carv2_data [OF p(3)] valid by (auto simp: is_ok_iff)
qed

text \<open>\<open>unpack\<close> publishes only a verified file: when it returns a fresh receipt, the compressed input has the
  demanded digest, the published file is a valid CARv2 file with the demanded digest and the size its
  frame declared, and the receipt on disk describes it. When it is refused or fails, at any point, it has
  replaced nothing and left nothing but empty directories.\<close>

theorem unpack_publishes_verified:
  assumes "unpack py z tag uuid args fs = (r, fs')"
    and "names_apart (up_output args) (receipt_of (up_output args) (up_receipt args)) (unpack_temps tag uuid args)"
    and "\<not> exists_path fs (up_output args)"
  shows "(\<forall>p. p \<notin> unpack_temps tag uuid args \<longrightarrow> map_of fs p \<noteq> None \<longrightarrow> map_of fs' p = map_of fs p) \<and>
    (case r of
       Inl e \<Rightarrow> \<forall>p. p \<notin> unpack_temps tag uuid args \<longrightarrow> map_of fs' p = map_of fs p \<or> map_of fs' p = Some Dir
     | Inr v \<Rightarrow> \<exists>compressed carv2 checked. read_bytes fs (up_compressed args) = Inr compressed \<and>
         \<not> differs_from (up_expected_compressed args) (hex (sha256 py compressed)) \<and>
         read_bytes fs' (up_output args) = Inr carv2 \<and> zstd_frame_content_size compressed = Inr (length carv2) \<and>
         validate_carv2 (sha256 py) carv2 (up_max_blocks args) = Inr checked \<and>
         \<not> differs_from (up_expected_carv2 args) (hex (sha256 py carv2)) \<and>
         v = JDict (unpack_receipt py compressed carv2 checked) \<and>
         read_bytes fs' (receipt_of (up_output args) (up_receipt args)) =
           Inr (receipt_text py (unpack_receipt py compressed carv2 checked)))"
proof -
  let ?T = "unpack_temps tag uuid args"
  have no_file: "\<not> is_file fs (up_output args)" using assms(3) by (auto simp: query_defs split: option.splits)
  note out = unpack_outcome [OF assms(1,2)]
  show ?thesis
  proof (cases r)
    case (Inl e)
    then have "fs' = fs \<or> adds_only ?T fs fs'" using out by (auto simp: all_or_nothing_def)
    then show ?thesis unfolding Inl by (auto simp: adds_only_def)
  next
    case (Inr v)
    with out no_file have free: "map_of fs (up_output args) = None"
      "map_of fs (receipt_of (up_output args) (up_receipt args)) = None"
      and adds: "adds_only (?T \<union> {up_output args, receipt_of (up_output args) (up_receipt args)}) fs fs'"
      by (auto simp: all_or_nothing_def)
    have "map_of fs' p = map_of fs p" if "p \<notin> ?T" "map_of fs p \<noteq> None" for p
    proof -
      have "p \<notin> ?T \<union> {up_output args, receipt_of (up_output args) (up_receipt args)}" using free that by auto
      then show ?thesis using adds that(2) unfolding adds_only_def by metis
    qed
    then show ?thesis using out no_file unfolding Inr by (auto 0 3)
  qed
qed

text \<open>Packing again after a \<open>pack\<close> that succeeded returns the same receipt and changes nothing, as long as
  the CAR and what was written are still there and \<open>json.loads\<close> reads the receipt back.\<close>

theorem repeated_pack_returns_receipt:
  assumes "pack py z env args fs = (Inr (JDict kvs), fs')" and "\<not> exists_path fs (pk_output args)"
    and "names_apart (pk_output args) (receipt_of (pk_output args) (pk_receipt args)) (pack_temps env args)"
    and "pk_carv1 args \<notin> pack_temps env args" and "rounding_ok env" and "frames_nonempty z"
    and "json_loads py (receipt_text py kvs) = Inr (JDict kvs)"
  shows "pack py z env2 args fs' = (Inr (JDict kvs), fs')"
proof -
  let ?out = "pk_output args" and ?rcpt = "receipt_of (pk_output args) (pk_receipt args)"
  have no_file: "\<not> is_file fs ?out" using assms(2) by (auto simp: query_defs split: option.splits)
  with pack_outcome [OF assms(1,3-6)] have
    kept: "all_or_nothing (pack_temps env args) ?out ?rcpt fs (Inr (JDict kvs)) fs'"
    and packed: "packed py z args fs (JDict kvs) fs'" by blast+
  from packed obtain car carv2 compressed ratio saved and rows :: "row list" where
    p: "read_bytes fs (pk_carv1 args) = Inr car"
      "JDict kvs = JDict (pack_receipt py (length car) car carv2 compressed (length rows) ratio saved)"
      "map_of fs' ?out = Some (File compressed)"
      "map_of fs' ?rcpt = Some (File (receipt_text py (pack_receipt py (length car) car carv2 compressed (length rows) ratio saved)))"
    unfolding packed_def by blast
  from kept have adds: "adds_only (pack_temps env args \<union> {?out, ?rcpt}) fs fs'"
    and free: "map_of fs ?out = None" "map_of fs ?rcpt = None" by (auto simp: all_or_nothing_def)
  have kvs: "kvs = pack_receipt py (length car) car carv2 compressed (length rows) ratio saved" using p(2) by simp
  have present: "map_of fs (pk_carv1 args) \<noteq> None" using p(1) by (rule present_if)
  then have "pk_carv1 args \<notin> pack_temps env args \<union> {?out, ?rcpt}" using assms(4) free by auto
  then have "map_of fs' (pk_carv1 args) = map_of fs (pk_carv1 args)" using adds present unfolding adds_only_def by metis
  then have src: "read_bytes fs' (pk_carv1 args) = Inr car" using p(1) query_cong(5) by metis
  have bounds: "\<not> (pk_max_blocks args < 1 \<or> 1000 < pk_max_blocks args \<or> int (length car) < 1 \<or> pk_max_bytes args < int (length car))"
    using assms(1) p(1) by (auto simp: pack_def Let_def split: if_splits)
  show ?thesis
    using src bounds p(3,4) assms(7)
    by (simp add: pack_def Let_def saved_pack_def kvs [symmetric])
      (simp add: kvs pack_receipt_def eq_str_def)
qed

section \<open>A concrete archive\<close>

text \<open>A stand-in for \<open>zstd\<close> that stores the data uncompressed behind a frame header.\<close>

definition stored_frame :: "bytes \<Rightarrow> bytes" where
  "stored_frame data = [0x28, 0xB5, 0x2F, 0xFD, 0xE0] @ le_bytes 8 (length data) @ data"

definition stored_zstd :: zstd where
  "stored_zstd = \<lparr>zs_installed = True,
     zs_run = (\<lambda>compress data.
       if compress then Inr (if length data < 256 ^ 8 then (0, stored_frame data) else (1, []))
       else Inr (0, drop 13 data))\<rparr>"

lemma stored_frame_size:
  assumes "length data < 256 ^ 8"
  shows "zstd_frame_content_size (stored_frame data) = Inr (length data)"
proof -
  have bits: "(0xE0 :: 8 word) AND 24 = 0" "(0xE0 :: 8 word) AND 32 \<noteq> 0" "unat (drop_bit 6 (0xE0 :: 8 word)) = 3"
    "unat ((0xE0 :: 8 word) AND 3) = 0" by code_simp+
  have fields: "take 18 (stored_frame data) ! 4 = 0xE0" "take 4 (take 18 (stored_frame data)) = [0x28, 0xB5, 0x2F, 0xFD]"
    "13 \<le> length (take 18 (stored_frame data))"
    "take 8 (drop 5 (take 18 (stored_frame data))) = le_bytes 8 (length data)"
    by (simp_all add: stored_frame_def)
  show ?thesis using assms fields
    by (simp add: zstd_frame_content_size_def Let_def bits nth_res_def le_value_bytes)
qed

lemma stored_zstd_ok: "frames_nonempty stored_zstd" "zstd_restores stored_zstd"
proof -
  show "frames_nonempty stored_zstd" by (simp add: frames_nonempty_def stored_zstd_def stored_frame_def)
  show "zstd_restores stored_zstd"
    by (auto simp: zstd_restores_def stored_zstd_def stored_frame_size) (simp add: stored_frame_def)
qed

definition toy_car :: bytes where "toy_car = car_bytes [0xA0] sample_blocks"

definition toy_carv2 :: bytes where
  "toy_carv2 = (case write_carv2 sample_sha toy_car 10 of Inr (_, carv2) \<Rightarrow> carv2 | Inl _ \<Rightarrow> [])"

definition toy_receipt :: "(string \<times> json) list" where
  "toy_receipt = pack_receipt \<lparr>sha256 = sample_sha, json_loads = (\<lambda>_. Inl ValueError), json_dumps = (\<lambda>_. [])\<rparr>
     (length toy_car) toy_car toy_carv2 (stored_frame toy_carv2) 2 (JFloat 1 1) (JFloat 0 1)"

definition archive_py :: pylib where
  "archive_py = \<lparr>sha256 = sample_sha, json_loads = (\<lambda>_. Inr (JDict toy_receipt)), json_dumps = (\<lambda>_. [9])\<rparr>"

definition toy_env :: pack_env where
  "toy_env = \<lparr>pe_free = 10 ^ 9, pe_tag = ''t'', pe_uuid = ''u'', pe_ratio = (\<lambda>_ _. Inr (JFloat 1 1)),
     pe_saved = (\<lambda>_ _. Inr (JFloat 0 1))\<rparr>"

definition toy_pack :: pack_args where
  "toy_pack = \<lparr>pk_carv1 = [''a.car''], pk_output = [''a.zst''], pk_receipt = None, pk_max_blocks = 10, pk_max_bytes = 1000\<rparr>"

definition toy_unpack :: unpack_args where
  "toy_unpack = \<lparr>up_compressed = [''b.zst''], up_output = [''b.car''], up_receipt = None,
     up_expected_compressed = as_str (field toy_receipt ''compressed_sha256''),
     up_expected_carv2 = as_str (field toy_receipt ''carv2_sha256''),
     up_max_blocks = 10, up_max_bytes = 1000\<rparr>"

definition packed_disk :: fs where
  "packed_disk = snd (pack archive_py stored_zstd toy_env toy_pack [([''a.car''], File toy_car)])"

definition other_disk :: fs where
  "other_disk = [([''b.zst''], File (stored_frame toy_carv2))]"

lemma toy_written:
  "\<exists>rows. write_carv2 sample_sha toy_car 10 = Inr (rows, toy_carv2) \<and> length rows = 2 \<and> length toy_carv2 < 256 ^ 8"
proof -
  have len: "length toy_car = 78" "length (leb (length [0xA0 :: byte])) + length [0xA0 :: byte] = 2" "length sample_blocks = 2"
    unfolding toy_car_def by code_simp+
  have small: "(78 :: nat) < 2 ^ 58" by simp
  obtain archive where a: "write_carv2 sample_sha toy_car 10 = Inr (section_rows sample_sha 2 sample_blocks, archive)"
    using standard_car_packed [OF sample_blocks_ok, of "[0xA0]"] small unfolding toy_car_def [symmetric] len
    by (auto simp: MAX_HEADER_BYTES_def simp del: power_Suc)
  then have "toy_carv2 = archive" by (simp add: toy_carv2_def)
  moreover have "length (section_rows sample_sha 2 sample_blocks) = 2" by code_simp
  moreover have "length archive < 256 ^ 8" using written_size(1) [OF a] len(1) by simp
  ultimately show ?thesis using a by blast
qed

lemma toy_checked:
  "validate_carv2 sample_sha toy_carv2 10 =
    Inr \<lparr>carv2_bytes = length toy_carv2, blocks = 2, index_entry_count = 2\<rparr>"
  using toy_written by (auto simp: validate_carv2_iff)

lemmas path_defs = receipt_of_def with_suffix_json_def temp_carv2_def temp_zst_def receipt_temp_def temp_unpacked_def

lemmas action_defs = abind_def awrite_def aread_def amkdirs_def afinally_def aundo_def link_new_def create_new_def
  publish_no_replace_def write_json_no_replace_def write_node_def unlink_def mkdirs_def ancestors_def query_defs

lemma toy_packed_run:
  "fst (pack archive_py stored_zstd toy_env toy_pack [([''a.car''], File toy_car)]) = Inr (JDict toy_receipt)"
  "map_of packed_disk [''a.zst''] = Some (File (stored_frame toy_carv2))"
proof -
  obtain rows where rows: "write_carv2 sample_sha toy_car 10 = Inr (rows, toy_carv2)" "length rows = 2"
    and small: "length toy_carv2 < 256 ^ 8" using toy_written by blast
  have len: "length toy_car = 78" unfolding toy_car_def by code_simp
  note defs = pack_def pack_files_def Let_def toy_pack_def archive_py_def toy_env_def stored_zstd_def run_zstd_def
    archive_failure_def path_defs action_defs toy_receipt_def pack_receipt_def
  show "fst (pack archive_py stored_zstd toy_env toy_pack [([''a.car''], File toy_car)]) = Inr (JDict toy_receipt)"
    using rows small toy_checked len by (simp add: defs)
  show "map_of packed_disk [''a.zst''] = Some (File (stored_frame toy_carv2))"
    unfolding packed_disk_def using rows small toy_checked len by (simp add: defs)
qed

lemma toy_packed:
  "pack archive_py stored_zstd toy_env toy_pack [([''a.car''], File toy_car)] = (Inr (JDict toy_receipt), packed_disk)"
  using toy_packed_run(1) unfolding packed_disk_def by (metis prod.collapse)

lemma toy_names:
  "names_apart [''a.zst''] (receipt_of [''a.zst''] None) (pack_temps toy_env toy_pack)"
  "[''a.car''] \<notin> pack_temps toy_env toy_pack" "rounding_ok toy_env"
  by (simp_all add: names_apart_def pack_temps_def toy_env_def toy_pack_def path_defs rounding_ok_def)

lemma toy_place: "unpack_place other_disk ''t'' ''u'' toy_unpack"
  by (simp add: unpack_place_def toy_unpack_def other_disk_def names_apart_def unpack_temps_def path_defs ancestors_def Let_def)

theorem unpack_restores_packed_witness:
  "\<exists>u fs3 carv2. unpack archive_py stored_zstd ''t'' ''u'' toy_unpack other_disk = (Inr u, fs3) \<and>
    read_bytes fs3 [''b.car''] = Inr carv2 \<and> data_section carv2 = toy_car"
proof -
  have "\<not> exists_path [([''a.car''], File toy_car)] [''a.zst'']" by (simp add: query_defs)
  moreover have "read_bytes other_disk [''b.zst''] = read_bytes packed_disk [''a.zst'']"
    using toy_packed_run(2) by (simp add: other_disk_def query_defs)
  moreover have "read_bytes [([''a.car''], File toy_car)] [''a.car''] = Inr toy_car" by (simp add: query_defs)
  ultimately show ?thesis
    using unpack_restores_packed [OF toy_packed _ _ _ _ stored_zstd_ok, of other_disk toy_unpack toy_receipt "''t''" "''u''"]
      toy_names toy_place by (auto simp: toy_pack_def toy_unpack_def)
qed

theorem unpack_publishes_verified_witness:
  "\<exists>fs3 carv2 checked. unpack archive_py stored_zstd ''t'' ''u'' toy_unpack other_disk =
      (Inr (JDict (unpack_receipt archive_py (stored_frame toy_carv2) carv2 checked)), fs3) \<and>
    validate_carv2 sample_sha carv2 10 = Inr checked \<and> read_bytes fs3 [''b.car''] = Inr carv2"
proof -
  have d: "map_of other_disk [''b.zst''] = Some (File (stored_frame toy_carv2))" by (simp add: other_disk_def)
  have len: "length toy_car = 78" unfolding toy_car_def by code_simp
  obtain rows where "write_carv2 sample_sha toy_car 10 = Inr (rows, toy_carv2)" "length toy_carv2 < 256 ^ 8"
    using toy_written by blast
  then have short: "length toy_carv2 \<le> 78 + 1280 + 1024" using written_size(1) len by force
  define run where "run = unpack archive_py stored_zstd ''t'' ''u'' toy_unpack other_disk"
  have zst: "zstd_frame_content_size (stored_frame toy_carv2) = Inr (length toy_carv2)"
    "drop 13 (stored_frame toy_carv2) = toy_carv2"
    using stored_frame_size short by (auto simp: stored_frame_def)
  have "is_ok (fst run)"
    unfolding run_def other_disk_def using short zst toy_checked
    by (simp add: unpack_def unpack_files_def Let_def toy_unpack_def stored_zstd_def run_zstd_def archive_failure_def path_defs
        action_defs differs_from_def toy_receipt_def pack_receipt_def field_def archive_py_def)
  then obtain v fs3 where run: "run = (Inr v, fs3)" by (cases run) (auto simp: is_ok_iff)
  have free: "\<not> exists_path other_disk [''b.car'']" by (simp add: other_disk_def query_defs)
  have apart: "names_apart [''b.car''] (receipt_of [''b.car''] None) (unpack_temps ''t'' ''u'' toy_unpack)"
    using toy_place by (simp add: unpack_place_def toy_unpack_def Let_def)
  show ?thesis
    using unpack_publishes_verified [OF run [unfolded run_def]] free apart run d
    by (auto simp: toy_unpack_def run_def archive_py_def)
qed

theorem repeated_pack_returns_receipt_witness:
  "pack archive_py stored_zstd toy_env toy_pack packed_disk = (Inr (JDict toy_receipt), packed_disk)"
proof -
  have "\<not> exists_path [([''a.car''], File toy_car)] [''a.zst'']" by (simp add: query_defs)
  then show ?thesis
    using repeated_pack_returns_receipt [OF toy_packed _ _ _ _ stored_zstd_ok(1), of toy_env] toy_names
    by (simp add: toy_pack_def archive_py_def)
qed

end
