(* ===== verification/Raw_Block_Store.thy ===== *)
theory Raw_Block_Store
  imports Json_Files
begin

text \<open>
  \<open>deploy/raw_block_store.py\<close>: the class \<open>RawBlockStore\<close>, which keeps CID-checked blocks as a data
  file and a metadata file per CID. \<open>put\<close> is the sequence of file-system steps it performs, so that
  a power failure in the middle of it can be stated; \<open>read\<close> returns checked bytes or refuses.
\<close>

definition MAX_BLOCK :: nat where "MAX_BLOCK = 256000000"

section \<open>The store\<close>

definition shard_dir :: "pylib \<Rightarrow> path \<Rightarrow> string \<Rightarrow> path" where
  "shard_dir py root cid = root @ [take 2 (hex (sha256 py (ascii cid)))]"

definition data_path :: "pylib \<Rightarrow> path \<Rightarrow> string \<Rightarrow> path" where
  "data_path py root cid = shard_dir py root cid @ [cid @ ''.block'']"

definition meta_path :: "pylib \<Rightarrow> path \<Rightarrow> string \<Rightarrow> path" where
  "meta_path py root cid = shard_dir py root cid @ [cid @ ''.json'']"

definition raw_paths :: "pylib \<Rightarrow> path \<Rightarrow> string \<Rightarrow> (path \<times> path) res" where
  "raw_paths py root cid =
     rbind (sha256_digest cid) (\<lambda>_. Inr (data_path py root cid, meta_path py root cid))"

text \<open>\<open>root.glob("*/*.json")\<close>, and \<open>stem\<close> of such a name.\<close>

definition ends_with :: "string \<Rightarrow> string \<Rightarrow> bool" where
  "ends_with suffix name \<longleftrightarrow> drop (length name - length suffix) name = suffix"

definition glob_json :: "path \<Rightarrow> fs \<Rightarrow> path list" where
  "glob_json root fs =
     filter (\<lambda>p. length p = length root + 2 \<and> take (length root) p = root \<and>
       ends_with ''.json'' (last p)) (map fst fs)"

definition json_stem :: "string \<Rightarrow> string" where
  "json_stem name = (if name = ''.json'' then name else take (length name - 5) name)"

definition raw_cids :: "pylib \<Rightarrow> path \<Rightarrow> fs \<Rightarrow> string list res" where
  "raw_cids py root fs =
     (if \<not> exists_path fs root then Inr []
      else
        foldM (\<lambda>result meta.
          let cid = json_stem (last meta) in
          rbind (raw_paths py root cid) (\<lambda>(_, expected).
          if meta \<noteq> expected then Inl (RawBlockStoreError ''raw block metadata path differs'')
          else Inr (List.insert cid result))) [] (glob_json root fs))"

text \<open>The checks of \<open>read\<close> on the metadata; the result is the recorded size and digest.\<close>

definition check_meta :: "json \<Rightarrow> string \<Rightarrow> nat \<Rightarrow> (nat \<times> string) res" where
  "check_meta meta cid max_bytes =
     rbind (jget meta ''schema'') (\<lambda>schema.
     rbind (jget meta ''cid'') (\<lambda>named.
     rbind (jget meta ''bytes'') (\<lambda>count.
     rbind (jget meta ''sha256'') (\<lambda>digest.
       if \<not> eq_int schema 1 \<or> \<not> eq_str named cid
       then Inl (RawBlockStoreError ''raw block metadata differs'')
       else
         case as_int count of
           None \<Rightarrow> Inl (RawBlockStoreError ''raw block metadata differs'')
         | Some n \<Rightarrow>
             if n < 1 \<or> int max_bytes < n
             then Inl (RawBlockStoreError ''raw block metadata differs'')
             else case as_str digest of
               None \<Rightarrow> Inl (RawBlockStoreError ''raw block metadata differs'')
             | Some h \<Rightarrow>
                 if \<not> match_sha256 h then Inl (RawBlockStoreError ''raw block metadata differs'')
                 else Inr (nat n, h)))))"

definition raw_read :: "pylib \<Rightarrow> path \<Rightarrow> fs \<Rightarrow> string \<Rightarrow> nat \<Rightarrow> bytes option res" where
  "raw_read py root fs cid max_bytes =
     rbind (raw_paths py root cid) (\<lambda>(dp, mp).
     if \<not> exists_path fs dp \<and> \<not> exists_path fs mp then Inr None
     else if \<not> is_file fs dp \<or> \<not> is_file fs mp \<or> is_symlink fs dp \<or> is_symlink fs mp
     then Inl (RawBlockStoreError ''raw block data or metadata missing'')
     else
       rbind (case rbind (read_bytes fs mp) (json_loads py) of
           Inl OSError \<Rightarrow> Inl (RawBlockStoreError ''raw block metadata unreadable'')
         | Inl ValueError \<Rightarrow> Inl (RawBlockStoreError ''raw block metadata unreadable'')
         | r \<Rightarrow> r) (\<lambda>meta.
       rbind (check_meta meta cid max_bytes) (\<lambda>(size, digest).
       rbind (read_bytes fs dp) (\<lambda>content.
       let data = take (max_bytes + 1) content in
       if length data \<noteq> size \<or> hex (sha256 py data) \<noteq> digest
       then Inl (RawBlockStoreError ''raw block data differs from metadata'')
       else rbind (verify_cid (sha256 py) cid data) (\<lambda>_. Inr (Some data))))))"

text \<open>
  \<open>put\<close>: the steps it takes and how it ends. \<open>tag1\<close> and \<open>tag2\<close> are the two \<open>uuid4().hex\<close> values.
  \<open>mkdir(parents=True)\<close> creates the missing ancestors first; \<open>exist_ok\<close> forgives a directory only.
\<close>

definition temp_path :: "path \<Rightarrow> string \<Rightarrow> path" where
  "temp_path p tag = butlast p @ [last p @ ''.'' @ tag @ ''.tmp'']"

definition block_meta :: "pylib \<Rightarrow> string \<Rightarrow> bytes \<Rightarrow> json" where
  "block_meta py cid data =
     JDict [(''schema'', JInt 1), (''cid'', JStr cid), (''bytes'', JInt (int (length data))),
            (''sha256'', JStr (hex (sha256 py data)))]"

definition publish_steps :: "path \<Rightarrow> string \<Rightarrow> bytes \<Rightarrow> step list" where
  "publish_steps p tag data =
     [Create (temp_path p tag) data, Rename (temp_path p tag) p data, SyncDir (butlast p),
      Unlink (temp_path p tag)]"

definition raw_put ::
    "pylib \<Rightarrow> path \<Rightarrow> fs \<Rightarrow> string \<Rightarrow> bytes \<Rightarrow> string \<Rightarrow> string \<Rightarrow> step list \<times> unit res" where
  "raw_put py root fs cid data tag1 tag2 =
     (if data = [] \<or> MAX_BLOCK < length data
      then ([], Inl (RawBlockStoreError ''raw block size exceeds bound''))
      else case verify_cid (sha256 py) cid data of Inl e \<Rightarrow> ([], Inl e) | Inr _ \<Rightarrow>
      case raw_paths py root cid of Inl e \<Rightarrow> ([], Inl e) | Inr (dp, mp) \<Rightarrow>
      if exists_path fs mp then
        ([], rbind (raw_read py root fs cid MAX_BLOCK) (\<lambda>stored.
          if stored \<noteq> Some data then Inl (RawBlockStoreError ''existing raw block differs'')
          else Inr ()))
      else case (if exists_path fs dp then read_bytes fs dp else Inr data) of
        Inl e \<Rightarrow> ([], Inl e)
      | Inr present \<Rightarrow>
          if present \<noteq> data
          then ([], Inl (RawBlockStoreError ''incomplete raw block differs''))
          else if \<not> list_all (can_mkdir fs) (ancestors root) then ([], Inl OSError)
          else
            let opening = map Mkdir (ancestors root) @
              (if exists_path fs root then [] else [SyncDir (butlast root)]) in
            if \<not> can_mkdir fs (butlast dp) then (opening, Inl OSError)
            else
              (opening @ [Mkdir (butlast dp), SyncDir root] @
               (if exists_path fs dp then [] else publish_steps dp tag1 data) @
               publish_steps mp tag2 (json_text py (block_meta py cid data)), Inr ()))"

text \<open>The store after \<open>put\<close>.\<close>

definition raw_put_fs ::
    "pylib \<Rightarrow> path \<Rightarrow> fs \<Rightarrow> string \<Rightarrow> bytes \<Rightarrow> string \<Rightarrow> string \<Rightarrow> fs" where
  "raw_put_fs py root fs cid data tag1 tag2 = run_steps (fst (raw_put py root fs cid data tag1 tag2)) fs"

section \<open>Paths are private to a CID\<close>

lemma path_simps [simp]:
  "butlast (data_path py root cid) = shard_dir py root cid"
  "butlast (meta_path py root cid) = shard_dir py root cid"
  "butlast (shard_dir py root cid) = root"
  "last (data_path py root cid) = cid @ ''.block''"
  "last (meta_path py root cid) = cid @ ''.json''"
proof -
  show "butlast (shard_dir py root cid) = root" by (simp add: shard_dir_def)
qed (simp_all add: data_path_def meta_path_def)

lemma path_lengths [simp]:
  "length (data_path py root cid) = length root + 2"
  "length (meta_path py root cid) = length root + 2"
  "length (shard_dir py root cid) = length root + 1"
  by (simp_all add: data_path_def meta_path_def shard_dir_def)

lemma path_distinct [simp]:
  "data_path py root cid \<noteq> meta_path py root cid'" "meta_path py root cid' \<noteq> data_path py root cid"
  "data_path py root cid = data_path py root cid' \<longleftrightarrow> cid = cid'"
  "meta_path py root cid = meta_path py root cid' \<longleftrightarrow> cid = cid'"
proof -
  have "cid @ ''.block'' \<noteq> cid' @ ''.json''" for cid cid' :: string
  proof
    assume "cid @ ''.block'' = cid' @ ''.json''"
    then have "last (cid @ ''.block'') = last (cid' @ ''.json'')" by (rule arg_cong)
    then show False by simp
  qed
  then show "data_path py root cid \<noteq> meta_path py root cid'"
    "meta_path py root cid' \<noteq> data_path py root cid"
    by (metis path_simps(4,5))+
  show "data_path py root cid = data_path py root cid' \<longleftrightarrow> cid = cid'"
    "meta_path py root cid = meta_path py root cid' \<longleftrightarrow> cid = cid'"
    by (auto simp: data_path_def meta_path_def)
qed

lemma temp_path_simps [simp]:
  "butlast (temp_path p tag) = butlast p" "last (temp_path p tag) = last p @ ''.'' @ tag @ ''.tmp''"
  by (simp_all add: temp_path_def)

lemma temp_path_distinct [simp]:
  "temp_path p tag \<noteq> data_path py root cid" "temp_path p tag \<noteq> meta_path py root cid"
  "data_path py root cid \<noteq> temp_path p tag" "meta_path py root cid \<noteq> temp_path p tag"
  by (auto dest: arg_cong [where f = "\<lambda>q. last (last q)"])

lemma ancestors_distinct [simp]:
  "data_path py root cid \<notin> set (ancestors root)" "meta_path py root cid \<notin> set (ancestors root)"
  "shard_dir py root cid \<notin> set (ancestors root)"
  using ancestors_length by fastforce+

lemma temp_not_dir [simp]:
  "temp_path (data_path py root cid) tag \<notin> set (ancestors root)"
  "temp_path (meta_path py root cid) tag \<notin> set (ancestors root)"
  "temp_path (data_path py root cid) tag \<noteq> shard_dir py root cid'"
  "temp_path (meta_path py root cid) tag \<noteq> shard_dir py root cid'"
proof -
  have l: "length (temp_path (data_path py root cid) tag) = length root + 2"
    "length (temp_path (meta_path py root cid) tag) = length root + 2"
    by (simp_all add: temp_path_def)
  show "temp_path (data_path py root cid) tag \<notin> set (ancestors root)"
    "temp_path (meta_path py root cid) tag \<notin> set (ancestors root)"
    using ancestors_length l by fastforce+
  show "temp_path (data_path py root cid) tag \<noteq> shard_dir py root cid'"
    "temp_path (meta_path py root cid) tag \<noteq> shard_dir py root cid'"
    using l by (metis path_lengths(3) add_left_cancel one_eq_numeral_iff semiring_norm(85))+
qed

lemmas temp_not_dir_sym [simp] = temp_not_dir(3,4) [THEN not_sym]

lemma shard_distinct [simp]:
  "shard_dir py root cid \<noteq> data_path py root cid'" "data_path py root cid' \<noteq> shard_dir py root cid"
  "shard_dir py root cid \<noteq> meta_path py root cid'" "meta_path py root cid' \<noteq> shard_dir py root cid"
  by (metis path_lengths add_left_cancel one_eq_numeral_iff semiring_norm(85))+

section \<open>Reading\<close>

lemma read_cong:
  assumes "map_of fs (data_path py root cid) = map_of fs' (data_path py root cid)"
    and "map_of fs (meta_path py root cid) = map_of fs' (meta_path py root cid)"
  shows "raw_read py root fs cid n = raw_read py root fs' cid n"
  unfolding raw_read_def raw_paths_def using assms
  by (cases "sha256_digest cid") (simp_all add: query_cong [of fs _ fs'])

lemma read_sound:
  assumes "raw_read py root fs cid max_bytes = Inr (Some data)"
  shows "sha256_digest cid = Inr (sha256 py data) \<and> 1 \<le> length data \<and> length data \<le> max_bytes"
proof -
  from assms obtain meta size digest content where
    m: "check_meta meta cid max_bytes = Inr (size, digest)" and
    d: "data = take (max_bytes + 1) content" "length data = size"
      "verify_cid (sha256 py) cid data = Inr ()"
    by (auto simp: raw_read_def raw_paths_def res_simps Let_def split: if_splits prod.splits)
  from m have "1 \<le> size" "size \<le> max_bytes"
    by (auto simp: check_meta_def res_simps)
  with d show ?thesis by (auto simp: verify_cid_ok)
qed

lemma read_returns:
  assumes "raw_read py root fs cid max_bytes = Inr (Some data)"
  shows "map_of fs (data_path py root cid) = Some (File data)"
    and "map_of fs (meta_path py root cid) \<noteq> None"
proof -
  let ?dp = "data_path py root cid" and ?mp = "meta_path py root cid"
  from assms obtain content where files: "is_file fs ?dp" "\<not> is_symlink fs ?dp" "is_file fs ?mp"
    and content: "read_bytes fs ?dp = Inr content" "data = take (max_bytes + 1) content"
    by (auto simp: raw_read_def raw_paths_def res_simps Let_def split: if_splits)
  have "length data \<le> max_bytes" using read_sound [OF assms] by simp
  then have "data = content" using content(2) by (auto simp: min_def split: if_splits)
  with regular_file [OF files(1,2)] content(1) show "map_of fs ?dp = Some (File data)" by auto
  show "map_of fs ?mp \<noteq> None" using files(3) absent_simps(2) by blast
qed

text \<open>What \<open>read\<close> finds in a store whose two files are the ones \<open>put\<close> writes.\<close>

definition meta_readable :: "pylib \<Rightarrow> string \<Rightarrow> bytes \<Rightarrow> bool" where
  "meta_readable py cid data \<longleftrightarrow>
     json_loads py (json_text py (block_meta py cid data)) = Inr (block_meta py cid data)"

lemma read_complete:
  assumes "map_of fs (data_path py root cid) = Some (File data)"
    and "map_of fs (meta_path py root cid) = Some (File (json_text py (block_meta py cid data)))"
    and "meta_readable py cid data" and "verify_cid (sha256 py) cid data = Inr ()"
    and "data \<noteq> []" and "length data \<le> max_bytes"
  shows "raw_read py root fs cid max_bytes = Inr (Some data)"
proof -
  have d: "sha256_digest cid = Inr (sha256 py data)" using assms(4) by (simp add: verify_cid_ok)
  then have "match_sha256 (hex (sha256 py data))"
    using match_sha256_hex sha256_digest_length by blast
  then have "check_meta (block_meta py cid data) cid max_bytes =
      Inr (length data, hex (sha256 py data))"
    using assms(5,6) by (simp add: check_meta_def block_meta_def eq_str_def Suc_le_eq not_less)
  then show ?thesis
    using assms d by (simp add: raw_read_def raw_paths_def meta_readable_def Let_def)
qed

lemma read_absent:
  "is_ok (sha256_digest cid) \<Longrightarrow> \<not> exists_path fs (data_path py root cid) \<Longrightarrow>
    \<not> exists_path fs (meta_path py root cid) \<Longrightarrow> raw_read py root fs cid n = Inr None"
  by (auto simp: raw_read_def raw_paths_def is_ok_iff)

section \<open>Writing, also interrupted\<close>

definition put_opening :: "pylib \<Rightarrow> path \<Rightarrow> fs \<Rightarrow> string \<Rightarrow> step list" where
  "put_opening py root fs cid =
     map Mkdir (ancestors root) @ (if exists_path fs root then [] else [SyncDir (butlast root)]) @
     [Mkdir (shard_dir py root cid), SyncDir root]"

definition put_data :: "pylib \<Rightarrow> path \<Rightarrow> fs \<Rightarrow> string \<Rightarrow> bytes \<Rightarrow> string \<Rightarrow> step list" where
  "put_data py root fs cid data tag =
     (if exists_path fs (data_path py root cid) then []
      else publish_steps (data_path py root cid) tag data)"

definition put_meta :: "pylib \<Rightarrow> path \<Rightarrow> string \<Rightarrow> bytes \<Rightarrow> string \<Rightarrow> step list" where
  "put_meta py root cid data tag =
     publish_steps (meta_path py root cid) tag (json_text py (block_meta py cid data))"

lemma put_split:
  assumes "raw_put py root fs cid data tag1 tag2 = (steps, r)"
  obtains
    "steps = []" "r = Inr () \<Longrightarrow> verify_cid (sha256 py) cid data = Inr () \<and> data \<noteq> [] \<and>
      length data \<le> MAX_BLOCK \<and> raw_read py root fs cid MAX_BLOCK = Inr (Some data)"
  | e where "r = Inl e" "\<forall>s \<in> set steps. touches s \<subseteq> set (ancestors root)"
  | "r = Inr ()" "verify_cid (sha256 py) cid data = Inr ()" "data \<noteq> []" "length data \<le> MAX_BLOCK"
    "steps = put_opening py root fs cid @ put_data py root fs cid data tag1 @ put_meta py root cid data tag2"
    "\<not> exists_path fs (meta_path py root cid)"
    "exists_path fs (data_path py root cid) \<Longrightarrow> read_bytes fs (data_path py root cid) = Inr data"
    "\<forall>p \<in> insert (shard_dir py root cid) (set (ancestors root)). can_mkdir fs p"
proof (cases "verify_cid (sha256 py) cid data")
  case (Inl e)
  then have "steps = []" "r \<noteq> Inr ()" using assms by (auto simp: raw_put_def split: if_splits)
  then show ?thesis using that(1) by simp
next
  case (Inr u)
  then have p: "raw_paths py root cid = Inr (data_path py root cid, meta_path py root cid)"
    by (auto simp: raw_paths_def verify_cid_ok)
  let ?pre = "if exists_path fs (data_path py root cid) then read_bytes fs (data_path py root cid) else Inr data"
  show ?thesis
  proof (cases "(data = [] \<or> MAX_BLOCK < length data) \<or> exists_path fs (meta_path py root cid)")
    case True
    then show ?thesis using that(1) assms Inr p
      by (auto simp: raw_put_def res_simps not_less split: if_splits)
  next
    case False
    then have size: "data \<noteq> []" "length data \<le> MAX_BLOCK"
      and mp: "\<not> exists_path fs (meta_path py root cid)" by auto
    show ?thesis
    proof (cases "?pre = Inr data \<and> list_all (can_mkdir fs) (ancestors root)")
      case False
      then show ?thesis using that(1) assms Inr p size mp
        by (cases ?pre) (auto simp: raw_put_def split: if_splits)
    next
      case True
      then have pre: "?pre = Inr data" and anc: "list_all (can_mkdir fs) (ancestors root)" by auto
      show ?thesis
      proof (cases "can_mkdir fs (shard_dir py root cid)")
        case True
        then show ?thesis using assms Inr p size mp pre anc
          by (intro that(3)) (auto simp: raw_put_def Let_def put_opening_def put_data_def put_meta_def
              list_all_iff split: if_splits)
      next
        case False
        then show ?thesis using assms Inr p size mp pre anc
          by (intro that(2) [of OSError]) (auto simp: raw_put_def Let_def split: if_splits)
      qed
    qed
  qed
qed

lemma put_steps_touch:
  assumes "s \<in> set (put_opening py root fs cid @ put_data py root fs cid data tag1 @
    put_meta py root cid data tag2)"
  shows "cid' \<noteq> cid \<Longrightarrow> data_path py root cid' \<notin> touches s"
    and "cid' \<noteq> cid \<Longrightarrow> meta_path py root cid' \<notin> touches s"
    and "data_path py root cid \<notin> touches s \<or> (\<exists>t. t \<noteq> data_path py root cid \<and> s = Rename t (data_path py root cid) data)"
    and "meta_path py root cid \<notin> touches s \<or> (\<exists>t. t \<noteq> meta_path py root cid \<and>
      s = Rename t (meta_path py root cid) (json_text py (block_meta py cid data)))"
  using assms
  by (auto simp: put_opening_def put_data_def put_meta_def publish_steps_def split: if_splits)

lemma put_early_untouched:
  assumes "s \<in> set (put_opening py root fs cid @ put_data py root fs cid data tag1)"
  shows "meta_path py root cid \<notin> touches s"
  using assms by (auto simp: put_opening_def put_data_def publish_steps_def split: if_splits)

lemma put_meta_untouched:
  "s \<in> set (put_meta py root cid data tag) \<Longrightarrow> data_path py root cid \<notin> touches s"
  by (auto simp: put_meta_def publish_steps_def)

text \<open>What may be on the disk after a crash in \<open>put\<close>.\<close>

lemma put_crash_cases:
  assumes "crash_state (fst (raw_put py root fs cid data tag1 tag2)) fs fs'"
    and "\<not> is_symlink fs (data_path py root cid)"
  shows "map_of fs' (data_path py root cid) = map_of fs (data_path py root cid) \<and>
      map_of fs' (meta_path py root cid) = map_of fs (meta_path py root cid) \<or>
    verify_cid (sha256 py) cid data = Inr () \<and> data \<noteq> [] \<and> length data \<le> MAX_BLOCK \<and>
    \<not> exists_path fs (meta_path py root cid) \<and>
    map_of fs' (data_path py root cid) = Some (File data) \<and>
      (map_of fs' (meta_path py root cid) = map_of fs (meta_path py root cid) \<or>
       map_of fs' (meta_path py root cid) = Some (File (json_text py (block_meta py cid data))))"
    (is "?old \<or> ?new")
proof -
  let ?dp = "data_path py root cid" and ?mp = "meta_path py root cid"
  obtain steps r where raw_put: "raw_put py root fs cid data tag1 tag2 = (steps, r)" by (metis surj_pair)
  with assms(1) obtain pre rest where dr: "steps = pre @ rest" and sv: "survives pre fs fs'"
    by (auto simp: crash_state_def)
  from raw_put show ?thesis
  proof (rule put_split)
    assume "steps = []"
    with dr sv show ?thesis by (auto elim: survives_NilE)
  next
    assume "\<forall>s \<in> set steps. touches s \<subseteq> set (ancestors root)"
    then have "\<forall>s \<in> set pre. ?dp \<notin> touches s \<and> ?mp \<notin> touches s"
      using dr ancestors_distinct by (metis Un_iff set_append subsetD)
    then have ?old using survives_untouched [OF sv] by simp
    then show ?thesis ..
  next
    let ?A = "put_opening py root fs cid" and ?D = "put_data py root fs cid data tag1"
      and ?M = "put_meta py root cid data tag2"
    assume full: "steps = ?A @ ?D @ ?M" and nomp: "\<not> exists_path fs ?mp"
      and good: "verify_cid (sha256 py) cid data = Inr ()" "data \<noteq> []" "length data \<le> MAX_BLOCK"
      and dp: "exists_path fs ?dp \<Longrightarrow> read_bytes fs ?dp = Inr data"
    have sub: "set pre \<subseteq> set (?A @ ?D @ ?M)" using dr full by auto
    have dp_cases: "map_of fs' ?dp = map_of fs ?dp \<or> map_of fs' ?dp = Some (File data)"
      using survives_renamed [OF sv, of ?dp data] put_steps_touch(3) sub by blast
    have mp_cases: "map_of fs' ?mp = map_of fs ?mp \<or>
        map_of fs' ?mp = Some (File (json_text py (block_meta py cid data)))"
      using survives_renamed [OF sv, of ?mp] put_steps_touch(4) sub by blast
    have old_dp: "map_of fs ?dp = Some (File data)" if "exists_path fs ?dp"
      using regular_file [of fs ?dp] dp [OF that] that assms(2) is_file_read [of fs ?dp] by auto
    from dr full have "(?A @ ?D) @ ?M = pre @ rest" by simp
    then consider us where "?A @ ?D = pre @ us" | us where "pre = (?A @ ?D) @ us" "?M = us @ rest"
      by (auto simp: append_eq_append_conv2)
    then show ?thesis
    proof cases
      case 1
      then have "map_of fs' ?mp = map_of fs ?mp"
        using survives_untouched [OF sv, of ?mp] put_early_untouched by (metis Un_iff set_append)
      with dp_cases good nomp show ?thesis by blast
    next
      case 2
      have "map_of fs' ?dp = Some (File data)"
      proof (cases "exists_path fs ?dp")
        case True
        then show ?thesis using dp_cases old_dp [OF True] by simp
      next
        case False
        let ?t = "temp_path ?dp tag1"
        have "pre = ?A @ [Create ?t data, Rename ?t ?dp data, SyncDir (butlast ?dp)] @ (Unlink ?t # us)"
          using 2(1) False by (simp add: put_data_def publish_steps_def)
        with sv obtain m1 m2 where
          m: "survives [Create ?t data, Rename ?t ?dp data, SyncDir (butlast ?dp)] m1 m2"
            "survives (Unlink ?t # us) m2 fs'" by (metis survives_append)
        have "map_of m2 ?dp = Some (File data)" using survives_publish [OF m(1)] by simp
        moreover have "\<forall>s \<in> set (Unlink ?t # us). ?dp \<notin> touches s"
          using put_meta_untouched [of _ py root cid data tag2] unfolding 2(2) by auto
        ultimately show ?thesis using survives_untouched [OF m(2)] by simp
      qed
      with mp_cases good nomp show ?thesis by blast
    qed
  qed
qed

lemma put_other:
  assumes "crash_state (fst (raw_put py root fs cid data tag1 tag2)) fs fs'" and "cid' \<noteq> cid"
  shows "map_of fs' (data_path py root cid') = map_of fs (data_path py root cid')"
    and "map_of fs' (meta_path py root cid') = map_of fs (meta_path py root cid')"
proof -
  obtain steps r where raw_put: "raw_put py root fs cid data tag1 tag2 = (steps, r)" by (metis surj_pair)
  with assms(1) obtain pre rest where dr: "steps = pre @ rest" and sv: "survives pre fs fs'"
    by (auto simp: crash_state_def)
  have "\<forall>s \<in> set steps. data_path py root cid' \<notin> touches s \<and> meta_path py root cid' \<notin> touches s"
    using raw_put
  proof (rule put_split)
    assume "\<forall>s \<in> set steps. touches s \<subseteq> set (ancestors root)"
    then show ?thesis using ancestors_distinct by (metis subsetD)
  qed (use put_steps_touch(1,2) assms(2) in auto)
  then have "\<forall>s \<in> set pre. data_path py root cid' \<notin> touches s"
    "\<forall>s \<in> set pre. meta_path py root cid' \<notin> touches s" using dr by auto
  with survives_untouched [OF sv]
  show "map_of fs' (data_path py root cid') = map_of fs (data_path py root cid')"
    and "map_of fs' (meta_path py root cid') = map_of fs (meta_path py root cid')" by simp_all
qed

section \<open>Consistent stores\<close>

text \<open>
  The stores \<open>put\<close> builds: a metadata file is accompanied by the data it describes, a data file holds
  bytes that match its CID, and neither is a link.
\<close>

definition entry_ok :: "pylib \<Rightarrow> path \<Rightarrow> fs \<Rightarrow> string \<Rightarrow> bool" where
  "entry_ok py root fs cid \<longleftrightarrow>
     (case map_of fs (data_path py root cid) of
        None \<Rightarrow> map_of fs (meta_path py root cid) = None
      | Some (File data) \<Rightarrow>
          verify_cid (sha256 py) cid data = Inr () \<and> data \<noteq> [] \<and> length data \<le> MAX_BLOCK \<and>
          (map_of fs (meta_path py root cid) = None \<or>
           map_of fs (meta_path py root cid) = Some (File (json_text py (block_meta py cid data))))
      | Some _ \<Rightarrow> False)"

definition consistent :: "pylib \<Rightarrow> path \<Rightarrow> fs \<Rightarrow> bool" where
  "consistent py root fs \<longleftrightarrow> (\<forall>cid. entry_ok py root fs cid)"

lemma consistent_empty: "consistent py root []"
  by (simp add: consistent_def entry_ok_def)

lemma entry_ok_cong:
  "map_of fs' (data_path py root cid) = map_of fs (data_path py root cid) \<Longrightarrow>
    map_of fs' (meta_path py root cid) = map_of fs (meta_path py root cid) \<Longrightarrow>
    entry_ok py root fs' cid = entry_ok py root fs cid"
  by (simp only: entry_ok_def)

lemma entry_ok_not_link: "entry_ok py root fs cid \<Longrightarrow> \<not> is_symlink fs (data_path py root cid)"
  by (auto simp: entry_ok_def is_symlink_def split: option.splits node.splits)

lemma entry_ok_meta:
  "entry_ok py root fs cid \<Longrightarrow> \<not> exists_path fs (meta_path py root cid) \<longleftrightarrow>
    map_of fs (meta_path py root cid) = None"
  by (auto simp: entry_ok_def split: option.splits node.splits)

lemma consistent_crash:
  assumes "consistent py root fs" and "crash_state (fst (raw_put py root fs cid data tag1 tag2)) fs fs'"
  shows "consistent py root fs'"
  unfolding consistent_def
proof
  fix cid'
  have ok: "entry_ok py root fs cid'" for cid' using assms(1) by (simp add: consistent_def)
  show "entry_ok py root fs' cid'"
  proof (cases "cid' = cid")
    case False
    then show ?thesis using put_other [OF assms(2)] ok [of cid'] entry_ok_cong by blast
  next
    case True
    show ?thesis
      using put_crash_cases [OF assms(2) entry_ok_not_link [OF ok]]
    proof (elim disjE)
      assume "map_of fs' (data_path py root cid) = map_of fs (data_path py root cid) \<and>
        map_of fs' (meta_path py root cid) = map_of fs (meta_path py root cid)"
      then show ?thesis using True ok [of cid] entry_ok_cong [of fs' py root cid fs] by simp
    qed (use True entry_ok_meta [OF ok [of cid]] in \<open>auto simp: entry_ok_def\<close>)
  qed
qed

lemma crash_complete: "crash_state steps fs (run_steps steps fs)"
  using survives_all [of steps fs] unfolding crash_state_def by (metis append_Nil2)

text \<open>A finished \<open>put\<close> leaves both files in place.\<close>

lemma put_files:
  assumes "consistent py root fs" and "raw_put py root fs cid data tag1 tag2 = (steps, Inr ())"
    and "meta_readable py cid data"
  shows "map_of (run_steps steps fs) (data_path py root cid) = Some (File data) \<and>
    map_of (run_steps steps fs) (meta_path py root cid) =
      Some (File (json_text py (block_meta py cid data))) \<and>
    verify_cid (sha256 py) cid data = Inr () \<and> data \<noteq> [] \<and> length data \<le> MAX_BLOCK"
proof -
  let ?dp = "data_path py root cid" and ?mp = "meta_path py root cid"
  have ok: "entry_ok py root fs cid" using assms(1) by (simp add: consistent_def)
  from assms(2) show ?thesis
  proof (rule put_split)
    assume "steps = []" and "Inr () = Inr () \<Longrightarrow> verify_cid (sha256 py) cid data = Inr () \<and> data \<noteq> [] \<and>
      length data \<le> MAX_BLOCK \<and> raw_read py root fs cid MAX_BLOCK = Inr (Some data)"
    then have no_steps: "steps = []" and rd: "raw_read py root fs cid MAX_BLOCK = Inr (Some data)"
      and good: "verify_cid (sha256 py) cid data = Inr ()" "data \<noteq> []" "length data \<le> MAX_BLOCK"
      by simp_all
    have "map_of fs ?dp = Some (File data)" and "map_of fs ?mp \<noteq> None"
      using read_returns [OF rd] by simp_all
    with ok no_steps good show ?thesis by (simp add: entry_ok_def)
  next
    assume full: "steps = put_opening py root fs cid @ put_data py root fs cid data tag1 @
        put_meta py root cid data tag2"
      and good: "verify_cid (sha256 py) cid data = Inr ()" "data \<noteq> []" "length data \<le> MAX_BLOCK"
      and dp: "exists_path fs ?dp \<Longrightarrow> read_bytes fs ?dp = Inr data"
    have opened: "map_of (run_steps (put_opening py root fs cid) fs) ?dp = map_of fs ?dp"
      by (rule run_steps_untouched) (auto simp: put_opening_def)
    have "map_of (run_steps (put_data py root fs cid data tag1) (run_steps (put_opening py root fs cid) fs)) ?dp =
        Some (File data)"
      using dp opened ok
      by (auto simp: put_data_def publish_steps_def entry_ok_def split: option.splits node.splits)
    then show ?thesis
      using full good by (simp add: put_meta_def publish_steps_def)
  qed simp
qed

lemma put_succeeds:
  assumes "verify_cid (sha256 py) cid data = Inr ()" "data \<noteq> []" "length data \<le> MAX_BLOCK"
    and "meta_readable py cid data"
    and "map_of fs (data_path py root cid) = None \<and> map_of fs (meta_path py root cid) = None \<or>
      map_of fs (data_path py root cid) = Some (File data) \<and>
      (map_of fs (meta_path py root cid) = None \<or>
       map_of fs (meta_path py root cid) = Some (File (json_text py (block_meta py cid data))))"
    and "\<forall>p \<in> insert (shard_dir py root cid) (set (ancestors root)). can_mkdir fs p"
  shows "snd (raw_put py root fs cid data tag1 tag2) = Inr ()"
proof -
  have p: "raw_paths py root cid = Inr (data_path py root cid, meta_path py root cid)"
    using assms(1) by (auto simp: raw_paths_def verify_cid_ok)
  have anc: "list_all (can_mkdir fs) (ancestors root)" "can_mkdir fs (shard_dir py root cid)"
    using assms(6) by (auto simp: list_all_iff)
  show ?thesis
  proof (cases "map_of fs (meta_path py root cid)")
    case None
    then show ?thesis using assms(1-5) p anc by (auto simp: raw_put_def Let_def)
  next
    case (Some n)
    with assms(5) have "map_of fs (data_path py root cid) = Some (File data)"
      and "map_of fs (meta_path py root cid) = Some (File (json_text py (block_meta py cid data)))" by auto
    then show ?thesis using read_complete [OF _ _ assms(4,1,2,3)] assms(1-3) p by (simp add: raw_put_def)
  qed
qed

lemma can_mkdir_crash:
  assumes "crash_state (fst (raw_put py root fs cid data tag1 tag2)) fs fs'"
    and "p \<in> insert (shard_dir py root cid) (set (ancestors root))" and "can_mkdir fs p"
  shows "can_mkdir fs' p"
proof -
  obtain steps r where raw_put: "raw_put py root fs cid data tag1 tag2 = (steps, r)" by (metis surj_pair)
  with assms(1) obtain pre rest where dr: "steps = pre @ rest" and sv: "survives pre fs fs'"
    by (auto simp: crash_state_def)
  have only: "p \<notin> touches s \<or> s = Mkdir p" if s: "s \<in> set steps" for s
    using raw_put
  proof (rule put_split)
    assume "steps = put_opening py root fs cid @ put_data py root fs cid data tag1 @
      put_meta py root cid data tag2"
    with s assms(2) show ?thesis
      by (auto simp: put_opening_def put_data_def put_meta_def publish_steps_def split: if_splits)
  next
    fix e
    assume r: "r = Inl e" and "\<forall>s \<in> set steps. touches s \<subseteq> set (ancestors root)"
    from raw_put r s show ?thesis
      by (auto simp: raw_put_def Let_def split: if_splits sum.splits prod.splits)
  qed (use s in simp)
  have "map_of fs' p = map_of fs p \<or> map_of fs p = None \<and> map_of fs' p = Some Dir"
    using survives_mkdir [OF sv, of p] only dr by auto
  with assms(3) show ?thesis using query_cong(3) [of fs p fs'] by (auto simp: can_mkdir_def)
qed

text \<open>The random suffixes of the temporary names do not influence the outcome.\<close>

lemma put_outcome_tags: "snd (raw_put py root fs cid data tag1 tag2) = snd (raw_put py root fs cid data tag3 tag4)"
  by (auto simp: raw_put_def Let_def split: sum.splits)

section \<open>The interface its clients use\<close>

text \<open>
  What the replicator, the reader and the audit rely on: a store with a validity invariant in which
  only good data are returned, an addition that succeeds makes the data readable, and additions leave
  other entries alone. \<open>usable\<close> marks the data whose record the store can read back.
\<close>

locale block_store =
  fixes valid :: "'s \<Rightarrow> bool"
    and good :: "string \<Rightarrow> bytes \<Rightarrow> bool"
    and usable :: "string \<Rightarrow> bytes \<Rightarrow> bool"
    and get :: "'s \<Rightarrow> string \<Rightarrow> nat \<Rightarrow> bytes option res"
    and add :: "'s \<Rightarrow> string \<Rightarrow> bytes \<Rightarrow> 's \<times> unit res"
  assumes get_good: "get s cid n = Inr (Some data) \<Longrightarrow> good cid data \<and> length data \<le> n"
    and add_valid: "valid s \<Longrightarrow> valid (fst (add s cid data))"
    and add_get: "valid s \<Longrightarrow> usable cid data \<Longrightarrow> snd (add s cid data) = Inr () \<Longrightarrow> length data \<le> n \<Longrightarrow>
      get (fst (add s cid data)) cid n = Inr (Some data)"
    and add_other: "cid' \<noteq> cid \<Longrightarrow> get (fst (add s cid data)) cid' n = get s cid' n"
begin

text \<open>Adding blocks one after the other, stopping at the first refusal.\<close>

fun add_all :: "'s \<Rightarrow> (string \<times> bytes) list \<Rightarrow> 's \<times> unit res" where
  "add_all s [] = (s, Inr ())"
| "add_all s ((cid, data) # bs) =
     (case snd (add s cid data) of
        Inl e \<Rightarrow> (fst (add s cid data), Inl e)
      | Inr _ \<Rightarrow> add_all (fst (add s cid data)) bs)"

lemma add_all_valid: "valid s \<Longrightarrow> valid (fst (add_all s bs))"
  by (induction s bs rule: add_all.induct) (auto split: sum.splits intro: add_valid)

lemma add_all_other: "cid \<notin> fst ` set bs \<Longrightarrow> get (fst (add_all s bs)) cid n = get s cid n"
  by (induction s bs rule: add_all.induct) (auto split: sum.splits simp: add_other)

lemma add_all_get:
  "valid s \<Longrightarrow> snd (add_all s bs) = Inr () \<Longrightarrow> distinct (map fst bs) \<Longrightarrow> (cid, data) \<in> set bs \<Longrightarrow>
    usable cid data \<Longrightarrow> length data \<le> n \<Longrightarrow> get (fst (add_all s bs)) cid n = Inr (Some data)"
proof (induction s bs rule: add_all.induct)
  case (2 s c d bs)
  from "2.prems"(2) have added: "snd (add s c d) = Inr ()" by (auto split: sum.splits)
  show ?case
  proof (cases "(cid, data) = (c, d)")
    case True
    then have "cid \<notin> fst ` set bs" using "2.prems"(3) by auto
    then show ?thesis using True added "2.prems" by (simp add: add_all_other add_get)
  next
    case False
    then show ?thesis using "2.IH" [of "()"] added "2.prems" by (auto simp: add_valid)
  qed
qed simp

end

interpretation raw: block_store "consistent py root" "\<lambda>cid data. verify_cid (sha256 py) cid data = Inr ()"
    "meta_readable py" "\<lambda>fs cid n. raw_read py root fs cid n"
    "\<lambda>fs cid data. (raw_put_fs py root fs cid data tag1 tag2, snd (raw_put py root fs cid data tag1 tag2))"
  for py root tag1 tag2
proof (unfold_locales, goal_cases)
  case (1 s cid n data)
  then show ?case using read_sound [of py root s cid n data] by (simp add: verify_cid_ok)
next
  case (2 s cid data)
  then show ?case using consistent_crash [OF _ crash_complete] by (simp add: raw_put_fs_def)
next
  case (3 s cid data n)
  then have raw_put: "raw_put py root s cid data tag1 tag2 = (fst (raw_put py root s cid data tag1 tag2), Inr ())"
    by (metis prod.collapse snd_conv)
  show ?case
    using put_files [OF 3(1) raw_put 3(2)] 3(2,4) by (simp add: raw_put_fs_def read_complete)
next
  case (4 cid' cid s data n)
  show ?case
    using put_other [OF crash_complete 4] by (auto simp: raw_put_fs_def intro: read_cong)
qed

section \<open>Properties\<close>

text \<open>\<open>RawBlockStore.read\<close> returns only bytes whose SHA-256 is the digest inside the CID, never
  none and never more than the limit asked for, whatever is on the disk.\<close>

theorem raw_read_checked:
  assumes "raw_read py root fs cid max_bytes = Inr (Some data)"
  shows "sha256_digest cid = Inr (sha256 py data) \<and> 1 \<le> length data \<and> length data \<le> max_bytes"
  using assms by (rule read_sound)

text \<open>The abstract store: a map from CIDs to blocks.\<close>

definition stored :: "pylib \<Rightarrow> path \<Rightarrow> fs \<Rightarrow> string \<Rightarrow> bytes option" where
  "stored py root fs cid =
     (case raw_read py root fs cid MAX_BLOCK of Inr (Some data) \<Rightarrow> Some data | _ \<Rightarrow> None)"

lemma put_refused_reads_same:
  assumes "raw_put py root fs cid data tag1 tag2 = (steps, Inl e)"
  shows "raw_read py root (run_steps steps fs) cid' n = raw_read py root fs cid' n"
  using assms
proof (rule put_split)
  assume "\<forall>s \<in> set steps. touches s \<subseteq> set (ancestors root)"
  then have "\<forall>s \<in> set steps. data_path py root cid' \<notin> touches s" "\<forall>s \<in> set steps. meta_path py root cid' \<notin> touches s"
    using ancestors_distinct by blast+
  then show ?thesis by (intro read_cong run_steps_untouched)
qed simp_all

text \<open>In a consistent store, what \<open>cids\<close> lists can be read.\<close>

lemma listed_stored:
  assumes "consistent py root fs" and "raw_cids py root fs = Inr cids" and "cid \<in> set cids"
    and "\<And>data. meta_readable py cid data"
  shows "stored py root fs cid \<noteq> None"
proof -
  have "foldM (\<lambda>result meta. let cid = json_stem (last meta) in
          rbind (raw_paths py root cid) (\<lambda>(_, expected).
          if meta \<noteq> expected then Inl (RawBlockStoreError ''raw block metadata path differs'')
          else Inr (List.insert cid result))) result metas = Inr found \<Longrightarrow>
      cid \<in> set found \<Longrightarrow> cid \<in> set result \<or> meta_path py root cid \<in> set metas" for result metas found
  proof (induction metas arbitrary: result)
    case (Cons meta metas)
    from Cons.prems(1) obtain e where step: "raw_paths py root (json_stem (last meta)) = Inr (e, meta)"
      and more: "foldM (\<lambda>result meta. let cid = json_stem (last meta) in
          rbind (raw_paths py root cid) (\<lambda>(_, expected).
          if meta \<noteq> expected then Inl (RawBlockStoreError ''raw block metadata path differs'')
          else Inr (List.insert cid result))) (List.insert (json_stem (last meta)) result) metas = Inr found"
      by (auto simp: Let_def rbind_eq_Inr split: if_splits)
    from step have "meta = meta_path py root (json_stem (last meta))" by (auto simp: raw_paths_def rbind_eq_Inr)
    then show ?case using Cons.IH [OF more Cons.prems(2)] by auto
  qed simp
  then have "meta_path py root cid \<in> fst ` set fs"
    using assms(2,3) by (fastforce simp: raw_cids_def glob_json_def split: if_splits)
  then have "map_of fs (meta_path py root cid) \<noteq> None" by (simp add: map_of_eq_None_iff)
  moreover have ok: "entry_ok py root fs cid" using assms(1) by (simp add: consistent_def)
  ultimately obtain data where "map_of fs (data_path py root cid) = Some (File data)"
    "verify_cid (sha256 py) cid data = Inr ()" "data \<noteq> []" "length data \<le> MAX_BLOCK"
    "map_of fs (meta_path py root cid) = Some (File (json_text py (block_meta py cid data)))"
    unfolding entry_ok_def by (cases "map_of fs (data_path py root cid)") (auto split: node.splits)
  then show ?thesis using read_complete assms(4) by (simp add: stored_def)
qed

text \<open>C9: \<open>put\<close> and \<open>read\<close> refine a map from CIDs to blocks: a \<open>put\<close> that returns changes the map at its CID,
  to a block that matches it, and nowhere else; a \<open>put\<close> that raises changes nothing. In particular
  \<open>read\<close> gives back what was \<open>put\<close>.\<close>

theorem raw_put_refines_map:
  assumes "consistent py root fs" and "meta_readable py cid data"
  shows "consistent py root (raw_put_fs py root fs cid data tag1 tag2) \<and>
    (case snd (raw_put py root fs cid data tag1 tag2) of
       Inr _ \<Rightarrow> verify_cid (sha256 py) cid data = Inr () \<and>
         stored py root (raw_put_fs py root fs cid data tag1 tag2) = (stored py root fs)(cid \<mapsto> data)
     | Inl _ \<Rightarrow> stored py root (raw_put_fs py root fs cid data tag1 tag2) = stored py root fs)"
proof -
  obtain steps r where put: "raw_put py root fs cid data tag1 tag2 = (steps, r)" by (metis surj_pair)
  have "consistent py root (raw_put_fs py root fs cid data tag1 tag2)" using raw.add_valid assms(1) by simp
  moreover have "stored py root (raw_put_fs py root fs cid data tag1 tag2) = stored py root fs" if "r = Inl e" for e
    using put_refused_reads_same put that by (fastforce simp: stored_def raw_put_fs_def)
  moreover have "verify_cid (sha256 py) cid data = Inr () \<and>
      stored py root (raw_put_fs py root fs cid data tag1 tag2) = (stored py root fs)(cid \<mapsto> data)" if "r = Inr ()"
  proof
    have good: "verify_cid (sha256 py) cid data = Inr ()" "length data \<le> MAX_BLOCK"
      using put_files [OF assms(1) put [unfolded that] assms(2)] by simp_all
    show "verify_cid (sha256 py) cid data = Inr ()" by (rule good(1))
    show "stored py root (raw_put_fs py root fs cid data tag1 tag2) = (stored py root fs)(cid \<mapsto> data)"
      using raw.add_get [of py root fs cid data tag1 tag2 MAX_BLOCK] raw.add_other [of _ cid py root fs data tag1 tag2 MAX_BLOCK]
        assms put that good(2) by (auto simp: stored_def fun_eq_iff)
  qed
  ultimately show ?thesis using put by (cases r) auto
qed

text \<open>What a crash does to the readable blocks.\<close>

lemma put_readable:
  assumes "consistent py root fs"
    and "crash_state (fst (raw_put py root fs cid data tag1 tag2)) fs fs'"
  shows "raw_read py root fs cid' n = Inr (Some d) \<Longrightarrow> raw_read py root fs' cid' n = Inr (Some d)"
    and "raw_read py root fs' cid n = Inr (Some d) \<Longrightarrow> d = data \<or> raw_read py root fs cid n = Inr (Some d)"
proof -
  have ok: "entry_ok py root fs cid" using assms(1) by (simp add: consistent_def)
  have same: "raw_read py root fs' cid n = raw_read py root fs cid n"
    if "map_of fs' (data_path py root cid) = map_of fs (data_path py root cid) \<and>
      map_of fs' (meta_path py root cid) = map_of fs (meta_path py root cid)"
    using that read_cong [of fs' py root cid fs n] by simp
  note crash = put_crash_cases [OF assms(2) entry_ok_not_link [OF ok]]
  show "raw_read py root fs' cid' n = Inr (Some d)" if rd: "raw_read py root fs cid' n = Inr (Some d)"
  proof (cases "cid' = cid")
    case True
    then show ?thesis using crash same rd read_returns(2) [OF rd] entry_ok_meta [OF ok] by auto
  next
    case False
    then show ?thesis using put_other [OF assms(2)] rd read_cong [of fs' py root cid' fs n] by simp
  qed
  show "d = data \<or> raw_read py root fs cid n = Inr (Some d)" if rd: "raw_read py root fs' cid n = Inr (Some d)"
    using crash same rd read_returns(1) [OF rd] by auto
qed

text \<open>C2: a power failure at any moment of \<open>put\<close> leaves a consistent store: every other CID reads as
  before, a block of this CID that could be read before still reads the same, and what this CID reads as is
  the block read before or the new one; otherwise it is absent or refused, as it was not readable before.\<close>

theorem raw_put_crash_safe:
  assumes "consistent py root fs"
    and "crash_state (fst (raw_put py root fs cid data tag1 tag2)) fs fs'"
  shows "consistent py root fs' \<and>
    (\<forall>cid' n. cid' \<noteq> cid \<longrightarrow> raw_read py root fs' cid' n = raw_read py root fs cid' n) \<and>
    (\<forall>n d. raw_read py root fs cid n = Inr (Some d) \<longrightarrow> raw_read py root fs' cid n = Inr (Some d)) \<and>
    (\<forall>n d. raw_read py root fs' cid n = Inr (Some d) \<longrightarrow> d = data \<or> raw_read py root fs cid n = Inr (Some d))"
proof (intro conjI allI impI)
  show "consistent py root fs'" using assms by (rule consistent_crash)
  fix cid' n
  assume "cid' \<noteq> cid"
  then show "raw_read py root fs' cid' n = raw_read py root fs cid' n"
    using put_other [OF assms(2)] by (intro read_cong) auto
qed (use put_readable [OF assms] in blast)+

text \<open>C11: after a power failure at any moment of a \<open>put\<close> that would have succeeded, running \<open>put\<close>
  again succeeds and the block can be read.\<close>

theorem raw_put_retry_completes:
  assumes "consistent py root fs" and "snd (raw_put py root fs cid data tag1 tag2) = Inr ()"
    and "meta_readable py cid data"
    and "crash_state (fst (raw_put py root fs cid data tag1 tag2)) fs fs'" and "length data \<le> max_bytes"
  shows "snd (raw_put py root fs' cid data tag3 tag4) = Inr () \<and>
    raw_read py root (raw_put_fs py root fs' cid data tag3 tag4) cid max_bytes = Inr (Some data)"
proof -
  obtain steps where raw_put: "raw_put py root fs cid data tag1 tag2 = (steps, Inr ())"
    using assms(2) by (metis prod.collapse)
  note files = put_files [OF assms(1) raw_put assms(3)]
  have ok: "entry_ok py root fs' cid" and ok0: "entry_ok py root fs cid"
    using consistent_crash [OF assms(1,4)] assms(1) by (simp_all add: consistent_def)
  have again: "snd (raw_put py root fs' cid data tag3 tag4) = Inr ()"
    using raw_put
  proof (rule put_split)
    assume "steps = []" "Inr () = Inr () \<Longrightarrow> verify_cid (sha256 py) cid data = Inr () \<and> data \<noteq> [] \<and>
      length data \<le> MAX_BLOCK \<and> raw_read py root fs cid MAX_BLOCK = Inr (Some data)"
    then have "fs' = fs" using assms(4) raw_put by simp
    then show ?thesis using files assms(2) by (metis raw_put snd_conv put_outcome_tags)
  next
    assume nomp: "\<not> exists_path fs (meta_path py root cid)"
      and dp: "exists_path fs (data_path py root cid) \<Longrightarrow> read_bytes fs (data_path py root cid) = Inr data"
      and mk: "\<forall>p \<in> insert (shard_dir py root cid) (set (ancestors root)). can_mkdir fs p"
    have "map_of fs (data_path py root cid) = None \<and> map_of fs (meta_path py root cid) = None \<or>
        map_of fs (data_path py root cid) = Some (File data) \<and> map_of fs (meta_path py root cid) = None"
      using ok0 dp nomp by (auto simp: entry_ok_def split: option.splits node.splits)
    moreover have "can_mkdir fs' p" if "p \<in> insert (shard_dir py root cid) (set (ancestors root))" for p
      using can_mkdir_crash [OF assms(4) that] mk that by blast
    ultimately show ?thesis
      using files put_crash_cases [OF assms(4) entry_ok_not_link [OF ok0]] assms(3)
      by (intro put_succeeds) auto
  qed simp
  then show ?thesis
    using raw.add_get [of py root fs' cid data tag3 tag4, OF consistent_crash [OF assms(1,4)] assms(3) _ assms(5)]
    by simp
qed

section \<open>A concrete store\<close>

definition sample_py :: pylib where
  "sample_py = \<lparr>sha256 = sample_sha,
     json_loads = (\<lambda>_. Inr (JDict [(''schema'', JInt 1), (''cid'', JStr sample_cid), (''bytes'', JInt 2),
       (''sha256'', JStr (hex (replicate 32 7)))])),
     json_dumps = (\<lambda>_. [123, 125])\<rparr>"

lemma sample_facts:
  "meta_readable sample_py sample_cid [1, 2]"
  "snd (raw_put sample_py [''raw''] [] sample_cid [1, 2] ''a'' ''b'') = Inr ()"
  by code_simp+

definition sample_disk :: fs where
  "sample_disk = raw_put_fs sample_py [''raw''] [] sample_cid [1, 2] ''a'' ''b''"

theorem raw_put_refines_map_witness:
  "stored sample_py [''raw''] sample_disk = (stored sample_py [''raw''] [])(sample_cid \<mapsto> [1, 2])"
  using raw_put_refines_map [OF consistent_empty sample_facts(1), of "[''raw'']" "''a''" "''b''"] sample_facts(2)
  by (simp add: sample_disk_def)

theorem raw_read_checked_witness:
  "sha256_digest sample_cid = Inr (replicate 32 7) \<and> (1 :: nat) \<le> 2 \<and> (2 :: nat) \<le> 10"
proof -
  have "raw_read sample_py [''raw''] sample_disk sample_cid 10 = Inr (Some [1, 2])" by code_simp
  from raw_read_checked [OF this] show ?thesis by (simp add: sample_py_def sample_sha_def)
qed

text \<open>The disk if power fails after six of the twelve steps.\<close>

definition sample_crash :: fs where
  "sample_crash = run_steps (take 6 (fst (raw_put sample_py [''raw''] [] sample_cid [1, 2] ''a'' ''b''))) []"

lemma sample_crash_state:
  "crash_state (fst (raw_put sample_py [''raw''] [] sample_cid [1, 2] ''a'' ''b'')) [] sample_crash"
  unfolding sample_crash_def
  using crash_prefix [of "take 6 _" "drop 6 _"] by (metis append_take_drop_id)

theorem raw_put_crash_safe_witness:
  "consistent sample_py [''raw''] sample_crash \<and>
   raw_read sample_py [''raw''] sample_crash sample_cid 10 = Inl (RawBlockStoreError ''raw block data or metadata missing'')"
proof
  show "consistent sample_py [''raw''] sample_crash"
    using raw_put_crash_safe [OF consistent_empty sample_crash_state] by blast
  show "raw_read sample_py [''raw''] sample_crash sample_cid 10 =
      Inl (RawBlockStoreError ''raw block data or metadata missing'')" by code_simp
qed

theorem raw_put_retry_completes_witness:
  "snd (raw_put sample_py [''raw''] sample_crash sample_cid [1, 2] ''c'' ''d'') = Inr () \<and>
   raw_read sample_py [''raw''] (raw_put_fs sample_py [''raw''] sample_crash sample_cid [1, 2] ''c'' ''d'')
     sample_cid 10 = Inr (Some [1, 2])"
  by (rule raw_put_retry_completes [OF consistent_empty sample_facts(2,1) sample_crash_state]) simp

end
