(* ===== verification/Row_Selection.thy ===== *)
theory Row_Selection
  imports Json_Files
begin

text \<open>
  The inventory as the transfer tools read it: a file of JSON lines, one row per block. Holds the
  line splitting, the row parser the tools share, and the two functions \<open>selected_rows\<close>
  (\<open>deploy/export_lake_car_from_kubo.py\<close>, \<open>deploy/ship_lake_car.py\<close>) that choose the contiguous
  range of rows for one CAR, with a specification both are shown to meet.
\<close>

section \<open>Lines\<close>

text \<open>\<open>readline\<close>: up to and including the next newline.\<close>

fun read_line :: "bytes \<Rightarrow> bytes" where
  "read_line [] = []"
| "read_line (b # bs) = (if b = 10 then [b] else b # read_line bs)"

lemma read_line_nonempty [simp]: "read_line bs = [] \<longleftrightarrow> bs = []"
  by (cases bs) auto

lemma length_read_line: "length (read_line bs) \<le> length bs"
  by (induction bs) auto

lemma read_line_prefix: "read_line bs @ drop (length (read_line bs)) bs = bs"
  by (induction bs) auto

text \<open>Iterating over a file opened in binary mode.\<close>

function file_lines :: "bytes \<Rightarrow> bytes list" where
  "file_lines bs =
     (if bs = [] then [] else read_line bs # file_lines (drop (length (read_line bs)) bs))"
  by pat_completeness auto
termination
  by (relation "measure length") (auto simp: length_greater_0_conv)

declare file_lines.simps [simp del]

lemma file_lines_Nil [simp]: "file_lines [] = []"
  by (simp add: file_lines.simps)

lemma concat_file_lines: "concat (file_lines bs) = bs"
proof (induction bs rule: file_lines.induct)
  case (1 bs)
  then show ?case by (subst file_lines.simps) (simp add: read_line_prefix)
qed

lemma file_lines_Cons:
  "file_lines bs = l # ls \<Longrightarrow> l = read_line bs \<and> ls = file_lines (drop (length l) bs)"
  by (subst (asm) file_lines.simps) (auto split: if_splits)

text \<open>Reading a line at the offset where line \<open>i\<close> starts gives line \<open>i\<close>.\<close>

definition line_offset :: "bytes \<Rightarrow> nat \<Rightarrow> nat" where
  "line_offset bs i = length (concat (take i (file_lines bs)))"

lemma read_line_at_offset:
  "i < length (file_lines bs) \<Longrightarrow>
    drop (line_offset bs i) bs \<noteq> [] \<and> read_line (drop (line_offset bs i) bs) = file_lines bs ! i \<and>
    file_lines (drop (line_offset bs i) bs) = drop i (file_lines bs)"
proof (induction i arbitrary: bs)
  case 0
  then show ?case by (cases "bs = []") (auto simp: line_offset_def file_lines.simps [of bs])
next
  case (Suc i)
  then obtain l ls where l: "file_lines bs = l # ls" by (cases "file_lines bs") auto
  then have rest: "ls = file_lines (drop (length l) bs)" by (rule file_lines_Cons [THEN conjunct2])
  with Suc.prems l have "i < length (file_lines (drop (length l) bs))" by simp
  from Suc.IH [OF this] show ?case
    using l rest by (simp add: line_offset_def add.commute)
qed

section \<open>Rows\<close>

text \<open>\<open>row = json.loads(line); cid, size = row["cid"], row["bytes"]\<close>, whose \<open>ValueError\<close>, \<open>KeyError\<close> and
  \<open>TypeError\<close> become the tool's own error.\<close>

definition row_values :: "pylib \<Rightarrow> bytes \<Rightarrow> (json \<times> json) res" where
  "row_values py line =
     rbind (json_loads py line) (\<lambda>row.
     rbind (jsub row ''cid'') (\<lambda>cid.
     rbind (jsub row ''bytes'') (\<lambda>sz. Inr (cid, sz))))"

definition row_fields :: "pylib \<Rightarrow> exn \<Rightarrow> bytes \<Rightarrow> (json \<times> json) res" where
  "row_fields py err line =
     (case row_values py line of
        Inl ValueError \<Rightarrow> Inl err
      | Inl KeyError \<Rightarrow> Inl err
      | Inl TypeError \<Rightarrow> Inl err
      | r \<Rightarrow> r)"

lemma row_fields_Inr [res_simps]: "row_fields py err line = Inr r \<longleftrightarrow> row_values py line = Inr r"
  by (cases "row_values py line") (simp_all add: row_fields_def split: exn.split)

text \<open>The row a line stands for, when it names a CID and an integer size.\<close>

definition parsed_row :: "pylib \<Rightarrow> bytes \<Rightarrow> (string \<times> int) option" where
  "parsed_row py line =
     (case row_values py line of
        Inr (JStr cid, JInt sz) \<Rightarrow> if match_cid cid then Some (cid, sz) else None
      | _ \<Rightarrow> None)"

section \<open>The longest range that fits\<close>

definition MAX_CAR_BLOCK :: int where "MAX_CAR_BLOCK = 8000000"

text \<open>
  What both selectors compute: the longest initial segment of the rows in which no row is refused
  (\<open>skip\<close>), oversized or would take the sum of the sizes, with 1024 bytes of framing per row, over
  the byte budget.
\<close>

fun fitting :: "(string \<Rightarrow> bool) \<Rightarrow> int \<Rightarrow> int \<Rightarrow> nat \<Rightarrow> (string \<times> int) list \<Rightarrow> (string \<times> int) list" where
  "fitting skip max_bytes acc n [] = []"
| "fitting skip max_bytes acc n ((cid, sz) # rows) =
     (if skip cid \<or> sz < 1 \<or> MAX_CAR_BLOCK < sz \<or> max_bytes < acc + sz + 1024 * (int n + 1)
      then []
      else (cid, sz) # fitting skip max_bytes (acc + sz) (n + 1) rows)"

lemma fitting_prefix: "\<exists>rest. rows = fitting skip max_bytes acc n rows @ rest"
  by (induction skip max_bytes acc n rows rule: fitting.induct) auto

lemma fitting_bounds:
  "fitting skip max_bytes acc n rows \<noteq> [] \<Longrightarrow>
    acc + (\<Sum>r\<leftarrow>fitting skip max_bytes acc n rows. snd r) +
      1024 * (int n + int (length (fitting skip max_bytes acc n rows))) \<le> max_bytes"
proof (induction skip max_bytes acc n rows rule: fitting.induct)
  case (2 skip max_bytes acc n cid sz rows)
  show ?case
  proof (cases "fitting skip max_bytes (acc + sz) (n + 1) rows = []")
    case True
    then show ?thesis using "2.prems" by (auto split: if_splits)
  next
    case False
    then show ?thesis using "2.prems" "2.IH" by (auto simp: algebra_simps split: if_splits)
  qed
qed simp

lemma fitting_rows:
  "r \<in> set (fitting skip max_bytes acc n rows) \<Longrightarrow>
    r \<in> set rows \<and> \<not> skip (fst r) \<and> 1 \<le> snd r \<and> snd r \<le> MAX_CAR_BLOCK"
  by (induction skip max_bytes acc n rows rule: fitting.induct) (auto split: if_splits)

lemma fitting_take:
  "fitting skip max_bytes acc n (take (length (fitting skip max_bytes acc n rows)) rows) =
     fitting skip max_bytes acc n rows"
  by (induction skip max_bytes acc n rows rule: fitting.induct) auto

section \<open>The exporter's selection\<close>

record scan =
  sc_rows :: "(string \<times> int) list"
  sc_count :: nat
  sc_total :: int

definition export_scan ::
    "pylib \<Rightarrow> nat \<Rightarrow> nat \<Rightarrow> int \<Rightarrow> scan \<Rightarrow> bytes \<Rightarrow> scan res" where
  "export_scan py start max_blocks max_bytes st line =
     rbind (if start \<le> sc_count st \<and> sc_count st < start + max_blocks then
         rbind (row_fields py (ExportError ''invalid inventory row'') line) (\<lambda>(cid, sz).
         case (as_str cid, as_int sz) of
           (Some cid, Some sz) \<Rightarrow>
             if \<not> match_cid cid then Inl (ExportError ''invalid inventory CID or size'')
             else if MAX_CAR_BLOCK < sz \<or> sz < 1 \<or>
                max_bytes < sc_total st + sz + 1024 * (int (length (sc_rows st)) + 1)
             then if sc_rows st = [] then Inl (ExportError ''first block exceeds CAR bounds'')
                  else Inr st
             else if length (sc_rows st) = sc_count st - start
             then Inr (st\<lparr>sc_rows := sc_rows st @ [(cid, sz)], sc_total := sc_total st + sz\<rparr>)
             else Inr st
         | _ \<Rightarrow> Inl (ExportError ''invalid inventory CID or size''))
       else Inr st) (\<lambda>st. Inr (st\<lparr>sc_count := sc_count st + 1\<rparr>))"

definition export_selected_rows ::
    "pylib \<Rightarrow> bytes \<Rightarrow> string \<Rightarrow> nat \<Rightarrow> nat \<Rightarrow> nat \<Rightarrow> int \<Rightarrow> (string \<times> int) list res" where
  "export_selected_rows py content expected_sha expected_count start max_blocks max_bytes =
     rbind (foldM (export_scan py start max_blocks max_bytes)
         \<lparr>sc_rows = [], sc_count = 0, sc_total = 0\<rparr> (file_lines content)) (\<lambda>st.
     if hex (sha256 py content) \<noteq> expected_sha \<or> sc_count st \<noteq> expected_count
     then Inl (ExportError ''inventory identity differs from dated snapshot'')
     else if sc_rows st = [] then Inl (ExportError ''empty inventory range'')
     else Inr (sc_rows st))"

section \<open>The shipper's selection\<close>

text \<open>Its result: the rows, or the description of a first row that needs another route.\<close>

datatype skip_reason = Verified_Raw | Oversized

record skipped_row =
  sk_row :: nat
  sk_cid :: string
  sk_bytes :: int
  sk_reason :: skip_reason

definition ship_scan ::
    "pylib \<Rightarrow> string list \<Rightarrow> nat \<Rightarrow> nat \<Rightarrow> int \<Rightarrow> scan \<Rightarrow> bytes \<Rightarrow> scan res" where
  "ship_scan py raw_cids start max_blocks max_bytes st line =
     rbind (if start \<le> sc_count st \<and> sc_count st < start + max_blocks \<and> sc_total st < max_bytes then
         rbind (row_fields py (ShipError ''invalid inventory row'') line) (\<lambda>(cid, sz).
         case (as_str cid, as_int sz) of
           (Some cid, Some sz) \<Rightarrow>
             if \<not> match_cid cid \<or> sz < 1 then Inl (ShipError ''invalid inventory CID or size'')
             else if cid \<in> set raw_cids then Inr st
             else if MAX_CAR_BLOCK < sz \<or>
                max_bytes < sc_total st + sz + 1024 * (int (length (sc_rows st)) + 1)
             then Inr st
             else if length (sc_rows st) = sc_count st - start
             then Inr (st\<lparr>sc_rows := sc_rows st @ [(cid, sz)], sc_total := sc_total st + sz\<rparr>)
             else Inr st
         | _ \<Rightarrow> Inl (ShipError ''invalid inventory CID or size''))
       else Inr st) (\<lambda>st. Inr (st\<lparr>sc_count := sc_count st + 1\<rparr>))"

text \<open>The second pass looks at the row at \<open>start\<close> again, outside the first pass's error handling.
  The comparison \<open>row["bytes"] > MAX_CAR_BLOCK\<close> is on the integer the first pass has checked.\<close>

definition ship_skip :: "pylib \<Rightarrow> string list \<Rightarrow> nat \<Rightarrow> bytes list \<Rightarrow> skipped_row res" where
  "ship_skip py raw_cids start ls =
     (if start < length ls then
        rbind (row_values py (ls ! start)) (\<lambda>(cid, sz).
        case (as_str cid, as_int sz) of
          (Some cid, Some sz) \<Rightarrow>
            if cid \<in> set raw_cids
            then Inr \<lparr>sk_row = start, sk_cid = cid, sk_bytes = sz, sk_reason = Verified_Raw\<rparr>
            else if MAX_CAR_BLOCK < sz
            then Inr \<lparr>sk_row = start, sk_cid = cid, sk_bytes = sz, sk_reason = Oversized\<rparr>
            else Inl (ShipError ''single block exceeds CAR byte budget'')
        | _ \<Rightarrow> Inl TypeError)
      else Inl (ShipError ''inventory row disappeared''))"

definition ship_selected_rows ::
    "pylib \<Rightarrow> bytes \<Rightarrow> string \<Rightarrow> nat \<Rightarrow> nat \<Rightarrow> nat \<Rightarrow> int \<Rightarrow> string list \<Rightarrow>
       ((string \<times> int) list \<times> skipped_row option) res" where
  "ship_selected_rows py content expected_sha expected_count start max_blocks max_bytes raw_cids =
     rbind (foldM (ship_scan py raw_cids start max_blocks max_bytes)
         \<lparr>sc_rows = [], sc_count = 0, sc_total = 0\<rparr> (file_lines content)) (\<lambda>st.
     if hex (sha256 py content) \<noteq> expected_sha \<or> sc_count st \<noteq> expected_count
     then Inl (ShipError ''inventory identity differs from dated snapshot'')
     else if sc_count st \<le> start then Inr ([], None)
     else if sc_rows st \<noteq> [] then Inr (sc_rows st, None)
     else rbind (ship_skip py raw_cids start (file_lines content)) (\<lambda>sk. Inr ([], Some sk)))"

section \<open>Both selections are the longest fitting range\<close>

text \<open>What one successful step inside the window does, for either tool.\<close>

definition scan_effect ::
    "(string \<Rightarrow> bool) \<Rightarrow> pylib \<Rightarrow> nat \<Rightarrow> int \<Rightarrow> scan \<Rightarrow> bytes \<Rightarrow> scan \<Rightarrow> bool" where
  "scan_effect skip py start max_bytes st line st' \<longleftrightarrow>
     (\<exists>cid sz. parsed_row py line = Some (cid, sz) \<and>
        st' = (if \<not> skip cid \<and> 1 \<le> sz \<and> sz \<le> MAX_CAR_BLOCK \<and>
             sc_total st + sz + 1024 * (int (length (sc_rows st)) + 1) \<le> max_bytes \<and>
             length (sc_rows st) = sc_count st - start
           then \<lparr>sc_rows = sc_rows st @ [(cid, sz)], sc_count = sc_count st + 1,
                 sc_total = sc_total st + sz\<rparr>
           else st\<lparr>sc_count := sc_count st + 1\<rparr>))"

lemma parsed_row_Some:
  "parsed_row py line = Some (cid, sz) \<longleftrightarrow> row_values py line = Inr (JStr cid, JInt sz) \<and> match_cid cid"
  by (auto simp: parsed_row_def split: sum.splits json.splits if_splits)

lemma export_scan_effect:
  assumes "export_scan py start max_blocks max_bytes st line = Inr st'"
    and "start \<le> sc_count st" "sc_count st < start + max_blocks"
  shows "scan_effect (\<lambda>_. False) py start max_bytes st line st'"
proof -
  from assms obtain cid sz where "row_values py line = Inr (JStr cid, JInt sz)" and c: "match_cid cid"
    and st': "st' = (if MAX_CAR_BLOCK < sz \<or> sz < 1 \<or>
        max_bytes < sc_total st + sz + 1024 * (int (length (sc_rows st)) + 1) then st
      else if length (sc_rows st) = sc_count st - start
      then st\<lparr>sc_rows := sc_rows st @ [(cid, sz)], sc_total := sc_total st + sz\<rparr> else st)
      \<lparr>sc_count := sc_count st + 1\<rparr>"
    by (auto simp: export_scan_def res_simps split: option.splits if_splits)
  then have "parsed_row py line = Some (cid, sz)" by (simp add: parsed_row_Some)
  then show ?thesis unfolding scan_effect_def st' by (intro exI [of _ cid] exI [of _ sz]) auto
qed

lemma ship_scan_effect:
  assumes "ship_scan py raw_cids start max_blocks max_bytes st line = Inr st'"
    and "start \<le> sc_count st" "sc_count st < start + max_blocks" "sc_total st < max_bytes"
  shows "scan_effect (\<lambda>cid. cid \<in> set raw_cids) py start max_bytes st line st'"
proof -
  from assms obtain cid sz where "row_values py line = Inr (JStr cid, JInt sz)" and c: "match_cid cid" "1 \<le> sz"
    and st': "st' = (if cid \<in> set raw_cids \<or> MAX_CAR_BLOCK < sz \<or>
        max_bytes < sc_total st + sz + 1024 * (int (length (sc_rows st)) + 1) then st
      else if length (sc_rows st) = sc_count st - start
      then st\<lparr>sc_rows := sc_rows st @ [(cid, sz)], sc_total := sc_total st + sz\<rparr> else st)
      \<lparr>sc_count := sc_count st + 1\<rparr>"
    by (auto simp: ship_scan_def res_simps split: option.splits if_splits)
  then have "parsed_row py line = Some (cid, sz)" by (simp add: parsed_row_Some)
  then show ?thesis unfolding scan_effect_def st' using c(2) by (intro exI [of _ cid] exI [of _ sz]) auto
qed

lemma scan_window:
  assumes step: "\<And>st line st'. F st line = Inr st' \<Longrightarrow> start \<le> sc_count st \<Longrightarrow>
      sc_count st < start + max_blocks \<Longrightarrow> sc_total st < max_bytes \<Longrightarrow>
      scan_effect skip py start max_bytes st line st'"
    and "foldM F st ws = Inr st'" "start \<le> sc_count st" "sc_count st + length ws \<le> start + max_blocks"
    and "sc_total st < max_bytes" "length (sc_rows st) \<le> sc_count st - start"
  shows "sc_count st' = sc_count st + length ws \<and> (\<forall>w \<in> set ws. parsed_row py w \<noteq> None) \<and>
    sc_rows st' = sc_rows st @ (if length (sc_rows st) = sc_count st - start
      then fitting skip max_bytes (sc_total st) (length (sc_rows st)) (map (the \<circ> parsed_row py) ws)
      else [])"
  using assms(2-)
proof (induction ws arbitrary: st)
  case Nil
  then show ?case by simp
next
  case (Cons w ws)
  from Cons.prems(1) obtain st1 where one: "F st w = Inr st1" and rest: "foldM F st1 ws = Inr st'"
    by (auto simp: res_simps)
  from one Cons.prems have "scan_effect skip py start max_bytes st w st1" by (intro step) auto
  then obtain cid sz where row: "parsed_row py w = Some (cid, sz)" and
    st1: "st1 = (if \<not> skip cid \<and> 1 \<le> sz \<and> sz \<le> MAX_CAR_BLOCK \<and>
        sc_total st + sz + 1024 * (int (length (sc_rows st)) + 1) \<le> max_bytes \<and>
        length (sc_rows st) = sc_count st - start
      then \<lparr>sc_rows = sc_rows st @ [(cid, sz)], sc_count = sc_count st + 1, sc_total = sc_total st + sz\<rparr>
      else st\<lparr>sc_count := sc_count st + 1\<rparr>)" (is "_ = (if ?take then _ else _)")
    by (auto simp: scan_effect_def)
  have IH: "sc_count st' = sc_count st1 + length ws \<and> (\<forall>w \<in> set ws. parsed_row py w \<noteq> None) \<and>
    sc_rows st' = sc_rows st1 @ (if length (sc_rows st1) = sc_count st1 - start
      then fitting skip max_bytes (sc_total st1) (length (sc_rows st1)) (map (the \<circ> parsed_row py) ws)
      else [])"
    using Cons.prems by (intro Cons.IH [OF rest]) (auto simp: st1)
  show ?case
  proof (cases ?take)
    case True
    then show ?thesis using IH row st1 Cons.prems(2) by auto
  next
    case False
    then show ?thesis using IH row st1 Cons.prems(2,5) by auto
  qed
qed

lemma scan_outside:
  assumes idle: "\<And>st line. \<not> (start \<le> sc_count st \<and> sc_count st < start + max_blocks) \<Longrightarrow>
      F st line = Inr (st\<lparr>sc_count := sc_count st + 1\<rparr>)"
    and "sc_count st + length ws \<le> start \<or> start + max_blocks \<le> sc_count st"
  shows "foldM F st ws = Inr (st\<lparr>sc_count := sc_count st + length ws\<rparr>)"
  using assms(2)
proof (induction ws arbitrary: st)
  case Nil
  then show ?case by simp
next
  case (Cons w ws)
  have "F st w = Inr (st\<lparr>sc_count := sc_count st + 1\<rparr>)" using Cons.prems by (intro idle) auto
  then show ?case using Cons.prems Cons.IH [of "st\<lparr>sc_count := sc_count st + 1\<rparr>"] by force
qed

text \<open>The window of rows the selectors look at.\<close>

definition window :: "pylib \<Rightarrow> bytes \<Rightarrow> nat \<Rightarrow> nat \<Rightarrow> (string \<times> int) list" where
  "window py content start max_blocks =
     map (the \<circ> parsed_row py) (take max_blocks (drop start (file_lines content)))"

lemma scan_file:
  assumes step: "\<And>st line st'. F st line = Inr st' \<Longrightarrow> start \<le> sc_count st \<Longrightarrow>
      sc_count st < start + max_blocks \<Longrightarrow> sc_total st < max_bytes \<Longrightarrow>
      scan_effect skip py start max_bytes st line st'"
    and idle: "\<And>st line. \<not> (start \<le> sc_count st \<and> sc_count st < start + max_blocks) \<Longrightarrow>
      F st line = Inr (st\<lparr>sc_count := sc_count st + 1\<rparr>)"
    and scan: "foldM F \<lparr>sc_rows = [], sc_count = 0, sc_total = 0\<rparr> (file_lines content) = Inr st"
    and "0 < max_bytes"
  shows "sc_count st = length (file_lines content) \<and>
    sc_rows st = fitting skip max_bytes 0 0 (window py content start max_blocks)"
proof -
  let ?ls = "file_lines content" and ?st0 = "\<lparr>sc_rows = [], sc_count = 0, sc_total = 0\<rparr>"
  let ?a = "take start ?ls" and ?w = "take max_blocks (drop start ?ls)"
    and ?z = "drop max_blocks (drop start ?ls)"
  have ls: "?ls = ?a @ ?w @ ?z" by (simp only: append_take_drop_id)
  have a: "foldM F ?st0 ?a = Inr (?st0\<lparr>sc_count := length ?a\<rparr>)"
    using scan_outside [of start max_blocks F ?st0 ?a, OF idle] by simp
  show ?thesis
  proof (cases "start \<le> length ?ls")
    case False
    then show ?thesis using a scan by (simp add: window_def)
  next
    case True
    let ?st1 = "\<lparr>sc_rows = [], sc_count = start, sc_total = 0\<rparr>"
    from a have "foldM F ?st0 ?a = Inr ?st1" using True by simp
    with scan obtain st2 where w: "foldM F ?st1 ?w = Inr st2" and z: "foldM F st2 ?z = Inr st"
      by (subst (asm) ls) (auto simp: foldM_append res_simps)
    have st2: "sc_count st2 = start + length ?w \<and>
        sc_rows st2 = fitting skip max_bytes 0 0 (window py content start max_blocks)"
      using scan_window [of F start max_blocks max_bytes skip py ?st1 ?w st2, OF step w] assms(4)
      by (simp add: window_def)
    have "start + max_blocks \<le> sc_count st2 \<or> ?z = []" using st2 True by auto
    then have "st = st2\<lparr>sc_count := sc_count st2 + length ?z\<rparr>"
      using z scan_outside [of start max_blocks F st2 ?z, OF idle] by auto
    then show ?thesis using st2 True by simp
  qed
qed

lemma export_selected_rows_Inr:
  assumes "export_selected_rows py content expected_sha expected_count start max_blocks max_bytes = Inr rows"
    and "0 < max_bytes"
  shows "rows = fitting (\<lambda>_. False) max_bytes 0 0 (window py content start max_blocks) \<and> rows \<noteq> [] \<and>
    hex (sha256 py content) = expected_sha \<and> length (file_lines content) = expected_count"
proof -
  from assms(1) obtain st where
    scan: "foldM (export_scan py start max_blocks max_bytes) \<lparr>sc_rows = [], sc_count = 0, sc_total = 0\<rparr>
      (file_lines content) = Inr st"
    and rest: "rows = sc_rows st" "rows \<noteq> []" "hex (sha256 py content) = expected_sha"
      "sc_count st = expected_count"
    by (auto simp: export_selected_rows_def res_simps)
  have idle: "export_scan py start max_blocks max_bytes st line = Inr (st\<lparr>sc_count := sc_count st + 1\<rparr>)"
    if "\<not> (start \<le> sc_count st \<and> sc_count st < start + max_blocks)" for st line
    using that unfolding export_scan_def by (simp only: if_False rbind.simps)
  from scan_file [of _ start max_blocks max_bytes, OF export_scan_effect idle scan assms(2)] rest
  show ?thesis by simp
qed

lemma ship_selected_rows_Inr:
  assumes "ship_selected_rows py content expected_sha expected_count start max_blocks max_bytes raw_cids =
      Inr (rows, skipped)"
    and "0 < max_bytes"
  shows "rows = fitting (\<lambda>cid. cid \<in> set raw_cids) max_bytes 0 0 (window py content start max_blocks) \<and>
    hex (sha256 py content) = expected_sha \<and> length (file_lines content) = expected_count \<and>
    (skipped \<noteq> None \<longleftrightarrow> rows = [] \<and> start < expected_count)"
proof -
  from assms(1) obtain st where
    scan: "foldM (ship_scan py raw_cids start max_blocks max_bytes)
      \<lparr>sc_rows = [], sc_count = 0, sc_total = 0\<rparr> (file_lines content) = Inr st"
    and rest: "hex (sha256 py content) = expected_sha" "sc_count st = expected_count"
      "if sc_count st \<le> start then rows = [] \<and> skipped = None
       else rows = sc_rows st \<and> (skipped \<noteq> None \<longleftrightarrow> rows = [])"
    by (auto simp: ship_selected_rows_def res_simps split: if_splits)
  have idle: "ship_scan py raw_cids start max_blocks max_bytes st line = Inr (st\<lparr>sc_count := sc_count st + 1\<rparr>)"
    if "\<not> (start \<le> sc_count st \<and> sc_count st < start + max_blocks)" for st line
  proof -
    have "\<not> (start \<le> sc_count st \<and> sc_count st < start + max_blocks \<and> sc_total st < max_bytes)"
      using that by blast
    then show ?thesis unfolding ship_scan_def by (simp only: if_False rbind.simps)
  qed
  from scan_file [of _ start max_blocks max_bytes, OF ship_scan_effect idle scan assms(2)]
  have sel: "sc_count st = length (file_lines content)"
    "sc_rows st = fitting (\<lambda>cid. cid \<in> set raw_cids) max_bytes 0 0 (window py content start max_blocks)"
    by simp_all
  show ?thesis
  proof (cases "sc_count st \<le> start")
    case True
    then have "window py content start max_blocks = []" using sel(1) by (simp add: window_def)
    then show ?thesis using True rest sel(1) by simp
  next
    case False
    then show ?thesis using rest sel by auto
  qed
qed

section \<open>The exporter takes over the shipper's selection\<close>

lemma export_scan_take:
  assumes "parsed_row py line = Some (cid, sz)" "start \<le> sc_count st" "sc_count st < start + max_blocks"
    and "1 \<le> sz" "sz \<le> MAX_CAR_BLOCK" "length (sc_rows st) = sc_count st - start"
    and "sc_total st + sz + 1024 * (int (length (sc_rows st)) + 1) \<le> max_bytes"
  shows "export_scan py start max_blocks max_bytes st line =
    Inr \<lparr>sc_rows = sc_rows st @ [(cid, sz)], sc_count = sc_count st + 1, sc_total = sc_total st + sz\<rparr>"
proof -
  have "row_fields py (ExportError ''invalid inventory row'') line = Inr (JStr cid, JInt sz)" "match_cid cid"
    using assms(1) by (simp_all add: parsed_row_Some row_fields_Inr)
  with assms(2-) show ?thesis by (simp add: export_scan_def)
qed

lemma export_scan_window:
  "\<forall>w \<in> set ws. parsed_row py w \<noteq> None \<Longrightarrow>
    fitting (\<lambda>_. False) max_bytes (sc_total st) (length (sc_rows st)) (map (the \<circ> parsed_row py) ws) =
      map (the \<circ> parsed_row py) ws \<Longrightarrow>
    start \<le> sc_count st \<Longrightarrow> sc_count st + length ws \<le> start + max_blocks \<Longrightarrow>
    length (sc_rows st) = sc_count st - start \<Longrightarrow>
    \<exists>t. foldM (export_scan py start max_blocks max_bytes) st ws =
      Inr \<lparr>sc_rows = sc_rows st @ map (the \<circ> parsed_row py) ws, sc_count = sc_count st + length ws,
           sc_total = t\<rparr>"
proof (induction ws arbitrary: st)
  case Nil
  then show ?case by (intro exI [of _ "sc_total st"]) simp
next
  case (Cons w ws)
  then obtain cid sz where row: "parsed_row py w = Some (cid, sz)" by force
  with Cons.prems(2) have fit: "1 \<le> sz" "sz \<le> MAX_CAR_BLOCK"
    "sc_total st + sz + 1024 * (int (length (sc_rows st)) + 1) \<le> max_bytes"
    and rest: "fitting (\<lambda>_. False) max_bytes (sc_total st + sz) (length (sc_rows st) + 1)
      (map (the \<circ> parsed_row py) ws) = map (the \<circ> parsed_row py) ws"
    by (auto simp: o_def split: if_splits)
  let ?st = "\<lparr>sc_rows = sc_rows st @ [(cid, sz)], sc_count = sc_count st + 1, sc_total = sc_total st + sz\<rparr>"
  have "export_scan py start max_blocks max_bytes st w = Inr ?st"
    using Cons.prems(3-5) fit by (intro export_scan_take [OF row]) simp_all
  moreover have "\<exists>t. foldM (export_scan py start max_blocks max_bytes) ?st ws =
      Inr \<lparr>sc_rows = sc_rows ?st @ map (the \<circ> parsed_row py) ws, sc_count = sc_count ?st + length ws,
           sc_total = t\<rparr>"
  proof (rule Cons.IH)
    show "\<forall>w \<in> set ws. parsed_row py w \<noteq> None" using Cons.prems(1) by simp
  qed (use Cons.prems(3-5) rest in \<open>simp_all add: o_def\<close>)
  ultimately show ?case using row by auto
qed

lemma ship_rows_parse:
  assumes "foldM (ship_scan py raw_cids start max_blocks max_bytes)
      \<lparr>sc_rows = [], sc_count = 0, sc_total = 0\<rparr> (file_lines content) = Inr st" and "0 < max_bytes"
    and "w \<in> set (take max_blocks (drop start (file_lines content)))"
  shows "parsed_row py w \<noteq> None"
proof -
  let ?ls = "file_lines content" and ?F = "ship_scan py raw_cids start max_blocks max_bytes"
  let ?a = "take start ?ls" and ?w = "take max_blocks (drop start ?ls)"
    and ?z = "drop max_blocks (drop start ?ls)"
  have ls: "?ls = ?a @ ?w @ ?z" by (simp only: append_take_drop_id)
  have idle: "?F st line = Inr (st\<lparr>sc_count := sc_count st + 1\<rparr>)"
    if "\<not> (start \<le> sc_count st \<and> sc_count st < start + max_blocks)" for st line
  proof -
    have "\<not> (start \<le> sc_count st \<and> sc_count st < start + max_blocks \<and> sc_total st < max_bytes)"
      using that by blast
    then show ?thesis unfolding ship_scan_def by (simp only: if_False rbind.simps)
  qed
  have start: "start \<le> length ?ls" using assms(3) by (cases "start \<le> length ?ls") auto
  then have "foldM ?F \<lparr>sc_rows = [], sc_count = 0, sc_total = 0\<rparr> ?a =
      Inr \<lparr>sc_rows = [], sc_count = start, sc_total = 0\<rparr>"
    using scan_outside [of start max_blocks ?F "\<lparr>sc_rows = [], sc_count = 0, sc_total = 0\<rparr>" ?a, OF idle]
    by simp
  with assms(1) obtain st2 where "foldM ?F \<lparr>sc_rows = [], sc_count = start, sc_total = 0\<rparr> ?w = Inr st2"
    by (subst (asm) ls) (auto simp: foldM_append res_simps)
  from scan_window [of ?F start max_blocks max_bytes _ py _ ?w st2, OF ship_scan_effect this]
  show ?thesis using assms(2,3) by simp
qed

text \<open>The exporter run with the shipper's row count as block limit selects exactly the rows the
  shipper announced, so \<open>ship_once\<close>'s check of \<open>end-row\<close> and \<open>blocks\<close> can only fail on other data.\<close>

theorem exporter_selects_shipped_rows:
  assumes "ship_selected_rows py content expected_sha expected_count start max_blocks max_bytes raw_cids =
      Inr (rows, None)"
    and "rows \<noteq> []" and "0 < max_bytes"
  shows "export_selected_rows py content expected_sha expected_count start (length rows) max_bytes = Inr rows"
proof -
  let ?ls = "file_lines content" and ?n = "length rows"
  from ship_selected_rows_Inr [OF assms(1,3)] have
    rows: "rows = fitting (\<lambda>cid. cid \<in> set raw_cids) max_bytes 0 0 (window py content start max_blocks)"
    and id: "hex (sha256 py content) = expected_sha" "length ?ls = expected_count" by auto
  obtain tail where tail: "window py content start max_blocks = rows @ tail"
    using fitting_prefix [of "window py content start max_blocks" "\<lambda>cid. cid \<in> set raw_cids" max_bytes 0 0]
      rows by metis
  then have len: "?n \<le> length (take max_blocks (drop start ?ls))"
    by (metis tail window_def length_map length_append le_add1)
  let ?w = "take ?n (drop start ?ls)"
  have w: "map (the \<circ> parsed_row py) ?w = rows"
    using arg_cong [OF tail, of "take ?n"] len by (simp add: window_def flip: take_map)
  have parse: "\<forall>w \<in> set ?w. parsed_row py w \<noteq> None"
  proof
    fix w
    assume "w \<in> set ?w"
    moreover have "set ?w \<subseteq> set (take max_blocks (drop start ?ls))"
      using len by (intro set_take_subset_set_take) simp
    ultimately show "parsed_row py w \<noteq> None"
      using assms(1,3) ship_rows_parse
      by (fastforce simp: ship_selected_rows_def res_simps)
  qed
  have fit: "fitting (\<lambda>_. False) max_bytes 0 0 rows = rows"
  proof -
    have "fitting (\<lambda>_. False) max_bytes s n (fitting sk max_bytes s n rs) = fitting sk max_bytes s n rs"
      for sk s n rs by (induction sk max_bytes s n rs rule: fitting.induct) auto
    then show ?thesis unfolding rows .
  qed
  have idle: "export_scan py start ?n max_bytes st line = Inr (st\<lparr>sc_count := sc_count st + 1\<rparr>)"
    if "\<not> (start \<le> sc_count st \<and> sc_count st < start + ?n)" for st line
    using that unfolding export_scan_def by (simp only: if_False rbind.simps)
  have lw: "length ?w = ?n" using len by simp
  have ls: "?ls = take start ?ls @ ?w @ drop ?n (drop start ?ls)" by (simp only: append_take_drop_id)
  have "start \<le> length ?ls"
  proof (rule ccontr)
    assume "\<not> start \<le> length ?ls"
    then have "?w = []" by simp
    with lw assms(2) show False by simp
  qed
  then have "length (take start ?ls) = start" by simp
  then have pre: "foldM (export_scan py start ?n max_bytes) \<lparr>sc_rows = [], sc_count = 0, sc_total = 0\<rparr>
      (take start ?ls) = Inr \<lparr>sc_rows = [], sc_count = start, sc_total = 0\<rparr>"
    using scan_outside [of start ?n "export_scan py start ?n max_bytes" _ "take start ?ls", OF idle] by simp
  obtain t where mid: "foldM (export_scan py start ?n max_bytes)
      \<lparr>sc_rows = [], sc_count = start, sc_total = 0\<rparr> ?w =
      Inr \<lparr>sc_rows = rows, sc_count = start + ?n, sc_total = t\<rparr>"
    using export_scan_window [OF parse, of max_bytes "\<lparr>sc_rows = [], sc_count = start, sc_total = 0\<rparr>"
      start ?n] w fit lw by auto
  let ?z = "drop ?n (drop start ?ls)"
  have post: "foldM (export_scan py start ?n max_bytes)
      \<lparr>sc_rows = rows, sc_count = start + ?n, sc_total = t\<rparr> ?z =
      Inr \<lparr>sc_rows = rows, sc_count = start + ?n + length ?z, sc_total = t\<rparr>"
    using scan_outside [of start ?n "export_scan py start ?n max_bytes"
        "\<lparr>sc_rows = rows, sc_count = start + ?n, sc_total = t\<rparr>" ?z, OF idle] by simp
  have "start + ?n + length ?z = length ?ls" using \<open>start \<le> length ?ls\<close> lw by simp
  with post have "foldM (export_scan py start ?n max_bytes) \<lparr>sc_rows = [], sc_count = 0, sc_total = 0\<rparr>
      (take start ?ls @ ?w @ ?z) = Inr \<lparr>sc_rows = rows, sc_count = length ?ls, sc_total = t\<rparr>"
    by (simp only: foldM_append pre mid rbind.simps)
  then have "foldM (export_scan py start ?n max_bytes) \<lparr>sc_rows = [], sc_count = 0, sc_total = 0\<rparr> ?ls =
      Inr \<lparr>sc_rows = rows, sc_count = length ?ls, sc_total = t\<rparr>"
    by (simp only: append_take_drop_id)
  then show ?thesis using id assms(2) by (simp add: export_selected_rows_def)
qed

theorem exporter_selects_shipped_rows_witness:
  "export_selected_rows row_py [5, 10, 6, 10, 9, 10] (hex (replicate 32 7)) 3 0 2 2100 =
     Inr [(sample_cid, 5), (sample_cid, 6)]"
proof -
  have "ship_selected_rows row_py [5, 10, 6, 10, 9, 10] (hex (replicate 32 7)) 3 0 3 2100 [] =
      Inr ([(sample_cid, 5), (sample_cid, 6)], None)" by code_simp
  from exporter_selects_shipped_rows [OF this] show ?thesis by (simp flip: numeral_2_eq_2)
qed

text \<open>The exporter's rows are the longest contiguous range from \<open>start_row\<close> that obeys its bounds:
  every block is between 1 and 8,000,000 bytes, and the sizes with 1024 bytes of framing per row
  stay within \<open>max_bytes\<close>; the inventory is the one named by digest and row count.\<close>

theorem export_selection_longest:
  assumes "export_selected_rows py content expected_sha expected_count start max_blocks max_bytes = Inr rows"
    and "0 < max_bytes"
  shows "rows = fitting (\<lambda>_. False) max_bytes 0 0 (window py content start max_blocks) \<and>
    rows \<noteq> [] \<and> length rows \<le> max_blocks \<and>
    (\<Sum>r\<leftarrow>rows. snd r) + 1024 * int (length rows) \<le> max_bytes \<and>
    (\<forall>r \<in> set rows. 1 \<le> snd r \<and> snd r \<le> MAX_CAR_BLOCK) \<and>
    hex (sha256 py content) = expected_sha \<and> length (file_lines content) = expected_count"
proof -
  note sel = export_selected_rows_Inr [OF assms]
  obtain tail where "window py content start max_blocks = rows @ tail"
    using fitting_prefix sel by metis
  then have "length rows \<le> length (window py content start max_blocks)" by simp
  then have "length rows \<le> max_blocks" by (simp add: window_def)
  then show ?thesis using sel fitting_bounds [of "\<lambda>_. False" max_bytes 0 0 "window py content start max_blocks"]
      fitting_rows [of _ "\<lambda>_. False" max_bytes 0 0 "window py content start max_blocks"]
    by auto
qed

theorem export_selection_longest_witness:
  "length [(sample_cid, 5 :: int), (sample_cid, 6)] \<le> 3 \<and>
   (\<Sum>r\<leftarrow>[(sample_cid, 5), (sample_cid, 6)]. snd r) +
     1024 * int (length [(sample_cid, 5 :: int), (sample_cid, 6)]) \<le> (2100 :: int)"
proof -
  have "export_selected_rows row_py [5, 10, 6, 10, 9, 10] (hex (replicate 32 7)) 3 0 3 2100 =
      Inr [(sample_cid, 5), (sample_cid, 6)]" by code_simp
  moreover have "(0 :: int) < 2100" by simp
  ultimately show ?thesis using export_selection_longest by blast
qed

end
