(* ===== verification/Decimal_Text.thy ===== *)
theory Decimal_Text
  imports Json_Files
begin

text \<open>
  Decimal text: \<open>str(n)\<close> for a natural number, \<open>int(s)\<close> for a string of ASCII digits, and the patterns
  \<open>[0-9]+\<close> and \<open>0|[1-9][0-9]*\<close> that guard it. Cursors and receipt names are written and read
  this way.
\<close>

definition DIGITS :: string where
  "DIGITS = ''0123456789''"

definition is_digit :: "char \<Rightarrow> bool" where
  "is_digit c \<longleftrightarrow> CHR ''0'' \<le> c \<and> c \<le> CHR ''9''"

definition digit_value :: "char \<Rightarrow> nat" where
  "digit_value c = of_char c - 48"

definition digit_char :: "nat \<Rightarrow> char" where
  "digit_char d = DIGITS ! d"

fun dec_text :: "nat \<Rightarrow> string" where
  "dec_text n = (if n < 10 then [digit_char n] else dec_text (n div 10) @ [digit_char (n mod 10)])"

declare dec_text.simps [simp del]

definition dec_value :: "string \<Rightarrow> nat" where
  "dec_value s = dval 10 (map digit_value s)"

text \<open>\<open>[0-9]+\<close> and \<open>0|[1-9][0-9]*\<close>.\<close>

definition match_digits :: "string \<Rightarrow> bool" where
  "match_digits s \<longleftrightarrow> s \<noteq> [] \<and> list_all is_digit s"

definition match_cursor :: "string \<Rightarrow> bool" where
  "match_cursor s \<longleftrightarrow> match_digits s \<and> (s = ''0'' \<or> hd s \<noteq> CHR ''0'')"

lemma digit_table:
  "d < 10 \<Longrightarrow> is_digit (digit_char d) \<and> digit_value (digit_char d) = d \<and>
    (digit_char d = CHR ''0'' \<longleftrightarrow> d = 0)"
proof -
  have "list_all (\<lambda>d. is_digit (digit_char d) \<and> digit_value (digit_char d) = d \<and>
      (digit_char d = CHR ''0'' \<longleftrightarrow> d = 0)) [0..<10]" by code_simp
  then show "d < 10 \<Longrightarrow> is_digit (digit_char d) \<and> digit_value (digit_char d) = d \<and>
      (digit_char d = CHR ''0'' \<longleftrightarrow> d = 0)" by (auto simp: list_all_iff)
qed

lemma dec_text_digits: "list_all is_digit (dec_text n)"
proof (induction n rule: dec_text.induct)
  case (1 n)
  then show ?case by (subst dec_text.simps) (simp add: digit_table)
qed

lemma dec_text_not_Nil [simp]: "dec_text n \<noteq> []"
  by (subst dec_text.simps) simp

lemma dec_value_text [simp]: "dec_value (dec_text n) = n"
proof (induction n rule: dec_text.induct)
  case (1 n)
  show ?case
  proof (cases "n < 10")
    case True
    then show ?thesis by (subst dec_text.simps) (simp add: dec_value_def dval_def digit_table)
  next
    case False
    then have "dval 10 (map digit_value (dec_text (n div 10))) = n div 10"
      using "1.IH" by (simp add: dec_value_def)
    then show ?thesis using False by (subst dec_text.simps) (simp add: dec_value_def digit_table)
  qed
qed

lemma hd_dec_text: "0 < n \<Longrightarrow> hd (dec_text n) \<noteq> CHR ''0''"
proof (induction n rule: dec_text.induct)
  case (1 n)
  show ?case
  proof (cases "n < 10")
    case True
    then show ?thesis using "1.prems" digit_table [of n] by (subst dec_text.simps) simp
  next
    case False
    then have "hd (dec_text (n div 10)) \<noteq> CHR ''0''" using "1.IH" by simp
    then show ?thesis using False by (subst dec_text.simps) simp
  qed
qed

text \<open>A number the reader prints is a cursor it accepts.\<close>

lemma match_cursor_dec_text [simp]: "match_cursor (dec_text n)"
proof (cases "n = 0")
  case True
  have "match_cursor (dec_text 0)" by code_simp
  with True show ?thesis by simp
next
  case False
  then show ?thesis using hd_dec_text dec_text_digits by (simp add: match_cursor_def match_digits_def)
qed

lemma match_digits_dec_text [simp]: "match_digits (dec_text n)"
  using match_cursor_dec_text [of n] by (simp add: match_cursor_def)

lemma dec_text_inject [simp]: "dec_text m = dec_text n \<longleftrightarrow> m = n"
  by (metis dec_value_text)

text \<open>
  \<open>re.fullmatch(prefix + "([0-9]+)-([0-9]+)" + suffix, name)\<close>: the two groups as numbers. The first
  group ends at the first character that is no digit.
\<close>

definition parse_range_name :: "string \<Rightarrow> string \<Rightarrow> string \<Rightarrow> (nat \<times> nat) option" where
  "parse_range_name prefix suffix name =
     (if take (length prefix) name \<noteq> prefix then None
      else
        let rest = drop (length prefix) name;
            a = takeWhile is_digit rest;
            rest = dropWhile is_digit rest in
        if a = [] \<or> rest = [] \<or> hd rest \<noteq> CHR ''-'' then None
        else
          let b = takeWhile is_digit (tl rest); rest = dropWhile is_digit (tl rest) in
          if b = [] \<or> rest \<noteq> suffix then None else Some (dec_value a, dec_value b))"

lemma takeWhile_digits:
  assumes "list_all is_digit d" and "rest = [] \<or> \<not> is_digit (hd rest)"
  shows "takeWhile is_digit (d @ rest) = d" and "dropWhile is_digit (d @ rest) = rest"
proof -
  have "takeWhile is_digit rest = []" "dropWhile is_digit rest = rest"
    using assms(2) by (cases rest; auto)+
  then show "takeWhile is_digit (d @ rest) = d" and "dropWhile is_digit (d @ rest) = rest"
    using assms(1) by (simp_all add: list_all_iff)
qed

text \<open>The name the tools give a receipt for rows \<open>a\<close> to \<open>b\<close> is read back as \<open>(a, b)\<close>.\<close>

lemma parse_range_name_dec:
  assumes "suffix \<noteq> []" "\<not> is_digit (hd suffix)"
  shows "parse_range_name prefix suffix (prefix @ dec_text a @ ''-'' @ dec_text b @ suffix) = Some (a, b)"
proof -
  have "\<not> is_digit (hd (''-'' @ dec_text b @ suffix))" by (simp add: is_digit_def)
  then have "takeWhile is_digit (dec_text a @ ''-'' @ dec_text b @ suffix) = dec_text a"
    "dropWhile is_digit (dec_text a @ ''-'' @ dec_text b @ suffix) = ''-'' @ dec_text b @ suffix"
    using takeWhile_digits [OF dec_text_digits] by metis+
  moreover have "takeWhile is_digit (dec_text b @ suffix) = dec_text b"
    "dropWhile is_digit (dec_text b @ suffix) = suffix"
    using takeWhile_digits [OF dec_text_digits] assms(2) by metis+
  moreover have "\<not> is_digit (CHR ''-'')" by (simp add: is_digit_def)
  ultimately show ?thesis by (simp add: parse_range_name_def Let_def)
qed

end
