(* ===== verification/Inventory.thy ===== *)
theory Inventory
  imports Row_Selection Decimal_Text
begin

text \<open>
  \<open>deploy/serve_lake.py\<close>, class \<open>Inventory\<close>: the inventory file indexed at startup, row access by
  offset, and pages with a cursor. A reader that follows the cursors sees every row once, in order;
  the argument is made in the locale \<open>paged_rows\<close>, which the epoch list satisfies too.
\<close>

definition PAGE_SIZE :: nat where "PAGE_SIZE = 200"

section \<open>Loading\<close>

text \<open>The fields of \<open>stat()\<close> that identify the file.\<close>

record file_identity =
  st_ino :: nat
  st_size :: nat
  st_mtime_ns :: nat

record inventory =
  inv_offsets :: "nat list"
  inv_sizes :: "(string \<times> int) list"
  inv_positions :: "(string \<times> nat) list"
  inv_sha256 :: string
  inv_total_bytes :: int
  inv_identity :: file_identity

record loading =
  ld_offset :: nat
  ld_offsets :: "nat list"
  ld_sizes :: "(string \<times> int) list"
  ld_positions :: "(string \<times> nat) list"
  ld_total :: int

definition load_line :: "pylib \<Rightarrow> loading \<Rightarrow> bytes \<Rightarrow> loading res" where
  "load_line py st line =
     (let offset = ld_offset st;
          bad = InventoryError (''invalid CID or size at offset '' @ dec_text offset) in
      rbind (row_fields py (InventoryError (''invalid inventory row at offset '' @ dec_text offset)) line)
        (\<lambda>(cid, n).
      case as_str cid of None \<Rightarrow> Inl bad | Some cid \<Rightarrow>
      case as_int n of None \<Rightarrow> Inl bad | Some n \<Rightarrow>
      if \<not> match_served_cid cid \<or> n \<le> 0 then Inl bad
      else if map_of (ld_sizes st) cid \<noteq> None
      then Inl (InventoryError (''duplicate CID in inventory: '' @ cid))
      else Inr \<lparr>ld_offset = offset + length line, ld_offsets = ld_offsets st @ [offset],
                ld_sizes = ld_sizes st @ [(cid, n)],
                ld_positions = ld_positions st @ [(cid, length (ld_offsets st))],
                ld_total = ld_total st + n\<rparr>))"

definition load_inventory ::
    "pylib \<Rightarrow> bytes \<Rightarrow> file_identity \<Rightarrow> string \<Rightarrow> int \<Rightarrow> inventory res" where
  "load_inventory py content identity expected_sha expected_count =
     rbind (foldM (load_line py)
         \<lparr>ld_offset = 0, ld_offsets = [], ld_sizes = [], ld_positions = [], ld_total = 0\<rparr>
         (file_lines content)) (\<lambda>st.
     if hex (sha256 py content) \<noteq> expected_sha \<or> int (length (ld_offsets st)) \<noteq> expected_count
     then Inl (InventoryError ''inventory digest or row count differs from declared snapshot'')
     else Inr \<lparr>inv_offsets = ld_offsets st, inv_sizes = ld_sizes st, inv_positions = ld_positions st,
               inv_sha256 = expected_sha, inv_total_bytes = ld_total st, inv_identity = identity\<rparr>)"

section \<open>Rows and pages\<close>

text \<open>The loop of \<open>rows\<close>: \<open>json.loads(source.readline())\<close>, a given number of times.\<close>

fun read_rows :: "pylib \<Rightarrow> bytes \<Rightarrow> nat \<Rightarrow> (json \<times> json) list res" where
  "read_rows py bs 0 = Inr []"
| "read_rows py bs (Suc n) =
     rbind (row_values py (read_line bs)) (\<lambda>r.
     rbind (read_rows py (drop (length (read_line bs)) bs) n) (\<lambda>rs. Inr (r # rs)))"

text \<open>\<open>rows(offset, limit)\<close> on the file as it is now (its identity and its bytes).\<close>

definition inventory_rows ::
    "pylib \<Rightarrow> inventory \<Rightarrow> file_identity \<times> bytes \<Rightarrow> int \<Rightarrow> int \<Rightarrow> ((json \<times> json) list \<times> nat) res" where
  "inventory_rows py ivt now offset limit =
     (if fst now \<noteq> inv_identity ivt
      then Inl (InventoryError ''inventory file changed since startup'')
      else if offset < 0 \<or> int (length (inv_offsets ivt)) \<le> offset
      then Inl (InventoryError ''cursor outside inventory'')
      else if limit < 1 \<or> 1000 < limit
      then Inl (InventoryError ''inventory row limit must be within 1..1000'')
      else
        let stop = nat (min (offset + limit) (int (length (inv_offsets ivt)))) in
        rbind (read_rows py (drop (inv_offsets ivt ! nat offset) (snd now)) (stop - nat offset)) (\<lambda>rows.
          Inr (rows, stop)))"

record page =
  pg_sha256 :: string
  pg_blocks :: "(json \<times> json) list"
  pg_cursor :: "string option"
  pg_truncated :: bool

text \<open>\<open>page\<close> is the same code in \<open>Inventory\<close> and \<open>EpochInventory\<close>, over their \<open>rows\<close> and \<open>offsets\<close>.\<close>

definition page_of ::
    "(int \<Rightarrow> int \<Rightarrow> ((json \<times> json) list \<times> nat) res) \<Rightarrow> string \<Rightarrow> nat \<Rightarrow> int \<Rightarrow> page res" where
  "page_of fetch sha n offset =
     rbind (fetch offset (int PAGE_SIZE)) (\<lambda>(rows, stop).
       Inr \<lparr>pg_sha256 = sha, pg_blocks = rows,
            pg_cursor = (if stop < n then Some (dec_text stop) else None), pg_truncated = (stop < n)\<rparr>)"

definition inventory_page :: "pylib \<Rightarrow> inventory \<Rightarrow> file_identity \<times> bytes \<Rightarrow> int \<Rightarrow> page res" where
  "inventory_page py ivt now offset =
     page_of (inventory_rows py ivt now) (inv_sha256 ivt) (length (inv_offsets ivt)) offset"

text \<open>A reader that starts at a cursor and asks for the next page while there is a cursor.\<close>

fun follow_pages :: "(int \<Rightarrow> page res) \<Rightarrow> nat \<Rightarrow> string \<Rightarrow> (json \<times> json) list res" where
  "follow_pages pages 0 cursor = Inl TimeoutExpired"
| "follow_pages pages (Suc fuel) cursor =
     rbind (pages (int (dec_value cursor))) (\<lambda>p.
       case pg_cursor p of
         None \<Rightarrow> Inr (pg_blocks p)
       | Some next \<Rightarrow> rbind (follow_pages pages fuel next) (\<lambda>rest. Inr (pg_blocks p @ rest)))"

section \<open>The interface of a paged list\<close>

locale paged_rows =
  fixes fetch :: "int \<Rightarrow> int \<Rightarrow> ((json \<times> json) list \<times> nat) res"
    and all_rows :: "(json \<times> json) list"
  assumes fetch_rows: "offset < length all_rows \<Longrightarrow> 1 \<le> limit \<Longrightarrow> limit \<le> 1000 \<Longrightarrow>
      \<exists>stop. offset < stop \<and> stop \<le> length all_rows \<and> int stop \<le> int offset + limit \<and>
        fetch (int offset) limit = Inr (take (stop - offset) (drop offset all_rows), stop)"
    and fetch_outside: "at < 0 \<or> int (length all_rows) \<le> at \<Longrightarrow>
      \<not> is_ok (fetch at limit)"
begin

lemma page_rows:
  assumes "offset < length all_rows"
  obtains stop where "offset < stop" "stop \<le> length all_rows" "stop \<le> offset + PAGE_SIZE"
    "page_of fetch sha (length all_rows) (int offset) =
      Inr \<lparr>pg_sha256 = sha, pg_blocks = take (stop - offset) (drop offset all_rows),
        pg_cursor = (if stop < length all_rows then Some (dec_text stop) else None),
        pg_truncated = (stop < length all_rows)\<rparr>"
proof -
  have "1 \<le> int PAGE_SIZE" "int PAGE_SIZE \<le> 1000" by (simp_all add: PAGE_SIZE_def)
  from fetch_rows [OF assms this] obtain stop where s: "offset < stop" "stop \<le> length all_rows"
    "int stop \<le> int offset + int PAGE_SIZE"
    "fetch (int offset) (int PAGE_SIZE) = Inr (take (stop - offset) (drop offset all_rows), stop)" by blast
  then have "stop \<le> offset + PAGE_SIZE" by linarith
  from that [OF s(1,2) this] s(4) show ?thesis by (simp add: page_of_def)
qed

lemma follow_all:
  "offset < length all_rows \<Longrightarrow> length all_rows - offset \<le> fuel \<Longrightarrow>
    follow_pages (page_of fetch sha (length all_rows)) fuel (dec_text offset) = Inr (drop offset all_rows)"
proof (induction fuel arbitrary: offset)
  case 0
  then show ?case by simp
next
  case (Suc fuel)
  obtain stop where s: "offset < stop" "stop \<le> length all_rows"
    "page_of fetch sha (length all_rows) (int offset) =
      Inr \<lparr>pg_sha256 = sha, pg_blocks = take (stop - offset) (drop offset all_rows),
        pg_cursor = (if stop < length all_rows then Some (dec_text stop) else None),
        pg_truncated = (stop < length all_rows)\<rparr>" using page_rows [OF Suc.prems(1)] by metis
  have split: "take (stop - offset) (drop offset all_rows) @ drop stop all_rows = drop offset all_rows"
    using s(1) append_take_drop_id [of "stop - offset" "drop offset all_rows"] by simp
  show ?case
  proof (cases "stop < length all_rows")
    case True
    have "follow_pages (page_of fetch sha (length all_rows)) fuel (dec_text stop) = Inr (drop stop all_rows)"
      using Suc.IH [OF True] Suc.prems(2) s(1) by simp
    then show ?thesis using s(3) True split by simp
  next
    case False
    then show ?thesis using s(2,3) split by simp
  qed
qed

lemma page_outside:
  "offset < 0 \<or> int (length all_rows) \<le> offset \<Longrightarrow>
    \<not> is_ok (page_of fetch sha n offset)"
  using fetch_outside [of offset "int PAGE_SIZE"] by (auto simp: page_of_def is_ok_iff res_simps)

end

section \<open>What a loaded inventory is\<close>

text \<open>The rows of a file, when every line names a CID and a positive size.\<close>

definition line_row :: "pylib \<Rightarrow> bytes \<Rightarrow> string \<times> int \<Rightarrow> bool" where
  "line_row py line r \<longleftrightarrow>
     row_values py line = Inr (JStr (fst r), JInt (snd r)) \<and> match_served_cid (fst r) \<and> 0 < snd r"

definition represents :: "pylib \<Rightarrow> bytes \<Rightarrow> (string \<times> int) list \<Rightarrow> inventory \<Rightarrow> bool" where
  "represents py content rows ivt \<longleftrightarrow>
     list_all2 (line_row py) (file_lines content) rows \<and> distinct (map fst rows) \<and>
     inv_sizes ivt = rows \<and> inv_positions ivt = zip (map fst rows) [0..<length rows] \<and>
     inv_offsets ivt = map (line_offset content) [0..<length rows] \<and>
     inv_total_bytes ivt = (\<Sum>r\<leftarrow>rows. snd r) \<and> inv_sha256 ivt = hex (sha256 py content)"

lemma load_line_Inr:
  "load_line py st line = Inr st' \<longleftrightarrow>
     (\<exists>cid n. line_row py line (cid, n) \<and> cid \<notin> fst ` set (ld_sizes st) \<and>
        st' = \<lparr>ld_offset = ld_offset st + length line, ld_offsets = ld_offsets st @ [ld_offset st],
               ld_sizes = ld_sizes st @ [(cid, n)],
               ld_positions = ld_positions st @ [(cid, length (ld_offsets st))],
               ld_total = ld_total st + n\<rparr>)"
  by (auto simp: load_line_def res_simps Let_def line_row_def map_of_eq_None_iff)

lemma load_lines_Inr:
  assumes "foldM (load_line py) \<lparr>ld_offset = 0, ld_offsets = [], ld_sizes = [], ld_positions = [], ld_total = 0\<rparr>
      ls = Inr st"
  shows "\<exists>rows. list_all2 (line_row py) ls rows \<and> distinct (map fst rows) \<and>
    ld_offset st = length (concat ls) \<and>
    ld_offsets st = map (\<lambda>i. length (concat (take i ls))) [0..<length rows] \<and> ld_sizes st = rows \<and>
    ld_positions st = zip (map fst rows) [0..<length rows] \<and> ld_total st = (\<Sum>r\<leftarrow>rows. snd r)"
  using assms
proof (induction ls arbitrary: st rule: rev_induct)
  case Nil
  then show ?case by auto
next
  case (snoc l ls)
  from snoc.prems obtain st1 where
    one: "foldM (load_line py) \<lparr>ld_offset = 0, ld_offsets = [], ld_sizes = [], ld_positions = [], ld_total = 0\<rparr>
      ls = Inr st1" and last_step: "load_line py st1 l = Inr st"
    by (auto simp: foldM_append res_simps)
  from snoc.IH [OF one] obtain rows where r: "list_all2 (line_row py) ls rows" "distinct (map fst rows)"
    "ld_offset st1 = length (concat ls)"
    "ld_offsets st1 = map (\<lambda>i. length (concat (take i ls))) [0..<length rows]" "ld_sizes st1 = rows"
    "ld_positions st1 = zip (map fst rows) [0..<length rows]" "ld_total st1 = (\<Sum>r\<leftarrow>rows. snd r)" by blast
  have len: "length ls = length rows" using r(1) by (rule list_all2_lengthD)
  from last_step obtain cid n where s: "line_row py l (cid, n)" "cid \<notin> fst ` set (ld_sizes st1)"
    "st = \<lparr>ld_offset = ld_offset st1 + length l, ld_offsets = ld_offsets st1 @ [ld_offset st1],
       ld_sizes = ld_sizes st1 @ [(cid, n)],
       ld_positions = ld_positions st1 @ [(cid, length (ld_offsets st1))], ld_total = ld_total st1 + n\<rparr>"
    by (auto simp: load_line_Inr)
  show ?case
  proof (intro exI [of _ "rows @ [(cid, n)]"] conjI)
    show "list_all2 (line_row py) (ls @ [l]) (rows @ [(cid, n)])"
      using r(1) s(1) by (simp add: list_all2_appendI)
  qed (use r s len in \<open>auto simp: image_iff\<close>)
qed

lemma load_inventory_represents:
  assumes "load_inventory py content identity expected_sha expected_count = Inr ivt"
  obtains rows where "represents py content rows ivt" "inv_sha256 ivt = expected_sha"
    "int (length rows) = expected_count" "inv_identity ivt = identity"
proof -
  from assms obtain st where
    st: "foldM (load_line py) \<lparr>ld_offset = 0, ld_offsets = [], ld_sizes = [], ld_positions = [], ld_total = 0\<rparr>
      (file_lines content) = Inr st" and
    rest: "hex (sha256 py content) = expected_sha" "int (length (ld_offsets st)) = expected_count"
    "ivt = \<lparr>inv_offsets = ld_offsets st, inv_sizes = ld_sizes st, inv_positions = ld_positions st,
       inv_sha256 = expected_sha, inv_total_bytes = ld_total st, inv_identity = identity\<rparr>"
    by (auto simp: load_inventory_def res_simps)
  from load_lines_Inr [OF st] obtain rows where "list_all2 (line_row py) (file_lines content) rows"
    "distinct (map fst rows)" "ld_offsets st = map (line_offset content) [0..<length rows]"
    "ld_sizes st = rows" "ld_positions st = zip (map fst rows) [0..<length rows]"
    "ld_total st = (\<Sum>r\<leftarrow>rows. snd r)" by (auto simp: line_offset_def)
  with rest that show ?thesis by (simp add: represents_def)
qed

definition row_json :: "string \<times> int \<Rightarrow> json \<times> json" where
  "row_json r = (JStr (fst r), JInt (snd r))"

lemma read_rows_lines:
  assumes "list_all2 (line_row py) (file_lines bs) rows" and "n \<le> length rows"
  shows "read_rows py bs n = Inr (map row_json (take n rows))"
  using assms
proof (induction n arbitrary: bs rows)
  case 0
  then show ?case by simp
next
  case (Suc n)
  then obtain r rs where rows: "rows = r # rs" by (cases rows) auto
  with Suc.prems(1) obtain l ls where ls: "file_lines bs = l # ls" "line_row py l r"
    "list_all2 (line_row py) ls rs" by (auto simp: list_all2_Cons2)
  have rest: "l = read_line bs" "ls = file_lines (drop (length l) bs)" using file_lines_Cons [OF ls(1)] by auto
  have "read_rows py (drop (length l) bs) n = Inr (map row_json (take n rs))"
    using ls(3) Suc.prems(2) rows unfolding rest(2) by (intro Suc.IH) auto
  then show ?case using ls(2) rest(1) rows by (simp add: line_row_def row_json_def)
qed

lemma inventory_rows_Inr:
  assumes "represents py content rows ivt" and "offset < length rows" and "1 \<le> limit" and "limit \<le> 1000"
  shows "inventory_rows py ivt (inv_identity ivt, content) (int offset) limit =
    Inr (map row_json (take (nat limit) (drop offset rows)),
         min (offset + nat limit) (length rows))"
proof -
  have lines: "list_all2 (line_row py) (file_lines content) rows"
    and offs: "inv_offsets ivt = map (line_offset content) [0..<length rows]"
    using assms(1) by (auto simp: represents_def)
  have len: "length (file_lines content) = length rows" using lines by (rule list_all2_lengthD)
  let ?stop = "nat (min (int offset + limit) (int (length rows)))"
  have stop: "?stop = min (offset + nat limit) (length rows)" using assms(3) by (simp add: min_def) linarith
  have "file_lines (drop (line_offset content offset) content) = drop offset (file_lines content)"
    using read_line_at_offset [of offset content] assms(2) len by simp
  then have "list_all2 (line_row py) (file_lines (drop (line_offset content offset) content)) (drop offset rows)"
    using lines by (simp add: list_all2_dropI)
  then have "read_rows py (drop (line_offset content offset) content) (?stop - offset) =
      Inr (map row_json (take (?stop - offset) (drop offset rows)))"
    using stop by (intro read_rows_lines) auto
  moreover have "take (?stop - offset) (drop offset rows) = take (nat limit) (drop offset rows)"
    unfolding stop by (simp add: min_def)
  ultimately show ?thesis
    using assms(2-4) offs stop by (simp add: inventory_rows_def)
qed

lemma inventory_rows_outside:
  "offset < 0 \<or> int (length (inv_offsets ivt)) \<le> offset \<Longrightarrow> \<not> is_ok (inventory_rows py ivt now offset limit)"
  by (simp add: inventory_rows_def)

text \<open>A reader started on a file, asked for rows while the file stays as it was.\<close>

definition served_rows ::
    "pylib \<Rightarrow> bytes \<Rightarrow> file_identity \<Rightarrow> string \<Rightarrow> int \<Rightarrow> int \<Rightarrow> int \<Rightarrow> ((json \<times> json) list \<times> nat) res" where
  "served_rows py content identity sha count offset limit =
     rbind (load_inventory py content identity sha count) (\<lambda>ivt.
       inventory_rows py ivt (identity, content) offset limit)"

definition listed_rows ::
    "pylib \<Rightarrow> bytes \<Rightarrow> file_identity \<Rightarrow> string \<Rightarrow> int \<Rightarrow> (json \<times> json) list" where
  "listed_rows py content identity sha count =
     (case load_inventory py content identity sha count of
        Inl _ \<Rightarrow> [] | Inr ivt \<Rightarrow> map row_json (inv_sizes ivt))"

lemma listed_rows_Inr:
  assumes "load_inventory py content identity sha count = Inr ivt"
  shows "listed_rows py content identity sha count = map row_json (inv_sizes ivt)"
    and "length (inv_offsets ivt) = length (inv_sizes ivt)"
proof -
  show "length (inv_offsets ivt) = length (inv_sizes ivt)"
    using assms by (rule load_inventory_represents) (auto simp: represents_def)
qed (simp add: listed_rows_def assms)

interpretation inv_pages: paged_rows "served_rows py content identity sha count"
    "listed_rows py content identity sha count"
  for py content identity sha count
proof (unfold_locales, goal_cases)
  case (1 offset limit)
  then obtain ivt where load: "load_inventory py content identity sha count = Inr ivt"
    by (auto simp: listed_rows_def split: sum.splits)
  from load obtain rows where r: "represents py content rows ivt" "inv_identity ivt = identity"
    by (rule load_inventory_represents)
  then have all: "listed_rows py content identity sha count = map row_json rows"
    using listed_rows_Inr(1) [OF load] by (simp add: represents_def)
  with 1(1) have o: "offset < length rows" by simp
  let ?stop = "min (offset + nat limit) (length rows)"
  have "served_rows py content identity sha count (int offset) limit =
      Inr (map row_json (take (nat limit) (drop offset rows)), ?stop)"
    using inventory_rows_Inr [OF r(1) o 1(2,3)] load r(2) by (simp add: served_rows_def)
  moreover have "map row_json (take (nat limit) (drop offset rows)) =
      take (?stop - offset) (drop offset (map row_json rows))"
    by (simp add: take_map drop_map min_def)
  moreover have "offset < ?stop" "int ?stop \<le> int offset + limit" using o 1(2) by auto
  ultimately show ?case using all by (intro exI [of _ ?stop]) simp
next
  case (2 at limit)
  show ?case
  proof (cases "load_inventory py content identity sha count")
    case (Inr ivt)
    then have "at < 0 \<or> int (length (inv_offsets ivt)) \<le> at"
      using 2 listed_rows_Inr [OF Inr] by simp
    then show ?thesis using inventory_rows_outside by (simp add: served_rows_def Inr)
  qed (simp add: served_rows_def)
qed

text \<open>A reader of the lake API that starts at a valid cursor and follows the cursors it is given
  receives every row of the inventory from there on, once and in order, in at most as many pages as
  rows are left; then there is no further cursor.\<close>

theorem inventory_pages_cover_rows:
  assumes "load_inventory py content identity sha count = Inr ivt" and "offset < length (inv_sizes ivt)"
    and "length (inv_sizes ivt) - offset \<le> fuel"
  shows "follow_pages (inventory_page py ivt (identity, content)) fuel (dec_text offset) =
    Inr (drop offset (map row_json (inv_sizes ivt)))"
proof -
  have all: "listed_rows py content identity sha count = map row_json (inv_sizes ivt)"
    and n: "length (inv_offsets ivt) = length (inv_sizes ivt)"
    using listed_rows_Inr [OF assms(1)] by auto
  have served: "served_rows py content identity sha count = inventory_rows py ivt (identity, content)"
    by (simp add: fun_eq_iff served_rows_def assms(1))
  have "inventory_page py ivt (identity, content) =
      page_of (served_rows py content identity sha count) (inv_sha256 ivt)
        (length (listed_rows py content identity sha count))"
    by (intro ext) (simp add: inventory_page_def all n served)
  then show ?thesis
    using inv_pages.follow_all [of offset py content identity sha count fuel] assms(2,3) all by simp
qed

text \<open>C12: a loaded inventory is the declared snapshot: its digest and row count are the expected ones,
  its CIDs are distinct and well formed, its sizes positive, \<open>positions\<close> numbers the rows, and
  \<open>total_bytes\<close> is the sum of the sizes.\<close>

theorem loaded_inventory_wellformed:
  assumes "load_inventory py content identity sha count = Inr ivt"
  shows "hex (sha256 py content) = sha \<and> int (length (inv_sizes ivt)) = count \<and>
    length (inv_sizes ivt) = length (file_lines content) \<and> distinct (map fst (inv_sizes ivt)) \<and>
    (\<forall>r \<in> set (inv_sizes ivt). match_served_cid (fst r) \<and> 0 < snd r) \<and>
    (\<forall>i < length (inv_sizes ivt). map_of (inv_positions ivt) (fst (inv_sizes ivt ! i)) = Some i) \<and>
    inv_total_bytes ivt = (\<Sum>r\<leftarrow>inv_sizes ivt. snd r)"
proof -
  from assms obtain rows where r: "represents py content rows ivt" and s: "inv_sha256 ivt = sha"
    "int (length rows) = count" by (rule load_inventory_represents)
  have lines: "list_all2 (line_row py) (file_lines content) rows" and d: "distinct (map fst rows)"
    using r by (auto simp: represents_def)
  have "\<forall>r \<in> set rows. match_served_cid (fst r) \<and> 0 < snd r"
    using lines by (induction rule: list_all2_induct) (auto simp: line_row_def)
  moreover have "map_of (zip (map fst rows) [0..<length rows]) (fst (rows ! i)) = Some i"
    if "i < length rows" for i
    using map_of_zip_nth [of "map fst rows" "[0..<length rows]" i] d that by simp
  ultimately show ?thesis
    using r s list_all2_lengthD [OF lines] by (auto simp: represents_def)
qed

section \<open>A concrete inventory\<close>

definition sample_cid2 :: string where
  "sample_cid2 = ''bafyreiaha4dqobyha4dqobyha4dqobyha4dqobyha4dqobyha4dqobyha4''"

definition lake_py :: pylib where
  "lake_py = row_py\<lparr>json_loads := (\<lambda>line. case line of
      [] \<Rightarrow> Inl ValueError
    | b # _ \<Rightarrow> Inr (JDict [(''cid'', JStr (if b = 1 then sample_cid else sample_cid2)),
        (''bytes'', JInt (int (unat b)))]))\<rparr>"

definition lake_identity :: file_identity where
  "lake_identity = \<lparr>st_ino = 7, st_size = 4, st_mtime_ns = 9\<rparr>"

definition lake_inventory :: inventory where
  "lake_inventory = \<lparr>inv_offsets = [0, 2], inv_sizes = [(sample_cid, 1), (sample_cid2, 2)],
     inv_positions = [(sample_cid, 0), (sample_cid2, 1)], inv_sha256 = hex (replicate 32 7),
     inv_total_bytes = 3, inv_identity = lake_identity\<rparr>"

lemma lake_inventory_loaded:
  "load_inventory lake_py [1, 10, 2, 10] lake_identity (hex (replicate 32 7)) 2 = Inr lake_inventory"
  by code_simp

theorem inventory_pages_cover_rows_witness:
  "follow_pages (inventory_page lake_py lake_inventory (lake_identity, [1, 10, 2, 10])) 2 (dec_text 0) =
     Inr [(JStr sample_cid, JInt 1), (JStr sample_cid2, JInt 2)]"
proof -
  have "0 < length (inv_sizes lake_inventory)" "length (inv_sizes lake_inventory) - 0 \<le> 2"
    by (simp_all add: lake_inventory_def)
  from inventory_pages_cover_rows [OF lake_inventory_loaded this] show ?thesis
    by (simp add: lake_inventory_def row_json_def)
qed

theorem loaded_inventory_wellformed_witness:
  "distinct (map fst (inv_sizes lake_inventory)) \<and> inv_total_bytes lake_inventory = 3"
  using loaded_inventory_wellformed [OF lake_inventory_loaded] by (simp add: lake_inventory_def)

end
