(* ===== verification/Range_Cover.thy ===== *)
theory Range_Cover
  imports Json_Files "HOL-Library.Product_Lexorder"
begin

text \<open>
  The interval index of \<open>serve_lake.CarReceipts\<close>: half-open row ranges are sorted, merged where they
  touch, and searched with \<open>bisect.bisect_right\<close>. The index answers exactly the union of the ranges.
\<close>

section \<open>Bisection\<close>

text \<open>\<open>bisect.bisect_right\<close> of the standard library.\<close>

function bisect_loop :: "nat list \<Rightarrow> nat \<Rightarrow> nat \<Rightarrow> nat \<Rightarrow> nat" where
  "bisect_loop xs x lo hi =
     (if lo < hi then
        let mid = (lo + hi) div 2 in
        if x < xs ! mid then bisect_loop xs x lo mid else bisect_loop xs x (mid + 1) hi
      else lo)"
  by pat_completeness auto
termination
  by (relation "measure (\<lambda>(xs, x, lo, hi). hi - lo)") auto

declare bisect_loop.simps [simp del]

definition bisect_right :: "nat list \<Rightarrow> nat \<Rightarrow> nat" where
  "bisect_right xs x = bisect_loop xs x 0 (length xs)"

lemma bisect_loop_bounds:
  "sorted xs \<Longrightarrow> lo \<le> hi \<Longrightarrow> hi \<le> length xs \<Longrightarrow> \<forall>i < lo. xs ! i \<le> x \<Longrightarrow>
    \<forall>i. hi \<le> i \<and> i < length xs \<longrightarrow> x < xs ! i \<Longrightarrow>
    bisect_loop xs x lo hi \<le> length xs \<and> (\<forall>i < bisect_loop xs x lo hi. xs ! i \<le> x) \<and>
    (\<forall>i. bisect_loop xs x lo hi \<le> i \<and> i < length xs \<longrightarrow> x < xs ! i)"
proof (induction xs x lo hi rule: bisect_loop.induct)
  case (1 xs x lo hi)
  show ?case
  proof (cases "lo < hi")
    case True
    let ?mid = "(lo + hi) div 2"
    have mid: "lo \<le> ?mid" "?mid < hi" "?mid < length xs" using True "1.prems"(3) by auto
    show ?thesis
    proof (cases "x < xs ! ?mid")
      case less: True
      have "\<forall>i. ?mid \<le> i \<and> i < length xs \<longrightarrow> x < xs ! i"
        using less "1.prems"(1) sorted_nth_mono [of xs ?mid] by fastforce
      from "1.IH"(1) [OF True refl less "1.prems"(1) mid(1) _ "1.prems"(4) this] mid less True
      show ?thesis by (subst (1 2 3) bisect_loop.simps) (simp add: Let_def)
    next
      case ge: False
      have "\<forall>i < ?mid + 1. xs ! i \<le> x"
      proof (intro allI impI)
        fix i
        assume "i < ?mid + 1"
        then have "xs ! i \<le> xs ! ?mid" using "1.prems"(1) mid(3) by (intro sorted_nth_mono) auto
        with ge show "xs ! i \<le> x" by simp
      qed
      from "1.IH"(2) [OF True refl ge "1.prems"(1) _ "1.prems"(3) this "1.prems"(5)] mid ge True
      show ?thesis by (subst (1 2 3) bisect_loop.simps) (simp add: Let_def)
    qed
  next
    case False
    then show ?thesis using "1.prems" by (subst (1 2 3) bisect_loop.simps) auto
  qed
qed

lemma bisect_right_spec:
  assumes "sorted xs"
  shows "bisect_right xs x \<le> length xs" and "i < bisect_right xs x \<Longrightarrow> xs ! i \<le> x"
    and "bisect_right xs x \<le> i \<Longrightarrow> i < length xs \<Longrightarrow> x < xs ! i"
  using bisect_loop_bounds [OF assms, of 0 "length xs" x] by (auto simp: bisect_right_def)

section \<open>Merging\<close>

type_synonym range = "nat \<times> nat"

definition merge_step :: "range list \<Rightarrow> range \<Rightarrow> range list" where
  "merge_step covered r =
     (if covered \<noteq> [] \<and> fst r \<le> snd (last covered)
      then butlast covered @ [(fst (last covered), max (snd (last covered)) (snd r))]
      else covered @ [r])"

definition merge_ranges :: "range list \<Rightarrow> range list" where
  "merge_ranges ranges = foldl merge_step [] (sort ranges)"

definition covers_row :: "range list \<Rightarrow> nat \<Rightarrow> bool" where
  "covers_row ranges row =
     (let index = bisect_right (map fst ranges) row in
      0 < index \<and> row < snd (ranges ! (index - 1)))"

text \<open>The abstract view: a row is in one of the ranges.\<close>

definition in_ranges :: "range list \<Rightarrow> nat \<Rightarrow> bool" where
  "in_ranges ranges row \<longleftrightarrow> (\<exists>r \<in> set ranges. fst r \<le> row \<and> row < snd r)"

definition range_ok :: "range \<Rightarrow> bool" where
  "range_ok r \<longleftrightarrow> fst r < snd r"

text \<open>A merged list: proper ranges, each ending before the next begins.\<close>

fun separated :: "range list \<Rightarrow> bool" where
  "separated [] = True"
| "separated [r] = range_ok r"
| "separated (r # r' # rs) = (range_ok r \<and> snd r < fst r' \<and> separated (r' # rs))"

lemma separated_snoc:
  "separated (rs @ [r]) \<longleftrightarrow> separated rs \<and> range_ok r \<and> (rs \<noteq> [] \<longrightarrow> snd (last rs) < fst r)"
  by (induction rs rule: separated.induct) auto

lemma merge_step_separated:
  assumes "separated covered" "range_ok r" "\<forall>c \<in> set covered. fst c \<le> fst r"
  shows "separated (merge_step covered r) \<and> (\<forall>c \<in> set (merge_step covered r). fst c \<le> fst r) \<and>
    (\<forall>row. in_ranges (merge_step covered r) row \<longleftrightarrow> in_ranges covered row \<or> in_ranges [r] row)"
proof (cases covered rule: rev_cases)
  case Nil
  then show ?thesis using assms(2) by (simp add: merge_step_def in_ranges_def)
next
  case (snoc cs c)
  have c: "range_ok c" "fst c \<le> fst r" using assms(1,3) snoc by (auto simp: separated_snoc)
  show ?thesis
  proof (cases "fst r \<le> snd c")
    case True
    then show ?thesis using snoc assms c
      by (auto simp: merge_step_def separated_snoc range_ok_def in_ranges_def)
  next
    case False
    then show ?thesis using snoc assms separated_snoc [of "cs @ [c]" r]
      by (auto simp: merge_step_def in_ranges_def)
  qed
qed

lemma merge_foldl:
  "separated covered \<Longrightarrow> \<forall>r \<in> set rs. range_ok r \<Longrightarrow> sorted (map fst rs) \<Longrightarrow>
    \<forall>c \<in> set covered. \<forall>r \<in> set rs. fst c \<le> fst r \<Longrightarrow>
    separated (foldl merge_step covered rs) \<and>
    (\<forall>row. in_ranges (foldl merge_step covered rs) row \<longleftrightarrow> in_ranges covered row \<or> in_ranges rs row)"
proof (induction rs arbitrary: covered)
  case Nil
  then show ?case by (simp add: in_ranges_def)
next
  case (Cons r rs)
  have m: "separated (merge_step covered r)" "\<forall>c \<in> set (merge_step covered r). fst c \<le> fst r"
    "\<forall>row. in_ranges (merge_step covered r) row \<longleftrightarrow> in_ranges covered row \<or> in_ranges [r] row"
    using merge_step_separated [of covered r] Cons.prems by auto
  have "\<forall>c \<in> set (merge_step covered r). \<forall>q \<in> set rs. fst c \<le> fst q"
    using m(2) Cons.prems(3) by fastforce
  from Cons.IH [OF m(1) _ _ this] Cons.prems m(3) show ?case by (auto simp: in_ranges_def)
qed

lemma merge_ranges_spec:
  assumes "\<forall>r \<in> set ranges. range_ok r"
  shows "separated (merge_ranges ranges)"
    and "in_ranges (merge_ranges ranges) row \<longleftrightarrow> in_ranges ranges row"
proof -
  have "sorted (sort ranges)" by simp
  then have "sorted (map fst (sort ranges))"
    unfolding sorted_map by (rule sorted_wrt_mono_rel [rotated]) (auto simp: less_eq_prod_def)
  then have "separated (merge_ranges ranges) \<and>
      (\<forall>row. in_ranges (merge_ranges ranges) row \<longleftrightarrow> in_ranges [] row \<or> in_ranges (sort ranges) row)"
    unfolding merge_ranges_def using assms by (intro merge_foldl) auto
  then show "separated (merge_ranges ranges)"
    and "in_ranges (merge_ranges ranges) row \<longleftrightarrow> in_ranges ranges row" by (auto simp: in_ranges_def)
qed

lemma separated_starts:
  "separated rs \<Longrightarrow> i < j \<Longrightarrow> j < length rs \<Longrightarrow> snd (rs ! i) < fst (rs ! j)"
proof (induction rs arbitrary: i j rule: separated.induct)
  case (3 r r' rs)
  show ?case
  proof (cases i)
    case 0
    obtain j' where j: "j = Suc j'" using "3.prems"(2) by (cases j) auto
    show ?thesis
    proof (cases j')
      case 0
      then show ?thesis using "3.prems"(1) j \<open>i = 0\<close> by simp
    next
      case (Suc k)
      have "snd ((r' # rs) ! 0) < fst ((r' # rs) ! j')" using "3.IH" [of 0 j'] "3.prems" j Suc by simp
      moreover have "range_ok r'" using "3.prems"(1) by (cases rs) auto
      ultimately show ?thesis using "3.prems"(1) j \<open>i = 0\<close> by (simp add: range_ok_def)
    qed
  next
    case (Suc i')
    then show ?thesis using "3.IH" [of i' "j - 1"] "3.prems" by (cases j) auto
  qed
qed simp_all

lemma separated_ok: "separated rs \<Longrightarrow> r \<in> set rs \<Longrightarrow> range_ok r"
  by (induction rs rule: separated.induct) auto

lemma separated_sorted: "separated rs \<Longrightarrow> sorted (map fst rs)"
proof -
  assume s: "separated rs"
  have "fst (rs ! i) \<le> fst (rs ! j)" if "i < j" "j < length rs" for i j
    using separated_starts [OF s that] separated_ok [OF s, of "rs ! i"] that
    by (force simp: range_ok_def)
  then show "sorted (map fst rs)" by (auto simp: sorted_iff_nth_mono_less)
qed

lemma covers_separated:
  assumes "separated rs"
  shows "covers_row rs row \<longleftrightarrow> in_ranges rs row"
proof -
  let ?k = "bisect_right (map fst rs) row"
  note b = bisect_right_spec [OF separated_sorted [OF assms], where x = row]
  show ?thesis
  proof
    assume "covers_row rs row"
    then have k: "0 < ?k" "row < snd (rs ! (?k - 1))" by (auto simp: covers_row_def Let_def)
    then have "?k - 1 < length rs" "fst (rs ! (?k - 1)) \<le> row" using b(1) b(2) [of "?k - 1"] by simp_all
    then show "in_ranges rs row" using k(2) by (auto simp: in_ranges_def intro!: bexI [of _ "rs ! (?k - 1)"])
  next
    assume "in_ranges rs row"
    then obtain i where i: "i < length rs" "fst (rs ! i) \<le> row" "row < snd (rs ! i)"
      by (auto simp: in_ranges_def in_set_conv_nth)
    have lt: "i < ?k" using b(3) [of i] i by (force simp: not_le [symmetric])
    have "i = ?k - 1"
    proof (rule ccontr)
      assume "i \<noteq> ?k - 1"
      with lt have "i < ?k - 1" by simp
      then have "snd (rs ! i) < fst (rs ! (?k - 1))" using separated_starts [OF assms] b(1) by simp
      moreover have "fst (rs ! (?k - 1)) \<le> row" using b(1) b(2) [of "?k - 1"] lt by auto
      ultimately show False using i(3) by simp
    qed
    with i(3) lt show "covers_row rs row" by (simp add: covers_row_def Let_def)
  qed
qed

section \<open>The interface of a coverage index\<close>

locale coverage_index =
  fixes build :: "range list \<Rightarrow> 'i" and query :: "'i \<Rightarrow> nat \<Rightarrow> bool"
  assumes query_build: "\<forall>r \<in> set ranges. range_ok r \<Longrightarrow>
    query (build ranges) row \<longleftrightarrow> in_ranges ranges row"
begin

lemma order_irrelevant:
  assumes "\<forall>r \<in> set ranges. range_ok r" "set ranges' = set ranges"
  shows "query (build ranges') row = query (build ranges) row"
  using query_build [OF assms(1)] query_build [of ranges' row] assms by (simp add: in_ranges_def)

lemma more_receipts:
  assumes "\<forall>r \<in> set (ranges @ extra). range_ok r" "query (build ranges) row"
  shows "query (build (ranges @ extra)) row"
  using query_build [of ranges row] query_build [OF assms(1), of row] assms
  by (auto simp: in_ranges_def)

lemma covered_sizes:
  assumes "\<forall>r \<in> set ranges. range_ok r" "query (build ranges) row"
  shows "\<exists>r \<in> set ranges. row \<in> {fst r..<snd r}"
  using query_build [OF assms(1), of row] assms(2) by (auto simp: in_ranges_def)

end

interpretation receipts: coverage_index merge_ranges covers_row
  using covers_separated merge_ranges_spec by unfold_locales blast

end
