(* ===== verification/Car_Receipts.thy ===== *)
theory Car_Receipts
  imports Inventory Range_Cover
begin

text \<open>
  \<open>deploy/serve_lake.py\<close>, class \<open>CarReceipts\<close>: the directories of import receipts, each receipt checked
  against the inventory and the repository, and the index of the rows they cover, rebuilt when a
  directory changed.
\<close>

section \<open>Directories\<close>

text \<open>A receipt directory as \<open>refresh\<close> meets it: whether it exists, its modification time, and the
  names in it (in the order \<open>glob\<close> yields them) with what reading the file gives.\<close>

record receipt_dir =
  rd_name :: string
  rd_exists :: bool
  rd_mtime_ns :: nat
  rd_files :: "(string \<times> bytes res) list"

text \<open>\<open>glob(prefix + "*" + suffix)\<close>.\<close>

definition glob_files :: "string \<Rightarrow> string \<Rightarrow> receipt_dir \<Rightarrow> (string \<times> bytes res) list" where
  "glob_files prefix suffix d =
     filter (\<lambda>(name, _). length prefix + length suffix \<le> length name \<and>
       take (length prefix) name = prefix \<and> drop (length name - length suffix) name = suffix) (rd_files d)"

text \<open>\<open>json.loads(path.read_text())\<close> with \<open>OSError\<close> and \<open>ValueError\<close> turned into \<open>err\<close>, and the check
  that the result is a dictionary.\<close>

definition load_record ::
    "pylib \<Rightarrow> exn \<Rightarrow> exn \<Rightarrow> bytes res \<Rightarrow> (string \<times> json) list res" where
  "load_record py unreadable not_object content =
     rbind (case rbind content (json_loads py) of
         Inl OSError \<Rightarrow> Inl unreadable
       | Inl ValueError \<Rightarrow> Inl unreadable
       | r \<Rightarrow> r) (\<lambda>v.
     case v of JDict kvs \<Rightarrow> Inr kvs | _ \<Rightarrow> Inl not_object)"

lemma load_record_Inr [res_simps]:
  "load_record py e1 e2 content = Inr kvs \<longleftrightarrow> rbind content (json_loads py) = Inr (JDict kvs)"
proof (cases "rbind content (json_loads py)")
  case (Inl e)
  then show ?thesis by (simp add: load_record_def split: exn.split)
next
  case (Inr v)
  then show ?thesis by (cases v) (simp_all add: load_record_def)
qed

section \<open>Receipts\<close>

text \<open>The values a record is compared with.\<close>

record receipt_scope =
  rs_inventory :: inventory
  rs_now :: "file_identity \<times> bytes"
  rs_repository :: string

definition sum_sizes :: "(json \<times> json) list \<Rightarrow> int res" where
  "sum_sizes rows = foldM (\<lambda>acc r. case as_int (snd r) of None \<Rightarrow> Inl TypeError | Some n \<Rightarrow> Inr (acc + n)) 0 rows"

definition is_root :: "json \<Rightarrow> bool" where
  "is_root v = (case as_str v of None \<Rightarrow> False | Some s \<Rightarrow> match_served_cid s)"

definition native_record_ok ::
    "receipt_scope \<Rightarrow> (string \<times> json) list \<Rightarrow> nat \<Rightarrow> nat \<Rightarrow> nat \<Rightarrow> nat \<Rightarrow> int \<Rightarrow> bool" where
  "native_record_ok scope kvs start stop actual_end n_rows n_bytes \<longleftrightarrow>
     actual_end = stop \<and> eq_str (field kvs ''status'') ''complete'' \<and>
     eq_str (field kvs ''inventory_sha256'') (inv_sha256 (rs_inventory scope)) \<and>
     eq_int (field kvs ''start_row'') (int start) \<and> eq_int (field kvs ''end_row'') (int stop) \<and>
     eq_int (field kvs ''blocks'') (int n_rows) \<and> eq_int (field kvs ''bytes'') n_bytes \<and>
     eq_str (field kvs ''repository'') (rs_repository scope) \<and> is_root (field kvs ''root'') \<and>
     (case as_str (field kvs ''source_peer'') of None \<Rightarrow> False | Some s \<Rightarrow> s \<noteq> [])"

text \<open>\<open>_native_range\<close>\<close>

definition native_range :: "pylib \<Rightarrow> receipt_scope \<Rightarrow> string \<times> bytes res \<Rightarrow> range res" where
  "native_range py scope f =
     (case parse_range_name ''row-'' ''-native.json'' (fst f) of
        None \<Rightarrow> Inl (InventoryError ''invalid native receipt name'')
      | Some (start, final) \<Rightarrow>
          rbind (load_record py (InventoryError ''native receipt unreadable'')
            (InventoryError ''native receipt must be an object'') (snd f)) (\<lambda>kvs.
          let stop = final + 1 in
          if \<not> (start < stop \<and> stop \<le> length (inv_offsets (rs_inventory scope))) \<or> 1000 < stop - start
          then Inl (InventoryError ''native receipt range is invalid'')
          else
            rbind (inventory_rows py (rs_inventory scope) (rs_now scope) (int start) (int (stop - start)))
              (\<lambda>(rows, actual_end).
            rbind (sum_sizes rows) (\<lambda>n_bytes.
            if native_record_ok scope kvs start stop actual_end (length rows) n_bytes
            then Inr (start, stop)
            else Inl (InventoryError
              (''native receipt differs from inventory or repository: '' @ fst f))))))"

definition car_record_ok :: "receipt_scope \<Rightarrow> (string \<times> json) list \<Rightarrow> nat \<Rightarrow> nat \<Rightarrow> bool" where
  "car_record_ok scope kvs start stop \<longleftrightarrow>
     eq_str (field kvs ''status'') ''complete'' \<and>
     eq_str (field kvs ''inventory_sha256'') (inv_sha256 (rs_inventory scope)) \<and>
     eq_int (field kvs ''start_row'') (int start) \<and> eq_int (field kvs ''end_row'') (int stop) \<and>
     eq_int (field kvs ''blocks'') (int stop - int start) \<and>
     start < stop \<and> stop \<le> length (inv_offsets (rs_inventory scope)) \<and>
     is_root (field kvs ''root'') \<and>
     (case as_str (field kvs ''car_sha256'') of None \<Rightarrow> False | Some s \<Rightarrow> match_sha256 s) \<and>
     eq_str (field kvs ''repository'') (rs_repository scope)"

text \<open>The body of the loop over \<open>row-*-import.json\<close>.\<close>

definition car_range :: "pylib \<Rightarrow> receipt_scope \<Rightarrow> string \<times> bytes res \<Rightarrow> range res" where
  "car_range py scope f =
     (case parse_range_name ''row-'' ''-import.json'' (fst f) of
        None \<Rightarrow> Inl (InventoryError ''invalid CAR receipt name'')
      | Some (start, final) \<Rightarrow>
          rbind (load_record py (InventoryError ''CAR receipt unreadable'')
            (InventoryError ''CAR receipt must be an object'') (snd f)) (\<lambda>kvs.
          if car_record_ok scope kvs start (final + 1) then Inr (start, final + 1)
          else Inl (InventoryError ''CAR receipt differs from inventory or repository'')))"

section \<open>The index\<close>

record car_receipts =
  cr_mtime_ns :: "nat list option"
  cr_starts :: "nat list"
  cr_ranges :: "range list"

text \<open>The ranges of all receipts: native directories first, then the CAR directory.\<close>

definition collect :: "('a \<Rightarrow> range res) \<Rightarrow> range list \<Rightarrow> 'a list \<Rightarrow> range list res" where
  "collect f acc xs = foldM (\<lambda>acc x. rbind (f x) (\<lambda>r. Inr (acc @ [r]))) acc xs"

definition receipt_ranges ::
    "pylib \<Rightarrow> receipt_scope \<Rightarrow> receipt_dir option \<Rightarrow> receipt_dir list \<Rightarrow> range list res" where
  "receipt_ranges py scope car_dir native_dirs =
     rbind (collect (native_range py scope) []
         (concat (map (glob_files ''row-'' ''-native.json'') native_dirs))) (\<lambda>ranges.
       collect (car_range py scope) ranges
         (case car_dir of None \<Rightarrow> [] | Some d \<Rightarrow> glob_files ''row-'' ''-import.json'' d))"

definition check_dirs :: "receipt_dir list \<Rightarrow> unit res" where
  "check_dirs dirs =
     foldM (\<lambda>_ d. if \<not> rd_exists d
       then Inl (InventoryError (''receipt directory is absent: '' @ rd_name d)) else Inr ()) () dirs"

definition refresh ::
    "pylib \<Rightarrow> receipt_scope \<Rightarrow> receipt_dir option \<Rightarrow> receipt_dir list \<Rightarrow> car_receipts \<Rightarrow> car_receipts res" where
  "refresh py scope car_dir native_dirs st =
     (let dirs = (case car_dir of None \<Rightarrow> [] | Some d \<Rightarrow> [d]) @ native_dirs in
      rbind (check_dirs dirs) (\<lambda>_.
      let mtime = map rd_mtime_ns dirs in
      if Some mtime = cr_mtime_ns st then Inr st
      else
        rbind (receipt_ranges py scope car_dir native_dirs) (\<lambda>ranges.
        let covered = merge_ranges ranges in
        Inr \<lparr>cr_mtime_ns = Some mtime, cr_starts = map fst covered, cr_ranges = covered\<rparr>)))"

text \<open>\<open>__init__\<close>\<close>

definition open_receipts ::
    "pylib \<Rightarrow> receipt_scope \<Rightarrow> receipt_dir option \<Rightarrow> receipt_dir list \<Rightarrow> car_receipts res" where
  "open_receipts py scope car_dir native_dirs =
     (if car_dir = None \<and> native_dirs = [] then Inl (InventoryError ''no receipt directory given'')
      else refresh py scope car_dir native_dirs \<lparr>cr_mtime_ns = None, cr_starts = [], cr_ranges = []\<rparr>)"

text \<open>\<open>covers\<close>: refresh, then look the row of the CID up. The state after the call is returned too.\<close>

definition covers ::
    "pylib \<Rightarrow> receipt_scope \<Rightarrow> receipt_dir option \<Rightarrow> receipt_dir list \<Rightarrow> car_receipts \<Rightarrow> string \<Rightarrow>
       (bool \<times> car_receipts) res" where
  "covers py scope car_dir native_dirs st cid =
     rbind (refresh py scope car_dir native_dirs st) (\<lambda>st.
     case map_of (inv_positions (rs_inventory scope)) cid of
       None \<Rightarrow> Inl KeyError
     | Some row \<Rightarrow>
         let index = bisect_right (cr_starts st) row in
         Inr (0 < index \<and> row < snd (cr_ranges st ! (index - 1)), st))"

section \<open>What the index answers\<close>

lemma collect_Inr:
  "collect f acc xs = Inr rs \<longleftrightarrow> (\<exists>ys. list_all2 (\<lambda>x y. f x = Inr y) xs ys \<and> rs = acc @ ys)"
  unfolding collect_def
proof (induction xs arbitrary: acc)
  case Nil
  then show ?case by auto
next
  case (Cons x xs)
  then show ?case by (auto simp: res_simps list_all2_Cons1)
qed

lemma native_range_ok: "native_range py scope f = Inr r \<Longrightarrow>
    range_ok r \<and> snd r \<le> length (inv_offsets (rs_inventory scope))"
  by (auto simp: native_range_def res_simps Let_def range_ok_def)

lemma car_range_ok: "car_range py scope f = Inr r \<Longrightarrow>
    range_ok r \<and> snd r \<le> length (inv_offsets (rs_inventory scope))"
  by (auto simp: car_range_def res_simps Let_def range_ok_def car_record_ok_def)

text \<open>A receipt in one of the directories that passed its check and covers the row.\<close>

definition receipted ::
    "pylib \<Rightarrow> receipt_scope \<Rightarrow> receipt_dir option \<Rightarrow> receipt_dir list \<Rightarrow> nat \<Rightarrow> bool" where
  "receipted py scope car_dir native_dirs row \<longleftrightarrow>
     (\<exists>d \<in> set native_dirs. \<exists>f \<in> set (glob_files ''row-'' ''-native.json'' d).
        \<exists>r. native_range py scope f = Inr r \<and> fst r \<le> row \<and> row < snd r) \<or>
     (\<exists>d. car_dir = Some d \<and> (\<exists>f \<in> set (glob_files ''row-'' ''-import.json'' d).
        \<exists>r. car_range py scope f = Inr r \<and> fst r \<le> row \<and> row < snd r))"

lemma list_all2_in_ranges:
  "list_all2 (\<lambda>x y. f x = Inr y) xs ys \<Longrightarrow>
    in_ranges ys row \<longleftrightarrow> (\<exists>x \<in> set xs. \<exists>r. f x = Inr r \<and> fst r \<le> row \<and> row < snd r)"
  by (induction rule: list_all2_induct) (auto simp: in_ranges_def)

lemma list_all2_range_ok:
  "list_all2 (\<lambda>x y. f x = Inr y) xs ys \<Longrightarrow> (\<And>x r. f x = Inr r \<Longrightarrow> P r) \<Longrightarrow> \<forall>r \<in> set ys. P r"
  by (induction rule: list_all2_induct) auto

lemma receipt_ranges_spec:
  assumes "receipt_ranges py scope car_dir native_dirs = Inr ranges"
  shows "\<forall>r \<in> set ranges. range_ok r \<and> snd r \<le> length (inv_offsets (rs_inventory scope))"
    and "in_ranges ranges row \<longleftrightarrow> receipted py scope car_dir native_dirs row"
proof -
  let ?nat = "concat (map (glob_files ''row-'' ''-native.json'') native_dirs)"
  let ?car = "case car_dir of None \<Rightarrow> [] | Some d \<Rightarrow> glob_files ''row-'' ''-import.json'' d"
  from assms obtain ns cs where n: "list_all2 (\<lambda>x y. native_range py scope x = Inr y) ?nat ns"
    and c: "list_all2 (\<lambda>x y. car_range py scope x = Inr y) ?car cs" and ranges: "ranges = ns @ cs"
    by (auto simp: receipt_ranges_def res_simps collect_Inr)
  have "\<forall>r \<in> set ns. range_ok r \<and> snd r \<le> length (inv_offsets (rs_inventory scope))"
    by (rule list_all2_range_ok [OF n]) (rule native_range_ok)
  moreover have "\<forall>r \<in> set cs. range_ok r \<and> snd r \<le> length (inv_offsets (rs_inventory scope))"
    by (rule list_all2_range_ok [OF c]) (rule car_range_ok)
  ultimately show "\<forall>r \<in> set ranges. range_ok r \<and> snd r \<le> length (inv_offsets (rs_inventory scope))"
    unfolding ranges by auto
  have "in_ranges ranges row \<longleftrightarrow> in_ranges ns row \<or> in_ranges cs row"
    by (auto simp: ranges in_ranges_def)
  then show "in_ranges ranges row \<longleftrightarrow> receipted py scope car_dir native_dirs row"
    unfolding list_all2_in_ranges [OF n] list_all2_in_ranges [OF c] receipted_def
    by (auto split: option.splits)
qed

text \<open>The state is always one that \<open>refresh\<close> built.\<close>

definition receipts_current ::
    "pylib \<Rightarrow> receipt_scope \<Rightarrow> receipt_dir option \<Rightarrow> receipt_dir list \<Rightarrow> car_receipts \<Rightarrow> bool" where
  "receipts_current py scope car_dir native_dirs st \<longleftrightarrow>
     (\<exists>ranges. receipt_ranges py scope car_dir native_dirs = Inr ranges \<and>
        cr_ranges st = merge_ranges ranges) \<and> cr_starts st = map fst (cr_ranges st)"

lemma refresh_current:
  assumes "refresh py scope car_dir native_dirs st = Inr st'"
    and "cr_mtime_ns st = Some (map rd_mtime_ns ((case car_dir of None \<Rightarrow> [] | Some d \<Rightarrow> [d]) @ native_dirs)) \<longrightarrow>
      receipts_current py scope car_dir native_dirs st"
  shows "receipts_current py scope car_dir native_dirs st'"
  using assms by (auto simp: refresh_def Let_def res_simps receipts_current_def split: if_splits)

lemma covers_Inr:
  assumes "covers py scope car_dir native_dirs st cid = Inr (b, st')"
    and "cr_mtime_ns st = Some (map rd_mtime_ns ((case car_dir of None \<Rightarrow> [] | Some d \<Rightarrow> [d]) @ native_dirs)) \<longrightarrow>
      receipts_current py scope car_dir native_dirs st"
  shows "\<exists>row. map_of (inv_positions (rs_inventory scope)) cid = Some row \<and>
    (b \<longleftrightarrow> receipted py scope car_dir native_dirs row)"
proof -
  from assms(1) obtain row where ref: "refresh py scope car_dir native_dirs st = Inr st'"
    and row: "map_of (inv_positions (rs_inventory scope)) cid = Some row"
    and b: "b \<longleftrightarrow> 0 < bisect_right (cr_starts st') row \<and>
      row < snd (cr_ranges st' ! (bisect_right (cr_starts st') row - 1))"
    by (auto simp: covers_def Let_def rbind_eq_Inr split: option.splits)
  from refresh_current [OF ref assms(2)] obtain ranges where
    r: "receipt_ranges py scope car_dir native_dirs = Inr ranges" "cr_ranges st' = merge_ranges ranges"
    "cr_starts st' = map fst (cr_ranges st')" by (auto simp: receipts_current_def)
  have ok: "\<forall>r \<in> set ranges. range_ok r" using receipt_ranges_spec(1) [OF r(1)] by blast
  have "b \<longleftrightarrow> covers_row (merge_ranges ranges) row" by (simp add: b r(2,3) covers_row_def Let_def)
  also have "\<dots> \<longleftrightarrow> receipted py scope car_dir native_dirs row"
    unfolding receipts.query_build [OF ok] by (rule receipt_ranges_spec(2) [OF r(1)])
  finally show ?thesis using row by blast
qed

text \<open>C5: \<open>covers\<close> answers yes exactly when one of the receipts in the directories passes its checks
  against this inventory and repository and its row range contains the CID's row, provided the index
  in memory is not older than the directories' modification times say.\<close>

theorem covers_iff_receipted:
  assumes "covers py scope car_dir native_dirs st cid = Inr (b, st')"
    and "cr_mtime_ns st = Some (map rd_mtime_ns ((case car_dir of None \<Rightarrow> [] | Some d \<Rightarrow> [d]) @ native_dirs)) \<longrightarrow>
      receipts_current py scope car_dir native_dirs st"
  shows "\<exists>row. map_of (inv_positions (rs_inventory scope)) cid = Some row \<and>
    (b \<longleftrightarrow> receipted py scope car_dir native_dirs row)"
  using assms by (rule covers_Inr)

section \<open>A concrete receipt\<close>

definition lake_scope :: receipt_scope where
  "lake_scope = \<lparr>rs_inventory = lake_inventory, rs_now = (lake_identity, [1, 10, 2, 10]),
     rs_repository = ''/ipfs''\<rparr>"

definition receipt_py :: pylib where
  "receipt_py = lake_py\<lparr>json_loads := (\<lambda>_. Inr (JDict [(''status'', JStr ''complete''),
      (''inventory_sha256'', JStr (hex (replicate 32 7))), (''start_row'', JInt 1), (''end_row'', JInt 2),
      (''blocks'', JInt 1), (''root'', JStr sample_cid), (''car_sha256'', JStr (hex (replicate 32 7))),
      (''repository'', JStr ''/ipfs'')]))\<rparr>"

definition lake_dir :: receipt_dir where
  "lake_dir = \<lparr>rd_name = ''receipts'', rd_exists = True, rd_mtime_ns = 5,
     rd_files = [(''row-1-1-import.json'', Inr []), (''notes.txt'', Inr [])]\<rparr>"

definition closed_receipts :: car_receipts where
  "closed_receipts = \<lparr>cr_mtime_ns = None, cr_starts = [], cr_ranges = []\<rparr>"

theorem covers_iff_receipted_witness:
  "covers receipt_py lake_scope (Some lake_dir) [] closed_receipts sample_cid2 =
     Inr (True, \<lparr>cr_mtime_ns = Some [5], cr_starts = [1], cr_ranges = [(1, 2)]\<rparr>) \<and>
   receipted receipt_py lake_scope (Some lake_dir) [] 1"
proof -
  have c: "covers receipt_py lake_scope (Some lake_dir) [] closed_receipts sample_cid2 =
      Inr (True, \<lparr>cr_mtime_ns = Some [5], cr_starts = [1], cr_ranges = [(1, 2)]\<rparr>)" by code_simp
  have "\<exists>row. map_of (inv_positions (rs_inventory lake_scope)) sample_cid2 = Some row \<and>
      (True \<longleftrightarrow> receipted receipt_py lake_scope (Some lake_dir) [] row)"
    by (rule covers_iff_receipted [OF c]) (simp add: closed_receipts_def)
  moreover have "map_of (inv_positions (rs_inventory lake_scope)) sample_cid2 = Some 1" by code_simp
  ultimately show ?thesis using c by simp
qed

end
