(* ===== verification/Replication_State.thy ===== *)
theory Replication_State
  imports Actions Row_Selection Decimal_Text
begin

text \<open>
  \<open>deploy/replicate_lake.py\<close>: the checkpoint of a replication, the pinned inventories, the listing pages,
  and the migration of a checkpoint to a new inventory.
\<close>

section \<open>The checkpoint\<close>

text \<open>The state is the dictionary of the checkpoint file.\<close>

type_synonym checkpoint = "(string \<times> json) list"

definition set_key :: "string \<Rightarrow> json \<Rightarrow> checkpoint \<Rightarrow> checkpoint" where
  "set_key k v st = AList.update k v st"

lemma field_set_key [simp]: "field (set_key k v st) k' = (if k' = k then v else field st k')"
  by (simp add: field_def set_key_def update_conv')

lemma map_of_set_key [simp]: "map_of (set_key k v st) = (map_of st)(k \<mapsto> v)"
  by (simp add: set_key_def update_conv')

definition counter_keys :: "string list" where
  "counter_keys = [''cycles'', ''pages_total'', ''new_blocks_total'', ''new_bytes_total'']"

definition fresh_checkpoint :: checkpoint where
  "fresh_checkpoint = [(''schema'', JInt 1), (''cursor'', JNull), (''cycles'', JInt 0),
     (''pages_total'', JInt 0), (''new_blocks_total'', JInt 0), (''new_bytes_total'', JInt 0)]"

definition natural :: "json \<Rightarrow> bool" where
  "natural v = (case as_int v of None \<Rightarrow> False | Some n \<Rightarrow> 0 \<le> n)"

definition optional_text :: "json \<Rightarrow> bool" where
  "optional_text v = (v = JNull \<or> as_str v \<noteq> None)"

text \<open>\<open>except (OSError, ValueError)\<close>\<close>

definition unreadable :: "string \<Rightarrow> 'a res \<Rightarrow> 'a res" where
  "unreadable m r =
     (case r of Inl e \<Rightarrow> Inl (if e = OSError \<or> e = ValueError then ReplicationError m else e) | Inr x \<Rightarrow> Inr x)"

lemma unreadable_Inr [res_simps]: "unreadable m r = Inr x \<longleftrightarrow> r = Inr x"
  by (cases r) (simp_all add: unreadable_def)

definition state_load :: "pylib \<Rightarrow> fs \<Rightarrow> path \<Rightarrow> checkpoint res" where
  "state_load py fs path =
     (if \<not> exists_path fs path then Inr fresh_checkpoint
      else
        rbind (unreadable ''checkpoint unreadable'' (rbind (read_bytes fs path) (json_loads py))) (\<lambda>v.
        rbind (jget v ''schema'') (\<lambda>schema.
        case v of JDict st \<Rightarrow>
          if \<not> eq_int schema 1 \<or> (\<exists>k \<in> set (''cursor'' # counter_keys). map_of st k = None)
          then Inl (ReplicationError ''checkpoint has unknown schema'')
          else if \<not> optional_text (field st ''cursor'')
          then Inl (ReplicationError ''checkpoint cursor is invalid'')
          else if \<exists>k \<in> set counter_keys. \<not> natural (field st k)
          then Inl (ReplicationError ''checkpoint counters are invalid'')
          else Inr st
        | _ \<Rightarrow> Inl AttributeError)))"

text \<open>What every loaded state satisfies.\<close>

definition checkpoint_ok :: "checkpoint \<Rightarrow> bool" where
  "checkpoint_ok st \<longleftrightarrow> eq_int (field st ''schema'') 1 \<and> optional_text (field st ''cursor'') \<and>
     (\<forall>k \<in> set counter_keys. natural (field st k)) \<and> (\<forall>k \<in> set (''cursor'' # counter_keys). map_of st k \<noteq> None)"

lemma state_load_ok: "state_load py fs path = Inr st \<Longrightarrow> checkpoint_ok st"
proof (cases "exists_path fs path")
  case False
  then show "state_load py fs path = Inr st \<Longrightarrow> checkpoint_ok st"
    by (auto simp: state_load_def checkpoint_ok_def fresh_checkpoint_def counter_keys_def optional_text_def natural_def)
next
  case True
  then show "state_load py fs path = Inr st \<Longrightarrow> checkpoint_ok st"
    by (auto simp: state_load_def checkpoint_ok_def res_simps)
qed

definition checkpoint_text :: "pylib \<Rightarrow> checkpoint \<Rightarrow> bytes" where
  "checkpoint_text py st = json_dumps py (JDict st) @ [10]"

definition temp_name :: "path \<Rightarrow> path" where
  "temp_name p = butlast p @ [last p @ ''.tmp'']"

definition state_save :: "pylib \<Rightarrow> path \<Rightarrow> checkpoint \<Rightarrow> step list" where
  "state_save py path st =
     [Create (temp_name path) (checkpoint_text py st), Rename (temp_name path) path (checkpoint_text py st)]"

lemma temp_name_neq [simp]: "temp_name p \<noteq> p" "p \<noteq> temp_name p"
proof -
  have "last (temp_name p) \<noteq> last p" by (simp add: temp_name_def)
  then show "temp_name p \<noteq> p" "p \<noteq> temp_name p" by auto
qed

definition save_state :: "pylib \<Rightarrow> path \<Rightarrow> checkpoint \<Rightarrow> fs \<Rightarrow> fs" where
  "save_state py path st fs = run_steps (state_save py path st) fs"

lemma save_state_file [simp]:
  "map_of (save_state py path st fs) path = Some (File (checkpoint_text py st))"
  by (simp add: save_state_def state_save_def)

text \<open>What the code relies on: \<open>json.loads\<close> reads back a checkpoint that \<open>json.dump\<close> wrote.\<close>

definition checkpoint_json_ok :: "pylib \<Rightarrow> checkpoint \<Rightarrow> bool" where
  "checkpoint_json_ok py st \<longleftrightarrow> json_loads py (checkpoint_text py st) = Inr (JDict st)"

lemma state_load_saved:
  assumes "checkpoint_ok st" and "checkpoint_json_ok py st"
    and "map_of fs path = Some (File (checkpoint_text py st))"
  shows "state_load py fs path = Inr st"
  using assms by (auto simp: state_load_def checkpoint_ok_def checkpoint_json_ok_def unreadable_def)

text \<open>A power failure while the checkpoint is saved leaves the old one or the new one.\<close>

lemma state_save_crash:
  assumes "crash_state (state_save py path st) fs fs'"
  shows "map_of fs' path = map_of fs path \<or> map_of fs' path = Some (File (checkpoint_text py st))"
proof -
  from assms obtain done' rest where split: "state_save py path st = done' @ rest"
    and s: "survives done' fs fs'" by (auto simp: crash_state_def)
  have "\<forall>s \<in> set (state_save py path st). path \<notin> touches s \<or>
      (\<exists>t. t \<noteq> path \<and> s = Rename t path (checkpoint_text py st))"
    by (auto simp: state_save_def)
  then have "\<forall>s \<in> set done'. path \<notin> touches s \<or> (\<exists>t. t \<noteq> path \<and> s = Rename t path (checkpoint_text py st))"
    by (simp add: split)
  then show ?thesis by (rule survives_renamed [OF s])
qed

section \<open>Pinned inventories\<close>

definition valid_cid :: "json \<Rightarrow> bool" where
  "valid_cid v = (case as_str v of None \<Rightarrow> False | Some s \<Rightarrow> match_cid s)"

definition size_row :: "pylib \<Rightarrow> (string \<times> int) list \<Rightarrow> bytes \<Rightarrow> (string \<times> int) list res" where
  "size_row py sizes line =
     rbind (row_fields py (ReplicationError ''inventory row is unreadable'') line) (\<lambda>(cid, sz).
     let bad = ReplicationError ''inventory CID, size, or uniqueness is invalid'' in
     case (cid, sz) of
       (JStr c, JInt n) \<Rightarrow>
         if \<not> match_cid c \<or> n \<le> 0 \<or> map_of sizes c \<noteq> None then Inl bad else Inr (sizes @ [(c, n)])
     | _ \<Rightarrow> Inl bad)"

definition inventory_sizes :: "pylib \<Rightarrow> fs \<Rightarrow> path \<Rightarrow> string option \<Rightarrow> (string \<times> int) list res" where
  "inventory_sizes py fs path expected_sha =
     (case expected_sha of None \<Rightarrow> Inl (ReplicationError ''inventory digest is invalid'')
      | Some sha \<Rightarrow>
          if \<not> match_sha256 sha then Inl (ReplicationError ''inventory digest is invalid'')
          else
            rbind (read_bytes fs path) (\<lambda>content.
            rbind (foldM (size_row py) [] (file_lines content)) (\<lambda>sizes.
            if hex (sha256 py content) \<noteq> sha \<or> sizes = []
            then Inl (ReplicationError ''inventory digest differs from pinned snapshot or is empty'')
            else Inr sizes)))"

text \<open>The loop of \<open>inventory_offset\<close>: the number of rows up to the one with the given CID.\<close>

fun offset_after :: "pylib \<Rightarrow> string \<Rightarrow> nat \<Rightarrow> bytes list \<Rightarrow> nat option res" where
  "offset_after py cid index [] = Inr None"
| "offset_after py cid index (line # lines) =
     rbind (case json_loads py line of
         Inl e \<Rightarrow> Inl (if e = ValueError then ReplicationError ''inventory row is unreadable'' else e)
       | Inr row \<Rightarrow> Inr row) (\<lambda>row.
     rbind (jget row ''cid'') (\<lambda>v.
     if eq_str v cid then Inr (Some (index + 1)) else offset_after py cid (index + 1) lines))"

definition inventory_offset :: "pylib \<Rightarrow> fs \<Rightarrow> path \<Rightarrow> string \<Rightarrow> string option \<Rightarrow> string option res" where
  "inventory_offset py fs path expected_sha after_cid =
     (if \<not> match_sha256 expected_sha then Inl (ReplicationError ''inventory digest is invalid'')
      else
        rbind (read_bytes fs path) (\<lambda>content.
        rbind (case after_cid of None \<Rightarrow> Inr None
            | Some cid \<Rightarrow> offset_after py cid 0 (file_lines content)) (\<lambda>offset.
        if hex (sha256 py content) \<noteq> expected_sha
        then Inl (ReplicationError ''inventory digest differs from pinned snapshot'')
        else if after_cid \<noteq> None \<and> offset = None
        then Inl (ReplicationError ''legacy cursor CID absent from local inventory'')
        else Inr (map_option dec_text offset))))"

lemma size_row_Inr [res_simps]:
  "size_row py sizes line = Inr sizes' \<longleftrightarrow>
     (\<exists>c n. row_values py line = Inr (JStr c, JInt n) \<and> match_cid c \<and> 0 < n \<and>
        c \<notin> fst ` set sizes \<and> sizes' = sizes @ [(c, n)])"
proof (cases "row_values py line")
  case (Inl e)
  then show ?thesis by (auto simp: size_row_def rbind_eq_Inr res_simps)
next
  case (Inr r)
  then show ?thesis
    by (cases r; cases "fst r"; cases "snd r")
      (auto simp: size_row_def rbind_eq_Inr row_fields_Inr Let_def map_of_eq_None_iff not_le)
qed

lemma size_rows_distinct:
  "foldM (size_row py) sizes lines = Inr sizes' \<Longrightarrow> distinct (map fst sizes) \<Longrightarrow> distinct (map fst sizes')"
  by (erule foldM_invariant) (auto simp: size_row_Inr)

lemma inventory_sizes_Inr:
  "inventory_sizes py fs path sha = Inr sizes \<Longrightarrow> distinct (map fst sizes) \<and> sizes \<noteq> [] \<and>
    (\<exists>content h. read_bytes fs path = Inr content \<and> sha = Some h \<and> hex (sha256 py content) = h \<and>
       foldM (size_row py) [] (file_lines content) = Inr sizes)"
  by (auto simp: inventory_sizes_def res_simps dest: size_rows_distinct)

section \<open>Listing pages\<close>

record listing =
  ls_blocks :: "(string \<times> int) list"
  ls_cursor :: "string option"
  ls_truncated :: bool
  ls_inventory :: json

definition listed_block :: "json \<Rightarrow> (string \<times> int) res" where
  "listed_block v =
     (case v of
        JDict kvs \<Rightarrow>
          if \<not> valid_cid (field kvs ''cid'') then Inl (ReplicationError ''lake listing contains an invalid CID'')
          else (case (field kvs ''cid'', field kvs ''size'') of
              (JStr c, JInt n) \<Rightarrow>
                if n \<le> 0 then Inl (ReplicationError ''lake listing contains an invalid block size'') else Inr (c, n)
            | _ \<Rightarrow> Inl (ReplicationError ''lake listing contains an invalid block size''))
      | _ \<Rightarrow> Inl (ReplicationError ''lake listing contains an invalid CID''))"

fun listed_blocks :: "json list \<Rightarrow> (string \<times> int) list res" where
  "listed_blocks [] = Inr []"
| "listed_blocks (v # vs) = rbind (listed_block v) (\<lambda>b. rbind (listed_blocks vs) (\<lambda>bs. Inr (b # bs)))"

text \<open>The checks of \<open>fetch_listing\<close>, in their order.\<close>

definition check_listing :: "json \<Rightarrow> listing res" where
  "check_listing v =
     rbind (jget v ''ok'') (\<lambda>ok.
     rbind (jget v ''blocks'') (\<lambda>blocks.
     rbind (jget v ''truncated?'') (\<lambda>truncated.
     rbind (jget v ''cursor'') (\<lambda>cursor.
     rbind (jget v ''inventory-sha256'') (\<lambda>identity.
     if ok \<noteq> JBool True then Inl (ReplicationError ''lake listing did not return ok=true'')
     else case blocks of
       JList vs \<Rightarrow>
         if vs = [] \<or> 200 < length vs
         then Inl (ReplicationError ''lake listing has no bounded block page'')
         else (case truncated of
             JBool more_pages \<Rightarrow>
               if \<not> optional_text cursor
               then Inl (ReplicationError ''lake listing cursor is not a string'')
               else if more_pages \<and> (cursor = JNull \<or> cursor = JStr [])
               then Inl (ReplicationError ''truncated lake listing has no cursor'')
               else rbind (listed_blocks vs) (\<lambda>bs.
                 Inr \<lparr>ls_blocks = bs, ls_cursor = as_str cursor, ls_truncated = more_pages, ls_inventory = identity\<rparr>)
           | _ \<Rightarrow> Inl (ReplicationError ''lake listing has no truncation verdict''))
     | _ \<Rightarrow> Inl (ReplicationError ''lake listing has no bounded block page''))))))"

definition listing_query :: "(string \<Rightarrow> string) \<Rightarrow> bool \<Rightarrow> string option \<Rightarrow> string" where
  "listing_query quote local_api cursor =
     (let query = (if local_api then [] else ''?limit=200'') in
      case cursor of
        None \<Rightarrow> query
      | Some c \<Rightarrow> if c = [] then query
          else query @ (if query = [] then ''?'' else ''&'') @ ''cursor='' @ quote c)"

text \<open>\<open>get query\<close> is \<open>curl(api_url + query, 2_000_000, max_seconds=45)\<close>.\<close>

definition fetch_listing ::
    "pylib \<Rightarrow> (string \<Rightarrow> bytes res) \<Rightarrow> (string \<Rightarrow> string) \<Rightarrow> bool \<Rightarrow> string option \<Rightarrow> listing res" where
  "fetch_listing py get quote local_api cursor =
     rbind (case rbind (get (listing_query quote local_api cursor)) (json_loads py) of
         Inl e \<Rightarrow> Inl (if e = ValueError then ReplicationError ''lake listing is not JSON'' else e)
       | Inr v \<Rightarrow> Inr v) check_listing"

lemma listed_block_Inr: "listed_block v = Inr b \<Longrightarrow> match_cid (fst b) \<and> 0 < snd b"
  by (auto simp: listed_block_def valid_cid_def split: json.splits if_splits)

lemma listed_blocks_Inr: "listed_blocks vs = Inr bs \<Longrightarrow> \<forall>b \<in> set bs. match_cid (fst b) \<and> 0 < snd b"
proof (induction vs arbitrary: bs)
  case (Cons v vs)
  then obtain b bs' where "listed_block v = Inr b" "listed_blocks vs = Inr bs'" "bs = b # bs'"
    by (auto simp: res_simps)
  then show ?case using Cons.IH [of bs'] listed_block_Inr [of v b] by simp
qed simp

lemma check_listing_shape:
  assumes "check_listing v = Inr page"
  obtains vs cursor where "listed_blocks vs = Inr (ls_blocks page)" "ls_cursor page = as_str cursor"
    "optional_text cursor" "ls_truncated page \<longrightarrow> cursor \<noteq> JNull \<and> cursor \<noteq> JStr []"
proof -
  from assms obtain kvs where "v = JDict kvs" by (auto simp: check_listing_def rbind_eq_Inr jget_Inr)
  then show thesis using assms that
    by (cases "field kvs ''blocks''"; cases "field kvs ''truncated?''")
      (auto simp: check_listing_def rbind_eq_Inr split: if_splits)
qed

lemma check_listing_Inr:
  assumes "check_listing v = Inr page"
  shows "\<forall>b \<in> set (ls_blocks page). match_cid (fst b) \<and> 0 < snd b"
    and "ls_truncated page \<Longrightarrow> \<exists>c. ls_cursor page = Some c \<and> c \<noteq> []"
proof -
  from check_listing_shape [OF assms] obtain vs cursor where "listed_blocks vs = Inr (ls_blocks page)"
    and c: "ls_cursor page = as_str cursor" "optional_text cursor"
      "ls_truncated page \<longrightarrow> cursor \<noteq> JNull \<and> cursor \<noteq> JStr []" by blast
  then show "\<forall>b \<in> set (ls_blocks page). match_cid (fst b) \<and> 0 < snd b" by (blast dest: listed_blocks_Inr)
  show "ls_truncated page \<Longrightarrow> \<exists>c. ls_cursor page = Some c \<and> c \<noteq> []"
    using c by (auto simp: optional_text_def)
qed

section \<open>Migrating the checkpoint\<close>

text \<open>\<open>legacy_cursor_cid\<close>; \<open>decode\<close> is \<open>json.loads(unquote(urlsafe_b64decode(text).decode("utf-8")))\<close>.\<close>

definition match_legacy :: "string \<Rightarrow> bool" where
  "match_legacy s \<longleftrightarrow> 2 < length s \<and> take 2 s = ''1-'' \<and>
     list_all (\<lambda>c. is_alnum c \<or> c = CHR ''_'' \<or> c = CHR ''-'') (drop 2 s)"

definition legacy_cursor_cid :: "(string \<Rightarrow> json res) \<Rightarrow> string \<Rightarrow> string res" where
  "legacy_cursor_cid decode cursor =
     (if \<not> match_legacy cursor then Inl (ReplicationError ''legacy listing cursor has unknown format'')
      else
        let encoded = drop 2 cursor in
        rbind (case decode (encoded @ replicate ((4 - length encoded mod 4) mod 4) (CHR ''='')) of
            Inl e \<Rightarrow> Inl (if e = ValueError then ReplicationError ''legacy listing cursor cannot be decoded'' else e)
          | Inr v \<Rightarrow> Inr v) (\<lambda>payload.
        let key = (case payload of
              JDict kvs \<Rightarrow> if eq_int (field kvs ''v'') 1 then as_str (field kvs ''startAfter'') else None
            | _ \<Rightarrow> None) in
        case key of
          None \<Rightarrow> Inl (ReplicationError ''legacy listing cursor has no valid block CID'')
        | Some k \<Rightarrow>
            if startswith k ''ipld/'' \<and> match_cid (drop 5 k) then Inr (drop 5 k)
            else Inl (ReplicationError ''legacy listing cursor has no valid block CID'')))"

record replication_args =
  ra_state_dir :: path
  ra_local_api :: bool
  ra_inventory_path :: "path option"
  ra_inventory_sha256 :: "string option"
  ra_previous_path :: "path option"
  ra_previous_sha256 :: "string option"
  ra_max_pages :: nat
  ra_max_new_bytes :: int
  ra_max_block_bytes :: int
  ra_fetch_workers :: nat
  ra_max_prefetch_bytes :: int
  ra_min_free_bytes :: int

definition source_marker :: "string \<Rightarrow> string" where
  "source_marker sha = ''local-inventory:'' @ sha"

definition backup_checkpoint :: "path \<Rightarrow> string \<Rightarrow> string \<Rightarrow> (fs, unit) action" where
  "backup_checkpoint path name message fs =
     (if \<not> exists_path fs path then (Inr (), fs)
      else case read_bytes fs path of Inl e \<Rightarrow> (Inl e, fs) | Inr old \<Rightarrow>
        let backup = butlast path @ [name] in
        if exists_path fs backup then
          (rbind (read_bytes fs backup) (\<lambda>present.
             if present \<noteq> old then Inl (ReplicationError message) else Inr ()), fs)
        else (Inr (), write_node backup (File old) fs))"

definition adopt_marker :: "pylib \<Rightarrow> path \<Rightarrow> json \<Rightarrow> string \<Rightarrow> checkpoint \<Rightarrow> (fs, checkpoint) action" where
  "adopt_marker py path cursor marker st fs =
     (let st = set_key ''listing_source'' (JStr marker) (set_key ''cursor'' cursor st) in
      (Inr st, save_state py path st fs))"

text \<open>The branch for a checkpoint that belongs to another inventory.\<close>

definition roll_over ::
    "pylib \<Rightarrow> (string option \<Rightarrow> listing res) \<Rightarrow> replication_args \<Rightarrow> path \<Rightarrow> path \<Rightarrow> string \<Rightarrow> string \<Rightarrow>
       checkpoint \<Rightarrow> (fs, checkpoint) action" where
  "roll_over py pages args path inventory expected marker st fs =
     (if ra_previous_path args = None \<or>
        marker \<noteq> source_marker (case ra_previous_sha256 args of None \<Rightarrow> ''None'' | Some s \<Rightarrow> s)
      then (Inl (ReplicationError ''checkpoint inventory identity differs''), fs)
      else if field st ''cursor'' \<noteq> JNull \<and> \<not> match_digits (the (as_str (field st ''cursor'')))
      then (Inl (ReplicationError ''previous inventory cursor is not a numeric offset''), fs)
      else
        abind (alift (inventory_sizes py fs (the (ra_previous_path args)) (ra_previous_sha256 args))) (\<lambda>old_sizes.
        abind (alift (inventory_sizes py fs inventory (Some expected))) (\<lambda>new_sizes.
        if \<exists>(cid, n) \<in> set old_sizes. map_of new_sizes cid \<noteq> Some n
        then araise (ReplicationError ''new inventory omits or changes previous CID'')
        else
          abind (alift (pages None)) (\<lambda>page.
          if \<not> eq_str (ls_inventory page) expected
          then araise (ReplicationError ''local listing is not serving the new inventory'')
          else
            abind (backup_checkpoint path
                (''checkpoint.pre-inventory-'' @ the (ra_previous_sha256 args) @ ''.json'')
                ''inventory migration backup differs'') (\<lambda>_.
            adopt_marker py path (JStr ''0'') (source_marker expected) st)))) fs)"

definition prepare_listing_state ::
    "pylib \<Rightarrow> (string \<Rightarrow> json res) \<Rightarrow> (string option \<Rightarrow> listing res) \<Rightarrow> replication_args \<Rightarrow> path \<Rightarrow>
       checkpoint \<Rightarrow> (fs, checkpoint) action" where
  "prepare_listing_state py decode pages args path st fs =
     (if \<not> optional_text (field st ''listing_source'')
      then (Inl (ReplicationError ''checkpoint listing source is invalid''), fs)
      else
        let marker = as_str (field st ''listing_source'') in
        if \<not> ra_local_api args then
          (if marker \<noteq> None
           then (Inl (ReplicationError ''checkpoint listing source cannot use public listing''), fs)
           else (Inr st, fs))
        else case (ra_inventory_path args, ra_inventory_sha256 args) of
          (Some inventory, Some expected) \<Rightarrow>
            if expected = []
            then (Inl (ReplicationError ''local listing requires a pinned inventory path and digest''), fs)
            else if marker \<noteq> None \<and> marker \<noteq> Some [] \<and> marker \<noteq> Some (source_marker expected)
            then roll_over py pages args path inventory expected (the marker) st fs
            else
              let marked = (marker \<noteq> None \<and> marker \<noteq> Some []); cursor = as_str (field st ''cursor'') in
              if marked \<and> cursor \<noteq> None \<and> \<not> match_digits (the cursor)
              then (Inl (ReplicationError ''local listing cursor is not a numeric offset''), fs)
              else
                abind (alift (if \<not> marked \<and> cursor \<noteq> None \<and> cursor \<noteq> Some []
                    then rbind (legacy_cursor_cid decode (the cursor)) (\<lambda>c. Inr (Some c)) else Inr None)) (\<lambda>after_cid.
                abind (alift (inventory_offset py fs inventory expected after_cid)) (\<lambda>offset.
                if marked then areturn st
                else
                  abind (backup_checkpoint path ''checkpoint.pre-local-inventory.json''
                      ''checkpoint migration backup differs'') (\<lambda>_.
                  adopt_marker py path (case offset of None \<Rightarrow> JNull | Some o' \<Rightarrow> JStr o')
                    (source_marker expected) st))) fs
        | _ \<Rightarrow> (Inl (ReplicationError ''local listing requires a pinned inventory path and digest''), fs))"

lemma backup_Inr:
  assumes "backup_checkpoint path name m fs = (Inr (), fs')" and "butlast path @ [name] \<noteq> path"
  shows "map_of fs' path = map_of fs path"
    and "read_bytes fs path = Inr old \<Longrightarrow> read_bytes fs' (butlast path @ [name]) = Inr old"
    and "q \<noteq> butlast path @ [name] \<Longrightarrow> map_of fs' q = map_of fs q"
proof -
  let ?b = "butlast path @ [name]"
  have cases: "fs' = fs \<and> (\<forall>old. read_bytes fs path = Inr old \<longrightarrow> exists_path fs path \<longrightarrow> read_bytes fs ?b = Inr old) \<or>
      (\<exists>old. read_bytes fs path = Inr old \<and> fs' = write_node ?b (File old) fs)"
    using assms(1) by (auto simp: backup_checkpoint_def Let_def rbind_eq_Inr split: if_splits sum.splits)
  then show "map_of fs' path = map_of fs path" "q \<noteq> ?b \<Longrightarrow> map_of fs' q = map_of fs q"
    using assms(2) by auto
  assume rd: "read_bytes fs path = Inr old"
  then have "exists_path fs path" by (auto simp: exists_path_def read_bytes_def split: option.splits)
  then show "read_bytes fs' ?b = Inr old" using cases rd by auto
qed

lemma adopt_marker_Inr:
  "adopt_marker py path cursor marker st fs = (Inr st', fs') \<longleftrightarrow>
     st' = set_key ''listing_source'' (JStr marker) (set_key ''cursor'' cursor st) \<and>
     fs' = save_state py path st' fs"
  by (auto simp: adopt_marker_def Let_def)

lemma roll_over_Inr:
  assumes "roll_over py pages args path inventory expected marker st fs = (Inr st', fs')"
  obtains old_sizes new_sizes fs1 where
    "inventory_sizes py fs (the (ra_previous_path args)) (ra_previous_sha256 args) = Inr old_sizes"
    "inventory_sizes py fs inventory (Some expected) = Inr new_sizes"
    "\<forall>(cid, n) \<in> set old_sizes. map_of new_sizes cid = Some n"
    "backup_checkpoint path (''checkpoint.pre-inventory-'' @ the (ra_previous_sha256 args) @ ''.json'')
       ''inventory migration backup differs'' fs = (Inr (), fs1)"
    "adopt_marker py path (JStr ''0'') (source_marker expected) st fs1 = (Inr st', fs')"
proof -
  from assms obtain old_sizes new_sizes page fs1 where r:
    "inventory_sizes py fs (the (ra_previous_path args)) (ra_previous_sha256 args) = Inr old_sizes"
    "inventory_sizes py fs inventory (Some expected) = Inr new_sizes"
    "\<not> (\<exists>(cid, n) \<in> set old_sizes. map_of new_sizes cid \<noteq> Some n)"
    "backup_checkpoint path (''checkpoint.pre-inventory-'' @ the (ra_previous_sha256 args) @ ''.json'')
       ''inventory migration backup differs'' fs = (Inr (), fs1)"
    "adopt_marker py path (JStr ''0'') (source_marker expected) st fs1 = (Inr st', fs')"
    unfolding roll_over_def by (auto simp: action_dest split: if_splits)
  then show thesis by (intro that) auto
qed

text \<open>C16: a replication that continues with a new inventory has checked both pinned files: every CID of the
  old inventory is in the new one with the same size. It starts again at row 0, so no row is skipped,
  keeps the counters, records the new identity in the checkpoint on disk, and keeps a copy of the old
  checkpoint beside it.\<close>

theorem rollover_keeps_every_block:
  assumes "prepare_listing_state py decode pages args (dir @ [''checkpoint.json'']) st fs = (Inr st', fs')"
    and "ra_local_api args" and "ra_inventory_path args = Some inventory"
    and "ra_inventory_sha256 args = Some expected" and "expected \<noteq> []"
    and "field st ''listing_source'' = JStr marker" and "marker \<noteq> []" and "marker \<noteq> source_marker expected"
  shows "(\<exists>old_sizes new_sizes.
      inventory_sizes py fs (the (ra_previous_path args)) (ra_previous_sha256 args) = Inr old_sizes \<and>
      inventory_sizes py fs inventory (Some expected) = Inr new_sizes \<and>
      (\<forall>(cid, n) \<in> set old_sizes. map_of new_sizes cid = Some n)) \<and>
    field st' ''cursor'' = JStr ''0'' \<and> (\<forall>k \<in> set counter_keys. field st' k = field st k) \<and>
    map_of fs' (dir @ [''checkpoint.json'']) = Some (File (checkpoint_text py st')) \<and>
    (\<forall>old. read_bytes fs (dir @ [''checkpoint.json'']) = Inr old \<longrightarrow>
       read_bytes fs' (dir @ [''checkpoint.pre-inventory-'' @ the (ra_previous_sha256 args) @ ''.json'']) = Inr old)"
proof -
  let ?path = "dir @ [''checkpoint.json'']"
  let ?name = "''checkpoint.pre-inventory-'' @ the (ra_previous_sha256 args) @ ''.json''"
  from assms have "roll_over py pages args ?path inventory expected marker st fs = (Inr st', fs')"
    by (simp add: prepare_listing_state_def optional_text_def)
  then obtain old_sizes new_sizes fs1 where
    r: "inventory_sizes py fs (the (ra_previous_path args)) (ra_previous_sha256 args) = Inr old_sizes"
      "inventory_sizes py fs inventory (Some expected) = Inr new_sizes"
      "\<forall>(cid, n) \<in> set old_sizes. map_of new_sizes cid = Some n"
    and b: "backup_checkpoint ?path ?name ''inventory migration backup differs'' fs = (Inr (), fs1)"
    and a: "adopt_marker py ?path (JStr ''0'') (source_marker expected) st fs1 = (Inr st', fs')"
    by (rule roll_over_Inr)
  have st': "st' = set_key ''listing_source'' (JStr (source_marker expected)) (set_key ''cursor'' (JStr ''0'') st)"
    and fs': "fs' = save_state py ?path st' fs1" using a by (auto simp: adopt_marker_Inr)
  have ne: "butlast ?path @ [?name] \<noteq> ?path" "dir @ [?name] \<noteq> ?path" "dir @ [?name] \<noteq> temp_name ?path"
    by (simp_all add: temp_name_def)
  have "read_bytes fs' (dir @ [?name]) = Inr old" if "read_bytes fs ?path = Inr old" for old
  proof -
    have "map_of fs' (dir @ [?name]) = map_of fs1 (dir @ [?name])"
      using ne(2,3) by (auto simp: fs' save_state_def state_save_def)
    then have "read_bytes fs' (dir @ [?name]) = read_bytes fs1 (dir @ [?name])" by (rule query_cong(5))
    then show ?thesis using backup_Inr(2) [OF b ne(1) that] by simp
  qed
  moreover have "\<forall>k \<in> set counter_keys. field st' k = field st k"
    by (simp add: st' counter_keys_def)
  ultimately show ?thesis using r by (auto simp: st' fs')
qed

definition rollover_py :: pylib where
  "rollover_py = row_py\<lparr>sha256 := (\<lambda>d. replicate 32 (of_nat (length d)))\<rparr>"

definition old_marker :: string where
  "old_marker = hex (replicate 32 2)"

definition new_marker :: string where
  "new_marker = hex (replicate 32 3)"

definition rollover_args :: replication_args where
  "rollover_args = \<lparr>ra_state_dir = [''state''], ra_local_api = True, ra_inventory_path = Some [''new''],
     ra_inventory_sha256 = Some new_marker, ra_previous_path = Some [''old''],
     ra_previous_sha256 = Some old_marker, ra_max_pages = 1, ra_max_new_bytes = 10, ra_max_block_bytes = 4,
     ra_fetch_workers = 2, ra_max_prefetch_bytes = 8, ra_min_free_bytes = 5\<rparr>"

definition rollover_state :: checkpoint where
  "rollover_state = set_key ''listing_source'' (JStr (source_marker old_marker))
     (set_key ''cursor'' (JStr ''7'') (set_key ''cycles'' (JInt 4) fresh_checkpoint))"

definition rollover_files :: fs where
  "rollover_files = [([''old''], File [5, 10]), ([''new''], File [5, 9, 10]), ([''state''], Dir),
     ([''state'', ''checkpoint.json''], File [1])]"

definition rollover_page :: "string option \<Rightarrow> listing res" where
  "rollover_page cursor = Inr \<lparr>ls_blocks = [(sample_cid, 5)], ls_cursor = None, ls_truncated = False,
     ls_inventory = JStr new_marker\<rparr>"

theorem rollover_keeps_every_block_witness:
  "\<exists>st' fs'. prepare_listing_state rollover_py (\<lambda>_. Inl ValueError) rollover_page rollover_args
      [''state'', ''checkpoint.json''] rollover_state rollover_files = (Inr st', fs') \<and>
    field st' ''cursor'' = JStr ''0'' \<and> field st' ''cycles'' = JInt 4 \<and>
    read_bytes fs' [''state'', ''checkpoint.pre-inventory-'' @ old_marker @ ''.json''] = Inr [1]"
proof -
  let ?run = "prepare_listing_state rollover_py (\<lambda>_. Inl ValueError) rollover_page rollover_args
      [''state'', ''checkpoint.json''] rollover_state rollover_files"
  have "case fst ?run of Inr st' \<Rightarrow> True | Inl e \<Rightarrow> False" by code_simp
  then obtain st' fs' where run: "?run = (Inr st', fs')" by (cases ?run; cases "fst ?run") auto
  have facts: "ra_local_api rollover_args" "ra_inventory_path rollover_args = Some [''new'']"
    "ra_inventory_sha256 rollover_args = Some new_marker" "new_marker \<noteq> []"
    "field rollover_state ''listing_source'' = JStr (source_marker old_marker)"
    "source_marker old_marker \<noteq> []" "source_marker old_marker \<noteq> source_marker new_marker"
    by code_simp+
  have more_facts: "field rollover_state ''cycles'' = JInt 4" "''cycles'' \<in> set counter_keys"
    "read_bytes rollover_files [''state'', ''checkpoint.json''] = Inr [1]"
    "the (ra_previous_sha256 rollover_args) = old_marker"
    by code_simp+
  have path: "[''state''] @ [''checkpoint.json''] = [''state'', ''checkpoint.json'']" by simp
  from rollover_keeps_every_block [of _ _ _ _ "[''state'']", unfolded path, OF run facts] more_facts show ?thesis
    by (auto simp: run)
qed

end
