(* ===== verification/Text_Search.thy ===== *)
theory Text_Search
  imports Lake_Prelude
begin

text \<open>
  The part of Python's \<open>re\<close> module the scripts use on command output: patterns that are sequences of
  character classes, greedy repetitions of a class, line anchors, word boundaries and groups, matched
  by backtracking. The text is ASCII.
\<close>

datatype rx =
    RChar "char \<Rightarrow> bool"
  | RStar "char \<Rightarrow> bool"
  | RLine_Start
  | RLine_End
  | RWord_Boundary
  | ROpen
  | RClose

definition ascii_digit :: "char \<Rightarrow> bool" where
  "ascii_digit c \<longleftrightarrow> (let n = of_char c :: nat in 48 \<le> n \<and> n \<le> 57)"

definition ascii_space :: "char \<Rightarrow> bool" where
  "ascii_space c \<longleftrightarrow> (let n = of_char c :: nat in 9 \<le> n \<and> n \<le> 13 \<or> 28 \<le> n \<and> n \<le> 32)"

definition ascii_word :: "char \<Rightarrow> bool" where
  "ascii_word c \<longleftrightarrow> (let n = of_char c :: nat in
     48 \<le> n \<and> n \<le> 57 \<or> 65 \<le> n \<and> n \<le> 90 \<or> 97 \<le> n \<and> n \<le> 122 \<or> n = 95)"

text \<open>\<open>re.MULTILINE\<close>: \<open>^\<close> and \<open>$\<close> match at every line.\<close>

definition newline :: char where "newline = char_of (10 :: nat)"

definition rx_text :: "string \<Rightarrow> rx list" where
  "rx_text s = map (\<lambda>c. RChar ((=) c)) s"

definition rx_plus :: "(char \<Rightarrow> bool) \<Rightarrow> rx list" where
  "rx_plus p = [RChar p, RStar p]"

text \<open>
  \<open>rx_match rs pre rest start groups\<close>: match \<open>rs\<close> at a position of a text, \<open>pre\<close> being the text before it
  in reverse and \<open>rest\<close> the text after it; \<open>start\<close> is where the open group starts. The result is the
  position after the match and the groups.
\<close>

fun rx_match :: "rx list \<Rightarrow> string \<Rightarrow> string \<Rightarrow> nat \<Rightarrow> string list \<Rightarrow> (string \<times> string \<times> string list) option" where
  "rx_match [] pre rest start groups = Some (pre, rest, groups)"
| "rx_match (RChar p # rs) pre rest start groups =
     (case rest of [] \<Rightarrow> None
      | c # cs \<Rightarrow> if p c then rx_match rs (c # pre) cs start groups else None)"
| "rx_match (RStar p # rs) pre rest start groups =
     (case rest of [] \<Rightarrow> rx_match rs pre rest start groups
      | c # cs \<Rightarrow>
          if p c then
            (case rx_match (RStar p # rs) (c # pre) cs start groups of
               Some r \<Rightarrow> Some r
             | None \<Rightarrow> rx_match rs pre rest start groups)
          else rx_match rs pre rest start groups)"
| "rx_match (RLine_Start # rs) pre rest start groups =
     (if pre = [] \<or> hd pre = newline then rx_match rs pre rest start groups else None)"
| "rx_match (RLine_End # rs) pre rest start groups =
     (if rest = [] \<or> hd rest = newline then rx_match rs pre rest start groups else None)"
| "rx_match (RWord_Boundary # rs) pre rest start groups =
     (if (pre \<noteq> [] \<and> ascii_word (hd pre)) \<noteq> (rest \<noteq> [] \<and> ascii_word (hd rest))
      then rx_match rs pre rest start groups else None)"
| "rx_match (ROpen # rs) pre rest start groups = rx_match rs pre rest (length pre) groups"
| "rx_match (RClose # rs) pre rest start groups =
     rx_match rs pre rest start (groups @ [rev (take (length pre - start) pre)])"

text \<open>\<open>re.search\<close>: the groups of the leftmost match. \<open>re.findall\<close>: those of all, without overlap.\<close>

fun rx_search :: "rx list \<Rightarrow> string \<Rightarrow> string \<Rightarrow> string list option" where
  "rx_search rs pre rest =
     (case rx_match rs pre rest 0 [] of
        Some (_, _, groups) \<Rightarrow> Some groups
      | None \<Rightarrow> (case rest of [] \<Rightarrow> None | c # cs \<Rightarrow> rx_search rs (c # pre) cs))"

function rx_findall :: "rx list \<Rightarrow> string \<Rightarrow> string \<Rightarrow> string list list" where
  "rx_findall rs pre rest =
     (case rx_match rs pre rest 0 [] of
        Some (pre', rest', groups) \<Rightarrow>
          (if length rest' < length rest then groups # rx_findall rs pre' rest'
           else groups # (case rest of [] \<Rightarrow> [] | c # cs \<Rightarrow> rx_findall rs (c # pre) cs))
      | None \<Rightarrow> (case rest of [] \<Rightarrow> [] | c # cs \<Rightarrow> rx_findall rs (c # pre) cs))"
  by pat_completeness auto
termination
  by (relation "measure (\<lambda>(rs, pre, rest). length rest)") auto

declare rx_search.simps [simp del] rx_findall.simps [simp del]

text \<open>Decoding ASCII output.\<close>

definition text_of :: "bytes \<Rightarrow> string" where
  "text_of bs = map (\<lambda>b. char_of (unat b)) bs"

end
