(* ===== verification/Kubo_Rpc.thy ===== *)
theory Kubo_Rpc
  imports Replication_State Raw_Block_Store Text_Search
begin

text \<open>
  \<open>deploy/replicate_lake.py\<close>, class \<open>KuboRPC\<close>: block operations through the daemon's RPC, with the raw
  block store for what the daemon cannot pin. The HTTP exchange with the daemon is an argument, a
  function of the daemon's state \<open>'k\<close>; every exchange is recorded, so that a lemma can say which answers
  an operation relied on.
\<close>

section \<open>Exchanges\<close>

record exchange =
  ex_command :: string
  ex_params :: "(string \<times> string) list"
  ex_data :: "bytes option"
  ex_answer :: "(nat \<times> bytes) res"

type_synonym 'k rpc = "string \<Rightarrow> (string \<times> string) list \<Rightarrow> bytes option \<Rightarrow> 'k \<Rightarrow> (nat \<times> bytes) res \<times> 'k"

text \<open>The object, the files and the daemon. \<open>pins\<close> and \<open>raw_cids\<close> are sets, kept as lists; \<open>kb_log\<close> and
  \<open>kb_runs\<close> record the exchanges with the daemon and the runs of the command-line program.\<close>

record 'k rpc_kubo =
  kb_pins :: "string list"
  kb_raw_cids :: "string list"
  kb_repo_size :: int
  kb_storage_max :: int
  kb_fs :: fs
  kb_daemon :: 'k
  kb_log :: "exchange list"
  kb_runs :: "(string list \<times> (int \<times> bytes) res) list"

text \<open>\<open>Message\<close> of an error body.\<close>

definition error_detail :: "pylib \<Rightarrow> bytes \<Rightarrow> string" where
  "error_detail py body =
     (case json_loads py body of
        Inr (JDict kvs) \<Rightarrow> (case as_str (field kvs ''Message'') of None \<Rightarrow> [] | Some m \<Rightarrow> take 160 m)
      | _ \<Rightarrow> [])"

definition MAX_RPC_RESPONSE :: nat where "MAX_RPC_RESPONSE = 2000000"

text \<open>\<open>except E as exc: raise new from exc\<close>, and the test \<open>isinstance(v, dict)\<close>.\<close>

definition rename_error :: "exn \<Rightarrow> exn \<Rightarrow> 'a res \<Rightarrow> 'a res" where
  "rename_error old new r = (case r of Inl e \<Rightarrow> Inl (if e = old then new else e) | Inr x \<Rightarrow> Inr x)"

lemma rename_error_Inr [res_simps]: "rename_error old new r = Inr x \<longleftrightarrow> r = Inr x"
  by (cases r) (simp_all add: rename_error_def)

fun dict_or :: "exn \<Rightarrow> json \<Rightarrow> (string \<times> json) list res" where
  "dict_or e (JDict kvs) = Inr kvs"
| "dict_or e _ = Inl e"

lemma dict_or_Inr [res_simps]: "dict_or e v = Inr kvs \<longleftrightarrow> v = JDict kvs"
  by (cases v) auto

text \<open>The check of a repository that four scripts begin with: the identity in the configuration of the
  repository, and the address in its API file; \<open>bad\<close> is the error of the script.\<close>

definition repo_identity :: "exn \<Rightarrow> pylib \<Rightarrow> fs \<Rightarrow> path \<Rightarrow> (json \<times> string) res" where
  "repo_identity bad py fs repo =
     rename_error OSError bad (rename_error ValueError bad (rename_error KeyError bad (rename_error TypeError bad
       (rbind (rbind (read_bytes fs (repo @ [''config''])) (json_loads py)) (\<lambda>config.
        rbind (jsub config ''Identity'') (\<lambda>identity.
        rbind (jsub identity ''PeerID'') (\<lambda>peer.
        rbind (read_bytes fs (repo @ [''api''])) (\<lambda>api. Inr (peer, strip (text_of api))))))))))"

text \<open>An uncredentialed loopback origin, as two scripts ask for.\<close>

definition loopback_url :: "split_url \<Rightarrow> bool" where
  "loopback_url u \<longleftrightarrow> url_scheme u = ''http'' \<and> url_hostname u = Some ''127.0.0.1'' \<and>
     url_port u \<noteq> None \<and> url_port u \<noteq> Some 0 \<and> url_path u \<in> {[], ''/''} \<and> url_query u = [] \<and>
     url_fragment u = [] \<and> empty_text (url_username u) \<and> empty_text (url_password u)"

text \<open>\<open>_request\<close>\<close>

definition rpc_request ::
    "pylib \<Rightarrow> 'k rpc \<Rightarrow> string \<Rightarrow> (string \<times> string) list \<Rightarrow> bytes option \<Rightarrow> nat \<Rightarrow> ('k rpc_kubo, bytes) action" where
  "rpc_request py rpc name params data max_response s =
     (case rpc name params data (kb_daemon s) of (answer, k) \<Rightarrow>
      (rbind (rename_error OSError (ReplicationError (''Kubo RPC unavailable: '' @ name)) answer) (\<lambda>(status, sent).
       let body = take (max_response + 1) sent in
       if max_response < length body
       then Inl (ReplicationError (''Kubo RPC response exceeds bound: '' @ name))
       else if status \<noteq> 200
       then Inl (ReplicationError (''Kubo RPC refused '' @ name @ '' (HTTP '' @ dec_text status @ ''): '' @ error_detail py body))
       else Inr body),
       s\<lparr>kb_daemon := k, kb_log := kb_log s @ [\<lparr>ex_command = name, ex_params = params, ex_data = data,
           ex_answer = answer\<rparr>]\<rparr>))"

text \<open>\<open>_json\<close>\<close>

definition rpc_json ::
    "pylib \<Rightarrow> 'k rpc \<Rightarrow> string \<Rightarrow> (string \<times> string) list \<Rightarrow> bytes option \<Rightarrow> ('k rpc_kubo, (string \<times> json) list) action" where
  "rpc_json py rpc name params data =
     abind (rpc_request py rpc name params data MAX_RPC_RESPONSE) (\<lambda>body.
     alift (rbind (rename_error ValueError (ReplicationError (''Kubo RPC returned invalid JSON: '' @ name))
         (json_loads py body))
       (dict_or (ReplicationError (''Kubo RPC returned wrong shape: '' @ name)))))"

text \<open>\<open>except ReplicationError as exc\<close>\<close>

definition replication_message :: "exn \<Rightarrow> string option" where
  "replication_message e = (case e of ReplicationError m \<Rightarrow> Some m | _ \<Rightarrow> None)"

definition acatch_replication :: "('s, 'a) action \<Rightarrow> (string \<Rightarrow> ('s, 'a) action) \<Rightarrow> ('s, 'a) action" where
  "acatch_replication m h s =
     (case m s of
        (Inr x, s') \<Rightarrow> (Inr x, s')
      | (Inl e, s') \<Rightarrow> (case replication_message e of None \<Rightarrow> (Inl e, s') | Some msg \<Rightarrow> h msg s'))"

lemma acatch_Inr:
  "acatch_replication m h s = (Inr x, s') \<longleftrightarrow>
     m s = (Inr x, s') \<or> (\<exists>e s1 msg. m s = (Inl e, s1) \<and> replication_message e = Some msg \<and> h msg s1 = (Inr x, s'))"
  by (auto simp: acatch_replication_def split: prod.splits sum.splits option.splits)

lemma keeps_acatch [keeps_intros]:
  "keeps P m \<Longrightarrow> (\<And>msg. keeps P (h msg)) \<Longrightarrow> keeps P (acatch_replication m h)"
  unfolding keeps_def acatch_replication_def
  by (fastforce split: prod.splits sum.splits option.splits)

section \<open>Block operations\<close>

text \<open>\<open>str.split()\<close> and \<open>needle in text\<close>.\<close>

fun py_split_loop :: "string \<Rightarrow> string \<Rightarrow> string list" where
  "py_split_loop cur [] = (if cur = [] then [] else [cur])"
| "py_split_loop cur (c # cs) =
     (if py_space c then (if cur = [] then [] else [cur]) @ py_split_loop [] cs
      else py_split_loop (cur @ [c]) cs)"

definition py_split :: "string \<Rightarrow> string list" where
  "py_split s = py_split_loop [] s"

text \<open>\<open>int(text)\<close>: optional blanks and sign, digits with single underscores between them.\<close>

fun digit_groups :: "bool \<Rightarrow> string \<Rightarrow> bool" where
  "digit_groups after_digit [] = after_digit"
| "digit_groups after_digit (c # cs) =
     (if is_digit c then digit_groups True cs
      else if c = CHR ''_'' \<and> after_digit then digit_groups False cs else False)"

definition py_int :: "string \<Rightarrow> int option" where
  "py_int text =
     (let t = strip text;
          negative = (t \<noteq> [] \<and> hd t = CHR ''-'');
          digits_part = (if t \<noteq> [] \<and> (hd t = CHR ''-'' \<or> hd t = CHR ''+'') then tl t else t) in
      if \<not> digit_groups False digits_part then None
      else
        let n = int (dec_value (filter is_digit digits_part)) in Some (if negative then - n else n))"

text \<open>Python's \<open>str\<close> of an integer.\<close>

definition int_text :: "int \<Rightarrow> string" where
  "int_text i = (if i < 0 then ''-'' @ dec_text (nat (- i)) else dec_text (nat i))"

fun contains_text :: "string \<Rightarrow> string \<Rightarrow> bool" where
  "contains_text needle [] = (needle = [])"
| "contains_text needle (c # cs) = (startswith (c # cs) needle \<or> contains_text needle cs)"

definition endswith :: "string \<Rightarrow> string \<Rightarrow> bool" where
  "endswith s suffix \<longleftrightarrow> length suffix \<le> length s \<and> drop (length s - length suffix) s = suffix"

definition pin_kind :: "(string \<times> json) list \<Rightarrow> string \<Rightarrow> string \<Rightarrow> bool" where
  "pin_kind kvs cid kind =
     (case field kvs ''Keys'' of
        JDict pins \<Rightarrow> (case field pins cid of JDict entry \<Rightarrow> eq_str (field entry ''Type'') kind | _ \<Rightarrow> False)
      | _ \<Rightarrow> False)"

text \<open>The loop of \<open>durable_pin_type\<close>.\<close>

fun pin_type_in :: "pylib \<Rightarrow> 'k rpc \<Rightarrow> string \<Rightarrow> string list \<Rightarrow> ('k rpc_kubo, string option) action" where
  "pin_type_in py rpc cid [] = areturn None"
| "pin_type_in py rpc cid (kind # kinds) =
     abind (acatch_replication
         (abind (rpc_json py rpc ''pin/ls'' [(''arg'', cid), (''type'', kind)] None) (\<lambda>kvs.
            areturn (pin_kind kvs cid kind)))
         (\<lambda>_. areturn False)) (\<lambda>found.
       if found then areturn (Some kind) else pin_type_in py rpc cid kinds)"

definition durable_pin_type :: "pylib \<Rightarrow> 'k rpc \<Rightarrow> string \<Rightarrow> ('k rpc_kubo, string option) action" where
  "durable_pin_type py rpc cid = pin_type_in py rpc cid [''direct'', ''recursive'']"

text \<open>\<open>block_size\<close>; \<open>len(None)\<close> is a \<open>TypeError\<close>.\<close>

definition block_size :: "pylib \<Rightarrow> 'k rpc \<Rightarrow> path option \<Rightarrow> string \<Rightarrow> ('k rpc_kubo, int) action" where
  "block_size py rpc store cid s =
     (if cid \<in> set (kb_raw_cids s) then
        (case store of None \<Rightarrow> (Inl AttributeError, s)
         | Some root \<Rightarrow>
             (rbind (raw_read py root (kb_fs s) cid MAX_BLOCK) (\<lambda>found.
                case found of None \<Rightarrow> Inl TypeError | Some d \<Rightarrow> Inr (int (length d))), s))
      else
        abind (rpc_json py rpc ''block/stat'' [(''arg'', cid)] None) (\<lambda>kvs.
          case as_int (field kvs ''Size'') of
            None \<Rightarrow> araise (ReplicationError (''Kubo RPC block size unreadable for '' @ cid))
          | Some n \<Rightarrow>
              if n < 0 then araise (ReplicationError (''Kubo RPC block size unreadable for '' @ cid))
              else areturn n) s)"

definition add_cid :: "string \<Rightarrow> string list \<Rightarrow> string list" where
  "add_cid cid cids = List.insert cid cids"

definition put_options :: "string \<Rightarrow> bytes \<Rightarrow> string list \<Rightarrow> (string \<times> string) list res" where
  "put_options cid data prefix =
     (case prefix of
        [version, codec, hash_name, hash_length] \<Rightarrow>
          rbind (if version = ''cidv0'' then Inr [(''format'', ''v0'')]
            else if version = ''cidv1''
            then Inr [(''cid-codec'', codec), (''mhtype'', hash_name), (''mhlen'', hash_length)]
            else Inl (ReplicationError (''unsupported CID version '' @ cid))) (\<lambda>options.
          Inr (options @ (if 2 * 1024 * 1024 < length data then [(''allow-big-block'', ''true'')] else [])))
      | _ \<Rightarrow> Inl (ReplicationError (''Kubo RPC could not decode CID prefix '' @ cid)))"

definition pin_add :: "pylib \<Rightarrow> 'k rpc \<Rightarrow> string \<Rightarrow> ('k rpc_kubo, unit) action" where
  "pin_add py rpc cid =
     abind (rpc_json py rpc ''pin/add'' [(''arg'', cid), (''recursive'', ''false'')] None) (\<lambda>kvs.
       case field kvs ''Pins'' of
         JList pins \<Rightarrow>
           if JStr cid \<in> set pins then areturn ()
           else araise (ReplicationError (''Kubo RPC pin receipt differs for '' @ cid))
       | _ \<Rightarrow> araise (ReplicationError (''Kubo RPC pin receipt differs for '' @ cid)))"

text \<open>The raw store for a block the daemon decodes but refuses to pin.\<close>

definition keep_raw ::
    "pylib \<Rightarrow> path option \<Rightarrow> string \<Rightarrow> bytes \<Rightarrow> string \<times> string \<Rightarrow> string \<Rightarrow> ('k rpc_kubo, unit) action" where
  "keep_raw py store cid data tags message s =
     (case store of
        None \<Rightarrow> (Inl (ReplicationError message), s)
      | Some root \<Rightarrow>
          if \<not> contains_text ''pin: protobuf:'' message then (Inl (ReplicationError message), s)
          else (case raw_put py root (kb_fs s) cid data (fst tags) (snd tags) of
              (steps, r) \<Rightarrow>
                let s' = s\<lparr>kb_fs := run_steps steps (kb_fs s)\<rparr> in
                case r of Inl e \<Rightarrow> (Inl e, s')
                | Inr _ \<Rightarrow> (Inr (), s'\<lparr>kb_raw_cids := add_cid cid (kb_raw_cids s'),
                                      kb_pins := add_cid cid (kb_pins s')\<rparr>)))"

definition mark_pinned :: "string \<Rightarrow> ('k rpc_kubo, unit) action" where
  "mark_pinned cid s = (Inr (), s\<lparr>kb_pins := add_cid cid (kb_pins s)\<rparr>)"

text \<open>The \<open>try\<close> of \<open>put_verified\<close>; the result is whether the block went to the raw store.\<close>

definition pin_or_keep ::
    "pylib \<Rightarrow> 'k rpc \<Rightarrow> path option \<Rightarrow> string \<times> string \<Rightarrow> string \<Rightarrow> bytes \<Rightarrow> ('k rpc_kubo, bool) action" where
  "pin_or_keep py rpc store tags cid data =
     acatch_replication (abind (pin_add py rpc cid) (\<lambda>_. areturn False)) (\<lambda>message.
       abind (durable_pin_type py rpc cid) (\<lambda>kind.
         if kind = None then abind (keep_raw py store cid data tags message) (\<lambda>_. areturn True)
         else areturn False))"

definition put_verified ::
    "pylib \<Rightarrow> 'k rpc \<Rightarrow> path option \<Rightarrow> string \<times> string \<Rightarrow> string \<Rightarrow> bytes \<Rightarrow> ('k rpc_kubo, unit) action" where
  "put_verified py rpc store tags cid data =
     abind (rpc_json py rpc ''cid/format'' [(''arg'', cid), (''f'', ''%v %c %h %L'')] None) (\<lambda>kvs.
     abind (alift (put_options cid data
         (case as_str (field kvs ''Formatted'') of None \<Rightarrow> [] | Some s \<Rightarrow> py_split s))) (\<lambda>options.
     abind (rpc_json py rpc ''block/put'' options (Some data)) (\<lambda>kvs.
     if \<not> eq_str (field kvs ''Key'') cid
     then araise (ReplicationError (''Kubo RPC rederived a different CID for '' @ cid))
     else
       abind (rpc_request py rpc ''block/get'' [(''arg'', cid)] None (length data)) (\<lambda>reread.
       if reread \<noteq> data then araise (ReplicationError (''Kubo RPC readback differs for '' @ cid))
       else
         abind (pin_or_keep py rpc store tags cid data) (\<lambda>kept_raw.
         if kept_raw then areturn ()
         else
           abind (durable_pin_type py rpc cid) (\<lambda>kind.
             if kind = None then araise (ReplicationError (''Kubo RPC durable pin missing for '' @ cid))
             else mark_pinned cid))))))"

section \<open>What the daemon answered\<close>

definition rederived :: "pylib \<Rightarrow> exchange list \<Rightarrow> string \<Rightarrow> bytes \<Rightarrow> bool" where
  "rederived py log cid data \<longleftrightarrow>
     (\<exists>ex \<in> set log. ex_command ex = ''block/put'' \<and> ex_data ex = Some data \<and>
        (\<exists>body kvs. ex_answer ex = Inr (200, body) \<and> json_loads py body = Inr (JDict kvs) \<and>
           eq_str (field kvs ''Key'') cid))"

definition read_back :: "exchange list \<Rightarrow> string \<Rightarrow> bytes \<Rightarrow> bool" where
  "read_back log cid data \<longleftrightarrow>
     (\<exists>ex \<in> set log. ex_command ex = ''block/get'' \<and> ex_params ex = [(''arg'', cid)] \<and>
        ex_answer ex = Inr (200, data))"

definition confirmed_pin :: "pylib \<Rightarrow> exchange list \<Rightarrow> string \<Rightarrow> bool" where
  "confirmed_pin py log cid \<longleftrightarrow>
     (\<exists>ex \<in> set log. \<exists>kind. ex_command ex = ''pin/ls'' \<and> ex_params ex = [(''arg'', cid), (''type'', kind)] \<and>
        (\<exists>body kvs. ex_answer ex = Inr (200, body) \<and> json_loads py body = Inr (JDict kvs) \<and>
           pin_kind kvs cid kind))"

lemma rpc_request_Inr:
  assumes "rpc_request py rpc name params data max_response s = (Inr body, s')"
  shows "\<exists>ex. s' = s\<lparr>kb_daemon := kb_daemon s', kb_log := kb_log s @ [ex]\<rparr> \<and> ex_command ex = name \<and>
    ex_params ex = params \<and> ex_data ex = data \<and> ex_answer ex = Inr (200, body)"
proof -
  obtain answer k where call: "rpc name params data (kb_daemon s) = (answer, k)" by (metis surj_pair)
  with assms have s': "s' = s\<lparr>kb_daemon := k, kb_log := kb_log s @ [\<lparr>ex_command = name, ex_params = params,
      ex_data = data, ex_answer = answer\<rparr>]\<rparr>"
    and "answer = Inr (200, body)"
    by (auto simp: rpc_request_def Let_def res_simps split: sum.splits if_splits)
  then show ?thesis by (intro exI) (auto simp: s')
qed

text \<open>RPC calls only add to the log: files and pins stay as they are.\<close>

definition rpc_only :: "'k rpc_kubo \<Rightarrow> 'k rpc_kubo \<Rightarrow> bool" where
  "rpc_only s s' \<longleftrightarrow> (\<exists>new. s' = s\<lparr>kb_daemon := kb_daemon s', kb_log := kb_log s @ new\<rparr>)"

lemma rpc_only_refl [simp]: "rpc_only s s"
  unfolding rpc_only_def by (intro exI [of _ "[]"]) simp

lemma rpc_only_trans: "rpc_only s s1 \<Longrightarrow> rpc_only s1 s2 \<Longrightarrow> rpc_only s s2"
proof -
  assume "rpc_only s s1" "rpc_only s1 s2"
  then obtain a b where "s1 = s\<lparr>kb_daemon := kb_daemon s1, kb_log := kb_log s @ a\<rparr>"
    "s2 = s1\<lparr>kb_daemon := kb_daemon s2, kb_log := kb_log s1 @ b\<rparr>" by (auto simp: rpc_only_def)
  then have "s2 = s\<lparr>kb_daemon := kb_daemon s2, kb_log := kb_log s @ (a @ b)\<rparr>"
    by (cases s; cases s1; cases s2) simp
  then show ?thesis unfolding rpc_only_def by blast
qed

lemma rpc_only_facts:
  assumes "rpc_only s s'"
  shows "kb_fs s' = kb_fs s" "kb_pins s' = kb_pins s" "kb_raw_cids s' = kb_raw_cids s"
    "set (kb_log s) \<subseteq> set (kb_log s')" "kb_repo_size s' = kb_repo_size s" "kb_storage_max s' = kb_storage_max s"
    "kb_runs s' = kb_runs s"
proof -
  from assms obtain new where "s' = s\<lparr>kb_daemon := kb_daemon s', kb_log := kb_log s @ new\<rparr>"
    by (auto simp: rpc_only_def)
  then show "kb_fs s' = kb_fs s" "kb_pins s' = kb_pins s" "kb_raw_cids s' = kb_raw_cids s"
    "set (kb_log s) \<subseteq> set (kb_log s')" "kb_repo_size s' = kb_repo_size s" "kb_storage_max s' = kb_storage_max s"
    "kb_runs s' = kb_runs s"
    by (cases s; cases s'; auto)+
qed

definition only_rpc :: "('k rpc_kubo, 'a) action \<Rightarrow> bool" where
  "only_rpc m \<longleftrightarrow> (\<forall>s0. keeps (rpc_only s0) m)"

lemma only_rpc_request: "only_rpc (rpc_request py rpc name params data n)"
proof -
  have "rpc_only s (snd (rpc_request py rpc name params data n s))" for s
    by (auto simp: rpc_request_def rpc_only_def split: prod.split)
  then show ?thesis unfolding only_rpc_def keeps_def by (blast intro: rpc_only_trans)
qed

lemma only_rpc_combine [keeps_intros]:
  "only_rpc (areturn x)" "only_rpc (araise e)" "only_rpc (alift r)"
  "only_rpc m \<Longrightarrow> (\<And>x. only_rpc (f x)) \<Longrightarrow> only_rpc (abind m f)"
  "only_rpc m \<Longrightarrow> (\<And>msg. only_rpc (h msg)) \<Longrightarrow> only_rpc (acatch_replication m h)"
  "only_rpc a \<Longrightarrow> only_rpc b \<Longrightarrow> only_rpc (if c then a else b)"
  by (simp_all add: only_rpc_def keeps_intros)

lemma only_rpc_json [keeps_intros]: "only_rpc (rpc_json py rpc name params data)"
  unfolding rpc_json_def by (intro keeps_intros only_rpc_request)

lemma only_rpc_pin_type: "only_rpc (pin_type_in py rpc cid kinds)"
proof (induction kinds)
  case Nil
  show ?case unfolding pin_type_in.simps by (intro keeps_intros)
next
  case (Cons kind kinds)
  show ?case unfolding pin_type_in.simps by (intro keeps_intros Cons.IH)
qed

lemma only_rpcD: "only_rpc m \<Longrightarrow> m s = (r, s') \<Longrightarrow> rpc_only s s'"
  unfolding only_rpc_def by (rule keepsD [of _ m s]) auto

section \<open>What \<open>put_verified\<close> has established\<close>

lemma rpc_request_logged:
  assumes "rpc_request py rpc name params data n s = (Inr body, s')"
  shows "\<exists>ex \<in> set (kb_log s'). ex_command ex = name \<and> ex_params ex = params \<and> ex_data ex = data \<and>
    ex_answer ex = Inr (200, body)"
proof -
  from rpc_request_Inr [OF assms] obtain ex where
    s': "s' = s\<lparr>kb_daemon := kb_daemon s', kb_log := kb_log s @ [ex]\<rparr>" and
    ex: "ex_command ex = name" "ex_params ex = params" "ex_data ex = data" "ex_answer ex = Inr (200, body)"
    by blast
  have "kb_log s' = kb_log s @ [ex]" by (subst s') simp
  then show ?thesis using ex by auto
qed

lemma rpc_json_logged:
  assumes "rpc_json py rpc name params data s = (Inr kvs, s')"
  shows "\<exists>ex \<in> set (kb_log s'). ex_command ex = name \<and> ex_params ex = params \<and> ex_data ex = data \<and>
    (\<exists>body. ex_answer ex = Inr (200, body) \<and> json_loads py body = Inr (JDict kvs))"
proof -
  from assms obtain body where "rpc_request py rpc name params data MAX_RPC_RESPONSE s = (Inr body, s')"
    and "json_loads py body = Inr (JDict kvs)"
    by (auto simp: rpc_json_def abind_Inr res_simps)
  then show ?thesis using rpc_request_logged by blast
qed

lemma pin_type_Inr:
  assumes "pin_type_in py rpc cid kinds s = (Inr (Some kind), s')"
  shows "confirmed_pin py (kb_log s') cid"
  using assms
proof (induction kinds arbitrary: s)
  case (Cons k kinds)
  let ?ask = "acatch_replication
    (abind (rpc_json py rpc ''pin/ls'' [(''arg'', cid), (''type'', k)] None) (\<lambda>kvs. areturn (pin_kind kvs cid k)))
    (\<lambda>_. areturn False)"
  from Cons.prems obtain found s1 where t: "?ask s = (Inr found, s1)"
    and next_kind: "(if found then areturn (Some k) else pin_type_in py rpc cid kinds) s1 = (Inr (Some kind), s')"
    unfolding pin_type_in.simps abind_Inr by blast
  show ?case
  proof (cases found)
    case False
    then show ?thesis using next_kind Cons.IH by simp
  next
    case True
    with t obtain kvs where "rpc_json py rpc ''pin/ls'' [(''arg'', cid), (''type'', k)] None s = (Inr kvs, s1)"
      and "pin_kind kvs cid k" by (auto simp: acatch_Inr abind_Inr)
    then have "confirmed_pin py (kb_log s1) cid"
      using rpc_json_logged unfolding confirmed_pin_def by blast
    then show ?thesis using next_kind True by simp
  qed
qed simp

lemma evidence_mono:
  assumes "set log \<subseteq> set log'"
  shows "rederived py log cid data \<Longrightarrow> rederived py log' cid data"
    and "read_back log cid data \<Longrightarrow> read_back log' cid data"
    and "confirmed_pin py log cid \<Longrightarrow> confirmed_pin py log' cid"
  using assms unfolding rederived_def read_back_def confirmed_pin_def by blast+

lemma keep_raw_Inr:
  assumes "keep_raw py store cid data tags message s = (Inr (), s')"
  shows "\<exists>root. store = Some root \<and> snd (raw_put py root (kb_fs s) cid data (fst tags) (snd tags)) = Inr () \<and>
    kb_fs s' = raw_put_fs py root (kb_fs s) cid data (fst tags) (snd tags) \<and>
    cid \<in> set (kb_pins s') \<and> set (kb_pins s) \<subseteq> set (kb_pins s') \<and> kb_log s' = kb_log s"
  using assms
  by (auto simp: keep_raw_def Let_def raw_put_fs_def add_cid_def split: option.splits if_splits prod.splits sum.splits)

lemma only_rpc_pin_add: "only_rpc (pin_add py rpc cid)"
proof -
  have "only_rpc (case v of JList pins \<Rightarrow>
        if JStr cid \<in> set pins then areturn ()
        else araise (ReplicationError (''Kubo RPC pin receipt differs for '' @ cid))
      | _ \<Rightarrow> araise (ReplicationError (''Kubo RPC pin receipt differs for '' @ cid)))" for v
    by (cases v) (simp_all add: keeps_intros)
  then show ?thesis unfolding pin_add_def by (intro keeps_intros)
qed

lemma only_rpc_durable: "only_rpc (durable_pin_type py rpc cid)"
  unfolding durable_pin_type_def by (rule only_rpc_pin_type)

lemmas rpc_steps = only_rpcD [OF only_rpc_json] only_rpcD [OF only_rpc_request]
  only_rpcD [OF only_rpc_durable] only_rpcD [OF only_rpc_pin_add]

lemma pin_or_keep_Inr:
  assumes "pin_or_keep py rpc store tags cid data s = (Inr kept, s')"
  shows "if kept then \<exists>s1 message. rpc_only s s1 \<and> keep_raw py store cid data tags message s1 = (Inr (), s')
    else rpc_only s s'"
proof -
  from assms consider
      "abind (pin_add py rpc cid) (\<lambda>_. areturn False) s = (Inr kept, s')"
    | e s1 message where "abind (pin_add py rpc cid) (\<lambda>_. areturn False) s = (Inl e, s1)"
        "abind (durable_pin_type py rpc cid) (\<lambda>kind.
          if kind = None then abind (keep_raw py store cid data tags message) (\<lambda>_. areturn True)
          else areturn False) s1 = (Inr kept, s')"
    unfolding pin_or_keep_def acatch_Inr by blast
  then show ?thesis
  proof cases
    case 1
    then show ?thesis using rpc_steps(4) by (auto simp: abind_Inr)
  next
    case 2
    have s1: "rpc_only s s1" using 2(1) rpc_steps(4) by (auto simp: abind_Inl)
    from 2(2) obtain kind s2 where d: "durable_pin_type py rpc cid s1 = (Inr kind, s2)"
      and k: "(if kind = None then abind (keep_raw py store cid data tags message) (\<lambda>_. areturn True)
        else areturn False) s2 = (Inr kept, s')" by (auto simp: abind_Inr)
    have s2: "rpc_only s s2" using rpc_only_trans [OF s1 rpc_steps(3) [OF d]] .
    show ?thesis
    proof (cases kind)
      case None
      then show ?thesis using k s2 by (auto simp: abind_Inr)
    next
      case (Some x)
      then show ?thesis using k s2 by auto
    qed
  qed
qed

lemma put_verified_Inr:
  assumes "put_verified py rpc store tags cid data s = (Inr (), s')"
  obtains s1 where "rpc_only s s1" "rederived py (kb_log s1) cid data" "read_back (kb_log s1) cid data"
    "(\<exists>s2 message. rpc_only s1 s2 \<and> keep_raw py store cid data tags message s2 = (Inr (), s')) \<or>
     (\<exists>s2. rpc_only s1 s2 \<and> confirmed_pin py (kb_log s2) cid \<and> mark_pinned cid s2 = (Inr (), s'))"
proof -
  from assms obtain kvs a options kvs' b c kept d where
    calls: "rpc_json py rpc ''cid/format'' [(''arg'', cid), (''f'', ''%v %c %h %L'')] None s = (Inr kvs, a)"
      "rpc_json py rpc ''block/put'' options (Some data) a = (Inr kvs', b)"
      "eq_str (field kvs' ''Key'') cid"
      "rpc_request py rpc ''block/get'' [(''arg'', cid)] None (length data) b = (Inr data, c)"
      "pin_or_keep py rpc store tags cid data c = (Inr kept, d)"
    and fin: "(if kept then areturn ()
         else
           abind (durable_pin_type py rpc cid) (\<lambda>kind.
             if kind = None then araise (ReplicationError (''Kubo RPC durable pin missing for '' @ cid))
             else mark_pinned cid)) d = (Inr (), s')"
    unfolding put_verified_def
    by (auto simp: abind_Inr split: if_splits)
  have bc: "rpc_only b c" using rpc_steps(2) [OF calls(4)] .
  have "rpc_only s c"
    using rpc_only_trans [OF rpc_only_trans [OF rpc_steps(1) [OF calls(1)] rpc_steps(1) [OF calls(2)]] bc] .
  moreover have "rederived py (kb_log c) cid data"
    by (rule evidence_mono(1) [OF rpc_only_facts(4) [OF bc]])
      (use rpc_json_logged [OF calls(2)] calls(3) in \<open>auto simp: rederived_def\<close>)
  moreover have "read_back (kb_log c) cid data"
    using rpc_request_logged [OF calls(4)] by (auto simp: read_back_def)
  moreover have "(\<exists>s2 message. rpc_only c s2 \<and> keep_raw py store cid data tags message s2 = (Inr (), s')) \<or>
     (\<exists>s2. rpc_only c s2 \<and> confirmed_pin py (kb_log s2) cid \<and> mark_pinned cid s2 = (Inr (), s'))"
  proof (cases kept)
    case True
    then show ?thesis using pin_or_keep_Inr [OF calls(5)] fin by auto
  next
    case False
    then have cd: "rpc_only c d" using pin_or_keep_Inr [OF calls(5)] by simp
    from False fin obtain kind e where k: "durable_pin_type py rpc cid d = (Inr (Some kind), e)"
      and m: "mark_pinned cid e = (Inr (), s')" by (auto simp: abind_Inr split: if_splits)
    have "confirmed_pin py (kb_log e) cid" using k unfolding durable_pin_type_def by (rule pin_type_Inr)
    then show ?thesis using rpc_only_trans [OF cd rpc_steps(3) [OF k]] m by blast
  qed
  ultimately show thesis by (rule that)
qed

text \<open>C14: \<open>put_verified\<close> returns only when the daemon derived this CID from exactly these bytes, gave the
  same bytes back, and afterwards confirmed a direct or recursive pin; or, when its pin command could
  not decode the block, when the raw store has the block and can read it back. Only then is the CID
  counted as held.\<close>

theorem put_verified_evidence:
  assumes "put_verified py rpc store tags cid data s = (Inr (), s')"
    and "\<And>root. store = Some root \<Longrightarrow> consistent py root (kb_fs s)" and "meta_readable py cid data"
  shows "cid \<in> set (kb_pins s') \<and> rederived py (kb_log s') cid data \<and> read_back (kb_log s') cid data \<and>
    (confirmed_pin py (kb_log s') cid \<or>
     (\<exists>root. store = Some root \<and> consistent py root (kb_fs s') \<and>
        (\<forall>n \<ge> length data. raw_read py root (kb_fs s') cid n = Inr (Some data))))"
proof -
  from assms(1) obtain s1 where s1: "rpc_only s s1" "rederived py (kb_log s1) cid data" "read_back (kb_log s1) cid data"
    and how: "(\<exists>s2 message. rpc_only s1 s2 \<and> keep_raw py store cid data tags message s2 = (Inr (), s')) \<or>
     (\<exists>s2. rpc_only s1 s2 \<and> confirmed_pin py (kb_log s2) cid \<and> mark_pinned cid s2 = (Inr (), s'))"
    by (rule put_verified_Inr)
  from how show ?thesis
  proof (elim disjE exE conjE)
    fix s2 message
    assume s2: "rpc_only s1 s2" and k: "keep_raw py store cid data tags message s2 = (Inr (), s')"
    from keep_raw_Inr [OF k] obtain root where r: "store = Some root"
      "snd (raw_put py root (kb_fs s2) cid data (fst tags) (snd tags)) = Inr ()"
      "kb_fs s' = raw_put_fs py root (kb_fs s2) cid data (fst tags) (snd tags)"
      "cid \<in> set (kb_pins s')" "kb_log s' = kb_log s2" by blast
    have fs: "kb_fs s2 = kb_fs s" using rpc_only_facts(1) s1(1) s2 by metis
    have c: "consistent py root (kb_fs s2)" using assms(2) [OF r(1)] fs by simp
    then have "consistent py root (kb_fs s')" using raw.add_valid [OF c] r(3) by simp
    moreover have "\<forall>n \<ge> length data. raw_read py root (kb_fs s') cid n = Inr (Some data)"
      using raw.add_get [OF c assms(3)] r(2,3) by simp
    ultimately show ?thesis
      using r s1(2,3) evidence_mono [OF rpc_only_facts(4) [OF s2]] by auto
  next
    fix s2
    assume s2: "rpc_only s1 s2" and c: "confirmed_pin py (kb_log s2) cid" and m: "mark_pinned cid s2 = (Inr (), s')"
    then have "kb_log s' = kb_log s2" "cid \<in> set (kb_pins s')" by (auto simp: mark_pinned_def add_cid_def)
    then show ?thesis using c s1(2,3) evidence_mono [OF rpc_only_facts(4) [OF s2]] by auto
  qed
qed

text \<open>A toy daemon that keeps the CIDs it has pinned.\<close>

definition batch_py :: pylib where
  "batch_py = \<lparr>sha256 = (\<lambda>_. replicate 32 0),
     json_loads = (\<lambda>text.
       if text = [1] then Inr (JDict [(''Keys'', JDict [(''x'', JDict [(''Type'', JStr ''direct'')])])])
       else if text = [2] then Inr (JDict [(''Formatted'', JStr ''cidv1 raw sha2-256 32'')])
       else if text = [3] then Inr (JDict [(''Key'', JStr ''x'')])
       else if text = [4] then Inr (JDict [(''Pins'', JList [JStr ''x''])])
       else if text = [9, 10] then Inr (block_meta \<lparr>sha256 = (\<lambda>_. replicate 32 0), json_loads = (\<lambda>_. Inl ValueError),
         json_dumps = (\<lambda>_. [])\<rparr> ''x'' [7])
       else if text = [5] then Inr (JDict [(''RepoPath'', JStr ''repo'')])
       else Inr (JDict [])),
     json_dumps = (\<lambda>_. [9])\<rparr>"

definition batch_rpc :: "string list rpc" where
  "batch_rpc name params data pinned =
     (let say = (\<lambda>body. Inr (200, body)) in
      if name = ''pin/ls'' then (say [if ''x'' \<in> set pinned then 1 else 0], pinned)
      else if name = ''cid/format'' then (say [2], pinned)
      else if name = ''block/put'' then (say [3], pinned)
      else if name = ''block/get'' then (say [7], pinned)
      else if name = ''pin/add'' then (say [4], ''x'' # pinned)
      else (say [5], pinned))"

definition empty_kubo :: "string list rpc_kubo" where
  "empty_kubo = \<lparr>kb_pins = [], kb_raw_cids = [], kb_repo_size = 0, kb_storage_max = 0,
     kb_fs = [([''state''], Dir), ([''repo''], Dir)], kb_daemon = [], kb_log = [], kb_runs = []\<rparr>"

theorem put_verified_evidence_witness:
  "\<exists>s'. put_verified batch_py batch_rpc None (''t'', ''u'') ''x'' [7] empty_kubo = (Inr (), s') \<and>
     ''x'' \<in> set (kb_pins s') \<and> rederived batch_py (kb_log s') ''x'' [7] \<and> read_back (kb_log s') ''x'' [7]"
proof -
  have "fst (put_verified batch_py batch_rpc None (''t'', ''u'') ''x'' [7] empty_kubo) = Inr ()" by code_simp
  then obtain s' where run: "put_verified batch_py batch_rpc None (''t'', ''u'') ''x'' [7] empty_kubo = (Inr (), s')"
    by (metis prod.collapse)
  have none: "None = Some root \<Longrightarrow> consistent batch_py root (kb_fs empty_kubo)" for root by simp
  have meta: "meta_readable batch_py ''x'' [7]"
    by (simp add: meta_readable_def batch_py_def block_meta_def json_text_def)
  from put_verified_evidence [OF run none meta] run show ?thesis by blast
qed

end
