(* ===== verification/Lake_Audit.thy ===== *)
theory Lake_Audit
  imports Car_Receipts Kubo_Rpc Text_Search
begin

text \<open>
  \<open>deploy/audit_lake.py\<close>: which rows of an inventory are held, by evidence that is checked now: receipts
  whose roots are still pinned and still list the rows, pins of the blocks themselves, and blocks of the
  raw store that match their CID. Shown: the report counts exactly the rows with such evidence, in both
  audits, and says \<open>complete\<close> just when no row is without.
\<close>

section \<open>What the daemon is asked\<close>

text \<open>\<open>pins_of_type\<close>: the pins of one kind (a set, kept as a list).\<close>

definition pin_line :: "string \<Rightarrow> string list \<Rightarrow> string \<Rightarrow> string list res" where
  "pin_line kind pins line =
     (let parts = py_split line in
      if length parts \<noteq> 2 \<or> \<not> match_cid (parts ! 0) \<or> parts ! 1 \<noteq> kind
      then Inl (AuditError ''Kubo pin listing has invalid line'')
      else Inr (List.insert (parts ! 0) pins))"

definition pins_of_type :: "bool \<Rightarrow> 'w runner \<Rightarrow> string \<Rightarrow> string \<Rightarrow> ('w, string list) action" where
  "pins_of_type installed run ipfs_bin kind w =
     (if \<not> installed then (Inl (AuditError ''Kubo binary does not exist''), w)
      else case run [ipfs_bin, ''pin'', ''ls'', ''--type='' @ kind] w of (answer, w) \<Rightarrow>
        (rbind (rename_error TimeoutExpired (AuditError (''Kubo pin listing timed out: '' @ kind))
           (rename_error OSError (AuditError ''Kubo pin listing could not run'') answer)) (\<lambda>(rc, out).
           if rc \<noteq> 0 then Inl (AuditError (''Kubo pin listing failed: '' @ kind))
           else foldM (pin_line kind) [] (splitlines (text_of out))), w))"

definition durable_pins :: "bool \<Rightarrow> 'w runner \<Rightarrow> string \<Rightarrow> ('w, string list) action" where
  "durable_pins installed run ipfs_bin =
     afold (\<lambda>pins kind. abind (pins_of_type installed run ipfs_bin kind) (\<lambda>more. areturn (List.union more pins))) []
       [''direct'', ''recursive'', ''indirect'']"

text \<open>\<open>receipt_root\<close>: the DAG node of a root.\<close>

definition receipt_root :: "pylib \<Rightarrow> 'w runner \<Rightarrow> string \<Rightarrow> string \<Rightarrow> ('w, json) action" where
  "receipt_root py run ipfs_bin cid w =
     (case run [ipfs_bin, ''--offline'', ''dag'', ''get'', cid] w of (answer, w) \<Rightarrow>
        (let failed = AuditError (''CAR root read failed: '' @ cid) in
         rbind (rename_error TimeoutExpired failed (rename_error OSError failed answer)) (\<lambda>(rc, out).
           if rc \<noteq> 0 then Inl (AuditError (''CAR root is unavailable: '' @ cid))
           else rename_error ValueError (AuditError (''CAR root is not JSON: '' @ cid)) (json_loads py out)), w))"

text \<open>\<open>verify_repo\<close>: the daemon behind the repository's API file answers with the repository's identity.\<close>

definition repo_files :: "pylib \<Rightarrow> fs \<Rightarrow> path \<Rightarrow> (json \<times> string) res" where
  "repo_files = repo_identity (AuditError ''Kubo repository identity is unavailable'')"

definition verify_repo :: "pylib \<Rightarrow> fs \<Rightarrow> 'w runner \<Rightarrow> string \<Rightarrow> path \<Rightarrow> ('w, unit) action" where
  "verify_repo py fs run ipfs_bin repo =
     abind (alift (repo_files py fs repo)) (\<lambda>(expected, api_address).
     case as_str expected of
       None \<Rightarrow> araise (AuditError ''Kubo repository identity is invalid'')
     | Some expected \<Rightarrow>
         if expected = [] \<or> api_address = [] then araise (AuditError ''Kubo repository identity is invalid'')
         else
           (\<lambda>w. case run [ipfs_bin, ''id'', ''-f'', ''<id>''] w of (answer, w) \<Rightarrow>
             (let failed = AuditError ''Kubo repository check failed'' in
              rbind (rename_error TimeoutExpired failed (rename_error OSError failed answer)) (\<lambda>(rc, out).
                if rc \<noteq> 0 then Inl (AuditError ''Kubo repository is unavailable'')
                else if strip (text_of out) \<noteq> expected
                then Inl (AuditError ''Kubo daemon uses a different repository'') else Inr ()), w)))"

section \<open>Receipts\<close>

text \<open>What the receipts are compared with: the inventory, its file as it is now, the resolved repository
  path, and the pins.\<close>

record audit_scope =
  as_inventory :: inventory
  as_now :: "file_identity \<times> bytes"
  as_repository :: string
  as_recursive :: "string list"
  as_direct :: "string list"

text \<open>A receipt file: its name, and what reading it gives.\<close>

type_synonym receipt_file = "string \<times> bytes res"

record tally =
  ty_covered :: "bool list"
  ty_car :: nat
  ty_native :: nat
  ty_large :: nat
  ty_direct :: nat
  ty_raw :: nat
  ty_unpinned_car :: nat
  ty_unpinned_native :: nat
  ty_unpinned_large :: nat

definition no_rows :: "nat \<Rightarrow> tally" where
  "no_rows n = \<lparr>ty_covered = replicate n False, ty_car = 0, ty_native = 0, ty_large = 0, ty_direct = 0, ty_raw = 0,
     ty_unpinned_car = 0, ty_unpinned_native = 0, ty_unpinned_large = 0\<rparr>"

definition is_cid :: "json \<Rightarrow> bool" where
  "is_cid v = (case as_str v of None \<Rightarrow> False | Some s \<Rightarrow> match_cid s)"

text \<open>The two kinds of range receipts differ in their name, in one field and in which counters they use.\<close>

datatype range_kind = Car | Native

fun kind_suffix :: "range_kind \<Rightarrow> string" where
  "kind_suffix Car = ''-import.json''"
| "kind_suffix Native = ''-native.json''"

fun kind_text :: "range_kind \<Rightarrow> string" where
  "kind_text Car = ''CAR''"
| "kind_text Native = ''native''"

fun kind_field_ok :: "range_kind \<Rightarrow> (string \<times> json) list \<Rightarrow> bool" where
  "kind_field_ok Car kvs =
     (case as_str (field kvs ''car_sha256'') of None \<Rightarrow> False | Some s \<Rightarrow> match_sha256 s)"
| "kind_field_ok Native kvs =
     (case as_str (field kvs ''source_peer'') of None \<Rightarrow> False | Some s \<Rightarrow> s \<noteq> [])"

text \<open>Reading a receipt and comparing it with the inventory: its range, its root and the rows.\<close>

definition range_receipt ::
    "range_kind \<Rightarrow> pylib \<Rightarrow> audit_scope \<Rightarrow> receipt_file \<Rightarrow> (nat \<times> nat \<times> string \<times> (json \<times> json) list) res" where
  "range_receipt kind py sc f =
     (case parse_range_name ''row-'' (kind_suffix kind) (fst f) of
        None \<Rightarrow> Inl (AuditError (''invalid '' @ kind_text kind @ '' receipt name''))
      | Some (start, final) \<Rightarrow>
          let stop = final + 1; ivt = as_inventory sc;
              differs = AuditError (kind_text kind @ '' receipt differs from inventory: '' @ fst f) in
          if \<not> (start < stop \<and> stop \<le> length (inv_offsets ivt)) \<or> 1000 < stop - start
          then Inl (AuditError (kind_text kind @ '' receipt range is invalid''))
          else
            rbind (inventory_rows py ivt (as_now sc) (int start) (int (stop - start))) (\<lambda>(rows, actual_end).
            rbind (rbind (snd f) (json_loads py)) (\<lambda>receipt.
            rbind (jget receipt ''root'') (\<lambda>cid.
            case receipt of JDict kvs \<Rightarrow>
              if actual_end \<noteq> stop \<or> \<not> eq_str (field kvs ''status'') ''complete'' \<or>
                \<not> eq_str (field kvs ''inventory_sha256'') (inv_sha256 ivt) \<or>
                \<not> eq_int (field kvs ''start_row'') (int start) \<or> \<not> eq_int (field kvs ''end_row'') (int stop) \<or>
                \<not> eq_int (field kvs ''blocks'') (int (length rows))
              then Inl differs
              else
                rbind (sum_sizes rows) (\<lambda>n_bytes.
                if \<not> eq_int (field kvs ''bytes'') n_bytes \<or> \<not> eq_str (field kvs ''repository'') (as_repository sc) \<or>
                  \<not> is_cid cid \<or> \<not> kind_field_ok kind kvs
                then Inl differs
                else Inr (start, stop, the (as_str cid), rows))
            | _ \<Rightarrow> Inl AttributeError))))"

text \<open>\<open>root_reader(root) != expected\<close>: a dictionary with exactly these five entries.\<close>

definition root_lists :: "json \<Rightarrow> string \<Rightarrow> nat \<Rightarrow> nat \<Rightarrow> (json \<times> json) list \<Rightarrow> bool" where
  "root_lists v sha start stop rows \<longleftrightarrow>
     (case v of
        JDict kvs \<Rightarrow>
          set (map fst kvs) = {''schema'', ''inventory-sha256'', ''start-row'', ''end-row'', ''links''} \<and>
          eq_int (field kvs ''schema'') 1 \<and> eq_str (field kvs ''inventory-sha256'') sha \<and>
          eq_int (field kvs ''start-row'') (int start) \<and> eq_int (field kvs ''end-row'') (int stop) \<and>
          (case field kvs ''links'' of
             JList links \<Rightarrow> list_all2 (\<lambda>link row.
               case link of JDict l \<Rightarrow> set (map fst l) = {''/''} \<and> field l ''/'' = fst row | _ \<Rightarrow> False) links rows
           | _ \<Rightarrow> False)
      | _ \<Rightarrow> False)"

definition cover_rows :: "nat \<Rightarrow> nat \<Rightarrow> bool list \<Rightarrow> bool list" where
  "cover_rows start stop covered = foldl (\<lambda>c row. c[row := True]) covered [start..<stop]"

fun count_unpinned :: "range_kind \<Rightarrow> tally \<Rightarrow> tally" where
  "count_unpinned Car t = t\<lparr>ty_unpinned_car := ty_unpinned_car t + 1\<rparr>"
| "count_unpinned Native t = t\<lparr>ty_unpinned_native := ty_unpinned_native t + 1\<rparr>"

fun count_rows :: "range_kind \<Rightarrow> nat \<Rightarrow> tally \<Rightarrow> tally" where
  "count_rows Car n t = t\<lparr>ty_car := ty_car t + n\<rparr>"
| "count_rows Native n t = t\<lparr>ty_native := ty_native t + n\<rparr>"

text \<open>The body of the loops over the CAR and the native receipts.\<close>

definition audit_range ::
    "range_kind \<Rightarrow> pylib \<Rightarrow> audit_scope \<Rightarrow> (string \<Rightarrow> ('w, json) action) \<Rightarrow> tally \<Rightarrow> receipt_file \<Rightarrow> ('w, tally) action" where
  "audit_range kind py sc root_reader t f =
     abind (alift (range_receipt kind py sc f)) (\<lambda>(start, stop, cid, rows).
     if cid \<notin> set (as_recursive sc) then areturn (count_unpinned kind t)
     else
       abind (root_reader cid) (\<lambda>v.
       if \<not> root_lists v (inv_sha256 (as_inventory sc)) start stop rows
       then araise (AuditError (''pinned '' @ kind_text kind @ '' root differs from inventory: '' @ cid))
       else areturn (count_rows kind (length rows) (t\<lparr>ty_covered := cover_rows start stop (ty_covered t)\<rparr>))))"

text \<open>\<open>re.fullmatch("row-([0-9]+)" + suffix, name)\<close>\<close>

definition parse_row_name :: "string \<Rightarrow> string \<Rightarrow> nat option" where
  "parse_row_name suffix name =
     (let rest = drop 4 name; a = takeWhile is_digit rest in
      if take 4 name \<noteq> ''row-'' \<or> a = [] \<or> dropWhile is_digit rest \<noteq> suffix then None else Some (dec_value a))"

text \<open>A receipt for one large block, recovered from a CAR of its pieces: its row, its root, and the CID of the
  row. (The rows of an unchanged inventory file are texts and integers.)\<close>

definition large_receipt :: "pylib \<Rightarrow> audit_scope \<Rightarrow> receipt_file \<Rightarrow> (nat \<times> string \<times> string) res" where
  "large_receipt py sc f =
     (case parse_row_name ''-jacob-import.json'' (fst f) of
        None \<Rightarrow> Inl (AuditError ''invalid large recovery receipt name'')
      | Some row \<Rightarrow>
          let ivt = as_inventory sc; differs = AuditError (''large recovery receipt differs from inventory: '' @ fst f) in
          if length (inv_offsets ivt) \<le> row then Inl (AuditError ''large recovery row is invalid'')
          else
            rbind (inventory_rows py ivt (as_now sc) (int row) 1) (\<lambda>(rows, _).
            case rows of [] \<Rightarrow> Inl IndexError
            | item # _ \<Rightarrow>
            rbind (rbind (snd f) (json_loads py)) (\<lambda>receipt.
            rbind (jget receipt ''recovery_root'') (\<lambda>cid.
            case (receipt, as_str (fst item), as_int (snd item)) of
              (JDict kvs, Some original, Some n) \<Rightarrow>
                if \<not> eq_str (field kvs ''status'') ''complete'' \<or> \<not> eq_int (field kvs ''row'') (int row) \<or>
                  \<not> eq_str (field kvs ''inventory_sha256'') (inv_sha256 ivt) \<or>
                  \<not> eq_str (field kvs ''original_cid'') original \<or> \<not> eq_int (field kvs ''original_bytes'') n
                then Inl differs
                else
                  rbind (sha256_digest original) (\<lambda>digest.
                  if \<not> eq_str (field kvs ''original_sha256'') (hex digest) \<or>
                    \<not> eq_str (field kvs ''repository'') (as_repository sc) \<or> \<not> is_cid cid \<or> \<not> kind_field_ok Car kvs
                  then Inl differs
                  else Inr (row, the (as_str cid), original))
            | _ \<Rightarrow> Inl TypeError))))"

definition audit_large :: "pylib \<Rightarrow> audit_scope \<Rightarrow> tally \<Rightarrow> receipt_file \<Rightarrow> tally res" where
  "audit_large py sc t f =
     rbind (large_receipt py sc f) (\<lambda>(row, cid, original).
     Inr (if cid \<notin> set (as_recursive sc) then t\<lparr>ty_unpinned_large := ty_unpinned_large t + 1\<rparr>
          else if original \<in> set (as_direct sc) \<or> original \<in> set (as_recursive sc)
          then t\<lparr>ty_covered := (ty_covered t)[row := True], ty_large := ty_large t + 1\<rparr>
          else t))"

section \<open>Pins and raw blocks\<close>

definition audit_pin :: "audit_scope \<Rightarrow> tally \<Rightarrow> string \<Rightarrow> tally res" where
  "audit_pin sc t cid =
     (case map_of (inv_positions (as_inventory sc)) cid of
        None \<Rightarrow> Inr t
      | Some row \<Rightarrow> Inr (t\<lparr>ty_covered := (ty_covered t)[row := True], ty_direct := ty_direct t + 1\<rparr>))"

text \<open>The raw store is given as a directory of a file system.\<close>

definition size_of :: "inventory \<Rightarrow> string \<Rightarrow> int res" where
  "size_of ivt cid = (case map_of (inv_sizes ivt) cid of None \<Rightarrow> Inl KeyError | Some n \<Rightarrow> Inr n)"

definition audit_raw :: "pylib \<Rightarrow> audit_scope \<Rightarrow> path \<Rightarrow> fs \<Rightarrow> tally \<Rightarrow> string \<Rightarrow> tally res" where
  "audit_raw py sc store fs t cid =
     (case map_of (inv_positions (as_inventory sc)) cid of
        None \<Rightarrow> Inr t
      | Some row \<Rightarrow>
          rbind (size_of (as_inventory sc) cid) (\<lambda>n.
          rbind (raw_read py store fs cid (nat n)) (\<lambda>body.
          case body of
            None \<Rightarrow> Inl (AuditError (''raw block differs from inventory: '' @ cid))
          | Some data \<Rightarrow>
              if int (length data) \<noteq> n then Inl (AuditError (''raw block differs from inventory: '' @ cid))
              else Inr (t\<lparr>ty_covered := (ty_covered t)[row := True], ty_raw := ty_raw t + 1\<rparr>))))"

section \<open>The report\<close>

record audit_report =
  rp_complete :: bool
  rp_inventory_rows :: nat
  rp_inventory_bytes :: int
  rp_covered_rows :: nat
  rp_covered_bytes :: int
  rp_missing_rows :: int
  rp_missing_bytes :: int
  rp_missing_sample :: "string list"
  rp_inventory_sha256 :: string
  rp_tally :: tally

definition count_row ::
    "inventory \<Rightarrow> bool list \<Rightarrow> nat \<times> int \<times> string list \<Rightarrow> string \<times> nat \<Rightarrow> (nat \<times> int \<times> string list) res" where
  "count_row ivt covered = (\<lambda>(rows, byte_count, missing) (cid, row).
     if covered ! row then rbind (size_of ivt cid) (\<lambda>n. Inr (rows + 1, byte_count + n, missing))
     else Inr (rows, byte_count, if length missing < 3 then missing @ [cid] else missing))"

definition audit_summary :: "inventory \<Rightarrow> tally \<Rightarrow> audit_report res" where
  "audit_summary ivt t =
     rbind (foldM (count_row ivt (ty_covered t)) (0, 0, []) (inv_positions ivt)) (\<lambda>(rows, byte_count, missing).
     let count = length (inv_offsets ivt) in
     Inr \<lparr>rp_complete = (rows = count), rp_inventory_rows = count, rp_inventory_bytes = inv_total_bytes ivt,
          rp_covered_rows = rows, rp_covered_bytes = byte_count, rp_missing_rows = int count - int rows,
          rp_missing_bytes = inv_total_bytes ivt - byte_count, rp_missing_sample = missing,
          rp_inventory_sha256 = inv_sha256 ivt, rp_tally = t\<rparr>)"

record receipt_files =
  rf_car :: "receipt_file list"
  rf_large :: "receipt_file list"
  rf_native :: "receipt_file list"

definition audit_receipts ::
    "pylib \<Rightarrow> audit_scope \<Rightarrow> (path \<times> fs) option \<Rightarrow> (string \<Rightarrow> ('w, json) action) \<Rightarrow> bool \<Rightarrow> receipt_files \<Rightarrow>
       ('w, audit_report) action" where
  "audit_receipts py sc raw_store root_reader native_dirs files =
     abind (afold (audit_range Car py sc root_reader) (no_rows (length (inv_offsets (as_inventory sc)))) (rf_car files)) (\<lambda>t.
     abind (if native_dirs then afold (audit_range Native py sc root_reader) t (rf_native files) else areturn t) (\<lambda>t.
     alift
       (rbind (foldM (audit_large py sc) t (rf_large files)) (\<lambda>t.
        rbind (foldM (audit_pin sc) t (List.union (as_direct sc) (as_recursive sc))) (\<lambda>t.
        rbind (case raw_store of
            None \<Rightarrow> Inr t
          | Some (store, fs) \<Rightarrow> rbind (raw_cids py store fs) (foldM (audit_raw py sc store fs) t)) (\<lambda>t.
        audit_summary (as_inventory sc) t))))))"

section \<open>The audit by pins alone\<close>

record pin_tally =
  pt_seen :: "string list"
  pt_bytes :: int
  pt_pinned :: nat
  pt_pinned_bytes :: int
  pt_raw :: nat
  pt_raw_bytes :: int
  pt_missing :: "string list"

definition no_pins :: pin_tally where
  "no_pins = \<lparr>pt_seen = [], pt_bytes = 0, pt_pinned = 0, pt_pinned_bytes = 0, pt_raw = 0, pt_raw_bytes = 0,
     pt_missing = []\<rparr>"

definition audit_line ::
    "pylib \<Rightarrow> string list \<Rightarrow> (path \<times> fs) option \<Rightarrow> string list \<Rightarrow> pin_tally \<Rightarrow> bytes \<Rightarrow> pin_tally res" where
  "audit_line py pins raw_store held t line =
     (let at = dec_text (length (pt_seen t) + 1) in
      rbind (row_fields py (AuditError (''invalid inventory row at '' @ at)) line) (\<lambda>(cid, n).
      case (as_str cid, as_int n) of
        (Some cid, Some n) \<Rightarrow>
          if \<not> match_cid cid \<or> n < 1 then Inl (AuditError (''invalid CID or size at '' @ at))
          else if cid \<in> set (pt_seen t) then Inl (AuditError (''duplicate inventory CID at '' @ at))
          else
            let t = t\<lparr>pt_seen := pt_seen t @ [cid], pt_bytes := pt_bytes t + n\<rparr> in
            if cid \<in> set pins
            then Inr (t\<lparr>pt_pinned := pt_pinned t + 1, pt_pinned_bytes := pt_pinned_bytes t + n\<rparr>)
            else (case raw_store of
              Some (store, fs) \<Rightarrow>
                if cid \<in> set held then
                  rbind (raw_read py store fs cid (nat n)) (\<lambda>body.
                  case body of
                    None \<Rightarrow> Inl (AuditError (''raw block size differs from inventory: '' @ cid))
                  | Some data \<Rightarrow>
                      if int (length data) \<noteq> n
                      then Inl (AuditError (''raw block size differs from inventory: '' @ cid))
                      else Inr (t\<lparr>pt_raw := pt_raw t + 1, pt_raw_bytes := pt_raw_bytes t + n\<rparr>))
                else Inr (if length (pt_missing t) < 3 then t\<lparr>pt_missing := pt_missing t @ [cid]\<rparr> else t)
            | None \<Rightarrow> Inr (if length (pt_missing t) < 3 then t\<lparr>pt_missing := pt_missing t @ [cid]\<rparr> else t))
      | _ \<Rightarrow> Inl (AuditError (''invalid CID or size at '' @ at))))"

record pin_report =
  pr_complete :: bool
  pr_inventory_rows :: nat
  pr_inventory_bytes :: int
  pr_pinned_rows :: nat
  pr_pinned_bytes :: int
  pr_raw_rows :: nat
  pr_raw_bytes :: int
  pr_missing_rows :: int
  pr_missing_bytes :: int
  pr_missing_sample :: "string list"
  pr_inventory_sha256 :: string

definition pin_summary :: "pin_tally \<Rightarrow> string \<Rightarrow> pin_report" where
  "pin_summary t sha =
     (let count = length (pt_seen t); missing = int count - int (pt_pinned t) - int (pt_raw t) in
      \<lparr>pr_complete = (missing = 0), pr_inventory_rows = count, pr_inventory_bytes = pt_bytes t,
       pr_pinned_rows = pt_pinned t, pr_pinned_bytes = pt_pinned_bytes t, pr_raw_rows = pt_raw t,
       pr_raw_bytes = pt_raw_bytes t, pr_missing_rows = missing,
       pr_missing_bytes = pt_bytes t - pt_pinned_bytes t - pt_raw_bytes t,
       pr_missing_sample = pt_missing t, pr_inventory_sha256 = sha\<rparr>)"

definition audit_inventory ::
    "pylib \<Rightarrow> bytes res \<Rightarrow> string \<Rightarrow> int \<Rightarrow> string list \<Rightarrow> (path \<times> fs) option \<Rightarrow> pin_report res" where
  "audit_inventory py source expected_sha256 expected_count pins raw_store =
     (if expected_count < 1 \<or> \<not> match_sha256 expected_sha256
      then Inl (AuditError ''declared snapshot identity is invalid'')
      else
        rbind (case raw_store of None \<Rightarrow> Inr [] | Some (store, fs) \<Rightarrow> raw_cids py store fs) (\<lambda>held.
        rbind (rename_error OSError (AuditError ''inventory unreadable'')
            (rbind source (\<lambda>content. rbind (foldM (audit_line py pins raw_store held) no_pins (file_lines content)) (\<lambda>t.
               Inr (t, content))))) (\<lambda>(t, content).
        if int (length (pt_seen t)) \<noteq> expected_count \<or> hex (sha256 py content) \<noteq> expected_sha256
        then Inl (AuditError ''inventory count or SHA-256 differs from declared snapshot'')
        else Inr (pin_summary t (hex (sha256 py content))))))"

section \<open>Evidence\<close>

text \<open>Evidence for a row: a CAR or native receipt that agrees with the inventory and whose root is pinned, a
  direct or recursive pin of the block, or a block of the raw store that can be read with the right size.\<close>

definition receipt_evidence :: "range_kind \<Rightarrow> pylib \<Rightarrow> audit_scope \<Rightarrow> receipt_file \<Rightarrow> nat \<Rightarrow> bool" where
  "receipt_evidence kind py sc f i \<longleftrightarrow>
     (\<exists>start stop cid rows. range_receipt kind py sc f = Inr (start, stop, cid, rows) \<and>
        cid \<in> set (as_recursive sc) \<and> start \<le> i \<and> i < stop)"

definition raw_evidence :: "pylib \<Rightarrow> (path \<times> fs) option \<Rightarrow> string \<Rightarrow> int \<Rightarrow> bool" where
  "raw_evidence py raw_store cid n \<longleftrightarrow>
     (\<exists>store fs cids data. raw_store = Some (store, fs) \<and> raw_cids py store fs = Inr cids \<and> cid \<in> set cids \<and>
        raw_read py store fs cid (nat n) = Inr (Some data) \<and> int (length data) = n)"

definition row_evidence ::
    "pylib \<Rightarrow> audit_scope \<Rightarrow> (path \<times> fs) option \<Rightarrow> bool \<Rightarrow> receipt_files \<Rightarrow> nat \<Rightarrow> string \<times> int \<Rightarrow> bool" where
  "row_evidence py sc raw_store native_dirs files i row \<longleftrightarrow>
     (\<exists>f \<in> set (rf_car files). receipt_evidence Car py sc f i) \<or>
     native_dirs \<and> (\<exists>f \<in> set (rf_native files). receipt_evidence Native py sc f i) \<or>
     fst row \<in> set (as_direct sc) \<or> fst row \<in> set (as_recursive sc) \<or>
     raw_evidence py raw_store (fst row) (snd row)"

text \<open>A step that marks the rows \<open>E\<close>.\<close>

definition adds_rows :: "(nat \<Rightarrow> bool) \<Rightarrow> tally \<Rightarrow> tally \<Rightarrow> bool" where
  "adds_rows E t t' \<longleftrightarrow> length (ty_covered t') = length (ty_covered t) \<and>
     (\<forall>i < length (ty_covered t). ty_covered t' ! i \<longleftrightarrow> ty_covered t ! i \<or> E i)"

lemma adds_rows_trans: "adds_rows E t t1 \<Longrightarrow> adds_rows F t1 t2 \<Longrightarrow> adds_rows (\<lambda>i. E i \<or> F i) t t2"
  by (simp add: adds_rows_def)

lemma adds_no_rows: "ty_covered t' = ty_covered t \<Longrightarrow> \<forall>i. \<not> E i \<Longrightarrow> adds_rows E t t'"
  by (simp add: adds_rows_def)

lemma adds_rows_afold:
  assumes "\<And>t x s t' s'. x \<in> set xs \<Longrightarrow> f t x s = (Inr t', s') \<Longrightarrow> adds_rows (E x) t t'"
    and "afold f t xs s = (Inr t', s')"
  shows "adds_rows (\<lambda>i. \<exists>x \<in> set xs. E x i) t t'"
  using assms
proof (induction xs arbitrary: t s)
  case (Cons x xs)
  from Cons.prems(2) obtain t1 s1 where one: "f t x s = (Inr t1, s1)" and rest: "afold f t1 xs s1 = (Inr t', s')"
    by (auto split: prod.splits sum.splits)
  have "adds_rows (E x) t t1" by (rule Cons.prems(1) [OF _ one]) simp
  moreover have "adds_rows (\<lambda>i. \<exists>x \<in> set xs. E x i) t1 t'" using Cons.prems(1) rest by (intro Cons.IH) auto
  ultimately show ?case using adds_rows_trans by fastforce
qed (simp add: adds_rows_def)

lemma adds_rows_foldM:
  assumes "\<And>t x t'. x \<in> set xs \<Longrightarrow> f t x = Inr t' \<Longrightarrow> adds_rows (E x) t t'" and "foldM f t xs = Inr t'"
  shows "adds_rows (\<lambda>i. \<exists>x \<in> set xs. E x i) t t'"
  using assms
proof (induction xs arbitrary: t)
  case (Cons x xs)
  from Cons.prems(2) obtain t1 where one: "f t x = Inr t1" and rest: "foldM f t1 xs = Inr t'" by (auto simp: res_simps)
  have "adds_rows (E x) t t1" by (rule Cons.prems(1) [OF _ one]) simp
  moreover have "adds_rows (\<lambda>i. \<exists>x \<in> set xs. E x i) t1 t'" using Cons.prems(1) rest by (intro Cons.IH) auto
  ultimately show ?case using adds_rows_trans by fastforce
qed (simp add: adds_rows_def)

lemma mark_nth [simp]: "i < length c \<Longrightarrow> c[k := True] ! i \<longleftrightarrow> c ! i \<or> k = i"
  by (cases "k = i") simp_all

lemma cover_rows_length [simp]: "length (cover_rows start stop covered) = length covered"
  unfolding cover_rows_def by (induction stop) simp_all

lemma cover_rows_nth [simp]:
  "i < length covered \<Longrightarrow> cover_rows start stop covered ! i \<longleftrightarrow> covered ! i \<or> start \<le> i \<and> i < stop"
proof (induction stop)
  case (Suc stop)
  have "cover_rows start (Suc stop) covered =
      (if start \<le> stop then (cover_rows start stop covered)[stop := True] else cover_rows start stop covered)"
    by (simp add: cover_rows_def)
  then show ?case using Suc by (auto simp: less_Suc_eq)
qed (simp add: cover_rows_def)

lemma count_tally_simps [simp]:
  "ty_covered (count_unpinned kind t) = ty_covered t" "ty_covered (count_rows kind n t) = ty_covered t"
  by (cases kind; simp)+

lemma audit_range_cases:
  assumes "audit_range kind py sc rd t f w = (Inr t', w')"
  obtains (unpinned) start stop cid rows where "range_receipt kind py sc f = Inr (start, stop, cid, rows)"
    "cid \<notin> set (as_recursive sc)" "t' = count_unpinned kind t"
  | (pinned) start stop cid rows v where "range_receipt kind py sc f = Inr (start, stop, cid, rows)"
    "cid \<in> set (as_recursive sc)" "rd cid w = (Inr v, w')" "root_lists v (inv_sha256 (as_inventory sc)) start stop rows"
    "t' = count_rows kind (length rows) (t\<lparr>ty_covered := cover_rows start stop (ty_covered t)\<rparr>)"
proof -
  from assms obtain start stop cid rows where r: "range_receipt kind py sc f = Inr (start, stop, cid, rows)"
    by (auto simp: audit_range_def abind_Inr)
  show ?thesis
  proof (cases "cid \<in> set (as_recursive sc)")
    case True
    obtain a w1 where rd: "rd cid w = (a, w1)" by (metis surj_pair)
    have "audit_range kind py sc rd t f w = (case a of Inl e \<Rightarrow> (Inl e, w1) | Inr v \<Rightarrow>
        (if \<not> root_lists v (inv_sha256 (as_inventory sc)) start stop rows
         then (Inl (AuditError (''pinned '' @ kind_text kind @ '' root differs from inventory: '' @ cid)), w1)
         else (Inr (count_rows kind (length rows) (t\<lparr>ty_covered := cover_rows start stop (ty_covered t)\<rparr>)), w1)))"
      using True r rd by (simp add: audit_range_def abind_def split: sum.split)
    then show ?thesis using assms r True rd pinned by (auto split: sum.splits if_splits)
  next
    case False
    then have "t' = count_unpinned kind t" using assms r by (simp add: audit_range_def abind_def)
    then show ?thesis using r False unpinned by blast
  qed
qed

lemma audit_range_adds:
  "audit_range kind py sc rd t f w = (Inr t', w') \<Longrightarrow> adds_rows (receipt_evidence kind py sc f) t t'"
  by (erule audit_range_cases) (auto simp: receipt_evidence_def adds_rows_def)

lemma audit_pin_adds:
  "audit_pin sc t cid = Inr t' \<Longrightarrow> adds_rows (\<lambda>i. map_of (inv_positions (as_inventory sc)) cid = Some i) t t'"
  by (auto simp: audit_pin_def adds_rows_def split: option.splits)

lemma audit_raw_adds:
  assumes "audit_raw py sc store fs t cid = Inr t'"
  shows "adds_rows (\<lambda>i. map_of (inv_positions (as_inventory sc)) cid = Some i \<and>
    (\<exists>n data. map_of (inv_sizes (as_inventory sc)) cid = Some n \<and> raw_read py store fs cid (nat n) = Inr (Some data) \<and>
      int (length data) = n)) t t'"
  using assms by (auto simp: audit_raw_def size_of_def adds_rows_def res_simps split: option.splits if_splits)

lemma audit_large_adds:
  assumes "audit_large py sc t f = Inr t'"
  shows "adds_rows (\<lambda>i. \<exists>cid original. large_receipt py sc f = Inr (i, cid, original) \<and>
    cid \<in> set (as_recursive sc) \<and> (original \<in> set (as_direct sc) \<or> original \<in> set (as_recursive sc))) t t'"
proof -
  from assms obtain row cid original where "large_receipt py sc f = Inr (row, cid, original)"
    by (auto simp: audit_large_def res_simps)
  with assms show ?thesis by (auto simp: audit_large_def adds_rows_def split: if_splits)
qed

text \<open>The CID a large receipt is about is that of its row.\<close>

lemma large_receipt_row:
  assumes "represents py content rows (as_inventory sc)" and "as_now sc = (inv_identity (as_inventory sc), content)"
    and "large_receipt py sc f = Inr (i, cid, original)"
  shows "i < length rows \<and> original = fst (rows ! i)"
proof -
  let ?ivt = "as_inventory sc"
  have len: "length (inv_offsets ?ivt) = length rows" using assms(1) by (simp add: represents_def)
  from assms(3) obtain k where name: "parse_row_name ''-jacob-import.json'' (fst f) = Some k"
    by (auto simp: large_receipt_def split: option.splits)
  with assms(3) len have k: "k < length rows" by (auto simp: large_receipt_def Let_def split: if_splits)
  from inventory_rows_Inr [OF assms(1) k, of 1] assms(2)
  have "inventory_rows py ?ivt (as_now sc) (int k) 1 = Inr ([row_json (rows ! k)], min (k + 1) (length rows))"
    using k by (simp add: hd_drop_conv_nth [symmetric] take_Suc)
  moreover from this assms(3) name k len obtain receipt where "rbind (snd f) (json_loads py) = Inr receipt"
    by (auto simp: large_receipt_def Let_def rbind_eq_Inr split: if_splits list.splits)
  ultimately show ?thesis using assms(3) name k len
    by (cases receipt) (auto simp: large_receipt_def Let_def row_json_def rbind_eq_Inr split: if_splits)
qed

lemma position_of_row:
  assumes "represents py content rows ivt"
  shows "map_of (inv_positions ivt) cid = Some i \<longleftrightarrow> i < length rows \<and> fst (rows ! i) = cid"
    and "i < length rows \<Longrightarrow> map_of (inv_sizes ivt) (fst (rows ! i)) = Some (snd (rows ! i))"
proof -
  have d: "distinct (map fst rows)" and p: "inv_positions ivt = zip (map fst rows) [0..<length rows]"
    and sizes: "inv_sizes ivt = rows" using assms by (auto simp: represents_def)
  have "map_of (zip (map fst rows) [0..<length rows]) cid = Some i \<longleftrightarrow> (cid, i) \<in> set (zip (map fst rows) [0..<length rows])"
    using d by (intro map_of_eq_Some_iff) simp
  then show "map_of (inv_positions ivt) cid = Some i \<longleftrightarrow> i < length rows \<and> fst (rows ! i) = cid"
    unfolding p by (auto simp: in_set_zip intro!: exI [of _ i])
  show "i < length rows \<Longrightarrow> map_of (inv_sizes ivt) (fst (rows ! i)) = Some (snd (rows ! i))"
    using d sizes by (simp add: map_of_eq_Some_iff)
qed

text \<open>The loop of the summary.\<close>

lemma count_row_simp:
  "count_row ivt covered (a, b, m) (cid, row) =
     (if covered ! row then rbind (size_of ivt cid) (\<lambda>n. Inr (a + 1, b + n, m))
      else Inr (a, b, if length m < 3 then m @ [cid] else m))"
  by (simp add: count_row_def)

lemma count_rows_loop:
  assumes "\<And>r. r \<in> set rows \<Longrightarrow> map_of (inv_sizes ivt) (fst r) = Some (snd r)"
  shows "foldM (count_row ivt covered) (a, b, m) (zip (map fst rows) [k..<k + length rows]) =
    Inr (a + length (filter (\<lambda>i. covered ! (k + i)) [0..<length rows]),
         b + (\<Sum>i\<leftarrow>filter (\<lambda>i. covered ! (k + i)) [0..<length rows]. snd (rows ! i)),
         if length m < 3 then take 3 (m @ map (\<lambda>i. fst (rows ! i)) (filter (\<lambda>i. \<not> covered ! (k + i)) [0..<length rows])) else m)"
  using assms
proof (induction rows arbitrary: k a b m)
  case (Cons r rows)
  have shift: "[0..<length (r # rows)] = 0 # map Suc [0..<length rows]" by (simp add: map_Suc_upt upt_conv_Cons del: upt_Suc)
  have zip: "zip (map fst (r # rows)) [k..<k + length (r # rows)] = (fst r, k) # zip (map fst rows) [Suc k..<Suc k + length rows]"
    by (simp add: upt_conv_Cons del: upt_Suc)
  have IH: "foldM (count_row ivt covered) (a, b, m) (zip (map fst rows) [Suc k..<Suc k + length rows]) =
    Inr (a + length (filter (\<lambda>i. covered ! (Suc k + i)) [0..<length rows]),
         b + (\<Sum>i\<leftarrow>filter (\<lambda>i. covered ! (Suc k + i)) [0..<length rows]. snd (rows ! i)),
         if length m < 3 then take 3 (m @ map (\<lambda>i. fst (rows ! i)) (filter (\<lambda>i. \<not> covered ! (Suc k + i)) [0..<length rows])) else m)"
    for a b m by (rule Cons.IH) (simp add: Cons.prems)
  show ?case
    unfolding zip shift foldM.simps count_row_simp
    using Cons.prems [of r]
    by (simp add: IH [unfolded add_Suc] size_of_def filter_map comp_def take_Cons' del: upt_Suc)
qed simp

text \<open>Which rows are marked at the end.\<close>

lemma audit_marks:
  assumes "represents py content rows (as_inventory sc)" and "as_now sc = (inv_identity (as_inventory sc), content)"
    and "audit_receipts py sc raw_store rd native_dirs files w = (Inr rep, w')"
  shows "\<exists>t. audit_summary (as_inventory sc) t = Inr rep \<and> length (ty_covered t) = length rows \<and>
    (\<forall>i < length rows. ty_covered t ! i \<longleftrightarrow> row_evidence py sc raw_store native_dirs files i (rows ! i))"
proof -
  let ?ivt = "as_inventory sc" and ?pins = "List.union (as_direct sc) (as_recursive sc)"
  note pos = position_of_row [OF assms(1)]
  have len: "length (inv_offsets ?ivt) = length rows" using assms(1) by (simp add: represents_def)
  from assms(3) obtain t1 w1 t2 w2 t3 t4 t5 where
    1: "afold (audit_range Car py sc rd) (no_rows (length rows)) (rf_car files) w = (Inr t1, w1)" and
    2: "(if native_dirs then afold (audit_range Native py sc rd) t1 (rf_native files) else areturn t1) w1 = (Inr t2, w2)" and
    3: "foldM (audit_large py sc) t2 (rf_large files) = Inr t3" and 4: "foldM (audit_pin sc) t3 ?pins = Inr t4" and
    5: "(case raw_store of None \<Rightarrow> Inr t4
         | Some (store, fs) \<Rightarrow> rbind (raw_cids py store fs) (foldM (audit_raw py sc store fs) t4)) = Inr t5" and
    6: "audit_summary ?ivt t5 = Inr rep"
    unfolding audit_receipts_def len by (auto simp: abind_Inr rbind_eq_Inr)
  let ?E1 = "\<lambda>i. \<exists>f \<in> set (rf_car files). receipt_evidence Car py sc f i"
  let ?E2 = "\<lambda>i. native_dirs \<and> (\<exists>f \<in> set (rf_native files). receipt_evidence Native py sc f i)"
  let ?E3 = "\<lambda>i. \<exists>f \<in> set (rf_large files). \<exists>cid original. large_receipt py sc f = Inr (i, cid, original) \<and>
    cid \<in> set (as_recursive sc) \<and> (original \<in> set (as_direct sc) \<or> original \<in> set (as_recursive sc))"
  let ?E4 = "\<lambda>i. \<exists>cid \<in> set ?pins. map_of (inv_positions ?ivt) cid = Some i"
  let ?E5 = "\<lambda>i. i < length rows \<and> raw_evidence py raw_store (fst (rows ! i)) (snd (rows ! i))"
  have a1: "adds_rows ?E1 (no_rows (length rows)) t1" by (rule adds_rows_afold [OF _ 1]) (rule audit_range_adds)
  have a2: "adds_rows ?E2 t1 t2"
  proof (cases native_dirs)
    case True
    with 2 have "afold (audit_range Native py sc rd) t1 (rf_native files) w1 = (Inr t2, w2)" by simp
    then have "adds_rows (\<lambda>i. \<exists>f \<in> set (rf_native files). receipt_evidence Native py sc f i) t1 t2"
      by (rule adds_rows_afold [rotated]) (rule audit_range_adds)
    with True show ?thesis by simp
  qed (use 2 in \<open>simp add: adds_rows_def\<close>)
  have a3: "adds_rows ?E3 t2 t3" by (rule adds_rows_foldM [OF _ 3]) (rule audit_large_adds)
  have a4: "adds_rows ?E4 t3 t4" by (rule adds_rows_foldM [OF _ 4]) (rule audit_pin_adds)
  have a5: "adds_rows ?E5 t4 t5"
  proof (cases raw_store)
    case None
    with 5 show ?thesis by (simp add: adds_rows_def raw_evidence_def)
  next
    case (Some st)
    obtain store fs where st: "st = (store, fs)" by (cases st)
    from 5 Some st obtain cids where cids: "raw_cids py store fs = Inr cids"
      and fold: "foldM (audit_raw py sc store fs) t4 cids = Inr t5" by (auto simp: rbind_eq_Inr)
    let ?E = "\<lambda>i. \<exists>cid \<in> set cids. map_of (inv_positions ?ivt) cid = Some i \<and>
      (\<exists>n data. map_of (inv_sizes ?ivt) cid = Some n \<and> raw_read py store fs cid (nat n) = Inr (Some data) \<and>
        int (length data) = n)"
    have "adds_rows ?E t4 t5" by (rule adds_rows_foldM [OF _ fold]) (rule audit_raw_adds)
    moreover have "?E i \<longleftrightarrow> ?E5 i" for i
      using pos(2) [of i] Some st cids unfolding pos(1) raw_evidence_def by auto
    ultimately show ?thesis by simp
  qed
  have "adds_rows (\<lambda>i. (((?E1 i \<or> ?E2 i) \<or> ?E3 i) \<or> ?E4 i) \<or> ?E5 i) (no_rows (length rows)) t5"
    using adds_rows_trans [OF adds_rows_trans [OF adds_rows_trans [OF adds_rows_trans [OF a1 a2] a3] a4] a5] .
  then have t5: "length (ty_covered t5) = length rows"
    "\<And>i. i < length rows \<Longrightarrow> ty_covered t5 ! i \<longleftrightarrow> ((((?E1 i \<or> ?E2 i) \<or> ?E3 i) \<or> ?E4 i) \<or> ?E5 i)"
    by (simp_all add: adds_rows_def no_rows_def)
  have "?E3 i \<Longrightarrow> ?E4 i" for i
    using large_receipt_row [OF assms(1,2)] unfolding pos(1) by fastforce
  moreover have "?E4 i \<longleftrightarrow> fst (rows ! i) \<in> set (as_direct sc) \<or> fst (rows ! i) \<in> set (as_recursive sc)"
    if "i < length rows" for i using that unfolding pos(1) by auto
  ultimately have "ty_covered t5 ! i \<longleftrightarrow> row_evidence py sc raw_store native_dirs files i (rows ! i)"
    if "i < length rows" for i using t5(2) that unfolding row_evidence_def by blast
  then show ?thesis using 6 t5(1) by blast
qed

lemma partition_sum:
  fixes g :: "nat \<Rightarrow> int"
  shows "(\<Sum>i\<leftarrow>filter P xs. g i) = (\<Sum>i\<leftarrow>xs. g i) - (\<Sum>i\<leftarrow>filter (\<lambda>i. \<not> P i) xs. g i)"
  by (induction xs) simp_all

lemma partition_length: "length (filter P xs) = length xs - length (filter (\<lambda>i. \<not> P i) xs)"
  using sum_length_filter_compl [of P xs] by simp

lemma map_by_index: "map f xs = map (\<lambda>i. f (xs ! i)) [0..<length xs]"
  by (rule nth_equalityI) simp_all

lemma filter_upt_length: "length (filter P [0..<n]) \<le> n"
  using length_filter_le [of P "[0..<n]"] by simp

lemma filter_all_length: "length (filter P [0..<n]) = n \<longleftrightarrow> (\<forall>i < n. P i)"
proof
  assume all: "length (filter P [0..<n]) = n"
  show "\<forall>i < n. P i"
  proof (rule ccontr)
    assume "\<not> (\<forall>i < n. P i)"
    then obtain i where "i \<in> set [0..<n]" "\<not> P i" by auto
    then show False using all length_filter_less [of i "[0..<n]" P] by simp
  qed
qed simp

text \<open>The rows a range receipt is about, and that its root was read.\<close>

lemma range_receipt_rows:
  assumes "represents py content rows (as_inventory sc)" and "as_now sc = (inv_identity (as_inventory sc), content)"
    and "range_receipt kind py sc f = Inr (start, stop, cid, rs)"
  shows "start < stop \<and> stop \<le> length rows \<and> rs = map row_json (take (stop - start) (drop start rows))"
proof -
  let ?ivt = "as_inventory sc"
  have len: "length (inv_offsets ?ivt) = length rows" using assms(1) by (simp add: represents_def)
  from assms(3) obtain k m where name: "parse_range_name ''row-'' (kind_suffix kind) (fst f) = Some (k, m)"
    by (auto simp: range_receipt_def split: option.splits)
  with assms(3) len have k: "k < m + 1" "m + 1 \<le> length rows" "m + 1 - k \<le> 1000"
    by (auto simp: range_receipt_def Let_def split: if_splits)
  define d where "d = Suc m - k"
  have d: "Suc m - k = d" "m + 1 - k = d" "1 \<le> d" "d \<le> 1000" "k + d = Suc m" using k by (simp_all add: d_def)
  have "inventory_rows py ?ivt (as_now sc) (int k) (int d) = Inr (map row_json (take d (drop k rows)), Suc m)"
    using inventory_rows_Inr [OF assms(1), of k "int d"] k d assms(2) by simp
  then have got: "inventory_rows py ?ivt (as_now sc) (int k) (int (Suc m - k)) = Inr (map row_json (take d (drop k rows)), Suc m)"
    unfolding d(1) .
  then obtain receipt where receipt: "rbind (snd f) (json_loads py) = Inr receipt"
    using assms(3) name k len by (auto simp: range_receipt_def Let_def rbind_eq_Inr simp del: of_nat_diff split: if_splits)
  have "start = k \<and> stop = Suc m \<and> rs = map row_json (take d (drop k rows))"
    using assms(3) name k len got receipt
    by (cases receipt) (auto simp: range_receipt_def Let_def rbind_eq_Inr simp del: of_nat_diff split: if_splits)
  then show ?thesis using k d(1) by simp
qed

lemma afold_step:
  "afold f t xs s = (Inr t', s') \<Longrightarrow> x \<in> set xs \<Longrightarrow> \<exists>t1 s1 t2 s2. f t1 x s1 = (Inr t2, s2)"
  by (induction xs arbitrary: t s) (auto split: prod.splits sum.splits)

text \<open>A DAG node that links to a block.\<close>

definition links_to :: "json \<Rightarrow> string \<Rightarrow> bool" where
  "links_to v cid \<longleftrightarrow> (\<exists>kvs links l. v = JDict kvs \<and> field kvs ''links'' = JList links \<and> JDict l \<in> set links \<and>
     field l ''/'' = JStr cid)"

lemma root_lists_links:
  assumes "root_lists v sha start stop (map row_json rows)" and "r \<in> set rows"
  shows "links_to v (fst r)"
proof -
  from assms(1) obtain kvs links where v: "v = JDict kvs" "field kvs ''links'' = JList links"
    and all: "list_all2 (\<lambda>link row. case link of JDict l \<Rightarrow> set (map fst l) = {''/''} \<and> field l ''/'' = fst row | _ \<Rightarrow> False)
      links (map row_json rows)"
    by (auto simp: root_lists_def split: json.splits)
  from assms(2) obtain i where i: "i < length rows" "r = rows ! i" by (metis in_set_conv_nth)
  from list_all2_nthD2 [OF all, of i] i list_all2_lengthD [OF all]
  obtain l where "links ! i = JDict l" "field l ''/'' = JStr (fst r)" "i < length links"
    by (auto simp: row_json_def split: json.splits)
  then show ?thesis using v unfolding links_to_def by (metis nth_mem)
qed

lemma pinned_receipt_links:
  assumes "represents py content rows (as_inventory sc)" and "as_now sc = (inv_identity (as_inventory sc), content)"
    and "afold (audit_range kind py sc rd) t files w = (Inr t', w')" and "f \<in> set files"
    and "receipt_evidence kind py sc f i"
  shows "\<exists>cid v w1 w2. cid \<in> set (as_recursive sc) \<and> rd cid w1 = (Inr v, w2) \<and> links_to v (fst (rows ! i))"
proof -
  from assms(5) obtain start stop cid rs where r: "range_receipt kind py sc f = Inr (start, stop, cid, rs)"
    "cid \<in> set (as_recursive sc)" "start \<le> i" "i < stop" by (auto simp: receipt_evidence_def)
  from range_receipt_rows [OF assms(1,2) r(1)] have rs: "stop \<le> length rows"
    "rs = map row_json (take (stop - start) (drop start rows))" by auto
  from afold_step [OF assms(3,4)] obtain t1 s1 t2 s2 where "audit_range kind py sc rd t1 f s1 = (Inr t2, s2)" by blast
  then obtain v where v: "rd cid s1 = (Inr v, s2)" "root_lists v (inv_sha256 (as_inventory sc)) start stop rs"
    by (rule audit_range_cases) (use r in auto)
  have "take (stop - start) (drop start rows) ! (i - start) = rows ! i" "i - start < length (take (stop - start) (drop start rows))"
    using r(3,4) rs(1) by auto
  then have "rows ! i \<in> set (take (stop - start) (drop start rows))" by (metis nth_mem)
  then show ?thesis using root_lists_links [OF v(2) [unfolded rs(2)]] v(1) r(2) by blast
qed

text \<open>The tally of the audit by pins, after the rows seen so far.\<close>

definition pin_row :: "pylib \<Rightarrow> bytes \<Rightarrow> string \<times> int \<Rightarrow> bool" where
  "pin_row py line r \<longleftrightarrow> row_values py line = Inr (JStr (fst r), JInt (snd r)) \<and> match_cid (fst r) \<and> 0 < snd r"

definition row_total :: "(string \<times> int) list \<Rightarrow> int" where
  "row_total rows = (\<Sum>r\<leftarrow>rows. snd r)"

definition tallied :: "(string \<times> int \<Rightarrow> bool) \<Rightarrow> (string \<times> int \<Rightarrow> bool) \<Rightarrow> (string \<times> int) list \<Rightarrow> pin_tally \<Rightarrow> bool" where
  "tallied P R rows t \<longleftrightarrow> pt_seen t = map fst rows \<and> pt_bytes t = row_total rows \<and>
     pt_pinned t = length (filter P rows) \<and> pt_pinned_bytes t = row_total (filter P rows) \<and>
     pt_raw t = length (filter (\<lambda>r. \<not> P r \<and> R r) rows) \<and> pt_raw_bytes t = row_total (filter (\<lambda>r. \<not> P r \<and> R r) rows) \<and>
     pt_missing t = take 3 (map fst (filter (\<lambda>r. \<not> P r \<and> \<not> R r) rows))"

lemma take_3_snoc: "(if length (take 3 xs) < 3 then take 3 xs @ [x] else take 3 xs) = take 3 (xs @ [x])"
  by (auto simp: min_def)

lemma audit_line_tallied:
  assumes "audit_line py pins raw_store held t line = Inr t'"
    and "raw_store \<noteq> None \<longrightarrow> (case raw_store of None \<Rightarrow> Inr [] | Some (store, fs) \<Rightarrow> raw_cids py store fs) = Inr held"
    and "tallied (\<lambda>r. fst r \<in> set pins) (\<lambda>r. raw_evidence py raw_store (fst r) (snd r)) rows t"
  shows "\<exists>r. pin_row py line r \<and> fst r \<notin> set (map fst rows) \<and>
    tallied (\<lambda>r. fst r \<in> set pins) (\<lambda>r. raw_evidence py raw_store (fst r) (snd r)) (rows @ [r]) t'"
proof -
  let ?P = "\<lambda>r :: string \<times> int. fst r \<in> set pins" and ?R = "\<lambda>r. raw_evidence py raw_store (fst r) (snd r)"
  from assms(1) obtain v n where parsed: "row_values py line = Inr (v, n)" by (auto simp: audit_line_def Let_def res_simps)
  with assms(1) obtain cid sz where r: "v = JStr cid" "n = JInt sz"
    by (cases v; cases n) (auto simp: audit_line_def Let_def res_simps)
  have row: "pin_row py line (cid, sz)" "cid \<notin> set (pt_seen t)"
    using assms(1) parsed r by (auto simp: audit_line_def Let_def res_simps pin_row_def split: if_splits)
  let ?t = "t\<lparr>pt_seen := pt_seen t @ [cid], pt_bytes := pt_bytes t + sz\<rparr>"
  have outcome: "if cid \<in> set pins then t' = ?t\<lparr>pt_pinned := pt_pinned t + 1, pt_pinned_bytes := pt_pinned_bytes t + sz\<rparr>
    else if ?R (cid, sz) then t' = ?t\<lparr>pt_raw := pt_raw t + 1, pt_raw_bytes := pt_raw_bytes t + sz\<rparr>
    else t' = ?t\<lparr>pt_missing := if length (pt_missing t) < 3 then pt_missing t @ [cid] else pt_missing t\<rparr>"
  proof (cases raw_store)
    case None
    then show ?thesis using assms(1) parsed r row
      by (auto simp: audit_line_def Let_def res_simps raw_evidence_def pin_row_def)
  next
    case (Some st)
    obtain store fs where st: "st = (store, fs)" by (cases st)
    then show ?thesis using assms(1,2) parsed r row Some
      by (auto simp: audit_line_def Let_def res_simps raw_evidence_def pin_row_def split: if_splits option.splits)
  qed
  have "tallied ?P ?R (rows @ [(cid, sz)]) t'"
    using outcome assms(3) take_3_snoc [of _ cid]
    by (auto simp: tallied_def row_total_def split: if_splits)
  then show ?thesis using row assms(3) by (auto simp: tallied_def)
qed

lemma audit_lines_tallied:
  assumes "foldM (audit_line py pins raw_store held) no_pins ls = Inr t"
    and "raw_store \<noteq> None \<longrightarrow> (case raw_store of None \<Rightarrow> Inr [] | Some (store, fs) \<Rightarrow> raw_cids py store fs) = Inr held"
  shows "\<exists>rows. list_all2 (pin_row py) ls rows \<and> distinct (map fst rows) \<and>
    tallied (\<lambda>r. fst r \<in> set pins) (\<lambda>r. raw_evidence py raw_store (fst r) (snd r)) rows t"
  using assms(1)
proof (induction ls arbitrary: t rule: rev_induct)
  case Nil
  then show ?case by (auto simp: tallied_def row_total_def no_pins_def)
next
  case (snoc l ls)
  from snoc.prems obtain t1 where one: "foldM (audit_line py pins raw_store held) no_pins ls = Inr t1"
    and line: "audit_line py pins raw_store held t1 l = Inr t" by (auto simp: foldM_append res_simps)
  from snoc.IH [OF one] obtain rows where rows: "list_all2 (pin_row py) ls rows" "distinct (map fst rows)"
    "tallied (\<lambda>r. fst r \<in> set pins) (\<lambda>r. raw_evidence py raw_store (fst r) (snd r)) rows t1" by blast
  from audit_line_tallied [OF line assms(2) rows(3)] obtain r where "pin_row py l r" "fst r \<notin> set (map fst rows)"
    "tallied (\<lambda>r. fst r \<in> set pins) (\<lambda>r. raw_evidence py raw_store (fst r) (snd r)) (rows @ [r]) t" by blast
  with rows(1,2) show ?case by (intro exI [of _ "rows @ [r]"]) (auto intro: list_all2_appendI)
qed

lemma audit_summary_counts:
  fixes sc :: audit_scope
  defines "rows \<equiv> inv_sizes (as_inventory sc)"
  assumes "load_inventory py content identity sha count = Inr (as_inventory sc)" and "as_now sc = (identity, content)"
    and "audit_receipts py sc raw_store rd native_dirs files w = (Inr rep, w')"
  shows "let evident = (\<lambda>i. row_evidence py sc raw_store native_dirs files i (rows ! i));
      held = filter evident [0..<length rows]; missing = filter (\<lambda>i. \<not> evident i) [0..<length rows] in
    rp_inventory_rows rep = length rows \<and> rp_inventory_sha256 rep = sha \<and>
    rp_covered_rows rep = length held \<and> rp_covered_bytes rep = (\<Sum>i\<leftarrow>held. snd (rows ! i)) \<and>
    rp_missing_rows rep = int (length missing) \<and> rp_missing_bytes rep = (\<Sum>i\<leftarrow>missing. snd (rows ! i)) \<and>
    rp_missing_sample rep = take 3 (map (\<lambda>i. fst (rows ! i)) missing) \<and>
    (rp_complete rep \<longleftrightarrow> (\<forall>i < length rows. evident i))"
proof -
  from assms(2) obtain rs where r: "represents py content rs (as_inventory sc)" "inv_sha256 (as_inventory sc) = sha"
    "inv_identity (as_inventory sc) = identity" by (rule load_inventory_represents)
  then have rs: "rs = rows" by (simp add: rows_def represents_def)
  note r = r [unfolded rs]
  have ivt: "length (inv_offsets (as_inventory sc)) = length rows"
    "inv_positions (as_inventory sc) = zip (map fst rows) [0..<0 + length rows]"
    "inv_total_bytes (as_inventory sc) = (\<Sum>r\<leftarrow>rows. snd r)" using r by (simp_all add: represents_def)
  have sizes: "\<And>x. x \<in> set rows \<Longrightarrow> map_of (inv_sizes (as_inventory sc)) (fst x) = Some (snd x)"
    using position_of_row(2) [OF r(1)] by (metis in_set_conv_nth)
  from audit_marks [OF r(1) _ assms(4)] assms(3) r(3) obtain t where
    t: "audit_summary (as_inventory sc) t = Inr rep"
      "\<And>i. i < length rows \<Longrightarrow> ty_covered t ! i \<longleftrightarrow> row_evidence py sc raw_store native_dirs files i (rows ! i)" by auto
  let ?ev = "\<lambda>i. row_evidence py sc raw_store native_dirs files i (rows ! i)"
  have same: "filter (\<lambda>i. ty_covered t ! i) [0..<length rows] = filter ?ev [0..<length rows]"
    "filter (\<lambda>i. \<not> ty_covered t ! i) [0..<length rows] = filter (\<lambda>i. \<not> ?ev i) [0..<length rows]"
    using t(2) by (auto intro!: filter_cong)
  have total: "(\<Sum>r\<leftarrow>rows. snd r) = (\<Sum>i\<leftarrow>[0..<length rows]. snd (rows ! i))"
    by (simp only: map_by_index [of snd rows])
  have loop: "foldM (count_row (as_inventory sc) (ty_covered t)) (0, 0, []) (zip (map fst rows) [0..<length rows]) =
      Inr (length (filter ?ev [0..<length rows]), \<Sum>i\<leftarrow>filter ?ev [0..<length rows]. snd (rows ! i),
        take 3 (map (\<lambda>i. fst (rows ! i)) (filter (\<lambda>i. \<not> ?ev i) [0..<length rows])))"
    using count_rows_loop [OF sizes, where rows = rows and covered = "ty_covered t" and a = 0 and b = 0 and m = "[]" and k = 0]
    by (simp add: same)
  have rep: "rep = \<lparr>rp_complete = (length (filter ?ev [0..<length rows]) = length rows), rp_inventory_rows = length rows,
      rp_inventory_bytes = (\<Sum>r\<leftarrow>rows. snd r), rp_covered_rows = length (filter ?ev [0..<length rows]),
      rp_covered_bytes = (\<Sum>i\<leftarrow>filter ?ev [0..<length rows]. snd (rows ! i)),
      rp_missing_rows = int (length rows) - int (length (filter ?ev [0..<length rows])),
      rp_missing_bytes = (\<Sum>r\<leftarrow>rows. snd r) - (\<Sum>i\<leftarrow>filter ?ev [0..<length rows]. snd (rows ! i)),
      rp_missing_sample = take 3 (map (\<lambda>i. fst (rows ! i)) (filter (\<lambda>i. \<not> ?ev i) [0..<length rows])),
      rp_inventory_sha256 = sha, rp_tally = t\<rparr>"
    using t(1) loop by (simp add: audit_summary_def ivt r(2) Let_def)
  have all: "length (filter ?ev [0..<length rows]) = length rows \<longleftrightarrow> (\<forall>i < length rows. ?ev i)"
    by (rule filter_all_length)
  have le: "length (filter (\<lambda>i. \<not> ?ev i) [0..<length rows]) \<le> length rows" by (rule filter_upt_length)
  show ?thesis unfolding Let_def rep total
    by (simp add: all [unfolded partition_length [where P = ?ev], simplified] partition_sum [where P = ?ev] partition_length [where P = ?ev] le of_nat_diff)
qed

lemma pin_audit_outcome:
  assumes "audit_inventory py source sha count pins raw_store = Inr rep"
  shows "\<exists>content rows. source = Inr content \<and> list_all2 (pin_row py) (file_lines content) rows \<and>
    distinct (map fst rows) \<and> int (length rows) = count \<and> hex (sha256 py content) = sha \<and>
    (let pinned = filter (\<lambda>r. fst r \<in> set pins) rows;
         raw = filter (\<lambda>r. fst r \<notin> set pins \<and> raw_evidence py raw_store (fst r) (snd r)) rows;
         missing = filter (\<lambda>r. fst r \<notin> set pins \<and> \<not> raw_evidence py raw_store (fst r) (snd r)) rows in
     rep = \<lparr>pr_complete = (missing = []), pr_inventory_rows = length rows, pr_inventory_bytes = row_total rows,
       pr_pinned_rows = length pinned, pr_pinned_bytes = row_total pinned, pr_raw_rows = length raw,
       pr_raw_bytes = row_total raw, pr_missing_rows = int (length missing), pr_missing_bytes = row_total missing,
       pr_missing_sample = take 3 (map fst missing), pr_inventory_sha256 = sha\<rparr>)"
proof -
  from assms obtain content t held where c: "source = Inr content" "foldM (audit_line py pins raw_store held) no_pins (file_lines content) = Inr t"
    "(case raw_store of None \<Rightarrow> Inr [] | Some (store, fs) \<Rightarrow> raw_cids py store fs) = Inr held"
    "int (length (pt_seen t)) = count" "hex (sha256 py content) = sha" "rep = pin_summary t sha"
    by (auto simp: audit_inventory_def res_simps split: if_splits)
  let ?P = "\<lambda>r :: string \<times> int. fst r \<in> set pins" and ?R = "\<lambda>r. raw_evidence py raw_store (fst r) (snd r)"
  from audit_lines_tallied [OF c(2)] c(3) obtain rows where rows: "list_all2 (pin_row py) (file_lines content) rows"
    "distinct (map fst rows)" "tallied ?P ?R rows t" by blast
  have len: "int (length rows) = int (length (filter ?P rows)) + int (length (filter (\<lambda>r. \<not> ?P r \<and> ?R r) rows)) +
      int (length (filter (\<lambda>r. \<not> ?P r \<and> \<not> ?R r) rows))" by (induction rows) auto
  have bytes: "row_total rows = row_total (filter ?P rows) + row_total (filter (\<lambda>r. \<not> ?P r \<and> ?R r) rows) +
      row_total (filter (\<lambda>r. \<not> ?P r \<and> \<not> ?R r) rows)" unfolding row_total_def by (induction rows) auto
  have "rep = \<lparr>pr_complete = (filter (\<lambda>r. \<not> ?P r \<and> \<not> ?R r) rows = []), pr_inventory_rows = length rows,
      pr_inventory_bytes = row_total rows, pr_pinned_rows = length (filter ?P rows),
      pr_pinned_bytes = row_total (filter ?P rows), pr_raw_rows = length (filter (\<lambda>r. \<not> ?P r \<and> ?R r) rows),
      pr_raw_bytes = row_total (filter (\<lambda>r. \<not> ?P r \<and> ?R r) rows),
      pr_missing_rows = int (length (filter (\<lambda>r. \<not> ?P r \<and> \<not> ?R r) rows)),
      pr_missing_bytes = row_total (filter (\<lambda>r. \<not> ?P r \<and> \<not> ?R r) rows),
      pr_missing_sample = take 3 (map fst (filter (\<lambda>r. \<not> ?P r \<and> \<not> ?R r) rows)), pr_inventory_sha256 = sha\<rparr>"
    using c(6) rows(3) len bytes by (simp add: pin_summary_def tallied_def Let_def)
  then show ?thesis using c rows by (auto simp: tallied_def Let_def)
qed

text \<open>A complete audit accounts for every block: each row of the inventory is pinned itself, or is held by
  the raw store with its size and the digest inside its CID, or is linked from the DAG node of a pinned
  root, as the daemon returned that node during the audit.\<close>

lemma complete_audit_accounts:
  assumes "load_inventory py content identity sha count = Inr (as_inventory sc)" and "as_now sc = (identity, content)"
    and "audit_receipts py sc raw_store rd native_dirs files w = (Inr rep, w')" and "rp_complete rep"
    and "(cid, n) \<in> set (inv_sizes (as_inventory sc))"
  shows "cid \<in> set (as_direct sc) \<union> set (as_recursive sc) \<or>
    (\<exists>store fs data. raw_store = Some (store, fs) \<and> raw_read py store fs cid (nat n) = Inr (Some data) \<and>
       int (length data) = n \<and> sha256_digest cid = Inr (sha256 py data)) \<or>
    (\<exists>rt v w1 w2. rt \<in> set (as_recursive sc) \<and> rd rt w1 = (Inr v, w2) \<and> links_to v cid)"
proof -
  let ?rows = "inv_sizes (as_inventory sc)"
  from assms(1) obtain rs where "represents py content rs (as_inventory sc)" "inv_identity (as_inventory sc) = identity"
    by (rule load_inventory_represents)
  then have r: "represents py content ?rows (as_inventory sc)" "as_now sc = (inv_identity (as_inventory sc), content)"
    using assms(2) by (auto simp: represents_def)
  from assms(3) obtain t0 t1 w1 t2 w2 where
    1: "afold (audit_range Car py sc rd) t0 (rf_car files) w = (Inr t1, w1)" and
    2: "native_dirs \<Longrightarrow> afold (audit_range Native py sc rd) t1 (rf_native files) w1 = (Inr t2, w2)"
    unfolding audit_receipts_def by (fastforce simp: abind_Inr split: if_splits)
  from assms(5) obtain i where i: "i < length ?rows" "?rows ! i = (cid, n)" by (metis in_set_conv_nth)
  have "row_evidence py sc raw_store native_dirs files i (?rows ! i)"
    using audit_summary_counts [OF assms(1-3)] assms(4) i(1) by (simp add: Let_def)
  then consider (car) f where "f \<in> set (rf_car files)" "receipt_evidence Car py sc f i"
    | (native) f where "native_dirs" "f \<in> set (rf_native files)" "receipt_evidence Native py sc f i"
    | (pin) "cid \<in> set (as_direct sc) \<union> set (as_recursive sc)" | (raw) "raw_evidence py raw_store cid n"
    unfolding row_evidence_def i(2) by auto
  then show ?thesis
  proof cases
    case car
    from pinned_receipt_links [OF r 1 this] i(2) show ?thesis by simp
  next
    case native
    from pinned_receipt_links [OF r 2 [OF native(1)] native(2,3)] i(2) show ?thesis by simp
  next
    case raw
    then obtain store fs data where "raw_store = Some (store, fs)"
      and rd: "raw_read py store fs cid (nat n) = Inr (Some data)" and "int (length data) = n"
      unfolding raw_evidence_def by blast
    moreover have "sha256_digest cid = Inr (sha256 py data)" using read_sound [OF rd] by (rule conjunct1)
    ultimately show ?thesis by blast
  qed blast
qed

section \<open>Properties\<close>

text \<open>C32: the receipt audit counts exactly the rows with evidence: rows listed by a CAR or native receipt that
  agrees with the inventory and whose root is pinned, rows whose block is pinned, and rows whose block the
  raw store gives back with the right size. Covered and missing add up in rows and bytes, the sample names
  the first three rows without evidence, and the status is \<open>complete\<close> just when there is none.\<close>

theorem audit_counts_evident_rows:
  fixes sc :: audit_scope
  defines "rows \<equiv> inv_sizes (as_inventory sc)"
  assumes "load_inventory py content identity sha count = Inr (as_inventory sc)" and "as_now sc = (identity, content)"
    and "audit_receipts py sc raw_store rd native_dirs files w = (Inr rep, w')"
  shows "let evident = (\<lambda>i. row_evidence py sc raw_store native_dirs files i (rows ! i));
      held = filter evident [0..<length rows]; missing = filter (\<lambda>i. \<not> evident i) [0..<length rows] in
    rp_inventory_rows rep = length rows \<and> rp_inventory_sha256 rep = sha \<and>
    rp_covered_rows rep = length held \<and> rp_covered_bytes rep = (\<Sum>i\<leftarrow>held. snd (rows ! i)) \<and>
    rp_missing_rows rep = int (length missing) \<and> rp_missing_bytes rep = (\<Sum>i\<leftarrow>missing. snd (rows ! i)) \<and>
    rp_missing_sample rep = take 3 (map (\<lambda>i. fst (rows ! i)) missing) \<and>
    (rp_complete rep \<longleftrightarrow> (\<forall>i < length rows. evident i))"
  unfolding rows_def using assms(2-4) by (rule audit_summary_counts)

text \<open>The audit by pins counts each row of the declared inventory once: as pinned, else as a block of the
  raw store read with its size, else as missing; the status is \<open>complete\<close> just when none is missing.\<close>

theorem pin_audit_counts_rows:
  assumes "audit_inventory py source sha count pins raw_store = Inr rep"
  shows "\<exists>content rows. source = Inr content \<and> list_all2 (pin_row py) (file_lines content) rows \<and>
    distinct (map fst rows) \<and> int (length rows) = count \<and> hex (sha256 py content) = sha \<and>
    (let pinned = filter (\<lambda>r. fst r \<in> set pins) rows;
         raw = filter (\<lambda>r. fst r \<notin> set pins \<and> raw_evidence py raw_store (fst r) (snd r)) rows;
         missing = filter (\<lambda>r. fst r \<notin> set pins \<and> \<not> raw_evidence py raw_store (fst r) (snd r)) rows in
     rep = \<lparr>pr_complete = (missing = []), pr_inventory_rows = length rows, pr_inventory_bytes = row_total rows,
       pr_pinned_rows = length pinned, pr_pinned_bytes = row_total pinned, pr_raw_rows = length raw,
       pr_raw_bytes = row_total raw, pr_missing_rows = int (length missing), pr_missing_bytes = row_total missing,
       pr_missing_sample = take 3 (map fst missing), pr_inventory_sha256 = sha\<rparr>)"
  using assms by (rule pin_audit_outcome)

end
