(* ===== verification/Audit_Command.thy ===== *)
theory Audit_Command
  imports Lake_Audit "HOL-Library.List_Lexorder"
begin

text \<open>
  \<open>deploy/audit_lake.py\<close>, \<open>main\<close>: which audit is run on which files, and the exit status. Shown: with
  \<open>--require-complete\<close>, status 0 means that every block of the declared inventory is accounted for.
\<close>

record audit_args =
  aa_inventory :: path
  aa_sha256 :: string
  aa_count :: int
  aa_ipfs_bin :: string
  aa_raw_store :: "path option"
  aa_car :: "path option"
  aa_large :: "path option"
  aa_native :: "path list"
  aa_ipfs_path :: "path option"
  aa_require_complete :: bool

text \<open>What the process finds: the files (which it does not change), the identity of the inventory file, whether
  the \<open>ipfs\<close> program is there, and the text of the resolved repository path.\<close>

record audit_site =
  st_fs :: fs
  st_identity :: file_identity
  st_installed :: bool
  st_repository :: string

text \<open>\<open>sorted(directory.glob(prefix + "*" + suffix))\<close>, and for several directories.\<close>

definition glob_paths :: "string \<Rightarrow> string \<Rightarrow> fs \<Rightarrow> path \<Rightarrow> path list" where
  "glob_paths prefix suffix fs dir =
     filter (\<lambda>p. p \<noteq> [] \<and> butlast p = dir \<and> length prefix + length suffix \<le> length (last p) \<and>
       take (length prefix) (last p) = prefix \<and> drop (length (last p) - length suffix) (last p) = suffix) (map fst fs)"

definition receipt_list :: "fs \<Rightarrow> path list \<Rightarrow> receipt_file list" where
  "receipt_list fs paths = map (\<lambda>p. (last p, read_bytes fs p)) (sort paths)"

datatype audit_result = By_Receipts audit_report | By_Pins pin_report

fun audit_complete :: "audit_result \<Rightarrow> bool" where
  "audit_complete (By_Receipts rep) = rp_complete rep"
| "audit_complete (By_Pins rep) = pr_complete rep"

definition receipt_audit ::
    "pylib \<Rightarrow> 'w runner \<Rightarrow> audit_site \<Rightarrow> audit_args \<Rightarrow> path \<Rightarrow> path \<Rightarrow> path \<Rightarrow> ('w, audit_result) action" where
  "receipt_audit py run site args car_dir large_dir repo =
     (let fs = st_fs site in
      if \<not> is_dir fs car_dir \<or> \<not> is_dir fs large_dir then araise (AuditError ''receipt directory is absent'')
      else if list_ex (\<lambda>d. \<not> is_dir fs d) (aa_native args)
      then araise (AuditError ''native receipt directory is absent'')
      else
        abind (verify_repo py fs run (aa_ipfs_bin args) repo) (\<lambda>_.
        abind (alift (read_bytes fs (aa_inventory args))) (\<lambda>content.
        abind (alift (load_inventory py content (st_identity site) (aa_sha256 args) (aa_count args))) (\<lambda>ivt.
        let files = \<lparr>rf_car = receipt_list fs (glob_paths ''row-'' ''-import.json'' fs car_dir),
              rf_large = receipt_list fs (glob_paths ''row-'' ''-jacob-import.json'' fs large_dir),
              rf_native = receipt_list fs (concat (map (glob_paths ''row-'' ''-native.json'' fs) (aa_native args)))\<rparr> in
        abind (pins_of_type (st_installed site) run (aa_ipfs_bin args) ''recursive'') (\<lambda>recursive.
        abind (pins_of_type (st_installed site) run (aa_ipfs_bin args) ''direct'') (\<lambda>direct.
        abind (audit_receipts py
            \<lparr>as_inventory = ivt, as_now = (st_identity site, content), as_repository = st_repository site,
             as_recursive = recursive, as_direct = direct\<rparr>
            (map_option (\<lambda>store. (store, fs)) (aa_raw_store args)) (receipt_root py run (aa_ipfs_bin args))
            (aa_native args \<noteq> []) files) (\<lambda>rep.
        areturn (By_Receipts rep))))))))"

definition audit_report_of :: "pylib \<Rightarrow> 'w runner \<Rightarrow> audit_site \<Rightarrow> audit_args \<Rightarrow> ('w, audit_result) action" where
  "audit_report_of py run site args =
     (if aa_car args \<noteq> None \<or> aa_large args \<noteq> None \<or> aa_native args \<noteq> [] \<or> aa_ipfs_path args \<noteq> None then
        (case (aa_car args, aa_large args, aa_ipfs_path args) of
           (Some car_dir, Some large_dir, Some repo) \<Rightarrow> receipt_audit py run site args car_dir large_dir repo
         | _ \<Rightarrow> araise (AuditError ''receipt audit requires both directories and Kubo repository''))
      else
        abind (durable_pins (st_installed site) run (aa_ipfs_bin args)) (\<lambda>pins.
        abind (alift (audit_inventory py (read_bytes (st_fs site) (aa_inventory args)) (aa_sha256 args) (aa_count args) pins
            (map_option (\<lambda>store. (store, st_fs site)) (aa_raw_store args)))) (\<lambda>rep.
        areturn (By_Pins rep))))"

text \<open>The exit status; an exception that is not caught ends the interpreter with status 1.\<close>

fun refused :: "exn \<Rightarrow> bool" where
  "refused (AuditError _) = True"
| "refused (InventoryError _) = True"
| "refused (RawBlockStoreError _) = True"
| "refused OSError = True"
| "refused ValueError = True"
| "refused _ = False"

definition audit_main :: "pylib \<Rightarrow> 'w runner \<Rightarrow> audit_site \<Rightarrow> audit_args \<Rightarrow> 'w \<Rightarrow> int" where
  "audit_main py run site args w =
     (case fst (audit_report_of py run site args w) of
        Inl e \<Rightarrow> if refused e then 2 else 1
      | Inr rep \<Rightarrow> if aa_require_complete args \<and> \<not> audit_complete rep then 1 else 0)"

section \<open>Properties\<close>

text \<open>The daemon listed the CID as a pin during the audit.\<close>

definition listed_pin :: "'w runner \<Rightarrow> audit_site \<Rightarrow> audit_args \<Rightarrow> string \<Rightarrow> bool" where
  "listed_pin run site args cid \<longleftrightarrow>
     (\<exists>kind w pins w'. pins_of_type (st_installed site) run (aa_ipfs_bin args) kind w = (Inr pins, w') \<and> cid \<in> set pins)"

text \<open>How a block is accounted for.\<close>

definition accounted :: "pylib \<Rightarrow> 'w runner \<Rightarrow> audit_site \<Rightarrow> audit_args \<Rightarrow> string \<Rightarrow> int \<Rightarrow> bool" where
  "accounted py run site args cid n \<longleftrightarrow>
     listed_pin run site args cid \<or>
     (\<exists>store data. aa_raw_store args = Some store \<and> raw_read py store (st_fs site) cid (nat n) = Inr (Some data) \<and>
        int (length data) = n \<and> sha256_digest cid = Inr (sha256 py data)) \<or>
     (\<exists>rt v w w'. listed_pin run site args rt \<and> receipt_root py run (aa_ipfs_bin args) rt w = (Inr v, w') \<and> links_to v cid)"

lemma listed_pinI:
  "pins_of_type (st_installed site) run (aa_ipfs_bin args) kind w = (Inr pins, w') \<Longrightarrow> cid \<in> set pins \<Longrightarrow>
    listed_pin run site args cid"
  unfolding listed_pin_def by blast

lemma durable_pins_listed:
  assumes "durable_pins (st_installed site) run (aa_ipfs_bin args) w = (Inr pins, w')" and "cid \<in> set pins"
  shows "listed_pin run site args cid"
  using assms unfolding durable_pins_def by (auto simp: abind_Inr intro: listed_pinI split: prod.splits sum.splits)

lemma accountedI:
  "listed_pin run site args cid \<Longrightarrow> accounted py run site args cid n"
  "aa_raw_store args = Some store \<Longrightarrow> raw_read py store (st_fs site) cid (nat n) = Inr (Some data) \<Longrightarrow>
    int (length data) = n \<Longrightarrow> sha256_digest cid = Inr (sha256 py data) \<Longrightarrow> accounted py run site args cid n"
  "listed_pin run site args rt \<Longrightarrow> receipt_root py run (aa_ipfs_bin args) rt w = (Inr v, w') \<Longrightarrow> links_to v cid \<Longrightarrow>
    accounted py run site args cid n"
  unfolding accounted_def by blast+

definition inventory_content :: "pylib \<Rightarrow> bytes \<Rightarrow> (string \<times> int) list \<Rightarrow> bool" where
  "inventory_content py content rows \<longleftrightarrow>
     list_all2 (\<lambda>line r. row_values py line = Inr (JStr (fst r), JInt (snd r))) (file_lines content) rows"

lemma receipt_audit_accounts:
  assumes "receipt_audit py run site args car_dir large_dir repo w = (Inr res, w')" and "audit_complete res"
  shows "\<exists>content rows. read_bytes (st_fs site) (aa_inventory args) = Inr content \<and> inventory_content py content rows \<and>
    int (length rows) = aa_count args \<and> hex (sha256 py content) = aa_sha256 args \<and>
    (\<forall>(cid, n) \<in> set rows. accounted py run site args cid n)"
proof -
  from assms(1) obtain content ivt recursive direct rep files w1 w2 w3 where
    content: "read_bytes (st_fs site) (aa_inventory args) = Inr content" and
    load: "load_inventory py content (st_identity site) (aa_sha256 args) (aa_count args) = Inr ivt" and
    pins: "pins_of_type (st_installed site) run (aa_ipfs_bin args) ''recursive'' w1 = (Inr recursive, w2)"
      "pins_of_type (st_installed site) run (aa_ipfs_bin args) ''direct'' w2 = (Inr direct, w3)" and
    audit: "audit_receipts py \<lparr>as_inventory = ivt, as_now = (st_identity site, content), as_repository = st_repository site,
        as_recursive = recursive, as_direct = direct\<rparr> (map_option (\<lambda>store. (store, st_fs site)) (aa_raw_store args))
        (receipt_root py run (aa_ipfs_bin args)) (aa_native args \<noteq> []) files w3 = (Inr rep, w')" and
    res: "res = By_Receipts rep"
    unfolding receipt_audit_def Let_def by (auto simp: abind_Inr split: if_splits)
  let ?sc = "\<lparr>as_inventory = ivt, as_now = (st_identity site, content), as_repository = st_repository site,
    as_recursive = recursive, as_direct = direct\<rparr>"
  from load obtain rows where rows: "represents py content rows ivt" "inv_sha256 ivt = aa_sha256 args"
    "int (length rows) = aa_count args" by (rule load_inventory_represents)
  then have r: "inv_sizes ivt = rows" "inventory_content py content rows" "hex (sha256 py content) = aa_sha256 args"
    by (auto simp: represents_def inventory_content_def line_row_def elim: list_all2_mono)
  have "accounted py run site args cid n" if "(cid, n) \<in> set rows" for cid n
  proof -
    have "cid \<in> set direct \<union> set recursive \<or>
      (\<exists>store fs data. map_option (\<lambda>store. (store, st_fs site)) (aa_raw_store args) = Some (store, fs) \<and>
         raw_read py store fs cid (nat n) = Inr (Some data) \<and>
         int (length data) = n \<and> sha256_digest cid = Inr (sha256 py data)) \<or>
      (\<exists>rt v w1 w2. rt \<in> set recursive \<and> receipt_root py run (aa_ipfs_bin args) rt w1 = (Inr v, w2) \<and> links_to v cid)"
      using complete_audit_accounts [of py content "st_identity site" "aa_sha256 args" "aa_count args" ?sc, OF _ _ audit]
        load assms(2) that by (simp add: res r(1))
    moreover have "cid \<in> set direct \<union> set recursive \<Longrightarrow> listed_pin run site args cid" using pins by (auto intro: listed_pinI)
    moreover have "rt \<in> set recursive \<Longrightarrow> listed_pin run site args rt" for rt using pins(1) by (rule listed_pinI)
    ultimately show ?thesis by (auto intro: accountedI)
  qed
  then show ?thesis using content rows(3) r by blast
qed

lemma pin_audit_accounts:
  assumes "audit_inventory py (read_bytes (st_fs site) (aa_inventory args)) (aa_sha256 args) (aa_count args) pins
      (map_option (\<lambda>store. (store, st_fs site)) (aa_raw_store args)) = Inr rep"
    and "pr_complete rep" and "\<And>cid. cid \<in> set pins \<Longrightarrow> listed_pin run site args cid"
  shows "\<exists>content rows. read_bytes (st_fs site) (aa_inventory args) = Inr content \<and> inventory_content py content rows \<and>
    int (length rows) = aa_count args \<and> hex (sha256 py content) = aa_sha256 args \<and>
    (\<forall>(cid, n) \<in> set rows. accounted py run site args cid n)"
proof -
  let ?store = "map_option (\<lambda>store. (store, st_fs site)) (aa_raw_store args)"
  from pin_audit_outcome [OF assms(1)] obtain content rows where
    c: "read_bytes (st_fs site) (aa_inventory args) = Inr content" "list_all2 (pin_row py) (file_lines content) rows"
      "int (length rows) = aa_count args" "hex (sha256 py content) = aa_sha256 args"
    and rep: "pr_complete rep \<longleftrightarrow> filter (\<lambda>r. fst r \<notin> set pins \<and> \<not> raw_evidence py ?store (fst r) (snd r)) rows = []"
    unfolding Let_def by auto
  have "inventory_content py content rows"
    using c(2) by (auto simp: inventory_content_def pin_row_def elim: list_all2_mono)
  moreover have "accounted py run site args cid n" if row: "(cid, n) \<in> set rows" for cid n
  proof -
    have "cid \<in> set pins \<or> raw_evidence py ?store cid n"
      using rep assms(2) row unfolding filter_empty_conv by fastforce
    then show ?thesis
    proof
      assume "raw_evidence py ?store cid n"
      then obtain store data where "aa_raw_store args = Some store"
        and rd: "raw_read py store (st_fs site) cid (nat n) = Inr (Some data)" and "int (length data) = n"
        by (auto simp: raw_evidence_def)
      moreover have "sha256_digest cid = Inr (sha256 py data)" using read_sound [OF rd] by (rule conjunct1)
      ultimately show ?thesis unfolding accounted_def by blast
    qed (simp add: accounted_def assms(3))
  qed
  ultimately show ?thesis using c by blast
qed

text \<open>C31: when the audit with \<open>--require-complete\<close> ends with status 0, the inventory file is the declared
  one, and every block it names is accounted for: the daemon listed it as a pin, or the raw store holds it
  with its size and the digest inside its CID, or the daemon listed as pinned and returned a root that
  links to it. This holds for both kinds of audit.\<close>

theorem audit_status_zero_accounts_for_every_block:
  assumes "aa_require_complete args" and "audit_main py run site args w = 0"
  shows "\<exists>content rows. read_bytes (st_fs site) (aa_inventory args) = Inr content \<and> inventory_content py content rows \<and>
    int (length rows) = aa_count args \<and> hex (sha256 py content) = aa_sha256 args \<and>
    (\<forall>(cid, n) \<in> set rows. accounted py run site args cid n)"
proof -
  from assms obtain res w' where res: "audit_report_of py run site args w = (Inr res, w')" "audit_complete res"
    by (cases "audit_report_of py run site args w") (auto simp: audit_main_def split: sum.splits if_splits)
  show ?thesis
  proof (cases "aa_car args \<noteq> None \<or> aa_large args \<noteq> None \<or> aa_native args \<noteq> [] \<or> aa_ipfs_path args \<noteq> None")
    case True
    with res(1) obtain car_dir large_dir repo where "receipt_audit py run site args car_dir large_dir repo w = (Inr res, w')"
      by (auto simp: audit_report_of_def split: option.splits if_splits)
    then show ?thesis using res(2) by (rule receipt_audit_accounts)
  next
    case False
    with res obtain pins w1 rep where "durable_pins (st_installed site) run (aa_ipfs_bin args) w = (Inr pins, w1)"
      and rep: "audit_inventory py (read_bytes (st_fs site) (aa_inventory args)) (aa_sha256 args) (aa_count args) pins
        (map_option (\<lambda>store. (store, st_fs site)) (aa_raw_store args)) = Inr rep" "pr_complete rep"
      by (auto simp: audit_report_of_def abind_Inr)
    then show ?thesis by (intro pin_audit_accounts [OF rep]) (rule durable_pins_listed)
  qed
qed

section \<open>A concrete audit\<close>

text \<open>Two rows: the first is pinned, the second is listed by a CAR receipt whose root is pinned.\<close>

definition audit_root :: string where "audit_root = ''bafyreirootrootrootrootroot''"

definition car_receipt_json :: json where
  "car_receipt_json = JDict [(''status'', JStr ''complete''), (''inventory_sha256'', JStr (hex (replicate 32 7))),
     (''start_row'', JInt 1), (''end_row'', JInt 2), (''blocks'', JInt 1), (''bytes'', JInt 2),
     (''root'', JStr audit_root), (''car_sha256'', JStr (hex (replicate 32 7))), (''repository'', JStr ''/repo'')]"

definition root_json :: json where
  "root_json = JDict [(''schema'', JInt 1), (''inventory-sha256'', JStr (hex (replicate 32 7))),
     (''start-row'', JInt 1), (''end-row'', JInt 2), (''links'', JList [JDict [(''/'', JStr sample_cid2)]])]"

definition audit_py :: pylib where
  "audit_py = lake_py\<lparr>json_loads := (\<lambda>line. case line of
      [] \<Rightarrow> Inl ValueError
    | b # _ \<Rightarrow> if b = 3 then Inr car_receipt_json else if b = 4 then Inr root_json
        else if b = 5 then Inr (JDict [(''Identity'', JDict [(''PeerID'', JStr ''peer'')])])
        else json_loads lake_py line)\<rparr>"

definition audit_run :: "unit runner" where
  "audit_run argv w =
     (Inr (0, if argv ! 1 = ''id'' then ascii ''peer'' else if argv ! 1 = ''--offline'' then [4]
        else if last argv = ''--type=recursive'' then ascii (audit_root @ '' recursive'')
        else if last argv = ''--type=direct'' then ascii (sample_cid @ '' direct'') else []), w)"

definition audit_disk :: fs where
  "audit_disk = [([''inv''], File [1, 10, 2, 10]), ([''car''], Dir), ([''large''], Dir),
     ([''car'', ''row-1-1-import.json''], File [3]), ([''repo'', ''config''], File [5]),
     ([''repo'', ''api''], File (ascii ''/ip4/127.0.0.1/tcp/5001''))]"

definition toy_site :: audit_site where
  "toy_site = \<lparr>st_fs = audit_disk, st_identity = lake_identity, st_installed = True, st_repository = ''/repo''\<rparr>"

definition toy_audit :: audit_args where
  "toy_audit = \<lparr>aa_inventory = [''inv''], aa_sha256 = hex (replicate 32 7), aa_count = 2, aa_ipfs_bin = ''ipfs'',
     aa_raw_store = None, aa_car = Some [''car''], aa_large = Some [''large''], aa_native = [],
     aa_ipfs_path = Some [''repo''], aa_require_complete = True\<rparr>"

theorem audit_status_zero_accounts_for_every_block_witness:
  "audit_main audit_py audit_run toy_site toy_audit () = 0 \<and>
   (\<exists>content rows. read_bytes audit_disk [''inv''] = Inr content \<and> inventory_content audit_py content rows \<and>
     length rows = 2 \<and> (\<forall>(cid, n) \<in> set rows. accounted audit_py audit_run toy_site toy_audit cid n))"
proof
  show zero: "audit_main audit_py audit_run toy_site toy_audit () = 0" by code_simp
  have "aa_require_complete toy_audit" by (simp add: toy_audit_def)
  moreover have "aa_inventory toy_audit = [''inv'']" "aa_count toy_audit = 2" "st_fs toy_site = audit_disk"
    by (simp_all add: toy_audit_def toy_site_def)
  ultimately
  show "\<exists>content rows. read_bytes audit_disk [''inv''] = Inr content \<and> inventory_content audit_py content rows \<and>
     length rows = 2 \<and> (\<forall>(cid, n) \<in> set rows. accounted audit_py audit_run toy_site toy_audit cid n)"
    using audit_status_zero_accounts_for_every_block [OF _ zero] by (auto 0 4)
qed

definition toy_scope :: audit_scope where
  "toy_scope = \<lparr>as_inventory = lake_inventory, as_now = (lake_identity, [1, 10, 2, 10]), as_repository = ''/repo'',
     as_recursive = [audit_root], as_direct = []\<rparr>"

definition toy_files :: receipt_files where
  "toy_files = \<lparr>rf_car = [(''row-1-1-import.json'', Inr [3])], rf_large = [], rf_native = []\<rparr>"

lemma toy_report:
  "\<exists>rep. audit_receipts audit_py toy_scope None (receipt_root audit_py audit_run ''ipfs'') False toy_files () = (Inr rep, ()) \<and>
     rp_covered_rows rep = 1 \<and> rp_missing_sample rep = [sample_cid]"
proof -
  have "(case audit_receipts audit_py toy_scope None (receipt_root audit_py audit_run ''ipfs'') False toy_files () of
      (Inr rep, w) \<Rightarrow> rp_covered_rows rep = 1 \<and> rp_missing_sample rep = [sample_cid] | _ \<Rightarrow> False)" by code_simp
  then show ?thesis by (auto split: prod.splits sum.splits)
qed

theorem audit_counts_evident_rows_witness:
  "\<not> row_evidence audit_py toy_scope None False toy_files 0 (sample_cid, 1) \<and>
   row_evidence audit_py toy_scope None False toy_files 1 (sample_cid2, 2)"
proof -
  have loaded: "load_inventory audit_py [1, 10, 2, 10] lake_identity (hex (replicate 32 7)) 2 = Inr (as_inventory toy_scope)"
    by code_simp
  have now: "as_now toy_scope = (lake_identity, [1, 10, 2, 10])" by (simp add: toy_scope_def)
  from toy_report obtain rep where rep: "audit_receipts audit_py toy_scope None (receipt_root audit_py audit_run ''ipfs'')
      False toy_files () = (Inr rep, ())" "rp_covered_rows rep = 1" "rp_missing_sample rep = [sample_cid]" by blast
  have sizes: "inv_sizes (as_inventory toy_scope) = [(sample_cid, 1), (sample_cid2, 2)]"
    by (simp add: toy_scope_def lake_inventory_def)
  have "sample_cid \<noteq> sample_cid2" by code_simp
  with audit_counts_evident_rows [OF loaded now rep(1)] rep(2,3) show ?thesis
    by (auto simp: sizes Let_def upt_rec [of 0] upt_rec [of 1] split: if_splits)
qed

theorem pin_audit_counts_rows_witness:
  "\<exists>rep. audit_inventory lake_py (Inr [1, 10, 2, 10]) (hex (replicate 32 7)) 2 [sample_cid] None = Inr rep \<and>
     pr_pinned_rows rep = 1 \<and> pr_missing_sample rep = [sample_cid2]"
proof -
  have "(case audit_inventory lake_py (Inr [1, 10, 2, 10]) (hex (replicate 32 7)) 2 [sample_cid] None of
      Inr rep \<Rightarrow> True | _ \<Rightarrow> False)" by code_simp
  then obtain rep where rep: "audit_inventory lake_py (Inr [1, 10, 2, 10]) (hex (replicate 32 7)) 2 [sample_cid] None = Inr rep"
    by (auto split: sum.splits)
  have differ: "sample_cid2 \<noteq> sample_cid" by code_simp
  from pin_audit_counts_rows [OF rep] obtain rows where
    lines: "list_all2 (pin_row lake_py) (file_lines [1, 10, 2, 10]) rows" and
    pinned: "pr_pinned_rows rep = length (filter (\<lambda>r. fst r \<in> set [sample_cid]) rows)" and
    missing: "pr_missing_sample rep = take 3 (map fst (filter (\<lambda>r. fst r \<notin> set [sample_cid] \<and>
      \<not> raw_evidence lake_py None (fst r) (snd r)) rows))" by (auto simp: Let_def)
  have split: "file_lines [1, 10, 2, 10 :: byte] = [[1, 10], [2, 10]]" by code_simp
  have fields: "row_values lake_py [1, 10] = Inr (JStr sample_cid, JInt 1)"
    "row_values lake_py [2, 10] = Inr (JStr sample_cid2, JInt 2)" by code_simp+
  from lines have "map fst rows = [sample_cid, sample_cid2]"
    unfolding split by (auto simp: list_all2_Cons1 pin_row_def fields)
  then obtain a b where "rows = [(sample_cid, a), (sample_cid2, b)]" by (auto simp: map_eq_Cons_conv)
  then show ?thesis using rep pinned missing differ by (simp add: raw_evidence_def)
qed

end
