(* ===== verification/Ship_Commands.thy ===== *)
theory Ship_Commands
  imports Row_Selection Decimal_Text Text_Search File_Actions
begin

text \<open>
  \<open>deploy/ship_lake_car.py\<close>, the parts \<open>ship_once\<close> is made of: running programs, their receipts, quoting
  for a remote shell, files written atomically, S3 objects, and the archives at both ends. Programs may
  change local files (\<open>scp\<close> and the exporter do); every program run is recorded with its answer.
\<close>

section \<open>Running programs\<close>

type_synonym 'w command_runner = "string option \<Rightarrow> string list \<Rightarrow> fs \<times> 'w \<Rightarrow> (int \<times> bytes) res \<times> (fs \<times> 'w)"

record 'w shipping =
  sp_fs :: fs
  sp_world :: 'w
  sp_log :: "(string list \<times> (int \<times> bytes) res) list"

definition run_in ::
    "'w command_runner \<Rightarrow> string option \<Rightarrow> string list \<Rightarrow> ('w shipping, bytes) action" where
  "run_in cmd cwd argv s =
     (case cmd cwd argv (sp_fs s, sp_world s) of (answer, fs, w) \<Rightarrow>
        (case answer of
           Inl e \<Rightarrow> Inl (if e = OSError \<or> e = TimeoutExpired then ShipError (''command failed: '' @ hd argv) else e)
         | Inr (rc, out) \<Rightarrow> if rc \<noteq> 0 then Inl (ShipError (''command refused: '' @ hd argv)) else Inr out,
         s\<lparr>sp_fs := fs, sp_world := w, sp_log := sp_log s @ [(argv, answer)]\<rparr>))"

abbreviation run_command :: "'w command_runner \<Rightarrow> string list \<Rightarrow> ('w shipping, bytes) action" where
  "run_command cmd argv \<equiv> run_in cmd None argv"

text \<open>A local file operation.\<close>

definition on_fs :: "(fs, 'a) action \<Rightarrow> ('w shipping, 'a) action" where
  "on_fs m s = (case m (sp_fs s) of (r, fs) \<Rightarrow> (r, s\<lparr>sp_fs := fs\<rparr>))"

text \<open>A path as text.\<close>

fun join_text :: "string \<Rightarrow> string list \<Rightarrow> string" where
  "join_text sep [] = []"
| "join_text sep [s] = s"
| "join_text sep (s # t # ss) = s @ sep @ join_text sep (t # ss)"

definition path_str :: "path \<Rightarrow> string" where "path_str p = join_text ''/'' p"

text \<open>\<open>last_receipt\<close>: the last line that is not blank, as JSON.\<close>

definition last_receipt :: "pylib \<Rightarrow> bytes \<Rightarrow> string \<Rightarrow> json res" where
  "last_receipt py output source =
     (let nonblank = filter (\<lambda>line. strip line \<noteq> []) (splitlines (text_of output)) in
      if nonblank = [] then Inl (ShipError (source @ '' returned no receipt''))
      else case json_loads py (ascii (last nonblank)) of
          Inl ValueError \<Rightarrow> Inl (ShipError (source @ '' returned invalid receipt''))
        | r \<Rightarrow> r)"

text \<open>\<open>shlex.join\<close>: arguments quoted for a shell.\<close>

definition shell_safe :: "char \<Rightarrow> bool" where
  "shell_safe c \<longleftrightarrow> ascii_word c \<or> c \<in> set ''@%+=:,./-''"

definition shell_quote :: "string \<Rightarrow> string" where
  "shell_quote s =
     (let quote = char_of (39 :: nat); double = char_of (34 :: nat) in
      if s = [] then [quote, quote]
      else if list_all shell_safe s then s
      else [quote] @ concat (map (\<lambda>c. if c = quote then [quote, double, quote, double, quote] else [c]) s) @ [quote])"

definition shlex_join :: "string list \<Rightarrow> string" where
  "shlex_join argv = join_text '' '' (map shell_quote argv)"

section \<open>Files written atomically\<close>

text \<open>\<open>atomic_json\<close>; \<open>tag\<close> is the \<open>uuid4\<close>.\<close>

definition partial_name :: "path \<Rightarrow> string \<Rightarrow> path" where
  "partial_name p tag = butlast p @ [last p @ ''.'' @ tag @ ''.partial'']"

definition atomic_json :: "pylib \<Rightarrow> path \<Rightarrow> string \<Rightarrow> json \<Rightarrow> (fs, unit) action" where
  "atomic_json py p tag v fs =
     (let temp = partial_name p tag; data = json_text py v in
      if map_of fs temp \<noteq> None then (Inl OSError, fs)
      else (Inr (), run_steps [Create temp data, Rename temp p data, SyncDir (butlast p)] fs))"

text \<open>\<open>path.unlink()\<close>\<close>

definition remove_file :: "path \<Rightarrow> (fs, unit) action" where
  "remove_file p fs = (if map_of fs p = None then (Inl OSError, fs) else (Inr (), unlink p fs))"

definition ship_sha :: "pylib \<Rightarrow> path \<Rightarrow> (fs, string) action" where
  "ship_sha py p fs = (rbind (read_bytes fs p) (\<lambda>data. Inr (hex (sha256 py data))), fs)"

definition file_size :: "path \<Rightarrow> (fs, int) action" where
  "file_size p fs = (rbind (read_bytes fs p) (\<lambda>data. Inr (int (length data))), fs)"

definition load_json :: "pylib \<Rightarrow> path \<Rightarrow> (fs, json) action" where
  "load_json py p fs = (rbind (read_bytes fs p) (json_loads py), fs)"

section \<open>Equality of JSON values\<close>

text \<open>\<open>==\<close> on parsed JSON: numbers by value, dictionaries whatever their order.\<close>

fun number_of :: "json \<Rightarrow> (int \<times> nat) option" where
  "number_of (JBool b) = Some (if b then 1 else 0, 1)"
| "number_of (JInt i) = Some (i, 1)"
| "number_of (JFloat n d) = (if d = 0 then None else Some (n, d))"
| "number_of _ = None"

lemma json_size_list: "x \<in> set xs \<Longrightarrow> size x < size (JList xs)"
  by (induction xs) auto

lemma json_size_dict: "(k, x) \<in> set a \<Longrightarrow> size x < size (JDict a)"
  by (induction a) auto

function json_eq :: "json \<Rightarrow> json \<Rightarrow> bool" where
  "json_eq (JList xs) w = (case w of JList ys \<Rightarrow> length xs = length ys \<and> list_all (\<lambda>(x, y). json_eq x y) (zip xs ys) | _ \<Rightarrow> False)"
| "json_eq (JDict a) w = (case w of
     JDict b \<Rightarrow> set (map fst a) = set (map fst b) \<and>
       list_all (\<lambda>(k, x). case map_of b k of None \<Rightarrow> False | Some y \<Rightarrow> json_eq x y) a
   | _ \<Rightarrow> False)"
| "json_eq JNull w \<longleftrightarrow> w = JNull"
| "json_eq (JStr t) w \<longleftrightarrow> w = JStr t"
| "json_eq (JBool b) w = (case number_of w of None \<Rightarrow> False | Some (n, d) \<Rightarrow> n = (if b then int d else 0))"
| "json_eq (JInt i) w = (case number_of w of None \<Rightarrow> False | Some (n, d) \<Rightarrow> n = i * int d)"
| "json_eq (JFloat m e) w = (case number_of w of None \<Rightarrow> False | Some (n, d) \<Rightarrow> e \<noteq> 0 \<and> n * int e = m * int d)"
  by pat_completeness auto

termination
  by (relation "measure (\<lambda>(v, w). size v)") (auto dest!: set_zip_leftD dest: json_size_list json_size_dict)

section \<open>Arguments\<close>

text \<open>The command line. \<open>sa_text\<close> is Python's \<open>str\<close> of a JSON value and \<open>sa_urlsplit\<close> the standard
  library's; \<open>sa_uuid\<close> are the random parts of temporary names, \<open>sa_locked\<close> whether another shipper has
  the lock.\<close>

record s3_url =
  s3_scheme :: string
  s3_netloc :: string
  s3_path :: string
  s3_credentials :: bool
  s3_query :: string
  s3_fragment :: string

record ship_args =
  sa_source :: string
  sa_kbb :: string
  sa_inventory :: path
  sa_sha256 :: string
  sa_count :: nat
  sa_start_row :: int
  sa_stop_row :: "int option"
  sa_max_blocks :: nat
  sa_max_bytes :: int
  sa_base_url :: string
  sa_resolve :: string
  sa_source_ssh_host :: string
  sa_source_exporter :: string
  sa_source_inventory :: string
  sa_source_ipfs_bin :: string
  sa_source_ipfs_path :: string
  sa_source_rpc_url :: string
  sa_source_output_dir :: string
  sa_raw_cids_file :: "path option"
  sa_state_dir :: path
  sa_ssh_host :: string
  sa_remote_dir :: string
  sa_remote_car_dir :: string
  sa_remote_large_archive :: string
  sa_remote_importer :: string
  sa_remote_importer_dir :: string
  sa_remote_inventory :: string
  sa_remote_ipfs_bin :: string
  sa_remote_ipfs_path :: string
  sa_remote_raw_block_store :: string
  sa_carv2_zstd :: bool
  sa_s3_destination :: string
  sa_s3_endpoint_url :: string
  sa_s3_region :: string
  sa_python :: string
  sa_helper :: string
  sa_text :: "json \<Rightarrow> string"
  sa_urlsplit :: "string \<Rightarrow> s3_url"
  sa_uuid :: "nat \<Rightarrow> string"
  sa_locked :: bool

definition ssh_opts :: "string list" where
  "ssh_opts = [''-o'', ''BatchMode=yes'', ''-o'', ''ConnectTimeout=10'']"

definition ssh_command :: "string \<Rightarrow> string list \<Rightarrow> string list" where
  "ssh_command host argv = [''ssh''] @ ssh_opts @ [host, shlex_join argv]"

text \<open>\<open>s.rstrip("/")\<close> and \<open>s.lstrip("/")\<close>.\<close>

definition rstrip_slash :: "string \<Rightarrow> string" where
  "rstrip_slash s = rev (dropWhile (\<lambda>c. c = CHR ''/'') (rev s))"

definition lstrip_slash :: "string \<Rightarrow> string" where
  "lstrip_slash s = dropWhile (\<lambda>c. c = CHR ''/'') s"

section \<open>S3 objects\<close>

definition s3_object_uri :: "ship_args \<Rightarrow> string \<Rightarrow> string \<Rightarrow> string res" where
  "s3_object_uri args prefix suffix =
     (let u = sa_urlsplit args prefix in
      if s3_scheme u \<noteq> ''s3'' \<or> s3_netloc u = [] \<or> s3_credentials u \<or> s3_query u \<noteq> [] \<or> s3_fragment u \<noteq> []
      then Inl (ShipError ''S3 destination must be an s3://bucket/prefix URI'')
      else Inr (''s3://'' @ s3_netloc u @ rstrip_slash (s3_path u) @ ''/'' @ lstrip_slash suffix))"

text \<open>The options that follow every \<open>aws\<close> command.\<close>

definition aws_options :: "string \<Rightarrow> string \<Rightarrow> string list" where
  "aws_options endpoint_url region =
     (if endpoint_url = [] then [] else [''--endpoint-url'', endpoint_url]) @
     (if region = [] then [] else [''--region'', region])"

definition s3_head ::
    "pylib \<Rightarrow> 'w command_runner \<Rightarrow> ship_args \<Rightarrow> string \<Rightarrow> ('w shipping, json) action" where
  "s3_head py cmd args uri =
     (let u = sa_urlsplit args uri in
      abind (run_command cmd ([''aws'', ''s3api'', ''head-object'', ''--bucket'', s3_netloc u, ''--key'',
          lstrip_slash (s3_path u), ''--output'', ''json''] @ aws_options (sa_s3_endpoint_url args) (sa_s3_region args)))
        (\<lambda>out. alift (json_loads py out)))"

text \<open>\<open>v == metadata\<close> for a dictionary of texts.\<close>

definition same_texts :: "json \<Rightarrow> (string \<times> string) list \<Rightarrow> bool" where
  "same_texts v metadata \<longleftrightarrow>
     (case v of
        JDict kvs \<Rightarrow> set (map fst kvs) = set (map fst metadata) \<and> list_all (\<lambda>(k, t). eq_str (field kvs k) t) metadata
      | _ \<Rightarrow> False)"

definition metadata_text :: "(string \<times> string) list \<Rightarrow> string" where
  "metadata_text metadata = join_text '','' (map (\<lambda>(k, t). k @ ''='' @ t) metadata)"

text \<open>\<open>upload_s3_file\<close>; the result is the size it returns (the address is its argument).\<close>

definition upload_s3_file ::
    "pylib \<Rightarrow> 'w command_runner \<Rightarrow> ship_args \<Rightarrow> path \<Rightarrow> string \<Rightarrow> string \<Rightarrow> (string \<times> string) list \<Rightarrow>
       ('w shipping, int) action" where
  "upload_s3_file py cmd args p uri content_type metadata =
     abind (run_command cmd ([''aws'', ''s3'', ''cp'', path_str p, uri, ''--only-show-errors'', ''--content-type'',
         content_type, ''--metadata'', metadata_text metadata] @
         aws_options (sa_s3_endpoint_url args) (sa_s3_region args))) (\<lambda>_.
     abind (s3_head py cmd args uri) (\<lambda>head.
     abind (alift (jget head ''ContentLength'')) (\<lambda>len.
     abind (on_fs (file_size p)) (\<lambda>size.
     abind (alift (jget head ''Metadata'')) (\<lambda>meta.
     if \<not> eq_int len size \<or> \<not> same_texts meta metadata
     then araise (ShipError ''S3-compatible HEAD differs from uploaded object'')
     else on_fs (file_size p))))))"

section \<open>The archive at both ends\<close>

text \<open>\<open>SHA256.fullmatch(v.get(key, ""))\<close>\<close>

definition sha_field :: "(string \<times> json) list \<Rightarrow> string \<Rightarrow> bool res" where
  "sha_field kvs key =
     (case map_of kvs key of
        None \<Rightarrow> Inr False
      | Some v \<Rightarrow> (case as_str v of None \<Rightarrow> Inl TypeError | Some t \<Rightarrow> Inr (match_sha256 t)))"

text \<open>A value that is used as a text.\<close>

definition text_value :: "json res \<Rightarrow> string res" where
  "text_value r = rbind r (\<lambda>v. case as_str v of None \<Rightarrow> Inl TypeError | Some t \<Rightarrow> Inr t)"

definition pack_transport_archive ::
    "pylib \<Rightarrow> 'w command_runner \<Rightarrow> ship_args \<Rightarrow> path \<Rightarrow> path \<Rightarrow> path \<Rightarrow> json \<Rightarrow> nat \<Rightarrow>
       ('w shipping, (string \<times> json) list) action" where
  "pack_transport_archive py cmd args carv1 output receipt_path exported row_count =
     abind (run_command cmd [sa_python args, sa_helper args, ''pack'', ''--carv1'', path_str carv1, ''--output'',
         path_str output, ''--receipt'', path_str receipt_path, ''--max-blocks'', dec_text row_count, ''--max-bytes'',
         dec_text (nat (sa_max_bytes args)), ''--timeout'', ''1800'']) (\<lambda>out.
     abind (alift (last_receipt py out ''CARv2/Zstandard packer'')) (\<lambda>receipt.
     case receipt of JDict kvs \<Rightarrow>
       abind (alift (jget exported ''sha256'')) (\<lambda>car_sha.
       if \<not> eq_str (field kvs ''format'') ''carv2+zstd'' \<or> \<not> json_eq (field kvs ''carv1_sha256'') car_sha \<or>
         \<not> eq_int (field kvs ''blocks'') (int row_count)
       then araise (ShipError ''CARv2/Zstandard receipt differs from the exported CAR'')
       else
         abind (on_fs (ship_sha py output)) (\<lambda>out_sha.
         abind (on_fs (file_size output)) (\<lambda>out_size.
         if \<not> eq_str (field kvs ''compressed_sha256'') out_sha \<or> \<not> eq_int (field kvs ''compressed_bytes'') out_size
         then araise (ShipError ''CARv2/Zstandard receipt differs from the exported CAR'')
         else
           abind (alift (sha_field kvs ''carv2_sha256'')) (\<lambda>ok.
           if \<not> ok then araise (ShipError ''CARv2/Zstandard receipt differs from the exported CAR'')
           else areturn kvs))))
     | _ \<Rightarrow> araise AttributeError))"

definition unpack_remote_archive ::
    "pylib \<Rightarrow> 'w command_runner \<Rightarrow> ship_args \<Rightarrow> string \<Rightarrow> string \<Rightarrow> string \<Rightarrow> (string \<times> json) list \<Rightarrow> nat \<Rightarrow>
       ('w shipping, json) action" where
  "unpack_remote_archive py cmd args remote_compressed remote_carv2 remote_unpack_receipt archive row_count =
     abind (alift (text_value (jsub (JDict archive) ''compressed_sha256''))) (\<lambda>zst_sha.
     abind (alift (text_value (jsub (JDict archive) ''carv2_sha256''))) (\<lambda>car_sha.
     abind (alift (jsub (JDict archive) ''carv2_bytes'')) (\<lambda>car_bytes.
     abind (run_command cmd (ssh_command (sa_ssh_host args)
         [''python3'', sa_remote_importer_dir args @ ''/carv2_zstd.py'', ''unpack'', ''--compressed'', remote_compressed,
          ''--output'', remote_carv2, ''--receipt'', remote_unpack_receipt, ''--expected-compressed-sha256'', zst_sha,
          ''--expected-carv2-sha256'', car_sha, ''--max-blocks'', dec_text row_count, ''--max-bytes'',
          sa_text args car_bytes, ''--timeout'', ''1800''])) (\<lambda>out.
     abind (alift (last_receipt py out ''remote CARv2/Zstandard unpacker'')) (\<lambda>receipt.
     case receipt of JDict kvs \<Rightarrow>
       if \<not> eq_str (field kvs ''status'') ''complete'' \<or> \<not> eq_str (field kvs ''compressed_sha256'') zst_sha \<or>
         \<not> eq_str (field kvs ''carv2_sha256'') car_sha \<or> \<not> eq_int (field kvs ''blocks'') (int row_count)
       then araise (ShipError ''remote CARv2/Zstandard receipt differs'')
       else areturn receipt
     | _ \<Rightarrow> araise AttributeError)))))"

section \<open>Rows that are skipped\<close>

definition large_archive_receipt_matches :: "(string \<times> json) list \<Rightarrow> skipped_row \<Rightarrow> string \<Rightarrow> bool" where
  "large_archive_receipt_matches kvs skipped inventory_sha \<longleftrightarrow>
     eq_int (field kvs ''schema'') 1 \<and> eq_int (field kvs ''row'') (int (sk_row skipped)) \<and>
     eq_str (field kvs ''inventory_sha256'') inventory_sha \<and> eq_str (field kvs ''original_cid'') (sk_cid skipped) \<and>
     eq_int (field kvs ''original_bytes'') (sk_bytes skipped) \<and>
     eq_str (field kvs ''validation'') ''fresh-offline-kubo-import-cat-and-original-cid-rehydration'' \<and>
     (case as_str (field kvs ''car_sha256'') of None \<Rightarrow> False | Some t \<Rightarrow> match_sha256 t) \<and>
     (case as_int (field kvs ''car_bytes'') of None \<Rightarrow> False | Some n \<Rightarrow> 0 < n)"

text \<open>The Python program run on the other node, which prints the receipt and the size of the CAR.\<close>

definition large_archive_probe :: string where
  "large_archive_probe =
     ''import json,pathlib,sys; car=pathlib.Path(sys.argv[1]); receipt=pathlib.Path(sys.argv[2]); '' @
     ''sys.exit(2) if not car.is_file() or not receipt.is_file() else print(json.dumps({'' @
     [char_of (39 :: nat)] @ ''receipt'' @ [char_of (39 :: nat)] @ '':json.loads(receipt.read_text()),'' @
     [char_of (39 :: nat)] @ ''car_bytes_on_disk'' @ [char_of (39 :: nat)] @ '':car.stat().st_size}))''"

definition large_archive_command :: "ship_args \<Rightarrow> nat \<Rightarrow> string list" where
  "large_archive_command args row =
     (let car = rstrip_slash (sa_remote_large_archive args) @ ''/row-'' @ dec_text row @ ''-recovery.car'' in
      ssh_command (sa_ssh_host args) [''python3'', ''-c'', large_archive_probe, car, car @ ''.json''])"

definition verify_remote_large_archive ::
    "pylib \<Rightarrow> 'w command_runner \<Rightarrow> ship_args \<Rightarrow> skipped_row \<Rightarrow> ('w shipping, unit) action" where
  "verify_remote_large_archive py cmd args skipped =
     (if sa_remote_large_archive args = [] then araise (ShipError ''oversized row has no Jacob recovery archive'')
      else
        abind (run_command cmd (large_archive_command args (sk_row skipped))) (\<lambda>out.
        abind (alift (last_receipt py out ''Jacob large recovery archive'')) (\<lambda>v.
        case (case v of JDict kvs \<Rightarrow> field kvs ''receipt'' | _ \<Rightarrow> JNull) of
          JDict source \<Rightarrow>
            if \<not> large_archive_receipt_matches source skipped (sa_sha256 args) \<or>
              \<not> (case v of JDict kvs \<Rightarrow> eq_int (field kvs ''car_bytes_on_disk'')
                   (case as_int (field source ''car_bytes'') of None \<Rightarrow> 0 | Some n \<Rightarrow> n) | _ \<Rightarrow> False)
            then araise (ShipError ''Jacob large recovery receipt differs from skipped row'')
            else areturn ()
        | _ \<Rightarrow> araise (ShipError ''Jacob large recovery receipt differs from skipped row''))))"

text \<open>Reading the block from the raw store of the other node.\<close>

definition raw_probe :: string where
  "raw_probe =
     ''import sys; from raw_block_store import RawBlockStore; data=RawBlockStore(sys.argv[1]).read(sys.argv[2],'' @
     ''max_bytes=int(sys.argv[3])); assert data is not None and len(data)==int(sys.argv[3])''"

definition raw_probe_command :: "ship_args \<Rightarrow> skipped_row \<Rightarrow> string list" where
  "raw_probe_command args skipped =
     ssh_command (sa_ssh_host args)
       [''env'', ''PYTHONPATH='' @ sa_remote_importer_dir args, ''python3'', ''-c'', raw_probe,
        sa_remote_raw_block_store args, sk_cid skipped, dec_text (nat (sk_bytes skipped))]"

end
