(* ===== verification/Ship_Car.thy ===== *)
theory Ship_Car
  imports Ship_Commands
begin

text \<open>
  \<open>deploy/ship_lake_car.py\<close>, \<open>ship_once\<close>: one range of rows is exported, sent to the other node, imported
  there, and only then the checkpoint moves. Shown: the cursor passes rows only with the receipt of the
  other node for exactly these rows and this CAR, or after that node verified a skipped row; and nothing
  local is deleted before the checkpoint has moved.
\<close>

section \<open>Opening\<close>

text \<open>The manifest of CIDs the other node holds in its raw store.\<close>

definition raw_manifest :: "pylib \<Rightarrow> ship_args \<Rightarrow> ('w shipping, string list) action" where
  "raw_manifest py args =
     (case sa_raw_cids_file args of
        None \<Rightarrow> areturn []
      | Some p \<Rightarrow>
          abind (on_fs (load_json py p)) (\<lambda>v.
          case v of JDict kvs \<Rightarrow>
            let differs = ShipError ''raw CID manifest or Jacob store argument differs'' in
            (case field kvs ''cids'' of
               JList vs \<Rightarrow>
                 if \<not> eq_str (field kvs ''inventory_sha256'') (sa_sha256 args) \<or>
                   \<not> list_all (\<lambda>v. case as_str v of None \<Rightarrow> False | Some cid \<Rightarrow> match_cid cid) vs \<or>
                   \<not> distinct vs \<or> sa_remote_raw_block_store args = []
                 then araise differs
                 else areturn (map (\<lambda>v. the (as_str v)) vs)
             | _ \<Rightarrow> araise differs)
          | _ \<Rightarrow> araise AttributeError))"

definition lock_file :: "ship_args \<Rightarrow> (fs, unit) action" where
  "lock_file args fs =
     (let p = sa_state_dir args @ [''ship.lock'']; fs = (if map_of fs p = None then write_node p (File []) fs else fs) in
      if sa_locked args then (Inl (ShipError ''shipper already running''), fs) else (Inr (), fs))"

definition checkpoint_path :: "ship_args \<Rightarrow> path" where
  "checkpoint_path args = sa_state_dir args @ [''checkpoint.json'']"

definition load_cursor :: "pylib \<Rightarrow> ship_args \<Rightarrow> (fs, int) action" where
  "load_cursor py args fs =
     (if \<not> exists_path fs (checkpoint_path args) then (Inr (sa_start_row args), fs)
      else
        (rbind (rbind (read_bytes fs (checkpoint_path args)) (json_loads py)) (\<lambda>v.
         rbind (jget v ''inventory_sha256'') (\<lambda>sha.
         if \<not> eq_str sha (sa_sha256 args) then Inl (ShipError ''checkpoint identity differs'')
         else
           rbind (jget v ''cursor'') (\<lambda>cursor.
           case as_int cursor of None \<Rightarrow> Inl (ShipError ''checkpoint identity differs'') | Some n \<Rightarrow> Inr n))), fs))"

section \<open>A skipped row\<close>

fun reason_text :: "skip_reason \<Rightarrow> string" where
  "reason_text Verified_Raw = ''verified-raw-block-store''"
| "reason_text Oversized = ''oversized-for-car''"

definition skipped_json :: "skipped_row \<Rightarrow> (string \<times> json) list" where
  "skipped_json sk = [(''row'', JInt (int (sk_row sk))), (''cid'', JStr (sk_cid sk)), (''bytes'', JInt (sk_bytes sk)),
     (''reason'', JStr (reason_text (sk_reason sk)))]"

definition same_skipped :: "json \<Rightarrow> skipped_row \<Rightarrow> bool" where
  "same_skipped v sk \<longleftrightarrow>
     (case v of
        JDict kvs \<Rightarrow> set (map fst kvs) = {''row'', ''cid'', ''bytes'', ''reason''} \<and>
          eq_int (field kvs ''row'') (int (sk_row sk)) \<and> eq_str (field kvs ''cid'') (sk_cid sk) \<and>
          eq_int (field kvs ''bytes'') (sk_bytes sk) \<and> eq_str (field kvs ''reason'') (reason_text (sk_reason sk))
      | _ \<Rightarrow> False)"

definition skip_path :: "ship_args \<Rightarrow> nat \<Rightarrow> path" where
  "skip_path args start = sa_state_dir args @ [''skipped-'' @ dec_text start @ ''.json'']"

definition verify_skipped ::
    "pylib \<Rightarrow> 'w command_runner \<Rightarrow> ship_args \<Rightarrow> skipped_row \<Rightarrow> ('w shipping, unit) action" where
  "verify_skipped py cmd args skipped =
     (case sk_reason skipped of
        Verified_Raw \<Rightarrow> abind (run_command cmd (raw_probe_command args skipped)) (\<lambda>_. areturn ())
      | Oversized \<Rightarrow> verify_remote_large_archive py cmd args skipped)"

definition note_skipped :: "pylib \<Rightarrow> ship_args \<Rightarrow> nat \<Rightarrow> skipped_row \<Rightarrow> (fs, unit) action" where
  "note_skipped py args start skipped fs =
     (if exists_path fs (skip_path args start) then
        (rbind (rbind (read_bytes fs (skip_path args start)) (json_loads py)) (\<lambda>v.
           if \<not> same_skipped v skipped then Inl (ShipError ''oversized skip receipt differs'') else Inr ()), fs)
      else atomic_json py (skip_path args start) (sa_uuid args 0) (JDict (skipped_json skipped)) fs)"

definition skip_record :: "ship_args \<Rightarrow> nat \<Rightarrow> json" where
  "skip_record args start = JDict [(''cursor'', JInt (int start + 1)), (''inventory_sha256'', JStr (sa_sha256 args))]"

definition ship_skipped ::
    "pylib \<Rightarrow> 'w command_runner \<Rightarrow> ship_args \<Rightarrow> nat \<Rightarrow> skipped_row \<Rightarrow> ('w shipping, json) action" where
  "ship_skipped py cmd args start skipped =
     abind (verify_skipped py cmd args skipped) (\<lambda>_.
     abind (on_fs (note_skipped py args start skipped)) (\<lambda>_.
     abind (on_fs (atomic_json py (checkpoint_path args) (sa_uuid args 1) (skip_record args start))) (\<lambda>_.
     areturn (JDict ((''status'', JStr ''skipped-oversized'') # skipped_json skipped)))))"

section \<open>The CAR\<close>

definition range_name :: "nat \<Rightarrow> nat \<Rightarrow> string" where
  "range_name start n = ''row-'' @ dec_text start @ ''-'' @ dec_text (start + n - 1)"

definition car_path :: "ship_args \<Rightarrow> nat \<Rightarrow> nat \<Rightarrow> path" where
  "car_path args start n = sa_state_dir args @ [range_name start n @ ''.car'']"

definition export_receipt_path :: "ship_args \<Rightarrow> nat \<Rightarrow> nat \<Rightarrow> path" where
  "export_receipt_path args start n = sa_state_dir args @ [range_name start n @ ''-export.json'']"

definition source_car :: "ship_args \<Rightarrow> nat \<Rightarrow> nat \<Rightarrow> string" where
  "source_car args start n = rstrip_slash (sa_source_output_dir args) @ ''/'' @ range_name start n @ ''.car''"

definition selection_options :: "ship_args \<Rightarrow> nat \<Rightarrow> nat \<Rightarrow> string list" where
  "selection_options args start n =
     [''--start-row'', dec_text start, ''--max-blocks'', dec_text n, ''--max-bytes'', dec_text (nat (sa_max_bytes args))]"

definition source_export_command :: "ship_args \<Rightarrow> nat \<Rightarrow> nat \<Rightarrow> string list" where
  "source_export_command args start n =
     [''python3'', sa_source_exporter args, ''--inventory'', sa_source_inventory args, ''--sha256'', sa_sha256 args,
      ''--count'', dec_text (sa_count args)] @ selection_options args start n @
     [''--ipfs-bin'', sa_source_ipfs_bin args, ''--ipfs-path'', sa_source_ipfs_path args,
      ''--output'', source_car args start n, ''--receipt'', source_car args start n @ ''.json''] @
     (if sa_source_rpc_url args = [] then [] else [''--rpc-url'', sa_source_rpc_url args])"

definition local_export_command :: "ship_args \<Rightarrow> nat \<Rightarrow> nat \<Rightarrow> string \<Rightarrow> string list" where
  "local_export_command args start n classpath =
     [sa_kbb args, ''--backend'', ''sci'', ''--classpath'', classpath, ''deploy/export_lake_car.cljk'',
      ''--inventory'', path_str (sa_inventory args), ''--inventory-sha256'', sa_sha256 args,
      ''--inventory-count'', dec_text (sa_count args)] @ selection_options args start n @
     [''--base-url'', sa_base_url args] @ (if sa_resolve args = [] then [] else [''--resolve'', sa_resolve args]) @
     [''--output'', path_str (car_path args start n)]"

definition run_exporter ::
    "'w command_runner \<Rightarrow> ship_args \<Rightarrow> nat \<Rightarrow> nat \<Rightarrow> ('w shipping, bytes) action" where
  "run_exporter cmd args start n =
     (if sa_source_ssh_host args \<noteq> [] then
        abind (run_command cmd (ssh_command (sa_source_ssh_host args) (source_export_command args start n))) (\<lambda>out.
        abind (run_command cmd ([''scp''] @ ssh_opts @
          [sa_source_ssh_host args @ '':'' @ source_car args start n, path_str (car_path args start n)])) (\<lambda>_.
        areturn out))
      else
        abind (run_in cmd (Some (sa_source args)) [sa_kbb args, ''-Spath'']) (\<lambda>classpath.
        run_in cmd (Some (sa_source args)) (local_export_command args start n (strip (text_of classpath)))))"

text \<open>A saved export is used again when it is still the CAR on disk; otherwise the exporter runs.\<close>

definition saved_export :: "pylib \<Rightarrow> ship_args \<Rightarrow> nat \<Rightarrow> nat \<Rightarrow> (fs, json) action" where
  "saved_export py args start n fs =
     (rbind (rbind (read_bytes fs (export_receipt_path args start n)) (json_loads py)) (\<lambda>exported.
      let differs = ShipError ''saved CAR differs from export receipt'' in
      if \<not> is_file fs (car_path args start n) then Inl differs
      else
        rbind (jget exported ''sha256'') (\<lambda>sha.
        rbind (read_bytes fs (car_path args start n)) (\<lambda>car.
        rbind (jget exported ''start-row'') (\<lambda>from_row.
        rbind (jget exported ''end-row'') (\<lambda>end_row.
        if \<not> eq_str sha (hex (sha256 py car)) \<or> \<not> eq_int from_row (int start) \<or> \<not> eq_int end_row (int (start + n))
        then Inl differs else Inr exported))))), fs)"

definition obtain_export ::
    "pylib \<Rightarrow> 'w command_runner \<Rightarrow> ship_args \<Rightarrow> nat \<Rightarrow> nat \<Rightarrow> ('w shipping, json) action" where
  "obtain_export py cmd args start n s =
     (if exists_path (sp_fs s) (export_receipt_path args start n) then on_fs (saved_export py args start n) s
      else
        abind (run_exporter cmd args start n) (\<lambda>output.
        abind (alift (last_receipt py output ''CAR exporter'')) (\<lambda>exported.
        abind (alift (jget exported ''status'')) (\<lambda>status.
        abind (alift (jget exported ''start-row'')) (\<lambda>from_row.
        abind (alift (jget exported ''end-row'')) (\<lambda>end_row.
        abind (alift (jget exported ''blocks'')) (\<lambda>n_blocks.
        abind (alift (jget exported ''sha256'')) (\<lambda>sha.
        if \<not> eq_str status ''complete'' \<or> \<not> eq_int from_row (int start) \<or> \<not> eq_int end_row (int (start + n)) \<or>
          \<not> eq_int n_blocks (int n)
        then araise (ShipError ''CAR export receipt differs'')
        else
          abind (on_fs (ship_sha py (car_path args start n))) (\<lambda>car_sha.
          if \<not> eq_str sha car_sha then araise (ShipError ''CAR export receipt differs'')
          else
            abind (on_fs (atomic_json py (export_receipt_path args start n) (sa_uuid args 2) exported)) (\<lambda>_.
            areturn exported))))))))) s)"

section \<open>Sending\<close>

definition archive_path :: "ship_args \<Rightarrow> nat \<Rightarrow> nat \<Rightarrow> path" where
  "archive_path args start n = sa_state_dir args @ [range_name start n @ ''.carv2.zst'']"

definition archive_receipt_path :: "ship_args \<Rightarrow> nat \<Rightarrow> nat \<Rightarrow> path" where
  "archive_receipt_path args start n = sa_state_dir args @ [range_name start n @ ''-carv2-zstd.json'']"

text \<open>What is sent: its file, its digest, the digest of the CAR the importer is to see, and the packing receipt.\<close>

record cargo =
  cg_file :: path
  cg_transfer_sha :: string
  cg_import_sha :: string
  cg_archive :: "(string \<times> json) list option"

definition load_cargo ::
    "pylib \<Rightarrow> 'w command_runner \<Rightarrow> ship_args \<Rightarrow> nat \<Rightarrow> nat \<Rightarrow> json \<Rightarrow> ('w shipping, cargo) action" where
  "load_cargo py cmd args start n exported =
     (if sa_carv2_zstd args then
        abind (pack_transport_archive py cmd args (car_path args start n) (archive_path args start n)
          (archive_receipt_path args start n) exported n) (\<lambda>archive.
        abind (alift (text_value (jsub (JDict archive) ''compressed_sha256''))) (\<lambda>transfer.
        abind (alift (text_value (jsub (JDict archive) ''carv2_sha256''))) (\<lambda>import_sha.
        areturn \<lparr>cg_file = archive_path args start n, cg_transfer_sha = transfer, cg_import_sha = import_sha,
                 cg_archive = Some archive\<rparr>)))
      else
        abind (alift (text_value (jsub exported ''sha256''))) (\<lambda>sha.
        areturn \<lparr>cg_file = car_path args start n, cg_transfer_sha = sha, cg_import_sha = sha, cg_archive = None\<rparr>))"

definition remote_car :: "ship_args \<Rightarrow> nat \<Rightarrow> nat \<Rightarrow> string" where
  "remote_car args start n =
     rstrip_slash (if sa_remote_car_dir args = [] then sa_remote_dir args else sa_remote_car_dir args) @ ''/'' @
     range_name start n @ (if sa_carv2_zstd args then ''.carv2.zst'' else ''.car'')"

definition remote_plain_car :: "ship_args \<Rightarrow> nat \<Rightarrow> nat \<Rightarrow> string" where
  "remote_plain_car args start n = remote_car args start n @ (if sa_carv2_zstd args then ''.carv2'' else [])"

definition remote_unpack_receipt :: "ship_args \<Rightarrow> nat \<Rightarrow> nat \<Rightarrow> string" where
  "remote_unpack_receipt args start n = remote_car args start n @ ''.unpack.json''"

definition remote_receipt :: "ship_args \<Rightarrow> nat \<Rightarrow> nat \<Rightarrow> string" where
  "remote_receipt args start n = rstrip_slash (sa_remote_dir args) @ ''/'' @ range_name start n @ ''-import.json''"

text \<open>By S3 (the result is the address of the object) or by \<open>scp\<close>.\<close>

definition send_cargo ::
    "pylib \<Rightarrow> 'w command_runner \<Rightarrow> ship_args \<Rightarrow> nat \<Rightarrow> nat \<Rightarrow> cargo \<Rightarrow> ('w shipping, string option) action" where
  "send_cargo py cmd args start n cargo =
     (if sa_s3_destination args \<noteq> [] then
        (case cg_archive cargo of
           None \<Rightarrow> araise TypeError
         | Some archive \<Rightarrow>
             abind (alift (s3_object_uri args (sa_s3_destination args) (sa_sha256 args @ ''/'' @ range_name start n @ ''-'' @
                 cg_transfer_sha cargo @ ''.carv2.zst''))) (\<lambda>uri.
             abind (upload_s3_file py cmd args (cg_file cargo) uri ''application/zstd''
                 [(''format'', ''carv2+zstd''), (''sha256'', cg_transfer_sha cargo), (''carv2-sha256'', cg_import_sha cargo),
                  (''inventory-sha256'', sa_sha256 args)]) (\<lambda>_.
             abind (run_command cmd (ssh_command (sa_ssh_host args)
                 ([''aws'', ''s3'', ''cp'', uri, remote_car args start n, ''--only-show-errors''] @
                  aws_options (sa_s3_endpoint_url args) (sa_s3_region args)))) (\<lambda>_.
             areturn (Some uri)))))
      else
        abind (run_command cmd ([''scp''] @ ssh_opts @
          [path_str (cg_file cargo), sa_ssh_host args @ '':'' @ remote_car args start n])) (\<lambda>_. areturn None))"

section \<open>Importing\<close>

definition import_command :: "ship_args \<Rightarrow> nat \<Rightarrow> nat \<Rightarrow> string \<Rightarrow> string list" where
  "import_command args start n import_sha =
     ssh_command (sa_ssh_host args)
       [''python3'', sa_remote_importer args, ''--inventory'', sa_remote_inventory args, ''--sha256'', sa_sha256 args,
        ''--count'', dec_text (sa_count args), ''--start-row'', dec_text start, ''--max-blocks'', dec_text n,
        ''--car'', remote_plain_car args start n, ''--car-sha256'', import_sha, ''--ipfs-bin'', sa_remote_ipfs_bin args,
        ''--ipfs-path'', sa_remote_ipfs_path args, ''--receipt'', remote_receipt args start n]"

definition import_receipt_ok :: "(string \<times> json) list \<Rightarrow> nat \<Rightarrow> nat \<Rightarrow> string \<Rightarrow> bool" where
  "import_receipt_ok kvs start n import_sha \<longleftrightarrow>
     eq_str (field kvs ''status'') ''complete'' \<and> eq_int (field kvs ''start_row'') (int start) \<and>
     eq_int (field kvs ''end_row'') (int (start + n)) \<and> eq_str (field kvs ''car_sha256'') import_sha \<and>
     eq_int (field kvs ''blocks'') (int n)"

definition run_importer ::
    "pylib \<Rightarrow> 'w command_runner \<Rightarrow> ship_args \<Rightarrow> nat \<Rightarrow> nat \<Rightarrow> string \<Rightarrow> ('w shipping, (string \<times> json) list) action" where
  "run_importer py cmd args start n import_sha =
     abind (run_command cmd (import_command args start n import_sha)) (\<lambda>out.
     abind (alift (last_receipt py out ''Jacob importer'')) (\<lambda>v.
     case v of JDict kvs \<Rightarrow>
       if \<not> import_receipt_ok kvs start n import_sha then araise (ShipError ''Jacob import receipt differs'')
       else areturn kvs
     | _ \<Rightarrow> araise AttributeError))"

section \<open>The manifest of an S3 object\<close>

definition manifest_path :: "ship_args \<Rightarrow> nat \<Rightarrow> nat \<Rightarrow> path" where
  "manifest_path args start n = sa_state_dir args @ [range_name start n @ ''-carv2-zstd-manifest.json'']"

definition manifest_json ::
    "ship_args \<Rightarrow> nat \<Rightarrow> nat \<Rightarrow> (string \<times> json) list \<Rightarrow> (string \<times> json) list \<Rightarrow> string \<Rightarrow> json res" where
  "manifest_json args start n archive imported uri =
     rbind (jsub (JDict archive) ''carv1_sha256'') (\<lambda>carv1_sha.
     rbind (jsub (JDict archive) ''carv2_sha256'') (\<lambda>carv2_sha.
     rbind (jsub (JDict archive) ''compressed_sha256'') (\<lambda>zst_sha.
     rbind (jsub (JDict archive) ''carv2_bytes'') (\<lambda>carv2_bytes.
     rbind (jsub (JDict archive) ''compressed_bytes'') (\<lambda>zst_bytes.
     rbind (jsub (JDict archive) ''ratio_uncompressed_over_compressed'') (\<lambda>ratio.
     rbind (jsub (JDict imported) ''root'') (\<lambda>cid.
     Inr (JDict [(''schema'', JInt 1), (''format'', JStr ''carv2+zstd''), (''inventory_sha256'', JStr (sa_sha256 args)),
       (''start_row'', JInt (int start)), (''end_row'', JInt (int (start + n))), (''blocks'', JInt (int n)),
       (''carv1_sha256'', carv1_sha), (''carv2_sha256'', carv2_sha), (''compressed_sha256'', zst_sha),
       (''carv2_bytes'', carv2_bytes), (''compressed_bytes'', zst_bytes),
       (''ratio_uncompressed_over_compressed'', ratio), (''kubo_import_root'', cid),
       (''s3_object'', JStr uri)]))))))))"

definition save_manifest :: "pylib \<Rightarrow> ship_args \<Rightarrow> path \<Rightarrow> json \<Rightarrow> (fs, unit) action" where
  "save_manifest py args p manifest fs =
     (if exists_path fs p then
        (rbind (rbind (read_bytes fs p) (json_loads py)) (\<lambda>v.
           if \<not> json_eq v manifest then Inl (ShipError ''saved compressed archive manifest differs'') else Inr ()), fs)
      else atomic_json py p (sa_uuid args 3) manifest fs)"

definition upload_manifest ::
    "pylib \<Rightarrow> 'w command_runner \<Rightarrow> ship_args \<Rightarrow> nat \<Rightarrow> nat \<Rightarrow> cargo \<Rightarrow> (string \<times> json) list \<Rightarrow> string option \<Rightarrow>
       ('w shipping, unit) action" where
  "upload_manifest py cmd args start n cargo imported object_uri =
     (if sa_s3_destination args = [] then areturn ()
      else case (cg_archive cargo, object_uri) of
        (Some archive, Some uri) \<Rightarrow>
          abind (alift (manifest_json args start n archive imported uri)) (\<lambda>manifest.
          abind (on_fs (save_manifest py args (manifest_path args start n) manifest)) (\<lambda>_.
          abind (on_fs (ship_sha py (manifest_path args start n))) (\<lambda>sha.
          abind (upload_s3_file py cmd args (manifest_path args start n) (uri @ ''.json'') ''application/json''
             [(''sha256'', sha), (''inventory-sha256'', sa_sha256 args)]) (\<lambda>_. areturn ()))))
      | _ \<Rightarrow> araise (ShipError ''S3 archival requires the CARv2/Zstandard transport mode''))"

section \<open>Cleaning up and moving the checkpoint\<close>

definition remote_cleanup :: "'w command_runner \<Rightarrow> ship_args \<Rightarrow> nat \<Rightarrow> nat \<Rightarrow> ('w shipping, unit) action" where
  "remote_cleanup cmd args start n =
     abind (run_command cmd (ssh_command (sa_ssh_host args)
       ([''rm'', ''-f'', ''--'', remote_car args start n] @
        (if sa_carv2_zstd args then [remote_plain_car args start n, remote_unpack_receipt args start n] else [])))) (\<lambda>_.
     if sa_source_ssh_host args = [] then areturn ()
     else
       abind (run_command cmd (ssh_command (sa_source_ssh_host args)
         [''rm'', ''-f'', ''--'', source_car args start n, source_car args start n @ ''.json''])) (\<lambda>_. areturn ()))"

definition checkpoint_record ::
    "ship_args \<Rightarrow> nat \<Rightarrow> nat \<Rightarrow> cargo \<Rightarrow> json \<Rightarrow> string option \<Rightarrow> json" where
  "checkpoint_record args start n cargo cid object_uri =
     JDict ([(''cursor'', JInt (int (start + n))), (''inventory_sha256'', JStr (sa_sha256 args)), (''last_root'', cid),
        (''last_car_sha256'', JStr (cg_import_sha cargo))] @
       (if cg_archive cargo = None then [] else [(''last_transport_sha256'', JStr (cg_transfer_sha cargo))]) @
       (case object_uri of None \<Rightarrow> [] | Some uri \<Rightarrow> [(''last_s3_object'', JStr uri)]))"

definition compression_json :: "(string \<times> json) list \<Rightarrow> json res" where
  "compression_json archive =
     rbind (jsub (JDict archive) ''carv2_bytes'') (\<lambda>carv2_bytes.
     rbind (jsub (JDict archive) ''compressed_bytes'') (\<lambda>zst_bytes.
     rbind (jsub (JDict archive) ''ratio_uncompressed_over_compressed'') (\<lambda>ratio.
     Inr (JDict [(''format'', JStr ''carv2+zstd''), (''carv2_bytes'', carv2_bytes), (''compressed_bytes'', zst_bytes),
       (''ratio_uncompressed_over_compressed'', ratio)]))))"

text \<open>Everything up to the cleanup; the checkpoint is not touched.\<close>

definition deliver_range ::
    "pylib \<Rightarrow> 'w command_runner \<Rightarrow> ship_args \<Rightarrow> nat \<Rightarrow> nat \<Rightarrow>
       ('w shipping, cargo \<times> (string \<times> json) list \<times> string option \<times> json) action" where
  "deliver_range py cmd args start n =
     abind (obtain_export py cmd args start n) (\<lambda>exported.
     abind (load_cargo py cmd args start n exported) (\<lambda>cargo.
     abind (send_cargo py cmd args start n cargo) (\<lambda>object_uri.
     abind (case cg_archive cargo of
         None \<Rightarrow> areturn JNull
       | Some archive \<Rightarrow> unpack_remote_archive py cmd args (remote_car args start n) (remote_plain_car args start n)
           (remote_unpack_receipt args start n) archive n) (\<lambda>_.
     abind (run_importer py cmd args start n (cg_import_sha cargo)) (\<lambda>imported.
     abind (upload_manifest py cmd args start n cargo imported object_uri) (\<lambda>_.
     abind (remote_cleanup cmd args start n) (\<lambda>_.
     abind (alift (jsub (JDict imported) ''root'')) (\<lambda>cid.
     areturn (cargo, imported, object_uri, cid)))))))))"

text \<open>The checkpoint, then the local files.\<close>

definition commit_range ::
    "pylib \<Rightarrow> ship_args \<Rightarrow> nat \<Rightarrow> nat \<Rightarrow> cargo \<Rightarrow> string option \<Rightarrow> json \<Rightarrow> ('w shipping, json) action" where
  "commit_range py args start n cargo object_uri cid =
     abind (on_fs (atomic_json py (checkpoint_path args) (sa_uuid args 1) (checkpoint_record args start n cargo cid object_uri))) (\<lambda>_.
     abind (on_fs (remove_file (car_path args start n))) (\<lambda>_.
     abind (on_fs (\<lambda>fs. if exists_path fs (archive_path args start n) then remove_file (archive_path args start n) fs
         else (Inr (), fs))) (\<lambda>_.
     abind (alift (case cg_archive cargo of
         None \<Rightarrow> Inr []
       | Some archive \<Rightarrow> rbind (compression_json archive) (\<lambda>v. Inr [(''compression'', v)]))) (\<lambda>compression.
     areturn (JDict ([(''status'', JStr ''shipped''), (''start_row'', JInt (int start)), (''end_row'', JInt (int (start + n))),
        (''blocks'', JInt (int n)), (''root'', cid)] @ compression @
       (case object_uri of None \<Rightarrow> [] | Some uri \<Rightarrow> [(''s3_object'', JStr uri)])))))))"

definition ship_range ::
    "pylib \<Rightarrow> 'w command_runner \<Rightarrow> ship_args \<Rightarrow> nat \<Rightarrow> nat \<Rightarrow> ('w shipping, json) action" where
  "ship_range py cmd args start n =
     abind (deliver_range py cmd args start n) (\<lambda>(cargo, imported, object_uri, cid).
     commit_range py args start n cargo object_uri cid)"

section \<open>ship_once\<close>

text \<open>\<open>selected_rows\<close> refuses a negative cursor, whatever the file.\<close>

definition choose_rows ::
    "pylib \<Rightarrow> ship_args \<Rightarrow> string list \<Rightarrow> int \<Rightarrow> int \<Rightarrow> (fs, (string \<times> int) list \<times> skipped_row option) action" where
  "choose_rows py args raw_cids start stop fs =
     (rbind (read_bytes fs (sa_inventory args)) (\<lambda>content.
      if start < 0 then Inl (ShipError ''inventory row disappeared'')
      else ship_selected_rows py content (sa_sha256 args) (sa_count args) (nat start)
        (min (sa_max_blocks args) (nat (stop - start))) (sa_max_bytes args) raw_cids), fs)"

definition ship_stop :: "ship_args \<Rightarrow> int" where
  "ship_stop args = (case sa_stop_row args of None \<Rightarrow> int (sa_count args) | Some s \<Rightarrow> s)"

definition check_ship_args :: "ship_args \<Rightarrow> unit res" where
  "check_ship_args args =
     (let stop = ship_stop args in
      if \<not> match_sha256 (sa_sha256 args) \<or> sa_count args < 1 \<or>
        \<not> (0 \<le> sa_start_row args \<and> sa_start_row args < stop \<and> stop \<le> int (sa_count args))
      then Inl (ShipError ''invalid inventory identity or start'')
      else if \<not> (1 \<le> sa_max_blocks args \<and> sa_max_blocks args \<le> 1000) \<or>
        \<not> (1 \<le> sa_max_bytes args \<and> sa_max_bytes args \<le> 536870912)
      then Inl (ShipError ''invalid CAR bounds'')
      else Inr ())"

text \<open>What happens under the lock.\<close>

definition ship_locked :: "pylib \<Rightarrow> 'w command_runner \<Rightarrow> ship_args \<Rightarrow> string list \<Rightarrow> ('w shipping, json) action" where
  "ship_locked py cmd args raw_cids =
     abind (on_fs (load_cursor py args)) (\<lambda>start.
     if ship_stop args < start then araise (ShipError ''checkpoint passed configured stop row'')
     else if start = ship_stop args
     then areturn (JDict [(''status'', JStr ''complete''), (''cursor'', JInt start), (''stop_row'', JInt (ship_stop args))])
     else
       abind (on_fs (choose_rows py args raw_cids start (ship_stop args))) (\<lambda>(rows, skipped).
       case skipped of
         Some sk \<Rightarrow> ship_skipped py cmd args (nat start) sk
       | None \<Rightarrow> ship_range py cmd args (nat start) (length rows)))"

definition ship_once :: "pylib \<Rightarrow> 'w command_runner \<Rightarrow> ship_args \<Rightarrow> ('w shipping, json) action" where
  "ship_once py cmd args =
     abind (alift (check_ship_args args)) (\<lambda>_.
     abind (raw_manifest py args) (\<lambda>raw_cids.
     abind (on_fs (amkdirs (sa_state_dir args))) (\<lambda>_.
     abind (on_fs (lock_file args)) (\<lambda>_.
     ship_locked py cmd args raw_cids))))"

text \<open>\<open>main\<close>: which combinations of options are accepted.\<close>

definition ship_options_ok :: "ship_args \<Rightarrow> unit res" where
  "ship_options_ok args =
     (let source_args = [sa_source_exporter args, sa_source_inventory args, sa_source_ipfs_bin args,
            sa_source_ipfs_path args, sa_source_output_dir args] in
      if sa_s3_destination args \<noteq> [] \<and> \<not> sa_carv2_zstd args
      then Inl (ShipError ''S3 archive upload requires --carv2-zstd'')
      else if sa_s3_endpoint_url args \<noteq> [] \<and> sa_s3_destination args = []
      then Inl (ShipError ''--s3-endpoint-url requires --s3-destination'')
      else if sa_s3_region args \<noteq> [] \<and> sa_s3_destination args = []
      then Inl (ShipError ''--s3-region requires --s3-destination'')
      else if sa_source_ssh_host args \<noteq> [] then
        (if list_ex (\<lambda>a. a = []) source_args \<or> sa_base_url args \<noteq> [] \<or> sa_resolve args \<noteq> []
         then Inl (ShipError ''remote Kubo source arguments are incomplete or mixed with HTTPS'') else Inr ())
      else if sa_source args = [] \<or> sa_kbb args = [] \<or> sa_base_url args = [] \<or> list_ex (\<lambda>a. a \<noteq> []) source_args \<or>
        sa_source_rpc_url args \<noteq> []
      then Inl (ShipError ''HTTPS source arguments are incomplete or mixed with remote Kubo'') else Inr ())"

fun ship_refused :: "exn \<Rightarrow> bool" where
  "ship_refused (ShipError _) = True"
| "ship_refused OSError = True"
| "ship_refused ValueError = True"
| "ship_refused KeyError = True"
| "ship_refused IndexError = True"
| "ship_refused _ = False"

definition ship_main :: "pylib \<Rightarrow> 'w command_runner \<Rightarrow> ship_args \<Rightarrow> 'w shipping \<Rightarrow> int \<times> 'w shipping" where
  "ship_main py cmd args s =
     (case abind (alift (ship_options_ok args)) (\<lambda>_. ship_once py cmd args) s of
        (Inr _, s) \<Rightarrow> (0, s)
      | (Inl e, s) \<Rightarrow> (if ship_refused e then 2 else 1, s))"

section \<open>What a run leaves alone\<close>

definition cmd_keeps :: "(fs \<Rightarrow> bool) \<Rightarrow> 'w command_runner \<Rightarrow> bool" where
  "cmd_keeps Q cmd \<longleftrightarrow> (\<forall>cwd argv fs w. Q fs \<longrightarrow> Q (fst (snd (cmd cwd argv (fs, w)))))"

text \<open>Files with a property, and a record of commands that has only grown.\<close>

definition since :: "(string list \<times> (int \<times> bytes) res) list \<Rightarrow> (fs \<Rightarrow> bool) \<Rightarrow> 'w shipping \<Rightarrow> bool" where
  "since l Q s \<longleftrightarrow> Q (sp_fs s) \<and> (\<exists>m. sp_log s = l @ m)"

lemma keeps_on_fs: "keeps Q m \<Longrightarrow> keeps (since l Q) (on_fs m)"
  by (simp add: keeps_def since_def on_fs_def split_beta)

lemma keeps_run_in: "cmd_keeps Q cmd \<Longrightarrow> keeps (since l Q) (run_in cmd cwd argv)"
  by (auto simp: keeps_def since_def cmd_keeps_def run_in_def split_beta)

lemma keeps_reading:
  "keeps Q (load_json py p)" "keeps Q (ship_sha py p)" "keeps Q (file_size p)" "keeps Q (load_cursor py args)"
  "keeps Q (saved_export py args start n)" "keeps Q (choose_rows py args raw_cids k stop)"
  by (simp_all add: keeps_def load_json_def ship_sha_def file_size_def load_cursor_def saved_export_def choose_rows_def)

text \<open>A property of the files that programs and the files \<open>ship_once\<close> writes beside the checkpoint keep.\<close>

definition beside :: "(fs \<Rightarrow> bool) \<Rightarrow> pylib \<Rightarrow> 'w command_runner \<Rightarrow> ship_args \<Rightarrow> bool" where
  "beside Q py cmd args \<longleftrightarrow> cmd_keeps Q cmd \<and>
     (\<forall>q tag v. q \<noteq> checkpoint_path args \<longrightarrow> keeps Q (atomic_json py q tag v))"

lemma besideD:
  "beside Q py cmd args \<Longrightarrow> cmd_keeps Q cmd"
  "beside Q py cmd args \<Longrightarrow> q \<noteq> checkpoint_path args \<Longrightarrow> keeps Q (atomic_json py q tag v)"
  by (simp_all add: beside_def)

lemma other_names:
  "export_receipt_path args start n \<noteq> checkpoint_path args" "manifest_path args start n \<noteq> checkpoint_path args"
  "skip_path args k \<noteq> checkpoint_path args" "car_path args start n \<noteq> checkpoint_path args"
  "archive_path args start n \<noteq> checkpoint_path args" "partial_name q tag \<noteq> checkpoint_path args"
proof -
  show "partial_name q tag \<noteq> checkpoint_path args"
  proof
    assume "partial_name q tag = checkpoint_path args"
    then have "last (last (partial_name q tag)) = last (last (checkpoint_path args))" by simp
    then show False by (simp add: partial_name_def checkpoint_path_def)
  qed
qed (simp_all add: export_receipt_path_def manifest_path_def skip_path_def car_path_def archive_path_def
    checkpoint_path_def range_name_def)

lemma keeps_case_json [keeps_intros]:
  "(\<And>x. keeps P (f x)) \<Longrightarrow> keeps P g1 \<Longrightarrow> keeps P (case v of JDict kvs \<Rightarrow> f kvs | _ \<Rightarrow> g1)"
  "(\<And>x. keeps P (f' x)) \<Longrightarrow> keeps P g1 \<Longrightarrow> keeps P (case v of JList xs \<Rightarrow> f' xs | _ \<Rightarrow> g1)"
  by (cases v; simp)+

lemma keeps_branch [keeps_intros]: "keeps P a \<Longrightarrow> keeps P b \<Longrightarrow> keeps P (\<lambda>s. if c s then a s else b s)"
  by (simp add: keeps_def)

lemma keeps_upload:
  assumes "beside Q py cmd args"
  shows "keeps (since l Q) (upload_s3_file py cmd args p uri content_type metadata)"
  unfolding upload_s3_file_def s3_head_def Let_def
  by (intro keeps_intros keeps_on_fs keeps_run_in keeps_reading besideD(1) [OF assms])

lemma keeps_obtain:
  assumes "beside Q py cmd args"
  shows "keeps (since l Q) (obtain_export py cmd args start n)"
  unfolding obtain_export_def [abs_def] run_exporter_def
  by (intro keeps_intros keeps_on_fs keeps_run_in keeps_reading besideD(1) [OF assms] besideD(2) [OF assms] other_names)

lemma keeps_cargo:
  assumes "beside Q py cmd args"
  shows "keeps (since l Q) (load_cargo py cmd args start n exported)"
  unfolding load_cargo_def pack_transport_archive_def
  by (intro keeps_intros keeps_on_fs keeps_run_in keeps_reading besideD(1) [OF assms])

lemma keeps_send:
  assumes "beside Q py cmd args"
  shows "keeps (since l Q) (send_cargo py cmd args start n cargo)"
  unfolding send_cargo_def
  by (intro keeps_intros keeps_upload [OF assms] keeps_run_in besideD(1) [OF assms])

lemma keeps_unpack:
  assumes "beside Q py cmd args"
  shows "keeps (since l Q) (unpack_remote_archive py cmd args zst car receipt archive n)"
  unfolding unpack_remote_archive_def
  by (intro keeps_intros keeps_run_in besideD(1) [OF assms])

lemma keeps_import:
  assumes "beside Q py cmd args"
  shows "keeps (since l Q) (run_importer py cmd args start n import_sha)"
  unfolding run_importer_def
  by (intro keeps_intros keeps_run_in besideD(1) [OF assms])

lemma keeps_manifest:
  assumes "beside Q py cmd args"
  shows "keeps (since l Q) (upload_manifest py cmd args start n cargo imported uri)"
proof -
  have "keeps Q (save_manifest py args (manifest_path args start n) v)" for v
    unfolding save_manifest_def [abs_def]
    by (intro keeps_branch besideD(2) [OF assms] other_names) (simp add: keeps_def)
  then show ?thesis
    unfolding upload_manifest_def
    by (intro keeps_intros keeps_on_fs keeps_upload [OF assms] keeps_reading)
qed

lemma keeps_cleanup:
  assumes "beside Q py cmd args"
  shows "keeps (since l Q) (remote_cleanup cmd args start n)"
  unfolding remote_cleanup_def
  by (intro keeps_intros keeps_run_in besideD(1) [OF assms])

lemma keeps_deliver:
  assumes "beside Q py cmd args"
  shows "keeps (since l Q) (deliver_range py cmd args start n)"
  unfolding deliver_range_def
  by (intro keeps_intros keeps_obtain [OF assms] keeps_cargo [OF assms] keeps_send [OF assms] keeps_unpack [OF assms]
      keeps_import [OF assms] keeps_manifest [OF assms] keeps_cleanup [OF assms])

lemma keeps_verify_skipped:
  assumes "beside Q py cmd args"
  shows "keeps (since l Q) (verify_skipped py cmd args sk)"
  unfolding verify_skipped_def verify_remote_large_archive_def
  by (cases "sk_reason sk"; simp only: skip_reason.case)
    (intro keeps_intros keeps_run_in besideD(1) [OF assms])+

lemma keeps_note:
  assumes "beside Q py cmd args"
  shows "keeps Q (note_skipped py args start sk)"
  unfolding note_skipped_def [abs_def]
  by (intro keeps_branch besideD(2) [OF assms] other_names) (simp add: keeps_def)

section \<open>What moves the cursor\<close>

lemma beside_True: "beside (\<lambda>_. True) py cmd args"
  by (simp add: beside_def cmd_keeps_def keeps_def)

lemma since_refl: "Q (sp_fs s) \<Longrightarrow> since (sp_log s) Q s"
  by (simp add: since_def)

text \<open>A command that ended with status 0 after the log \<open>l\<close>.\<close>

definition ran_after :: "(string list \<times> (int \<times> bytes) res) list \<Rightarrow> 'w shipping \<Rightarrow> string list \<Rightarrow> bytes \<Rightarrow> bool" where
  "ran_after l s argv out \<longleftrightarrow> (argv, Inr (0, out)) \<in> set (drop (length l) (sp_log s))"

lemma run_in_ran:
  assumes "run_in cmd cwd argv s = (Inr out, s1)" and "since l P s" and "since (sp_log s1) Q s2"
  shows "ran_after l s2 argv out"
proof -
  from assms(1) have "sp_log s1 = sp_log s @ [(argv, Inr (0, out))]"
    by (auto simp: run_in_def split: prod.splits sum.splits if_splits)
  with assms(2,3) show ?thesis by (auto simp: ran_after_def since_def)
qed

lemma run_importer_Inr:
  assumes "run_importer py cmd args start n import_sha s = (Inr kvs, s')"
  obtains out where "run_command cmd (import_command args start n import_sha) s = (Inr out, s')"
    "last_receipt py out ''Jacob importer'' = Inr (JDict kvs)" "import_receipt_ok kvs start n import_sha"
proof -
  from assms obtain out s1 v where run: "run_command cmd (import_command args start n import_sha) s = (Inr out, s1)"
    and v: "last_receipt py out ''Jacob importer'' = Inr v"
    and check: "(case v of JDict kvs \<Rightarrow>
       if \<not> import_receipt_ok kvs start n import_sha then araise (ShipError ''Jacob import receipt differs'')
       else areturn kvs
     | _ \<Rightarrow> araise AttributeError) s1 = (Inr kvs, s')"
    by (auto simp: run_importer_def abind_Inr)
  show ?thesis using that run v check by (cases v) (auto split: if_splits)
qed

lemma deliver_evidence:
  assumes "deliver_range py cmd args start n s = (Inr (cargo, imported, uri, cid), s')"
  shows "\<exists>out. ran_after (sp_log s) s' (import_command args start n (cg_import_sha cargo)) out \<and>
    last_receipt py out ''Jacob importer'' = Inr (JDict imported) \<and>
    import_receipt_ok imported start n (cg_import_sha cargo)"
proof -
  note quiet = beside_True [of py cmd args]
  from assms obtain exported s1 s2 s3 v s4 s5 where
    1: "obtain_export py cmd args start n s = (Inr exported, s1)" and
    2: "load_cargo py cmd args start n exported s1 = (Inr cargo, s2)" and
    3: "send_cargo py cmd args start n cargo s2 = (Inr uri, s3)" and
    4: "(case cg_archive cargo of
         None \<Rightarrow> areturn JNull
       | Some archive \<Rightarrow> unpack_remote_archive py cmd args (remote_car args start n) (remote_plain_car args start n)
           (remote_unpack_receipt args start n) archive n) s3 = (Inr v, s4)" and
    5: "run_importer py cmd args start n (cg_import_sha cargo) s4 = (Inr imported, s5)" and
    6: "abind (upload_manifest py cmd args start n cargo imported uri) (\<lambda>_. remote_cleanup cmd args start n) s5 = (Inr (), s')"
    unfolding deliver_range_def by (auto simp: abind_Inr)
  let ?S = "since (sp_log s) (\<lambda>_. True)"
  have "?S s" by (simp add: since_refl)
  then have "?S s1" using keepsD [OF keeps_obtain [OF quiet] _ 1] by blast
  then have "?S s2" using keepsD [OF keeps_cargo [OF quiet] _ 2] by blast
  then have "?S s3" using keepsD [OF keeps_send [OF quiet] _ 3] by blast
  moreover have k: "keeps ?S (case cg_archive cargo of
         None \<Rightarrow> areturn JNull
       | Some archive \<Rightarrow> unpack_remote_archive py cmd args (remote_car args start n) (remote_plain_car args start n)
           (remote_unpack_receipt args start n) archive n)"
    by (intro keeps_intros keeps_unpack [OF quiet])
  ultimately have s4: "?S s4" using keepsD [OF k _ 4] by blast
  from 5 obtain out where run: "run_command cmd (import_command args start n (cg_import_sha cargo)) s4 = (Inr out, s5)"
    and receipt: "last_receipt py out ''Jacob importer'' = Inr (JDict imported)"
      "import_receipt_ok imported start n (cg_import_sha cargo)" by (rule run_importer_Inr)
  have k: "keeps (since (sp_log s5) (\<lambda>_. True))
      (abind (upload_manifest py cmd args start n cargo imported uri) (\<lambda>_. remote_cleanup cmd args start n))"
    by (intro keeps_intros keeps_manifest [OF quiet] keeps_cleanup [OF quiet])
  have "since (sp_log s5) (\<lambda>_. True) s5" by (simp add: since_refl)
  then have "since (sp_log s5) (\<lambda>_. True) s'" by (rule keepsD [OF k _ 6])
  from run_in_ran [OF run s4 this] receipt show ?thesis by auto
qed

text \<open>What the other node said about a skipped row.\<close>

definition skip_evidence ::
    "pylib \<Rightarrow> ship_args \<Rightarrow> (string list \<times> (int \<times> bytes) res) list \<Rightarrow> 'w shipping \<Rightarrow> skipped_row \<Rightarrow> bool" where
  "skip_evidence py args l s sk \<longleftrightarrow>
     (case sk_reason sk of
        Verified_Raw \<Rightarrow> \<exists>out. ran_after l s (raw_probe_command args sk) out
      | Oversized \<Rightarrow> \<exists>out kvs source. ran_after l s (large_archive_command args (sk_row sk)) out \<and>
          last_receipt py out ''Jacob large recovery archive'' = Inr (JDict kvs) \<and> field kvs ''receipt'' = JDict source \<and>
          large_archive_receipt_matches source sk (sa_sha256 args))"

lemma skipped_evidence:
  assumes "verify_skipped py cmd args sk s = (Inr (), s')"
  shows "skip_evidence py args (sp_log s) s' sk"
proof -
  have start: "since (sp_log s) (\<lambda>_. True) s" by (simp add: since_refl)
  show ?thesis
  proof (cases "sk_reason sk")
    case Verified_Raw
    with assms obtain out where run: "run_command cmd (raw_probe_command args sk) s = (Inr out, s')"
      by (auto simp: verify_skipped_def abind_Inr)
    have "since (sp_log s') (\<lambda>_. True) s'" by (simp add: since_refl)
    from run_in_ran [OF run start this] show ?thesis using Verified_Raw by (auto simp: skip_evidence_def)
  next
    case Oversized
    with assms obtain out s1 v where run: "run_command cmd (large_archive_command args (sk_row sk)) s = (Inr out, s1)"
      and v: "last_receipt py out ''Jacob large recovery archive'' = Inr v"
      and check: "(case (case v of JDict kvs \<Rightarrow> field kvs ''receipt'' | _ \<Rightarrow> JNull) of
          JDict source \<Rightarrow>
            if \<not> large_archive_receipt_matches source sk (sa_sha256 args) \<or>
              \<not> (case v of JDict kvs \<Rightarrow> eq_int (field kvs ''car_bytes_on_disk'')
                   (case as_int (field source ''car_bytes'') of None \<Rightarrow> 0 | Some n \<Rightarrow> n) | _ \<Rightarrow> False)
            then araise (ShipError ''Jacob large recovery receipt differs from skipped row'')
            else areturn ()
        | _ \<Rightarrow> araise (ShipError ''Jacob large recovery receipt differs from skipped row'')) s1 = (Inr (), s')"
      by (auto simp: verify_skipped_def verify_remote_large_archive_def abind_Inr split: if_splits)
    obtain kvs source where kvs: "v = JDict kvs" "field kvs ''receipt'' = JDict source"
      using check by (cases v; cases "field (case v of JDict kvs \<Rightarrow> kvs | _ \<Rightarrow> []) ''receipt''") auto
    with check have rest: "large_archive_receipt_matches source sk (sa_sha256 args)" "s' = s1"
      by (auto split: if_splits)
    have "since (sp_log s1) (\<lambda>_. True) s1" by (simp add: since_refl)
    from run_in_ran [OF run start this] show ?thesis
      using Oversized rest v kvs by (auto simp: skip_evidence_def)
  qed
qed

lemma ran_mono: "ran_after l s argv out \<Longrightarrow> since (sp_log s) Q s' \<Longrightarrow> ran_after l s' argv out"
  by (auto simp: ran_after_def since_def)

lemma skip_evidence_mono: "skip_evidence py args l s sk \<Longrightarrow> since (sp_log s) Q s' \<Longrightarrow> skip_evidence py args l s' sk"
  using ran_mono [of l s _ _ Q s'] unfolding skip_evidence_def by (cases "sk_reason sk"; simp; blast)

lemma atomic_json_cases:
  assumes "on_fs (atomic_json py q tag v) s = (r, s')"
  shows "(\<exists>e. r = Inl e) \<and> s' = s \<or>
    r = Inr () \<and> map_of (sp_fs s) (partial_name q tag) = None \<and> sp_log s' = sp_log s \<and>
      map_of (sp_fs s') = (map_of (sp_fs s))(q \<mapsto> File (json_text py v))"
proof -
  have "(map_of (sp_fs s))(partial_name q tag := Some x, partial_name q tag := None, q \<mapsto> y) = (map_of (sp_fs s))(q \<mapsto> y)"
    if "map_of (sp_fs s) (partial_name q tag) = None" for x y using that by (auto simp: fun_eq_iff)
  then show ?thesis using assms by (auto simp: on_fs_def atomic_json_def Let_def split: if_splits)
qed

lemma keeps_remove: "p \<noteq> q \<Longrightarrow> keeps (\<lambda>fs. map_of fs q = c) (remove_file p)"
  by (simp add: keeps_def remove_file_def)

text \<open>After the checkpoint is written, nothing more is run and it stays.\<close>

lemma commit_cases:
  assumes "commit_range py args start n cargo uri cid s = (r, s')"
  shows "(\<exists>e. r = Inl e) \<and> s' = s \<or>
    map_of (sp_fs s') (checkpoint_path args) = Some (File (json_text py (checkpoint_record args start n cargo cid uri))) \<and>
    since (sp_log s) (\<lambda>_. True) s'"
proof -
  let ?Q = "\<lambda>fs. map_of fs (checkpoint_path args) = Some (File (json_text py (checkpoint_record args start n cargo cid uri)))"
  obtain r1 s1 where w: "on_fs (atomic_json py (checkpoint_path args) (sa_uuid args 1)
      (checkpoint_record args start n cargo cid uri)) s = (r1, s1)" by (metis surj_pair)
  from atomic_json_cases [OF w] show ?thesis
  proof (elim disjE conjE exE)
    fix e
    assume "r1 = Inl e" "s1 = s"
    then show ?thesis using assms w by (auto simp: commit_range_def abind_def)
  next
    assume r1: "r1 = Inr ()" "sp_log s1 = sp_log s"
      "map_of (sp_fs s1) = (map_of (sp_fs s))(checkpoint_path args \<mapsto> File (json_text py (checkpoint_record args start n cargo cid uri)))"
    let ?tail = "abind (on_fs (remove_file (car_path args start n))) (\<lambda>_.
     abind (on_fs (\<lambda>fs. if exists_path fs (archive_path args start n) then remove_file (archive_path args start n) fs
         else (Inr (), fs))) (\<lambda>_.
     abind (alift (case cg_archive cargo of
         None \<Rightarrow> Inr []
       | Some archive \<Rightarrow> rbind (compression_json archive) (\<lambda>v. Inr [(''compression'', v)]))) (\<lambda>compression.
     areturn (JDict ([(''status'', JStr ''shipped''), (''start_row'', JInt (int start)), (''end_row'', JInt (int (start + n))),
        (''blocks'', JInt (int n)), (''root'', cid)] @ compression @
       (case uri of None \<Rightarrow> [] | Some uri \<Rightarrow> [(''s3_object'', JStr uri)]))))))"
    have tail: "?tail s1 = (r, s')" using assms w r1(1) by (simp add: commit_range_def abind_def [of "on_fs (atomic_json _ _ _ _)"])
    have k: "keeps (since (sp_log s1) ?Q) ?tail"
      by (intro keeps_intros keeps_on_fs keeps_remove other_names) (simp add: keeps_def)
    have "since (sp_log s1) ?Q s1" using r1(3) by (simp add: since_refl)
    from keepsD [OF k this tail] show ?thesis using r1(2) by (simp add: since_def)
  qed
qed

text \<open>The checkpoint that passes a range, and the receipt of the other node for it.\<close>

definition delivered ::
    "pylib \<Rightarrow> ship_args \<Rightarrow> (string list \<times> (int \<times> bytes) res) list \<Rightarrow> 'w shipping \<Rightarrow> nat \<Rightarrow> nat \<Rightarrow> bool" where
  "delivered py args l s start n \<longleftrightarrow>
     (\<exists>cargo imported uri cid out.
        map_of (sp_fs s) (checkpoint_path args) = Some (File (json_text py (checkpoint_record args start n cargo cid uri))) \<and>
        ran_after l s (import_command args start n (cg_import_sha cargo)) out \<and>
        last_receipt py out ''Jacob importer'' = Inr (JDict imported) \<and>
        import_receipt_ok imported start n (cg_import_sha cargo))"

lemma ship_range_cases:
  assumes "ship_range py cmd args start n s = (r, s')" and "beside Q py cmd args" and "Q (sp_fs s)"
  shows "Q (sp_fs s') \<or> delivered py args (sp_log s) s' start n"
proof -
  obtain r1 s1 where d: "deliver_range py cmd args start n s = (r1, s1)" by (metis surj_pair)
  have s1: "since (sp_log s) Q s1" by (rule keepsD [OF keeps_deliver [OF assms(2)] since_refl [of Q, OF assms(3)] d])
  show ?thesis
  proof (cases r1)
    case (Inl e)
    then show ?thesis using assms(1) d s1 by (auto simp: ship_range_def abind_def since_def)
  next
    case (Inr x)
    obtain cargo imported uri cid where x: "x = (cargo, imported, uri, cid)" by (cases x)
    have c: "commit_range py args start n cargo uri cid s1 = (r, s')" using assms(1) d Inr x by (simp add: ship_range_def abind_def)
    from deliver_evidence [OF d [unfolded Inr x]] obtain out where
      out: "ran_after (sp_log s) s1 (import_command args start n (cg_import_sha cargo)) out"
        "last_receipt py out ''Jacob importer'' = Inr (JDict imported)"
        "import_receipt_ok imported start n (cg_import_sha cargo)" by blast
    from commit_cases [OF c] s1 ran_mono [OF out(1)] out(2,3) show ?thesis
      unfolding delivered_def since_def [of _ Q] by blast
  qed
qed

text \<open>A range removes two files: its own CAR and its own archive.\<close>

lemma keeps_other_file: "p \<noteq> q \<Longrightarrow> keeps (\<lambda>fs. map_of fs p \<noteq> None) (remove_file q)"
  by (simp add: keeps_def remove_file_def)

lemma ship_range_removes:
  assumes "ship_range py cmd args start n s = (r, s')" and "beside (\<lambda>fs. map_of fs p \<noteq> None) py cmd args"
    and "map_of (sp_fs s) p \<noteq> None" and "map_of (sp_fs s') p = None"
  shows "p \<in> {car_path args start n, archive_path args start n}"
proof (rule ccontr)
  let ?Q = "\<lambda>fs. map_of fs p \<noteq> None"
  assume "p \<notin> {car_path args start n, archive_path args start n}"
  then have other: "p \<noteq> car_path args start n" "p \<noteq> archive_path args start n" by auto
  have json: "keeps ?Q (atomic_json py q tag v)" for q tag v
    by (auto simp: keeps_def atomic_json_def Let_def)
  have "keeps (since (sp_log s) ?Q) (commit_range py args start n cargo uri cid)" for cargo uri cid
    unfolding commit_range_def
    by (intro keeps_intros keeps_on_fs json keeps_other_file other) (use other in \<open>simp add: keeps_def remove_file_def\<close>)
  then have "keeps (since (sp_log s) ?Q) (ship_range py cmd args start n)"
    unfolding ship_range_def by (intro keeps_intros keeps_deliver [OF assms(2)])
  from keepsD [OF this since_refl [of ?Q, OF assms(3)] assms(1)] show False using assms(4) by (simp add: since_def)
qed

lemma ship_skipped_cases:
  assumes "ship_skipped py cmd args start sk s = (r, s')" and "beside Q py cmd args" and "Q (sp_fs s)"
  shows "Q (sp_fs s') \<or>
    map_of (sp_fs s') (checkpoint_path args) = Some (File (json_text py (skip_record args start))) \<and>
    skip_evidence py args (sp_log s) s' sk"
proof -
  let ?front = "abind (verify_skipped py cmd args sk) (\<lambda>_. on_fs (note_skipped py args start sk))"
  have k: "keeps (since l Q) ?front" for l
    by (intro keeps_intros keeps_verify_skipped [OF assms(2)] keeps_on_fs keeps_note [OF assms(2)])
  obtain r1 s1 where f: "?front s = (r1, s1)" by (metis surj_pair)
  have s1: "since (sp_log s) Q s1" by (rule keepsD [OF k since_refl [of Q, OF assms(3)] f])
  have whole: "ship_skipped py cmd args start sk s = abind ?front (\<lambda>_.
     abind (on_fs (atomic_json py (checkpoint_path args) (sa_uuid args 1) (skip_record args start))) (\<lambda>_.
     areturn (JDict ((''status'', JStr ''skipped-oversized'') # skipped_json sk)))) s"
    by (simp add: ship_skipped_def abind_def split: prod.split sum.split)
  show ?thesis
  proof (cases r1)
    case (Inl e)
    then show ?thesis using assms(1) f s1 unfolding whole by (auto simp: abind_def [of ?front] since_def)
  next
    case (Inr u)
    from f [unfolded Inr] obtain s0 where v: "verify_skipped py cmd args sk s = (Inr (), s0)"
      and n: "on_fs (note_skipped py args start sk) s0 = (Inr u, s1)" by (auto simp: abind_Inr)
    have "since (sp_log s0) (\<lambda>_. True) s1"
      by (rule keepsD [OF keeps_on_fs since_refl n]) (simp_all add: keeps_def)
    with skipped_evidence [OF v] have ev: "skip_evidence py args (sp_log s) s1 sk" by (rule skip_evidence_mono)
    obtain r2 s2 where w: "on_fs (atomic_json py (checkpoint_path args) (sa_uuid args 1) (skip_record args start)) s1 = (r2, s2)"
      by (metis surj_pair)
    have s2: "s' = s2" using assms(1) f Inr w unfolding whole by (auto simp: abind_def split: sum.splits)
    from atomic_json_cases [OF w] show ?thesis
    proof (elim disjE conjE exE)
      fix e
      assume "s2 = s1"
      then show ?thesis using s1 s2 by (simp add: since_def)
    next
      assume "sp_log s2 = sp_log s1"
        "map_of (sp_fs s2) = (map_of (sp_fs s1))(checkpoint_path args \<mapsto> File (json_text py (skip_record args start)))"
      moreover from this(1) have "skip_evidence py args (sp_log s) s2 sk"
        by (intro skip_evidence_mono [OF ev, of "\<lambda>_. True"]) (simp add: since_def)
      ultimately show ?thesis using s2 by simp
    qed
  qed
qed

section \<open>A whole run\<close>

lemma front_checkpoint:
  "keeps (\<lambda>fs. map_of fs (checkpoint_path args) = c) (amkdirs (sa_state_dir args))"
  "keeps (\<lambda>fs. map_of fs (checkpoint_path args) = c) (lock_file args)"
proof -
  have "checkpoint_path args \<notin> set (ancestors (sa_state_dir args))"
    using ancestors_length [of "checkpoint_path args" "sa_state_dir args"] by (auto simp: checkpoint_path_def)
  then show "keeps (\<lambda>fs. map_of fs (checkpoint_path args) = c) (amkdirs (sa_state_dir args))"
    using mkdirs_other by (auto simp: keeps_def amkdirs_def split: sum.splits)
  show "keeps (\<lambda>fs. map_of fs (checkpoint_path args) = c) (lock_file args)"
    by (simp add: keeps_def lock_file_def Let_def checkpoint_path_def)
qed

lemma front_present:
  "keeps (\<lambda>fs. map_of fs p \<noteq> None) (amkdirs dir)" "keeps (\<lambda>fs. map_of fs p \<noteq> None) (lock_file args)"
  by (auto simp: keeps_def amkdirs_def lock_file_def Let_def mkdirs_untouched split: sum.splits)

lemma raw_manifest_files: "raw_manifest py args s = (r, s') \<Longrightarrow> s' = s"
  by (auto simp: raw_manifest_def on_fs_def load_json_def abind_def Let_def split: option.splits sum.splits json.splits if_splits)

text \<open>The row selection a run works on.\<close>

definition selection ::
    "pylib \<Rightarrow> ship_args \<Rightarrow> nat \<Rightarrow> (string \<times> int) list \<Rightarrow> skipped_row option \<Rightarrow> bool" where
  "selection py args start rows skipped \<longleftrightarrow>
     int start < ship_stop args \<and>
     (\<exists>content raw_cids. ship_selected_rows py content (sa_sha256 args) (sa_count args) start
        (min (sa_max_blocks args) (nat (ship_stop args - int start))) (sa_max_bytes args) raw_cids = Inr (rows, skipped))"

lemma selection_rows:
  assumes "selection py args start rows None" and "check_ship_args args = Inr ()"
  shows "rows \<noteq> []"
proof -
  from assms(2) have "0 < sa_max_bytes args" "ship_stop args \<le> int (sa_count args)"
    by (auto simp: check_ship_args_def Let_def split: if_splits)
  then show ?thesis using assms(1) ship_selected_rows_Inr by (fastforce simp: selection_def)
qed

text \<open>How a run ends, for a property of the files that is kept beside the checkpoint.\<close>

lemma ship_once_cases:
  assumes "ship_once py cmd args s = (r, s')"
  obtains (early) "\<And>Q. Q (sp_fs s) \<Longrightarrow> keeps Q (amkdirs (sa_state_dir args)) \<Longrightarrow> keeps Q (lock_file args) \<Longrightarrow> Q (sp_fs s')"
  | (work) s1 start rows skipped where "check_ship_args args = Inr ()" "sp_log s1 = sp_log s"
    "\<And>Q. Q (sp_fs s) \<Longrightarrow> keeps Q (amkdirs (sa_state_dir args)) \<Longrightarrow> keeps Q (lock_file args) \<Longrightarrow> Q (sp_fs s1)"
    "fst (load_cursor py args (sp_fs s)) = Inr (int start)" "selection py args start rows skipped"
    "(case skipped of Some sk \<Rightarrow> ship_skipped py cmd args start sk | None \<Rightarrow> ship_range py cmd args start (length rows)) s1 = (r, s')"
proof (cases "check_ship_args args")
  case (Inl e)
  then have "s' = s" using assms by (simp add: ship_once_def abind_def)
  then show ?thesis using early by simp
next
  case (Inr u)
  obtain r1 s1 where m: "raw_manifest py args s = (r1, s1)" by (metis surj_pair)
  note s1 = raw_manifest_files [OF m]
  obtain r2 f2 where d: "amkdirs (sa_state_dir args) (sp_fs s) = (r2, f2)" by (metis surj_pair)
  obtain r3 f3 where l: "lock_file args f2 = (r3, f3)" by (metis surj_pair)
  have Q2: "Q f2" if "Q (sp_fs s)" "keeps Q (amkdirs (sa_state_dir args))" for Q using keepsD [OF that(2,1) d] .
  have Q3: "Q f3" if "Q (sp_fs s)" "keeps Q (amkdirs (sa_state_dir args))" "keeps Q (lock_file args)" for Q
    using keepsD [OF that(3) Q2 [OF that(1,2)] l] .
  show ?thesis
  proof (cases "is_ok r1 \<and> is_ok r2 \<and> is_ok r3")
    case False
    have "s' = s \<or> s' = s\<lparr>sp_fs := f2\<rparr> \<or> s' = s\<lparr>sp_fs := f3\<rparr>"
      using assms m s1 d l Inr False
      by (auto simp: ship_once_def abind_def on_fs_def is_ok_iff split: sum.splits)
    then show ?thesis using Q2 Q3 Inr by (intro early) auto
  next
    case True
    then obtain raw_cids where ok: "r1 = Inr raw_cids" "r2 = Inr ()" "r3 = Inr ()" by (auto simp: is_ok_iff)
    let ?s3 = "s\<lparr>sp_fs := f3\<rparr>"
    have locked: "ship_locked py cmd args raw_cids ?s3 = (r, s')"
      using assms m s1 d l Inr ok by (simp add: ship_once_def abind_def on_fs_def)
    have same: "map_of f3 (checkpoint_path args) = map_of (sp_fs s) (checkpoint_path args)"
      by (rule Q3 [of "\<lambda>fs. map_of fs (checkpoint_path args) = map_of (sp_fs s) (checkpoint_path args)"])
        (simp_all add: front_checkpoint)
    have cursor: "fst (load_cursor py args f3) = fst (load_cursor py args (sp_fs s))"
      using query_cong [OF same] by (simp add: load_cursor_def)
    have stay: "load_cursor py args f3 = (fst (load_cursor py args f3), f3)" by (simp add: load_cursor_def)
    show ?thesis
    proof (cases "\<exists>start rows skipped. fst (load_cursor py args f3) = Inr start \<and> start < ship_stop args \<and>
        fst (choose_rows py args raw_cids start (ship_stop args) f3) = Inr (rows, skipped)")
      case False
      have "s' = ?s3"
        using locked stay False
        by (auto simp: ship_locked_def abind_def on_fs_def choose_rows_def split: sum.splits if_splits prod.splits)
      then show ?thesis using Q3 Inr by (intro early) auto
    next
      case True
      then obtain start rows skipped where c: "fst (load_cursor py args f3) = Inr start" "start < ship_stop args"
        "fst (choose_rows py args raw_cids start (ship_stop args) f3) = Inr (rows, skipped)" by blast
      then have pos: "0 \<le> start" by (auto simp: choose_rows_def rbind_eq_Inr split: if_splits)
      have sel: "selection py args (nat start) rows skipped"
        using c pos by (auto simp: selection_def choose_rows_def rbind_eq_Inr split: if_splits)
      have "choose_rows py args raw_cids start (ship_stop args) f3 = (Inr (rows, skipped), f3)"
        using c(3) by (simp add: choose_rows_def)
      then have "(case skipped of Some sk \<Rightarrow> ship_skipped py cmd args (nat start) sk
          | None \<Rightarrow> ship_range py cmd args (nat start) (length rows)) ?s3 = (r, s')"
        using locked stay c(1,2) by (simp add: ship_locked_def abind_def [of "on_fs _"] on_fs_def)
      then show ?thesis using Inr Q3 cursor c(1) pos sel by (intro work [of ?s3 "nat start" rows skipped]) auto
    qed
  qed
qed

section \<open>Properties\<close>

text \<open>C18: the cursor only passes rows that were delivered. However a run of \<open>ship_once\<close> ends, the checkpoint is
  the old one, or it is the record of the next range, not empty and chosen from the declared inventory at
  the old cursor, and during this run the importer on the other node reported exactly this range complete
  from a CAR with the digest that was sent; or it passes one row, and the other node verified that row in
  its raw store or showed its recovery archive. Programs may do anything but write the checkpoint.\<close>

theorem cursor_passes_only_delivered_rows:
  assumes "ship_once py cmd args s = (r, s')"
    and "\<forall>c. cmd_keeps (\<lambda>fs. map_of fs (checkpoint_path args) = c) cmd"
  shows "map_of (sp_fs s') (checkpoint_path args) = map_of (sp_fs s) (checkpoint_path args) \<or>
    (\<exists>start. fst (load_cursor py args (sp_fs s)) = Inr (int start) \<and>
      ((\<exists>rows. selection py args start rows None \<and> rows \<noteq> [] \<and> delivered py args (sp_log s) s' start (length rows)) \<or>
       (\<exists>rows sk. selection py args start rows (Some sk) \<and>
          map_of (sp_fs s') (checkpoint_path args) = Some (File (json_text py (skip_record args start))) \<and>
          skip_evidence py args (sp_log s) s' sk)))"
proof -
  let ?Q = "\<lambda>fs. map_of fs (checkpoint_path args) = map_of (sp_fs s) (checkpoint_path args)"
  have quiet: "beside ?Q py cmd args"
    using assms(2) other_names(6) by (auto simp: beside_def keeps_def atomic_json_def Let_def)
  from assms(1) show ?thesis
  proof (cases rule: ship_once_cases)
    case early
    then show ?thesis using early [of ?Q] front_checkpoint by simp
  next
    case (work s1 start rows skipped)
    have s1: "?Q (sp_fs s1)" using work(3) [of ?Q] front_checkpoint by simp
    show ?thesis
    proof (cases skipped)
      case None
      with work(6) have "ship_range py cmd args start (length rows) s1 = (r, s')" by simp
      from ship_range_cases [OF this quiet s1] show ?thesis
        using work(2,4,5) selection_rows [of py args start rows] work(1) None by auto
    next
      case (Some sk)
      with work(6) have "ship_skipped py cmd args start sk s1 = (r, s')" by simp
      from ship_skipped_cases [OF this quiet s1] show ?thesis using work(2,4,5) Some by auto
    qed
  qed
qed

text \<open>C19: nothing local is lost before the cursor has passed it: if a file that was there before a run is gone
  after it, and no program removed it, then it is the CAR or the archive of the range at the cursor, the checkpoint
  on disk is the record of this range, and the other node reported exactly this range imported during this run.\<close>

theorem files_kept_until_delivered:
  assumes "ship_once py cmd args s = (r, s')" and "cmd_keeps (\<lambda>fs. map_of fs p \<noteq> None) cmd"
    and "map_of (sp_fs s) p \<noteq> None" and "map_of (sp_fs s') p = None"
  shows "\<exists>start rows. fst (load_cursor py args (sp_fs s)) = Inr (int start) \<and> selection py args start rows None \<and>
    p \<in> {car_path args start (length rows), archive_path args start (length rows)} \<and>
    delivered py args (sp_log s) s' start (length rows)"
proof -
  let ?Q = "\<lambda>fs :: fs. map_of fs p \<noteq> None"
  have json: "keeps ?Q (atomic_json py q tag v)" for q tag v
    by (auto simp: keeps_def atomic_json_def Let_def)
  have quiet: "beside ?Q py cmd args" using assms(2) json by (simp add: beside_def)
  from assms(1) show ?thesis
  proof (cases rule: ship_once_cases)
    case early
    then show ?thesis using early [of ?Q] front_present assms(3,4) by simp
  next
    case (work s1 start rows skipped)
    have s1: "?Q (sp_fs s1)" using work(3) [of ?Q] front_present assms(3) by simp
    show ?thesis
    proof (cases skipped)
      case None
      with work(6) have "ship_range py cmd args start (length rows) s1 = (r, s')" by simp
      from ship_range_cases [OF this quiet s1] ship_range_removes [OF this quiet s1 assms(4)] show ?thesis
        using work(2,4,5) None assms(4) by auto
    next
      case (Some sk)
      have "keeps (since (sp_log s1) ?Q) (ship_skipped py cmd args start sk)"
        unfolding ship_skipped_def by (intro keeps_intros keeps_verify_skipped [OF quiet] keeps_on_fs keeps_note [OF quiet] json)
      moreover from Some work(6) have "ship_skipped py cmd args start sk s1 = (r, s')" by simp
      moreover have "since (sp_log s1) ?Q s1" by (rule since_refl) (rule s1)
      ultimately have "since (sp_log s1) ?Q s'" by (metis keepsD)
      then show ?thesis using assms(4) by (simp add: since_def)
    qed
  qed
qed

section \<open>A concrete run\<close>

text \<open>Two rows whose CAR is already exported; the other node imports it.\<close>

definition ship_py :: pylib where
  "ship_py = row_py\<lparr>json_loads := (\<lambda>line. case line of
      [] \<Rightarrow> Inl ValueError
    | b # _ \<Rightarrow>
        if b = 3 then Inr (JDict [(''sha256'', JStr (hex (replicate 32 7))), (''start-row'', JInt 0), (''end-row'', JInt 2)])
        else if b = 73 then Inr (JDict [(''status'', JStr ''complete''), (''start_row'', JInt 0), (''end_row'', JInt 2),
          (''car_sha256'', JStr (hex (replicate 32 7))), (''blocks'', JInt 2), (''root'', JStr sample_cid)])
        else json_loads row_py line)\<rparr>"

definition ship_cmd :: "unit command_runner" where
  "ship_cmd cwd argv s =
     (Inr (0, if hd argv = ''ssh'' \<and> startswith (last argv) ''python3'' then ascii ''I'' else []), s)"

definition toy_ship :: ship_args where
  "toy_ship = \<lparr>sa_source = ''src'', sa_kbb = ''kbb'', sa_inventory = [''inv''], sa_sha256 = hex (replicate 32 7), sa_count = 2,
     sa_start_row = 0, sa_stop_row = None, sa_max_blocks = 10, sa_max_bytes = 5000, sa_base_url = ''https://x'',
     sa_resolve = [], sa_source_ssh_host = [], sa_source_exporter = [], sa_source_inventory = [], sa_source_ipfs_bin = [],
     sa_source_ipfs_path = [], sa_source_rpc_url = [], sa_source_output_dir = [], sa_raw_cids_file = None,
     sa_state_dir = [''st''], sa_ssh_host = ''node'', sa_remote_dir = ''/r'', sa_remote_car_dir = [],
     sa_remote_large_archive = [], sa_remote_importer = ''/i/import.py'', sa_remote_importer_dir = ''/i'',
     sa_remote_inventory = ''/inv'', sa_remote_ipfs_bin = ''ipfs'', sa_remote_ipfs_path = ''/repo'',
     sa_remote_raw_block_store = [], sa_carv2_zstd = False, sa_s3_destination = [], sa_s3_endpoint_url = [],
     sa_s3_region = [], sa_python = ''py'', sa_helper = ''h'', sa_text = (\<lambda>_. []),
     sa_urlsplit = (\<lambda>_. \<lparr>s3_scheme = [], s3_netloc = [], s3_path = [], s3_credentials = False, s3_query = [], s3_fragment = []\<rparr>),
     sa_uuid = (\<lambda>n. dec_text n), sa_locked = False\<rparr>"

definition ship_start :: "unit shipping" where
  "ship_start = \<lparr>sp_fs = [([''inv''], File [1, 10, 2, 10]), ([''st''], Dir), ([''st'', ''row-0-1.car''], File [9]),
     ([''st'', ''row-0-1-export.json''], File [3])], sp_world = (), sp_log = []\<rparr>"

definition ship_end :: "unit shipping" where "ship_end = snd (ship_once ship_py ship_cmd toy_ship ship_start)"

lemma toy_shipped:
  "map_of (sp_fs ship_end) (checkpoint_path toy_ship) \<noteq> map_of (sp_fs ship_start) (checkpoint_path toy_ship)"
  "map_of (sp_fs ship_end) [''st'', ''row-0-1.car''] = None"
  "fst (load_cursor ship_py toy_ship (sp_fs ship_start)) = Inr 0"
  by code_simp+

lemma toy_ship_run: "ship_once ship_py ship_cmd toy_ship ship_start = (fst (ship_once ship_py ship_cmd toy_ship ship_start), ship_end)"
  by (simp add: ship_end_def)

lemma toy_quiet: "cmd_keeps Q ship_cmd"
  by (simp add: cmd_keeps_def ship_cmd_def)

theorem cursor_passes_only_delivered_rows_witness:
  "(\<exists>rows. selection ship_py toy_ship 0 rows None \<and> rows \<noteq> [] \<and> delivered ship_py toy_ship [] ship_end 0 (length rows)) \<or>
   (\<exists>rows sk. selection ship_py toy_ship 0 rows (Some sk) \<and> skip_evidence ship_py toy_ship [] ship_end sk)"
proof -
  have "sp_log ship_start = []" by (simp add: ship_start_def)
  then show ?thesis
    using cursor_passes_only_delivered_rows [OF toy_ship_run] toy_quiet toy_shipped by fastforce
qed

theorem files_kept_until_delivered_witness:
  "\<exists>rows. selection ship_py toy_ship 0 rows None \<and> delivered ship_py toy_ship [] ship_end 0 (length rows) \<and>
     [''st'', ''row-0-1.car''] \<in> {car_path toy_ship 0 (length rows), archive_path toy_ship 0 (length rows)}"
proof -
  have "map_of (sp_fs ship_start) [''st'', ''row-0-1.car''] \<noteq> None" "sp_log ship_start = []" by (simp_all add: ship_start_def)
  then show ?thesis
    using files_kept_until_delivered [OF toy_ship_run toy_quiet _ toy_shipped(2)] toy_shipped(3) by auto
qed

end
