(* ===== verification/Export_Car.thy ===== *)
theory Export_Car
  imports Row_Selection Carv2_Archive
begin

text \<open>
  \<open>deploy/export_lake_car_from_kubo.py\<close>: writing a CARv1 file from blocks of a local Kubo
  repository. The repository and the disk's free space are the service record \<open>kubo\<close>, an argument.
  An exported file is a CAR of verified blocks, stays within the byte budget, and is accepted by the
  CARv2 packer.
\<close>

section \<open>The CAR header\<close>

definition cbor_length :: "nat \<Rightarrow> nat \<Rightarrow> bytes res" where
  "cbor_length major n =
     (if n < 24 then Inr [word_of_nat (push_bit 5 major OR n)]
      else if n < 256 then Inr [word_of_nat (push_bit 5 major OR 24), word_of_nat n]
      else if n < 65536 then Inr ([word_of_nat (push_bit 5 major OR 25)] @ to_bytes_be 2 n)
      else if n < 4294967296 then Inr ([word_of_nat (push_bit 5 major OR 26)] @ to_bytes_be 4 n)
      else Inl (ExportError ''CBOR item too large''))"

definition header_root :: "bytes \<Rightarrow> bytes \<Rightarrow> bytes res" where
  "header_root roots cid =
     rbind (cbor_length 2 (length cid + 1)) (\<lambda>n. Inr (roots @ [0xD8, 0x2A] @ n @ [0] @ cid))"

definition car_header_body :: "bytes list \<Rightarrow> bytes res" where
  "car_header_body cids =
     rbind (foldM header_root [] cids) (\<lambda>roots.
     rbind (cbor_length 4 (length cids)) (\<lambda>n.
       Inr ([0xA2, 0x65] @ ascii ''roots'' @ n @ roots @ [0x67] @ ascii ''version'' @ [0x01])))"

definition car_header :: "bytes list \<Rightarrow> bytes res" where
  "car_header cids =
     rbind (car_header_body cids) (\<lambda>header.
     rbind (varint (int (length header))) (\<lambda>prefix. Inr (prefix @ header)))"

subsection \<open>A reader of such headers\<close>

text \<open>CBOR's own rules for the head of an item: the major type in the upper three bits, and the number in the
  lower five or in the bytes that follow.\<close>

fun cbor_head :: "nat \<Rightarrow> bytes \<Rightarrow> (nat \<times> bytes) option" where
  "cbor_head major [] = None"
| "cbor_head major (b # bs) =
     (let low = unat b mod 32;
          k = (if low = 24 then 1 else if low = 25 then 2 else if low = 26 then 4 else 0) in
      if unat b div 32 \<noteq> major \<or> 26 < low \<or> length bs < k then None
      else if k = 0 then Some (low, bs) else Some (from_bytes_be (take k bs), drop k bs))"

text \<open>Links: tag 42 on a byte string that starts with 0.\<close>

fun read_links :: "nat \<Rightarrow> bytes \<Rightarrow> (bytes list \<times> bytes) option" where
  "read_links 0 bs = Some ([], bs)"
| "read_links (Suc n) bs =
     (if take 2 bs \<noteq> [0xD8, 0x2A] then None
      else case cbor_head 2 (drop 2 bs) of
        None \<Rightarrow> None
      | Some (len, rest) \<Rightarrow>
          if len = 0 \<or> length rest < len \<or> hd rest \<noteq> 0 then None
          else map_option (\<lambda>(cids, rest'). (take (len - 1) (tl rest) # cids, rest')) (read_links n (drop len rest)))"

text \<open>The roots of the map \<open>{"roots": [links], "version": 1}\<close>.\<close>

definition header_roots :: "bytes \<Rightarrow> bytes list option" where
  "header_roots header =
     (let start = [0xA2, 0x65] @ ascii ''roots'' in
      if take (length start) header \<noteq> start then None
      else case cbor_head 4 (drop (length start) header) of
        None \<Rightarrow> None
      | Some (n, rest) \<Rightarrow>
          (case read_links n rest of
             Some (cids, end_of_map) \<Rightarrow> if end_of_map = [0x67] @ ascii ''version'' @ [0x01] then Some cids else None
           | None \<Rightarrow> None))"

lemma push_bit_or:
  assumes "n < 32"
  shows "push_bit 5 major OR n = 32 * major + (n :: nat)"
proof -
  have "\<not> bit (push_bit 5 major) k \<or> \<not> bit n k" for k
  proof (cases "k < 5")
    case False
    have "n = take_bit 5 n" using assms by (simp add: take_bit_eq_mod)
    then have "bit n k \<Longrightarrow> k < 5" by (metis bit_take_bit_iff)
    then show ?thesis using False by blast
  qed (simp add: bit_push_bit_iff)
  then have "push_bit 5 major + n = push_bit 5 major OR n" by (simp add: disjunctive_add_eq_or bit_eq_iff bit_and_iff)
  then show ?thesis by (simp add: push_bit_eq_mult)
qed

lemma cbor_head_length:
  assumes "cbor_length major n = Inr h" and "major < 8"
  shows "cbor_head major (h @ rest) = Some (n, rest)"
proof -
  have first: "unat (word_of_nat (push_bit 5 major OR low) :: byte) = 32 * major + low" if "low < 32" for low
    unfolding push_bit_or [OF that] unat_byte_of_nat using assms(2) that by simp
  have one: "from_bytes_be [word_of_nat n :: byte] = n" if "n < 256"
    using that by (simp add: from_bytes_be_def unat_byte_of_nat dval_def)
  show ?thesis
    using assms(1) first from_to_bytes_be [of 2 n] from_to_bytes_be [of 4 n] one
    by (auto simp: cbor_length_def Let_def split: if_splits)
qed

lemma read_links_of_roots:
  "foldM header_root roots cids = Inr out \<Longrightarrow>
    \<exists>links. out = roots @ links \<and> (\<forall>rest. read_links (length cids) (links @ rest) = Some (cids, rest))"
proof (induction cids arbitrary: roots)
  case Nil
  then show ?case by simp
next
  case (Cons c cids)
  from Cons.prems obtain d where d: "cbor_length 2 (length c + 1) = Inr d"
    and more: "foldM header_root (roots @ [0xD8, 0x2A] @ d @ [0] @ c) cids = Inr out"
    by (auto simp: rbind_eq_Inr header_root_def [of _ c])
  from Cons.IH [OF more] obtain links where links: "out = (roots @ [0xD8, 0x2A] @ d @ [0] @ c) @ links"
    "\<forall>rest. read_links (length cids) (links @ rest) = Some (cids, rest)" by blast
  have "cbor_head 2 (d @ 0 # c @ links @ rest) = Some (length c + 1, 0 # c @ links @ rest)" for rest
    by (rule cbor_head_length [OF d]) simp
  then show ?case using links by (intro exI [of _ "[0xD8, 0x2A] @ d @ [0] @ c @ links"]) simp
qed

text \<open>A header that was written is read back as its roots.\<close>

lemma header_roots_written:
  assumes "car_header_body cids = Inr header"
  shows "header_roots header = Some cids"
proof -
  from assms obtain links n where out: "foldM header_root [] cids = Inr links" "cbor_length 4 (length cids) = Inr n"
    and h: "header = ([0xA2, 0x65] @ ascii ''roots'') @ n @ links @ [0x67] @ ascii ''version'' @ [0x01]"
    by (auto simp: car_header_body_def rbind_eq_Inr)
  have "\<forall>rest. read_links (length cids) (links @ rest) = Some (cids, rest)"
    using read_links_of_roots [OF out(1)] by auto
  moreover have "cbor_head 4 (n @ links @ [0x67] @ ascii ''version'' @ [0x01]) =
      Some (length cids, links @ [0x67] @ ascii ''version'' @ [0x01])"
    by (rule cbor_head_length [OF out(2)]) simp
  ultimately show ?thesis by (simp add: header_roots_def h Let_def)
qed

section \<open>Reading and writing blocks\<close>

text \<open>
  What the exporter asks Kubo for: \<open>ipfs repo stat\<close>, \<open>ipfs --offline block get\<close> (\<open>None\<close> when the
  command fails), the RPC (its URL, status and body of \<open>repo/stat\<close> and \<open>block/get\<close>, \<open>None\<close> on a transport error),
  path resolution, and the free bytes of the output disk.
\<close>

record kubo =
  repo_stat :: "string option"
  block_get :: "string \<Rightarrow> bytes option"
  rpc_url :: split_url
  rpc_repo_stat :: "(nat \<times> bytes) res"
  rpc_block_get :: "string \<Rightarrow> (nat \<times> bytes) option"
  resolve_text :: "string \<Rightarrow> path"
  resolve_path :: "path \<Rightarrow> path"
  free_bytes :: int

text \<open>\<open>local_rpc\<close>: the URL, and that the daemon behind it has this repository.\<close>

definition export_endpoint :: "split_url \<Rightarrow> bool" where
  "export_endpoint u \<longleftrightarrow> url_scheme u = ''http'' \<and> (url_hostname u = Some ''127.0.0.1'' \<or> url_hostname u = Some ''::1'') \<and>
     empty_text (url_username u) \<and> empty_text (url_password u) \<and> (url_path u = [] \<or> url_path u = ''/'') \<and>
     url_query u = [] \<and> url_fragment u = [] \<and> url_port u \<noteq> None \<and> url_port u \<noteq> Some 0"

definition repo_path_of :: "json \<Rightarrow> string res" where
  "repo_path_of v =
     (case v of
        JDict repo \<Rightarrow>
          (case map_of repo ''RepoPath'' of
             None \<Rightarrow> Inr []
           | Some p \<Rightarrow> case as_str p of None \<Rightarrow> Inl TypeError | Some t \<Rightarrow> Inr t)
      | _ \<Rightarrow> Inl AttributeError)"

definition local_rpc :: "pylib \<Rightarrow> kubo \<Rightarrow> path \<Rightarrow> unit res" where
  "local_rpc py svc ipfs_path =
     (let failed = ExportError ''Kubo RPC repository check failed'' in
      if \<not> export_endpoint (rpc_url svc)
      then Inl (ExportError ''Kubo RPC must be an uncredentialed loopback HTTP endpoint'')
      else case rbind (rpc_repo_stat svc) (\<lambda>(status, sent).
          if status \<noteq> 200 \<or> 1000000 < length (take 1000001 sent) then Inl failed
          else
            rbind (json_loads py (take 1000001 sent)) repo_path_of) of
        Inl e \<Rightarrow> Inl (if e \<in> {OSError, ValueError, TypeError} then failed else e)
      | Inr named \<Rightarrow>
          if resolve_text svc named \<noteq> resolve_path svc ipfs_path
          then Inl (ExportError ''Kubo RPC uses a different repository'') else Inr ())"

definition rpc_block :: "kubo \<Rightarrow> string \<Rightarrow> nat \<Rightarrow> bytes res" where
  "rpc_block svc cid expected =
     (case rpc_block_get svc cid of
        None \<Rightarrow> Inl (ExportError (''local Kubo RPC block unavailable: '' @ cid))
      | Some (status, response) \<Rightarrow>
          let body = take (expected + 1) response in
          if status \<noteq> 200 \<or> length body \<noteq> expected
          then Inl (ExportError (''local Kubo RPC block unavailable or wrong size: '' @ cid))
          else if take 1 (drop (expected + 1) response) \<noteq> []
          then Inl (ExportError (''local Kubo RPC block exceeds inventory size: '' @ cid))
          else Inr body)"

definition fetch_block :: "kubo \<Rightarrow> bool \<Rightarrow> string \<Rightarrow> nat \<Rightarrow> bytes res" where
  "fetch_block svc rpc cid expected =
     (if rpc then rpc_block svc cid expected
      else case block_get svc cid of
        None \<Rightarrow> Inl (ExportError (''local Kubo block unavailable: '' @ cid))
      | Some data \<Rightarrow> Inr data)"

text \<open>The local function \<open>write\<close>, on the bytes written so far.\<close>

definition write_bounded :: "int \<Rightarrow> bytes \<Rightarrow> bytes \<Rightarrow> bytes res" where
  "write_bounded max_bytes out data =
     (if max_bytes < int (length out + length data) then Inl (ExportError ''CAR exceeds byte budget'')
      else Inr (out @ data))"

definition export_block ::
    "(bytes \<Rightarrow> bytes) \<Rightarrow> kubo \<Rightarrow> bool \<Rightarrow> int \<Rightarrow> bytes \<Rightarrow> (string \<times> int) \<times> (bytes \<times> bytes) \<Rightarrow> bytes res" where
  "export_block sha svc rpc max_bytes out item =
     (case item of ((source_cid, expected_size), (binary_cid, expected_digest)) \<Rightarrow>
      rbind (fetch_block svc rpc source_cid (nat expected_size)) (\<lambda>data.
      if int (length data) \<noteq> expected_size \<or> sha data \<noteq> expected_digest
      then Inl (ExportError ''local block differs from inventory CID or size'')
      else
        rbind (varint (int (length binary_cid + length data))) (\<lambda>prefix.
        rbind (write_bounded max_bytes out prefix) (\<lambda>out.
        rbind (write_bounded max_bytes out binary_cid) (\<lambda>out.
          write_bounded max_bytes out data)))))"

definition encode_rows :: "(string \<times> int) list \<Rightarrow> (bytes \<times> bytes) list res" where
  "encode_rows rows = foldM (\<lambda>acc r. rbind (cid_bytes (fst r)) (\<lambda>e. Inr (acc @ [e]))) [] rows"

definition export_car ::
    "(bytes \<Rightarrow> bytes) \<Rightarrow> kubo \<Rightarrow> bool \<Rightarrow> int \<Rightarrow> (string \<times> int) list \<Rightarrow> (bytes \<times> bytes) list \<Rightarrow> bytes res" where
  "export_car sha svc rpc max_bytes rows encoded =
     rbind (car_header (map fst encoded)) (\<lambda>header.
     rbind (write_bounded max_bytes [] header) (\<lambda>out.
       foldM (export_block sha svc rpc max_bytes) out (zip rows encoded)))"

section \<open>The whole export\<close>

record export_args =
  ea_inventory :: path
  ea_sha256 :: string
  ea_count :: int
  ea_start_row :: int
  ea_max_blocks :: int
  ea_max_bytes :: int
  ea_ipfs_bin :: path
  ea_ipfs_path :: path
  ea_rpc :: bool
  ea_output :: path
  ea_receipt :: path
  ea_min_free_bytes :: int

definition repo_path_line :: "string \<Rightarrow> string option" where
  "repo_path_line text =
     map_option (\<lambda>line. strip (tl (dropWhile (\<lambda>c. c \<noteq> CHR '':'') line)))
       (List.find (\<lambda>line. startswith line ''RepoPath:'') (splitlines text))"

definition check_repo :: "kubo \<Rightarrow> export_args \<Rightarrow> unit res" where
  "check_repo svc args =
     (case repo_stat svc of
        None \<Rightarrow> Inl (ExportError ''Kubo repository unavailable'')
      | Some text \<Rightarrow>
          case repo_path_line text of
            None \<Rightarrow> Inl (ExportError ''Kubo daemon uses a different repository'')
          | Some line \<Rightarrow>
              if resolve_text svc line \<noteq> resolve_path svc (ea_ipfs_path args)
              then Inl (ExportError ''Kubo daemon uses a different repository'')
              else Inr ())"

definition sha_file :: "pylib \<Rightarrow> fs \<Rightarrow> path \<Rightarrow> string res" where
  "sha_file py fs p = rbind (read_bytes fs p) (\<lambda>data. Inr (hex (sha256 py data)))"

text \<open>The comparison with a saved receipt, in the order of the \<open>or\<close> chain.\<close>

definition check_saved :: "pylib \<Rightarrow> fs \<Rightarrow> export_args \<Rightarrow> nat \<Rightarrow> json \<Rightarrow> json res" where
  "check_saved py fs args n saved =
     (let differs = Inl (ExportError ''saved CAR differs from receipt'') in
      if \<not> is_file fs (ea_output args) then differs
      else
        rbind (jget saved ''status'') (\<lambda>status.
        rbind (jget saved ''inventory-sha256'') (\<lambda>inv.
        rbind (jget saved ''start-row'') (\<lambda>start.
        rbind (jget saved ''end-row'') (\<lambda>stop.
        rbind (jget saved ''blocks'') (\<lambda>count.
        rbind (jget saved ''sha256'') (\<lambda>digest.
        rbind (sha_file py fs (ea_output args)) (\<lambda>actual.
        if \<not> eq_str status ''complete'' \<or> \<not> eq_str inv (ea_sha256 args) \<or>
           \<not> eq_int start (ea_start_row args) \<or> \<not> eq_int stop (ea_start_row args + int n) \<or>
           \<not> eq_int count (int n) \<or> \<not> eq_str digest actual
        then differs else Inr saved))))))))"

definition export_receipt :: "pylib \<Rightarrow> export_args \<Rightarrow> nat \<Rightarrow> bytes \<Rightarrow> json" where
  "export_receipt py args n car =
     JDict [(''status'', JStr ''complete''), (''inventory-sha256'', JStr (ea_sha256 args)),
            (''start-row'', JInt (ea_start_row args)), (''end-row'', JInt (ea_start_row args + int n)),
            (''blocks'', JInt (int n)), (''bytes'', JInt (int (length car))),
            (''sha256'', JStr (hex (sha256 py car))),
            (''source'', JStr (if ea_rpc args then ''local-kubo-offline-rpc'' else ''local-kubo-offline''))]"

text \<open>The files after the call and its result. Temporary names do not outlive the call. \<open>os.link\<close>
  refuses a name that is taken, even by a dangling link.\<close>

definition export :: "pylib \<Rightarrow> kubo \<Rightarrow> fs \<Rightarrow> export_args \<Rightarrow> fs \<times> json res" where
  "export py svc fs args =
     (if \<not> match_sha256 (ea_sha256 args) \<or> ea_count args < 1 \<or> ea_start_row args < 0 \<or>
         ea_max_blocks args < 1 \<or> 1000 < ea_max_blocks args \<or>
         ea_max_bytes args < 1 \<or> 536870912 < ea_max_bytes args
      then (fs, Inl (ExportError ''invalid inventory identity or bounds''))
      else if \<not> is_file fs (ea_ipfs_bin args) \<or> \<not> is_dir fs (ea_ipfs_path args)
      then (fs, Inl (ExportError ''Kubo binary or repository is absent''))
      else case rbind (read_bytes fs (ea_inventory args)) (\<lambda>content.
          export_selected_rows py content (ea_sha256 args) (nat (ea_count args)) (nat (ea_start_row args))
            (nat (ea_max_blocks args)) (ea_max_bytes args)) of
        Inl e \<Rightarrow> (fs, Inl e)
      | Inr rows \<Rightarrow>
      case mkdirs (butlast (ea_output args)) fs of Inl e \<Rightarrow> (fs, Inl e) | Inr fs \<Rightarrow>
      case mkdirs (butlast (ea_receipt args)) fs of Inl e \<Rightarrow> (fs, Inl e) | Inr fs \<Rightarrow>
      if exists_path fs (ea_receipt args) then
        (fs, rbind (rbind (read_bytes fs (ea_receipt args)) (json_loads py)) (\<lambda>saved.
               check_saved py fs args (length rows) saved))
      else if exists_path fs (ea_output args) then (fs, Inl (ExportError ''CAR exists without receipt''))
      else if free_bytes svc < 2 * ea_max_bytes args + ea_min_free_bytes args
      then (fs, Inl (ExportError ''physical disk reserve would be crossed''))
      else case rbind (check_repo svc args) (\<lambda>_.
          rbind (if ea_rpc args then local_rpc py svc (ea_ipfs_path args) else Inr ()) (\<lambda>_.
          rbind (encode_rows rows) (\<lambda>encoded.
            export_car (sha256 py) svc (ea_rpc args) (ea_max_bytes args) rows encoded))) of
        Inl e \<Rightarrow> (fs, Inl e)
      | Inr car \<Rightarrow>
          if map_of fs (ea_output args) \<noteq> None then (fs, Inl OSError)
          else
          let receipt = export_receipt py args (length rows) car;
              fs = write_node (ea_output args) (File car) fs;
              fs = write_node (ea_receipt args) (File (json_text py receipt)) fs
          in (fs, Inr receipt))"

text \<open>The exit status of \<open>main\<close>; an exception that is not caught ends the interpreter with status 1.\<close>

fun export_refused :: "exn \<Rightarrow> bool" where
  "export_refused (ExportError _) = True"
| "export_refused OSError = True"
| "export_refused ValueError = True"
| "export_refused KeyError = True"
| "export_refused _ = False"

definition export_main :: "pylib \<Rightarrow> kubo \<Rightarrow> fs \<Rightarrow> export_args \<Rightarrow> fs \<times> int" where
  "export_main py svc fs args =
     (case export py svc fs args of
        (fs', Inl e) \<Rightarrow> (fs', if export_refused e then 2 else 1)
      | (fs', Inr receipt) \<Rightarrow> (fs', 0))"

text \<open>Blocks are read over HTTP only from a daemon on this machine that has said it has this repository.\<close>

lemma repo_path_of_Inr:
  "repo_path_of v = Inr named \<longleftrightarrow>
     (\<exists>repo. v = JDict repo \<and> (map_of repo ''RepoPath'' = Some (JStr named) \<or> map_of repo ''RepoPath'' = None \<and> named = []))"
  by (cases v) (auto simp: repo_path_of_def split: option.splits)

lemma local_rpc_Inr:
  assumes "local_rpc py svc ipfs_path = Inr ()"
  shows "export_endpoint (rpc_url svc) \<and>
    (\<exists>sent repo named. rpc_repo_stat svc = Inr (200, sent) \<and> json_loads py (take 1000001 sent) = Inr (JDict repo) \<and>
       (map_of repo ''RepoPath'' = Some (JStr named) \<or> map_of repo ''RepoPath'' = None \<and> named = []) \<and>
       resolve_text svc named = resolve_path svc ipfs_path)"
proof -
  from assms obtain sent v named where "export_endpoint (rpc_url svc)" "rpc_repo_stat svc = Inr (200, sent)"
    "json_loads py (take 1000001 sent) = Inr v" "repo_path_of v = Inr named" "resolve_text svc named = resolve_path svc ipfs_path"
    unfolding local_rpc_def Let_def by (auto simp: rbind_eq_Inr split: sum.splits if_splits prod.splits)
  then show ?thesis by (auto simp: repo_path_of_Inr)
qed

text \<open>An answer that is JSON but not an object is not refused: the \<open>AttributeError\<close> leaves \<open>main\<close>.\<close>

lemma local_rpc_escapes:
  assumes "export_endpoint (rpc_url svc)" and "rpc_repo_stat svc = Inr (200, sent)" and "length sent \<le> 1000000"
    and "json_loads py sent = Inr v" and "\<forall>kvs. v \<noteq> JDict kvs"
  shows "local_rpc py svc ipfs_path = Inl AttributeError \<and> \<not> export_refused AttributeError"
  using assms by (cases v) (simp_all add: local_rpc_def repo_path_of_def)

section \<open>What an exported file is\<close>

lemma write_bounded_Inr [res_simps]:
  "write_bounded max_bytes out data = Inr out' \<longleftrightarrow>
     out' = out @ data \<and> int (length out + length data) \<le> max_bytes"
  by (auto simp: write_bounded_def)

text \<open>The block written for one row.\<close>

definition served ::
    "(bytes \<Rightarrow> bytes) \<Rightarrow> kubo \<Rightarrow> bool \<Rightarrow> (string \<times> int) \<times> (bytes \<times> bytes) \<Rightarrow> bytes \<times> bytes \<Rightarrow> bool" where
  "served sha svc rpc item b \<longleftrightarrow>
     fetch_block svc rpc (fst (fst item)) (nat (snd (fst item))) = Inr (snd b) \<and>
     fst b = fst (snd item) \<and> int (length (snd b)) = snd (fst item) \<and> sha (snd b) = snd (snd item)"

lemma export_block_Inr:
  "export_block sha svc rpc max_bytes out item = Inr out' \<longleftrightarrow>
     (\<exists>b. served sha svc rpc item b \<and> out' = out @ car_section b \<and> int (length out') \<le> max_bytes)"
proof -
  obtain row enc where Pair: "item = (row, enc)" by (metis surj_pair)
  obtain cid sz where row: "row = (cid, sz)" by (metis surj_pair)
  obtain bcid digest where enc: "enc = (bcid, digest)" by (metis surj_pair)
  show ?thesis
    unfolding Pair row enc
    by (auto simp: export_block_def served_def res_simps car_section_def varint_of_nat [of "_ + _", simplified])
qed

lemma export_blocks_Inr:
  "foldM (export_block sha svc rpc max_bytes) out items = Inr car \<Longrightarrow>
    \<exists>bs. list_all2 (served sha svc rpc) items bs \<and> car = out @ concat (map car_section bs) \<and>
      (int (length out) \<le> max_bytes \<longrightarrow> int (length car) \<le> max_bytes)"
proof (induction items arbitrary: out)
  case Nil
  then show ?case by (intro exI [of _ "[]"]) simp
next
  case (Cons item items)
  from Cons.prems obtain b where b: "served sha svc rpc item b"
    "int (length (out @ car_section b)) \<le> max_bytes"
    and rest: "foldM (export_block sha svc rpc max_bytes) (out @ car_section b) items = Inr car"
    by (auto simp: res_simps export_block_Inr)
  from Cons.IH [OF rest] obtain bs where "list_all2 (served sha svc rpc) items bs"
    "car = (out @ car_section b) @ concat (map car_section bs)" "int (length car) \<le> max_bytes"
    using b(2) by auto
  with b show ?case by (intro exI [of _ "b # bs"]) auto
qed

lemma car_header_Inr [res_simps]:
  "car_header cids = Inr h \<longleftrightarrow> (\<exists>body. car_header_body cids = Inr body \<and> h = leb (length body) @ body)"
  by (auto simp: car_header_def res_simps)

lemma export_car_Inr:
  assumes "export_car sha svc rpc max_bytes rows encoded = Inr car"
  obtains header bs where "car_header_body (map fst encoded) = Inr header"
    "list_all2 (served sha svc rpc) (zip rows encoded) bs" "car = car_bytes header bs"
    "int (length car) \<le> max_bytes"
proof -
  from assms obtain header where h: "car_header_body (map fst encoded) = Inr header"
    "int (length (leb (length header) @ header)) \<le> max_bytes"
    and rest: "foldM (export_block sha svc rpc max_bytes) (leb (length header) @ header) (zip rows encoded) =
      Inr car"
    by (auto simp: export_car_def res_simps)
  from export_blocks_Inr [OF rest] h show ?thesis
    by (auto intro!: that simp: car_bytes_def)
qed

lemma encode_rows_Inr [res_simps]:
  "encode_rows rows = Inr encoded \<longleftrightarrow> list_all2 (\<lambda>r e. cid_bytes (fst r) = Inr e) rows encoded"
proof -
  have "foldM (\<lambda>acc r. rbind (cid_bytes (fst r)) (\<lambda>e. Inr (acc @ [e]))) acc rows = Inr encoded \<longleftrightarrow>
      (\<exists>es. encoded = acc @ es \<and> list_all2 (\<lambda>r e. cid_bytes (fst r) = Inr e) rows es)" for acc
  proof (induction rows arbitrary: acc)
    case Nil
    then show ?case by auto
  next
    case (Cons r rows)
    then show ?case by (auto simp: res_simps list_all2_Cons1)
  qed
  from this [of "[]"] show ?thesis by (simp add: encode_rows_def)
qed

section \<open>Sizes\<close>

lemma cbor_length_Inr: "n < 4294967296 \<Longrightarrow> \<exists>d. cbor_length major n = Inr d \<and> length d \<le> 5 \<and> d \<noteq> []"
  by (auto simp: cbor_length_def)

lemma header_roots_ok:
  "\<forall>c \<in> set cids. length c \<le> 72 \<Longrightarrow>
    \<exists>out. foldM header_root roots cids = Inr out \<and> length out \<le> length roots + 80 * length cids"
proof (induction cids arbitrary: roots)
  case Nil
  then show ?case by simp
next
  case (Cons c cids)
  obtain d where d: "cbor_length 2 (length c + 1) = Inr d" "length d \<le> 5"
    using cbor_length_Inr [of "length c + 1" 2] Cons.prems by auto
  from Cons.IH [of "roots @ [0xD8, 0x2A] @ d @ [0] @ c"] Cons.prems d show ?case
    by (auto simp: header_root_def)
qed

lemma car_header_body_ok:
  assumes "\<forall>c \<in> set cids. length c \<le> 72" and "length cids < 4294967296"
  shows "\<exists>body. car_header_body cids = Inr body \<and> body \<noteq> [] \<and> length body \<le> 21 + 80 * length cids"
proof -
  obtain roots where r: "foldM header_root [] cids = Inr roots" "length roots \<le> 80 * length cids"
    using header_roots_ok [OF assms(1), of "[]"] by auto
  obtain d where d: "cbor_length 4 (length cids) = Inr d" "length d \<le> 5"
    using cbor_length_Inr [OF assms(2), of 4] by auto
  show ?thesis using r d by (simp add: car_header_body_def ascii_def)
qed

lemma cid_bytes_length: "cid_bytes cid = Inr (binary, digest) \<Longrightarrow> length binary \<le> 72"
proof (erule cid_bytes_fields)
  fix n n1 n2 codec m
  assume "read_varint binary 0 = Inr (1, m)" "read_varint binary m = Inr (codec, n)"
    "read_varint binary n = Inr (0x12, n1)" "read_varint binary n1 = Inr (32, n2)" "length binary = n2 + 32"
  from this(5) export_dec.dec_bounds(3) [OF this(1)] export_dec.dec_bounds(3) [OF this(2)]
    export_dec.dec_bounds(3) [OF this(3)] export_dec.dec_bounds(3) [OF this(4)]
  show "length binary \<le> 72" by simp
qed

lemma leb_length_4: "v < 128 ^ 4 \<Longrightarrow> length (leb v) \<le> 4"
  by (rule length_leb_le) simp_all

lemma encoded_short:
  "list_all2 (\<lambda>r e. cid_bytes (fst r) = Inr e) rows encoded \<Longrightarrow> \<forall>c \<in> set (map fst encoded). length c \<le> 72"
  by (induction rule: list_all2_induct) (auto dest: cid_bytes_length)

section \<open>The byte budget is enough\<close>

text \<open>The size of the sections of the served rows, with at most 76 bytes of framing each.\<close>

lemma served_sections:
  "list_all2 (served sha svc rpc) (zip rows encoded) bs \<Longrightarrow>
    list_all2 (\<lambda>r e. cid_bytes (fst r) = Inr e) rows encoded \<Longrightarrow>
    \<forall>r \<in> set rows. 1 \<le> snd r \<and> snd r \<le> MAX_CAR_BLOCK \<Longrightarrow>
    int (length (concat (map car_section bs))) \<le> (\<Sum>r\<leftarrow>rows. snd r) + 76 * int (length rows)"
proof (induction rows arbitrary: encoded bs)
  case Nil
  then show ?case by simp
next
  case (Cons r rows)
  from Cons.prems(2) obtain e es where e: "encoded = e # es" "cid_bytes (fst r) = Inr e"
    "list_all2 (\<lambda>r e. cid_bytes (fst r) = Inr e) rows es" by (auto simp: list_all2_Cons1)
  with Cons.prems(1) obtain b bs' where b: "bs = b # bs'" "served sha svc rpc (r, e) b"
    "list_all2 (served sha svc rpc) (zip rows es) bs'" by (auto simp: list_all2_Cons1)
  from b(2) have data: "fst b = fst e" "int (length (snd b)) = snd r" by (simp_all add: served_def)
  have short: "length (fst b) \<le> 72" using e(2) data(1) cid_bytes_length by (metis prod.collapse)
  have "length (fst b) + length (snd b) < 128 ^ 4"
    using short data(2) Cons.prems(3) by (auto simp: MAX_CAR_BLOCK_def)
  then have "length (car_section b) \<le> 76 + length (snd b)"
    using short leb_length_4 [of "length (fst b) + length (snd b)"] by (simp add: car_section_def)
  moreover have "int (length (concat (map car_section bs'))) \<le> (\<Sum>r\<leftarrow>rows. snd r) + 76 * int (length rows)"
    using Cons.IH [OF b(3) e(3)] Cons.prems(3) by simp
  ultimately show ?case using data(2) b(1) by simp
qed

text \<open>If every section fits, the writer never hits its limit.\<close>

lemma export_blocks_complete:
  "list_all2 (served sha svc rpc) items bs \<Longrightarrow>
    int (length out + length (concat (map car_section bs))) \<le> max_bytes \<Longrightarrow>
    foldM (export_block sha svc rpc max_bytes) out items = Inr (out @ concat (map car_section bs))"
proof (induction items arbitrary: out bs)
  case Nil
  then show ?case by simp
next
  case (Cons item items)
  from Cons.prems(1) obtain b bs' where b: "bs = b # bs'" "served sha svc rpc item b"
    "list_all2 (served sha svc rpc) items bs'" by (auto simp: list_all2_Cons1)
  have "export_block sha svc rpc max_bytes out item = Inr (out @ car_section b)"
    unfolding export_block_Inr using b Cons.prems(2) by (intro exI [of _ b]) simp
  with Cons.IH [OF b(3), of "out @ car_section b"] Cons.prems(2) b(1) show ?case by simp
qed

lemma export_within_budget:
  assumes "encode_rows rows = Inr encoded" "rows \<noteq> []"
    and "list_all2 (served sha svc rpc) (zip rows encoded) bs"
    and "\<forall>r \<in> set rows. 1 \<le> snd r \<and> snd r \<le> MAX_CAR_BLOCK"
    and "(\<Sum>r\<leftarrow>rows. snd r) + 1024 * int (length rows) \<le> max_bytes" "length rows < 2 ^ 20"
  shows "\<exists>header. car_header_body (map fst encoded) = Inr header \<and>
    export_car sha svc rpc max_bytes rows encoded = Inr (car_bytes header bs)"
proof -
  have enc: "list_all2 (\<lambda>r e. cid_bytes (fst r) = Inr e) rows encoded"
    using assms(1) by (simp add: encode_rows_Inr)
  then have same: "length encoded = length rows" by (simp add: list_all2_lengthD)
  obtain header where h: "car_header_body (map fst encoded) = Inr header"
    "length header \<le> 21 + 80 * length rows"
    using car_header_body_ok [OF encoded_short [OF enc]] same assms(6) by auto
  have "length (leb (length header)) \<le> 4" using h(2) assms(6) by (intro leb_length_4) simp
  moreover have "int (length (concat (map car_section bs))) \<le> (\<Sum>r\<leftarrow>rows. snd r) + 76 * int (length rows)"
    by (rule served_sections [OF assms(3) enc assms(4)])
  moreover have "1 \<le> int (length rows)" using assms(2) by (cases rows) auto
  ultimately have fits: "int (length (leb (length header) @ header) + length (concat (map car_section bs)))
      \<le> max_bytes"
    using assms(5) h(2) unfolding length_append by linarith
  then have "write_bounded max_bytes [] (leb (length header) @ header) = Inr (leb (length header) @ header)"
    by (simp add: write_bounded_def)
  with export_blocks_complete [OF assms(3) fits] h(1) show ?thesis
    by (simp add: export_car_def car_header_def car_bytes_def)
qed

section \<open>Properties\<close>

text \<open>The CID texts Kubo itself prints for the supported codecs.\<close>

definition canonical_cid :: "string \<Rightarrow> bool" where
  "canonical_cid cid \<longleftrightarrow> (\<exists>codec digest. codec \<in> {0x55, 0x70, 0x71, 0x129} \<and> length digest = 32 \<and>
     (cid = cid_v1_text codec digest \<or> cid = cid_v0_text digest))"

lemma canonical_cid_bytes:
  assumes "canonical_cid cid" and "cid_bytes cid = Inr (binary, digest)"
  shows "\<exists>codec < 2 ^ 64. binary = cid_v1_binary codec digest \<and> length digest = 32"
proof -
  from assms(1) obtain codec d where c: "codec \<in> {0x55, 0x70, 0x71, 0x129}" "length d = 32"
    "cid = cid_v1_text codec d \<or> cid = cid_v0_text d" by (auto simp: canonical_cid_def)
  from c(3) show ?thesis
  proof
    assume "cid = cid_v1_text codec d"
    then have "binary = cid_v1_binary codec d" "digest = d"
      using cid_bytes_v1_text [OF c(1,2)] assms(2) by auto
    moreover have "codec < 2 ^ 64" using c(1) by auto
    ultimately show ?thesis using c(2) by blast
  next
    assume "cid = cid_v0_text d"
    then have "binary = cid_v1_binary 0x70 d" "digest = d"
      using cid_bytes_v0_text [OF c(2)] assms(2) leb_small [of 112] by (auto simp: cid_v1_binary_def)
    moreover have "(0x70 :: nat) < 2 ^ 64" by simp
    ultimately show ?thesis using c(2) by blast
  qed
qed

lemma served_block_cid:
  "list_all2 (served sha svc rpc) (zip rows encoded) bs \<Longrightarrow>
    list_all2 (\<lambda>r e. cid_bytes (fst r) = Inr e) rows encoded \<Longrightarrow>
    \<forall>r \<in> set rows. canonical_cid (fst r) \<Longrightarrow> length bs = length rows \<and> (\<forall>b \<in> set bs. block_cid sha b)"
proof (induction rows arbitrary: encoded bs)
  case Nil
  then show ?case by simp
next
  case (Cons r rows)
  from Cons.prems(2) obtain e es where e: "encoded = e # es" "cid_bytes (fst r) = Inr e"
    "list_all2 (\<lambda>r e. cid_bytes (fst r) = Inr e) rows es" by (auto simp: list_all2_Cons1)
  with Cons.prems(1) obtain b bs' where b: "bs = b # bs'" "served sha svc rpc (r, e) b"
    "list_all2 (served sha svc rpc) (zip rows es) bs'" by (auto simp: list_all2_Cons1)
  have "block_cid sha b"
    using canonical_cid_bytes [of "fst r" "fst e" "snd e"] Cons.prems(3) e(2) b(2)
    by (auto simp: served_def block_cid_def)
  then show ?case using Cons.IH [OF b(3) e(3)] Cons.prems(3) b(1) by simp
qed

lemma length_car_header_le: "length header \<le> length (car_bytes header bs)"
  by (simp add: car_bytes_def)

text \<open>C3: what the exporter writes is a CARv1 file of the requested rows. Its header is a CBOR map whose roots, as
  a CBOR reader finds them, are the binary CIDs of the blocks of the file. There is one section per row, in the
  order of the rows, with the binary form of the row's CID and a block that has the row's size, was read from Kubo
  under the row's CID, and hashes to the digest inside that CID (so passes the raw store's \<open>verify_cid\<close>). The
  file is within the budget.\<close>

theorem exported_car_holds_verified_rows:
  assumes "encode_rows rows = Inr encoded" and "export_car sha svc rpc max_bytes rows encoded = Inr car"
  shows "\<exists>header bs. car = car_bytes header bs \<and> header_roots header = Some (map fst bs) \<and>
    int (length car) \<le> max_bytes \<and>
    list_all2 (\<lambda>r b. cid_bytes (fst r) = Inr (fst b, sha (snd b)) \<and> int (length (snd b)) = snd r \<and>
      verify_cid sha (fst r) (snd b) = Inr () \<and> fetch_block svc rpc (fst r) (nat (snd r)) = Inr (snd b)) rows bs"
proof -
  obtain header bs where c: "car_header_body (map fst encoded) = Inr header"
    "list_all2 (served sha svc rpc) (zip rows encoded) bs"
    "car = car_bytes header bs" "int (length car) \<le> max_bytes"
    using assms(2) by (rule export_car_Inr) blast
  have "list_all2 (\<lambda>r e. cid_bytes (fst r) = Inr e) rows encoded"
    using assms(1) by (simp add: encode_rows_Inr)
  with c(2) have "map fst encoded = map fst bs \<and>
      list_all2 (\<lambda>r b. cid_bytes (fst r) = Inr (fst b, sha (snd b)) \<and> int (length (snd b)) = snd r \<and>
        verify_cid sha (fst r) (snd b) = Inr () \<and> fetch_block svc rpc (fst r) (nat (snd r)) = Inr (snd b)) rows bs"
  proof (induction rows arbitrary: encoded bs)
    case (Cons r rows)
    from Cons.prems(2) obtain e es where e: "encoded = e # es" "cid_bytes (fst r) = Inr e"
      "list_all2 (\<lambda>r e. cid_bytes (fst r) = Inr e) rows es" by (auto simp: list_all2_Cons1)
    with Cons.prems(1) obtain b bs' where b: "bs = b # bs'" "served sha svc rpc (r, e) b"
      "list_all2 (served sha svc rpc) (zip rows es) bs'" by (auto simp: list_all2_Cons1)
    from e(2) have "sha256_digest (fst r) = Inr (snd e)"
      using cid_digest_agrees [of "fst r" "fst e" "snd e"] by simp
    with b(2) have "verify_cid sha (fst r) (snd b) = Inr ()" by (simp add: served_def verify_cid_ok)
    with b(1,2) e(1,2) Cons.IH [OF b(3) e(3)] show ?case by (simp add: served_def)
  qed simp
  with c header_roots_written [OF c(1)] show ?thesis by auto
qed

text \<open>For rows as \<open>selected_rows\<close> chooses them, 1024 bytes of framing per row is enough: when Kubo
  serves every block, the export succeeds and is never stopped by the byte budget.\<close>

theorem export_never_exceeds_budget:
  assumes "encode_rows rows = Inr encoded" "rows \<noteq> []" "length rows \<le> 1000"
    and "list_all2 (served sha svc rpc) (zip rows encoded) bs"
    and "\<forall>r \<in> set rows. 1 \<le> snd r \<and> snd r \<le> MAX_CAR_BLOCK"
    and "(\<Sum>r\<leftarrow>rows. snd r) + 1024 * int (length rows) \<le> max_bytes"
  shows "\<exists>header. export_car sha svc rpc max_bytes rows encoded = Inr (car_bytes header bs)"
  using export_within_budget [OF assms(1,2,4,5,6)] assms(3) by auto

text \<open>The exporter and the packer fit together: an exported CAR of at most 1000 rows with CIDs as
  Kubo prints them is packed into a CARv2 archive that validates, holds the CAR unchanged and counts
  one block and one index entry per row.\<close>

theorem exported_car_is_packed:
  assumes "encode_rows rows = Inr encoded" and "export_car sha svc rpc max_bytes rows encoded = Inr car"
    and "\<forall>r \<in> set rows. canonical_cid (fst r)" and "rows \<noteq> []" and "length rows \<le> 1000"
    and "max_bytes \<le> 536870912"
  shows "\<exists>index_rows archive. write_carv2 sha car (length rows) = Inr (index_rows, archive) \<and>
    data_section archive = car \<and>
    validate_carv2 sha archive (length rows) = Inr \<lparr>carv2_bytes = length archive,
      blocks = length rows, index_entry_count = length rows\<rparr>"
proof -
  have enc: "list_all2 (\<lambda>r e. cid_bytes (fst r) = Inr e) rows encoded"
    using assms(1) by (simp add: encode_rows_Inr)
  obtain header bs where c: "car_header_body (map fst encoded) = Inr header"
    "list_all2 (served sha svc rpc) (zip rows encoded) bs" "car = car_bytes header bs"
    "int (length car) \<le> max_bytes"
    using assms(2) by (rule export_car_Inr) blast
  note blocks = served_block_cid [OF c(2) enc assms(3)]
  obtain header' where "car_header_body (map fst encoded) = Inr header'" "header' \<noteq> []"
    "length header' \<le> 21 + 80 * length rows"
    using car_header_body_ok [OF encoded_short [OF enc]] list_all2_lengthD [OF enc] assms(5) by auto
  with c(1) assms(5) have h: "header \<noteq> []" "length header \<le> MAX_HEADER_BYTES"
    by (auto simp: MAX_HEADER_BYTES_def)
  have "length (car_bytes header bs) < 2 ^ 58" using c(3,4) assms(6) by simp
  moreover have "bs \<noteq> []" using blocks assms(4) by auto
  moreover have "length bs \<le> length rows" "\<forall>b \<in> set bs. block_cid sha b" using blocks by auto
  ultimately show ?thesis
    using standard_car_packed [OF _ _ _ h, of bs sha "length rows"] blocks c(3) by auto
qed

text \<open>The paths of the arguments do not collide.\<close>

definition separate_paths :: "export_args \<Rightarrow> bool" where
  "separate_paths args \<longleftrightarrow>
     distinct [ea_inventory args, ea_ipfs_bin args, ea_ipfs_path args, ea_output args, ea_receipt args] \<and>
     ea_output args \<notin> set (ancestors (butlast (ea_output args)) @ ancestors (butlast (ea_receipt args))) \<and>
     ea_receipt args \<notin> set (ancestors (butlast (ea_output args)) @ ancestors (butlast (ea_receipt args)))"

definition export_rows :: "pylib \<Rightarrow> fs \<Rightarrow> export_args \<Rightarrow> (string \<times> int) list res" where
  "export_rows py fs args =
     rbind (read_bytes fs (ea_inventory args)) (\<lambda>content.
       export_selected_rows py content (ea_sha256 args) (nat (ea_count args)) (nat (ea_start_row args))
         (nat (ea_max_blocks args)) (ea_max_bytes args))"

text \<open>A fresh export, taken apart.\<close>

lemma export_fresh:
  assumes "export py svc fs args = (fs', Inr receipt)" and "\<not> exists_path fs (ea_receipt args)"
    and "separate_paths args"
  obtains rows fs1 fs2 car where
    "match_sha256 (ea_sha256 args)" "1 \<le> ea_count args" "0 \<le> ea_start_row args" "1 \<le> ea_max_blocks args"
    "ea_max_blocks args \<le> 1000" "1 \<le> ea_max_bytes args" "ea_max_bytes args \<le> 536870912"
    "is_file fs (ea_ipfs_bin args)" "is_dir fs (ea_ipfs_path args)" "export_rows py fs args = Inr rows"
    "mkdirs (butlast (ea_output args)) fs = Inr fs1" "mkdirs (butlast (ea_receipt args)) fs1 = Inr fs2"
    "receipt = export_receipt py args (length rows) car"
    "fs' = write_node (ea_receipt args) (File (json_text py receipt)) (write_node (ea_output args) (File car) fs2)"
proof -
  note ex = assms(1) [unfolded export_def, folded export_rows_def]
  from ex have a: "match_sha256 (ea_sha256 args)" "1 \<le> ea_count args" "0 \<le> ea_start_row args"
    "1 \<le> ea_max_blocks args" "ea_max_blocks args \<le> 1000" "1 \<le> ea_max_bytes args"
    "ea_max_bytes args \<le> 536870912" "is_file fs (ea_ipfs_bin args)" "is_dir fs (ea_ipfs_path args)"
    by (auto split: if_splits)
  with ex obtain rows where rows: "export_rows py fs args = Inr rows"
    by (cases "export_rows py fs args") auto
  with ex a obtain fs1 where m1: "mkdirs (butlast (ea_output args)) fs = Inr fs1"
    by (cases "mkdirs (butlast (ea_output args)) fs") auto
  with ex a rows obtain fs2 where m2: "mkdirs (butlast (ea_receipt args)) fs1 = Inr fs2"
    by (cases "mkdirs (butlast (ea_receipt args)) fs1") auto
  have nr: "\<not> exists_path fs2 (ea_receipt args)"
  proof -
    have "map_of fs2 (ea_receipt args) = map_of fs (ea_receipt args)"
      using mkdirs_other [OF m1, of "ea_receipt args"] mkdirs_other [OF m2, of "ea_receipt args"] assms(3)
      by (simp add: separate_paths_def)
    then show ?thesis using assms(2) query_cong(1) by blast
  qed
  let ?job = "rbind (check_repo svc args) (\<lambda>_.
          rbind (if ea_rpc args then local_rpc py svc (ea_ipfs_path args) else Inr ()) (\<lambda>_.
          rbind (encode_rows rows) (\<lambda>encoded.
            export_car (sha256 py) svc (ea_rpc args) (ea_max_bytes args) rows encoded)))"
  from ex a rows m1 m2 nr obtain car where "?job = Inr car"
    by (cases ?job) (auto split: if_splits)
  with ex a rows m1 m2 nr show ?thesis by (auto simp: Let_def split: if_splits intro!: that)
qed

text \<open>A successful \<open>export\<close> returns a receipt that describes the CAR on disk (digest, row range,
  block count), and running it again with the same arguments changes nothing and returns the same
  receipt.\<close>

theorem export_receipt_describes_car:
  assumes "export py svc fs args = (fs', Inr receipt)"
    and "\<not> exists_path fs (ea_receipt args)" and "separate_paths args"
    and "json_loads py (json_text py receipt) = Inr receipt"
  shows "\<exists>n car. map_of fs' (ea_output args) = Some (File car) \<and>
    receipt = export_receipt py args n car \<and> export py svc fs' args = (fs', Inr receipt)"
proof -
  from assms(1-3) obtain rows fs1 fs2 car where e:
    "match_sha256 (ea_sha256 args)" "1 \<le> ea_count args" "0 \<le> ea_start_row args" "1 \<le> ea_max_blocks args"
    "ea_max_blocks args \<le> 1000" "1 \<le> ea_max_bytes args" "ea_max_bytes args \<le> 536870912"
    "is_file fs (ea_ipfs_bin args)" "is_dir fs (ea_ipfs_path args)" "export_rows py fs args = Inr rows" and
    m: "mkdirs (butlast (ea_output args)) fs = Inr fs1" "mkdirs (butlast (ea_receipt args)) fs1 = Inr fs2" and
    receipt: "receipt = export_receipt py args (length rows) car" and
    fs': "fs' = write_node (ea_receipt args) (File (json_text py receipt))
      (write_node (ea_output args) (File car) fs2)"
    by (rule export_fresh)
  have sep: "ea_output args \<noteq> ea_receipt args" using assms(3) by (auto simp: separate_paths_def)
  have same: "map_of fs' p = map_of fs p"
    if "map_of fs p \<noteq> None" "p \<noteq> ea_output args" "p \<noteq> ea_receipt args" for p
    using mkdirs_untouched [OF m(1) that(1)] mkdirs_untouched [OF m(2), of p] that by (simp add: fs')
  have dirs: "is_dir fs' q"
    if "q \<in> set (ancestors (butlast (ea_output args)) @ ancestors (butlast (ea_receipt args)))" for q
  proof -
    from that have "is_dir fs1 q \<or> is_dir fs2 q"
      using mkdirs_dirs [OF m(1), of q] mkdirs_dirs [OF m(2), of q] by auto
    then have dir: "is_dir fs2 q" using mkdirs_keep [OF m(2)] by blast
    have "map_of fs' q = map_of fs2 q" using that assms(3) by (auto simp: fs' separate_paths_def)
    from query_cong(3) [OF this] dir show ?thesis by simp
  qed
  have kept: "is_file fs' p = is_file fs p" "is_dir fs' p = is_dir fs p" "read_bytes fs' p = read_bytes fs p"
    if "map_of fs p \<noteq> None" "p \<noteq> ea_output args" "p \<noteq> ea_receipt args" for p
    using query_cong [OF same [OF that]] by simp_all
  have there: "map_of fs (ea_inventory args) \<noteq> None" "map_of fs (ea_ipfs_bin args) \<noteq> None"
    "map_of fs (ea_ipfs_path args) \<noteq> None"
    using e(10) present_if(1) [OF e(8)] present_if(2) [OF e(9)]
    by (auto simp: export_rows_def rbind_eq_Inr dest: present_if(3))
  have apart: "ea_inventory args \<notin> {ea_output args, ea_receipt args}"
    "ea_ipfs_bin args \<notin> {ea_output args, ea_receipt args}"
    "ea_ipfs_path args \<notin> {ea_output args, ea_receipt args}"
    using assms(3) by (auto simp: separate_paths_def)
  have "export_rows py fs' args = Inr rows"
    using e(10) kept(3) [OF there(1)] apart(1) by (simp add: export_rows_def)
  moreover have "is_file fs' (ea_ipfs_bin args)" using e(8) kept(1) [OF there(2)] apart(2) by simp
  moreover have "is_dir fs' (ea_ipfs_path args)" using e(9) kept(2) [OF there(3)] apart(3) by simp
  moreover have "mkdirs (butlast (ea_output args)) fs' = Inr fs'" "mkdirs (butlast (ea_receipt args)) fs' = Inr fs'"
    using dirs by (auto intro!: mkdirs_again)
  moreover have out: "map_of fs' (ea_output args) = Some (File car)" using sep by (simp add: fs')
  moreover have "map_of fs' (ea_receipt args) = Some (File (json_text py receipt))" by (simp add: fs')
  moreover have "check_saved py fs' args (length rows) receipt = Inr receipt"
    using out by (simp add: check_saved_def receipt export_receipt_def sha_file_def eq_str_def)
  ultimately have "export py svc fs' args = (fs', Inr receipt)"
    using e(1-7) assms(4) by (simp add: export_def flip: export_rows_def)
  with out receipt show ?thesis by blast
qed

section \<open>A concrete export\<close>

definition no_url :: split_url where
  "no_url = \<lparr>url_scheme = [], url_hostname = None, url_port = None, url_path = [], url_query = [], url_fragment = [],
     url_username = None, url_password = None\<rparr>"

definition sample_kubo :: kubo where
  "sample_kubo = \<lparr>repo_stat = Some ''RepoPath: /ipfs'', block_get = (\<lambda>_. Some [1, 2]), rpc_url = no_url,
     rpc_repo_stat = Inl OSError,
     rpc_block_get = (\<lambda>_. None), resolve_text = (\<lambda>_. [''ipfs'']), resolve_path = (\<lambda>p. p), free_bytes = 10 ^ 12\<rparr>"

definition sample_binary :: "bytes \<times> bytes" where
  "sample_binary = (cid_v1_binary 0x55 (replicate 32 7), replicate 32 7)"

lemma sample_encoded: "encode_rows [(sample_cid, 2)] = Inr [sample_binary]"
  by code_simp

lemma sample_canonical: "canonical_cid sample_cid"
proof -
  have "sample_cid = cid_v1_text 0x55 (replicate 32 7)" by code_simp
  then show ?thesis unfolding canonical_cid_def by (intro exI [of _ "0x55"] exI [of _ "replicate 32 7"]) simp
qed

lemma sample_export:
  "\<exists>car. export_car sample_sha sample_kubo False 2000 [(sample_cid, 2)] [sample_binary] = Inr car"
proof -
  have "is_ok (export_car sample_sha sample_kubo False 2000 [(sample_cid, 2)] [sample_binary])" by code_simp
  then show ?thesis by (simp add: is_ok_iff)
qed

theorem exported_car_holds_verified_rows_witness:
  "\<exists>car header data. export_car sample_sha sample_kubo False 2000 [(sample_cid, 2)] [sample_binary] = Inr car \<and>
    car = car_bytes header [(fst sample_binary, data)] \<and> header_roots header = Some [fst sample_binary]"
proof -
  obtain car where car: "export_car sample_sha sample_kubo False 2000 [(sample_cid, 2)] [sample_binary] = Inr car"
    using sample_export by blast
  obtain header bs where bs: "car = car_bytes header bs" "header_roots header = Some (map fst bs)" and
    all: "list_all2 (\<lambda>r b. cid_bytes (fst r) = Inr (fst b, sample_sha (snd b)) \<and> int (length (snd b)) = snd r \<and>
      verify_cid sample_sha (fst r) (snd b) = Inr () \<and>
      fetch_block sample_kubo False (fst r) (nat (snd r)) = Inr (snd b)) [(sample_cid, 2)] bs"
    using exported_car_holds_verified_rows [OF sample_encoded car] by blast
  from sample_encoded have id: "cid_bytes sample_cid = Inr sample_binary" by (simp add: encode_rows_Inr)
  from all obtain b where "bs = [b]" "cid_bytes sample_cid = Inr (fst b, sample_sha (snd b))"
    by (auto simp: list_all2_Cons1)
  with id have "bs = [(fst sample_binary, snd b)]" by (metis Inr_inject fst_conv prod.collapse)
  with bs car show ?thesis by auto
qed

theorem export_never_exceeds_budget_witness:
  "\<exists>header. export_car sample_sha sample_kubo False 1026 [(sample_cid, 2)] [sample_binary] =
    Inr (car_bytes header [(fst sample_binary, [1, 2])])"
proof (rule export_never_exceeds_budget [OF sample_encoded])
  show "list_all2 (served sample_sha sample_kubo False) (zip [(sample_cid, 2)] [sample_binary])
      [(fst sample_binary, [1, 2])]"
    by (simp add: served_def fetch_block_def sample_kubo_def sample_binary_def sample_sha_def)
qed (simp_all add: MAX_CAR_BLOCK_def)

theorem exported_car_is_packed_witness:
  "\<exists>car index_rows archive.
     export_car sample_sha sample_kubo False 2000 [(sample_cid, 2)] [sample_binary] = Inr car \<and>
     write_carv2 sample_sha car 1 = Inr (index_rows, archive) \<and> data_section archive = car"
proof -
  obtain car where car: "export_car sample_sha sample_kubo False 2000 [(sample_cid, 2)] [sample_binary] = Inr car"
    using sample_export by blast
  from exported_car_is_packed [OF sample_encoded car] car sample_canonical show ?thesis by auto
qed

definition sample_args :: export_args where
  "sample_args = \<lparr>ea_inventory = [''inv''], ea_sha256 = hex (replicate 32 7), ea_count = 1,
     ea_start_row = 0, ea_max_blocks = 1, ea_max_bytes = 2000, ea_ipfs_bin = [''bin''],
     ea_ipfs_path = [''ipfs''], ea_rpc = False, ea_output = [''out'', ''a.car''],
     ea_receipt = [''out'', ''a.json''], ea_min_free_bytes = 0\<rparr>"

definition sample_files :: fs where
  "sample_files = [([''inv''], File [2, 10]), ([''bin''], File [1]), ([''ipfs''], Dir)]"

text \<open>Its \<open>json_loads\<close> reads the two lines of the example: the inventory row and the receipt.\<close>

definition export_py :: pylib where
  "export_py = row_py\<lparr>json_dumps := (\<lambda>_. [0]),
     json_loads := (\<lambda>line. if line = [0, 10]
       then Inr (export_receipt row_py sample_args 1
         (case export_car sample_sha sample_kubo False 2000 [(sample_cid, 2)] [sample_binary] of
            Inl _ \<Rightarrow> [] | Inr car \<Rightarrow> car))
       else json_loads row_py line)\<rparr>"

theorem export_receipt_describes_car_witness:
  "\<exists>fs' receipt. export export_py sample_kubo sample_files sample_args = (fs', Inr receipt) \<and>
     export export_py sample_kubo fs' sample_args = (fs', Inr receipt)"
proof -
  let ?r = "export export_py sample_kubo sample_files sample_args"
  have ok: "is_ok (snd ?r)" by code_simp
  then obtain receipt where r: "?r = (fst ?r, Inr receipt)"
    by (metis is_ok_iff prod.collapse)
  have "ok_of (rbind (snd ?r) (\<lambda>v. json_loads export_py (json_text export_py v))) = ok_of (snd ?r)"
    by code_simp
  then have "json_loads export_py (json_text export_py receipt) = Inr receipt"
    using r by (metis ok_of_simps(1) ok_of_eq_Some rbind.simps(2) snd_conv)
  moreover have "\<not> exists_path sample_files (ea_receipt sample_args)" "separate_paths sample_args"
    by code_simp+
  ultimately show ?thesis using export_receipt_describes_car [OF r] r by blast
qed

end
