(* ===== verification/Block_Reader.thy ===== *)
theory Block_Reader
  imports Car_Receipts Raw_Block_Store
begin

text \<open>
  \<open>deploy/serve_lake.py\<close>, class \<open>LocalBlocks\<close>: which bytes are
  returned for a CID. The \<open>ipfs\<close> commands are an argument. Bytes that come back always have the
  inventory's size and the CID's digest, and were found durable on this node.
\<close>

definition MAX_BLOCK_BYTES :: int where "MAX_BLOCK_BYTES = 256000000"

section \<open>Local blocks\<close>

text \<open>The commands \<open>ipfs pin ls --type=<type> <cid>\<close> (exit status and decoded output) and
  \<open>ipfs --offline block get <cid>\<close>; a timeout or a missing binary is an exception.\<close>

record ipfs_cli =
  pin_ls :: "string \<Rightarrow> string \<Rightarrow> (int \<times> string) res"
  offline_block_get :: "string \<Rightarrow> (int \<times> bytes) res"

record block_reader =
  br_cli :: ipfs_cli
  br_inventory :: inventory
  br_max_block_bytes :: int
  br_raw_store :: "(path \<times> fs) option"
  br_receipts :: "(receipt_scope \<times> receipt_dir option \<times> receipt_dir list) option"

definition open_blocks ::
    "ipfs_cli \<Rightarrow> inventory \<Rightarrow> int \<Rightarrow> (path \<times> fs) option \<Rightarrow>
       (receipt_scope \<times> receipt_dir option \<times> receipt_dir list) option \<Rightarrow> block_reader res" where
  "open_blocks cli ivt max_block_bytes raw receipts =
     (if max_block_bytes < 1 \<or> MAX_BLOCK_BYTES < max_block_bytes
      then Inl (InventoryError ''block byte limit must be within 1..256000000'')
      else Inr \<lparr>br_cli = cli, br_inventory = ivt, br_max_block_bytes = max_block_bytes,
                br_raw_store = raw, br_receipts = receipts\<rparr>)"

text \<open>\<open>except RawBlockStoreError as exc: raise InventoryError(message) from exc\<close>\<close>

fun as_inventory_error :: "string \<Rightarrow> 'a res \<Rightarrow> 'a res" where
  "as_inventory_error message (Inl (RawBlockStoreError m)) = Inl (InventoryError message)"
| "as_inventory_error message r = r"

lemma as_inventory_error_Inr [res_simps]: "as_inventory_error message r = Inr x \<longleftrightarrow> r = Inr x"
  by (cases "(message, r)" rule: as_inventory_error.cases) simp_all

text \<open>The raw store part of \<open>read\<close>: \<open>None\<close> when there is no store or it has no such block.\<close>

definition read_raw :: "pylib \<Rightarrow> block_reader \<Rightarrow> string \<Rightarrow> int \<Rightarrow> bytes option res" where
  "read_raw py rd cid expected =
     (case br_raw_store rd of
        None \<Rightarrow> Inr None
      | Some (store, fs) \<Rightarrow>
          rbind (as_inventory_error (''raw block store refused '' @ cid)
              (raw_read py store fs cid (nat (br_max_block_bytes rd)))) (\<lambda>data.
          case data of
            None \<Rightarrow> Inr None
          | Some d \<Rightarrow>
              if int (length d) \<noteq> expected
              then Inl (InventoryError ''raw block size differs from inventory'') else Inr (Some d)))"

text \<open>\<open>re.fullmatch(re.escape(cid) + r" indirect through (?:...)", line)\<close>\<close>

definition indirect_line :: "string \<Rightarrow> string \<Rightarrow> bool" where
  "indirect_line cid line \<longleftrightarrow>
     (let prefix = cid @ '' indirect through '' in
      startswith line prefix \<and> match_cid (drop (length prefix) line))"

definition pinned :: "ipfs_cli \<Rightarrow> string \<Rightarrow> bool res" where
  "pinned cli cid =
     rbind (pin_ls cli ''direct'' cid) (\<lambda>(rc, out).
     if rc = 0 \<and> strip out = cid @ '' direct'' then Inr True
     else
       rbind (pin_ls cli ''all'' cid) (\<lambda>(rc, out).
       let line = strip out in
       Inr (rc = 0 \<and> (line = cid @ '' recursive'' \<or> indirect_line cid line))))"

text \<open>The last part of \<open>read\<close>, once the block is known to be durable.\<close>

definition read_kubo :: "pylib \<Rightarrow> block_reader \<Rightarrow> string \<Rightarrow> int \<Rightarrow> bytes res" where
  "read_kubo py rd cid expected =
     rbind (offline_block_get (br_cli rd) cid) (\<lambda>(rc, out).
     if rc \<noteq> 0 \<or> int (length out) \<noteq> expected
     then Inl (InventoryError ''local block unavailable or size differs'')
     else
       rbind (as_inventory_error ''local block CID differs from bytes'' (verify_cid (sha256 py) cid out))
         (\<lambda>_. Inr out))"

text \<open>Whether a receipt covers the block, with the receipt index after the question.\<close>

definition receipt_covers ::
    "pylib \<Rightarrow> block_reader \<Rightarrow> car_receipts \<Rightarrow> string \<Rightarrow> (bool \<times> car_receipts) res" where
  "receipt_covers py rd st cid =
     (case br_receipts rd of
        None \<Rightarrow> Inr (False, st)
      | Some (scope, car_dir, native_dirs) \<Rightarrow> covers py scope car_dir native_dirs st cid)"

definition local_read ::
    "pylib \<Rightarrow> block_reader \<Rightarrow> car_receipts \<Rightarrow> string \<Rightarrow> bytes res \<times> car_receipts" where
  "local_read py rd st cid =
     (case map_of (inv_sizes (br_inventory rd)) cid of
        None \<Rightarrow> (Inl (InventoryError ''CID absent from inventory''), st)
      | Some expected \<Rightarrow>
          if br_max_block_bytes rd < expected
          then (Inl (InventoryError ''block exceeds API byte limit''), st)
          else case read_raw py rd cid expected of
            Inl e \<Rightarrow> (Inl e, st)
          | Inr (Some data) \<Rightarrow> (Inr data, st)
          | Inr None \<Rightarrow>
              case receipt_covers py rd st cid of
                Inl e \<Rightarrow> (Inl e, st)
              | Inr (covered, st) \<Rightarrow>
                  (rbind (if covered then Inr True else pinned (br_cli rd) cid) (\<lambda>durable.
                   if \<not> durable then Inl (InventoryError ''block is not durably pinned or receipted'')
                   else read_kubo py rd cid expected), st))"

section \<open>Only verified, durable bytes are returned\<close>

text \<open>Evidence that the node holds the block for good: a receipt that covers its row, or a pin.\<close>

definition durable_evidence ::
    "pylib \<Rightarrow> block_reader \<Rightarrow> string \<Rightarrow> bool" where
  "durable_evidence py rd cid \<longleftrightarrow>
     pinned (br_cli rd) cid = Inr True \<or>
     (\<exists>scope car_dir native_dirs row. br_receipts rd = Some (scope, car_dir, native_dirs) \<and>
        map_of (inv_positions (rs_inventory scope)) cid = Some row \<and>
        receipted py scope car_dir native_dirs row)"

definition index_current :: "pylib \<Rightarrow> block_reader \<Rightarrow> car_receipts \<Rightarrow> bool" where
  "index_current py rd st \<longleftrightarrow>
     (\<forall>scope car_dir native_dirs. br_receipts rd = Some (scope, car_dir, native_dirs) \<longrightarrow>
        cr_mtime_ns st = Some (map rd_mtime_ns ((case car_dir of None \<Rightarrow> [] | Some d \<Rightarrow> [d]) @ native_dirs)) \<longrightarrow>
        receipts_current py scope car_dir native_dirs st)"

lemma read_raw_Some:
  assumes "read_raw py rd cid expected = Inr (Some data)"
  shows "sha256_digest cid = Inr (sha256 py data) \<and> int (length data) = expected \<and>
    (\<exists>store fs. br_raw_store rd = Some (store, fs) \<and>
       raw_read py store fs cid (nat (br_max_block_bytes rd)) = Inr (Some data))"
proof (cases "br_raw_store rd")
  case None
  then show ?thesis using assms by (simp add: read_raw_def)
next
  case (Some sf)
  obtain store fs where sf: "sf = (store, fs)" by (metis surj_pair)
  from assms Some sf have rd: "raw_read py store fs cid (nat (br_max_block_bytes rd)) = Inr (Some data)"
    and len: "int (length data) = expected"
    by (auto simp: read_raw_def res_simps split: option.splits)
  then show ?thesis using read_sound [OF rd] Some sf by simp
qed

lemma read_kubo_Inr:
  "read_kubo py rd cid expected = Inr data \<longleftrightarrow>
     offline_block_get (br_cli rd) cid = Inr (0, data) \<and> int (length data) = expected \<and>
     sha256_digest cid = Inr (sha256 py data)"
  by (auto simp: read_kubo_def res_simps verify_cid_ok)

lemma local_read_Inr:
  assumes "local_read py rd st cid = (Inr data, st')" and "index_current py rd st"
  shows "\<exists>expected. map_of (inv_sizes (br_inventory rd)) cid = Some expected \<and>
    int (length data) = expected \<and> expected \<le> br_max_block_bytes rd \<and>
    sha256_digest cid = Inr (sha256 py data) \<and>
    (read_raw py rd cid expected = Inr (Some data) \<or> durable_evidence py rd cid)"
proof -
  obtain expected where size: "map_of (inv_sizes (br_inventory rd)) cid = Some expected"
    "expected \<le> br_max_block_bytes rd"
    using assms(1) by (auto simp: local_read_def split: option.splits if_splits)
  show ?thesis
  proof (cases "read_raw py rd cid expected")
    case (Inl e)
    then show ?thesis using assms(1) size by (simp add: local_read_def)
  next
    case (Inr found)
    show ?thesis
    proof (cases found)
      case (Some d)
      then have "d = data" using assms(1) size Inr by (simp add: local_read_def)
      then show ?thesis using Inr Some size read_raw_Some [of py rd cid expected data] by auto
    next
      case None
      obtain covered st1 where cov: "receipt_covers py rd st cid = Inr (covered, st1)"
        using assms(1) size Inr None
        by (cases "receipt_covers py rd st cid") (auto simp: local_read_def)
      have got: "(if covered then Inr True else pinned (br_cli rd) cid) = Inr True"
        "read_kubo py rd cid expected = Inr data"
        using assms(1) size Inr None cov by (auto simp: local_read_def rbind_eq_Inr split: if_splits)
      have "durable_evidence py rd cid"
      proof (cases covered)
        case False
        then show ?thesis using got(1) by (simp add: durable_evidence_def)
      next
        case True
        then obtain scope car_dir native_dirs where rec: "br_receipts rd = Some (scope, car_dir, native_dirs)"
          and c: "covers py scope car_dir native_dirs st cid = Inr (True, st1)"
          using cov by (cases "br_receipts rd") (auto simp: receipt_covers_def)
        have "\<exists>row. map_of (inv_positions (rs_inventory scope)) cid = Some row \<and>
            (True \<longleftrightarrow> receipted py scope car_dir native_dirs row)"
          by (rule covers_Inr [OF c]) (use assms(2) rec in \<open>simp add: index_current_def\<close>)
        then show ?thesis using rec by (auto simp: durable_evidence_def)
      qed
      then show ?thesis using got(2) size by (simp add: read_kubo_Inr)
    qed
  qed
qed

text \<open>\<open>LocalBlocks.read\<close> returns bytes only for a CID of the inventory, exactly as many as the
  inventory says and within the API limit, whose SHA-256 is the CID's digest, and that come from the
  raw store or are covered by a checked receipt or a pin.\<close>

theorem local_read_verified:
  assumes "local_read py rd st cid = (Inr data, st')" and "index_current py rd st"
  shows "\<exists>expected. map_of (inv_sizes (br_inventory rd)) cid = Some expected \<and>
    int (length data) = expected \<and> expected \<le> br_max_block_bytes rd \<and>
    sha256_digest cid = Inr (sha256 py data) \<and>
    (read_raw py rd cid expected = Inr (Some data) \<or> durable_evidence py rd cid)"
  using assms by (rule local_read_Inr)


section \<open>A concrete reader\<close>

text \<open>The node with the receipt directory \<open>lake_dir\<close>; \<open>ipfs\<close> has the block of two bytes and no pins.\<close>

definition lake_cli :: ipfs_cli where
  "lake_cli = \<lparr>pin_ls = (\<lambda>_ _. Inr (1, [])), offline_block_get = (\<lambda>_. Inr (0, [1, 2]))\<rparr>"

definition lake_reader :: block_reader where
  "lake_reader = \<lparr>br_cli = lake_cli, br_inventory = lake_inventory, br_max_block_bytes = 8000000,
     br_raw_store = None, br_receipts = Some (lake_scope, Some lake_dir, [])\<rparr>"

lemma lake_reader_facts:
  "local_read receipt_py lake_reader closed_receipts sample_cid2 =
     (Inr [1, 2], \<lparr>cr_mtime_ns = Some [5], cr_starts = [1], cr_ranges = [(1, 2)]\<rparr>)"
  "fst (local_read receipt_py lake_reader closed_receipts sample_cid) =
     Inl (InventoryError ''block is not durably pinned or receipted'')"
  "index_current receipt_py lake_reader closed_receipts"
proof -
  show "index_current receipt_py lake_reader closed_receipts"
    by (simp add: index_current_def closed_receipts_def)
qed code_simp+

theorem local_read_verified_witness:
  "durable_evidence receipt_py lake_reader sample_cid2 \<and>
   fst (local_read receipt_py lake_reader closed_receipts sample_cid2) = Inr [1, 2] \<and>
   fst (local_read receipt_py lake_reader closed_receipts sample_cid) =
     Inl (InventoryError ''block is not durably pinned or receipted'')"
proof -
  have "read_raw receipt_py lake_reader sample_cid2 2 = Inr None"
    by (simp add: read_raw_def lake_reader_def)
  moreover have "map_of (inv_sizes (br_inventory lake_reader)) sample_cid2 = Some 2" by code_simp
  ultimately show ?thesis
    using local_read_verified [OF lake_reader_facts(1,3)] lake_reader_facts(1,2) by simp
qed

end
