(* ===== verification/Epoch_Log.thy ===== *)
theory Epoch_Log
  imports Block_Reader
begin

text \<open>
  \<open>deploy/serve_lake.py\<close>, classes \<open>EpochInventory\<close> and \<open>EpochBlocks\<close>: the epochs of the lake log as one
  inventory. Row numbers run on from epoch to epoch, a CID belongs to one epoch, and its block is read
  through that epoch's reader. The rows satisfy the locale \<open>paged_rows\<close>, like those of a single file.
\<close>

section \<open>The composite inventory\<close>

record epochs =
  ep_parts :: "inventory list"
  ep_starts :: "nat list"
  ep_sizes :: "(string \<times> int) list"
  ep_owner :: "(string \<times> nat) list"
  ep_count :: nat
  ep_sha256 :: string
  ep_total_bytes :: int

text \<open>The loop that fills \<open>starts\<close>.\<close>

fun starts_from :: "nat \<Rightarrow> nat list \<Rightarrow> nat list" where
  "starts_from start [] = []"
| "starts_from start (n # ns) = start # starts_from (start + n) ns"

text \<open>The two nested loops that fill \<open>sizes\<close> and \<open>owner\<close>.\<close>

definition own_row ::
    "nat \<Rightarrow> (string \<times> int) list \<times> (string \<times> nat) list \<Rightarrow> string \<times> int \<Rightarrow>
       ((string \<times> int) list \<times> (string \<times> nat) list) res" where
  "own_row index st row =
     (if map_of (fst st) (fst row) \<noteq> None
      then Inl (InventoryError (''CID appears in two epochs: '' @ fst row))
      else Inr (fst st @ [row], snd st @ [(fst row, index)]))"

definition own_rows ::
    "inventory list \<Rightarrow> ((string \<times> int) list \<times> (string \<times> nat) list) res" where
  "own_rows parts =
     foldM (\<lambda>st (index, part). foldM (own_row index) st (inv_sizes part)) ([], []) (enumerate 0 parts)"

text \<open>\<open>__init__\<close>, with the bytes of every part's file as they are read for the digest.\<close>

definition open_epochs ::
    "pylib \<Rightarrow> (inventory \<times> bytes) list \<Rightarrow> string \<Rightarrow> int \<Rightarrow> epochs res" where
  "open_epochs py files expected_sha expected_count =
     (let parts = map fst files;
          counts = map (length \<circ> inv_offsets) parts in
      if parts = [] then Inl (InventoryError ''an epoch list needs at least one inventory'')
      else if hex (sha256 py (concat (map snd files))) \<noteq> expected_sha \<or>
        int (sum_list counts) \<noteq> expected_count
      then Inl (InventoryError ''epoch inventories differ from the declared lake log'')
      else rbind (own_rows parts) (\<lambda>(sizes, owner).
        Inr \<lparr>ep_parts = parts, ep_starts = starts_from 0 counts, ep_sizes = sizes, ep_owner = owner,
             ep_count = sum_list counts, ep_sha256 = expected_sha,
             ep_total_bytes = sum_list (map inv_total_bytes parts)\<rparr>))"

text \<open>\<open>rows\<close>, with the identity and the bytes of every part's file at the time of the call.\<close>

definition epoch_rows ::
    "pylib \<Rightarrow> epochs \<Rightarrow> (file_identity \<times> bytes) list \<Rightarrow> int \<Rightarrow> int \<Rightarrow> ((json \<times> json) list \<times> nat) res" where
  "epoch_rows py ep nows offset limit =
     (if offset < 0 \<or> int (ep_count ep) \<le> offset then Inl (InventoryError ''cursor outside inventory'')
      else if limit < 1 \<or> 1000 < limit
      then Inl (InventoryError ''inventory row limit must be within 1..1000'')
      else
        let index = bisect_right (ep_starts ep) (nat offset) - 1 in
        rbind (inventory_rows py (ep_parts ep ! index) (nows ! index)
            (offset - int (ep_starts ep ! index)) limit) (\<lambda>(rows, stop).
          Inr (rows, ep_starts ep ! index + stop)))"

definition epoch_page :: "pylib \<Rightarrow> epochs \<Rightarrow> (file_identity \<times> bytes) list \<Rightarrow> int \<Rightarrow> page res" where
  "epoch_page py ep nows offset = page_of (epoch_rows py ep nows) (ep_sha256 ep) (ep_count ep) offset"

text \<open>\<open>EpochBlocks\<close>: one reader per epoch, each with the state of its receipt index.\<close>

definition open_epoch_blocks :: "epochs \<Rightarrow> block_reader list \<Rightarrow> (epochs \<times> block_reader list) res" where
  "open_epoch_blocks ep readers =
     (if length readers \<noteq> length (ep_parts ep) then Inl (InventoryError ''one block reader per epoch'')
      else Inr (ep, readers))"

definition epoch_read ::
    "pylib \<Rightarrow> epochs \<times> block_reader list \<Rightarrow> car_receipts list \<Rightarrow> string \<Rightarrow> bytes res \<times> car_receipts list" where
  "epoch_read py blocks sts cid =
     (case map_of (ep_owner (fst blocks)) cid of
        None \<Rightarrow> (Inl (InventoryError ''CID absent from inventory''), sts)
      | Some index \<Rightarrow>
          (case local_read py (snd blocks ! index) (sts ! index) cid of
             (r, st) \<Rightarrow> (r, sts[index := st])))"

section \<open>Locating a row\<close>

lemma length_starts_from [simp]: "length (starts_from s ns) = length ns"
  by (induction ns arbitrary: s) simp_all

lemma starts_from_nth:
  "i < length ns \<Longrightarrow> starts_from s ns ! i = s + sum_list (take i ns)"
proof (induction ns arbitrary: s i)
  case (Cons n ns)
  then show ?case by (cases i) simp_all
qed simp

lemma starts_from_ge: "x \<in> set (starts_from s ns) \<Longrightarrow> s \<le> x"
  by (induction ns arbitrary: s) (auto, fastforce)

lemma sorted_starts_from: "sorted (starts_from s ns)"
  by (induction ns arbitrary: s) (auto dest: starts_from_ge)

lemma sum_take_Suc: "i < length ns \<Longrightarrow> sum_list (take (Suc i) ns) = sum_list (take i ns) + (ns ! i :: nat)"
  by (simp add: take_Suc_conv_app_nth)

lemma locate_row:
  assumes "offset < sum_list ns"
  defines "index \<equiv> bisect_right (starts_from 0 ns) offset - 1"
  shows "index < length ns" and "starts_from 0 ns ! index = sum_list (take index ns)"
    and "sum_list (take index ns) \<le> offset" and "offset < sum_list (take index ns) + ns ! index"
proof -
  let ?b = "bisect_right (starts_from 0 ns) offset"
  note spec = bisect_right_spec [OF sorted_starts_from [of 0 ns], where x = offset]
  have ne: "ns \<noteq> []" using assms(1) by auto
  have pos: "0 < ?b"
  proof (rule ccontr)
    assume "\<not> 0 < ?b"
    then have "offset < starts_from 0 ns ! 0" using spec(3) [of 0] ne by simp
    with ne show False by (simp add: starts_from_nth)
  qed
  have b: "?b \<le> length ns" using spec(1) by simp
  show i: "index < length ns" using pos b by (simp add: index_def)
  then show s: "starts_from 0 ns ! index = sum_list (take index ns)" by (simp add: starts_from_nth)
  have "index < ?b" using pos by (simp add: index_def)
  from spec(2) [OF this] show "sum_list (take index ns) \<le> offset" by (simp add: s)
  have next_start: "sum_list (take index ns) + ns ! index = sum_list (take ?b ns)"
    using sum_take_Suc [OF i] pos by (simp add: index_def)
  show "offset < sum_list (take index ns) + ns ! index"
  proof (cases "?b < length ns")
    case True
    then show ?thesis using spec(3) [of ?b] next_start by (simp add: starts_from_nth)
  next
    case False
    then show ?thesis using b assms(1) next_start by simp
  qed
qed

lemma drop_concat:
  "i < length xss \<Longrightarrow> k \<le> length (xss ! i) \<Longrightarrow>
    drop (length (concat (take i xss)) + k) (concat xss) = drop k (xss ! i) @ concat (drop (Suc i) xss)"
proof (induction xss arbitrary: i)
  case (Cons xs xss)
  then show ?case by (cases i) simp_all
qed simp

lemma length_concat_take: "length (concat (take i xss)) = sum_list (take i (map length xss))"
  by (simp add: length_concat take_map)


section \<open>What an opened log is\<close>

lemma own_row_Inr [res_simps]:
  "own_row index st r = Inr st' \<longleftrightarrow>
     fst r \<notin> fst ` set (fst st) \<and> st' = (fst st @ [r], snd st @ [(fst r, index)])"
  by (auto simp: own_row_def map_of_eq_None_iff)

lemma own_epoch_Inr:
  "foldM (own_row index) st rows = Inr st' \<longleftrightarrow>
     st' = (fst st @ rows, snd st @ map (\<lambda>r. (fst r, index)) rows) \<and>
     distinct (map fst rows) \<and> fst ` set rows \<inter> fst ` set (fst st) = {}"
proof (induction rows arbitrary: st)
  case Nil
  then show ?case by auto
next
  case (Cons r rows)
  show ?case
    by (auto simp: res_simps Cons.IH)
qed

definition owners :: "nat \<Rightarrow> inventory list \<Rightarrow> (string \<times> nat) list" where
  "owners k parts = concat (map (\<lambda>(i, part). map (\<lambda>r. (fst r, i)) (inv_sizes part)) (enumerate k parts))"

lemma own_rows_from:
  assumes "foldM (\<lambda>st (index, part). foldM (own_row index) st (inv_sizes part)) st (enumerate k parts) = Inr st'"
    and "distinct (map fst (fst st))"
  shows "st' = (fst st @ concat (map inv_sizes parts), snd st @ owners k parts) \<and>
    distinct (map fst (fst st'))"
  using assms
proof (induction parts arbitrary: st k)
  case Nil
  then show ?case by (simp add: owners_def)
next
  case (Cons part parts)
  from Cons.prems(1) obtain st1 where one: "foldM (own_row k) st (inv_sizes part) = Inr st1"
    and rest: "foldM (\<lambda>st (index, part). foldM (own_row index) st (inv_sizes part)) st1
      (enumerate (Suc k) parts) = Inr st'" by (auto simp: res_simps)
  from one have st1: "st1 = (fst st @ inv_sizes part, snd st @ map (\<lambda>r. (fst r, k)) (inv_sizes part))"
    and d: "distinct (map fst (fst st1))" using Cons.prems(2) by (auto simp: own_epoch_Inr)
  have "st' = (fst st1 @ concat (map inv_sizes parts), snd st1 @ owners (Suc k) parts) \<and>
      distinct (map fst (fst st'))" by (rule Cons.IH [OF rest d])
  moreover have "owners k (part # parts) = map (\<lambda>r. (fst r, k)) (inv_sizes part) @ owners (Suc k) parts"
    by (simp add: owners_def)
  ultimately show ?case unfolding st1 by (metis append.assoc concat.simps(2) fst_conv list.simps(9) snd_conv)
qed

lemma own_rows_Inr:
  assumes "own_rows parts = Inr (sizes, owner)"
  shows "sizes = concat (map inv_sizes parts)" and "owner = owners 0 parts" and "distinct (map fst sizes)"
  using own_rows_from [OF assms [unfolded own_rows_def]] by auto

lemma owners_keys: "map fst (owners k parts) = map fst (concat (map inv_sizes parts))"
  by (induction parts arbitrary: k) (simp_all add: owners_def)

lemma owners_set:
  "(cid, i) \<in> set (owners k parts) \<longleftrightarrow>
     (\<exists>j < length parts. i = k + j \<and> cid \<in> fst ` set (inv_sizes (parts ! j)))"
proof (induction parts arbitrary: k)
  case Nil
  then show ?case by (simp add: owners_def)
next
  case (Cons part parts)
  have "(cid, i) \<in> set (owners k (part # parts)) \<longleftrightarrow>
      i = k \<and> cid \<in> fst ` set (inv_sizes part) \<or> (cid, i) \<in> set (owners (Suc k) parts)"
    by (auto simp: owners_def image_iff)
  also have "\<dots> \<longleftrightarrow> (\<exists>j < length (part # parts). i = k + j \<and> cid \<in> fst ` set (inv_sizes ((part # parts) ! j)))"
    by (simp add: Cons.IH Ex_less_Suc2)
  finally show ?case .
qed

lemma owner_of:
  assumes "distinct (map fst (concat (map inv_sizes parts)))"
  shows "map_of (owners k parts) cid = Some i \<longleftrightarrow>
    k \<le> i \<and> i < k + length parts \<and> cid \<in> fst ` set (inv_sizes (parts ! (i - k)))"
proof -
  have "distinct (map fst (owners k parts))" using assms by (simp add: owners_keys)
  then have "map_of (owners k parts) cid = Some i \<longleftrightarrow> (cid, i) \<in> set (owners k parts)" by simp
  also have "\<dots> \<longleftrightarrow> (\<exists>j < length parts. i = k + j \<and> cid \<in> fst ` set (inv_sizes (parts ! j)))"
    by (rule owners_set)
  also have "\<dots> \<longleftrightarrow> k \<le> i \<and> i < k + length parts \<and> cid \<in> fst ` set (inv_sizes (parts ! (i - k)))"
    by (auto intro!: exI [of _ "i - k"])
  finally show ?thesis .
qed

lemma open_epochs_Inr:
  "open_epochs py files sha count = Inr ep \<Longrightarrow>
     files \<noteq> [] \<and> hex (sha256 py (concat (map snd files))) = sha \<and>
     int (ep_count ep) = count \<and> ep_parts ep = map fst files \<and>
     ep_starts ep = starts_from 0 (map (length \<circ> inv_offsets) (ep_parts ep)) \<and>
     own_rows (ep_parts ep) = Inr (ep_sizes ep, ep_owner ep) \<and>
     ep_count ep = sum_list (map (length \<circ> inv_offsets) (ep_parts ep)) \<and> ep_sha256 ep = sha \<and>
     ep_total_bytes ep = sum_list (map inv_total_bytes (ep_parts ep))"
  by (auto simp: open_epochs_def Let_def res_simps)

text \<open>An opened log is the declared one: the digest of the concatenated epochs and the row count are
  the expected ones, no CID is in two epochs, the sizes are those of the epochs in order, and the owner
  of a CID is the epoch that lists it.\<close>

theorem opened_epochs_wellformed:
  assumes "open_epochs py files sha count = Inr ep"
  shows "hex (sha256 py (concat (map snd files))) = sha \<and> int (ep_count ep) = count \<and>
    distinct (map fst (ep_sizes ep)) \<and> ep_sizes ep = concat (map (inv_sizes \<circ> fst) files) \<and>
    (\<forall>cid i. map_of (ep_owner ep) cid = Some i \<longleftrightarrow>
       i < length files \<and> cid \<in> fst ` set (inv_sizes (fst (files ! i))))"
proof -
  from assms have p: "ep_parts ep = map fst files" and own: "own_rows (ep_parts ep) = Inr (ep_sizes ep, ep_owner ep)"
    and rest: "hex (sha256 py (concat (map snd files))) = sha" "int (ep_count ep) = count"
    using open_epochs_Inr [OF assms] by blast+
  note o = own_rows_Inr [OF own]
  have "map_of (ep_owner ep) cid = Some i \<longleftrightarrow> i < length files \<and> cid \<in> fst ` set (inv_sizes (fst (files ! i)))"
    for cid i
    unfolding o(2) using owner_of [of "ep_parts ep" 0 cid i] o(1,3) p by (auto simp: comp_def)
  then show ?thesis using rest o(1,3) p by (simp add: comp_def)
qed

section \<open>Paging through the log\<close>

text \<open>One epoch as the command line declares it: the file, its digest and its row count.\<close>

record epoch_file =
  ef_content :: bytes
  ef_identity :: file_identity
  ef_sha256 :: string
  ef_count :: int

definition load_epoch :: "pylib \<Rightarrow> epoch_file \<Rightarrow> inventory res" where
  "load_epoch py f = load_inventory py (ef_content f) (ef_identity f) (ef_sha256 f) (ef_count f)"

fun load_epochs :: "pylib \<Rightarrow> epoch_file list \<Rightarrow> inventory list res" where
  "load_epochs py [] = Inr []"
| "load_epochs py (f # fs) =
     rbind (load_epoch py f) (\<lambda>part. rbind (load_epochs py fs) (\<lambda>parts. Inr (part # parts)))"

definition open_log :: "pylib \<Rightarrow> epoch_file list \<Rightarrow> string \<Rightarrow> int \<Rightarrow> epochs res" where
  "open_log py fs sha count =
     rbind (load_epochs py fs) (\<lambda>parts. open_epochs py (zip parts (map ef_content fs)) sha count)"

definition now_of :: "epoch_file list \<Rightarrow> (file_identity \<times> bytes) list" where
  "now_of fs = map (\<lambda>f. (ef_identity f, ef_content f)) fs"

lemma load_epochs_Inr:
  "load_epochs py fs = Inr parts \<longleftrightarrow> list_all2 (\<lambda>f part. load_epoch py f = Inr part) fs parts"
  by (induction fs arbitrary: parts) (auto simp: res_simps list_all2_Cons1)

definition part_rows :: "inventory \<Rightarrow> (json \<times> json) list" where
  "part_rows part = map row_json (inv_sizes part)"

lemma part_fetch:
  assumes "load_epoch py f = Inr part" and "local < length (part_rows part)" and "1 \<le> limit" and "limit \<le> 1000"
  shows "\<exists>stop. local < stop \<and> stop \<le> length (part_rows part) \<and> int stop \<le> int local + limit \<and>
    inventory_rows py part (ef_identity f, ef_content f) (int local) limit =
      Inr (take (stop - local) (drop local (part_rows part)), stop)"
proof -
  note load = assms(1) [unfolded load_epoch_def]
  have "listed_rows py (ef_content f) (ef_identity f) (ef_sha256 f) (ef_count f) = part_rows part"
    using listed_rows_Inr(1) [OF load] by (simp add: part_rows_def)
  with inv_pages.fetch_rows [of local py "ef_content f" "ef_identity f" "ef_sha256 f" "ef_count f" limit]
  show ?thesis using assms(2-4) by (simp add: served_rows_def load)
qed

lemma open_log_Inr:
  assumes "open_log py fs sha count = Inr ep"
  shows "list_all2 (\<lambda>f part. load_epoch py f = Inr part) fs (ep_parts ep)"
    and "map (length \<circ> inv_offsets) (ep_parts ep) = map length (map part_rows (ep_parts ep))"
    and "open_epochs py (zip (ep_parts ep) (map ef_content fs)) sha count = Inr ep"
proof -
  from assms obtain parts where l: "list_all2 (\<lambda>f part. load_epoch py f = Inr part) fs parts"
    and o: "open_epochs py (zip parts (map ef_content fs)) sha count = Inr ep"
    by (auto simp: open_log_def res_simps load_epochs_Inr)
  have len: "length fs = length parts" using l by (rule list_all2_lengthD)
  have "ep_parts ep = map fst (zip parts (map ef_content fs))"
    using open_epochs_Inr [OF o] by (elim conjE)
  then have p: "ep_parts ep = parts" using len by simp
  show "list_all2 (\<lambda>f part. load_epoch py f = Inr part) fs (ep_parts ep)" using l p by simp
  show "open_epochs py (zip (ep_parts ep) (map ef_content fs)) sha count = Inr ep" using o p by simp
  have "length (inv_offsets part) = length (part_rows part)" if "part \<in> set parts" for part
  proof -
    from that l obtain f where "load_epoch py f = Inr part"
      by (auto simp: list_all2_conv_all_nth in_set_conv_nth)
    from listed_rows_Inr(2) [OF this [unfolded load_epoch_def]] show ?thesis by (simp add: part_rows_def)
  qed
  then show "map (length \<circ> inv_offsets) (ep_parts ep) = map length (map part_rows (ep_parts ep))"
    using p by simp
qed

definition log_rows :: "epochs \<Rightarrow> (json \<times> json) list" where
  "log_rows ep = concat (map part_rows (ep_parts ep))"

lemma log_count:
  assumes "open_log py fs sha count = Inr ep"
  shows "ep_count ep = length (log_rows ep)"
proof -
  have "ep_count ep = sum_list (map (length \<circ> inv_offsets) (ep_parts ep))"
    using open_epochs_Inr [OF open_log_Inr(3) [OF assms]] by (elim conjE)
  then show ?thesis unfolding open_log_Inr(2) [OF assms] log_rows_def length_concat .
qed

lemma epoch_fetch:
  assumes "open_log py fs sha count = Inr ep" and "offset < length (log_rows ep)"
    and "1 \<le> limit" and "limit \<le> 1000"
  shows "\<exists>stop. offset < stop \<and> stop \<le> length (log_rows ep) \<and> int stop \<le> int offset + limit \<and>
    epoch_rows py ep (now_of fs) (int offset) limit =
      Inr (take (stop - offset) (drop offset (log_rows ep)), stop)"
proof -
  let ?rss = "map part_rows (ep_parts ep)"
  let ?ns = "map length ?rss"
  define i where "i = bisect_right (ep_starts ep) offset - Suc 0"
  define s where "s = sum_list (take i ?ns)"
  have starts: "ep_starts ep = starts_from 0 ?ns"
    using open_epochs_Inr [OF open_log_Inr(3) [OF assms(1)]] open_log_Inr(2) [OF assms(1)] by simp
  have "offset < sum_list ?ns" using assms(2) by (simp add: log_rows_def length_concat)
  note loc = locate_row [OF this, unfolded One_nat_def, folded starts, folded i_def, folded s_def]
  have i: "i < length (ep_parts ep)" and i': "i < length ?rss" using loc(1) by simp_all
  let ?part = "ep_parts ep ! i"
  have load: "load_epoch py (fs ! i) = Inr ?part" and nth: "i < length fs"
    using open_log_Inr(1) [OF assms(1)] i by (auto simp: list_all2_conv_all_nth)
  have k: "offset - s < length (part_rows ?part)" using loc(3,4) i by simp
  from part_fetch [OF load k assms(3,4)] obtain stop where
    fetched: "offset - s < stop" "stop \<le> length (part_rows ?part)" "int stop \<le> int (offset - s) + limit"
    "inventory_rows py ?part (ef_identity (fs ! i), ef_content (fs ! i)) (int (offset - s)) limit =
      Inr (take (stop - (offset - s)) (drop (offset - s) (part_rows ?part)), stop)" by blast
  have d: "drop offset (log_rows ep) = drop (offset - s) (?rss ! i) @ concat (drop (Suc i) ?rss)"
    using drop_concat [OF i', of "offset - s"] k i loc(3)
    by (simp add: log_rows_def length_concat_take s_def)
  have "length (drop offset (log_rows ep)) =
      length (drop (offset - s) (?rss ! i)) + length (concat (drop (Suc i) ?rss))"
    unfolding d by (rule length_append)
  then have inside: "s + length (part_rows ?part) \<le> length (log_rows ep)"
    using k loc(3) assms(2) unfolding length_drop nth_map [OF i] by linarith
  have at: "int offset - int s = int (offset - s)" using loc(3) by simp
  have "epoch_rows py ep (now_of fs) (int offset) limit =
      Inr (take (stop - (offset - s)) (drop (offset - s) (part_rows ?part)), s + stop)"
    using fetched(4) assms(2-4) loc(2) nth
    by (simp add: epoch_rows_def log_count [OF assms(1)] now_of_def i_def [symmetric] at del: of_nat_diff)
  moreover have "take (s + stop - offset) (drop offset (log_rows ep)) =
      take (stop - (offset - s)) (drop (offset - s) (part_rows ?part))"
  proof -
    have "s + stop - offset = stop - (offset - s)" "stop - (offset - s) \<le> length (part_rows ?part) - (offset - s)"
      using fetched(1,2) loc(3) by linarith+
    then show ?thesis unfolding d nth_map [OF i] by simp
  qed
  moreover have "offset < s + stop" "s + stop \<le> length (log_rows ep)" "int (s + stop) \<le> int offset + limit"
    using fetched(1-3) inside loc(3) by linarith+
  ultimately show ?thesis by metis
qed

text \<open>The rows of the log a reader process serves while the files stay as they are.\<close>

definition served_log ::
    "pylib \<Rightarrow> epoch_file list \<Rightarrow> string \<Rightarrow> int \<Rightarrow> int \<Rightarrow> int \<Rightarrow> ((json \<times> json) list \<times> nat) res" where
  "served_log py fs sha count offset limit =
     rbind (open_log py fs sha count) (\<lambda>ep. epoch_rows py ep (now_of fs) offset limit)"

definition declared_rows :: "pylib \<Rightarrow> epoch_file list \<Rightarrow> string \<Rightarrow> int \<Rightarrow> (json \<times> json) list" where
  "declared_rows py fs sha count =
     (case open_log py fs sha count of Inl _ \<Rightarrow> [] | Inr ep \<Rightarrow> log_rows ep)"

interpretation log_pages: paged_rows "served_log py fs sha count" "declared_rows py fs sha count"
  for py fs sha count
proof (unfold_locales, goal_cases)
  case (1 offset limit)
  then obtain ep where "open_log py fs sha count = Inr ep"
    by (auto simp: declared_rows_def split: sum.splits)
  with 1 epoch_fetch [of py fs sha count ep offset limit] show ?case
    by (simp add: declared_rows_def served_log_def)
next
  case (2 at limit)
  then show ?case
    by (cases "open_log py fs sha count")
      (auto simp: declared_rows_def served_log_def epoch_rows_def log_count)
qed

text \<open>C8: a reader that follows the cursors of the composite listing receives every row of every epoch
  from its cursor on, in log order and once each, across the epoch boundaries.\<close>

theorem log_pages_cover_epochs:
  assumes "open_log py fs sha count = Inr ep" and "offset < ep_count ep" and "ep_count ep - offset \<le> fuel"
  shows "follow_pages (epoch_page py ep (now_of fs)) fuel (dec_text offset) =
    Inr (drop offset (concat (map (map row_json \<circ> inv_sizes) (ep_parts ep))))"
proof -
  have all: "declared_rows py fs sha count = log_rows ep" by (simp add: declared_rows_def assms(1))
  have served: "served_log py fs sha count = epoch_rows py ep (now_of fs)"
    by (simp add: fun_eq_iff served_log_def assms(1))
  note n = log_count [OF assms(1)]
  have "epoch_page py ep (now_of fs) =
      page_of (served_log py fs sha count) (ep_sha256 ep) (length (declared_rows py fs sha count))"
    by (intro ext) (simp add: epoch_page_def all n served)
  then have "follow_pages (epoch_page py ep (now_of fs)) fuel (dec_text offset) = Inr (drop offset (log_rows ep))"
    using log_pages.follow_all [of offset py fs sha count fuel] assms(2,3) all n by simp
  then show ?thesis by (simp add: log_rows_def part_rows_def [abs_def] comp_def)
qed

section \<open>Reading through the log\<close>

text \<open>\<open>EpochBlocks.read\<close> returns bytes only for a CID that some epoch lists, with the size and the
  digest that epoch declares, read through that epoch's own reader.\<close>

theorem epoch_read_verified:
  assumes "open_epochs py files sha count = Inr ep" and "length readers = length files"
    and "\<And>i. i < length files \<Longrightarrow> br_inventory (readers ! i) = fst (files ! i) \<and>
      index_current py (readers ! i) (sts ! i)"
    and "epoch_read py (ep, readers) sts cid = (Inr data, sts')"
  shows "\<exists>i < length files. map_of (ep_owner ep) cid = Some i \<and>
    (\<exists>expected. map_of (inv_sizes (fst (files ! i))) cid = Some expected \<and> int (length data) = expected \<and>
       expected \<le> br_max_block_bytes (readers ! i)) \<and>
    sha256_digest cid = Inr (sha256 py data) \<and> (\<forall>j. j \<noteq> i \<longrightarrow> sts' ! j = sts ! j)"
proof -
  have p: "ep_parts ep = map fst files" and own: "own_rows (ep_parts ep) = Inr (ep_sizes ep, ep_owner ep)"
    using open_epochs_Inr [OF assms(1)] by blast+
  note o = own_rows_Inr [OF own]
  obtain i where i: "map_of (ep_owner ep) cid = Some i" and
    rd: "fst (local_read py (readers ! i) (sts ! i) cid) = Inr data" and
    sts: "sts' = sts[i := snd (local_read py (readers ! i) (sts ! i) cid)]"
    using assms(4) by (auto simp: epoch_read_def split: option.splits prod.splits)
  have lt: "i < length files"
    using i owner_of [of "ep_parts ep" 0 cid i] o p by simp
  obtain st where rd': "local_read py (readers ! i) (sts ! i) cid = (Inr data, st)"
    using rd by (metis surjective_pairing)
  from local_read_Inr [OF rd'] assms(3) [OF lt] i lt sts show ?thesis by auto
qed

section \<open>A concrete log\<close>

definition two_epochs :: "epoch_file list" where
  "two_epochs =
     [\<lparr>ef_content = [1, 10], ef_identity = lake_identity, ef_sha256 = hex (replicate 32 7), ef_count = 1\<rparr>,
      \<lparr>ef_content = [2, 10], ef_identity = lake_identity, ef_sha256 = hex (replicate 32 7), ef_count = 1\<rparr>]"

definition first_epoch :: inventory where
  "first_epoch = \<lparr>inv_offsets = [0], inv_sizes = [(sample_cid, 1)], inv_positions = [(sample_cid, 0)],
     inv_sha256 = hex (replicate 32 7), inv_total_bytes = 1, inv_identity = lake_identity\<rparr>"

definition second_epoch :: inventory where
  "second_epoch = first_epoch\<lparr>inv_sizes := [(sample_cid2, 2)], inv_positions := [(sample_cid2, 0)],
     inv_total_bytes := 2\<rparr>"

definition two_epoch_log :: epochs where
  "two_epoch_log = \<lparr>ep_parts = [first_epoch, second_epoch], ep_starts = [0, 1],
     ep_sizes = [(sample_cid, 1), (sample_cid2, 2)], ep_owner = [(sample_cid, 0), (sample_cid2, 1)],
     ep_count = 2, ep_sha256 = hex (replicate 32 7), ep_total_bytes = 3\<rparr>"

lemma two_epoch_log_opened:
  "open_log lake_py two_epochs (hex (replicate 32 7)) 2 = Inr two_epoch_log"
  "open_epochs lake_py [(first_epoch, [1, 10]), (second_epoch, [2, 10])] (hex (replicate 32 7)) 2 =
     Inr two_epoch_log"
  by code_simp+

theorem log_pages_cover_epochs_witness:
  "follow_pages (epoch_page lake_py two_epoch_log (now_of two_epochs)) 2 (dec_text 0) =
     Inr [(JStr sample_cid, JInt 1), (JStr sample_cid2, JInt 2)]"
proof -
  have "0 < ep_count two_epoch_log" "ep_count two_epoch_log - 0 \<le> 2"
    by (simp_all add: two_epoch_log_def)
  from log_pages_cover_epochs [OF two_epoch_log_opened(1) this] show ?thesis
    by (simp add: two_epoch_log_def first_epoch_def second_epoch_def row_json_def)
qed

theorem opened_epochs_wellformed_witness:
  "ep_count two_epoch_log = 2 \<and> map_of (ep_owner two_epoch_log) sample_cid2 = Some 1"
  using opened_epochs_wellformed [OF two_epoch_log_opened(2)]
  by (simp add: second_epoch_def first_epoch_def)

text \<open>The second epoch's reader has no receipts; its pin makes the block durable.\<close>

definition pinning_cli :: ipfs_cli where
  "pinning_cli = lake_cli\<lparr>pin_ls := (\<lambda>_ cid. Inr (0, cid @ '' direct''))\<rparr>"

definition epoch_reader :: "inventory \<Rightarrow> block_reader" where
  "epoch_reader part = \<lparr>br_cli = pinning_cli, br_inventory = part, br_max_block_bytes = 8000000,
     br_raw_store = None, br_receipts = None\<rparr>"

lemma two_epochs_read:
  "epoch_read lake_py (two_epoch_log, [epoch_reader first_epoch, epoch_reader second_epoch])
     [closed_receipts, closed_receipts] sample_cid2 = (Inr [1, 2], [closed_receipts, closed_receipts])"
  by code_simp

theorem epoch_read_verified_witness:
  "\<exists>i < 2. map_of (ep_owner two_epoch_log) sample_cid2 = Some i \<and>
     sha256_digest sample_cid2 = Inr (sha256 lake_py [1, 2])"
proof -
  have "\<exists>i < length [(first_epoch, [1, 10]), (second_epoch, [2, 10 :: byte])].
      map_of (ep_owner two_epoch_log) sample_cid2 = Some i \<and>
      (\<exists>expected. map_of (inv_sizes (fst ([(first_epoch, [1, 10]), (second_epoch, [2, 10 :: byte])] ! i)))
          sample_cid2 = Some expected \<and> int (length [1, 2 :: byte]) = expected \<and>
         expected \<le> br_max_block_bytes ([epoch_reader first_epoch, epoch_reader second_epoch] ! i)) \<and>
      sha256_digest sample_cid2 = Inr (sha256 lake_py [1, 2]) \<and>
      (\<forall>j. j \<noteq> i \<longrightarrow> [closed_receipts, closed_receipts] ! j = [closed_receipts, closed_receipts] ! j)"
  proof (rule epoch_read_verified [OF two_epoch_log_opened(2) _ _ two_epochs_read])
    fix i
    assume "i < length [(first_epoch, [1, 10]), (second_epoch, [2, 10 :: byte])]"
    then have "i = 0 \<or> i = 1" by auto
    then show "br_inventory ([epoch_reader first_epoch, epoch_reader second_epoch] ! i) =
        fst ([(first_epoch, [1, 10]), (second_epoch, [2, 10])] ! i) \<and>
      index_current lake_py ([epoch_reader first_epoch, epoch_reader second_epoch] ! i)
        ([closed_receipts, closed_receipts] ! i)"
      by (auto simp: epoch_reader_def index_current_def)
  qed simp
  then show ?thesis by auto
qed

end
