(* ===== verification/Http_Reader.thy ===== *)
theory Http_Reader
  imports Epoch_Log
begin

text \<open>
  \<open>deploy/serve_lake.py\<close>, \<open>handler_for\<close>: what a \<open>GET\<close> is answered, and the two semaphores its threads
  share. The handlers are an interleaved step relation over a list of requests, one entry per thread,
  with the writing of the responses. Its invariant is the account of the slots: free, held and lost ones add
  up, and only a request whose target \<open>urlsplit\<close> refuses loses one, between \<open>acquire\<close> and \<open>try\<close>.
\<close>

definition LARGE_BLOCK_THRESHOLD :: int where "LARGE_BLOCK_THRESHOLD = 8000000"

section \<open>Routing\<close>

text \<open>The target of the request line: whether \<open>urlsplit\<close> raises \<open>ValueError\<close> on it (as on \<open>http://[\<close>),
  and otherwise its parts and \<open>parse_qs\<close> of its query.\<close>

record request =
  rq_malformed :: bool
  rq_path :: string
  rq_query :: string
  rq_params :: "(string \<times> string list) list"

datatype response =
    Json_Response json
  | Octets bytes
  | Http_Error nat string

text \<open>What a handler needs of the inventory, which is an \<open>Inventory\<close> or an \<open>EpochInventory\<close>.\<close>

record lake_server =
  sv_sha256 :: string
  sv_rows :: nat
  sv_bytes :: int
  sv_sizes :: "(string \<times> int) list"
  sv_page :: "int \<Rightarrow> page res"

text \<open>The two inventories as \<open>main\<close> passes them.\<close>

definition file_server :: "pylib \<Rightarrow> inventory \<Rightarrow> file_identity \<times> bytes \<Rightarrow> lake_server" where
  "file_server py ivt now = \<lparr>sv_sha256 = inv_sha256 ivt, sv_rows = length (inv_offsets ivt),
     sv_bytes = inv_total_bytes ivt, sv_sizes = inv_sizes ivt, sv_page = inventory_page py ivt now\<rparr>"

definition log_server :: "pylib \<Rightarrow> epochs \<Rightarrow> (file_identity \<times> bytes) list \<Rightarrow> lake_server" where
  "log_server py ep nows = \<lparr>sv_sha256 = ep_sha256 ep, sv_rows = ep_count ep,
     sv_bytes = ep_total_bytes ep, sv_sizes = ep_sizes ep, sv_page = epoch_page py ep nows\<rparr>"

definition row_object :: "json \<times> json \<Rightarrow> json" where
  "row_object r = JDict [(''cid'', fst r), (''size'', snd r)]"

definition page_json :: "page \<Rightarrow> json" where
  "page_json p = JDict [(''ok'', JBool True), (''inventory-sha256'', JStr (pg_sha256 p)),
     (''blocks'', JList (map row_object (pg_blocks p))),
     (''cursor'', case pg_cursor p of None \<Rightarrow> JNull | Some c \<Rightarrow> JStr c),
     (''truncated?'', JBool (pg_truncated p))]"

text \<open>\<open>int(text)\<close> refuses more digits than this.\<close>

definition INT_MAX_STR_DIGITS :: nat where "INT_MAX_STR_DIGITS = 4300"

definition health_json :: "lake_server \<Rightarrow> json" where
  "health_json sv = JDict [(''ok'', JBool True), (''inventory-sha256'', JStr (sv_sha256 sv)),
     (''rows'', JInt (int (sv_rows sv))), (''bytes'', JInt (sv_bytes sv))]"

definition blocks_json :: "lake_server \<Rightarrow> (string \<times> string list) list \<Rightarrow> json res" where
  "blocks_json sv params =
     (let cursors = (case map_of params ''cursor'' of None \<Rightarrow> [''0''] | Some cs \<Rightarrow> cs) in
      if (\<exists>k \<in> fst ` set params. k \<noteq> ''cursor'') \<or> length cursors \<noteq> 1
      then Inl (InventoryError ''invalid query'')
      else
        let cursor = hd cursors in
        if \<not> match_cursor cursor then Inl (InventoryError ''invalid cursor'')
        else if INT_MAX_STR_DIGITS < length cursor then Inl ValueError
        else rbind (sv_page sv (int (dec_value cursor))) (\<lambda>p. Inr (page_json p)))"

text \<open>What the handler does up to the point where it reads a block: it has its answer, or it reads the
  block, for which a large block needs the second semaphore.\<close>

datatype routed =
    Answer "response res"
  | Read_Block string bool

definition route :: "lake_server \<Rightarrow> request \<Rightarrow> routed" where
  "route sv rq =
     (if rq_path rq = ''/health'' then Answer (Inr (Json_Response (health_json sv)))
      else if rq_path rq = ''/api/v1/lake/blocks''
      then Answer (rbind (blocks_json sv (rq_params rq)) (\<lambda>v. Inr (Json_Response v)))
      else if startswith (rq_path rq) ''/ipfs/'' \<and> rq_query rq = []
      then
        let cid = drop (length ''/ipfs/'') (rq_path rq) in
        if \<not> match_served_cid cid then Answer (Inl (InventoryError ''invalid CID''))
        else Read_Block cid
          (LARGE_BLOCK_THRESHOLD < (case map_of (sv_sizes sv) cid of None \<Rightarrow> 0 | Some n \<Rightarrow> n))
      else Answer (Inr (Http_Error 404 ''Not Found'')))"

text \<open>The two \<open>except\<close> clauses; any other exception leaves the handler.\<close>

fun handled :: "response res \<Rightarrow> response res" where
  "handled (Inl TimeoutExpired) = Inr (Http_Error 503 ''local IPFS temporarily busy'')"
| "handled (Inl (InventoryError m)) = Inr (Http_Error 404 m)"
| "handled r = r"

definition block_response :: "bytes res \<Rightarrow> response res" where
  "block_response r = handled (rbind r (\<lambda>data. Inr (Octets data)))"

lemma handled_Inr: "handled r = Inr v \<longleftrightarrow>
    r = Inr v \<or> (r = Inl TimeoutExpired \<and> v = Http_Error 503 ''local IPFS temporarily busy'') \<or>
    (\<exists>m. r = Inl (InventoryError m) \<and> v = Http_Error 404 m)"
  by (cases r rule: handled.cases) auto

lemma block_response_Octets: "block_response r = Inr (Octets data) \<longleftrightarrow> r = Inr data"
  by (auto simp: block_response_def handled_Inr res_simps rbind_eq_Inl)

section \<open>The handlers side by side\<close>

text \<open>A thread that writes its response says which slots it holds: the request slot, and the slot for large
  blocks. \<open>Lost\<close> is a handler that ended by an exception without giving its request slot back.\<close>

datatype thread =
    Waiting request
  | Admitted request
  | Reading string bool
  | Writing bool bool response
  | Lost exn
  | Done "response res"

record serving =
  request_slots :: nat
  large_block_slot :: nat
  threads :: "thread list"

text \<open>\<open>handler_for\<close>: the limits are checked and the semaphores made.\<close>

definition handler_for :: "int \<Rightarrow> int \<Rightarrow> request list \<Rightarrow> serving res" where
  "handler_for max_concurrent_requests large_client_timeout rqs =
     (if max_concurrent_requests < 1 \<or> 64 < max_concurrent_requests
      then Inl (InventoryError ''concurrent request limit must be within 1..64'')
      else if large_client_timeout < 120 \<or> 1800 < large_client_timeout
      then Inl (InventoryError ''large client timeout must be within 120..1800 seconds'')
      else Inr \<lparr>request_slots = nat max_concurrent_requests, large_block_slot = 1,
                threads = map Waiting rqs\<rparr>)"

definition set_thread :: "nat \<Rightarrow> thread \<Rightarrow> serving \<Rightarrow> serving" where
  "set_thread i t s = s\<lparr>threads := (threads s)[i := t]\<rparr>"

text \<open>The end of a handler: the \<open>finally\<close> clause gives the slots back.\<close>

definition release :: "bool \<Rightarrow> serving \<Rightarrow> serving" where
  "release large s =
     s\<lparr>request_slots := request_slots s + 1,
       large_block_slot := large_block_slot s + (if large then 1 else 0)\<rparr>"

definition leave :: "bool \<Rightarrow> bool \<Rightarrow> serving \<Rightarrow> serving" where
  "leave slot large s = (if slot then release large s else s)"

text \<open>One step of one thread. \<open>read\<close> is the outcome a block read may have at that moment; \<open>sent\<close> says whether
  writing a response to the client may succeed, and whether it may fail with an \<open>OSError\<close>: a client that stalls is
  neither. The target is split between taking the slot and the \<open>try\<close>.\<close>

inductive serve_step ::
    "lake_server \<Rightarrow> (string \<Rightarrow> bytes res \<Rightarrow> bool) \<Rightarrow> (response \<Rightarrow> bool \<Rightarrow> bool) \<Rightarrow> serving \<Rightarrow> serving \<Rightarrow> bool"
  for sv :: lake_server and read :: "string \<Rightarrow> bytes res \<Rightarrow> bool" and sent :: "response \<Rightarrow> bool \<Rightarrow> bool" where
  busy: "i < length (threads s) \<Longrightarrow> threads s ! i = Waiting rq \<Longrightarrow> request_slots s = 0 \<Longrightarrow>
    serve_step sv read sent s (set_thread i (Writing False False (Http_Error 503 ''reader busy'')) s)"
| admit: "i < length (threads s) \<Longrightarrow> threads s ! i = Waiting rq \<Longrightarrow> 0 < request_slots s \<Longrightarrow>
    serve_step sv read sent s (set_thread i (Admitted rq) (s\<lparr>request_slots := request_slots s - 1\<rparr>))"
| malformed: "i < length (threads s) \<Longrightarrow> threads s ! i = Admitted rq \<Longrightarrow> rq_malformed rq \<Longrightarrow>
    serve_step sv read sent s (set_thread i (Lost ValueError) s)"
| answer: "i < length (threads s) \<Longrightarrow> threads s ! i = Admitted rq \<Longrightarrow> \<not> rq_malformed rq \<Longrightarrow>
    route sv rq = Answer r \<Longrightarrow> handled r = Inr v \<Longrightarrow>
    serve_step sv read sent s (set_thread i (Writing True False v) s)"
| answer_raises: "i < length (threads s) \<Longrightarrow> threads s ! i = Admitted rq \<Longrightarrow> \<not> rq_malformed rq \<Longrightarrow>
    route sv rq = Answer r \<Longrightarrow> handled r = Inl e \<Longrightarrow>
    serve_step sv read sent s (set_thread i (Done (Inl e)) (leave True False s))"
| large_busy: "i < length (threads s) \<Longrightarrow> threads s ! i = Admitted rq \<Longrightarrow> \<not> rq_malformed rq \<Longrightarrow>
    route sv rq = Read_Block cid True \<Longrightarrow> large_block_slot s = 0 \<Longrightarrow>
    serve_step sv read sent s (set_thread i (Writing True False (Http_Error 503 ''large block reader busy'')) s)"
| start_large: "i < length (threads s) \<Longrightarrow> threads s ! i = Admitted rq \<Longrightarrow> \<not> rq_malformed rq \<Longrightarrow>
    route sv rq = Read_Block cid True \<Longrightarrow> 0 < large_block_slot s \<Longrightarrow>
    serve_step sv read sent s
      (set_thread i (Reading cid True) (s\<lparr>large_block_slot := large_block_slot s - 1\<rparr>))"
| start: "i < length (threads s) \<Longrightarrow> threads s ! i = Admitted rq \<Longrightarrow> \<not> rq_malformed rq \<Longrightarrow>
    route sv rq = Read_Block cid False \<Longrightarrow> serve_step sv read sent s (set_thread i (Reading cid False) s)"
| got: "i < length (threads s) \<Longrightarrow> threads s ! i = Reading cid large \<Longrightarrow> read cid r \<Longrightarrow>
    block_response r = Inr v \<Longrightarrow> serve_step sv read sent s (set_thread i (Writing True large v) s)"
| read_raises: "i < length (threads s) \<Longrightarrow> threads s ! i = Reading cid large \<Longrightarrow> read cid r \<Longrightarrow>
    block_response r = Inl e \<Longrightarrow> serve_step sv read sent s (set_thread i (Done (Inl e)) (leave True large s))"
| finish: "i < length (threads s) \<Longrightarrow> threads s ! i = Writing slot large v \<Longrightarrow> sent v ok \<Longrightarrow>
    serve_step sv read sent s
      (set_thread i (Done (if ok then Inr v else Inl OSError)) (leave slot large s))"

inductive_cases serve_stepE: "serve_step sv read sent s s'"

section \<open>The account of the slots\<close>

fun holds_slot :: "thread \<Rightarrow> nat" where
  "holds_slot (Admitted rq) = 1"
| "holds_slot (Reading cid large) = 1"
| "holds_slot (Writing slot large v) = (if slot then 1 else 0)"
| "holds_slot _ = 0"

fun holds_large :: "thread \<Rightarrow> nat" where
  "holds_large (Reading cid large) = (if large then 1 else 0)"
| "holds_large (Writing slot large v) = (if slot \<and> large then 1 else 0)"
| "holds_large _ = 0"

fun lost_slot :: "thread \<Rightarrow> nat" where
  "lost_slot (Lost e) = 1"
| "lost_slot _ = 0"

definition slots_kept :: "nat \<Rightarrow> serving \<Rightarrow> bool" where
  "slots_kept n s \<longleftrightarrow>
     request_slots s + sum_list (map holds_slot (threads s)) + sum_list (map lost_slot (threads s)) = n \<and>
     large_block_slot s + sum_list (map holds_large (threads s)) = 1"

lemma map_holds_update:
  assumes "i < length ts"
  shows "sum_list (map f (ts[i := t])) + f (ts ! i) = sum_list (map f ts) + (f t :: nat)"
proof -
  have "f (ts ! i) \<le> sum_list (map f ts)" using assms member_le_sum_list [of "f (ts ! i)" "map f ts"] by simp
  then show ?thesis using assms by (simp add: map_update sum_list_update)
qed

lemma slots_kept_set_thread:
  assumes "slots_kept n s" and "i < length (threads s)" and "threads s' = threads s"
    and "request_slots s' + holds_slot t + lost_slot t =
      request_slots s + holds_slot (threads s ! i) + lost_slot (threads s ! i)"
    and "large_block_slot s' + holds_large t = large_block_slot s + holds_large (threads s ! i)"
  shows "slots_kept n (set_thread i t s')"
  using assms map_holds_update [OF assms(2), of holds_slot t] map_holds_update [OF assms(2), of holds_large t]
    map_holds_update [OF assms(2), of lost_slot t]
  by (simp add: slots_kept_def set_thread_def)

lemma slots_kept_step:
  assumes "serve_step sv read sent s s'" and "slots_kept n s"
  shows "slots_kept n s'"
  using assms by (induction rule: serve_step.induct) (erule slots_kept_set_thread; simp add: leave_def release_def)+

text \<open>Serving from the start: any number of steps.\<close>

inductive serve_steps ::
    "lake_server \<Rightarrow> (string \<Rightarrow> bytes res \<Rightarrow> bool) \<Rightarrow> (response \<Rightarrow> bool \<Rightarrow> bool) \<Rightarrow> serving \<Rightarrow> serving \<Rightarrow> bool"
  for sv :: lake_server and read :: "string \<Rightarrow> bytes res \<Rightarrow> bool" and sent :: "response \<Rightarrow> bool \<Rightarrow> bool" where
  none: "serve_steps sv read sent s s"
| more: "serve_steps sv read sent s s' \<Longrightarrow> serve_step sv read sent s' s'' \<Longrightarrow> serve_steps sv read sent s s''"

lemma slots_kept_steps: "serve_steps sv read sent s s' \<Longrightarrow> slots_kept n s \<Longrightarrow> slots_kept n s'"
  by (induction rule: serve_steps.induct) (auto intro: slots_kept_step)

lemma handler_for_Inr:
  "handler_for n timeout rqs = Inr s \<longleftrightarrow> 1 \<le> n \<and> n \<le> 64 \<and> 120 \<le> timeout \<and> timeout \<le> 1800 \<and>
     s = \<lparr>request_slots = nat n, large_block_slot = 1, threads = map Waiting rqs\<rparr>"
  by (auto simp: handler_for_def)

lemma slots_kept_start: "handler_for n timeout rqs = Inr s \<Longrightarrow> slots_kept (nat n) s"
  by (induction rqs arbitrary: s) (auto simp: handler_for_Inr slots_kept_def)

text \<open>A thread that is done, or lost, holds nothing it could still give back.\<close>

definition finished :: "thread \<Rightarrow> bool" where
  "finished t = (case t of Done r \<Rightarrow> True | Lost e \<Rightarrow> True | _ \<Rightarrow> False)"

lemma finished_holds: "finished t \<Longrightarrow> holds_slot t = 0 \<and> holds_large t = 0"
  by (cases t) (simp_all add: finished_def)

lemma sum_list_finished:
  "(\<And>t. finished t \<Longrightarrow> f t = 0) \<Longrightarrow> list_all finished ts \<Longrightarrow> sum_list (map f ts) = (0 :: nat)"
  by (induction ts) auto

lemma count_holding:
  assumes "\<And>t. f t \<le> Suc 0"
  shows "length (filter (\<lambda>t. f t = 1) ts) = sum_list (map f ts)"
proof (induction ts)
  case (Cons t ts)
  then show ?case using assms [of t] by (cases "f t") auto
qed simp

lemma holds_le_1: "holds_slot t \<le> Suc 0" "holds_large t \<le> Suc 0" "lost_slot t \<le> Suc 0"
  by (cases t; simp)+

lemmas running_count = count_holding [of holds_slot, OF holds_le_1(1)] count_holding [of holds_large, OF holds_le_1(2)]
  count_holding [of lost_slot, OF holds_le_1(3)]

section \<open>What a request is answered\<close>

lemma route_block:
  "route sv rq = Read_Block cid large \<longleftrightarrow>
     rq_path rq = ''/ipfs/'' @ cid \<and> rq_query rq = [] \<and> match_served_cid cid \<and>
     (large \<longleftrightarrow> LARGE_BLOCK_THRESHOLD < (case map_of (sv_sizes sv) cid of None \<Rightarrow> 0 | Some n \<Rightarrow> n))"
proof -
  have ipfs: "startswith p ''/ipfs/'' \<and> drop (length ''/ipfs/'') p = cid \<longleftrightarrow> p = ''/ipfs/'' @ cid" for p
  proof
    assume "startswith p ''/ipfs/'' \<and> drop (length ''/ipfs/'') p = cid"
    then show "p = ''/ipfs/'' @ cid" unfolding startswith_def by (metis append_take_drop_id)
  qed (simp add: startswith_def)
  have ne: "''/ipfs/'' @ cid \<noteq> ''/health''" "''/ipfs/'' @ cid \<noteq> ''/api/v1/lake/blocks''" by simp_all
  show ?thesis
  proof (cases "rq_path rq = ''/health'' \<or> rq_path rq = ''/api/v1/lake/blocks''")
    case True
    then show ?thesis using ne by (auto simp: route_def)
  next
    case False
    then show ?thesis using ipfs [of "rq_path rq"] by (auto simp: route_def Let_def)
  qed
qed

text \<open>What the request at a position may have come to: the answers its own route allows, on their way to the client
  or sent; a slot is lost by a malformed target only.\<close>

definition route_answer :: "lake_server \<Rightarrow> (string \<Rightarrow> bytes res \<Rightarrow> bool) \<Rightarrow> request \<Rightarrow> response res \<Rightarrow> bool" where
  "route_answer sv read rq r \<longleftrightarrow> \<not> rq_malformed rq \<and>
     (case route sv rq of
        Answer v \<Rightarrow> r = handled v
      | Read_Block cid large \<Rightarrow>
          large \<and> r = Inr (Http_Error 503 ''large block reader busy'') \<or>
          (\<exists>got. read cid got \<and> r = block_response got))"

fun thread_ok :: "lake_server \<Rightarrow> (string \<Rightarrow> bytes res \<Rightarrow> bool) \<Rightarrow> request \<Rightarrow> thread \<Rightarrow> bool" where
  "thread_ok sv read rq (Waiting rq') \<longleftrightarrow> rq' = rq"
| "thread_ok sv read rq (Admitted rq') \<longleftrightarrow> rq' = rq"
| "thread_ok sv read rq (Reading cid large) \<longleftrightarrow> \<not> rq_malformed rq \<and> route sv rq = Read_Block cid large"
| "thread_ok sv read rq (Writing slot large v) \<longleftrightarrow>
     (if slot then route_answer sv read rq (Inr v) else v = Http_Error 503 ''reader busy'')"
| "thread_ok sv read rq (Lost e) \<longleftrightarrow> rq_malformed rq \<and> e = ValueError"
| "thread_ok sv read rq (Done r) \<longleftrightarrow>
     r = Inl OSError \<or> r = Inr (Http_Error 503 ''reader busy'') \<or> route_answer sv read rq r"

lemma thread_ok_set:
  assumes "list_all2 P rqs (threads s)" and "threads s' = threads s"
    and "i < length (threads s) \<Longrightarrow> P (rqs ! i) (threads s ! i) \<Longrightarrow> P (rqs ! i) t"
  shows "list_all2 P rqs (threads (set_thread i t s'))"
proof (rule list_all2_all_nthI)
  show "length rqs = length (threads (set_thread i t s'))"
    using assms(1,2) by (simp add: set_thread_def list_all2_lengthD)
  fix j
  assume "j < length rqs"
  then have j: "j < length (threads s)" "P (rqs ! j) (threads s ! j)"
    using assms(1) by (auto simp: list_all2_conv_all_nth)
  then show "P (rqs ! j) (threads (set_thread i t s') ! j)"
    using assms(2,3) by (cases "j = i") (simp_all add: set_thread_def)
qed

lemma thread_ok_step:
  assumes "serve_step sv read sent s s'" and "list_all2 (thread_ok sv read) rqs (threads s)"
  shows "list_all2 (thread_ok sv read) rqs (threads s')"
  using assms by (induction rule: serve_step.induct)
    (erule thread_ok_set; fastforce simp: leave_def release_def route_answer_def split: if_splits)+

lemma thread_ok_steps:
  assumes "serve_steps sv read sent s s'" and "handler_for n timeout rqs = Inr s"
  shows "list_all2 (thread_ok sv read) rqs (threads s')"
  using assms
proof (induction rule: serve_steps.induct)
  case (none s)
  then show ?case by (auto simp: handler_for_Inr list_all2_conv_all_nth)
next
  case (more s s' s'')
  then show ?case by (blast intro: thread_ok_step)
qed

text \<open>What a thread answers its client: what it is writing, or has written.\<close>

fun answers :: "thread \<Rightarrow> response option" where
  "answers (Writing slot large v) = Some v"
| "answers (Done (Inr v)) = Some v"
| "answers _ = None"

text \<open>A block body is the answer to a request for a block, and what a read gave.\<close>

lemma octets_read:
  assumes "handler_for n timeout rqs = Inr s" and "serve_steps sv read sent s s'"
    and "i < length rqs" and "answers (threads s' ! i) = Some (Octets data)"
  obtains cid large where "route sv (rqs ! i) = Read_Block cid large" "read cid (Inr data)"
proof -
  have ok: "thread_ok sv read (rqs ! i) (threads s' ! i)"
    using thread_ok_steps [OF assms(2,1)] assms(3) by (metis list_all2_nthD)
  then have r: "route_answer sv read (rqs ! i) (Inr (Octets data))"
    using assms(4) by (cases "threads s' ! i" rule: answers.cases) (auto split: if_splits)
  show thesis
  proof (cases "route sv (rqs ! i)")
    case (Answer v)
    then have "handled v = Inr (Octets data)" using r by (simp add: route_answer_def)
    then show thesis using Answer by (auto simp: handled_Inr route_def Let_def res_simps split: if_splits)
  next
    case (Read_Block cid large)
    with r obtain got where "read cid got" "block_response got = Inr (Octets data)" by (auto simp: route_answer_def)
    then show thesis using that [OF Read_Block] by (simp add: block_response_Octets)
  qed
qed

section \<open>Slots, and the end of every request\<close>

text \<open>C6: whatever the interleaving, the free request slots, the threads that hold one and the threads that lost one
  add up to \<open>max_concurrent_requests\<close>, so that no more requests run at the same time, and at most one of them has
  the slot for large blocks; slots are held while the response is written. A slot is lost exactly by the requests
  whose target \<open>urlsplit\<close> refuses, which are answered only while all slots are taken. So when every request has
  ended, by a response of any kind, by an exception or by a client that went away, all slots but those are free
  again, and after \<open>max_concurrent_requests\<close> such targets none ever is.\<close>

theorem request_slots_accounted:
  assumes "handler_for n timeout rqs = Inr s" and "serve_steps sv read sent s s'"
  shows "request_slots s' + length (filter (\<lambda>t. holds_slot t = 1) (threads s')) +
      length (filter (\<lambda>t. lost_slot t = 1) (threads s')) = nat n \<and>
    large_block_slot s' + length (filter (\<lambda>t. holds_large t = 1) (threads s')) = 1 \<and>
    (\<forall>i < length rqs. lost_slot (threads s' ! i) = 1 \<longleftrightarrow>
      rq_malformed (rqs ! i) \<and> finished (threads s' ! i) \<and>
        threads s' ! i \<notin> {Done (Inr (Http_Error 503 ''reader busy'')), Done (Inl OSError)}) \<and>
    (list_all finished (threads s') \<longrightarrow> large_block_slot s' = 1 \<and>
      request_slots s' + length (filter (\<lambda>t. lost_slot t = 1) (threads s')) = nat n)"
proof -
  have kept: "slots_kept (nat n) s'"
    using slots_kept_steps [OF assms(2) slots_kept_start [OF assms(1)]] .
  have all: "sum_list (map holds_slot (threads s')) = 0 \<and> sum_list (map holds_large (threads s')) = 0"
    if "list_all finished (threads s')"
    using sum_list_finished [OF _ that, of holds_slot] sum_list_finished [OF _ that, of holds_large]
      finished_holds by simp
  have "lost_slot t = 1 \<longleftrightarrow> rq_malformed rq \<and> finished t \<and>
      t \<notin> {Done (Inr (Http_Error 503 ''reader busy'')), Done (Inl OSError)}" if "thread_ok sv read rq t" for rq t
    using that by (cases t) (auto simp: finished_def route_answer_def)
  then have lost: "\<forall>i < length rqs. lost_slot (threads s' ! i) = 1 \<longleftrightarrow>
      rq_malformed (rqs ! i) \<and> finished (threads s' ! i) \<and>
        threads s' ! i \<notin> {Done (Inr (Http_Error 503 ''reader busy'')), Done (Inl OSError)}"
    using thread_ok_steps [OF assms(2,1)] by (blast dest: list_all2_nthD)
  have "list_all finished (threads s') \<longrightarrow> large_block_slot s' = 1 \<and>
      request_slots s' + sum_list (map lost_slot (threads s')) = nat n"
    using kept all unfolding slots_kept_def by (metis add.right_neutral)
  with kept lost show ?thesis unfolding running_count by (simp add: slots_kept_def)
qed

text \<open>Steps a thread still has to take.\<close>

fun steps_left :: "thread \<Rightarrow> nat" where
  "steps_left (Waiting rq) = 4"
| "steps_left (Admitted rq) = 3"
| "steps_left (Reading cid large) = 2"
| "steps_left (Writing slot large v) = 1"
| "steps_left (Lost e) = 0"
| "steps_left (Done r) = 0"

lemma steps_left_set_thread:
  assumes "i < length (threads s)" and "threads s' = threads s" and "steps_left t < steps_left (threads s ! i)"
  shows "sum_list (map steps_left (threads (set_thread i t s'))) < sum_list (map steps_left (threads s)) \<and>
    length (threads (set_thread i t s')) = length (threads s)"
  using assms map_holds_update [OF assms(1), of steps_left t] by (simp add: set_thread_def)

lemma serve_step_measure:
  assumes "serve_step sv read sent s s'"
  shows "sum_list (map steps_left (threads s')) < sum_list (map steps_left (threads s)) \<and>
    length (threads s') = length (threads s)"
  using assms by (induction rule: serve_step.induct) (erule steps_left_set_thread; simp add: leave_def release_def)+

lemma admitted_enabled:
  assumes "i < length (threads s)" and "threads s ! i = Admitted rq"
  shows "\<exists>s'. serve_step sv read sent s s'"
proof (cases "rq_malformed rq")
  case True
  then show ?thesis using malformed [OF assms] by blast
next
  case False
  note here = assms False
  show ?thesis
  proof (cases "route sv rq")
    case (Answer r)
    then show ?thesis using answer [OF here] answer_raises [OF here] by (cases "handled r") blast+
  next
    case (Read_Block cid large)
    consider "large" "large_block_slot s = 0" | "large" "0 < large_block_slot s" | "\<not> large" by blast
    then show ?thesis
    proof cases
      case 1
      then show ?thesis using large_busy [OF here, of sv cid read sent] Read_Block by auto
    next
      case 2
      then show ?thesis using start_large [OF here, of sv cid read sent] Read_Block by auto
    next
      case 3
      then show ?thesis using start [OF here, of sv cid read sent] Read_Block by auto
    qed
  qed
qed

lemma serve_step_enabled:
  assumes "i < length (threads s)" and "\<not> finished (threads s ! i)"
    and "\<And>cid. \<exists>r. read cid r" and "\<And>v. \<exists>ok. sent v ok"
  shows "\<exists>s'. serve_step sv read sent s s'"
proof (cases "threads s ! i")
  case (Waiting rq)
  then show ?thesis using busy [OF assms(1) Waiting] admit [OF assms(1) Waiting]
    by (cases "request_slots s") blast+
next
  case (Admitted rq)
  with assms(1) show ?thesis by (rule admitted_enabled)
next
  case (Reading cid large)
  obtain r where r: "read cid r" using assms(3) by blast
  show ?thesis
  proof (cases "block_response r")
    case (Inl e)
    with assms(1) Reading r show ?thesis by (intro exI) (rule read_raises)
  next
    case (Inr v)
    with assms(1) Reading r show ?thesis by (intro exI) (rule got)
  qed
next
  case (Writing slot large v)
  obtain ok where "sent v ok" using assms(4) by blast
  with assms(1) Writing show ?thesis by (intro exI) (rule finish)
qed (use assms(2) in \<open>simp_all add: finished_def\<close>)

lemma serve_steps_trans:
  "serve_steps sv read sent s' s'' \<Longrightarrow> serve_steps sv read sent s s' \<Longrightarrow> serve_steps sv read sent s s''"
  by (induction rule: serve_steps.induct) (auto intro: serve_steps.more)

lemma serve_to_end:
  assumes "\<And>cid. \<exists>r. read cid r" and "\<And>v. \<exists>ok. sent v ok"
  shows "\<exists>s'. serve_steps sv read sent s s' \<and> list_all finished (threads s') \<and>
    length (threads s') = length (threads s)"
proof (induction "sum_list (map steps_left (threads s))" arbitrary: s rule: less_induct)
  case less
  show ?case
  proof (cases "list_all finished (threads s)")
    case True
    then show ?thesis using serve_steps.none by blast
  next
    case False
    then obtain i where "i < length (threads s)" "\<not> finished (threads s ! i)"
      by (auto simp: list_all_length)
    then have "\<exists>s1. serve_step sv read sent s s1" using assms by (rule serve_step_enabled)
    then obtain s1 where step: "serve_step sv read sent s s1" by blast
    with serve_step_measure [OF step] less.hyps [of s1] obtain s' where
      "serve_steps sv read sent s1 s'" "list_all finished (threads s')" "length (threads s') = length (threads s)"
      by auto
    moreover have "serve_steps sv read sent s s1" using serve_steps.none step by (rule serve_steps.more)
    ultimately show ?thesis using serve_steps_trans by blast
  qed
qed

text \<open>C7: the handlers do not deadlock. If each block read ends, in whatever way, and each write of a response to a
  client ends, by success or by an error, then from every state the server can reach every request can be brought
  to its end. Under every interleaving, and without a condition, only finitely many steps are taken. (The socket
  has a timeout for large blocks only, so the second condition is one on the clients.)\<close>

theorem every_request_ends:
  assumes "handler_for n timeout rqs = Inr s" and "serve_steps sv read sent s s'"
    and "\<forall>cid. \<exists>r. read cid r" and "\<forall>v. \<exists>ok. sent v ok"
  shows "(\<exists>s''. serve_steps sv read sent s' s'' \<and> list_all finished (threads s'') \<and>
      length (threads s'') = length rqs) \<and>
    wfp (\<lambda>after before. serve_step sv read sent before after)"
proof
  have len: "length (threads s') = length rqs"
  proof -
    have "length (threads s') = length (threads s)" using assms(2)
      by (induction rule: serve_steps.induct) (simp_all add: serve_step_measure)
    then show ?thesis using assms(1) by (simp add: handler_for_Inr)
  qed
  show "\<exists>s''. serve_steps sv read sent s' s'' \<and> list_all finished (threads s'') \<and>
      length (threads s'') = length rqs"
    using serve_to_end [OF assms(3) [rule_format] assms(4) [rule_format], where sv = sv and s = s'] len by simp
  show "wfp (\<lambda>after before. serve_step sv read sent before after)"
    by (rule wfp_if_convertible_to_nat [of _ "\<lambda>s. sum_list (map steps_left (threads s))"])
      (simp add: serve_step_measure)
qed

section \<open>What a reader with one inventory serves\<close>

text \<open>The reads of a reader process with one inventory: \<open>local_read\<close> with a receipt index that is not
  older than the directories say.\<close>

definition local_reads :: "pylib \<Rightarrow> block_reader \<Rightarrow> string \<Rightarrow> bytes res \<Rightarrow> bool" where
  "local_reads py rd cid r \<longleftrightarrow> (\<exists>st. index_current py rd st \<and> fst (local_read py rd st cid) = r)"

text \<open>Whatever requests run at the same time, a request that is answered with a block body asked for
  \<open>/ipfs/<cid>\<close> with a well-formed CID of the inventory, and the body has the size the inventory gives,
  not more than the API limit, and the SHA-256 digest inside that CID.\<close>

theorem served_bytes_match_cid:
  assumes "handler_for n timeout rqs = Inr s" and "serve_steps sv (local_reads py rd) sent s s'"
    and "i < length rqs" and "answers (threads s' ! i) = Some (Octets data)"
  shows "\<exists>cid expected. rq_path (rqs ! i) = ''/ipfs/'' @ cid \<and> match_served_cid cid \<and>
    map_of (inv_sizes (br_inventory rd)) cid = Some expected \<and> int (length data) = expected \<and>
    expected \<le> br_max_block_bytes rd \<and> sha256_digest cid = Inr (sha256 py data)"
proof -
  from assms obtain cid large where path: "route sv (rqs ! i) = Read_Block cid large"
    and "local_reads py rd cid (Inr data)" by (rule octets_read)
  then obtain st st' where "index_current py rd st" "local_read py rd st cid = (Inr data, st')"
    by (metis local_reads_def surjective_pairing)
  from local_read_Inr [OF this(2,1)] path show ?thesis by (auto simp: route_block)
qed

section \<open>A concrete run\<close>

definition lake_http :: lake_server where
  "lake_http = file_server lake_py lake_inventory (lake_identity, [1, 10, 2, 10])"

definition block_request :: request where
  "block_request = \<lparr>rq_malformed = False, rq_path = ''/ipfs/'' @ sample_cid2, rq_query = [], rq_params = []\<rparr>"

definition one_thread :: "thread \<Rightarrow> nat \<Rightarrow> serving" where
  "one_thread t slots = \<lparr>request_slots = slots, large_block_slot = 1, threads = [t]\<rparr>"

lemma one_thread_start: "handler_for 1 120 [block_request] = Inr (one_thread (Waiting block_request) 1)"
  by (simp add: handler_for_Inr one_thread_def)

lemma one_block_served:
  assumes "\<not> rq_malformed rq" and "route sv rq = Read_Block cid False" and "read cid (Inr data)" and "sent (Octets data) True"
  shows "serve_steps sv read sent (one_thread (Waiting rq) 1) (one_thread (Done (Inr (Octets data))) 1)"
proof -
  have "serve_step sv read sent (one_thread (Writing True False (Octets data)) 0) (one_thread (Done (Inr (Octets data))) 1)"
    using finish [of 0 "one_thread (Writing True False (Octets data)) 0" True False "Octets data" sent True sv read] assms(4)
    by (simp add: one_thread_def set_thread_def leave_def release_def)
  moreover have "serve_step sv read sent (one_thread (Reading cid False) 0) (one_thread (Writing True False (Octets data)) 0)"
    using got [of 0 "one_thread (Reading cid False) 0" cid False read "Inr data" "Octets data" sv sent] assms(3)
    by (simp add: one_thread_def set_thread_def block_response_def)
  moreover have "serve_step sv read sent (one_thread (Admitted rq) 0) (one_thread (Reading cid False) 0)"
    using start [of 0 "one_thread (Admitted rq) 0", OF _ _ assms(1,2)]
    by (simp add: one_thread_def set_thread_def)
  moreover have "serve_step sv read sent (one_thread (Waiting rq) 1) (one_thread (Admitted rq) 0)"
    using admit [of 0 "one_thread (Waiting rq) 1"] by (simp add: one_thread_def set_thread_def)
  ultimately show ?thesis by (meson serve_steps.more serve_steps.none)
qed

text \<open>Clients that read what they are sent.\<close>

definition all_sent :: "response \<Rightarrow> bool \<Rightarrow> bool" where "all_sent v ok \<longleftrightarrow> ok"

lemma one_request_run:
  "serve_steps lake_http (local_reads receipt_py lake_reader) all_sent (one_thread (Waiting block_request) 1)
     (one_thread (Done (Inr (Octets [1, 2]))) 1)"
proof (rule one_block_served)
  show "\<not> rq_malformed block_request" by (simp add: block_request_def)
  show "route lake_http block_request = Read_Block sample_cid2 False" by code_simp
  show "local_reads receipt_py lake_reader sample_cid2 (Inr [1, 2])"
    unfolding local_reads_def using lake_reader_facts(1,3) by (intro exI [of _ closed_receipts]) simp
qed (simp add: all_sent_def)

text \<open>A malformed target: with one slot configured, the reader is busy from then on.\<close>

definition bad_request :: request where
  "bad_request = \<lparr>rq_malformed = True, rq_path = [], rq_query = [], rq_params = []\<rparr>"

lemma bad_request_run:
  "serve_steps sv read sent (one_thread (Waiting bad_request) 1) (one_thread (Lost ValueError) 0)"
proof -
  have "serve_step sv read sent (one_thread (Admitted bad_request) 0) (one_thread (Lost ValueError) 0)"
    using malformed [of 0 "one_thread (Admitted bad_request) 0"] by (simp add: one_thread_def set_thread_def bad_request_def)
  moreover have "serve_step sv read sent (one_thread (Waiting bad_request) 1) (one_thread (Admitted bad_request) 0)"
    using admit [of 0 "one_thread (Waiting bad_request) 1"] by (simp add: one_thread_def set_thread_def)
  ultimately show ?thesis by (meson serve_steps.more serve_steps.none)
qed

theorem request_slots_accounted_witness:
  "request_slots (one_thread (Done (Inr (Octets [1, 2]))) 1) = 1 \<and>
   request_slots (one_thread (Lost ValueError) 0) + 1 = 1 \<and> rq_malformed bad_request"
proof -
  have bad: "handler_for 1 120 [bad_request] = Inr (one_thread (Waiting bad_request) 1)"
    by (simp add: handler_for_Inr one_thread_def)
  from request_slots_accounted [OF one_thread_start one_request_run]
    request_slots_accounted [OF bad bad_request_run [of lake_http "local_reads receipt_py lake_reader" all_sent]]
  show ?thesis by (simp add: one_thread_def bad_request_def finished_def)
qed

theorem every_request_ends_witness:
  "\<exists>s''. serve_steps lake_http (local_reads receipt_py lake_reader) all_sent (one_thread (Waiting block_request) 1) s'' \<and>
     list_all finished (threads s'')"
proof -
  have "\<forall>cid. \<exists>r. local_reads receipt_py lake_reader cid r" "\<forall>v. \<exists>ok. all_sent v ok"
    unfolding local_reads_def all_sent_def using lake_reader_facts(3) by blast+
  from every_request_ends [OF one_thread_start serve_steps.none this] show ?thesis by blast
qed

theorem served_bytes_match_cid_witness:
  "sha256_digest sample_cid2 = Inr (sha256 receipt_py [1, 2]) \<and>
   map_of (inv_sizes (br_inventory lake_reader)) sample_cid2 = Some 2"
proof -
  have "\<exists>cid expected. rq_path ([block_request] ! 0) = ''/ipfs/'' @ cid \<and> match_served_cid cid \<and>
      map_of (inv_sizes (br_inventory lake_reader)) cid = Some expected \<and>
      int (length [1, 2 :: byte]) = expected \<and> expected \<le> br_max_block_bytes lake_reader \<and>
      sha256_digest cid = Inr (sha256 receipt_py [1, 2])"
    by (rule served_bytes_match_cid [OF one_thread_start one_request_run]) (simp_all add: one_thread_def)
  then show ?thesis by (simp add: block_request_def)
qed

end
