(* ===== verification/Router_Standby.thy ===== *)
theory Router_Standby
  imports Actions Text_Search
begin

text \<open>
  \<open>deploy/router_standby.py\<close>: the check of the shared HTTPS port mapping and the cutover between the two
  gateways. The programs \<open>upnpc\<close> and \<open>curl\<close> are run through a \<open>runner\<close>; the failure counter lives in a
  file. Shown: when a cutover can happen, what it does to the mapping, and when it leaves it alone.
\<close>

section \<open>Configuration\<close>

definition PUBLIC_IP :: string where "PUBLIC_IP = ''220.146.170.114''"
definition XAVIER_IP :: string where "XAVIER_IP = ''192.168.1.28''"
definition GAD_IP :: string where "GAD_IP = ''192.168.1.16''"

definition SITES :: "(string \<times> string) list" where
  "SITES =
     [(''yataverse-data.220-146-170-114.sslip.io'',
       ''2fd28ac84111bd181090f4ea712f8988c80dbad9162edf52c108865a3b636e97''),
      (''isekai-static.220-146-170-114.sslip.io'',
       ''5e3fc8703c96bbdb308974cb96559185bbd23748aa3a060ad973d5ca6385fe83''),
      (''itonami-static.220-146-170-114.sslip.io'',
       ''1c1232c376f79e7e53af01ec7d85cfbfb2f4b9ee0691d4b2c1e600fcfbaa4539'')]"

section \<open>Commands\<close>

text \<open>\<open>command\<close>: the standard output of a program, or \<open>Refused\<close>.\<close>

definition standby_command :: "'w runner \<Rightarrow> string list \<Rightarrow> ('w, bytes) action" where
  "standby_command run argv w =
     (case run argv w of
        (Inr (rc, out), w) \<Rightarrow>
          (if rc \<noteq> 0 then Inl (RefusedError (''command failed: '' @ hd argv)) else Inr out, w)
      | (Inl e, w) \<Rightarrow>
          (Inl (if e = OSError \<or> e = TimeoutExpired then RefusedError (''command unavailable: '' @ hd argv) else e), w))"

definition curl_argv :: "string \<Rightarrow> string \<Rightarrow> string list" where
  "curl_argv host ip =
     [''curl'', ''-fLsS'', ''--noproxy'', ''*'', ''--connect-timeout'', ''2'', ''--max-time'', ''7'',
      ''--proto'', ''=https'', ''--resolve'', host @ '':443:'' @ ip, ''https://'' @ host @ ''/'']"

definition refused :: "exn \<Rightarrow> bool" where
  "refused e = (case e of RefusedError _ \<Rightarrow> True | _ \<Rightarrow> False)"

text \<open>The loop of \<open>gateway_healthy\<close>.\<close>

fun healthy_sites :: "pylib \<Rightarrow> 'w runner \<Rightarrow> string \<Rightarrow> (string \<times> string) list \<Rightarrow> ('w, bool) action" where
  "healthy_sites py run ip [] w = (Inr True, w)"
| "healthy_sites py run ip ((host, expected) # sites) w =
     (case standby_command run (curl_argv host ip) w of
        (Inl e, w) \<Rightarrow> (if refused e then Inr False else Inl e, w)
      | (Inr body, w) \<Rightarrow>
          if hex (sha256 py body) \<noteq> expected then (Inr False, w) else healthy_sites py run ip sites w)"

definition gateway_healthy :: "pylib \<Rightarrow> 'w runner \<Rightarrow> string \<Rightarrow> ('w, bool) action" where
  "gateway_healthy py run ip = healthy_sites py run ip SITES"

section \<open>The router's answer\<close>

definition ip_char :: "char \<Rightarrow> bool" where
  "ip_char c \<longleftrightarrow> ascii_digit c \<or> c = CHR ''.''"

definition external_ip_pattern :: "rx list" where
  "external_ip_pattern =
     [RLine_Start] @ rx_text ''ExternalIPAddress'' @ [RStar ascii_space] @ rx_text ''='' @
     [RStar ascii_space, ROpen] @ rx_plus (\<lambda>c. \<not> ascii_space c) @ [RClose, RStar ascii_space, RLine_End]"

definition mapping_pattern :: "rx list" where
  "mapping_pattern =
     [RLine_Start, RStar ascii_space] @ rx_plus ascii_digit @ rx_plus ascii_space @ rx_text ''TCP'' @
     rx_plus ascii_space @ rx_text ''8443->'' @ [ROpen] @ rx_plus ip_char @ [RClose] @ rx_text '':'' @
     [ROpen] @ rx_plus ascii_digit @ [RClose, RWord_Boundary]"

definition router_mapping :: "bytes \<Rightarrow> string option res" where
  "router_mapping out =
     (let text = text_of out in
      if rx_search external_ip_pattern [] text \<noteq> Some [PUBLIC_IP]
      then Inl (RefusedError ''router public IPv4 differs from configured address'')
      else
        case rx_findall mapping_pattern [] text of
          [] \<Rightarrow> Inr None
        | [[target, port]] \<Rightarrow>
            if (target \<noteq> XAVIER_IP \<and> target \<noteq> GAD_IP) \<or> port \<noteq> ''443''
            then Inl (RefusedError ''router HTTPS mapping has unexpected owner'')
            else Inr (Some target)
        | _ \<Rightarrow> Inl (RefusedError ''router has multiple HTTPS mappings''))"

section \<open>The decision\<close>

datatype standby_action =
    Restore_Primary | Keep_Primary | Wait_For_Confirmation | Take_Over | Renew_Standby

text \<open>\<open>standby\<close> is \<open>None\<close> when it was not checked, which \<open>not\<close> takes for unhealthy.\<close>

definition decide :: "bool \<Rightarrow> bool option \<Rightarrow> int \<Rightarrow> string option \<Rightarrow> bool \<Rightarrow> standby_action res" where
  "decide primary standby failures mapping listener =
     (if primary then Inr (if mapping \<noteq> Some XAVIER_IP then Restore_Primary else Keep_Primary)
      else if failures < 3 then Inr Wait_For_Confirmation
      else if listener
      then Inl (RefusedError ''primary HTTPS listener is still active; renewal may contend'')
      else if standby \<noteq> Some True then Inl (RefusedError ''standby gateway failed its own content check'')
      else Inr (if mapping \<noteq> Some GAD_IP then Take_Over else Renew_Standby))"

definition require_cutover_opt_in :: "standby_action \<Rightarrow> bool \<Rightarrow> unit res" where
  "require_cutover_opt_in act allowed =
     (if (act = Restore_Primary \<or> act = Take_Over) \<and> \<not> allowed
      then Inl (RefusedError (''router cutover disabled after 8443 conflict; use --allow-router-cutover '' @
        ''only during supervised maintenance'')) else Inr ())"

section \<open>The failure counter\<close>

definition COUNTER_KEY :: string where "COUNTER_KEY = ''consecutive-primary-failures''"

definition load_failures :: "pylib \<Rightarrow> fs \<Rightarrow> path \<Rightarrow> int res" where
  "load_failures py fs path =
     (if \<not> exists_path fs path then Inr 0
      else
        case rbind (rbind (read_bytes fs path) (json_loads py)) (\<lambda>v. jsub v COUNTER_KEY) of
          Inl e \<Rightarrow> Inl (if e \<in> {OSError, KeyError, ValueError, TypeError}
            then RefusedError ''standby state unreadable'' else e)
        | Inr v \<Rightarrow>
            case as_int v of
              None \<Rightarrow> Inl (RefusedError ''standby state has invalid failure count'')
            | Some n \<Rightarrow>
                if n < 0 then Inl (RefusedError ''standby state has invalid failure count'') else Inr n)"

text \<open>\<open>save_failures\<close>, for a \<open>state.json\<close>: \<open>with_suffix\<close> replaces the last suffix of the name.\<close>

definition counter_text :: "pylib \<Rightarrow> int \<Rightarrow> bytes" where
  "counter_text py n = json_dumps py (JDict [(COUNTER_KEY, JInt n)]) @ [10]"

definition save_failures :: "pylib \<Rightarrow> path \<Rightarrow> int \<Rightarrow> step list" where
  "save_failures py dir n =
     map Mkdir (ancestors dir) @
     [Create (dir @ [''state.tmp'']) (counter_text py n),
      Rename (dir @ [''state.tmp'']) (dir @ [''state.json'']) (counter_text py n)]"

section \<open>Changing the mapping\<close>

definition upnpc_list :: "string list" where "upnpc_list = [''upnpc'', ''-l'']"
definition upnpc_delete :: "string list" where "upnpc_delete = [''upnpc'', ''-d'', ''8443'', ''TCP'']"

definition upnpc_add :: "string \<Rightarrow> string list" where
  "upnpc_add target = [''upnpc'', ''-a'', target, ''443'', ''8443'', ''TCP'', ''900'']"

definition listed_mapping :: "'w runner \<Rightarrow> ('w, string option) action" where
  "listed_mapping run = abind (standby_command run upnpc_list) (\<lambda>out. alift (router_mapping out))"

definition remove_mapping :: "'w runner \<Rightarrow> ('w, unit) action" where
  "remove_mapping run =
     abind (standby_command run upnpc_delete) (\<lambda>_.
     abind (listed_mapping run) (\<lambda>mapping.
       if mapping \<noteq> None then araise (RefusedError ''router refused to remove old HTTPS mapping'')
       else areturn ()))"

definition add_mapping :: "'w runner \<Rightarrow> string \<Rightarrow> ('w, unit) action" where
  "add_mapping run target =
     abind (standby_command run (upnpc_add target)) (\<lambda>_.
     abind (listed_mapping run) (\<lambda>mapping.
       if mapping \<noteq> Some target then araise (RefusedError ''router did not confirm new HTTPS mapping'')
       else areturn ()))"

definition set_mapping :: "'w runner \<Rightarrow> string \<Rightarrow> string option \<Rightarrow> ('w, unit) action" where
  "set_mapping run target current =
     (let replacing = current \<noteq> None \<and> current \<noteq> Some target in
      abind (if replacing then remove_mapping run else areturn ()) (\<lambda>_ w.
        case add_mapping run target w of
          (Inr u, w) \<Rightarrow> (Inr u, w)
        | (Inl e, w) \<Rightarrow>
            if refused e \<and> replacing then
              (case standby_command run (upnpc_add (the current)) w of
                 (r, w) \<Rightarrow> (case r of
                     Inl e2 \<Rightarrow> if refused e2 then Inl e else Inl e2
                   | Inr _ \<Rightarrow> Inl e, w))
            else (Inl e, w)))"

section \<open>One check\<close>

record standby_args =
  sa_apply :: bool
  sa_allow_cutover :: bool
  sa_state_dir :: path

record standby_report =
  sr_action :: standby_action
  sr_primary :: bool
  sr_standby :: "bool option"
  sr_failures :: int
  sr_mapping :: "string option"

definition state_file :: "path \<Rightarrow> path" where "state_file dir = dir @ [''state.json'']"

text \<open>The part of \<open>main\<close> up to the decision; \<open>tcp\<close> is \<open>tcp_accepts(XAVIER_IP)\<close>.\<close>

definition standby_check ::
    "pylib \<Rightarrow> 'w runner \<Rightarrow> ('w \<Rightarrow> bool) \<Rightarrow> path \<Rightarrow> fs \<Rightarrow> ('w, standby_report) action" where
  "standby_check py run tcp dir fs =
     abind (listed_mapping run) (\<lambda>mapping.
     abind (gateway_healthy py run XAVIER_IP) (\<lambda>primary.
     abind (alift (if primary then Inr 0
         else rbind (load_failures py fs (state_file dir)) (\<lambda>n. Inr (n + 1)))) (\<lambda>failures.
     abind (if \<not> primary \<and> 3 \<le> failures
         then abind (gateway_healthy py run GAD_IP) (\<lambda>b. areturn (Some b))
         else areturn None) (\<lambda>standby w.
       (rbind (decide primary standby failures mapping (if \<not> primary \<and> 3 \<le> failures then tcp w else False))
          (\<lambda>act. Inr \<lparr>sr_action = act, sr_primary = primary, sr_standby = standby,
             sr_failures = failures, sr_mapping = mapping\<rparr>), w)))))"

definition standby_target :: "standby_action \<Rightarrow> string option" where
  "standby_target act =
     (case act of Restore_Primary \<Rightarrow> Some XAVIER_IP | Take_Over \<Rightarrow> Some GAD_IP
      | Renew_Standby \<Rightarrow> Some GAD_IP | _ \<Rightarrow> None)"

text \<open>\<open>main\<close>: the report it prints, or why it refuses, with the files and the world after it. \<open>lock_free\<close>
  tells whether \<open>flock\<close> succeeds.\<close>

definition standby_main ::
    "pylib \<Rightarrow> 'w runner \<Rightarrow> ('w \<Rightarrow> bool) \<Rightarrow> standby_args \<Rightarrow> bool \<Rightarrow> fs \<times> 'w \<Rightarrow> standby_report res \<times> fs \<times> 'w" where
  "standby_main py run tcp args lock_free s =
     (case mkdirs (sa_state_dir args) (fst s) of Inl e \<Rightarrow> (Inl e, s) | Inr fs \<Rightarrow>
      let fs = run_step (Create (sa_state_dir args @ [''check.lock'']) []) fs in
      if \<not> lock_free then (Inl (RefusedError ''Resource temporarily unavailable''), fs, snd s)
      else case standby_check py run tcp (sa_state_dir args) fs (snd s) of
        (Inl e, w) \<Rightarrow> (Inl e, fs, w)
      | (Inr rep, w) \<Rightarrow>
          if \<not> sa_apply args then (Inr rep, fs, w)
          else case require_cutover_opt_in (sr_action rep) (sa_allow_cutover args) of
            Inl e \<Rightarrow> (Inl e, fs, w)
          | Inr _ \<Rightarrow>
              let fs = run_steps (save_failures py (sa_state_dir args) (sr_failures rep)) fs in
              case standby_target (sr_action rep) of
                None \<Rightarrow> (Inr rep, fs, w)
              | Some target \<Rightarrow>
                  (case set_mapping run target (sr_mapping rep) w of
                     (r, w) \<Rightarrow> (rbind r (\<lambda>_. Inr rep), fs, w)))"

section \<open>Commands that were issued\<close>

text \<open>A set of commands that contains every command issued so far.\<close>

definition issued :: "(string list \<Rightarrow> bool) \<Rightarrow> 'w \<times> string list list \<Rightarrow> bool" where
  "issued A s \<longleftrightarrow> (\<forall>argv \<in> set (snd s). A argv)"

lemma keeps_command: "A argv \<Longrightarrow> keeps (issued A) (standby_command (logged run) argv)"
  by (auto simp: keeps_def issued_def standby_command_def logged_def split: prod.splits sum.splits)

lemma keeps_listed: "A upnpc_list \<Longrightarrow> keeps (issued A) (listed_mapping (logged run))"
  unfolding listed_mapping_def by (intro keeps_intros keeps_command)

lemma keeps_sites:
  assumes "\<And>host. A (curl_argv host ip)"
  shows "keeps (issued A) (healthy_sites py (logged run) ip sites)"
proof -
  have "issued A s \<Longrightarrow> issued A (snd (healthy_sites py (logged run) ip sites s))" for s
  proof (induction sites arbitrary: s)
    case (Cons site sites)
    obtain host expected where site: "site = (host, expected)" by (cases site)
    have "issued A (snd (standby_command (logged run) (curl_argv host ip) s))"
      using keeps_command [where A = A and argv = "curl_argv host ip" and run = run, OF assms] Cons.prems
      unfolding keeps_def by blast
    then show ?case using Cons.IH by (auto simp: site split: prod.splits sum.splits)
  qed simp
  then show ?thesis by (simp add: keeps_def)
qed

text \<open>What a check may run: the listing and the content checks.\<close>

definition harmless :: "string list \<Rightarrow> bool" where
  "harmless argv \<longleftrightarrow> argv \<noteq> upnpc_delete \<and> (\<forall>t. argv = upnpc_add t \<longrightarrow> t = GAD_IP)"

lemma harmless_simps [simp]:
  "harmless upnpc_list" "harmless (curl_argv host ip)" "harmless (upnpc_add GAD_IP)"
  by (simp_all add: harmless_def upnpc_list_def upnpc_add_def upnpc_delete_def curl_argv_def)

lemma standby_check_harmless: "keeps (issued harmless) (standby_check py (logged run) tcp dir fs)"
  unfolding standby_check_def gateway_healthy_def
  by (intro keeps_intros keeps_listed keeps_sites) (simp_all add: keeps_def)

text \<open>Without the opt-in, the only change \<open>set_mapping\<close> is asked for is the renewal of an existing mapping.\<close>

lemma set_mapping_same: "set_mapping run target (Some target) = add_mapping run target"
  by (rule ext) (simp add: set_mapping_def abind_def split: prod.split sum.split)

lemma renew_harmless: "keeps (issued harmless) (set_mapping (logged run) GAD_IP (Some GAD_IP))"
  unfolding set_mapping_same add_mapping_def by (intro keeps_intros keeps_command keeps_listed) simp_all

lemma check_renews:
  "standby_check py run tcp dir fs w = (Inr rep, w') \<Longrightarrow> sr_action rep = Renew_Standby \<Longrightarrow>
    sr_mapping rep = Some GAD_IP"
  by (auto simp: standby_check_def action_dest res_simps decide_def split: if_splits)

text \<open>C39: unless it is started with both \<open>--apply\<close> and \<open>--allow-router-cutover\<close>, the check never
  removes a mapping and never adds one except to renew the one of the standby: whatever the router and
  the gateways answer, no other \<open>upnpc\<close> change is issued.\<close>

theorem no_cutover_without_opt_in:
  assumes "standby_main py (logged run) tcp args lock_free (fs, (w, [])) = (r, fs', (w', log))"
    and "\<not> (sa_apply args \<and> sa_allow_cutover args)"
  shows "upnpc_delete \<notin> set log \<and> (\<forall>t. upnpc_add t \<in> set log \<longrightarrow> t = GAD_IP)"
proof -
  have start: "issued harmless (w, [])" by (simp add: issued_def)
  have "issued harmless (w', log)"
  proof (cases "mkdirs (sa_state_dir args) fs")
    case (Inl e)
    then show ?thesis using assms(1) start by (simp add: standby_main_def)
  next
    case (Inr fs1)
    let ?check = "standby_check py (logged run) tcp (sa_state_dir args)
      (run_step (Create (sa_state_dir args @ [''check.lock'']) []) fs1) (w, [])"
    obtain c s where check: "?check = (c, s)" by (cases ?check)
    have s: "issued harmless s" by (rule keepsD [OF standby_check_harmless start check])
    show ?thesis
    proof (cases c)
      case (Inl e)
      then show ?thesis using assms(1) start s check Inr by (auto simp: standby_main_def Let_def split: if_splits)
    next
      case rep: (Inr rep)
      have "issued harmless (snd (set_mapping (logged run) GAD_IP (Some GAD_IP) s))"
        using renew_harmless s unfolding keeps_def by blast
      then show ?thesis
        using assms start s check Inr rep check_renews [of py "logged run" tcp]
        by (cases "sr_action rep")
          (auto simp: standby_main_def Let_def require_cutover_opt_in_def standby_target_def
            split: if_splits prod.splits)
    qed
  qed
  then show ?thesis by (auto simp: issued_def harmless_def)
qed

section \<open>Replacing a mapping\<close>

lemma command_Inr: "standby_command run argv w = (Inr out, w') \<longleftrightarrow> run argv w = (Inr (0, out), w')"
  by (auto simp: standby_command_def split: prod.splits sum.splits if_splits)

lemma add_mapping_Inr:
  "add_mapping run target s = (Inr (), s') \<longleftrightarrow>
     (\<exists>out1 s1 out2. run (upnpc_add target) s = (Inr (0, out1), s1) \<and>
        run upnpc_list s1 = (Inr (0, out2), s') \<and> router_mapping out2 = Inr (Some target))"
  unfolding add_mapping_def listed_mapping_def abind_Inr command_Inr by auto

lemma set_mapping_Inr:
  assumes "set_mapping run target current s = (Inr (), s')"
  shows "\<exists>s1. add_mapping run target s1 = (Inr (), s')"
proof -
  from assms obtain s1 where s1: "(case add_mapping run target s1 of
      (Inr u, w) \<Rightarrow> (Inr u, w)
    | (Inl e, w) \<Rightarrow>
        if refused e \<and> current \<noteq> None \<and> current \<noteq> Some target then
          (case standby_command run (upnpc_add (the current)) w of
             (r, w) \<Rightarrow> (case r of Inl e2 \<Rightarrow> if refused e2 then Inl e else Inl e2 | Inr _ \<Rightarrow> Inl e, w))
        else (Inl e, w)) = (Inr (), s')"
    unfolding set_mapping_def Let_def abind_Inr by blast
  obtain r s2 where "add_mapping run target s1 = (r, s2)" by (metis surj_pair)
  with s1 show ?thesis by (cases r) (auto split: if_splits prod.splits sum.splits)
qed

text \<open>A change that returns was confirmed: the last command was a listing, and the router listed the
  new owner.\<close>

theorem set_mapping_confirmed:
  assumes "set_mapping (logged run) target current s = (Inr (), s')"
  shows "last (snd s') = upnpc_list \<and>
    (\<exists>w out. run upnpc_list w = (Inr (0, out), fst s') \<and> router_mapping out = Inr (Some target))"
proof -
  from set_mapping_Inr [OF assms] obtain s1 out2 where "logged run upnpc_list s1 = (Inr (0, out2), s')"
    "router_mapping out2 = Inr (Some target)" by (auto simp: add_mapping_Inr)
  moreover from this have "run upnpc_list (fst s1) = (Inr (0, out2), fst s')"
    by (auto simp: logged_def split: prod.splits)
  moreover have "snd s' = snd s1 @ [upnpc_list]" using logged_log [of run upnpc_list s1] calculation(1) by simp
  ultimately show ?thesis by auto
qed

lemma command_log: "snd (snd (standby_command (logged run) argv s)) = snd s @ [argv]"
  unfolding standby_command_def by (simp add: logged_def split: prod.split sum.split)

text \<open>When a replacement fails after the old mapping was confirmed to be gone, the last command
  issued puts the old mapping back.\<close>

theorem failed_replacement_restores:
  assumes "set_mapping (logged run) target (Some old) s = (Inl (RefusedError m), s')" and "old \<noteq> target"
    and "remove_mapping (logged run) s = (Inr (), s1)"
  shows "last (snd s') = upnpc_add old"
proof -
  obtain r s2 where add: "add_mapping (logged run) target s1 = (r, s2)" by (metis surj_pair)
  obtain q s3 where undo: "standby_command (logged run) (upnpc_add old) s2 = (q, s3)" by (metis surj_pair)
  have set: "set_mapping (logged run) target (Some old) s =
      (case r of Inr _ \<Rightarrow> (Inr (), s2)
       | Inl e \<Rightarrow> if refused e
           then (case q of Inl e2 \<Rightarrow> if refused e2 then Inl e else Inl e2 | Inr _ \<Rightarrow> Inl e, s3) else (Inl e, s2))"
    using assms(2) by (simp add: set_mapping_def abind_def assms(3) add undo split: sum.split)
  have "snd s3 = snd s2 @ [upnpc_add old]" using command_log [of run "upnpc_add old" s2] by (simp add: undo)
  then show ?thesis using assms(1) unfolding set
    by (auto simp: refused_def split: sum.splits if_splits)
qed

text \<open>But when the old mapping was removed and the listing that should confirm it fails, nothing is
  put back: the change ends with the removal and the failed listing.\<close>

theorem unconfirmed_removal_not_restored:
  assumes "run upnpc_delete w = (Inr (0, out), w1)" and "run upnpc_list w1 = (Inl TimeoutExpired, w2)"
    and "old \<noteq> target"
  shows "\<exists>m. set_mapping (logged run) target (Some old) (w, []) =
    (Inl (RefusedError m), (w2, [upnpc_delete, upnpc_list]))"
proof -
  have "standby_command (logged run) upnpc_delete (w, []) = (Inr out, (w1, [upnpc_delete]))"
    unfolding standby_command_def by (simp add: logged_def assms(1))
  moreover have "\<exists>m. standby_command (logged run) upnpc_list (w1, [upnpc_delete]) =
      (Inl (RefusedError m), (w2, [upnpc_delete, upnpc_list]))"
    unfolding standby_command_def by (simp add: logged_def assms(2))
  ultimately show ?thesis
    using assms(3) by (auto simp: set_mapping_def abind_def remove_mapping_def listed_mapping_def)
qed

section \<open>The counter over many checks\<close>

text \<open>Whether a check saves the counter, and then what it saw of the primary.\<close>

definition recorded ::
    "pylib \<Rightarrow> 'w runner \<Rightarrow> ('w \<Rightarrow> bool) \<Rightarrow> standby_args \<Rightarrow> fs \<times> 'w \<Rightarrow> bool option" where
  "recorded py run tcp args s =
     (case mkdirs (sa_state_dir args) (fst s) of Inl e \<Rightarrow> None | Inr fs \<Rightarrow>
      case standby_check py run tcp (sa_state_dir args)
          (run_step (Create (sa_state_dir args @ [''check.lock'']) []) fs) (snd s) of
        (Inl e, w) \<Rightarrow> None
      | (Inr rep, w) \<Rightarrow>
          if sa_apply args \<and> is_ok (require_cutover_opt_in (sr_action rep) (sa_allow_cutover args))
          then Some (sr_primary rep) else None)"

fun standby_runs ::
    "pylib \<Rightarrow> 'w runner \<Rightarrow> ('w \<Rightarrow> bool) \<Rightarrow> standby_args list \<Rightarrow> fs \<times> 'w \<Rightarrow> bool list \<times> fs \<times> 'w" where
  "standby_runs py run tcp [] s = ([], s)"
| "standby_runs py run tcp (args # rest) s =
     (let (hist, s') = standby_runs py run tcp rest (snd (standby_main py run tcp args True s)) in
      (case recorded py run tcp args s of None \<Rightarrow> hist | Some b \<Rightarrow> b # hist, s'))"

text \<open>What the code relies on: \<open>json.loads\<close> reads back what \<open>json.dump\<close> wrote for a counter.\<close>

definition counter_json_ok :: "pylib \<Rightarrow> bool" where
  "counter_json_ok py \<longleftrightarrow>
     (\<forall>n \<ge> 0. json_loads py (counter_text py n) = Inr (JDict [(COUNTER_KEY, JInt n)]))"

lemma state_file_fresh:
  "state_file dir \<notin> set (ancestors dir)" "state_file dir \<noteq> dir @ [''check.lock'']"
  "state_file dir \<noteq> dir @ [''state.tmp'']"
  using ancestors_length [of "state_file dir" dir] by (auto simp: state_file_def)

lemma load_failures_cong:
  assumes "map_of fs' path = map_of fs path"
  shows "load_failures py fs' path = load_failures py fs path"
  using query_cong(1) [OF assms] query_cong(5) [OF assms] by (simp add: load_failures_def)

lemma load_failures_nonneg: "load_failures py fs path = Inr n \<Longrightarrow> 0 \<le> n"
  by (auto simp: load_failures_def split: if_splits sum.splits option.splits)

lemma load_saved:
  assumes "counter_json_ok py" and "0 \<le> n"
  shows "load_failures py (run_steps (save_failures py dir n) fs) (state_file dir) = Inr n"
proof -
  let ?fs = "run_steps (save_failures py dir n) fs"
  have "map_of ?fs (state_file dir) = Some (File (counter_text py n))"
    by (simp add: save_failures_def state_file_def)
  then show ?thesis using assms by (simp add: load_failures_def counter_json_ok_def)
qed

lemma opened_state_file:
  assumes "mkdirs dir fs = Inr fs1"
  shows "map_of (run_step (Create (dir @ [''check.lock'']) []) fs1) (state_file dir) = map_of fs (state_file dir)"
  using mkdirs_other [OF assms state_file_fresh(1)] state_file_fresh(2) by simp

lemma check_report:
  assumes "standby_check py run tcp dir fs w = (Inr rep, w')"
  shows "(if sr_primary rep then sr_failures rep = 0
      else \<exists>n. load_failures py fs (state_file dir) = Inr n \<and> sr_failures rep = n + 1) \<and>
    (sr_action rep = Take_Over \<or> sr_action rep = Renew_Standby \<longrightarrow>
       \<not> sr_primary rep \<and> 3 \<le> sr_failures rep \<and> sr_standby rep = Some True) \<and>
    (sr_action rep = Restore_Primary \<longrightarrow> sr_primary rep)"
  using assms by (auto simp: standby_check_def action_dest res_simps decide_def split: if_splits)

lemma main_counter:
  assumes "counter_json_ok py" and "load_failures py fs (state_file (sa_state_dir args)) = Inr n"
  shows "load_failures py (fst (snd (standby_main py run tcp args True (fs, w)))) (state_file (sa_state_dir args)) =
    Inr (case recorded py run tcp args (fs, w) of None \<Rightarrow> n | Some True \<Rightarrow> 0 | Some False \<Rightarrow> n + 1)"
proof (cases "mkdirs (sa_state_dir args) fs")
  case (Inl e)
  then show ?thesis using assms(2) by (simp add: standby_main_def recorded_def)
next
  case (Inr fs1)
  let ?fs = "run_step (Create (sa_state_dir args @ [''check.lock'']) []) fs1"
  have load: "load_failures py ?fs (state_file (sa_state_dir args)) = Inr n"
    using load_failures_cong [OF opened_state_file [OF Inr]] assms(2) by simp
  obtain c w1 where check: "standby_check py run tcp (sa_state_dir args) ?fs w = (c, w1)" by (metis surj_pair)
  show ?thesis
  proof (cases c)
    case (Inl e)
    then show ?thesis using Inr check load by (simp add: standby_main_def recorded_def)
  next
    case rep: (Inr rep)
    show ?thesis
    proof (cases "sa_apply args \<and> is_ok (require_cutover_opt_in (sr_action rep) (sa_allow_cutover args))")
      case False
      then show ?thesis using Inr check rep load
        by (cases "require_cutover_opt_in (sr_action rep) (sa_allow_cutover args)")
          (auto simp: standby_main_def recorded_def Let_def)
    next
      case True
      let ?saved = "run_steps (save_failures py (sa_state_dir args) (sr_failures rep)) ?fs"
      have "fst (snd (standby_main py run tcp args True (fs, w))) = ?saved"
        using Inr check rep True by (auto simp: standby_main_def is_ok_iff Let_def split: option.split prod.split)
      moreover have fail: "sr_failures rep = (if sr_primary rep then 0 else n + 1)"
        using check_report [OF check [unfolded rep]] load by (auto split: if_splits)
      moreover have "0 \<le> n" using load_failures_nonneg [OF load] .
      ultimately show ?thesis
        using load_saved [OF assms(1), of "sr_failures rep"] Inr check rep True
        by (simp add: recorded_def split: bool.split)
    qed
  qed
qed

lemma runs_counter:
  assumes "counter_json_ok py" and "\<forall>args \<in> set argss. sa_state_dir args = dir"
    and "load_failures py fs (state_file dir) = Inr n" and "n = int (length (takeWhile Not earlier))"
    and "standby_runs py run tcp argss (fs, w) = (hist, (fs', w'))"
  shows "load_failures py fs' (state_file dir) = Inr (int (length (takeWhile Not (rev hist @ earlier))))"
  using assms(2-)
proof (induction argss arbitrary: fs w n earlier hist)
  case Nil
  then show ?case by simp
next
  case (Cons args argss)
  obtain r fs1 w1 where main: "standby_main py run tcp args True (fs, w) = (r, (fs1, w1))" by (metis surj_pair)
  obtain hist1 where rest: "standby_runs py run tcp argss (fs1, w1) = (hist1, (fs', w'))"
    and hist: "hist = (case recorded py run tcp args (fs, w) of None \<Rightarrow> hist1 | Some b \<Rightarrow> b # hist1)"
    using Cons.prems(4) main by (auto split: prod.splits)
  have dir: "sa_state_dir args = dir" using Cons.prems(1) by simp
  let ?earlier = "case recorded py run tcp args (fs, w) of None \<Rightarrow> earlier | Some b \<Rightarrow> b # earlier"
  have "load_failures py fs1 (state_file dir) =
      Inr (case recorded py run tcp args (fs, w) of None \<Rightarrow> n | Some True \<Rightarrow> 0 | Some False \<Rightarrow> n + 1)"
    using main_counter [OF assms(1), of fs args n run tcp w] Cons.prems(2) main dir by simp
  also have "\<dots> = Inr (int (length (takeWhile Not ?earlier)))"
    using Cons.prems(3) by (simp split: option.split bool.split)
  finally have "load_failures py fs' (state_file dir) = Inr (int (length (takeWhile Not (rev hist1 @ ?earlier))))"
    using Cons.IH rest Cons.prems(1) by simp
  then show ?case unfolding hist by (simp split: option.splits)
qed

text \<open>C40: the standby takes the mapping over, or renews its own, only when this check and the last two
  checks that recorded a verdict all found the primary unhealthy, the primary's listener is closed and
  the standby is healthy.\<close>

theorem takeover_after_three_failures:
  assumes "counter_json_ok py" and "\<forall>args \<in> set argss. sa_state_dir args = sa_state_dir now"
    and "standby_runs py run tcp argss ([], w) = (hist, s)"
    and "standby_main py run tcp now True s = (Inr rep, s')"
    and "sr_action rep = Take_Over \<or> sr_action rep = Renew_Standby"
  shows "(\<exists>older. rev hist = False # False # older) \<and> \<not> sr_primary rep \<and> sr_standby rep = Some True \<and>
    (sr_action rep = Take_Over \<and> sa_apply now \<longrightarrow> sa_allow_cutover now)"
proof -
  obtain fs1 w1 where s: "s = (fs1, w1)" by (cases s)
  have "load_failures py [] (state_file (sa_state_dir now)) = Inr 0" by (simp add: load_failures_def)
  from runs_counter [OF assms(1,2) this, of "[]"] assms(3) s
  have count: "load_failures py fs1 (state_file (sa_state_dir now)) = Inr (int (length (takeWhile Not (rev hist))))"
    by simp
  from assms(4) s obtain fs2 w2 where dirs: "mkdirs (sa_state_dir now) fs1 = Inr fs2"
    and check: "standby_check py run tcp (sa_state_dir now)
      (run_step (Create (sa_state_dir now @ [''check.lock'']) []) fs2) w1 = (Inr rep, w2)"
    and opt: "sa_apply now \<longrightarrow> is_ok (require_cutover_opt_in (sr_action rep) (sa_allow_cutover now))"
    by (auto simp: standby_main_def Let_def rbind_eq_Inr split: sum.splits prod.splits if_splits option.splits)
  have "load_failures py (run_step (Create (sa_state_dir now @ [''check.lock'']) []) fs2) (state_file (sa_state_dir now)) =
      Inr (int (length (takeWhile Not (rev hist))))"
    using load_failures_cong [OF opened_state_file [OF dirs]] count by simp
  with check_report [OF check] assms(5) have "2 \<le> length (takeWhile Not (rev hist))"
    and rep: "\<not> sr_primary rep" "sr_standby rep = Some True" by (auto split: if_splits)
  then have "\<exists>older. rev hist = False # False # older"
    by (cases "rev hist" rule: remdups_adj.cases) (auto split: if_splits)
  then show ?thesis using rep opt by (auto simp: require_cutover_opt_in_def split: if_splits)
qed

text \<open>A healthy check does not always reset the counter of consecutive failures: when the primary is
  healthy but does not hold the mapping and cutovers are not allowed, the check is refused before the
  counter is saved, so one later failure can count as the third.\<close>

theorem healthy_check_keeps_old_count:
  assumes "mkdirs (sa_state_dir args) fs = Inr fs1" and "sa_apply args" and "\<not> sa_allow_cutover args"
    and "standby_check py run tcp (sa_state_dir args)
      (run_step (Create (sa_state_dir args @ [''check.lock'']) []) fs1) w = (Inr rep, w')"
    and "sr_primary rep" and "sr_mapping rep \<noteq> Some XAVIER_IP"
  shows "load_failures py (fst (snd (standby_main py run tcp args True (fs, w)))) (state_file (sa_state_dir args)) =
    load_failures py fs (state_file (sa_state_dir args))"
proof -
  have "sr_action rep = Restore_Primary"
    using assms(4-6) by (auto simp: standby_check_def action_dest res_simps decide_def split: if_splits)
  then have "fst (snd (standby_main py run tcp args True (fs, w))) =
      run_step (Create (sa_state_dir args @ [''check.lock'']) []) fs1"
    using assms(1-4) by (simp add: standby_main_def Let_def require_cutover_opt_in_def)
  then show ?thesis using load_failures_cong [OF opened_state_file [OF assms(1)]] by simp
qed

section \<open>A concrete router\<close>

text \<open>A router with one mapping; the primary is healthy or not, and adding the standby may fail. The hash
  is the identity and the sites answer with their digests; counters are written in unary.\<close>

record toy_world =
  tw_mapping :: "string option"
  tw_primary :: bool
  tw_add_fails :: bool
  tw_list_fails :: bool

fun unhex :: "string \<Rightarrow> bytes" where
  "unhex (a # b # s) =
     word_of_nat (16 * length (takeWhile ((\<noteq>) a) hex_digits) + length (takeWhile ((\<noteq>) b) hex_digits)) # unhex s"
| "unhex _ = []"

definition toy_listing :: "string option \<Rightarrow> bytes" where
  "toy_listing m = ascii (''ExternalIPAddress = '' @ PUBLIC_IP @ [newline] @
     (case m of None \<Rightarrow> [] | Some ip \<Rightarrow> ''15 TCP  8443->'' @ ip @ '':443 615'' @ [newline]))"

definition toy_run :: "toy_world runner" where
  "toy_run argv w =
     (if argv = upnpc_list
      then if tw_list_fails w \<and> tw_mapping w = None then (Inl TimeoutExpired, w)
           else (Inr (0, toy_listing (tw_mapping w)), w)
      else if argv = upnpc_delete then (Inr (0, []), w\<lparr>tw_mapping := None\<rparr>)
      else if argv = upnpc_add GAD_IP
      then if tw_add_fails w then (Inr (1, []), w) else (Inr (0, []), w\<lparr>tw_mapping := Some GAD_IP\<rparr>)
      else if argv = upnpc_add XAVIER_IP then (Inr (0, []), w\<lparr>tw_mapping := Some XAVIER_IP\<rparr>)
      else if argv ! 11 = fst (SITES ! 0) @ '':443:'' @ XAVIER_IP \<and> \<not> tw_primary w then (Inr (7, []), w)
      else (Inr (0, concat (map (\<lambda>(host, expected).
          if argv ! 12 = ''https://'' @ host @ ''/'' then unhex expected else []) SITES)), w))"

definition standby_py :: pylib where
  "standby_py = \<lparr>sha256 = (\<lambda>body. body),
     json_loads = (\<lambda>bs. Inr (JDict [(COUNTER_KEY, JInt (int (length bs) - 1))])),
     json_dumps = (\<lambda>v. case v of JDict [(k, JInt n)] \<Rightarrow> replicate (nat n) 1 | _ \<Rightarrow> [])\<rparr>"

lemma standby_py_ok: "counter_json_ok standby_py"
  by (simp add: counter_json_ok_def standby_py_def counter_text_def)

definition timer_args :: standby_args where
  "timer_args = \<lparr>sa_apply = True, sa_allow_cutover = False, sa_state_dir = [''state'']\<rparr>"

definition primary_down :: toy_world where
  "primary_down = \<lparr>tw_mapping = Some XAVIER_IP, tw_primary = False, tw_add_fails = False, tw_list_fails = False\<rparr>"

definition supervised_args :: standby_args where
  "supervised_args = timer_args\<lparr>sa_allow_cutover := True\<rparr>"

definition closed_port :: "'w \<Rightarrow> bool" where "closed_port w = False"

definition two_checks :: "bool list \<times> fs \<times> toy_world" where
  "two_checks = standby_runs standby_py toy_run closed_port [timer_args, timer_args] ([], primary_down)"

definition third_check :: "standby_report res \<times> fs \<times> toy_world" where
  "third_check = standby_main standby_py toy_run closed_port supervised_args True (snd two_checks)"

definition takeover_report :: standby_report where
  "takeover_report = \<lparr>sr_action = Take_Over, sr_primary = False, sr_standby = Some True,
     sr_failures = 3, sr_mapping = Some XAVIER_IP\<rparr>"

definition taken_over :: toy_world where
  "taken_over = primary_down\<lparr>tw_mapping := Some GAD_IP\<rparr>"

lemma third_check_takes_over:
  "(case third_check of (r, fs, w) \<Rightarrow> (r, w)) = (Inr takeover_report, taken_over)"
  by code_simp

theorem takeover_after_three_failures_witness:
  "\<exists>older. rev (fst two_checks) = False # False # older"
proof -
  obtain fs where third: "standby_main standby_py toy_run closed_port supervised_args True (snd two_checks) =
      (Inr takeover_report, (fs, taken_over))"
    using third_check_takes_over unfolding third_check_def by (auto split: prod.splits)
  have runs: "standby_runs standby_py toy_run closed_port [timer_args, timer_args] ([], primary_down) =
      (fst two_checks, snd two_checks)" by (simp add: two_checks_def)
  have "\<forall>args \<in> set [timer_args, timer_args]. sa_state_dir args = sa_state_dir supervised_args"
    by (simp add: timer_args_def supervised_args_def)
  from takeover_after_three_failures [OF standby_py_ok this runs third] show ?thesis
    by (simp add: takeover_report_def)
qed

lemma toy_listing_parsed: "router_mapping (toy_listing (Some GAD_IP)) = Inr (Some GAD_IP)" "router_mapping (toy_listing None) = Inr None"
  by code_simp+

lemma toy_argv_distinct [simp]:
  "upnpc_add t \<noteq> upnpc_list" "upnpc_add t \<noteq> upnpc_delete" "upnpc_delete \<noteq> upnpc_list"
  "upnpc_add t = upnpc_add t' \<longleftrightarrow> t = t'" "GAD_IP \<noteq> XAVIER_IP" "XAVIER_IP \<noteq> GAD_IP"
  by (simp_all add: upnpc_add_def upnpc_list_def upnpc_delete_def GAD_IP_def XAVIER_IP_def)

lemma toy_run_simps [simp]:
  "toy_run upnpc_list w = (if tw_list_fails w \<and> tw_mapping w = None then (Inl TimeoutExpired, w)
     else (Inr (0, toy_listing (tw_mapping w)), w))"
  "toy_run upnpc_delete w = (Inr (0, []), w\<lparr>tw_mapping := None\<rparr>)"
  "toy_run (upnpc_add GAD_IP) w = (if tw_add_fails w then (Inr (1, []), w)
     else (Inr (0, []), w\<lparr>tw_mapping := Some GAD_IP\<rparr>))"
  "toy_run (upnpc_add XAVIER_IP) w = (Inr (0, []), w\<lparr>tw_mapping := Some XAVIER_IP\<rparr>)"
  using toy_argv_distinct(3) by (simp_all add: toy_run_def)

lemma toy_delete:
  "standby_command (logged toy_run) upnpc_delete (w, log) =
     (Inr [], (w\<lparr>tw_mapping := None\<rparr>, log @ [upnpc_delete]))"
  unfolding standby_command_def by (simp add: logged_def)

lemma toy_list:
  assumes "tw_mapping w = None \<or> tw_mapping w = Some GAD_IP" and "\<not> tw_list_fails w"
  shows "listed_mapping (logged toy_run) (w, log) = (Inr (tw_mapping w), (w, log @ [upnpc_list]))"
proof -
  have "standby_command (logged toy_run) upnpc_list (w, log) =
      (Inr (toy_listing (tw_mapping w)), (w, log @ [upnpc_list]))"
    unfolding standby_command_def using assms by (simp add: logged_def)
  then show ?thesis using assms(1) toy_listing_parsed by (auto simp: listed_mapping_def abind_def)
qed

lemma toy_add:
  "standby_command (logged toy_run) (upnpc_add XAVIER_IP) (w, log) =
     (Inr [], (w\<lparr>tw_mapping := Some XAVIER_IP\<rparr>, log @ [upnpc_add XAVIER_IP]))"
  "\<not> tw_add_fails w \<Longrightarrow> standby_command (logged toy_run) (upnpc_add GAD_IP) (w, log) =
     (Inr [], (w\<lparr>tw_mapping := Some GAD_IP\<rparr>, log @ [upnpc_add GAD_IP]))"
  "tw_add_fails w \<Longrightarrow> standby_command (logged toy_run) (upnpc_add GAD_IP) (w, log) =
     (Inl (RefusedError (''command failed: '' @ hd (upnpc_add GAD_IP))), (w, log @ [upnpc_add GAD_IP]))"
  unfolding standby_command_def by (simp_all add: logged_def)

theorem set_mapping_confirmed_witness:
  "\<exists>w out. toy_run upnpc_list w = (Inr (0, out), taken_over) \<and> router_mapping out = Inr (Some GAD_IP)"
proof -
  have "set_mapping (logged toy_run) GAD_IP (Some XAVIER_IP) (primary_down, []) =
      (Inr (), (taken_over, [upnpc_delete, upnpc_list, upnpc_add GAD_IP, upnpc_list]))"
    by (simp add: set_mapping_def abind_def remove_mapping_def add_mapping_def toy_delete toy_list toy_add
      primary_down_def taken_over_def)
  from set_mapping_confirmed [OF this] show ?thesis by simp
qed

definition broken_router :: toy_world where
  "broken_router = primary_down\<lparr>tw_add_fails := True\<rparr>"

lemma broken_router_simps [simp]:
  "tw_add_fails broken_router" "\<not> tw_list_fails broken_router" "tw_mapping broken_router = Some XAVIER_IP"
  "broken_router\<lparr>tw_mapping := Some XAVIER_IP\<rparr> = broken_router"
  by (simp_all add: broken_router_def primary_down_def)

lemma broken_router_run:
  "remove_mapping (logged toy_run) (broken_router, []) =
     (Inr (), (broken_router\<lparr>tw_mapping := None\<rparr>, [upnpc_delete, upnpc_list]))"
  "set_mapping (logged toy_run) GAD_IP (Some XAVIER_IP) (broken_router, []) =
     (Inl (RefusedError (''command failed: '' @ hd (upnpc_add GAD_IP))),
      (broken_router, [upnpc_delete, upnpc_list, upnpc_add GAD_IP, upnpc_add XAVIER_IP]))"
proof -
  show removed: "remove_mapping (logged toy_run) (broken_router, []) =
      (Inr (), (broken_router\<lparr>tw_mapping := None\<rparr>, [upnpc_delete, upnpc_list]))"
    by (simp add: abind_def remove_mapping_def toy_delete toy_list)
  show "set_mapping (logged toy_run) GAD_IP (Some XAVIER_IP) (broken_router, []) =
      (Inl (RefusedError (''command failed: '' @ hd (upnpc_add GAD_IP))),
       (broken_router, [upnpc_delete, upnpc_list, upnpc_add GAD_IP, upnpc_add XAVIER_IP]))"
    by (simp add: set_mapping_def removed abind_def add_mapping_def refused_def toy_add)
qed

theorem failed_replacement_restores_witness:
  "last (snd (snd (set_mapping (logged toy_run) GAD_IP (Some XAVIER_IP) (broken_router, [])))) =
     upnpc_add XAVIER_IP"
  using failed_replacement_restores [OF broken_router_run(2) _ broken_router_run(1)] broken_router_run(2) by simp

theorem unconfirmed_removal_not_restored_witness:
  "\<exists>m w'. set_mapping (logged toy_run) GAD_IP (Some XAVIER_IP) (primary_down\<lparr>tw_list_fails := True\<rparr>, []) =
     (Inl (RefusedError m), (w', [upnpc_delete, upnpc_list])) \<and> tw_mapping w' = None"
proof -
  let ?w = "primary_down\<lparr>tw_list_fails := True\<rparr>"
  have "toy_run upnpc_delete ?w = (Inr (0, []), ?w\<lparr>tw_mapping := None\<rparr>)"
    "toy_run upnpc_list (?w\<lparr>tw_mapping := None\<rparr>) = (Inl TimeoutExpired, ?w\<lparr>tw_mapping := None\<rparr>)"
    by (simp_all add: primary_down_def)
  from unconfirmed_removal_not_restored [OF this toy_argv_distinct(6)] obtain m where
    "set_mapping (logged toy_run) GAD_IP (Some XAVIER_IP) (?w, []) =
      (Inl (RefusedError m), (?w\<lparr>tw_mapping := None\<rparr>, [upnpc_delete, upnpc_list]))" by blast
  moreover have "tw_mapping (?w\<lparr>tw_mapping := None\<rparr>) = None" by simp
  ultimately show ?thesis by blast
qed

text \<open>The primary is healthy again, the standby still holds the mapping and the counter says three.\<close>

definition recovered :: toy_world where
  "recovered = taken_over\<lparr>tw_primary := True\<rparr>"

definition recovered_report :: standby_report where
  "recovered_report = \<lparr>sr_action = Restore_Primary, sr_primary = True, sr_standby = None,
     sr_failures = 0, sr_mapping = Some GAD_IP\<rparr>"

definition counted_state :: fs where
  "counted_state = run_steps (save_failures standby_py [''state''] 3) []"

lemma recovered_check:
  "standby_check standby_py toy_run closed_port [''state'']
     (run_step (Create [''state'', ''check.lock''] []) counted_state) recovered = (Inr recovered_report, recovered)"
  by code_simp

theorem healthy_check_keeps_old_count_witness:
  "load_failures standby_py
     (fst (snd (standby_main standby_py toy_run closed_port timer_args True (counted_state, recovered))))
     (state_file [''state'']) = Inr 3"
proof -
  have dirs: "mkdirs (sa_state_dir timer_args) counted_state = Inr counted_state" by code_simp
  have check: "standby_check standby_py toy_run closed_port (sa_state_dir timer_args)
      (run_step (Create (sa_state_dir timer_args @ [''check.lock'']) []) counted_state) recovered =
      (Inr recovered_report, recovered)"
    using recovered_check by (simp add: timer_args_def)
  have "load_failures standby_py
      (fst (snd (standby_main standby_py toy_run closed_port timer_args True (counted_state, recovered))))
      (state_file (sa_state_dir timer_args)) =
      load_failures standby_py counted_state (state_file (sa_state_dir timer_args))"
    by (rule healthy_check_keeps_old_count [OF dirs _ _ check])
      (simp_all add: timer_args_def recovered_report_def)
  then show ?thesis
    using load_saved [OF standby_py_ok, of 3] by (simp add: timer_args_def counted_state_def)
qed

theorem no_cutover_without_opt_in_witness:
  "upnpc_delete \<notin> set (snd (snd (snd (standby_main standby_py (logged toy_run) closed_port timer_args True
     (counted_state, (recovered, []))))))"
  using no_cutover_without_opt_in [of standby_py toy_run closed_port timer_args True counted_state recovered]
  by (simp add: timer_args_def) (metis prod.collapse)

end
