(* ===== verification/Prefetch.thy ===== *)
theory Prefetch
  imports Actions
begin

text \<open>
  \<open>deploy/replicate_lake.py\<close>, \<open>prefetch_ordered\<close>: blocks are fetched by a pool of workers and handed on in
  the order of the listing. Shown: the generator hands on what fetching one after the other would, and
  never has more requests or bytes in flight than it may.
\<close>

type_synonym item = "string \<times> int"

text \<open>The calls of the generator's body, in order: a request handed to the pool, and the oldest request's
  result handed to the caller.\<close>

datatype prefetch_event =
    Submit item
  | Yield item

text \<open>The inner \<open>while\<close>: what is yielded to make room, and what stays pending.\<close>

fun make_room :: "nat \<Rightarrow> int \<Rightarrow> int \<Rightarrow> item list \<Rightarrow> int \<Rightarrow> item list \<times> item list \<times> int" where
  "make_room workers budget sz [] in_flight = ([], [], in_flight)"
| "make_room workers budget sz (oldest # pending) in_flight =
     (if workers \<le> length (oldest # pending) \<or> budget < in_flight + sz then
        (case make_room workers budget sz pending (in_flight - snd oldest) of
           (out, rest, n) \<Rightarrow> (oldest # out, rest, n))
      else ([], oldest # pending, in_flight))"

fun prefetch_events ::
    "nat \<Rightarrow> int \<Rightarrow> item list \<Rightarrow> int \<Rightarrow> item list \<Rightarrow> prefetch_event list \<times> exn option" where
  "prefetch_events workers budget pending in_flight [] = (map Yield pending, None)"
| "prefetch_events workers budget pending in_flight (item # items) =
     (if budget < snd item
      then ([], Some (ReplicationError (''block exceeds prefetch memory budget: '' @ fst item)))
      else
        case make_room workers budget (snd item) pending in_flight of (out, rest, n) \<Rightarrow>
        case prefetch_events workers budget (rest @ [item]) (n + snd item) items of (events, e) \<Rightarrow>
          (map Yield out @ [Submit item] @ events, e))"

text \<open>The results as the caller meets them: \<open>future.result()\<close> may raise in place of a yield.\<close>

fun yielded :: "(item \<Rightarrow> bytes res) \<Rightarrow> exn option \<Rightarrow> prefetch_event list \<Rightarrow> (item \<times> bytes) list \<times> exn option" where
  "yielded fetch e [] = ([], e)"
| "yielded fetch e (Submit item # events) = yielded fetch e events"
| "yielded fetch e (Yield item # events) =
     (case fetch item of
        Inl e' \<Rightarrow> ([], Some e')
      | Inr data \<Rightarrow> (case yielded fetch e events of (rs, e') \<Rightarrow> ((item, data) # rs, e')))"

definition prefetch_ordered ::
    "(string \<Rightarrow> int \<Rightarrow> bytes res) \<Rightarrow> int \<Rightarrow> nat \<Rightarrow> int \<Rightarrow> item list \<Rightarrow> (item \<times> bytes) list \<times> exn option" where
  "prefetch_ordered fetch max_block_bytes workers budget items =
     (case prefetch_events workers budget [] 0 items of (events, e) \<Rightarrow>
        yielded (\<lambda>(cid, sz). fetch cid (min sz max_block_bytes)) e events)"

section \<open>In order\<close>

text \<open>Fetching one block after the other.\<close>

fun fetch_each :: "(item \<Rightarrow> bytes res) \<Rightarrow> item list \<Rightarrow> (item \<times> bytes) list \<times> exn option" where
  "fetch_each fetch [] = ([], None)"
| "fetch_each fetch (item # items) =
     (case fetch item of
        Inl e \<Rightarrow> ([], Some e)
      | Inr data \<Rightarrow> (case fetch_each fetch items of (rs, e) \<Rightarrow> ((item, data) # rs, e)))"

fun yields :: "prefetch_event list \<Rightarrow> item list" where
  "yields [] = []"
| "yields (Submit item # events) = yields events"
| "yields (Yield item # events) = item # yields events"

lemma yields_append [simp]: "yields (xs @ ys) = yields xs @ yields ys"
  by (induction xs rule: yields.induct) auto

lemma yields_map [simp]: "yields (map Yield xs) = xs"
  by (induction xs) auto

lemma make_room_split:
  "make_room workers budget sz pending in_flight = (out, rest, n) \<Longrightarrow>
    pending = out @ rest \<and> n = in_flight - sum_list (map snd out)"
proof (induction pending arbitrary: in_flight out)
  case (Cons oldest pending)
  obtain out' rest' n' where "make_room workers budget sz pending (in_flight - snd oldest) = (out', rest', n')"
    by (metis prod_cases3)
  then show ?case using Cons.prems Cons.IH [of "in_flight - snd oldest" out'] by (auto split: if_splits)
qed simp

lemma yielded_fetch_each: "yielded fetch None events = fetch_each fetch (yields events)"
  by (induction events rule: yields.induct) (auto split: sum.split prod.split)

lemma prefetch_events_order:
  "prefetch_events workers budget pending in_flight items = (events, e) \<Longrightarrow>
    \<forall>item \<in> set items. snd item \<le> budget \<Longrightarrow> yields events = pending @ items \<and> e = None"
proof (induction items arbitrary: pending in_flight events e)
  case (Cons item items)
  obtain out rest n where room: "make_room workers budget (snd item) pending in_flight = (out, rest, n)"
    by (metis prod_cases3)
  obtain events' e' where rec: "prefetch_events workers budget (rest @ [item]) (n + snd item) items = (events', e')"
    by (metis surj_pair)
  have "yields events' = (rest @ [item]) @ items \<and> e' = None" using Cons.IH [OF rec] Cons.prems(2) by simp
  then show ?case using Cons.prems make_room_split [OF room] room rec by auto
qed auto

section \<open>Within the bounds\<close>

text \<open>What is in flight after some events.\<close>

fun outstanding :: "item list \<Rightarrow> prefetch_event list \<Rightarrow> item list" where
  "outstanding pending [] = pending"
| "outstanding pending (Submit item # events) = outstanding (pending @ [item]) events"
| "outstanding pending (Yield item # events) = outstanding (remove1 item pending) events"

definition in_bounds :: "nat \<Rightarrow> int \<Rightarrow> item list \<Rightarrow> bool" where
  "in_bounds workers budget pending \<longleftrightarrow>
     length pending \<le> workers \<and> sum_list (map snd pending) \<le> budget"

definition bounded_run :: "nat \<Rightarrow> int \<Rightarrow> item list \<Rightarrow> prefetch_event list \<Rightarrow> bool" where
  "bounded_run workers budget pending events \<longleftrightarrow>
     (\<forall>k \<le> length events. in_bounds workers budget (outstanding pending (take k events)))"

lemma bounded_run_Nil [simp]: "bounded_run w b pending [] \<longleftrightarrow> in_bounds w b pending"
  by (simp add: bounded_run_def)

lemma bounded_run_Cons [simp]:
  "bounded_run w b pending (Submit item # events) \<longleftrightarrow>
     in_bounds w b pending \<and> bounded_run w b (pending @ [item]) events"
  "bounded_run w b pending (Yield item # events) \<longleftrightarrow>
     in_bounds w b pending \<and> bounded_run w b (remove1 item pending) events"
proof -
  have all_Suc: "(\<forall>k \<le> Suc n. P k) \<longleftrightarrow> P 0 \<and> (\<forall>k \<le> n. P (Suc k))" for n and P :: "nat \<Rightarrow> bool"
    by (metis Suc_le_mono le0 not0_implies_Suc)
  show "bounded_run w b pending (Submit item # events) \<longleftrightarrow>
      in_bounds w b pending \<and> bounded_run w b (pending @ [item]) events"
    "bounded_run w b pending (Yield item # events) \<longleftrightarrow>
      in_bounds w b pending \<and> bounded_run w b (remove1 item pending) events"
    by (simp_all add: bounded_run_def all_Suc)
qed

lemma in_bounds_tail:
  "in_bounds w b (item # pending) \<Longrightarrow> 0 \<le> snd item \<Longrightarrow> in_bounds w b pending"
  by (simp add: in_bounds_def)

lemma bounded_yields:
  "in_bounds w b (out @ rest) \<Longrightarrow> \<forall>item \<in> set out. 0 \<le> snd item \<Longrightarrow>
    bounded_run w b (out @ rest) (map Yield out @ events) \<longleftrightarrow> bounded_run w b rest events"
proof (induction out)
  case (Cons item out)
  then have "in_bounds w b (out @ rest)" using in_bounds_tail [of w b item "out @ rest"] by simp
  then show ?case using Cons by simp
qed simp

lemma make_room_fits:
  assumes "make_room w b sz pending (sum_list (map snd pending)) = (out, rest, n)"
    and "0 < w" and "sz \<le> b"
  shows "in_bounds w b (rest @ [(cid, sz)])"
  using assms(1)
proof (induction pending arbitrary: out)
  case Nil
  then show ?case using assms(2,3) by (simp add: in_bounds_def)
next
  case (Cons oldest pending)
  show ?case
  proof (cases "w \<le> length (oldest # pending) \<or> b < sum_list (map snd (oldest # pending)) + sz")
    case True
    obtain out' rest' n' where room: "make_room w b sz pending (sum_list (map snd pending)) = (out', rest', n')"
      by (metis prod_cases3)
    then have "rest = rest'" using Cons.prems True by (simp split: if_splits)
    then show ?thesis using Cons.IH [of out'] room Cons.prems True by (simp split: if_splits)
  next
    case False
    then show ?thesis using Cons.prems by (auto simp: in_bounds_def split: if_splits)
  qed
qed

lemma prefetch_events_bounded:
  "prefetch_events w b pending (sum_list (map snd pending)) items = (events, e) \<Longrightarrow>
    \<forall>item \<in> set (pending @ items). 0 \<le> snd item \<Longrightarrow> 0 < w \<Longrightarrow> in_bounds w b pending \<Longrightarrow>
    bounded_run w b pending events"
proof (induction items arbitrary: pending events e)
  case Nil
  have "0 \<le> sum_list (map snd pending)" using Nil.prems(2) by (intro sum_list_nonneg) auto
  then show ?case using Nil bounded_yields [of w b pending "[]" "[]"] by (auto simp: in_bounds_def)
next
  case (Cons item items)
  show ?case
  proof (cases "b < snd item")
    case True
    then show ?thesis using Cons.prems by auto
  next
    case False
    obtain out rest n where
      room: "make_room w b (snd item) pending (sum_list (map snd pending)) = (out, rest, n)" by (metis prod_cases3)
    note split = make_room_split [OF room]
    obtain events' e' where
      rec: "prefetch_events w b (rest @ [item]) (n + snd item) items = (events', e')" by (metis surj_pair)
    have fits: "in_bounds w b (rest @ [item])"
      using make_room_fits [OF room Cons.prems(3), of "fst item"] False by simp
    have n: "n + snd item = sum_list (map snd (rest @ [item]))" using split by simp
    have "bounded_run w b (rest @ [item]) events'"
      by (rule Cons.IH [OF rec [unfolded n] _ Cons.prems(3) fits]) (use Cons.prems(2) split in auto)
    moreover have "in_bounds w b rest"
      using fits Cons.prems(2) by (auto simp: in_bounds_def)
    ultimately show ?thesis
      using Cons.prems False room rec split bounded_yields [of w b out rest "Submit item # events'"] by auto
  qed
qed

lemma prefetch_sequential:
  assumes "\<forall>item \<in> set items. snd item \<le> budget"
  shows "prefetch_ordered fetch max_block_bytes workers budget items =
    fetch_each (\<lambda>(cid, sz). fetch cid (min sz max_block_bytes)) items"
proof -
  obtain events e where ev: "prefetch_events workers budget [] 0 items = (events, e)" by (metis surj_pair)
  from prefetch_events_order [OF ev assms] show ?thesis
    by (simp add: prefetch_ordered_def ev yielded_fetch_each)
qed

text \<open>Without a failure every block of the list was handed on.\<close>

lemma prefetch_events_None:
  "prefetch_events workers budget pending in_flight items = (events, None) \<Longrightarrow>
    \<forall>item \<in> set items. snd item \<le> budget"
  by (induction items arbitrary: pending in_flight events) (auto split: if_splits prod.splits)

lemma yielded_None: "yielded fetch e events = (rs, None) \<Longrightarrow> e = None"
proof (induction events arbitrary: rs)
  case (Cons event events)
  then show ?case by (cases event) (auto split: sum.splits prod.splits)
qed simp

lemma fetch_each_None: "fetch_each fetch items = (rs, None) \<Longrightarrow> map fst rs = items"
  by (induction items arbitrary: rs) (auto split: sum.splits prod.splits)

lemma prefetch_complete:
  assumes "prefetch_ordered fetch max_block_bytes workers budget items = (rs, None)"
  shows "map fst rs = items"
proof -
  obtain events e where ev: "prefetch_events workers budget [] 0 items = (events, e)" by (metis surj_pair)
  with assms have "e = None" using yielded_None by (simp add: prefetch_ordered_def)
  then have "\<forall>item \<in> set items. snd item \<le> budget" using prefetch_events_None ev by blast
  then show ?thesis using assms fetch_each_None by (simp add: prefetch_sequential)
qed

lemma yielded_prefix: "yielded fetch e events = (rs, e') \<Longrightarrow> \<exists>rest. yields events = map fst rs @ rest"
proof (induction events arbitrary: rs e')
  case (Cons event events)
  then show ?case by (cases event) (auto split: sum.splits prod.splits)
qed simp

text \<open>C37: when no block of the list is larger than the memory budget, the concurrent prefetch hands on
  exactly what fetching the blocks one after the other would, in the order of the list, up to the same
  first failure.\<close>

theorem prefetch_is_sequential:
  assumes "\<forall>item \<in> set items. snd item \<le> budget"
  shows "prefetch_ordered fetch max_block_bytes workers budget items =
    fetch_each (\<lambda>(cid, sz). fetch cid (min sz max_block_bytes)) items"
  using assms by (rule prefetch_sequential)

theorem prefetch_is_sequential_witness:
  "prefetch_ordered (\<lambda>cid n. if cid = ''b'' then Inl TimeoutExpired else Inr [1]) 9 2 5
     [(''a'', 3), (''b'', 4), (''c'', 1)] =
   ([((''a'', 3), [1])], Some TimeoutExpired)"
proof -
  have "\<forall>item \<in> set [(''a'', 3), (''b'', 4), (''c'', 1)]. snd item \<le> (5 :: int)" by simp
  from prefetch_is_sequential [OF this] show ?thesis by simp
qed

text \<open>C38: at every moment of a prefetch no more requests are in flight than there are workers, and the
  sizes of the blocks in flight add up to at most the memory budget.\<close>

theorem prefetch_within_bounds:
  assumes "0 < workers" and "0 \<le> budget" and "\<forall>item \<in> set items. 0 \<le> snd item"
  shows "\<forall>k \<le> length (fst (prefetch_events workers budget [] 0 items)).
    length (outstanding [] (take k (fst (prefetch_events workers budget [] 0 items)))) \<le> workers \<and>
    sum_list (map snd (outstanding [] (take k (fst (prefetch_events workers budget [] 0 items))))) \<le> budget"
proof -
  have "bounded_run workers budget [] (fst (prefetch_events workers budget [] 0 items))"
    using prefetch_events_bounded [of workers budget "[]" items] assms
    by (cases "prefetch_events workers budget [] 0 items") (simp add: in_bounds_def)
  then show ?thesis by (simp add: bounded_run_def in_bounds_def)
qed

theorem prefetch_within_bounds_witness:
  "length (outstanding [] (take 3 (fst (prefetch_events 2 5 [] 0 [(''a'', 3), (''b'', 4)])))) \<le> 2"
proof -
  have "(0 :: nat) < 2" "(0 :: int) \<le> 5" "\<forall>item \<in> set [(''a'', 3), (''b'', 4)]. 0 \<le> (snd item :: int)" by simp_all
  from prefetch_within_bounds [OF this] show ?thesis by simp
qed

end
