(* ===== verification/Replication_Batch.thy ===== *)
theory Replication_Batch
  imports Kubo_Rpc Prefetch Text_Search
begin

text \<open>
  \<open>deploy/replicate_lake.py\<close>, \<open>KuboRPC.preflight\<close> and \<open>run_batch\<close>: one bounded batch of the replication.
  Shown: the cursor on disk only ever moves past a page when the answers of Kubo show a pin of every block of
  the page, or the raw store gives the block back; a batch copies no more than its byte budget, and it
  reports what it did.
\<close>

section \<open>The world of a batch\<close>

text \<open>What a batch asks its surroundings: the command-line program, the daemon's RPC, the listing pages
  (by number of the call and cursor), whether the block sources can be set up (\<open>Block_Sources\<close>), what they answer,
  free space, and texts that vary from run to run.\<close>

record 'k surroundings =
  su_cli :: "'k runner"
  su_rpc :: "'k rpc"
  su_pages :: "nat \<Rightarrow> string option \<Rightarrow> listing res"
  su_source :: "unit res"
  su_fetch :: "string \<Rightarrow> int \<Rightarrow> bytes res"
  su_free :: "'k \<Rightarrow> int"
  su_resolve :: "string \<Rightarrow> path"
  su_tags :: "string \<Rightarrow> string \<times> string"
  su_stamp :: "string \<Rightarrow> string"

section \<open>Preflight\<close>

text \<open>\<open>Kubo.run\<close>\<close>

definition kubo_run :: "'k runner \<Rightarrow> string list \<Rightarrow> ('k rpc_kubo, bytes) action" where
  "kubo_run cli args s =
     (case cli args (kb_daemon s) of (answer, k) \<Rightarrow>
       (rbind answer (\<lambda>(rc, out).
          if rc \<noteq> 0 then Inl (ReplicationError (hd args @ '' failed'')) else Inr out),
        s\<lparr>kb_daemon := k, kb_runs := kb_runs s @ [(args, answer)]\<rparr>))"

definition first_words :: "string \<Rightarrow> string list" where
  "first_words out = map (\<lambda>line. hd (py_split line)) (filter (\<lambda>line. strip line \<noteq> []) (splitlines out))"

definition colon_fields :: "string \<Rightarrow> (string \<times> string) list" where
  "colon_fields out =
     foldl (\<lambda>entries line. AList.update (takeWhile (\<lambda>c. c \<noteq> CHR '':'') line)
         (tl (dropWhile (\<lambda>c. c \<noteq> CHR '':'') line)) entries) []
       (filter (\<lambda>line. CHR '':'' \<in> set line) (splitlines out))"

definition stat_numbers :: "(string \<times> string) list \<Rightarrow> (int \<times> int \<times> string) res" where
  "stat_numbers entries =
     (let bad = Inl (ReplicationError ''Kubo repo capacity unreadable'') in
      case (map_of entries ''RepoSize'', map_of entries ''StorageMax'', map_of entries ''RepoPath'') of
        (Some a, Some b, Some p) \<Rightarrow>
          (case (py_int a, py_int b) of (Some m, Some n) \<Rightarrow> Inr (m, n, strip p) | _ \<Rightarrow> bad)
      | _ \<Rightarrow> bad)"

definition set_pins :: "string list \<Rightarrow> ('k rpc_kubo, unit) action" where
  "set_pins cids s = (Inr (), s\<lparr>kb_pins := cids\<rparr>)"

definition preflight ::
    "pylib \<Rightarrow> 'k surroundings \<Rightarrow> path option \<Rightarrow> ('k rpc_kubo, unit) action" where
  "preflight py su store =
     abind (set_pins []) (\<lambda>_.
     abind (kubo_run (su_cli su) [''pin'', ''ls'', ''--type=direct'']) (\<lambda>direct.
     abind (set_pins (first_words (text_of direct))) (\<lambda>_.
     abind (kubo_run (su_cli su) [''pin'', ''ls'', ''--type=recursive'']) (\<lambda>recursive.
     abind (set_pins (first_words (text_of direct) @ first_words (text_of recursive))) (\<lambda>_.
     abind (\<lambda>s. case store of
         None \<Rightarrow> (Inr (), s)
       | Some root \<Rightarrow>
           (case raw_cids py root (kb_fs s) of
              Inl e \<Rightarrow> (Inl e, s)
            | Inr cids \<Rightarrow> (Inr (), s\<lparr>kb_raw_cids := cids, kb_pins := kb_pins s @ cids\<rparr>))) (\<lambda>_.
     abind (kubo_run (su_cli su) [''repo'', ''stat'']) (\<lambda>out.
     abind (alift (stat_numbers (colon_fields (text_of out)))) (\<lambda>(repo_size, storage_max, repo_path).
     abind (\<lambda>s. (Inr (), s\<lparr>kb_repo_size := repo_size, kb_storage_max := storage_max\<rparr>)) (\<lambda>_ s.
       if \<not> is_dir (kb_fs s) (su_resolve su repo_path)
       then (Inl (ReplicationError ''Kubo repo path is not a directory''), s)
       else if storage_max \<le> repo_size
       then (Inl (ReplicationError ''Kubo repo has no configured storage headroom''), s)
       else
         abind (rpc_json py (su_rpc su) ''repo/stat'' [] None) (\<lambda>kvs.
           case as_str (field kvs ''RepoPath'') of
             None \<Rightarrow> araise (ReplicationError ''Kubo RPC and CLI repository paths differ'')
           | Some p \<Rightarrow>
               if su_resolve su p \<noteq> su_resolve su repo_path
               then araise (ReplicationError ''Kubo RPC and CLI repository paths differ'')
               else areturn ()) s)))))))))"

section \<open>One page\<close>

record plan =
  pl_selected :: "item list"
  pl_bytes :: int
  pl_checked :: nat
  pl_stop :: bool

text \<open>The body of the loop over the listing; after \<open>break\<close> the remaining rounds do nothing.\<close>

definition plan_block ::
    "pylib \<Rightarrow> 'k surroundings \<Rightarrow> path option \<Rightarrow> replication_args \<Rightarrow> int \<Rightarrow> plan \<Rightarrow> item \<Rightarrow> ('k rpc_kubo, plan) action" where
  "plan_block py su store args new_bytes pl item s =
     (let (cid, sz) = item; wanted = new_bytes + pl_bytes pl + sz in
      if pl_stop pl then (Inr pl, s)
      else if ra_max_block_bytes args < sz
      then (Inl (ReplicationError (''block exceeds configured maximum: '' @ cid)), s)
      else
        abind (if cid \<in> set (kb_pins s) then areturn ()
            else abind (durable_pin_type py (su_rpc su) cid) (\<lambda>kind.
              if kind \<noteq> None then mark_pinned cid else areturn ())) (\<lambda>_ s.
          if cid \<in> set (kb_pins s) then
            abind (block_size py (su_rpc su) store cid) (\<lambda>n.
              if n \<noteq> sz then araise (ReplicationError (''pinned block size differs from listing: '' @ cid))
              else areturn (pl\<lparr>pl_checked := pl_checked pl + 1\<rparr>)) s
          else if ra_max_new_bytes args < wanted then (Inr (pl\<lparr>pl_stop := True\<rparr>), s)
          else if kb_storage_max s \<le> kb_repo_size s + 2 * wanted
          then (Inl (ReplicationError (''Kubo storage limit would be exceeded before '' @ cid)), s)
          else if su_free su (kb_daemon s) - 2 * (pl_bytes pl + sz) < ra_min_free_bytes args
          then (Inl (ReplicationError ''physical disk reserve would be crossed''), s)
          else (Inr (pl\<lparr>pl_selected := pl_selected pl @ [item], pl_bytes := pl_bytes pl + sz\<rparr>), s)) s)"

record batch =
  bt_state :: checkpoint
  bt_new_bytes :: int
  bt_new_blocks :: nat
  bt_checked :: nat
  bt_pages :: nat

definition state_path :: "replication_args \<Rightarrow> path" where
  "state_path args = ra_state_dir args @ [''checkpoint.json'']"

definition save_checkpoint :: "pylib \<Rightarrow> replication_args \<Rightarrow> checkpoint \<Rightarrow> ('k rpc_kubo, unit) action" where
  "save_checkpoint py args st s = (Inr (), s\<lparr>kb_fs := save_state py (state_path args) st (kb_fs s)\<rparr>)"

text \<open>\<open>append_receipt\<close>\<close>

definition append_receipt ::
    "pylib \<Rightarrow> 'k surroundings \<Rightarrow> replication_args \<Rightarrow> string \<Rightarrow> int \<Rightarrow> bytes \<Rightarrow> ('k rpc_kubo, unit) action" where
  "append_receipt py su args cid sz data s =
     (let path = ra_state_dir args @ [''receipts.jsonl''];
          line = json_dumps py (JDict [(''at'', JStr (su_stamp su cid)), (''cid'', JStr cid), (''bytes'', JInt sz),
            (''sha256'', JStr (hex (sha256 py data)))]) @ [10];
          old = (case read_bytes (kb_fs s) path of Inr d \<Rightarrow> d | Inl _ \<Rightarrow> []) in
      (Inr (), s\<lparr>kb_fs := write_node path (File (old @ line)) (kb_fs s)\<rparr>))"

definition add_to :: "string \<Rightarrow> int \<Rightarrow> checkpoint \<Rightarrow> checkpoint" where
  "add_to key n st = set_key key (JInt ((case as_int (field st key) of Some m \<Rightarrow> m | None \<Rightarrow> 0) + n)) st"

text \<open>The body of the loop over the fetched blocks.\<close>

definition store_block ::
    "pylib \<Rightarrow> 'k surroundings \<Rightarrow> path option \<Rightarrow> replication_args \<Rightarrow> batch \<Rightarrow> item \<times> bytes \<Rightarrow> ('k rpc_kubo, batch) action" where
  "store_block py su store args bt got =
     (let ((cid, sz), data) = got;
          st = add_to ''new_bytes_total'' sz (add_to ''new_blocks_total'' 1 (bt_state bt)) in
      if int (length data) \<noteq> sz
      then araise (ReplicationError (''source byte count differs from listing: '' @ cid))
      else
        abind (put_verified py (su_rpc su) store (su_tags su cid) cid data) (\<lambda>_.
        abind (append_receipt py su args cid sz data) (\<lambda>_.
        abind (save_checkpoint py args st) (\<lambda>_.
        areturn (bt\<lparr>bt_state := st, bt_new_bytes := bt_new_bytes bt + sz,
          bt_new_blocks := bt_new_blocks bt + 1, bt_checked := bt_checked bt + 1\<rparr>)))))"

datatype page_end = Byte_Budget | Next_Page | Cycle_Complete

definition next_cursor :: "listing \<Rightarrow> json" where
  "next_cursor page =
     (if ls_truncated page then (case ls_cursor page of None \<Rightarrow> JNull | Some c \<Rightarrow> JStr c) else JNull)"

text \<open>One round of the loop over pages. \<open>state\<close> is updated in place: after an exception in the middle of
  a page it holds what has been saved.\<close>

definition run_page ::
    "pylib \<Rightarrow> 'k surroundings \<Rightarrow> path option \<Rightarrow> replication_args \<Rightarrow> nat \<Rightarrow> batch \<Rightarrow> ('k rpc_kubo, page_end \<times> batch) action" where
  "run_page py su store args i bt =
     abind (alift (su_pages su i (as_str (field (bt_state bt) ''cursor'')))) (\<lambda>page.
     if ra_local_api args \<and>
       (case ra_inventory_sha256 args of None \<Rightarrow> ls_inventory page \<noteq> JNull | Some h \<Rightarrow> \<not> eq_str (ls_inventory page) h)
     then araise (ReplicationError ''local listing inventory identity differs'')
     else
       abind (afold (plan_block py su store args (bt_new_bytes bt))
           \<lparr>pl_selected = [], pl_bytes = 0, pl_checked = bt_checked bt, pl_stop = False\<rparr> (ls_blocks page)) (\<lambda>pl.
       case prefetch_ordered (su_fetch su) (ra_max_block_bytes args) (ra_fetch_workers args)
           (ra_max_prefetch_bytes args) (pl_selected pl) of (fetched, failure) \<Rightarrow>
       abind (afold (store_block py su store args) (bt\<lparr>bt_checked := pl_checked pl\<rparr>) fetched) (\<lambda>bt.
       case failure of
         Some e \<Rightarrow> araise e
       | None \<Rightarrow>
           if pl_stop pl then areturn (Byte_Budget, bt)
           else
             let st = set_key ''cursor'' (next_cursor page) (add_to ''pages_total'' 1 (bt_state bt));
                 st = (if ls_truncated page then st else add_to ''cycles'' 1 st) in
             abind (save_checkpoint py args st) (\<lambda>_.
             areturn (if ls_truncated page then Next_Page else Cycle_Complete,
               bt\<lparr>bt_state := st, bt_pages := bt_pages bt + 1\<rparr>)))))"

record batch_result =
  br_status :: string
  br_pages :: nat
  br_checked :: nat
  br_new_blocks :: nat
  br_new_bytes :: int
  br_cursor_advanced :: bool

definition batch_result_of :: "string \<Rightarrow> bool \<Rightarrow> batch \<Rightarrow> batch_result" where
  "batch_result_of status advanced bt = \<lparr>br_status = status, br_pages = bt_pages bt, br_checked = bt_checked bt,
     br_new_blocks = bt_new_blocks bt, br_new_bytes = bt_new_bytes bt, br_cursor_advanced = advanced\<rparr>"

text \<open>\<open>for _ in range(args.max_pages)\<close>: \<open>n\<close> rounds are left, the next one is number \<open>i\<close>.\<close>

fun run_pages ::
    "pylib \<Rightarrow> 'k surroundings \<Rightarrow> path option \<Rightarrow> replication_args \<Rightarrow> nat \<Rightarrow> nat \<Rightarrow> batch \<Rightarrow> ('k rpc_kubo, batch_result) action" where
  "run_pages py su store args 0 i bt = areturn (batch_result_of ''page-limit'' True bt)"
| "run_pages py su store args (Suc n) i bt =
     abind (run_page py su store args i bt) (\<lambda>(how, bt).
       case how of
         Byte_Budget \<Rightarrow> areturn (batch_result_of ''byte-budget'' False bt)
       | Cycle_Complete \<Rightarrow> areturn (batch_result_of ''cycle-complete'' True bt)
       | Next_Page \<Rightarrow> run_pages py su store args n (i + 1) bt)"

text \<open>\<open>run_batch\<close>; \<open>on_files\<close> lets an action on the files run in the world of the batch.\<close>

definition on_files :: "(fs, 'a) action \<Rightarrow> ('k rpc_kubo, 'a) action" where
  "on_files m s = (case m (kb_fs s) of (r, fs) \<Rightarrow> (r, s\<lparr>kb_fs := fs\<rparr>))"

definition open_state ::
    "pylib \<Rightarrow> (string \<Rightarrow> json res) \<Rightarrow> (string option \<Rightarrow> listing res) \<Rightarrow> replication_args \<Rightarrow> (fs, checkpoint) action" where
  "open_state py decode pages args =
     abind (\<lambda>fs. case mkdirs (ra_state_dir args) fs of Inl e \<Rightarrow> (Inl e, fs) | Inr fs' \<Rightarrow> (Inr (), fs')) (\<lambda>_.
     abind (\<lambda>fs. (state_load py fs (state_path args), fs)) (\<lambda>st.
     prepare_listing_state py decode pages args (state_path args) st))"

definition run_batch ::
    "pylib \<Rightarrow> (string \<Rightarrow> json res) \<Rightarrow> 'k surroundings \<Rightarrow> path option \<Rightarrow> replication_args \<Rightarrow> ('k rpc_kubo, batch_result) action" where
  "run_batch py decode su store args =
     abind (on_files (open_state py decode (su_pages su 0) args)) (\<lambda>st.
     abind (alift (su_source su)) (\<lambda>_.
     abind (preflight py su store) (\<lambda>_.
     run_pages py su store args (ra_max_pages args) 1
       \<lparr>bt_state = st, bt_new_bytes = 0, bt_new_blocks = 0, bt_checked = 0, bt_pages = 0\<rparr>)))"

section \<open>Actions that only add pins\<close>

text \<open>What an action may do to the pins and to the file at a path: pins are added, the file is kept.\<close>

definition grows :: "path \<Rightarrow> 'k rpc_kubo \<Rightarrow> 'k rpc_kubo \<Rightarrow> bool" where
  "grows p s s' \<longleftrightarrow> set (kb_pins s) \<subseteq> set (kb_pins s') \<and> map_of (kb_fs s') p = map_of (kb_fs s) p"

definition grow_only :: "path \<Rightarrow> ('k rpc_kubo, 'a) action \<Rightarrow> bool" where
  "grow_only p m \<longleftrightarrow> (\<forall>s0. keeps (grows p s0) m)"

lemma grows_refl [simp]: "grows p s s"
  by (simp add: grows_def)

lemma grows_trans: "grows p s s1 \<Longrightarrow> grows p s1 s2 \<Longrightarrow> grows p s s2"
  by (auto simp: grows_def)

lemma grow_onlyI: "(\<And>s. grows p s (snd (m s))) \<Longrightarrow> grow_only p m"
  unfolding grow_only_def keeps_def by (blast intro: grows_trans)

lemma grow_onlyD: "grow_only p m \<Longrightarrow> m s = (r, s') \<Longrightarrow> grows p s s'"
  unfolding grow_only_def by (rule keepsD [of _ m s]) auto

lemma grow_only_combine [keeps_intros]:
  "grow_only p (areturn x)" "grow_only p (araise e)" "grow_only p (alift r)"
  "grow_only p m \<Longrightarrow> (\<And>x. grow_only p (f x)) \<Longrightarrow> grow_only p (abind m f)"
  "grow_only p m \<Longrightarrow> (\<And>msg. grow_only p (h msg)) \<Longrightarrow> grow_only p (acatch_replication m h)"
  "grow_only p a \<Longrightarrow> grow_only p b \<Longrightarrow> grow_only p (if c then a else b)"
  "(\<And>acc x. grow_only p (g acc x)) \<Longrightarrow> grow_only p (afold g acc xs)"
  by (simp_all add: grow_only_def keeps_intros)

lemma grow_only_rpc [keeps_intros]: "only_rpc m \<Longrightarrow> grow_only p m"
proof (rule grow_onlyI)
  fix s
  assume "only_rpc m"
  then have "rpc_only s (snd (m s))" by (metis only_rpcD surjective_pairing)
  from rpc_only_facts(1,2) [OF this] show "grows p s (snd (m s))" by (simp add: grows_def)
qed

lemma grow_only_mark [keeps_intros]: "grow_only p (mark_pinned cid)"
  by (rule grow_onlyI) (auto simp: mark_pinned_def grows_def add_cid_def)

text \<open>A path that is not in the raw store and not on the way to it.\<close>

definition apart :: "path option \<Rightarrow> path \<Rightarrow> bool" where
  "apart store p \<longleftrightarrow> (\<forall>root. store = Some root \<longrightarrow> take (length root) p \<noteq> root \<and> p \<notin> set (ancestors root))"

lemma raw_put_touches:
  assumes "s \<in> set (fst (raw_put py root fs cid data tag1 tag2))" and "p \<in> touches s"
  shows "p \<in> set (ancestors root) \<or> take (length root) p = root"
proof -
  have shard: "take (length root) (shard_dir py root cid) = root" "length root \<le> length (shard_dir py root cid)"
    by (simp_all add: shard_dir_def)
  then have below: "take (length root) (shard_dir py root cid @ q) = root" for q by simp
  have paths: "take (length root) (data_path py root cid) = root" "take (length root) (meta_path py root cid) = root"
    "take (length root) (temp_path (data_path py root cid) tag1) = root"
    "take (length root) (temp_path (meta_path py root cid) tag2) = root"
    using below by (simp_all only: data_path_def meta_path_def) (simp_all add: temp_path_def)
  obtain steps r where put: "raw_put py root fs cid data tag1 tag2 = (steps, r)" by (metis surj_pair)
  show ?thesis
    using put
  proof (rule put_split)
    assume "steps = []"
    then show ?thesis using assms(1) put by simp
  next
    assume "\<forall>s \<in> set steps. touches s \<subseteq> set (ancestors root)"
    then show ?thesis using assms put by auto
  next
    assume "steps = put_opening py root fs cid @ put_data py root fs cid data tag1 @ put_meta py root cid data tag2"
    then have "s \<in> set (put_opening py root fs cid @ put_data py root fs cid data tag1 @
        put_meta py root cid data tag2)" using assms(1) put by simp
    then show ?thesis
      using assms(2) paths shard(1)
      by (auto simp: put_opening_def put_data_def put_meta_def publish_steps_def split: if_splits)
  qed
qed

lemma grow_only_keep_raw:
  assumes "apart store p"
  shows "grow_only p (keep_raw py store cid data tags message)"
proof (rule grow_onlyI)
  fix s
  show "grows p s (snd (keep_raw py store cid data tags message s))"
  proof (cases store)
    case (Some root)
    let ?put = "raw_put py root (kb_fs s) cid data (fst tags) (snd tags)"
    have "take (length root) p \<noteq> root \<and> p \<notin> set (ancestors root)" using assms Some by (simp add: apart_def)
    then have "\<forall>st \<in> set (fst ?put). p \<notin> touches st" using raw_put_touches [of _ py root] by metis
    then have untouched: "map_of (run_steps (fst ?put) (kb_fs s)) p = map_of (kb_fs s) p" by (rule run_steps_untouched)
    obtain steps r where put: "?put = (steps, r)" by (metis surj_pair)
    show ?thesis
    proof (cases "contains_text ''pin: protobuf:'' message")
      case True
      have untouched: "map_of (run_steps steps (kb_fs s)) p = map_of (kb_fs s) p" using untouched by (simp add: put)
      have "keep_raw py store cid data tags message s =
          (case r of Inl e \<Rightarrow> (Inl e, s\<lparr>kb_fs := run_steps steps (kb_fs s)\<rparr>)
           | Inr u \<Rightarrow> (Inr (), s\<lparr>kb_fs := run_steps steps (kb_fs s), kb_raw_cids := add_cid cid (kb_raw_cids s),
               kb_pins := add_cid cid (kb_pins s)\<rparr>))"
        unfolding keep_raw_def Some by (simp only: True put option.case prod.case Let_def) (simp split: sum.split)
      then show ?thesis by (cases r) (simp_all add: grows_def untouched add_cid_def subset_insertI)
    qed (simp add: keep_raw_def Some)
  qed (simp add: keep_raw_def)
qed

lemma grow_only_put_verified: "apart store p \<Longrightarrow> grow_only p (put_verified py rpc store tags cid data)"
  unfolding put_verified_def pin_or_keep_def
  by (intro keeps_intros only_rpc_request only_rpc_durable only_rpc_pin_add grow_only_keep_raw)

lemma grow_only_snd: "grow_only p m \<Longrightarrow> grows p s (snd (m s))"
  by (metis grow_onlyD surjective_pairing)

lemma only_rpc_size: "only_rpc (block_size py rpc store cid)"
  for rpc :: "'k rpc"
  unfolding only_rpc_def keeps_def
proof (intro allI impI)
  fix s0 s :: "'k rpc_kubo"
  assume base: "rpc_only s0 s"
  let ?ask = "abind (rpc_json py rpc ''block/stat'' [(''arg'', cid)] None) (\<lambda>kvs.
    case as_int (field kvs ''Size'') of
      None \<Rightarrow> araise (ReplicationError (''Kubo RPC block size unreadable for '' @ cid))
    | Some n \<Rightarrow>
        if n < 0 then araise (ReplicationError (''Kubo RPC block size unreadable for '' @ cid))
        else areturn n)"
  have "only_rpc (case v of None \<Rightarrow> araise e | Some n \<Rightarrow> if n < 0 then araise e else areturn n)"
    for v :: "int option" and e by (cases v) (simp_all add: keeps_intros)
  then have "only_rpc ?ask" by (intro keeps_intros)
  then have "rpc_only s0 (snd (?ask s))" using base by (auto simp: only_rpc_def keeps_def)
  then show "rpc_only s0 (snd (block_size py rpc store cid s))"
    using base by (simp add: block_size_def split: option.split)
qed

lemma grow_only_block_size: "grow_only p (block_size py rpc store cid)"
  by (rule grow_only_rpc [OF only_rpc_size])

lemma grow_only_plan: "grow_only p (plan_block py (su :: 'a surroundings) store args new_bytes pl item)"
proof (rule grow_onlyI)
  fix s :: "'a rpc_kubo"
  obtain cid sz where item: "item = (cid, sz)" by (cases item)
  let ?look = "if cid \<in> set (kb_pins s) then areturn ()
    else abind (durable_pin_type py (su_rpc su) cid) (\<lambda>kind. if kind \<noteq> None then mark_pinned cid else areturn ())"
  have look: "grow_only p ?look" by (intro keeps_intros only_rpc_durable)
  obtain r s1 where run: "?look s = (r, s1)" by (metis surj_pair)
  have g: "grows p s s1" using grow_onlyD [OF look run] .
  let ?check = "abind (block_size py (su_rpc su) store cid) (\<lambda>n.
    if n \<noteq> sz then araise (ReplicationError (''pinned block size differs from listing: '' @ cid))
    else areturn (pl\<lparr>pl_checked := pl_checked pl + 1\<rparr>))"
  have "grow_only p ?check" by (intro keeps_intros grow_only_block_size)
  then have "grows p s (snd (?check s1))" using grows_trans [OF g] grow_only_snd by blast
  then show "grows p s (snd (plan_block py su store args new_bytes pl item s))"
    using g by (cases r) (simp_all add: plan_block_def item Let_def abind_def [of ?look] run)
qed

lemma grow_only_append:
  "p \<noteq> ra_state_dir args @ [''receipts.jsonl''] \<Longrightarrow> grow_only p (append_receipt py su args cid sz data)"
  by (rule grow_onlyI) (simp add: append_receipt_def Let_def grows_def)

section \<open>Planning a page\<close>

lemma plan_block_Inr:
  fixes s :: "'a rpc_kubo"
  assumes "plan_block py su store args new_bytes pl item s = (Inr pl', s')"
  shows "pl_stop pl \<and> pl' = pl \<or>
    \<not> pl_stop pl \<and> snd item \<le> ra_max_block_bytes args \<and>
    (fst item \<in> set (kb_pins s') \<and> pl' = pl\<lparr>pl_checked := pl_checked pl + 1\<rparr> \<or>
     pl' = pl\<lparr>pl_stop := True\<rparr> \<or>
     new_bytes + pl_bytes pl + snd item \<le> ra_max_new_bytes args \<and>
       pl' = pl\<lparr>pl_selected := pl_selected pl @ [item], pl_bytes := pl_bytes pl + snd item\<rparr>)"
proof -
  obtain cid sz where item: "item = (cid, sz)" by (cases item)
  let ?look = "if cid \<in> set (kb_pins s) then areturn ()
    else abind (durable_pin_type py (su_rpc su) cid) (\<lambda>kind. if kind \<noteq> None then mark_pinned cid else areturn ())"
  show ?thesis
  proof (cases "pl_stop pl \<or> ra_max_block_bytes args < sz")
    case True
    then show ?thesis using assms by (auto simp: plan_block_def item Let_def split: if_splits)
  next
    case False
    obtain r s1 where run: "?look s = (r, s1)" by (metis surj_pair)
    with assms False obtain u where r: "r = Inr u"
      by (cases r) (simp_all add: plan_block_def item Let_def abind_def [of ?look])
    show ?thesis
    proof (cases "cid \<in> set (kb_pins s1)")
      case True
      then obtain n where "block_size py (su_rpc su) store cid s1 = (Inr n, s')" "n = sz"
        "pl' = pl\<lparr>pl_checked := pl_checked pl + 1\<rparr>"
        using assms False run r
        by (auto simp: plan_block_def item Let_def abind_def [of ?look] abind_Inr split: if_splits)
      moreover have "cid \<in> set (kb_pins s')"
        using True grow_onlyD [OF grow_only_block_size calculation(1), of "[]"] by (auto simp: grows_def)
      ultimately show ?thesis using False item by auto
    next
      case notin: False
      then show ?thesis
        using assms False run r
        by (auto simp: plan_block_def item Let_def abind_def [of ?look] not_less split: if_splits)
    qed
  qed
qed

text \<open>After planning, every block is held or selected, unless the budget stopped the plan; the selected
  blocks are within the byte budget and the block limit.\<close>

lemma plan_step:
  fixes su :: "'k surroundings"
  assumes "plan_block py su store args new_bytes pl b s = (Inr pl', s')"
  shows "(pl_stop pl' \<or> \<not> pl_stop pl \<and> (fst b \<in> set (kb_pins s') \<or> b \<in> set (pl_selected pl'))) \<and>
    set (kb_pins s) \<subseteq> set (kb_pins s') \<and> set (pl_selected pl) \<subseteq> set (pl_selected pl')"
  using plan_block_Inr [OF assms] grow_onlyD [OF grow_only_plan assms, of "[]"] by (auto simp: grows_def)

lemma plan_covers:
  fixes su :: "'k surroundings"
  shows "afold (plan_block py su store args new_bytes) pl0 blocks s = (Inr pl, s') \<Longrightarrow>
    (pl_stop pl \<or> \<not> pl_stop pl0 \<and> (\<forall>b \<in> set blocks. fst b \<in> set (kb_pins s') \<or> b \<in> set (pl_selected pl))) \<and>
    set (kb_pins s) \<subseteq> set (kb_pins s') \<and> set (pl_selected pl0) \<subseteq> set (pl_selected pl)"
proof (induction blocks arbitrary: pl0 s)
  case (Cons b blocks)
  then obtain pl1 s1 where step: "plan_block py su store args new_bytes pl0 b s = (Inr pl1, s1)"
    and rest: "afold (plan_block py su store args new_bytes) pl1 blocks s1 = (Inr pl, s')"
    by (auto split: prod.splits sum.splits)
  show ?case using plan_step [OF step] Cons.IH [OF rest] by auto
qed simp

lemma plan_budget:
  fixes su :: "'k surroundings"
  shows "afold (plan_block py su store args new_bytes) pl0 blocks s = (Inr pl, s') \<Longrightarrow>
    pl_bytes pl0 = sum_list (map snd (pl_selected pl0)) \<Longrightarrow> new_bytes + pl_bytes pl0 \<le> ra_max_new_bytes args \<Longrightarrow>
    pl_bytes pl = sum_list (map snd (pl_selected pl)) \<and> new_bytes + pl_bytes pl \<le> ra_max_new_bytes args"
proof (induction blocks arbitrary: pl0 s)
  case (Cons b blocks)
  then obtain pl1 s1 where step: "plan_block py su store args new_bytes pl0 b s = (Inr pl1, s1)"
    and rest: "afold (plan_block py su store args new_bytes) pl1 blocks s1 = (Inr pl, s')"
    by (auto split: prod.splits sum.splits)
  have "pl_bytes pl1 = sum_list (map snd (pl_selected pl1)) \<and> new_bytes + pl_bytes pl1 \<le> ra_max_new_bytes args"
    using plan_block_Inr [OF step] Cons.prems(2,3) by auto
  then show ?case using Cons.IH [OF rest] by blast
qed simp

section \<open>Storing a page\<close>

lemma put_verified_holds:
  assumes "put_verified py rpc store tags cid data s = (Inr (), s')"
  shows "cid \<in> set (kb_pins s')"
  using assms
proof (rule put_verified_Inr)
  fix s1
  assume "(\<exists>s2 message. rpc_only s1 s2 \<and> keep_raw py store cid data tags message s2 = (Inr (), s')) \<or>
     (\<exists>s2. rpc_only s1 s2 \<and> confirmed_pin py (kb_log s2) cid \<and> mark_pinned cid s2 = (Inr (), s'))"
  then show ?thesis by (auto dest: keep_raw_Inr simp: mark_pinned_def add_cid_def)
qed

text \<open>What storing blocks may do: pins are added, and the checkpoint on disk, when it is written, keeps
  the cursor \<open>c\<close>.\<close>

definition same_cursor :: "pylib \<Rightarrow> path \<Rightarrow> json \<Rightarrow> 'k rpc_kubo \<Rightarrow> 'k rpc_kubo \<Rightarrow> bool" where
  "same_cursor py p c s s' \<longleftrightarrow> set (kb_pins s) \<subseteq> set (kb_pins s') \<and>
     (map_of (kb_fs s') p = map_of (kb_fs s) p \<or>
      (\<exists>st. map_of (kb_fs s') p = Some (File (checkpoint_text py st)) \<and> field st ''cursor'' = c))"

lemma same_cursor_refl [simp]: "same_cursor py p c s s"
  by (simp add: same_cursor_def)

lemma same_cursor_trans: "same_cursor py p c s s1 \<Longrightarrow> same_cursor py p c s1 s2 \<Longrightarrow> same_cursor py p c s s2"
  unfolding same_cursor_def by (metis subset_trans)

lemma grows_same_cursor: "grows p s s' \<Longrightarrow> same_cursor py p c s s'"
  by (simp add: same_cursor_def grows_def)

lemma cursor_add_to [simp]:
  "key \<noteq> ''cursor'' \<Longrightarrow> field (add_to key n st) ''cursor'' = field st ''cursor''"
  by (simp add: add_to_def)

lemma state_path_neq [simp]: "state_path args \<noteq> ra_state_dir args @ [''receipts.jsonl'']"
  by (simp add: state_path_def)

lemma store_block_cursor:
  assumes "store_block py su store args bt got s = (r, s')" and "apart store (state_path args)"
  shows "same_cursor py (state_path args) (field (bt_state bt) ''cursor'') s s' \<and>
    (\<forall>bt'. r = Inr bt' \<longrightarrow> fst (fst got) \<in> set (kb_pins s') \<and>
       field (bt_state bt') ''cursor'' = field (bt_state bt) ''cursor'' \<and>
       bt_new_bytes bt' = bt_new_bytes bt + snd (fst got) \<and> bt_pages bt' = bt_pages bt)"
proof -
  obtain cid sz data where got: "got = ((cid, sz), data)" by (metis surj_pair)
  let ?p = "state_path args" and ?c = "field (bt_state bt) ''cursor''"
  let ?put = "put_verified py (su_rpc su) store (su_tags su cid) cid data"
  show ?thesis
  proof (cases "int (length data) = sz")
    case True
    obtain r1 s1 where put: "?put s = (r1, s1)" by (metis surj_pair)
    have g1: "same_cursor py ?p ?c s s1"
      using grow_onlyD [OF grow_only_put_verified [OF assms(2)] put] by (rule grows_same_cursor)
    obtain r2 s2 where app: "append_receipt py su args cid sz data s1 = (r2, s2)" by (metis surj_pair)
    have "grows ?p s1 s2" using grow_onlyD [OF grow_only_append [OF state_path_neq] app] .
    then have g2: "same_cursor py ?p ?c s1 s2" by (rule grows_same_cursor)
    let ?st = "add_to ''new_bytes_total'' sz (add_to ''new_blocks_total'' 1 (bt_state bt))"
    have g3: "same_cursor py ?p ?c s2 (snd (save_checkpoint py args ?st s2))"
      unfolding same_cursor_def save_checkpoint_def by (intro conjI disjI2 exI [of _ ?st]) simp_all
    show ?thesis
    proof (cases r1)
      case (Inl e)
      then show ?thesis using assms(1) g1 True put by (auto simp: store_block_def got Let_def abind_def)
    next
      case (Inr u)
      then have held: "cid \<in> set (kb_pins s1)" using put_verified_holds put by simp
      have r2: "r2 = Inr ()" using app by (simp add: append_receipt_def Let_def)
      have eq: "r = Inr (bt\<lparr>bt_state := ?st, bt_new_bytes := bt_new_bytes bt + sz,
          bt_new_blocks := bt_new_blocks bt + 1, bt_checked := bt_checked bt + 1\<rparr>)"
        "s' = snd (save_checkpoint py args ?st s2)"
        using assms(1) True put app Inr r2
        by (simp_all add: store_block_def got Let_def abind_def save_checkpoint_def)
      have "cid \<in> set (kb_pins s')"
        using held same_cursor_trans [OF g2 g3] eq(2) unfolding same_cursor_def by blast
      then show ?thesis
        using same_cursor_trans [OF same_cursor_trans [OF g1 g2] g3] eq by (simp add: got)
    qed
  next
    case False
    then show ?thesis using assms(1) by (auto simp: store_block_def got)
  qed
qed

lemma store_blocks_cursor:
  assumes "apart store (state_path args)"
  shows "afold (store_block py su store args) bt gots s = (r, s') \<Longrightarrow>
    same_cursor py (state_path args) (field (bt_state bt) ''cursor'') s s' \<and>
    (\<forall>bt'. r = Inr bt' \<longrightarrow> (\<forall>got \<in> set gots. fst (fst got) \<in> set (kb_pins s')) \<and>
       field (bt_state bt') ''cursor'' = field (bt_state bt) ''cursor'' \<and>
       bt_new_bytes bt' = bt_new_bytes bt + sum_list (map (snd \<circ> fst) gots) \<and> bt_pages bt' = bt_pages bt)"
proof (induction gots arbitrary: bt s)
  case (Cons got gots)
  obtain r1 s1 where step: "store_block py su store args bt got s = (r1, s1)" by (metis surj_pair)
  note first = store_block_cursor [OF step assms]
  show ?case
  proof (cases r1)
    case (Inl e)
    then have "r = Inl e" "s' = s1" using Cons.prems by (simp_all add: step)
    then show ?thesis using first by simp
  next
    case (Inr bt1)
    with Cons.prems have rest: "afold (store_block py su store args) bt1 gots s1 = (r, s')" by (simp add: step)
    have sub: "set (kb_pins s1) \<subseteq> set (kb_pins s')" using Cons.IH [OF rest] by (simp add: same_cursor_def)
    have c: "field (bt_state bt1) ''cursor'' = field (bt_state bt) ''cursor''"
      and n: "bt_new_bytes bt1 = bt_new_bytes bt + snd (fst got)" "bt_pages bt1 = bt_pages bt"
      and held: "fst (fst got) \<in> set (kb_pins s')"
      using first Inr sub by blast+
    have kept: "same_cursor py (state_path args) (field (bt_state bt) ''cursor'') s s'"
      by (rule same_cursor_trans [of _ _ _ _ s1]) (use first Cons.IH [OF rest] c in simp_all)
    show ?thesis
    proof (intro conjI allI impI kept)
      fix bt'
      assume "r = Inr bt'"
      with Cons.IH [OF rest] have
        "\<forall>got \<in> set gots. fst (fst got) \<in> set (kb_pins s')" "field (bt_state bt') ''cursor'' = field (bt_state bt1) ''cursor''"
        "bt_new_bytes bt' = bt_new_bytes bt1 + sum_list (map (snd \<circ> fst) gots)" "bt_pages bt' = bt_pages bt1"
        by blast+
      with held c n show "\<forall>got \<in> set (got # gots). fst (fst got) \<in> set (kb_pins s')"
        "field (bt_state bt') ''cursor'' = field (bt_state bt) ''cursor''"
        "bt_new_bytes bt' = bt_new_bytes bt + sum_list (map (snd \<circ> fst) (got # gots))" "bt_pages bt' = bt_pages bt"
        by simp_all
    qed
  qed
qed auto

section \<open>Why a block counts as held\<close>

text \<open>A pin the command-line program listed, in answer to \<open>pin ls\<close> for direct or for recursive pins.\<close>

definition batch_pin :: "(string list \<times> (int \<times> bytes) res) list \<Rightarrow> string \<Rightarrow> bool" where
  "batch_pin runs cid \<longleftrightarrow>
     (\<exists>out. (([''pin'', ''ls'', ''--type=direct''], Inr (0, out)) \<in> set runs \<or>
             ([''pin'', ''ls'', ''--type=recursive''], Inr (0, out)) \<in> set runs) \<and>
        cid \<in> set (first_words (text_of out)))"

text \<open>The evidence for one block: a listed pin, a direct or recursive pin the daemon confirmed when asked for this
  CID, or the block itself, which the raw store gives back and checks.\<close>

definition pin_evidence :: "pylib \<Rightarrow> path option \<Rightarrow> 'k rpc_kubo \<Rightarrow> string \<Rightarrow> bool" where
  "pin_evidence py store s cid \<longleftrightarrow> batch_pin (kb_runs s) cid \<or> confirmed_pin py (kb_log s) cid \<or>
     (\<exists>root. store = Some root \<and> stored py root (kb_fs s) cid \<noteq> None)"

definition pins_ok :: "pylib \<Rightarrow> path option \<Rightarrow> 'k rpc_kubo \<Rightarrow> bool" where
  "pins_ok py store s \<longleftrightarrow> (\<forall>root. store = Some root \<longrightarrow> consistent py root (kb_fs s)) \<and>
     (\<forall>cid \<in> set (kb_pins s). pin_evidence py store s cid)"

lemma pin_evidence_mono:
  assumes "pin_evidence py store s cid" and "set (kb_runs s) \<subseteq> set (kb_runs s')" and "set (kb_log s) \<subseteq> set (kb_log s')"
    and "\<And>root. store = Some root \<Longrightarrow> stored py root (kb_fs s) cid \<noteq> None \<Longrightarrow> stored py root (kb_fs s') cid \<noteq> None"
  shows "pin_evidence py store s' cid"
proof -
  from assms(1) consider "batch_pin (kb_runs s) cid" | "confirmed_pin py (kb_log s) cid"
    | root where "store = Some root" "stored py root (kb_fs s) cid \<noteq> None" by (auto simp: pin_evidence_def)
  then show ?thesis
  proof cases
    case 1
    then have "batch_pin (kb_runs s') cid" using assms(2) unfolding batch_pin_def by (meson subsetD)
    then show ?thesis by (simp add: pin_evidence_def)
  next
    case 2
    then show ?thesis using evidence_mono(3) [OF assms(3)] by (simp add: pin_evidence_def)
  next
    case (3 root)
    then show ?thesis using assms(4) by (simp add: pin_evidence_def)
  qed
qed

lemma pins_ok_rpc:
  assumes "rpc_only s s'" and "pins_ok py store s"
  shows "pins_ok py store s'"
  using assms(2) rpc_only_facts [OF assms(1)] pin_evidence_mono [of py store s _ s'] by (simp add: pins_ok_def)

lemma pins_ok_mark:
  "pins_ok py store s \<Longrightarrow> pin_evidence py store s cid \<Longrightarrow> pins_ok py store (snd (mark_pinned cid s))"
  by (auto simp: pins_ok_def mark_pinned_def add_cid_def pin_evidence_def)

lemma keeps_pins_rpc: "only_rpc m \<Longrightarrow> keeps (pins_ok py store) m"
  unfolding keeps_def by (metis only_rpcD pins_ok_rpc surjective_pairing)

lemmas keeps_pins_calls = keeps_pins_rpc [OF only_rpc_json] keeps_pins_rpc [OF only_rpc_request]
  keeps_pins_rpc [OF only_rpc_durable] keeps_pins_rpc [OF only_rpc_pin_add]

text \<open>Marking after the daemon has confirmed the pin.\<close>

lemma keeps_confirmed:
  fixes rpc :: "'k rpc"
  assumes "keeps (pins_ok py store) m" and "f None = m" and "\<And>kind. f (Some kind) = mark_pinned cid"
  shows "keeps (pins_ok py store) (abind (durable_pin_type py rpc cid) f)"
  unfolding keeps_def
proof (intro allI impI)
  fix s :: "'k rpc_kubo"
  assume ok: "pins_ok py store s"
  obtain r s1 where ask: "durable_pin_type py rpc cid s = (r, s1)" by (metis surj_pair)
  have ok1: "pins_ok py store s1" using pins_ok_rpc [OF rpc_steps(3) [OF ask] ok] .
  show "pins_ok py store (snd (abind (durable_pin_type py rpc cid) f s))"
  proof (cases r)
    case (Inl e)
    then show ?thesis using ask ok1 by (simp add: abind_def)
  next
    case (Inr found)
    show ?thesis
    proof (cases found)
      case None
      then show ?thesis using ask Inr ok1 assms(1,2) by (simp add: abind_def keeps_def)
    next
      case (Some kind)
      then have "confirmed_pin py (kb_log s1) cid"
        using pin_type_Inr ask [unfolded durable_pin_type_def Inr Some] by blast
      then have "pin_evidence py store s1 cid" by (simp add: pin_evidence_def)
      then show ?thesis using ask Inr Some assms(3) pins_ok_mark [OF ok1] by (simp add: abind_def)
    qed
  qed
qed

lemma stored_crash:
  assumes "consistent py root fs" and "stored py root fs cid' \<noteq> None"
  shows "stored py root (raw_put_fs py root fs cid data tag1 tag2) cid' \<noteq> None"
proof -
  from assms(2) obtain d where "raw_read py root fs cid' MAX_BLOCK = Inr (Some d)"
    by (auto simp: stored_def split: sum.splits option.splits)
  then have "raw_read py root (raw_put_fs py root fs cid data tag1 tag2) cid' MAX_BLOCK = Inr (Some d)"
    unfolding raw_put_fs_def by (rule put_readable(1) [OF assms(1) crash_complete])
  then show ?thesis by (simp add: stored_def)
qed

lemma keeps_pins_raw:
  fixes tags :: "string \<times> string"
  assumes "\<And>root data. store = Some root \<Longrightarrow> meta_readable py cid data"
  shows "keeps (pins_ok py store) (keep_raw py store cid data tags message)"
  unfolding keeps_def
proof (intro allI impI)
  fix s
  assume ok: "pins_ok py store s"
  show "pins_ok py store (snd (keep_raw py store cid data tags message s))"
  proof (cases "store = None \<or> \<not> contains_text ''pin: protobuf:'' message")
    case True
    then show ?thesis using ok by (auto simp: keep_raw_def split: option.split)
  next
    case False
    then obtain root where root: "store = Some root" "contains_text ''pin: protobuf:'' message" by auto
    have con: "consistent py root (kb_fs s)" using ok root(1) by (simp add: pins_ok_def)
    let ?fs = "raw_put_fs py root (kb_fs s) cid data (fst tags) (snd tags)"
    let ?r = "snd (raw_put py root (kb_fs s) cid data (fst tags) (snd tags))"
    have con': "consistent py root ?fs" using raw.add_valid [OF con] by simp
    have kept: "pin_evidence py store s' cid'"
      if "pin_evidence py store s cid'" "kb_fs s' = ?fs" "kb_log s' = kb_log s" "kb_runs s' = kb_runs s" for cid' s'
      by (rule pin_evidence_mono [OF that(1)]) (use that root stored_crash [OF con] in auto)
    have new: "stored py root ?fs cid \<noteq> None" if put: "?r = Inr ()"
    proof -
      have "raw_put py root (kb_fs s) cid data (fst tags) (snd tags) =
          (fst (raw_put py root (kb_fs s) cid data (fst tags) (snd tags)), Inr ())" using put by (metis prod.collapse)
      from put_files [OF con this assms [OF root(1)]] have "length data \<le> MAX_BLOCK" by simp
      then have "raw_read py root ?fs cid MAX_BLOCK = Inr (Some data)"
        using raw.add_get [OF con assms [OF root(1)]] put by simp
      then show ?thesis by (simp add: stored_def)
    qed
    have eq: "keep_raw py store cid data tags message s =
        (case ?r of Inl e \<Rightarrow> (Inl e, s\<lparr>kb_fs := ?fs\<rparr>)
         | Inr u \<Rightarrow> (Inr (), s\<lparr>kb_fs := ?fs, kb_raw_cids := add_cid cid (kb_raw_cids s),
             kb_pins := add_cid cid (kb_pins s)\<rparr>))"
      using root by (simp add: keep_raw_def raw_put_fs_def Let_def split: prod.split sum.split)
    have old: "\<forall>cid' \<in> set (kb_pins s). pin_evidence py store s cid'" using ok by (simp add: pins_ok_def)
    show ?thesis
    proof (cases ?r)
      case (Inl e)
      then have "pins_ok py store (s\<lparr>kb_fs := ?fs\<rparr>)"
        using old con' root(1) kept [of _ "s\<lparr>kb_fs := ?fs\<rparr>"] by (simp add: pins_ok_def)
      then show ?thesis using Inl by (simp add: eq)
    next
      case (Inr u)
      let ?s = "s\<lparr>kb_fs := ?fs, kb_raw_cids := add_cid cid (kb_raw_cids s), kb_pins := add_cid cid (kb_pins s)\<rparr>"
      have "pin_evidence py store ?s cid" using new root(1) Inr by (simp add: pin_evidence_def)
      then have "pins_ok py store ?s"
        using old con' root(1) kept [of _ ?s] by (auto simp: pins_ok_def add_cid_def)
      then show ?thesis using Inr by (simp add: eq)
    qed
  qed
qed

lemma keeps_pins_put:
  assumes "\<And>root data. store = Some root \<Longrightarrow> meta_readable py cid data"
  shows "keeps (pins_ok py store) (put_verified py rpc store tags cid data)"
proof -
  have fin: "keeps (pins_ok py store) (abind (durable_pin_type py rpc cid) (\<lambda>kind.
      if kind = None then araise e else mark_pinned cid))" for e
    by (rule keeps_confirmed [of _ _ "araise e"]) (simp_all add: keeps_intros)
  show ?thesis
    unfolding put_verified_def pin_or_keep_def
    by (intro fin keeps_intros keeps_pins_calls keeps_pins_raw assms)
qed

text \<open>Files that are not in the raw store.\<close>

definition off_store :: "path option \<Rightarrow> path \<Rightarrow> bool" where
  "off_store store p \<longleftrightarrow> (\<forall>root. store = Some root \<longrightarrow> take (length root) p \<noteq> root)"

lemma store_files_below:
  "take (length root) (data_path py root cid) = root" "take (length root) (meta_path py root cid) = root"
  by (simp_all add: data_path_def meta_path_def shard_dir_def)

lemma pins_ok_files:
  assumes "pins_ok py store s" and "\<And>p. \<not> off_store store p \<Longrightarrow> map_of fs p = map_of (kb_fs s) p"
  shows "pins_ok py store (s\<lparr>kb_fs := fs\<rparr>)"
proof -
  have same: "map_of fs (data_path py root cid) = map_of (kb_fs s) (data_path py root cid)"
    "map_of fs (meta_path py root cid) = map_of (kb_fs s) (meta_path py root cid)" if "store = Some root" for root cid
    using assms(2) that store_files_below by (auto simp: off_store_def)
  have "consistent py root fs" if "store = Some root" for root
    using assms(1) same [OF that] that entry_ok_cong [of fs py root _ "kb_fs s"] by (simp add: pins_ok_def consistent_def)
  moreover have "stored py root fs cid = stored py root (kb_fs s) cid" if "store = Some root" for root cid
    using same [OF that] read_cong [of fs py root cid "kb_fs s"] by (simp add: stored_def)
  ultimately show ?thesis using assms(1) by (auto simp: pins_ok_def pin_evidence_def)
qed

text \<open>The files a batch writes, outside the raw store.\<close>

definition batch_files_outside :: "path option \<Rightarrow> replication_args \<Rightarrow> bool" where
  "batch_files_outside store args \<longleftrightarrow> off_store store (state_path args) \<and> off_store store (temp_name (state_path args)) \<and>
     off_store store (ra_state_dir args @ [''receipts.jsonl''])"

lemma keeps_pins_save:
  assumes "batch_files_outside store args"
  shows "keeps (pins_ok py store) (save_checkpoint py args st)"
  unfolding keeps_def
proof (intro allI impI)
  fix s
  assume ok: "pins_ok py store s"
  have "map_of (save_state py (state_path args) st fs) p = map_of fs p" if "\<not> off_store store p" for p fs
    unfolding save_state_def
    by (rule run_steps_untouched) (use assms that in \<open>auto simp: batch_files_outside_def state_save_def\<close>)
  then show "pins_ok py store (snd (save_checkpoint py args st s))"
    using pins_ok_files [OF ok] by (simp add: save_checkpoint_def)
qed

lemma keeps_pins_append:
  assumes "batch_files_outside store args"
  shows "keeps (pins_ok py store) (append_receipt py (su :: 'a surroundings) args cid sz data)"
  unfolding keeps_def
proof (intro allI impI)
  fix s :: "'a rpc_kubo"
  assume ok: "pins_ok py store s"
  have "p \<noteq> ra_state_dir args @ [''receipts.jsonl'']" if "\<not> off_store store p" for p
    using assms that by (auto simp: batch_files_outside_def)
  then show "pins_ok py store (snd (append_receipt py su args cid sz data s))"
    by (auto simp: append_receipt_def Let_def intro!: pins_ok_files [OF ok])
qed

lemma keeps_pins_size: "keeps (pins_ok py store) (block_size py rpc store' cid)"
  by (rule keeps_pins_rpc [OF only_rpc_size])

lemma keeps_pins_plan: "keeps (pins_ok py store) (plan_block py (su :: 'a surroundings) store args new_bytes pl item)"
  unfolding keeps_def
proof (intro allI impI)
  fix s :: "'a rpc_kubo"
  assume ok: "pins_ok py store s"
  obtain cid sz where item: "item = (cid, sz)" by (cases item)
  let ?look = "if cid \<in> set (kb_pins s) then areturn ()
    else abind (durable_pin_type py (su_rpc su) cid) (\<lambda>kind. if kind \<noteq> None then mark_pinned cid else areturn ())"
  have "keeps (pins_ok py store) (abind (durable_pin_type py (su_rpc su) cid)
      (\<lambda>kind. if kind \<noteq> None then mark_pinned cid else areturn ()))"
    by (rule keeps_confirmed [of _ _ "areturn ()"]) (simp_all add: keeps_intros)
  then have look: "keeps (pins_ok py store) ?look" by (simp add: keeps_intros)
  obtain r s1 where run: "?look s = (r, s1)" by (metis surj_pair)
  have ok1: "pins_ok py store s1" using keepsD [OF look ok run] .
  let ?check = "abind (block_size py (su_rpc su) store cid) (\<lambda>n.
    if n \<noteq> sz then araise (ReplicationError (''pinned block size differs from listing: '' @ cid))
    else areturn (pl\<lparr>pl_checked := pl_checked pl + 1\<rparr>))"
  have "keeps (pins_ok py store) ?check" by (intro keeps_intros keeps_pins_size)
  then have "pins_ok py store (snd (?check s1))" using ok1 by (simp add: keeps_def)
  then show "pins_ok py store (snd (plan_block py su store args new_bytes pl item s))"
    using ok ok1 by (cases r) (simp_all add: plan_block_def item Let_def abind_def [of ?look] run)
qed

text \<open>A batch keeps the evidence, however it ends.\<close>

lemma keeps_pins_block:
  assumes "batch_files_outside store args" and "\<And>root cid data. store = Some root \<Longrightarrow> meta_readable py cid data"
  shows "keeps (pins_ok py store) (store_block py su store args bt got)"
proof -
  obtain cid sz data where got: "got = ((cid, sz), data)" by (metis surj_pair)
  show ?thesis
    unfolding store_block_def got Let_def prod.case
    by (intro keeps_intros keeps_pins_put keeps_pins_append keeps_pins_save assms)
qed

lemma keeps_pins_page:
  assumes "batch_files_outside store args" and "\<And>root cid data. store = Some root \<Longrightarrow> meta_readable py cid data"
  shows "keeps (pins_ok py store) (run_page py su store args i bt)"
proof -
  have opt: "keeps P (case x of None \<Rightarrow> m | Some e \<Rightarrow> araise e)" if "keeps P m"
    for P and x :: "exn option" and m :: "('a rpc_kubo, page_end \<times> batch) action"
    using that by (cases x) (simp_all add: keeps_intros)
  have pr: "keeps P (case x of (a, b) \<Rightarrow> m a b)" if "\<And>a b. keeps P (m a b)"
    for P and x :: "((item \<times> bytes) list) \<times> exn option" and m :: "_ \<Rightarrow> _ \<Rightarrow> ('a rpc_kubo, page_end \<times> batch) action"
    using that by (cases x) simp
  show ?thesis
    unfolding run_page_def Let_def
    by (intro keeps_intros opt pr keeps_pins_plan keeps_pins_block keeps_pins_save assms)
qed

lemma keeps_pins_pages:
  assumes "batch_files_outside store args" and "\<And>root cid data. store = Some root \<Longrightarrow> meta_readable py cid data"
  shows "keeps (pins_ok py store) (run_pages py su store args n i bt)"
proof (induction n arbitrary: i bt)
  case (Suc n)
  have ended: "keeps (pins_ok py store) (case how of
         Byte_Budget \<Rightarrow> areturn (batch_result_of ''byte-budget'' False bt)
       | Cycle_Complete \<Rightarrow> areturn (batch_result_of ''cycle-complete'' True bt)
       | Next_Page \<Rightarrow> run_pages py su store args n (i + 1) bt)" for how bt
    using Suc by (cases how) (simp_all add: keeps_intros)
  show ?case unfolding run_pages.simps
    by (intro keeps_abind keeps_pins_page keeps_case_prod ended assms)
qed (simp add: keeps_intros)

section \<open>The cursor\<close>

text \<open>Cursors reachable from \<open>c\<close> by passing pages all of whose blocks are held.\<close>

inductive passed :: "(nat \<Rightarrow> string option \<Rightarrow> listing res) \<Rightarrow> (string \<Rightarrow> bool) \<Rightarrow> json \<Rightarrow> json \<Rightarrow> bool"
  for pages held c where
  start: "passed pages held c c"
| page: "passed pages held c c1 \<Longrightarrow> pages i (as_str c1) = Inr page \<Longrightarrow>
    \<forall>b \<in> set (ls_blocks page). held (fst b) \<Longrightarrow> passed pages held c (next_cursor page)"

lemma passed_one:
  "pages i (as_str c) = Inr page \<Longrightarrow> \<forall>b \<in> set (ls_blocks page). held (fst b) \<Longrightarrow>
    passed pages held c (next_cursor page)"
  using passed.page [of pages held c c i page] passed.start by blast

lemma passed_mono:
  "passed pages held c c1 \<Longrightarrow> (\<And>cid. held cid \<Longrightarrow> held' cid) \<Longrightarrow> passed pages held' c c1"
  by (induction rule: passed.induct) (auto intro: passed.intros)

lemma passed_trans: "passed pages held c1 c2 \<Longrightarrow> passed pages held c c1 \<Longrightarrow> passed pages held c c2"
  by (induction rule: passed.induct) (auto intro: passed.intros)

text \<open>How a round over a page ends.\<close>

definition page_outcome ::
    "pylib \<Rightarrow> 'k surroundings \<Rightarrow> replication_args \<Rightarrow> nat \<Rightarrow> batch \<Rightarrow> 'k rpc_kubo \<Rightarrow>
      (page_end \<times> batch) res \<Rightarrow> 'k rpc_kubo \<Rightarrow> bool" where
  "page_outcome py su args i bt s r s' =
     (let c = field (bt_state bt) ''cursor''; p = state_path args in
      case r of
        Inl e \<Rightarrow> same_cursor py p c s s'
      | Inr (how, bt') \<Rightarrow>
          (bt_new_bytes bt \<le> ra_max_new_bytes args \<longrightarrow> bt_new_bytes bt' \<le> ra_max_new_bytes args) \<and>
          (if how = Byte_Budget then same_cursor py p c s s'
           else set (kb_pins s) \<subseteq> set (kb_pins s') \<and>
             map_of (kb_fs s') p = Some (File (checkpoint_text py (bt_state bt'))) \<and>
             (\<exists>page. su_pages su i (as_str c) = Inr page \<and> (\<forall>b \<in> set (ls_blocks page). fst b \<in> set (kb_pins s')) \<and>
                field (bt_state bt') ''cursor'' = next_cursor page)))"

lemma run_page_outcome:
  fixes su :: "'k surroundings"
  assumes run: "run_page py su store args i bt s = (r, s')" and apart: "apart store (state_path args)"
  shows "page_outcome py su args i bt s r s'"
proof -
  let ?p = "state_path args" and ?c = "field (bt_state bt) ''cursor''"
  show ?thesis
  proof (cases "su_pages su i (as_str ?c)")
    case (Inl e)
    then show ?thesis using run by (auto simp: run_page_def abind_def page_outcome_def)
  next
    case page: (Inr page)
    let ?plan = "afold (plan_block py su store args (bt_new_bytes bt))
        \<lparr>pl_selected = [], pl_bytes = 0, pl_checked = bt_checked bt, pl_stop = False\<rparr> (ls_blocks page)"
    have "grow_only ?p ?plan" by (intro keeps_intros grow_only_plan)
    obtain r1 s1 where plan: "?plan s = (r1, s1)" by (metis surj_pair)
    have g1: "same_cursor py ?p ?c s s1"
      using grow_onlyD [OF \<open>grow_only ?p ?plan\<close> plan] by (rule grows_same_cursor)
    show ?thesis
    proof (cases r1)
      case (Inl e)
      then have "s' = s \<or> s' = s1" "\<exists>e. r = Inl e"
        using run page plan by (auto simp: run_page_def abind_def split: if_splits)
      then show ?thesis using g1 by (auto simp: page_outcome_def)
    next
      case pl: (Inr pl)
      obtain fetched failure where fetch: "prefetch_ordered (su_fetch su) (ra_max_block_bytes args)
          (ra_fetch_workers args) (ra_max_prefetch_bytes args) (pl_selected pl) = (fetched, failure)" by (metis surj_pair)
      let ?bt = "bt\<lparr>bt_checked := pl_checked pl\<rparr>"
      obtain r2 s2 where stored: "afold (store_block py su store args) ?bt fetched s1 = (r2, s2)" by (metis surj_pair)
      note after = store_blocks_cursor [OF apart stored]
      have g2: "same_cursor py ?p ?c s s2"
        by (rule same_cursor_trans [OF g1]) (use after in simp)
      let ?fin = "\<lambda>st. let st1 = set_key ''cursor'' (next_cursor page) (add_to ''pages_total'' 1 st) in
        if ls_truncated page then st1 else add_to ''cycles'' 1 st1"
      have how: "(\<exists>e. r = Inl e) \<and> (s' = s \<or> s' = s2) \<or>
        (\<exists>bt2. r2 = Inr bt2 \<and> failure = None \<and>
          (if pl_stop pl then r = Inr (Byte_Budget, bt2) \<and> s' = s2
           else r = Inr (if ls_truncated page then Next_Page else Cycle_Complete,
               bt2\<lparr>bt_state := ?fin (bt_state bt2), bt_pages := bt_pages bt2 + 1\<rparr>) \<and>
             s' = s2\<lparr>kb_fs := save_state py ?p (?fin (bt_state bt2)) (kb_fs s2)\<rparr>))"
        using run plan pl fetch stored
        by (cases r2) (auto simp: run_page_def abind_def page save_checkpoint_def Let_def split: if_splits option.splits)
      then show ?thesis
      proof (elim disjE exE conjE)
        fix e
        assume "r = Inl e" "s' = s"
        then show ?thesis by (auto simp: page_outcome_def)
      next
        fix e
        assume "r = Inl e" "s' = s2"
        then show ?thesis using g2 by (auto simp: page_outcome_def)
      next
        fix bt2
        assume r2: "r2 = Inr bt2" and none: "failure = None" and res: "if pl_stop pl then r = Inr (Byte_Budget, bt2) \<and> s' = s2
           else r = Inr (if ls_truncated page then Next_Page else Cycle_Complete,
               bt2\<lparr>bt_state := ?fin (bt_state bt2), bt_pages := bt_pages bt2 + 1\<rparr>) \<and>
             s' = s2\<lparr>kb_fs := save_state py ?p (?fin (bt_state bt2)) (kb_fs s2)\<rparr>"
        have all: "map fst fetched = pl_selected pl" using prefetch_complete fetch none by simp
        have budget: "bt_new_bytes bt2 \<le> ra_max_new_bytes args" if "bt_new_bytes bt \<le> ra_max_new_bytes args"
        proof -
          have "bt_new_bytes bt2 = bt_new_bytes bt + sum_list (map snd (pl_selected pl))"
            using after r2 by (simp add: all [symmetric] comp_def)
          then show ?thesis using plan_budget [OF plan [unfolded pl]] that by simp
        qed
        show ?thesis
        proof (cases "pl_stop pl")
          case True
          then show ?thesis using res g2 budget by (simp add: page_outcome_def)
        next
          case False
          have held: "fst b \<in> set (kb_pins s2)" if "b \<in> set (ls_blocks page)" for b
          proof -
            have "fst b \<in> set (kb_pins s1) \<or> b \<in> set (pl_selected pl)"
              using plan_covers [OF plan [unfolded pl]] that False by simp
            moreover have "set (kb_pins s1) \<subseteq> set (kb_pins s2)" using after by (simp add: same_cursor_def)
            moreover have "fst b \<in> set (kb_pins s2)" if "b \<in> set (map fst fetched)" using after r2 that by auto
            ultimately show ?thesis using all by auto
          qed
          have "field (?fin (bt_state bt2)) ''cursor'' = next_cursor page" by (simp add: Let_def)
          then show ?thesis using res False g2 budget held page
            by (simp add: page_outcome_def same_cursor_def Let_def)
        qed
      qed
    qed
  qed
qed

text \<open>What any number of rounds may do, however they end.\<close>

definition cursor_safe :: "pylib \<Rightarrow> 'k surroundings \<Rightarrow> path \<Rightarrow> json \<Rightarrow> 'k rpc_kubo \<Rightarrow> 'k rpc_kubo \<Rightarrow> bool" where
  "cursor_safe py su p c s s' \<longleftrightarrow> set (kb_pins s) \<subseteq> set (kb_pins s') \<and>
     (map_of (kb_fs s') p = map_of (kb_fs s) p \<or>
      (\<exists>st. map_of (kb_fs s') p = Some (File (checkpoint_text py st)) \<and>
         passed (su_pages su) (\<lambda>cid. cid \<in> set (kb_pins s')) c (field st ''cursor'')))"

lemma same_cursor_safe: "same_cursor py p c s s' \<Longrightarrow> cursor_safe py su p c s s'"
  unfolding same_cursor_def cursor_safe_def by (blast intro: passed.start)

lemma cursor_safe_next:
  assumes "set (kb_pins s) \<subseteq> set (kb_pins s1)" and "map_of (kb_fs s1) p = Some (File (checkpoint_text py st1))"
    and "passed (su_pages su) (\<lambda>cid. cid \<in> set (kb_pins s1)) c (field st1 ''cursor'')"
    and "cursor_safe py su p (field st1 ''cursor'') s1 s'"
  shows "cursor_safe py su p c s s'"
proof -
  have sub: "set (kb_pins s1) \<subseteq> set (kb_pins s')" using assms(4) by (simp add: cursor_safe_def)
  have p1: "passed (su_pages su) (\<lambda>cid. cid \<in> set (kb_pins s')) c (field st1 ''cursor'')"
    using assms(3) by (rule passed_mono) (use sub in blast)
  show ?thesis
  proof (cases "map_of (kb_fs s') p = map_of (kb_fs s1) p")
    case True
    then show ?thesis using assms(1,2) sub p1 by (auto simp: cursor_safe_def)
  next
    case False
    then obtain st where "map_of (kb_fs s') p = Some (File (checkpoint_text py st))"
      "passed (su_pages su) (\<lambda>cid. cid \<in> set (kb_pins s')) (field st1 ''cursor'') (field st ''cursor'')"
      using assms(4) unfolding cursor_safe_def by blast
    moreover from this(2) p1 have
      "passed (su_pages su) (\<lambda>cid. cid \<in> set (kb_pins s')) c (field st ''cursor'')" by (rule passed_trans)
    ultimately show ?thesis using assms(1) sub unfolding cursor_safe_def by blast
  qed
qed

lemma run_pages_safe:
  fixes su :: "'k surroundings"
  assumes "apart store (state_path args)"
  shows "run_pages py su store args n i bt s = (r, s') \<Longrightarrow>
    cursor_safe py su (state_path args) (field (bt_state bt) ''cursor'') s s' \<and>
    (\<forall>res. r = Inr res \<longrightarrow> bt_new_bytes bt \<le> ra_max_new_bytes args \<longrightarrow> br_new_bytes res \<le> ra_max_new_bytes args)"
proof (induction n arbitrary: i bt s)
  case 0
  then have "s' = s" "r = Inr (batch_result_of ''page-limit'' True bt)" by simp_all
  then show ?case by (simp add: cursor_safe_def batch_result_of_def)
next
  case (Suc n)
  let ?p = "state_path args" and ?c = "field (bt_state bt) ''cursor''"
  obtain r1 s1 where round: "run_page py su store args i bt s = (r1, s1)" by (metis surj_pair)
  note out = run_page_outcome [OF round assms]
  show ?case
  proof (cases r1)
    case (Inl e)
    then have "s' = s1" "r = Inl e" using Suc.prems round by (simp_all add: abind_def)
    moreover have "same_cursor py ?p ?c s s1" using out by (simp add: page_outcome_def Inl Let_def)
    ultimately show ?thesis using same_cursor_safe by simp
  next
    case (Inr ended)
    obtain how bt1 where ended: "ended = (how, bt1)" by (cases ended)
    have budget: "bt_new_bytes bt \<le> ra_max_new_bytes args \<longrightarrow> bt_new_bytes bt1 \<le> ra_max_new_bytes args"
      using out by (simp add: page_outcome_def Inr ended Let_def)
    show ?thesis
    proof (cases "how = Byte_Budget")
      case True
      then have "s' = s1" "r = Inr (batch_result_of ''byte-budget'' False bt1)"
        using Suc.prems round by (simp_all add: Inr ended abind_def)
      moreover have "same_cursor py ?p ?c s s1" using out True by (simp add: page_outcome_def Inr ended Let_def)
      ultimately show ?thesis using same_cursor_safe budget by (simp add: batch_result_of_def)
    next
      case False
      then obtain page where sub: "set (kb_pins s) \<subseteq> set (kb_pins s1)"
        and saved: "map_of (kb_fs s1) ?p = Some (File (checkpoint_text py (bt_state bt1)))"
        and pg: "su_pages su i (as_str ?c) = Inr page" "\<forall>b \<in> set (ls_blocks page). fst b \<in> set (kb_pins s1)"
          "field (bt_state bt1) ''cursor'' = next_cursor page"
        using out by (auto simp: page_outcome_def Inr ended Let_def)
      have moved: "passed (su_pages su) (\<lambda>cid. cid \<in> set (kb_pins s1)) ?c (field (bt_state bt1) ''cursor'')"
        unfolding pg(3)
        by (rule passed_one [where pages = "su_pages su" and i = i and held = "\<lambda>cid. cid \<in> set (kb_pins s1)", OF pg(1,2)])
      show ?thesis
      proof (cases how)
        case Next_Page
        then have rest: "run_pages py su store args n (i + 1) bt1 s1 = (r, s')"
          using Suc.prems round by (simp add: Inr ended abind_def)
        show ?thesis using cursor_safe_next [OF sub saved moved] Suc.IH [OF rest] budget by blast
      next
        case Cycle_Complete
        then have "s' = s1" "r = Inr (batch_result_of ''cycle-complete'' True bt1)"
          using Suc.prems round by (simp_all add: Inr ended abind_def)
        then show ?thesis using sub saved moved budget by (auto simp: cursor_safe_def batch_result_of_def)
      qed (use False in simp)
    qed
  qed
qed

lemma keeps_fs_rpc: "only_rpc m \<Longrightarrow> keeps (\<lambda>s. kb_fs s = fs) m"
  unfolding keeps_def by (metis only_rpcD rpc_only_facts(1) surjective_pairing)

lemma keeps_fs_cli: "keeps (\<lambda>s. kb_fs s = fs) (kubo_run cli args)"
  by (simp add: keeps_def kubo_run_def split: prod.split)

lemma keeps_fs_pins: "keeps (\<lambda>s. kb_fs s = fs) (set_pins cids)"
  by (simp add: keeps_def set_pins_def)

lemma preflight_files: "preflight py su store s = (r, s') \<Longrightarrow> kb_fs s' = kb_fs s"
proof -
  let ?P = "\<lambda>s' :: 'a rpc_kubo. kb_fs s' = kb_fs s"
  have raw: "keeps ?P (\<lambda>s. case store of None \<Rightarrow> (Inr (), s) | Some root \<Rightarrow>
      (case raw_cids py root (kb_fs s) of Inl e \<Rightarrow> (Inl e, s)
       | Inr cids \<Rightarrow> (Inr (), s\<lparr>kb_raw_cids := cids, kb_pins := kb_pins s @ cids\<rparr>)))"
    by (simp add: keeps_def split: option.split sum.split)
  have sizes: "keeps ?P (\<lambda>s. (Inr (), s\<lparr>kb_repo_size := a, kb_storage_max := b\<rparr>))" for a b
    by (simp add: keeps_def)
  have answer: "only_rpc (case v of None \<Rightarrow> araise e | Some p \<Rightarrow> if c p then araise e' else areturn ())"
    for v :: "string option" and e e' c by (cases v) (simp_all add: keeps_intros)
  have rest: "keeps ?P (\<lambda>s. if c s then (Inl e, s) else if d then (Inl e', s) else m s)" if "keeps ?P m"
    for c d e e' and m :: "('a rpc_kubo, unit) action" using that by (simp add: keeps_def)
  have "keeps ?P (preflight py su store)"
    unfolding preflight_def
    by (intro keeps_intros keeps_fs_cli keeps_fs_pins raw sizes rest keeps_fs_rpc answer)
  then show "preflight py su store s = (r, s') \<Longrightarrow> kb_fs s' = kb_fs s" by (rule keepsD) simp_all
qed

lemma run_batch_rounds:
  fixes su :: "'k surroundings"
  assumes "run_batch py decode su store args s = (r, s')"
    and "open_state py decode (su_pages su 0) args (kb_fs s) = (Inr st, fs1)" and "apart store (state_path args)"
  obtains s1 where "kb_fs s1 = fs1" "cursor_safe py su (state_path args) (field st ''cursor'') s1 s'"
    "\<And>res. r = Inr res \<Longrightarrow> 0 \<le> ra_max_new_bytes args \<Longrightarrow> br_new_bytes res \<le> ra_max_new_bytes args"
    "map_of (kb_fs s') (state_path args) = map_of fs1 (state_path args) \<or>
      (\<exists>s0 u bt. kb_fs s0 = fs1 \<and> preflight py su store s0 = (Inr u, s1) \<and>
        run_pages py su store args (ra_max_pages args) 1 bt s1 = (r, s'))"
proof -
  let ?s = "s\<lparr>kb_fs := fs1\<rparr>"
  let ?bt = "\<lparr>bt_state = st, bt_new_bytes = 0, bt_new_blocks = 0, bt_checked = 0, bt_pages = 0\<rparr>"
  obtain r1 s1 where pre: "abind (alift (su_source su)) (\<lambda>_. preflight py su store) ?s = (r1, s1)" by (metis surj_pair)
  have fs: "kb_fs s1 = fs1"
    using pre by (auto simp: abind_def dest: preflight_files split: sum.splits)
  have all: "run_batch py decode su store args s =
      abind (abind (alift (su_source su)) (\<lambda>_. preflight py su store))
        (\<lambda>_. run_pages py su store args (ra_max_pages args) 1 ?bt) ?s"
    using assms(2) by (auto simp: run_batch_def abind_def on_files_def split: sum.split prod.split)
  show thesis
  proof (cases r1)
    case (Inl e)
    then have "s' = s1" "r = Inl e" using assms(1) pre by (simp_all add: all abind_def [of "abind m f" for m f])
    then show thesis using that [OF fs] fs by (simp add: cursor_safe_def)
  next
    case (Inr u)
    then have rounds: "run_pages py su store args (ra_max_pages args) 1 ?bt s1 = (r, s')"
      using assms(1) pre by (simp add: all abind_def [of "abind m f" for m f])
    have "preflight py su store ?s = (Inr u, s1)" using pre Inr by (auto simp: abind_Inr)
    then have "\<exists>s0 u bt. kb_fs s0 = fs1 \<and> preflight py su store s0 = (Inr u, s1) \<and>
        run_pages py su store args (ra_max_pages args) 1 bt s1 = (r, s')" using rounds by (intro exI [of _ ?s]) auto
    with run_pages_safe [OF assms(3) rounds] show thesis by (intro that [OF fs]) simp_all
  qed
qed

text \<open>What an action that returns establishes.\<close>

definition ensures :: "('s \<Rightarrow> bool) \<Rightarrow> ('s, 'a) action \<Rightarrow> ('a \<Rightarrow> 's \<Rightarrow> bool) \<Rightarrow> bool" where
  "ensures P m Q \<longleftrightarrow> (\<forall>s r s'. P s \<longrightarrow> m s = (Inr r, s') \<longrightarrow> Q r s')"

lemma ensures_abind: "ensures P m Q \<Longrightarrow> (\<And>x. ensures (Q x) (f x) R) \<Longrightarrow> ensures P (abind m f) R"
  unfolding ensures_def abind_Inr by blast

lemma ensures_keeps: "keeps P m \<Longrightarrow> ensures P m (\<lambda>_. P)"
  unfolding ensures_def by (blast dest: keepsD)

lemma ensures_run:
  "(\<And>s k. P s \<Longrightarrow> P (s\<lparr>kb_daemon := k, kb_runs := kb_runs s @ [(args, Inr (0, out))]\<rparr>)) \<Longrightarrow>
    (\<And>s. P s \<Longrightarrow> (args, Inr (0, out)) \<in> set (kb_runs s) \<Longrightarrow> Q out s) \<Longrightarrow>
    P s \<Longrightarrow> kubo_run cli args s = (Inr out, s') \<Longrightarrow> Q out s'"
  by (cases "cli args (kb_daemon s)") (auto simp: kubo_run_def rbind_eq_Inr split: if_splits)

lemma keeps_pins_run: "keeps (pins_ok py store) (kubo_run (cli :: 'a runner) args)"
proof -
  have "pins_ok py store (s\<lparr>kb_daemon := k, kb_runs := kb_runs s @ [r]\<rparr>)" if ok: "pins_ok py store s" for s :: "'a rpc_kubo" and k r
  proof -
    have "pin_evidence py store (s\<lparr>kb_daemon := k, kb_runs := kb_runs s @ [r]\<rparr>) cid"
      if "pin_evidence py store s cid" for cid by (rule pin_evidence_mono [OF that]) auto
    then show ?thesis using ok by (simp add: pins_ok_def)
  qed
  then show ?thesis by (simp add: keeps_def kubo_run_def split: prod.split)
qed

lemma keeps_pins_raw_list:
  assumes "\<And>root cid data. store = Some root \<Longrightarrow> meta_readable py cid data"
  shows "keeps (pins_ok py store) (\<lambda>s. case store of None \<Rightarrow> (Inr (), s) | Some root \<Rightarrow>
      (case raw_cids py root (kb_fs s) of Inl e \<Rightarrow> (Inl e, s)
       | Inr cids \<Rightarrow> (Inr (), s\<lparr>kb_raw_cids := cids, kb_pins := kb_pins s @ cids\<rparr>)))"
  unfolding keeps_def
proof (intro allI impI)
  fix s :: "'k rpc_kubo"
  assume ok: "pins_ok py store s"
  have new: "stored py root (kb_fs s) cid \<noteq> None"
    if "store = Some root" "raw_cids py root (kb_fs s) = Inr cids" "cid \<in> set cids" for root cids cid
    using ok that assms by (intro listed_stored) (auto simp: pins_ok_def)
  show "pins_ok py store (snd (case store of None \<Rightarrow> (Inr (), s) | Some root \<Rightarrow>
      (case raw_cids py root (kb_fs s) of Inl e \<Rightarrow> (Inl e, s)
       | Inr cids \<Rightarrow> (Inr (), s\<lparr>kb_raw_cids := cids, kb_pins := kb_pins s @ cids\<rparr>))))"
    using ok new by (fastforce simp: pins_ok_def pin_evidence_def split: option.split sum.split)
qed

text \<open>After the preflight, every pin has been listed or is in the raw store.\<close>

lemma preflight_pins:
  assumes "preflight py su store s = (Inr u, s')" and "\<And>root. store = Some root \<Longrightarrow> consistent py root (kb_fs s)"
    and "\<And>root cid data. store = Some root \<Longrightarrow> meta_readable py cid data"
  shows "pins_ok py store s'"
proof -
  let ?C = "\<lambda>s :: 'a rpc_kubo. \<forall>root. store = Some root \<longrightarrow> consistent py root (kb_fs s)"
  let ?ran = "\<lambda>kind out s. ([''pin'', ''ls'', kind], Inr (0, out)) \<in> set (kb_runs (s :: 'a rpc_kubo))"
  let ?A = "\<lambda>out s. ?C s \<and> ?ran ''--type=direct'' out s"
  let ?B = "\<lambda>out out' s. ?A out s \<and> ?ran ''--type=recursive'' out' s"
  have pins: "keeps ?C (set_pins cids)" "keeps (?A out) (set_pins cids)" for cids out
    by (simp_all add: keeps_def set_pins_def)
  have first: "ensures ?C (kubo_run cli [''pin'', ''ls'', ''--type=direct'']) ?A" for cli
    unfolding ensures_def by (intro allI impI, rule ensures_run [of ?C]) auto
  have second: "ensures (?A out) (kubo_run cli [''pin'', ''ls'', ''--type=recursive'']) (?B out)" for cli out
    unfolding ensures_def by (intro allI impI, rule ensures_run [of "?A out"]) auto
  have counted: "ensures (?B out out') (set_pins (first_words (text_of out) @ first_words (text_of out')))
      (\<lambda>_. pins_ok py store)" for out out'
    by (auto simp: ensures_def set_pins_def pins_ok_def pin_evidence_def batch_pin_def)
  have sizes: "keeps (pins_ok py store) (\<lambda>s. (Inr (), s\<lparr>kb_repo_size := a, kb_storage_max := b\<rparr>))" for a b
    by (simp add: keeps_def pins_ok_def pin_evidence_def)
  have answer: "keeps (pins_ok py store) (case v of None \<Rightarrow> araise e | Some p \<Rightarrow> if c p then araise e' else areturn ())"
    for v :: "string option" and e e' c by (cases v) (simp_all add: keeps_intros)
  have rest: "keeps P (\<lambda>s. if c s then (Inl e, s) else if d then (Inl e', s) else m s)" if "keeps P m"
    for P c d e e' and m :: "('a rpc_kubo, unit) action" using that by (simp add: keeps_def)
  have "ensures ?C (preflight py su store) (\<lambda>_. pins_ok py store)"
    unfolding preflight_def
    by (intro ensures_abind [OF ensures_keeps [OF pins(1)]] ensures_abind [OF first]
        ensures_abind [OF ensures_keeps [OF pins(2)]] ensures_abind [OF second] ensures_abind [OF counted] ensures_keeps
        keeps_intros keeps_pins_raw_list keeps_pins_run sizes rest answer keeps_pins_calls assms(3))
  then show ?thesis using assms(1,2) by (auto simp: ensures_def)
qed

text \<open>C13: however a batch ends, also with an exception in the middle of a page, the checkpoint on disk is
  the one it started from, or its cursor has only moved past pages for all of whose blocks there is evidence in
  the answers this batch got: Kubo listed the block among its direct or recursive pins, or the daemon confirmed
  such a pin when asked for the block, or the raw store gives the block back. No block is skipped by an
  interrupted batch, and none is passed on the program's word alone. (The logs are those of this batch; the
  raw store is one \<open>put\<close> built, whose records \<open>json.loads\<close> reads back, and the files of the batch are not in it.)\<close>

theorem cursor_passes_only_held_blocks:
  assumes "run_batch py decode su store args s = (r, s')"
    and "open_state py decode (su_pages su 0) args (kb_fs s) = (Inr st, fs1)"
    and "apart store (state_path args)" and "batch_files_outside store args"
    and "kb_log s = []" and "kb_runs s = []"
    and "\<And>root. store = Some root \<Longrightarrow> consistent py root fs1"
    and "\<And>root cid data. store = Some root \<Longrightarrow> meta_readable py cid data"
  shows "map_of (kb_fs s') (state_path args) = map_of fs1 (state_path args) \<or>
    (\<exists>st'. map_of (kb_fs s') (state_path args) = Some (File (checkpoint_text py st')) \<and>
       passed (su_pages su) (pin_evidence py store s') (field st ''cursor'') (field st' ''cursor''))"
proof (cases "map_of (kb_fs s') (state_path args) = map_of fs1 (state_path args)")
  case False
  obtain s1 where fs1: "kb_fs s1 = fs1"
    and safe: "cursor_safe py su (state_path args) (field st ''cursor'') s1 s'"
    and from_s1: "map_of (kb_fs s') (state_path args) = map_of fs1 (state_path args) \<or>
      (\<exists>s0 u bt. kb_fs s0 = fs1 \<and> preflight py su store s0 = (Inr u, s1) \<and>
        run_pages py su store args (ra_max_pages args) 1 bt s1 = (r, s'))"
    using assms(1-3) by (rule run_batch_rounds)
  from from_s1 False obtain s0 u bt where s0: "kb_fs s0 = fs1" "preflight py su store s0 = (Inr u, s1)"
    "run_pages py su store args (ra_max_pages args) 1 bt s1 = (r, s')" by blast
  have "pins_ok py store s1" by (rule preflight_pins [OF s0(2)]) (use assms(7,8) s0(1) in auto)
  then have "pins_ok py store s'"
    using keepsD [OF keeps_pins_pages [OF assms(4)] _ s0(3)] assms(8) by blast
  then have "pin_evidence py store s' cid" if "cid \<in> set (kb_pins s')" for cid
    using that by (simp add: pins_ok_def)
  then show ?thesis using safe False fs1 unfolding cursor_safe_def by (blast intro: passed_mono)
qed simp

text \<open>A batch that returns has copied at most \<open>max_new_bytes\<close> bytes.\<close>

theorem batch_within_byte_budget:
  assumes "run_batch py decode su store args s = (Inr res, s')"
    and "open_state py decode (su_pages su 0) args (kb_fs s) = (Inr st, fs1)"
    and "apart store (state_path args)" and "0 \<le> ra_max_new_bytes args"
  shows "br_new_bytes res \<le> ra_max_new_bytes args"
  using run_batch_rounds [OF assms(1-3)] assms(4) by metis

definition batch_cli :: "string list runner" where
  "batch_cli argv pinned =
     (Inr (0, if argv = [''repo'', ''stat'']
        then ascii (''RepoSize: 1'' @ [newline] @ ''StorageMax: 100'' @ [newline] @ ''RepoPath: repo'' @ [newline])
        else []), pinned)"

definition batch_world :: "string list surroundings" where
  "batch_world = \<lparr>su_cli = batch_cli, su_rpc = batch_rpc,
     su_pages = (\<lambda>_ _. Inr \<lparr>ls_blocks = [(''x'', 1)], ls_cursor = None, ls_truncated = False, ls_inventory = JNull\<rparr>),
     su_source = Inr (), su_fetch = (\<lambda>_ _. Inr [7]), su_free = (\<lambda>_. 1000), su_resolve = (\<lambda>p. [p]),
     su_tags = (\<lambda>_. (''t'', ''u'')), su_stamp = (\<lambda>_. ''now'')\<rparr>"

definition batch_args :: replication_args where
  "batch_args = \<lparr>ra_state_dir = [''state''], ra_local_api = False, ra_inventory_path = None,
     ra_inventory_sha256 = None, ra_previous_path = None, ra_previous_sha256 = None, ra_max_pages = 3,
     ra_max_new_bytes = 10, ra_max_block_bytes = 4, ra_fetch_workers = 2, ra_max_prefetch_bytes = 8,
     ra_min_free_bytes = 5\<rparr>"

lemma batch_run: "fst (run_batch batch_py (\<lambda>_. Inr JNull) batch_world None batch_args empty_kubo) =
    Inr \<lparr>br_status = ''cycle-complete'', br_pages = 1, br_checked = 1, br_new_blocks = 1, br_new_bytes = 1,
      br_cursor_advanced = True\<rparr>"
  by code_simp

lemma batch_open:
  "open_state batch_py (\<lambda>_. Inr JNull) (su_pages batch_world 0) batch_args (kb_fs empty_kubo) =
     (Inr fresh_checkpoint, kb_fs empty_kubo)"
  by code_simp

theorem cursor_passes_only_held_blocks_witness:
  "\<exists>s'. run_batch batch_py (\<lambda>_. Inr JNull) batch_world None batch_args empty_kubo =
      (Inr \<lparr>br_status = ''cycle-complete'', br_pages = 1, br_checked = 1, br_new_blocks = 1, br_new_bytes = 1,
         br_cursor_advanced = True\<rparr>, s') \<and>
    (map_of (kb_fs s') [''state'', ''checkpoint.json''] = None \<or>
     (\<exists>st'. map_of (kb_fs s') [''state'', ''checkpoint.json''] = Some (File (checkpoint_text batch_py st')) \<and>
        passed (su_pages batch_world) (pin_evidence batch_py None s') JNull (field st' ''cursor'')))"
proof -
  obtain r s' where run: "run_batch batch_py (\<lambda>_. Inr JNull) batch_world None batch_args empty_kubo = (r, s')"
    by (metis surj_pair)
  have path: "state_path batch_args = [''state'', ''checkpoint.json'']"
    and start: "map_of (kb_fs empty_kubo) [''state'', ''checkpoint.json''] = None"
    and cursor: "field fresh_checkpoint ''cursor'' = JNull" by code_simp+
  have "apart None (state_path batch_args)" "batch_files_outside None batch_args" "kb_log empty_kubo = []" "kb_runs empty_kubo = []"
    by (simp_all add: apart_def batch_files_outside_def off_store_def empty_kubo_def)
  from cursor_passes_only_held_blocks [OF run batch_open this] show ?thesis
    using run batch_run by (simp add: path start cursor)
qed

theorem batch_within_byte_budget_witness:
  "(1 :: int) \<le> ra_max_new_bytes batch_args"
proof -
  obtain s' where run: "run_batch batch_py (\<lambda>_. Inr JNull) batch_world None batch_args empty_kubo =
      (Inr \<lparr>br_status = ''cycle-complete'', br_pages = 1, br_checked = 1, br_new_blocks = 1, br_new_bytes = 1,
         br_cursor_advanced = True\<rparr>, s')"
    using batch_run by (metis prod.collapse)
  have "apart None (state_path batch_args)" "0 \<le> ra_max_new_bytes batch_args"
    by (simp_all add: apart_def batch_args_def)
  from batch_within_byte_budget [OF run batch_open this] show ?thesis by simp
qed

end
