(* ===== verification/Leaf_Readback.thy ===== *)
theory Leaf_Readback
  imports Inventory Kubo_Rpc Text_Search
begin

text \<open>
  \<open>deploy/verify_lake_leaves.py\<close>: the resumable read-back of an inventory. Each run continues at the
  cursor of its checkpoint, reads some blocks from the raw store or the offline daemon, and chains what
  it saw into \<open>scan_sha256\<close>. Shown: across any number of runs, interruptions and crashes the checkpoint
  accounts for exactly the rows before its cursor, and a complete scan has read every block of the
  inventory under its CID.
\<close>

section \<open>Reading one block\<close>

record 'k leaf_world =
  lw_fs :: fs
  lw_daemon :: 'k

text \<open>\<open>/api/v0/block/get?offline=true\<close> for a CID: status and body.\<close>

type_synonym 'k offline_rpc = "string \<Rightarrow> 'k \<Rightarrow> (nat \<times> bytes) res \<times> 'k"

definition as_readback_error :: "string \<Rightarrow> 'a res \<Rightarrow> 'a res" where
  "as_readback_error m r =
     (case r of Inl (RawBlockStoreError _) \<Rightarrow> Inl (ReadbackError m) | Inl e \<Rightarrow> Inl e | Inr x \<Rightarrow> Inr x)"

lemma as_readback_error_Inr [res_simps]: "as_readback_error m r = Inr x \<longleftrightarrow> r = Inr x"
  by (cases r) (auto simp: as_readback_error_def split: exn.split)

text \<open>\<open>json.loads(body)["Message"]\<close>\<close>

definition error_message :: "pylib \<Rightarrow> bytes \<Rightarrow> json res" where
  "error_message py body =
     (let bad = ReadbackError ''Kubo RPC returned invalid error'' in
      rename_error TypeError bad (rename_error KeyError bad (rename_error ValueError bad
        (rbind (json_loads py body) (\<lambda>v. jsub v ''Message'')))))"

definition not_found_offline :: "string \<Rightarrow> json \<Rightarrow> bool" where
  "not_found_offline cid v =
     (case as_str v of
        None \<Rightarrow> False
      | Some m \<Rightarrow> startswith m ''block was not found locally (offline):'' \<and> contains_text cid m)"

text \<open>\<open>OfflineBlocks.read\<close>\<close>

definition offline_read ::
    "pylib \<Rightarrow> path \<Rightarrow> 'k offline_rpc \<Rightarrow> string \<Rightarrow> int \<Rightarrow> ('k leaf_world, bytes option) action" where
  "offline_read py root rpc cid sz w =
     (if sz < 1 \<or> int MAX_BLOCK < sz then (Inl (ReadbackError ''inventory block exceeds readback limit''), w)
      else case as_readback_error (''raw block store refused '' @ cid) (raw_read py root (lw_fs w) cid MAX_BLOCK) of
        Inl e \<Rightarrow> (Inl e, w)
      | Inr (Some data) \<Rightarrow> (Inr (Some data), w)
      | Inr None \<Rightarrow>
          (case rpc cid (lw_daemon w) of (answer, k) \<Rightarrow>
            (rbind (rename_error OSError (ReadbackError ''Kubo RPC block read failed'') answer) (\<lambda>(status, sent).
               let refused = ReadbackError (''Kubo RPC refused block read for '' @ cid) in
               if status = 200 then
                 let body = take (nat sz + 1) sent in
                 if int (length body) \<noteq> sz then Inl (ReadbackError (''local block size differs for '' @ cid))
                 else Inr (Some body)
               else if status = 500 then
                 rbind (error_message py (take 4096 sent)) (\<lambda>v.
                 if not_found_offline cid v then Inr None else Inl refused)
               else Inl refused),
             w\<lparr>lw_daemon := k\<rparr>)))"

section \<open>The repository\<close>

definition repository_files :: "pylib \<Rightarrow> fs \<Rightarrow> path \<Rightarrow> (json \<times> string) res" where
  "repository_files = repo_identity (ReadbackError ''Kubo repository identity is unavailable'')"

definition verify_repository ::
    "pylib \<Rightarrow> fs \<Rightarrow> 'w runner \<Rightarrow> string \<Rightarrow> path \<Rightarrow> split_url \<Rightarrow> ('w, string \<times> nat) action" where
  "verify_repository py fs run ipfs_bin repo u =
     (if \<not> loopback_url u then araise (ReadbackError ''Kubo RPC must be uncredentialed loopback HTTP'')
      else
        abind (alift (repository_files py fs repo)) (\<lambda>(peer, api).
        case as_str peer of
          None \<Rightarrow> araise (ReadbackError ''Kubo repository API or identity differs'')
        | Some peer \<Rightarrow>
            if peer = [] \<or> api \<noteq> ''/ip4/127.0.0.1/tcp/'' @ dec_text (the (url_port u))
            then araise (ReadbackError ''Kubo repository API or identity differs'')
            else
              (\<lambda>w. case run [ipfs_bin, ''id'', ''-f'', ''<id>''] w of (answer, w) \<Rightarrow>
                (let failed = ReadbackError ''Kubo daemon identity check failed'' in
                 rbind (rename_error OSError failed (rename_error TimeoutExpired failed answer)) (\<lambda>(rc, out).
                   if rc \<noteq> 0 \<or> strip (text_of out) \<noteq> peer
                   then Inl (ReadbackError ''Kubo daemon uses a different repository'')
                   else Inr (peer, the (url_port u))), w))))"

text \<open>The run is against the daemon of this very repository: its API file names the port, and the daemon
  answers with the identity in its configuration.\<close>

lemma verify_repository_Inr:
  assumes "verify_repository py fs run ipfs_bin repo u w = (Inr (peer, port), w')"
  shows "loopback_url u \<and> url_port u = Some port \<and> peer \<noteq> [] \<and>
    repository_files py fs repo = Inr (JStr peer, ''/ip4/127.0.0.1/tcp/'' @ dec_text port) \<and>
    (\<exists>out. run [ipfs_bin, ''id'', ''-f'', ''<id>''] w = (Inr (0, out), w') \<and> strip (text_of out) = peer)"
proof -
  from assms obtain v api where files: "repository_files py fs repo = Inr (v, api)" and url: "loopback_url u"
    by (auto simp: verify_repository_def abind_Inr split: if_splits)
  then obtain n where port: "url_port u = Some n" by (auto simp: loopback_url_def)
  obtain answer w1 where call: "run [ipfs_bin, ''id'', ''-f'', ''<id>''] w = (answer, w1)" by (metis surj_pair)
  show ?thesis using assms files url port call
    by (cases v) (auto simp: verify_repository_def abind_def Let_def rbind_eq_Inr rename_error_Inr split: if_splits)
qed

section \<open>The checkpoint\<close>

record readback =
  rb_inventory_sha256 :: string
  rb_inventory_rows :: int
  rb_repository :: string
  rb_peer_id :: string
  rb_cursor :: int
  rb_present_rows :: int
  rb_present_bytes :: int
  rb_missing_rows :: int
  rb_missing_bytes :: int
  rb_scan_sha256 :: string

definition fresh_state :: "inventory \<Rightarrow> string \<Rightarrow> string \<Rightarrow> readback" where
  "fresh_state ivt repo peer =
     \<lparr>rb_inventory_sha256 = inv_sha256 ivt, rb_inventory_rows = int (length (inv_offsets ivt)),
      rb_repository = repo, rb_peer_id = peer, rb_cursor = 0, rb_present_rows = 0, rb_present_bytes = 0,
      rb_missing_rows = 0, rb_missing_bytes = 0, rb_scan_sha256 = replicate 64 (CHR ''0'')\<rparr>"

definition readback_json :: "readback \<Rightarrow> (string \<times> json) list" where
  "readback_json st =
     [(''schema'', JInt 1), (''inventory_sha256'', JStr (rb_inventory_sha256 st)),
      (''inventory_rows'', JInt (rb_inventory_rows st)), (''repository'', JStr (rb_repository st)),
      (''peer_id'', JStr (rb_peer_id st)), (''cursor'', JInt (rb_cursor st)),
      (''present_rows'', JInt (rb_present_rows st)), (''present_bytes'', JInt (rb_present_bytes st)),
      (''missing_rows'', JInt (rb_missing_rows st)), (''missing_bytes'', JInt (rb_missing_bytes st)),
      (''scan_sha256'', JStr (rb_scan_sha256 st))]"

text \<open>The checks of \<open>load_state\<close> on a decoded checkpoint; \<open>expected\<close> is the fresh state.\<close>

definition same_scan :: "readback \<Rightarrow> (string \<times> json) list \<Rightarrow> bool" where
  "same_scan expected kvs \<longleftrightarrow>
     set (map fst kvs) = set (map fst (readback_json expected)) \<and> eq_int (field kvs ''schema'') 1 \<and>
     eq_str (field kvs ''inventory_sha256'') (rb_inventory_sha256 expected) \<and>
     eq_int (field kvs ''inventory_rows'') (rb_inventory_rows expected) \<and>
     eq_str (field kvs ''repository'') (rb_repository expected) \<and>
     eq_str (field kvs ''peer_id'') (rb_peer_id expected)"

definition scan_counters :: "readback \<Rightarrow> (string \<times> json) list \<Rightarrow> readback option" where
  "scan_counters expected kvs =
     (case (as_int (field kvs ''cursor''), as_int (field kvs ''present_rows''), as_int (field kvs ''present_bytes''),
            as_int (field kvs ''missing_rows''), as_int (field kvs ''missing_bytes''), as_str (field kvs ''scan_sha256'')) of
        (Some c, Some pr, Some pb, Some mr, Some mb, Some h) \<Rightarrow>
          if c < 0 \<or> pr < 0 \<or> pb < 0 \<or> mr < 0 \<or> mb < 0 \<or> rb_inventory_rows expected < c \<or> pr + mr \<noteq> c \<or>
            \<not> match_sha256 h
          then None
          else Some (expected\<lparr>rb_cursor := c, rb_present_rows := pr, rb_present_bytes := pb, rb_missing_rows := mr,
            rb_missing_bytes := mb, rb_scan_sha256 := h\<rparr>)
      | _ \<Rightarrow> None)"

definition load_state :: "pylib \<Rightarrow> fs \<Rightarrow> path \<Rightarrow> readback \<Rightarrow> readback res" where
  "load_state py fs path expected =
     (if \<not> exists_path fs path then Inr expected
      else
        let unreadable = ReadbackError ''readback checkpoint is unreadable'';
            differs = ReadbackError ''readback checkpoint differs from repository or inventory'' in
        rbind (rename_error OSError unreadable (rename_error ValueError unreadable
            (rbind (read_bytes fs path) (json_loads py)))) (\<lambda>v.
        rbind (dict_or differs v) (\<lambda>kvs.
        if \<not> same_scan expected kvs then Inl differs
        else case scan_counters expected kvs of None \<Rightarrow> Inl differs | Some st \<Rightarrow> Inr st)))"

definition readback_text :: "pylib \<Rightarrow> readback \<Rightarrow> bytes" where
  "readback_text py st = json_dumps py (JDict (readback_json st)) @ [10]"

definition partial_name :: "path \<Rightarrow> string \<Rightarrow> path" where
  "partial_name path tag = butlast path @ [last path @ ''.'' @ tag @ ''.partial'']"

text \<open>\<open>save_state\<close>, after \<open>mkdir\<close>; \<open>tag\<close> is \<open>uuid4().hex\<close>.\<close>

definition save_steps :: "pylib \<Rightarrow> path \<Rightarrow> string \<Rightarrow> readback \<Rightarrow> step list" where
  "save_steps py path tag st =
     map Mkdir (ancestors (butlast path)) @
     [Create (partial_name path tag) (readback_text py st),
      Rename (partial_name path tag) path (readback_text py st), SyncDir (butlast path)]"

section \<open>The scan\<close>

text \<open>\<open>bytes.fromhex\<close> on a digest\<close>

fun from_hex :: "string \<Rightarrow> bytes" where
  "from_hex (a # b # cs) = of_nat (16 * the (find_index a hex_digits) + the (find_index b hex_digits)) # from_hex cs"
| "from_hex _ = []"

text \<open>One link of \<open>scan_sha256\<close>: the row, and the digest of its block or \<open>None\<close> for a missing one.\<close>

definition scan_link :: "pylib \<Rightarrow> int \<Rightarrow> string \<Rightarrow> int \<Rightarrow> bytes option \<Rightarrow> string \<Rightarrow> string" where
  "scan_link py cursor cid sz found h =
     hex (sha256 py (from_hex h @ to_bytes_be 8 (nat cursor) @ ascii cid @ to_bytes_be 8 (nat sz) @
       (case found of
          Some digest \<Rightarrow> ascii ''present'' @ digest
        | None \<Rightarrow> ascii ''missing'' @ replicate 32 0)))"

definition record_row :: "pylib \<Rightarrow> string \<Rightarrow> int \<Rightarrow> bytes option \<Rightarrow> readback \<Rightarrow> readback" where
  "record_row py cid sz found st =
     (let st = (if found = None
          then st\<lparr>rb_missing_rows := rb_missing_rows st + 1, rb_missing_bytes := rb_missing_bytes st + sz\<rparr>
          else st\<lparr>rb_present_rows := rb_present_rows st + 1, rb_present_bytes := rb_present_bytes st + sz\<rparr>) in
      st\<lparr>rb_scan_sha256 := scan_link py (rb_cursor st) cid sz found (rb_scan_sha256 st),
         rb_cursor := rb_cursor st + 1\<rparr>)"

definition checked_digest :: "pylib \<Rightarrow> string \<Rightarrow> int \<Rightarrow> bytes option \<Rightarrow> bytes option res" where
  "checked_digest py cid sz data =
     (case data of
        None \<Rightarrow> Inr None
      | Some d \<Rightarrow>
          if int (length d) \<noteq> sz then Inl (ReadbackError (''local block size differs for '' @ cid))
          else rbind (as_readback_error (''local block CID differs from bytes: '' @ cid) (verify_cid (sha256 py) cid d))
            (\<lambda>_. Inr (Some (sha256 py d))))"

text \<open>The loop of \<open>advance\<close>; the second component of the result is \<open>waiting\<close>. The reader is an argument.\<close>

fun advance_rows ::
    "pylib \<Rightarrow> (string \<Rightarrow> int \<Rightarrow> ('w, bytes option) action) \<Rightarrow> int \<Rightarrow> bool \<Rightarrow> int \<Rightarrow> readback \<Rightarrow>
       (json \<times> json) list \<Rightarrow> ('w, readback \<times> bool) action" where
  "advance_rows py read max_bytes stop_at_missing added st [] w = (Inr (st, False), w)"
| "advance_rows py read max_bytes stop_at_missing added st (row # rows) w =
     (case row of
        (JStr cid, JInt sz) \<Rightarrow>
          if added \<noteq> 0 \<and> max_bytes < added + sz then (Inr (st, False), w)
          else if max_bytes < sz
          then (Inl (ReadbackError ''single inventory block exceeds batch byte limit''), w)
          else (case read cid sz w of
              (Inl e, w) \<Rightarrow> (Inl e, w)
            | (Inr data, w) \<Rightarrow>
                if data = None \<and> stop_at_missing then (Inr (st, True), w)
                else (case checked_digest py cid sz data of
                    Inl e \<Rightarrow> (Inl e, w)
                  | Inr found \<Rightarrow>
                      advance_rows py read max_bytes stop_at_missing (added + sz)
                        (record_row py cid sz found st) rows w))
      | _ \<Rightarrow> (Inl TypeError, w))"

text \<open>\<open>advance\<close> on the inventory file as it is now.\<close>

definition advance ::
    "pylib \<Rightarrow> inventory \<Rightarrow> file_identity \<times> bytes \<Rightarrow> (string \<Rightarrow> int \<Rightarrow> ('w, bytes option) action) \<Rightarrow>
       readback \<Rightarrow> int \<Rightarrow> int \<Rightarrow> bool \<Rightarrow> ('w, readback \<times> string) action" where
  "advance py ivt now read st max_rows max_bytes stop_at_missing w =
     (if rb_cursor st = int (length (inv_offsets ivt))
      then (Inr (st, if rb_missing_rows st = 0 then ''complete'' else ''partial''), w)
      else case inventory_rows py ivt now (rb_cursor st) max_rows of
        Inl e \<Rightarrow> (Inl e, w)
      | Inr (rows, _) \<Rightarrow>
          abind (advance_rows py read max_bytes stop_at_missing 0 st rows) (\<lambda>(st', waiting).
            areturn (st', if waiting then ''waiting''
              else if rb_cursor st' = int (length (inv_offsets ivt)) \<and> rb_missing_rows st' = 0 then ''complete''
              else ''partial'')) w)"

section \<open>One run\<close>

record leaf_args =
  la_path :: path
  la_root :: path
  la_repository :: string
  la_max_rows :: int
  la_max_bytes :: int
  la_scan_gaps :: bool
  la_locked :: bool

text \<open>The directory of the checkpoint and the lock file beside it; \<open>la_locked\<close> says whether another process
  holds the lock.\<close>

definition readback_lock :: "leaf_args \<Rightarrow> ('k leaf_world, unit) action" where
  "readback_lock args w =
     (case mkdirs (butlast (la_path args)) (lw_fs w) of
        Inl e \<Rightarrow> (Inl e, w)
      | Inr fs \<Rightarrow>
          let lock = butlast (la_path args) @ [last (la_path args) @ ''.lock''] in
          if is_dir fs lock then (Inl OSError, w\<lparr>lw_fs := fs\<rparr>)
          else (if la_locked args then Inl (ReadbackError ''readback already running'') else Inr (),
            w\<lparr>lw_fs := (if map_of fs lock = None then write_node lock (File []) fs else fs)\<rparr>))"

text \<open>\<open>main\<close> up to the result of \<open>advance\<close>, and then the whole of it: the lock makes a run atomic.\<close>

definition readback_batch ::
    "pylib \<Rightarrow> inventory \<Rightarrow> file_identity \<times> bytes \<Rightarrow> 'k offline_rpc \<Rightarrow> leaf_args \<Rightarrow> string \<Rightarrow>
       ('k leaf_world, readback \<times> readback \<times> string) action" where
  "readback_batch py ivt now rpc args peer =
     abind (readback_lock args) (\<lambda>_ w.
       case load_state py (lw_fs w) (la_path args) (fresh_state ivt (la_repository args) peer) of
         Inl e \<Rightarrow> (Inl e, w)
       | Inr st \<Rightarrow>
           abind (advance py ivt now (offline_read py (la_root args) rpc) st (la_max_rows args) (la_max_bytes args)
               (\<not> la_scan_gaps args)) (\<lambda>(st', status). areturn (st, st', status)) w)"

definition readback_main ::
    "pylib \<Rightarrow> inventory \<Rightarrow> file_identity \<times> bytes \<Rightarrow> 'k offline_rpc \<Rightarrow> leaf_args \<Rightarrow> string \<Rightarrow> string \<Rightarrow>
       ('k leaf_world, readback \<times> string) action" where
  "readback_main py ivt now rpc args peer tag =
     abind (readback_batch py ivt now rpc args peer) (\<lambda>(st, st', status) w.
       if st' = st then (Inr (st', status), w)
       else if \<not> list_all (can_mkdir (lw_fs w)) (ancestors (butlast (la_path args))) then (Inl OSError, w)
       else (Inr (st', status), w\<lparr>lw_fs := run_steps (save_steps py (la_path args) tag st') (lw_fs w)\<rparr>))"

section \<open>What a checkpoint accounts for\<close>

text \<open>A row, and the digest of its block as it was read or \<open>None\<close> where it was missing.\<close>

type_synonym verdict = "(string \<times> int) \<times> bytes option"

definition genuine :: "pylib \<Rightarrow> verdict \<Rightarrow> bool" where
  "genuine py v \<longleftrightarrow> (case v of ((cid, sz), found) \<Rightarrow>
     (\<forall>digest. found = Some digest \<longrightarrow>
        (\<exists>data. int (length data) = sz \<and> sha256_digest cid = Inr digest \<and> sha256 py data = digest)))"

definition scan_state :: "pylib \<Rightarrow> readback \<Rightarrow> verdict list \<Rightarrow> readback" where
  "scan_state py st vs = foldl (\<lambda>st ((cid, sz), found). record_row py cid sz found st) st vs"

text \<open>The state after scanning the first rows of an inventory.\<close>

definition accounts :: "pylib \<Rightarrow> (string \<times> int) list \<Rightarrow> readback \<Rightarrow> verdict list \<Rightarrow> readback \<Rightarrow> bool" where
  "accounts py rows fresh vs st \<longleftrightarrow>
     map fst vs = take (length vs) rows \<and> (\<forall>v \<in> set vs. genuine py v) \<and> st = scan_state py fresh vs"

definition found_rows :: "verdict list \<Rightarrow> (string \<times> int) list" where
  "found_rows vs = map fst (filter (\<lambda>v. snd v \<noteq> None) vs)"

definition missing_rows :: "verdict list \<Rightarrow> (string \<times> int) list" where
  "missing_rows vs = map fst (filter (\<lambda>v. snd v = None) vs)"

lemma scan_state_snoc:
  "scan_state py st (vs @ ws) = scan_state py (scan_state py st vs) ws"
  by (simp add: scan_state_def)

lemma scan_state_fields:
  "rb_cursor (scan_state py st vs) = rb_cursor st + int (length vs)"
  "rb_present_rows (scan_state py st vs) = rb_present_rows st + int (length (found_rows vs))"
  "rb_missing_rows (scan_state py st vs) = rb_missing_rows st + int (length (missing_rows vs))"
  "rb_present_bytes (scan_state py st vs) = rb_present_bytes st + sum_list (map snd (found_rows vs))"
  "rb_missing_bytes (scan_state py st vs) = rb_missing_bytes st + sum_list (map snd (missing_rows vs))"
  "rb_inventory_rows (scan_state py st vs) = rb_inventory_rows st"
  "rb_inventory_sha256 (scan_state py st vs) = rb_inventory_sha256 st"
  "rb_repository (scan_state py st vs) = rb_repository st" "rb_peer_id (scan_state py st vs) = rb_peer_id st"
  by (induction vs arbitrary: st)
    (auto simp: scan_state_def found_rows_def missing_rows_def record_row_def Let_def split: prod.splits)

lemma checked_digest_Inr:
  "checked_digest py cid sz data = Inr found \<Longrightarrow> genuine py ((cid, sz), found) \<and> (found = None \<longleftrightarrow> data = None)"
  by (auto simp: checked_digest_def genuine_def res_simps verify_cid_ok split: option.splits if_splits)

lemma advance_rows_Inr:
  "advance_rows py read max_bytes stop added st (map row_json rows) w = (Inr (st', waiting), w') \<Longrightarrow>
    \<exists>vs. map fst vs = take (length vs) rows \<and> (\<forall>v \<in> set vs. genuine py v) \<and> st' = scan_state py st vs \<and>
      (stop \<longrightarrow> missing_rows vs = [])"
proof (induction rows arbitrary: added st w)
  case Nil
  then show ?case by (intro exI [of _ "[]"]) (simp add: scan_state_def missing_rows_def)
next
  case (Cons row rows)
  obtain cid sz where row: "row = (cid, sz)" by (cases row)
  have row_values: "row_json row = (JStr cid, JInt sz)" by (simp add: row row_json_def)
  show ?case
  proof (cases "st' = st")
    case True
    then show ?thesis by (intro exI [of _ "[]"]) (simp add: scan_state_def missing_rows_def)
  next
    case False
    obtain r w1 where rd: "read cid sz w = (r, w1)" by (metis surj_pair)
    with False Cons.prems obtain data where data: "r = Inr data" "\<not> (data = None \<and> stop)"
      by (cases r) (auto simp: row_values split: if_splits)
    with rd False Cons.prems obtain found where found: "checked_digest py cid sz data = Inr found"
      and rest: "advance_rows py read max_bytes stop (added + sz) (record_row py cid sz found st)
        (map row_json rows) w1 = (Inr (st', waiting), w')"
      by (cases "checked_digest py cid sz data") (auto simp: row_values split: if_splits)
    from Cons.IH [OF rest] obtain vs where vs: "map fst vs = take (length vs) rows" "\<forall>v \<in> set vs. genuine py v"
      "st' = scan_state py (record_row py cid sz found st) vs" "stop \<longrightarrow> missing_rows vs = []" by blast
    with checked_digest_Inr [OF found] data show ?thesis
      by (intro exI [of _ "((cid, sz), found) # vs"]) (auto simp: row scan_state_def missing_rows_def)
  qed
qed

lemma accounts_length: "accounts py rows fresh vs st \<Longrightarrow> length vs \<le> length rows"
  unfolding accounts_def by (metis length_map length_take min.cobounded2 min.commute)

lemma accounts_append:
  assumes "accounts py rows fresh vs st" and "map fst ws = take (length ws) (take k (drop (length vs) rows))"
    and "\<forall>v \<in> set ws. genuine py v" and "st' = scan_state py st ws"
  shows "accounts py rows fresh (vs @ ws) st'"
proof -
  have "length ws \<le> k"
    using arg_cong [OF assms(2), of length] by simp
  then have "map fst ws = take (length ws) (drop (length vs) rows)" using assms(2) by (simp add: min_absorb1)
  then have "map fst (vs @ ws) = take (length (vs @ ws)) rows"
    using assms(1) by (simp add: accounts_def take_add)
  then show ?thesis using assms by (auto simp: accounts_def scan_state_snoc)
qed

lemma advance_accounts:
  assumes "represents py content rows ivt" and "fst now = inv_identity ivt \<longrightarrow> snd now = content"
    and "accounts py rows (fresh_state ivt repo peer) vs st"
    and "advance py ivt now read st max_rows max_bytes stop w = (Inr (st', status), w')"
  shows "\<exists>ws. accounts py rows (fresh_state ivt repo peer) (vs @ ws) st' \<and> (stop \<longrightarrow> missing_rows ws = []) \<and>
    (status = ''complete'' \<longrightarrow> rb_cursor st' = int (length rows) \<and> rb_missing_rows st' = 0)"
proof -
  have n: "length (inv_offsets ivt) = length rows" using assms(1) by (simp add: represents_def)
  have cursor: "rb_cursor st = int (length vs)"
    using assms(3) by (simp add: accounts_def scan_state_fields fresh_state_def)
  show ?thesis
  proof (cases "rb_cursor st = int (length (inv_offsets ivt))")
    case True
    then show ?thesis using assms(3,4) n
      by (intro exI [of _ "[]"]) (auto simp: advance_def missing_rows_def split: if_splits)
  next
    case False
    have less: "length vs < length rows" using accounts_length [OF assms(3)] False cursor n by simp
    from False assms(4) obtain got last_row waiting where got: "inventory_rows py ivt now (rb_cursor st) max_rows = Inr (got, last_row)"
      and loop: "advance_rows py read max_bytes stop 0 st got w = (Inr (st', waiting), w')"
      and status: "status = (if waiting then ''waiting'' else if rb_cursor st' = int (length (inv_offsets ivt)) \<and>
        rb_missing_rows st' = 0 then ''complete'' else ''partial'')"
      by (auto simp: advance_def abind_Inr split: sum.splits)
    from got have now: "now = (inv_identity ivt, content)" and lim: "1 \<le> max_rows" "max_rows \<le> 1000"
      using assms(2) by (auto simp: inventory_rows_def prod_eq_iff split: if_splits)
    have "got = map row_json (take (nat max_rows) (drop (length vs) rows))"
      using inventory_rows_Inr [OF assms(1) less lim] got by (simp add: now cursor)
    from advance_rows_Inr [OF loop [unfolded this]] obtain ws where
      ws: "map fst ws = take (length ws) (take (nat max_rows) (drop (length vs) rows))" "\<forall>v \<in> set ws. genuine py v"
      "st' = scan_state py st ws" "stop \<longrightarrow> missing_rows ws = []" by blast
    from accounts_append [OF assms(3) ws(1-3)] ws(4) status show ?thesis
      by (intro exI [of _ ws]) (auto simp: n split: if_splits)
  qed
qed

section \<open>Reading and writing the checkpoint\<close>

text \<open>What the code relies on: \<open>json.loads\<close> reads back what \<open>json.dump\<close> wrote of a scan of these rows.\<close>

definition scans_readable :: "pylib \<Rightarrow> (string \<times> int) list \<Rightarrow> readback \<Rightarrow> bool" where
  "scans_readable py rows fresh \<longleftrightarrow>
     (\<forall>vs st. vs \<noteq> [] \<and> accounts py rows fresh vs st \<longrightarrow>
        json_loads py (readback_text py st) = Inr (JDict (readback_json st)))"

lemma scan_hash_ok:
  assumes "\<forall>d. length (sha256 py d) = 32" and "vs \<noteq> []"
  shows "match_sha256 (rb_scan_sha256 (scan_state py st vs))"
proof -
  obtain ws v where "vs = ws @ [v]" using assms(2) by (metis rev_exhaust)
  then show ?thesis using assms(1)
    by (auto simp: scan_state_def record_row_def Let_def scan_link_def match_sha256_hex split: prod.splits)
qed

lemma saved_fields:
  "same_scan fresh (readback_json (scan_state py fresh vs))"
  by (simp add: same_scan_def readback_json_def scan_state_fields field_def eq_str_def)

lemma saved_counters:
  assumes "accounts py rows fresh vs st" and "vs \<noteq> []" and "\<forall>d. length (sha256 py d) = 32"
    and "\<forall>r \<in> set rows. 0 < snd r" and "rb_inventory_rows fresh = int (length rows)"
    and "rb_cursor fresh = 0" "rb_present_rows fresh = 0" "rb_present_bytes fresh = 0" "rb_missing_rows fresh = 0"
      "rb_missing_bytes fresh = 0"
  shows "scan_counters fresh (readback_json st) = Some st"
proof -
  have st: "st = scan_state py fresh vs" using assms(1) by (simp add: accounts_def)
  have pos: "0 \<le> snd (fst v)" if "v \<in> set vs" for v
  proof -
    have "fst v \<in> set (take (length vs) rows)" using assms(1) that by (metis accounts_def image_eqI image_set)
    then show ?thesis using assms(4) in_set_takeD by fastforce
  qed
  have bytes: "0 \<le> sum_list (map snd (found_rows vs))" "0 \<le> sum_list (map snd (missing_rows vs))"
    using pos by (auto simp: found_rows_def missing_rows_def intro!: sum_list_nonneg)
  have count: "int (length (found_rows vs)) + int (length (missing_rows vs)) = int (length vs)"
    using sum_length_filter_compl [of "\<lambda>v. snd v = None" vs]
    by (simp add: found_rows_def missing_rows_def del: not_None_eq)
  have "length vs \<le> length rows" using accounts_length assms(1) by blast
  with bytes count scan_hash_ok [OF assms(3,2), of fresh] show ?thesis
    unfolding scan_counters_def
    by (simp add: readback_json_def field_def scan_state_fields st assms(5-10))
qed

section \<open>Many runs\<close>

text \<open>The checkpoint file of a scan: absent, or the text of a state that accounts for some rows.\<close>

definition scan_file :: "pylib \<Rightarrow> (string \<times> int) list \<Rightarrow> readback \<Rightarrow> node option \<Rightarrow> bool" where
  "scan_file py rows fresh n \<longleftrightarrow> n = None \<or>
     (\<exists>vs st. vs \<noteq> [] \<and> accounts py rows fresh vs st \<and> n = Some (File (readback_text py st)))"

text \<open>The file systems that runs on one inventory and repository lead to, from one without a checkpoint:
  runs may end with an exception or be cut off while they save, with different bounds and daemons, and
  other programs may write anything but the checkpoint in between.\<close>

inductive readback_history ::
    "pylib \<Rightarrow> inventory \<Rightarrow> bytes \<Rightarrow> path \<Rightarrow> string \<Rightarrow> string \<Rightarrow> 'k itself \<Rightarrow> fs \<Rightarrow> bool"
  for py ivt content path repo peer and k :: "'k itself" where
  start: "map_of fs path = None \<Longrightarrow> readback_history py ivt content path repo peer k fs"
| run: "readback_history py ivt content path repo peer k (lw_fs w) \<Longrightarrow> la_path args = path \<Longrightarrow> la_repository args = repo \<Longrightarrow>
    readback_main py ivt (inv_identity ivt, content) (rpc :: 'k offline_rpc) args peer tag w = (r, w') \<Longrightarrow>
    readback_history py ivt content path repo peer k (lw_fs w')"
| crash: "readback_history py ivt content path repo peer k (lw_fs w) \<Longrightarrow> la_path args = path \<Longrightarrow> la_repository args = repo \<Longrightarrow>
    readback_batch py ivt (inv_identity ivt, content) (rpc :: 'k offline_rpc) args peer w = (Inr (st, st', status), w') \<Longrightarrow>
    st' \<noteq> st \<Longrightarrow> crash_state (save_steps py path tag st') (lw_fs w') fs' \<Longrightarrow>
    readback_history py ivt content path repo peer k fs'"
| other: "readback_history py ivt content path repo peer k fs \<Longrightarrow> map_of fs' path = map_of fs path \<Longrightarrow>
    readback_history py ivt content path repo peer k fs'"

lemma advance_rows_files:
  assumes "\<And>cid sz. keeps P (read cid sz)"
  shows "P w \<Longrightarrow> advance_rows py read max_bytes stop added st rows w = (r, w') \<Longrightarrow> P w'"
proof (induction rows arbitrary: added st w)
  case (Cons row rows)
  show ?case
  proof (cases "\<exists>cid sz. row = (JStr cid, JInt sz)")
    case True
    then obtain cid sz where row: "row = (JStr cid, JInt sz)" by blast
    obtain r1 w1 where rd: "read cid sz w = (r1, w1)" by (metis surj_pair)
    have "P w1" using keepsD [OF assms Cons.prems(1) rd] .
    then show ?thesis using Cons rd by (auto simp: row split: if_splits sum.splits)
  next
    case False
    then show ?thesis using Cons.prems by (cases row; cases "fst row"; cases "snd row") auto
  qed
qed simp

lemma advance_files:
  assumes "\<And>cid sz. keeps P (read cid sz)" and "P w" and "advance py ivt now read st max_rows max_bytes stop w = (r, w')"
  shows "P w'"
proof -
  obtain rows where "w' = w \<or> (\<exists>r1. advance_rows py read max_bytes stop 0 st rows w = (r1, w'))"
    using assms(3) by (auto simp: advance_def abind_def split: if_splits sum.splits prod.splits)
  then show ?thesis using advance_rows_files [of P read, OF assms(1,2)] assms(2) by blast
qed

lemma save_paths: "partial_name path tag \<noteq> path" "path \<notin> set (ancestors (butlast path))"
proof -
  have "last (partial_name path tag) \<noteq> last path" by (simp add: partial_name_def)
  then show "partial_name path tag \<noteq> path" by auto
  show "path \<notin> set (ancestors (butlast path))"
    by (cases path) (auto simp: ancestors_def dest!: arg_cong [of _ _ length])
qed

lemma save_steps_crash:
  assumes "crash_state (save_steps py path tag st) fs fs'"
  shows "map_of fs' path = map_of fs path \<or> map_of fs' path = Some (File (readback_text py st))"
proof -
  from assms obtain done' rest where split: "save_steps py path tag st = done' @ rest"
    and s: "survives done' fs fs'" by (auto simp: crash_state_def)
  have "\<forall>s \<in> set (save_steps py path tag st). path \<notin> touches s \<or>
      (\<exists>t. t \<noteq> path \<and> s = Rename t path (readback_text py st))"
    using save_paths(1) [of path tag] save_paths(2) [of path] save_paths(1) [of path tag, symmetric] by (auto simp: save_steps_def)
  then have "\<forall>s \<in> set done'. path \<notin> touches s \<or> (\<exists>t. t \<noteq> path \<and> s = Rename t path (readback_text py st))"
    by (simp add: split)
  then show ?thesis by (rule survives_renamed [OF s])
qed

lemma save_steps_done:
  "map_of (run_steps (save_steps py path tag st) fs) path = Some (File (readback_text py st))"
  by (simp add: save_steps_def run_steps_def)

lemma lock_keeps_checkpoint: "keeps (\<lambda>w. map_of (lw_fs w) (la_path args) = c) (readback_lock args)"
proof -
  have "la_path args \<noteq> butlast (la_path args) @ [last (la_path args) @ ''.lock'']"
    by (auto dest: arg_cong [of _ _ last])
  then show ?thesis using mkdirs_other [OF _ save_paths(2)]
    by (auto simp: keeps_def readback_lock_def Let_def split: sum.splits if_splits)
qed

lemma batch_keeps_checkpoint:
  "keeps (\<lambda>w. map_of (lw_fs w) (la_path args) = c) (readback_batch py ivt now rpc args peer)"
proof -
  have read: "keeps (\<lambda>w. map_of (lw_fs w) (la_path args) = c) (offline_read py root rpc cid sz)" for root cid sz
    by (simp add: keeps_def offline_read_def split: sum.split option.split prod.split)
  have scan: "keeps (\<lambda>w. map_of (lw_fs w) (la_path args) = c)
      (advance py ivt now (offline_read py (la_root args) rpc) st mr mb stop)" for st mr mb stop
    using advance_files [OF read _ surjective_pairing] by (auto simp: keeps_def)
  show ?thesis unfolding keeps_def readback_batch_def
    by (auto simp: abind_def split: sum.splits prod.splits
        dest: keepsD [OF lock_keeps_checkpoint refl] keepsD [OF scan, rotated])
qed

text \<open>What all these lemmas are about: a loaded inventory and its fresh state.\<close>

definition scan_setting :: "pylib \<Rightarrow> inventory \<Rightarrow> bytes \<Rightarrow> (string \<times> int) list \<Rightarrow> readback \<Rightarrow> bool" where
  "scan_setting py ivt content rows fresh \<longleftrightarrow>
     represents py content rows ivt \<and> (\<exists>repo peer. fresh = fresh_state ivt repo peer) \<and>
     scans_readable py rows fresh \<and> (\<forall>d. length (sha256 py d) = 32)"

lemma load_state_accounts:
  assumes "scan_setting py ivt content rows fresh" and "scan_file py rows fresh (map_of fs path)"
    and "load_state py fs path fresh = Inr st"
  shows "\<exists>vs. accounts py rows fresh vs st"
proof (cases "map_of fs path")
  case None
  then have "st = fresh" using assms(3) by (simp add: load_state_def query_defs)
  then show ?thesis by (intro exI [of _ "[]"]) (simp add: accounts_def scan_state_def)
next
  case (Some n)
  with assms(2) obtain vs st1 where vs: "vs \<noteq> []" "accounts py rows fresh vs st1"
    "map_of fs path = Some (File (readback_text py st1))" by (auto simp: scan_file_def)
  have decoded: "json_loads py (readback_text py st1) = Inr (JDict (readback_json st1))"
    using assms(1) vs(1,2) by (auto simp: scan_setting_def scans_readable_def)
  have pos: "\<forall>r \<in> set rows. 0 < snd r"
    using assms(1) unfolding scan_setting_def represents_def
    by (metis list_all2_conv_all_nth in_set_conv_nth line_row_def)
  from assms(1) obtain repo peer where fresh: "fresh = fresh_state ivt repo peer"
    and n: "length (inv_offsets ivt) = length rows" and len: "\<forall>d. length (sha256 py d) = 32"
    by (auto simp: scan_setting_def represents_def)
  have "scan_counters fresh (readback_json st1) = Some st1"
    by (rule saved_counters [OF vs(2,1) len pos]) (simp_all add: fresh fresh_state_def n)
  moreover have "same_scan fresh (readback_json st1)"
    using saved_fields [of fresh py vs] vs(2) by (simp add: accounts_def)
  ultimately have "st = st1"
    using assms(3) vs(3) decoded by (simp add: load_state_def rename_error_def)
  then show ?thesis using vs(2) by blast
qed

lemma batch_accounts:
  assumes "scan_setting py ivt content rows fresh" and "fresh = fresh_state ivt (la_repository args) peer"
    and "scan_file py rows fresh (map_of (lw_fs w) (la_path args))"
    and "readback_batch py ivt (inv_identity ivt, content) rpc args peer w = (Inr (st, st', status), w')"
  shows "\<exists>vs. accounts py rows fresh vs st' \<and> (vs = [] \<longrightarrow> st' = st) \<and>
    map_of (lw_fs w') (la_path args) = map_of (lw_fs w) (la_path args) \<and>
    (status = ''complete'' \<longrightarrow> rb_cursor st' = int (length rows) \<and> rb_missing_rows st' = 0)"
proof -
  let ?read = "offline_read py (la_root args) rpc"
  from assms(4) obtain w1 where lock: "readback_lock args w = (Inr (), w1)"
    and load: "load_state py (lw_fs w1) (la_path args) fresh = Inr st"
    and adv: "advance py ivt (inv_identity ivt, content) ?read st (la_max_rows args) (la_max_bytes args)
      (\<not> la_scan_gaps args) w1 = (Inr (st', status), w')"
    by (cases "readback_lock args w") (auto simp: readback_batch_def abind_def assms(2) split: sum.split_asm prod.split_asm)
  have "map_of (lw_fs w1) (la_path args) = map_of (lw_fs w) (la_path args)"
    using keepsD [OF lock_keeps_checkpoint refl lock] .
  from load_state_accounts [OF assms(1) assms(3) [folded this] load] obtain vs where vs: "accounts py rows fresh vs st" by blast
  have rep: "represents py content rows ivt" using assms(1) by (simp add: scan_setting_def)
  have now: "fst (inv_identity ivt, content) = inv_identity ivt \<longrightarrow> snd (inv_identity ivt, content) = content" by simp
  from advance_accounts [OF rep now vs [unfolded assms(2)] adv] obtain ws where
    ws: "accounts py rows fresh (vs @ ws) st'"
      "status = ''complete'' \<longrightarrow> rb_cursor st' = int (length rows) \<and> rb_missing_rows st' = 0"
    using assms(2) by blast
  have "map_of (lw_fs w') (la_path args) = map_of (lw_fs w) (la_path args)"
    using keepsD [OF batch_keeps_checkpoint refl assms(4)] .
  moreover have "vs @ ws = [] \<longrightarrow> st' = st" using ws(1) vs by (auto simp: accounts_def)
  ultimately show ?thesis using ws by blast
qed

lemma main_accounts:
  assumes "scan_setting py ivt content rows fresh" and "fresh = fresh_state ivt (la_repository args) peer"
    and "scan_file py rows fresh (map_of (lw_fs w) (la_path args))"
    and "readback_main py ivt (inv_identity ivt, content) rpc args peer tag w = (r, w')"
  shows "scan_file py rows fresh (map_of (lw_fs w') (la_path args)) \<and>
    (\<forall>st' status. r = Inr (st', status) \<longrightarrow> (\<exists>vs. accounts py rows fresh vs st' \<and>
      (status = ''complete'' \<longrightarrow> rb_cursor st' = int (length rows) \<and> rb_missing_rows st' = 0)))"
proof -
  let ?batch = "readback_batch py ivt (inv_identity ivt, content) rpc args peer"
  obtain b w1 where b: "?batch w = (b, w1)" by (metis surj_pair)
  show ?thesis
  proof (cases b)
    case (Inl e)
    then have eq: "r = Inl e" "w' = w1" using assms(4) b by (simp_all add: readback_main_def abind_def)
    have "map_of (lw_fs w1) (la_path args) = map_of (lw_fs w) (la_path args)"
      using keepsD [OF batch_keeps_checkpoint refl b] .
    then show ?thesis using eq assms(3) by simp
  next
    case (Inr t)
    obtain st st' status where t: "t = (st, st', status)" by (metis surj_pair)
    from batch_accounts [OF assms(1-3) b [unfolded Inr t]] obtain vs where
      vs: "accounts py rows fresh vs st'" "vs = [] \<longrightarrow> st' = st"
        "map_of (lw_fs w1) (la_path args) = map_of (lw_fs w) (la_path args)"
        "status = ''complete'' \<longrightarrow> rb_cursor st' = int (length rows) \<and> rb_missing_rows st' = 0" by blast
    have "scan_file py rows fresh (map_of (lw_fs w') (la_path args))"
    proof (cases "lw_fs w' = lw_fs w1")
      case True
      then show ?thesis using assms(3) vs(3) by simp
    next
      case False
      then have "st' \<noteq> st" "lw_fs w' = run_steps (save_steps py (la_path args) tag st') (lw_fs w1)"
        using assms(4) b by (auto simp: readback_main_def abind_def Inr t split: if_splits)
      then show ?thesis using vs(1,2) save_steps_done by (auto simp: scan_file_def)
    qed
    moreover have "r = Inr (st', status) \<or> (\<exists>e. r = Inl e)"
      using assms(4) b by (auto simp: readback_main_def abind_def Inr t split: if_splits)
    ultimately show ?thesis using vs by auto
  qed
qed

lemma history_file:
  assumes "scan_setting py ivt content rows (fresh_state ivt repo peer)"
  shows "readback_history py ivt content path repo peer k fs \<Longrightarrow>
    scan_file py rows (fresh_state ivt repo peer) (map_of fs path)"
proof (induction rule: readback_history.induct)
  case (start fs)
  then show ?case by (simp add: scan_file_def)
next
  case (run w args rpc tag r w')
  show ?case using main_accounts [OF assms _ _ run.hyps(4)] run by auto
next
  case (crash w args rpc st st' status w' tag fs')
  have saved: "scan_file py rows (fresh_state ivt repo peer) (map_of (lw_fs w) (la_path args))"
    using crash by simp
  have fresh: "fresh_state ivt repo peer = fresh_state ivt (la_repository args) peer" using crash by simp
  from batch_accounts [OF assms fresh saved crash.hyps(4)] obtain vs where
    "accounts py rows (fresh_state ivt repo peer) vs st'" "vs \<noteq> []" "map_of (lw_fs w') path = map_of (lw_fs w) path"
    using crash.hyps(2,5) by blast
  moreover have "map_of fs' path = map_of (lw_fs w') path \<or> map_of fs' path = Some (File (readback_text py st'))"
    using save_steps_crash [OF crash.hyps(6)] .
  ultimately show ?case using crash.IH unfolding scan_file_def by metis
next
  case (other fs fs')
  then show ?case by simp
qed

text \<open>The state of a scan that found every block: the digests are those inside the CIDs.\<close>

definition full_scan :: "pylib \<Rightarrow> readback \<Rightarrow> (string \<times> int) list \<Rightarrow> readback" where
  "full_scan py fresh rows =
     scan_state py fresh (map (\<lambda>row. (row, Some (case sha256_digest (fst row) of Inr d \<Rightarrow> d | Inl _ \<Rightarrow> []))) rows)"

lemma complete_is_full:
  assumes "accounts py rows fresh vs st" and "rb_cursor st = int (length rows)" and "rb_missing_rows st = 0"
    and "rb_cursor fresh = 0" and "rb_missing_rows fresh = 0"
  shows "st = full_scan py fresh rows"
    and "\<forall>(cid, sz) \<in> set rows. \<exists>data. int (length data) = sz \<and> sha256_digest cid = Inr (sha256 py data)"
proof -
  have st: "st = scan_state py fresh vs" and len: "length vs = length rows" and none: "missing_rows vs = []"
    using assms by (auto simp: accounts_def scan_state_fields)
  have rows: "map fst vs = rows" and gen: "\<forall>v \<in> set vs. genuine py v" using assms(1) len by (auto simp: accounts_def)
  have row_ok: "\<exists>digest data. v = (fst v, Some digest) \<and> int (length data) = snd (fst v) \<and>
      sha256_digest (fst (fst v)) = Inr digest \<and> sha256 py data = digest" if "v \<in> set vs" for v
  proof -
    have "snd v \<noteq> None" using none that by (auto simp: missing_rows_def filter_empty_conv)
    then obtain digest where "v = (fst v, Some digest)" by (metis option.exhaust prod.collapse)
    then show ?thesis using gen that by (cases v) (auto simp: genuine_def)
  qed
  have "map (\<lambda>row. (row, Some (case sha256_digest (fst row) of Inr d \<Rightarrow> d | Inl _ \<Rightarrow> []))) (map fst vs) = vs"
    unfolding map_map by (rule map_idI) (use row_ok in \<open>fastforce simp: o_def\<close>)
  then show "st = full_scan py fresh rows" by (simp only: st full_scan_def rows)
  show "\<forall>(cid, sz) \<in> set rows. \<exists>data. int (length data) = sz \<and> sha256_digest cid = Inr (sha256 py data)"
    using row_ok by (fastforce simp: rows [symmetric])
qed

text \<open>C17: a scan that reports \<open>complete\<close>, after any history of runs, exceptions, power failures and foreign
  writes since there was no checkpoint, has read every block of the inventory with its declared size and
  the digest inside its CID; its counters are those of the inventory, and its \<open>scan_sha256\<close> is the one
  value that a complete scan of this inventory can have.\<close>

theorem complete_readback_read_every_block:
  fixes w :: "'k leaf_world"
  assumes "load_inventory py content identity sha count = Inr ivt" and "\<forall>d. length (sha256 py d) = 32"
    and "scans_readable py (inv_sizes ivt) (fresh_state ivt (la_repository args) peer)"
    and "readback_history py ivt content (la_path args) (la_repository args) peer TYPE('k) (lw_fs w)"
    and "readback_main py ivt (identity, content) rpc args peer tag w = (Inr (st, ''complete''), w')"
  shows "st = full_scan py (fresh_state ivt (la_repository args) peer) (inv_sizes ivt) \<and>
    rb_present_rows st = count \<and> rb_present_bytes st = inv_total_bytes ivt \<and>
    (\<forall>(cid, sz) \<in> set (inv_sizes ivt). \<exists>data. int (length data) = sz \<and> sha256_digest cid = Inr (sha256 py data))"
proof -
  let ?fresh = "fresh_state ivt (la_repository args) peer"
  from load_inventory_represents [OF assms(1)] obtain rows where rep: "represents py content rows ivt"
    and count: "int (length rows) = count" and id: "inv_identity ivt = identity" by metis
  have rows: "inv_sizes ivt = rows" and bytes: "inv_total_bytes ivt = (\<Sum>r\<leftarrow>rows. snd r)"
    using rep by (simp_all add: represents_def)
  have setting: "scan_setting py ivt content rows ?fresh"
    using rep assms(2,3) by (auto simp: scan_setting_def rows)
  from main_accounts [OF setting refl history_file [OF setting assms(4)] assms(5) [folded id]] obtain vs where
    vs: "accounts py rows ?fresh vs st" "rb_cursor st = int (length rows)" "rb_missing_rows st = 0" by blast
  have zero: "rb_cursor ?fresh = 0" "rb_missing_rows ?fresh = 0" by (simp_all add: fresh_state_def)
  note full = complete_is_full [OF vs zero]
  have found: "found_rows (map (\<lambda>row. (row, Some (f row))) rows) = rows" for f
    by (simp add: found_rows_def filter_map o_def)
  have "rb_present_rows st = count" "rb_present_bytes st = inv_total_bytes ivt"
    using count by (simp_all add: full(1) full_scan_def scan_state_fields found fresh_state_def bytes)
  then show ?thesis using full by (simp add: rows)
qed

section \<open>A concrete scan\<close>

text \<open>An inventory of one row, and a text format for the two checkpoints its scan can have.\<close>

definition leaf_inventory :: inventory where
  "leaf_inventory = \<lparr>inv_offsets = [0], inv_sizes = [(sample_cid, 1)], inv_positions = [(sample_cid, 0)],
     inv_sha256 = hex (replicate 32 7), inv_total_bytes = 1, inv_identity = lake_identity\<rparr>"

definition leaf_state :: "bool \<Rightarrow> readback" where
  "leaf_state found = (fresh_state leaf_inventory ''repo'' ''peer'')
     \<lparr>rb_cursor := 1, rb_present_rows := (if found then 1 else 0), rb_present_bytes := (if found then 1 else 0),
      rb_missing_rows := (if found then 0 else 1), rb_missing_bytes := (if found then 0 else 1),
      rb_scan_sha256 := hex (replicate 32 7)\<rparr>"

definition leaf_py :: pylib where
  "leaf_py = \<lparr>sha256 = sample_sha,
     json_loads = (\<lambda>line. case line of
         [] \<Rightarrow> Inl ValueError
       | b # _ \<Rightarrow> if b = 200 then Inr (JDict (readback_json (leaf_state False)))
           else if b = 201 then Inr (JDict (readback_json (leaf_state True)))
           else Inr (JDict [(''cid'', JStr sample_cid), (''bytes'', JInt (int (unat b)))])),
     json_dumps = (\<lambda>v. case v of JDict kvs \<Rightarrow> [if field kvs ''present_rows'' = JInt 1 then 201 else 200] | _ \<Rightarrow> [])\<rparr>"

definition leaf_args :: leaf_args where
  "leaf_args = \<lparr>la_path = [''state'', ''scan.json''], la_root = [''raw''], la_repository = ''repo'', la_max_rows = 10,
     la_max_bytes = 100, la_scan_gaps = False, la_locked = False\<rparr>"

definition leaf_rpc :: "unit offline_rpc" where
  "leaf_rpc cid u = (Inr (200, [5]), u)"

definition leaf_start :: "unit leaf_world" where
  "leaf_start = \<lparr>lw_fs = [([''state''], Dir)], lw_daemon = ()\<rparr>"

lemma leaf_loaded:
  "load_inventory leaf_py [1, 10] lake_identity (hex (replicate 32 7)) 1 = Inr leaf_inventory"
  by code_simp

lemma leaf_run:
  "fst (readback_main leaf_py leaf_inventory (lake_identity, [1, 10]) leaf_rpc leaf_args ''peer'' ''t'' leaf_start) =
     Inr (leaf_state True, ''complete'')"
  by code_simp

lemma leaf_readable:
  "scans_readable leaf_py (inv_sizes leaf_inventory) (fresh_state leaf_inventory (la_repository leaf_args) ''peer'')"
proof -
  have digest: "sha256_digest sample_cid = Inr (replicate 32 7)" by code_simp
  have yes: "json_loads leaf_py (readback_text leaf_py (leaf_state True)) = Inr (JDict (readback_json (leaf_state True)))"
    by code_simp
  have no: "json_loads leaf_py (readback_text leaf_py (leaf_state False)) = Inr (JDict (readback_json (leaf_state False)))"
    by code_simp
  have read: "json_loads leaf_py (readback_text leaf_py (leaf_state found)) = Inr (JDict (readback_json (leaf_state found)))"
    for found using yes no by (cases found) simp_all
  have "\<exists>found. st = leaf_state found"
    if "vs \<noteq> []" and acc: "accounts leaf_py [(sample_cid, 1)] (fresh_state leaf_inventory ''repo'' ''peer'') vs st" for vs st
  proof -
    have "length vs = 1" using accounts_length [OF acc] that(1) by (cases vs) auto
    then obtain v where "vs = [v]" by (metis One_nat_def length_0_conv length_Suc_conv)
    with acc obtain found where vs: "vs = [((sample_cid, 1), found)]" by (cases v) (auto simp: accounts_def)
    show ?thesis
    proof (cases found)
      case None
      then have "st = leaf_state False" using acc
        by (simp add: vs accounts_def scan_state_def record_row_def leaf_state_def fresh_state_def scan_link_def
            leaf_py_def sample_sha_def)
      then show ?thesis by blast
    next
      case (Some d)
      then have "st = leaf_state True" using acc
        by (simp add: vs accounts_def scan_state_def record_row_def leaf_state_def fresh_state_def scan_link_def
            leaf_py_def sample_sha_def)
      then show ?thesis by blast
    qed
  qed
  then show ?thesis using read by (auto simp: scans_readable_def leaf_inventory_def leaf_args_def)
qed

theorem complete_readback_read_every_block_witness:
  "leaf_state True = full_scan leaf_py (fresh_state leaf_inventory ''repo'' ''peer'') [(sample_cid, 1)] \<and>
   (\<exists>data :: bytes. length data = 1 \<and> sha256_digest sample_cid = Inr (sha256 leaf_py data))"
proof -
  obtain w' where run: "readback_main leaf_py leaf_inventory (lake_identity, [1, 10]) leaf_rpc leaf_args ''peer'' ''t''
      leaf_start = (Inr (leaf_state True, ''complete''), w')"
    using leaf_run by (metis prod.collapse)
  have sha: "\<forall>d. length (sha256 leaf_py d) = 32" by (simp add: leaf_py_def sample_sha_def)
  have "map_of (lw_fs leaf_start) (la_path leaf_args) = None" by code_simp
  then have "readback_history leaf_py leaf_inventory [1, 10] (la_path leaf_args) (la_repository leaf_args) ''peer''
      TYPE(unit) (lw_fs leaf_start)" by (rule readback_history.start)
  from complete_readback_read_every_block [OF leaf_loaded sha leaf_readable this run] show ?thesis
    by (auto simp: leaf_inventory_def leaf_args_def)
qed

end
