(* ===== verification/Kubo_Commands.thy ===== *)
theory Kubo_Commands
  imports Lake_Audit Ship_Commands
begin

text \<open>
  \<open>deploy/import_lake_car.py\<close>, the helpers it shares with the other scripts that pin blocks: running
  \<open>ipfs\<close> on a repository, the check of the repository, and the DAG node that links a range of rows.
  Shown: a node that equals the expected one is accepted by the audit and links every row.
\<close>

section \<open>Running programs\<close>

text \<open>
  A program is given the repository it works on (\<open>IPFS_PATH\<close>), its arguments and its standard input. It
  may change local files; \<open>'w\<close> is whatever else its outcome depends on. Every run is recorded.
\<close>

type_synonym 'w program =
  "string option \<Rightarrow> string list \<Rightarrow> bytes \<Rightarrow> fs \<times> 'w \<Rightarrow> (int \<times> bytes) res \<times> (fs \<times> 'w)"

type_synonym program_run = "string option \<times> string list \<times> bytes \<times> (int \<times> bytes) res"

record 'w machine =
  mc_fs :: fs
  mc_world :: 'w
  mc_log :: "program_run list"

definition run_program ::
    "exn \<Rightarrow> exn \<Rightarrow> 'w program \<Rightarrow> string option \<Rightarrow> string list \<Rightarrow> bytes \<Rightarrow> ('w machine, bytes) action" where
  "run_program failed refused prog repo argv data s =
     (case prog repo argv data (mc_fs s, mc_world s) of (answer, fs, w) \<Rightarrow>
        (case answer of
           Inl e \<Rightarrow> Inl (if e = OSError \<or> e = TimeoutExpired then failed else e)
         | Inr (rc, out) \<Rightarrow> if rc \<noteq> 0 then Inl refused else Inr out,
         s\<lparr>mc_fs := fs, mc_world := w, mc_log := mc_log s @ [(repo, argv, data, answer)]\<rparr>))"

text \<open>An operation on local files, and one that only looks at them.\<close>

definition on_disk :: "(fs, 'a) action \<Rightarrow> ('w machine, 'a) action" where
  "on_disk m s = (case m (mc_fs s) of (r, fs) \<Rightarrow> (r, s\<lparr>mc_fs := fs\<rparr>))"

definition ask :: "(fs \<Rightarrow> 'a res) \<Rightarrow> ('w machine, 'a) action" where
  "ask f s = (f (mc_fs s), s)"

text \<open>\<open>with p.open("xb") as target\<close>, a program that writes its output there, and \<open>fsync\<close>: what it wrote is
  what the file holds afterwards.\<close>

definition stdout_to :: "path \<Rightarrow> ('w machine, bytes) action \<Rightarrow> ('w machine, unit) action" where
  "stdout_to p run =
     abind (ask (\<lambda>fs. if map_of fs p \<noteq> None then Inl OSError else Inr ())) (\<lambda>_.
     abind (on_disk (awrite p [])) (\<lambda>_.
     abind run (\<lambda>out. on_disk (awrite p out))))"

text \<open>The program answered during a run: with status 0 and this output.\<close>

definition answered :: "program_run list \<Rightarrow> string option \<Rightarrow> string list \<Rightarrow> bytes \<Rightarrow> bool" where
  "answered log repo argv out \<longleftrightarrow> (\<exists>data. (repo, argv, data, Inr (0, out)) \<in> set log)"

lemma run_program_Inr [action_dest]:
  "run_program failed refused prog repo argv data s = (Inr out, s') \<longleftrightarrow>
     (\<exists>fs w. prog repo argv data (mc_fs s, mc_world s) = (Inr (0, out), fs, w) \<and>
        s' = s\<lparr>mc_fs := fs, mc_world := w, mc_log := mc_log s @ [(repo, argv, data, Inr (0, out))]\<rparr>)"
  by (auto simp: run_program_def split: prod.splits sum.splits if_splits)

lemma on_disk_Inr [action_dest]:
  "on_disk m s = (Inr x, s') \<longleftrightarrow> (\<exists>fs. m (mc_fs s) = (Inr x, fs) \<and> s' = s\<lparr>mc_fs := fs\<rparr>)"
  by (auto simp: on_disk_def split: prod.splits)

lemma ask_Inr [action_dest]: "ask f s = (Inr x, s') \<longleftrightarrow> f (mc_fs s) = Inr x \<and> s' = s"
  by (auto simp: ask_def)

lemma answered_append [simp]: "answered log repo argv out \<Longrightarrow> answered (log @ l) repo argv out"
  "answered l repo argv out \<Longrightarrow> answered (log @ l) repo argv out"
  by (auto simp: answered_def)

lemma answered_one [simp]: "answered [(repo, argv, data, Inr (0, out))] repo argv out"
  by (auto simp: answered_def)

text \<open>Programs that leave a property of the files alone, and runs whose log only grows meanwhile.\<close>

definition prog_keeps :: "(fs \<Rightarrow> bool) \<Rightarrow> 'w program \<Rightarrow> bool" where
  "prog_keeps Q prog \<longleftrightarrow>
     (\<forall>repo argv data fs w. Q fs \<longrightarrow> Q (fst (snd (prog repo argv data (fs, w)))))"

definition after :: "program_run list \<Rightarrow> (fs \<Rightarrow> bool) \<Rightarrow> 'w machine \<Rightarrow> bool" where
  "after log Q s \<longleftrightarrow> Q (mc_fs s) \<and> (\<exists>l. mc_log s = log @ l)"

lemma after_refl: "Q (mc_fs s) \<Longrightarrow> after (mc_log s) Q s"
  by (simp add: after_def)

lemma keeps_program [keeps_intros]:
  "prog_keeps Q prog \<Longrightarrow> keeps (after log Q) (run_program failed refused prog repo argv data)"
  by (auto simp: keeps_def after_def prog_keeps_def run_program_def split_beta)

lemma keeps_on_disk: "keeps Q m \<Longrightarrow> keeps (after log Q) (on_disk m)"
  by (auto simp: keeps_def after_def on_disk_def split_beta)

lemma keeps_ask [keeps_intros]: "keeps (after log Q) (ask f)"
  by (simp add: keeps_def ask_def)

lemma logged_action:
  assumes "\<And>l. keeps (after l (\<lambda>_. True)) m" and "m s = (r, s')"
  shows "\<exists>l. mc_log s' = mc_log s @ l"
  using keepsD [OF assms(1) [of "mc_log s"] _ assms(2)] by (simp add: after_def)

text \<open>Opening a lock file and locking it, and what that, new directories and files written atomically leave
  alone.\<close>

definition take_lock :: "path \<Rightarrow> bool \<Rightarrow> exn \<Rightarrow> (fs, unit) action" where
  "take_lock p locked busy fs =
     (let fs = (if map_of fs p = None then write_node p (File []) fs else fs) in
      if locked then (Inl busy, fs) else (Inr (), fs))"

lemma keeps_take_lock: "q \<noteq> p \<Longrightarrow> keeps (\<lambda>fs. map_of fs q = c) (take_lock p locked busy)"
  by (simp add: keeps_def take_lock_def Let_def)

lemma keeps_amkdirs: "q \<notin> set (ancestors p) \<Longrightarrow> keeps (\<lambda>fs. map_of fs q = c) (amkdirs p)"
  using mkdirs_other by (auto simp: keeps_def amkdirs_def split: sum.splits)

lemma keeps_atomic_json: "q \<noteq> p \<Longrightarrow> q \<noteq> partial_name p tag \<Longrightarrow> keeps (\<lambda>fs. map_of fs q = c) (atomic_json py p tag v)"
  by (auto simp: keeps_def atomic_json_def Let_def)

section \<open>\<open>ipfs\<close> and the checks on its answers\<close>

definition run_kubo :: "'w program \<Rightarrow> string \<Rightarrow> string \<Rightarrow> string list \<Rightarrow> bytes \<Rightarrow> ('w machine, string) action" where
  "run_kubo prog ipfs repo args data =
     abind (run_program (ImportError (''Kubo command failed: '' @ join_text '' '' (take 2 args)))
         (ImportError (''Kubo refused '' @ join_text '' '' (take 2 args))) prog (Some repo) (ipfs # args) data)
       (\<lambda>out. areturn (text_of out))"

definition verified_root :: "pylib \<Rightarrow> string \<Rightarrow> json \<Rightarrow> unit res" where
  "verified_root py output expected =
     rbind (rename_error ValueError (ImportError ''Kubo returned invalid batch root JSON'') (json_loads py (ascii output)))
       (\<lambda>actual. if json_eq actual expected then Inr ()
          else Inl (ImportError ''Kubo batch root differs from inventory links''))"

text \<open>\<open>verify_repo\<close>; the resolved path of the repository is \<open>repository\<close>.\<close>

definition matched_repo ::
    "pylib \<Rightarrow> 'w program \<Rightarrow> string \<Rightarrow> path \<Rightarrow> string \<Rightarrow> ('w machine, unit) action" where
  "matched_repo py prog ipfs repo repository =
     abind (ask (\<lambda>fs. repo_identity (ImportError ''Kubo repository identity is unavailable'') py fs repo))
       (\<lambda>(expected, api_address).
     case as_str expected of
       None \<Rightarrow> araise (ImportError ''Kubo repository identity is invalid'')
     | Some expected \<Rightarrow>
         if expected = [] \<or> api_address = [] then araise (ImportError ''Kubo repository identity is invalid'')
         else
           abind (run_kubo prog ipfs repository [''id'', ''-f'', ''<id>''] []) (\<lambda>out.
           if strip out \<noteq> expected then araise (ImportError ''Kubo daemon uses a different repository'')
           else areturn ()))"

text \<open>The two questions asked about a root: whether it is pinned with all it links, and what it is.\<close>

definition pin_ls_recursive :: "'w program \<Rightarrow> string \<Rightarrow> string \<Rightarrow> string \<Rightarrow> ('w machine, bool) action" where
  "pin_ls_recursive prog ipfs repo root_cid =
     abind (run_kubo prog ipfs repo [''pin'', ''ls'', ''--type=recursive'', root_cid] [])
       (\<lambda>out. areturn (strip out = root_cid @ '' recursive''))"

definition check_dag_node ::
    "pylib \<Rightarrow> 'w program \<Rightarrow> string \<Rightarrow> string \<Rightarrow> string \<Rightarrow> json \<Rightarrow> ('w machine, unit) action" where
  "check_dag_node py prog ipfs repo root_cid expected =
     abind (run_kubo prog ipfs repo [''dag'', ''get'', root_cid] []) (\<lambda>out. alift (verified_root py out expected))"

text \<open>The node that links a range of rows.\<close>

definition batch_node :: "string \<Rightarrow> int \<Rightarrow> int \<Rightarrow> string list \<Rightarrow> json" where
  "batch_node sha start stop cids =
     JDict [(''schema'', JInt 1), (''inventory-sha256'', JStr sha), (''start-row'', JInt start), (''end-row'', JInt stop),
       (''links'', JList (map (\<lambda>cid. JDict [(''/'', JStr cid)]) cids))]"

section \<open>What the answers say\<close>

lemma ascii_text_of [simp]: "ascii (text_of bs) = bs"
  by (induction bs) (simp_all add: ascii_def text_of_def)

lemma run_kubo_Inr [action_dest]:
  "run_kubo prog ipfs repo args data s = (Inr text, s') \<longleftrightarrow>
     (\<exists>out fs w. prog (Some repo) (ipfs # args) data (mc_fs s, mc_world s) = (Inr (0, out), fs, w) \<and> text = text_of out \<and>
        s' = s\<lparr>mc_fs := fs, mc_world := w, mc_log := mc_log s @ [(Some repo, ipfs # args, data, Inr (0, out))]\<rparr>)"
  unfolding run_kubo_def by (auto simp: abind_Inr run_program_Inr)

lemma keeps_run_kubo [keeps_intros]: "prog_keeps Q prog \<Longrightarrow> keeps (after log Q) (run_kubo prog ipfs repo args data)"
  unfolding run_kubo_def by (intro keeps_intros)

lemma keeps_matched_repo [keeps_intros]:
  "prog_keeps Q prog \<Longrightarrow> keeps (after log Q) (matched_repo py prog ipfs repo repository)"
  unfolding matched_repo_def by (intro keeps_intros)

lemma keeps_root_checks [keeps_intros]:
  assumes "prog_keeps Q prog"
  shows "keeps (after log Q) (pin_ls_recursive prog ipfs repo root_cid)"
    "keeps (after log Q) (check_dag_node py prog ipfs repo root_cid expected)"
  unfolding pin_ls_recursive_def check_dag_node_def by (intro keeps_intros assms)+

text \<open>The daemon said of a root that it is pinned, and showed a node that equals the expected one.\<close>

definition pinned_node :: "pylib \<Rightarrow> program_run list \<Rightarrow> string \<Rightarrow> string \<Rightarrow> string \<Rightarrow> json \<Rightarrow> json \<Rightarrow> bool" where
  "pinned_node py log ipfs repo root_cid expected v \<longleftrightarrow>
     (\<exists>out. answered log (Some repo) [ipfs, ''pin'', ''ls'', ''--type=recursive'', root_cid] out \<and>
        strip (text_of out) = root_cid @ '' recursive'') \<and>
     (\<exists>out. answered log (Some repo) [ipfs, ''dag'', ''get'', root_cid] out \<and> json_loads py out = Inr v \<and> json_eq v expected)"

lemma root_checks_Inr:
  assumes "pin_ls_recursive prog ipfs repo root_cid s = (Inr True, s1)"
    and "check_dag_node py prog ipfs repo root_cid expected s1 = (Inr u, s')"
  shows "\<exists>l v. mc_log s' = mc_log s @ l \<and> pinned_node py l ipfs repo root_cid expected v"
proof -
  from assms(1) obtain out1 where one: "mc_log s1 = mc_log s @ [(Some repo, [ipfs, ''pin'', ''ls'', ''--type=recursive'', root_cid], [], Inr (0, out1))]"
    "strip (text_of out1) = root_cid @ '' recursive''"
    unfolding pin_ls_recursive_def by (auto simp: abind_Inr run_kubo_Inr)
  from assms(2) obtain out2 v where two: "mc_log s' = mc_log s1 @ [(Some repo, [ipfs, ''dag'', ''get'', root_cid], [], Inr (0, out2))]"
    "json_loads py out2 = Inr v" "json_eq v expected"
    unfolding check_dag_node_def verified_root_def by (auto simp: abind_Inr run_kubo_Inr res_simps split: if_splits)
  show ?thesis unfolding pinned_node_def
    by (rule exI [of _ "[(Some repo, [ipfs, ''pin'', ''ls'', ''--type=recursive'', root_cid], [], Inr (0, out1)),
        (Some repo, [ipfs, ''dag'', ''get'', root_cid], [], Inr (0, out2))]"])
      (use one two in \<open>auto simp: answered_def\<close>)
qed

section \<open>The node the audit accepts\<close>

lemma json_eq_int: "json_eq v (JInt i) \<longleftrightarrow> eq_int v i"
  by (cases v) auto

lemma json_eq_str: "json_eq v (JStr t) \<longleftrightarrow> v = JStr t"
  by (cases v) auto

lemma json_eq_dict:
  assumes "json_eq v (JDict b)"
  obtains a where "v = JDict a" "set (map fst a) = set (map fst b)"
    "\<And>k y. map_of b k = Some y \<Longrightarrow> json_eq (field a k) y"
proof -
  from assms obtain a where a: "v = JDict a" "set (map fst a) = set (map fst b)"
    "list_all (\<lambda>(k, x). case map_of b k of None \<Rightarrow> False | Some y \<Rightarrow> json_eq x y) a"
    by (cases v) auto
  have "json_eq (field a k) y" if y: "map_of b k = Some y" for k y
  proof -
    from y have "k \<in> set (map fst a)" using a(2) by (metis domI dom_map_of_conv_image_fst image_set)
    then obtain x where x: "map_of a k = Some x" by (metis map_of_eq_None_iff not_None_eq list.set_map)
    then have "(k, x) \<in> set a" by (rule map_of_SomeD)
    then show ?thesis using a(3) x y by (auto simp: list_all_iff field_def)
  qed
  then show ?thesis using that a(1,2) by blast
qed

lemma batch_node_accepted:
  assumes "json_eq v (batch_node sha (int start) (int stop) (map fst rows))"
  shows "root_lists v sha start stop (map row_json rows)"
proof -
  from assms obtain a where a: "v = JDict a" "set (map fst a) = {''schema'', ''inventory-sha256'', ''start-row'', ''end-row'', ''links''}"
    and f: "\<And>k y. map_of [(''schema'', JInt 1), (''inventory-sha256'', JStr sha), (''start-row'', JInt (int start)),
      (''end-row'', JInt (int stop)), (''links'', JList (map (\<lambda>cid. JDict [(''/'', JStr cid)]) (map fst rows)))] k = Some y \<Longrightarrow>
      json_eq (field a k) y"
    unfolding batch_node_def by (elim json_eq_dict) auto
  have scalars: "eq_int (field a ''schema'') 1" "eq_str (field a ''inventory-sha256'') sha"
    "eq_int (field a ''start-row'') (int start)" "eq_int (field a ''end-row'') (int stop)"
    using f [of "''schema''"] f [of "''inventory-sha256''"] f [of "''start-row''"] f [of "''end-row''"]
    by (simp_all add: json_eq_int json_eq_str eq_str_def)
  have "json_eq (field a ''links'') (JList (map (\<lambda>cid. JDict [(''/'', JStr cid)]) (map fst rows)))"
    using f [of "''links''"] by simp
  then obtain links where links: "field a ''links'' = JList links" "length links = length rows"
    and each: "list_all (\<lambda>(x, y). json_eq x y) (zip links (map (\<lambda>cid. JDict [(''/'', JStr cid)]) (map fst rows)))"
    by (cases "field a ''links''") auto
  have "case links ! i of JDict l \<Rightarrow> set (map fst l) = {''/''} \<and> field l ''/'' = fst (map row_json rows ! i) | _ \<Rightarrow> False"
    if i: "i < length links" for i
  proof -
    have "json_eq (links ! i) (JDict [(''/'', JStr (fst (rows ! i)))])"
      using each i links(2) by (auto simp: list_all_length)
    then obtain l where "links ! i = JDict l" "set (map fst l) = {''/''}" "json_eq (field l ''/'') (JStr (fst (rows ! i)))"
      by (elim json_eq_dict) auto
    then show ?thesis using i links(2) by (simp add: json_eq_str row_json_def)
  qed
  then have "list_all2 (\<lambda>link row. case link of JDict l \<Rightarrow> set (map fst l) = {''/''} \<and> field l ''/'' = fst row | _ \<Rightarrow> False)
      links (map row_json rows)"
    using links(2) by (simp add: list_all2_conv_all_nth)
  then show ?thesis using a scalars links(1) by (simp add: root_lists_def)
qed

end
