(* ===== verification/Car_Import.thy ===== *)
theory Car_Import
  imports Kubo_Commands
begin

text \<open>
  \<open>deploy/import_lake_car.py\<close>: one bounded CAR is imported and its rows are pinned through one DAG node.
  Shown: an import that returns has seen the daemon pin a node that links exactly the rows of the dated
  inventory; its receipt is accepted by the reader's receipt index and by the audit, for these rows; and
  a crash while the receipt is written leaves a file that makes every later import fail and that none of
  them removes.
\<close>

text \<open>The command line and what the process finds: free bytes on the disk of the repository, the identity
  of the inventory file, the resolved path of the repository, and \<open>json.dumps\<close> with compact separators.\<close>

record import_args =
  im_inventory :: path
  im_sha256 :: string
  im_count :: int
  im_start_row :: int
  im_max_blocks :: int
  im_car :: path
  im_car_sha256 :: string
  im_ipfs_bin :: path
  im_ipfs_path :: path
  im_min_free_bytes :: int
  im_receipt :: "path option"
  im_free :: int
  im_identity :: file_identity
  im_repository :: string
  im_compact :: "json \<Rightarrow> bytes"

section \<open>The import\<close>

definition check_import_args :: "import_args \<Rightarrow> fs \<Rightarrow> unit res" where
  "check_import_args args fs =
     (if \<not> match_sha256 (im_sha256 args) \<or> \<not> match_sha256 (im_car_sha256 args)
      then Inl (ImportError ''invalid SHA-256 argument'')
      else if \<not> (1 \<le> im_max_blocks args \<and> im_max_blocks args \<le> 1000) \<or> im_start_row args < 0 \<or> im_count args < 1 \<or>
        im_min_free_bytes args < 0
      then Inl (ImportError ''invalid inventory range'')
      else if \<not> is_file fs (im_ipfs_bin args) \<or> \<not> is_dir fs (im_ipfs_path args) \<or> \<not> is_file fs (im_car args)
      then Inl (ImportError ''Kubo binary, repository, or CAR is absent'')
      else Inr ())"

text \<open>\<open>[row["cid"] for row in rows]\<close> with the check of every CID.\<close>

definition import_cids :: "(json \<times> json) list \<Rightarrow> string list res" where
  "import_cids rows =
     (let bad = ImportError ''invalid selected CID'' in
      if rows = [] then Inl bad
      else foldM (\<lambda>cids row. case as_str (fst row) of
          None \<Rightarrow> Inl TypeError
        | Some cid \<Rightarrow> if match_cid cid then Inr (cids @ [cid]) else Inl bad) [] rows)"

definition import_rows :: "pylib \<Rightarrow> import_args \<Rightarrow> fs \<Rightarrow> ((json \<times> json) list \<times> string list) res" where
  "import_rows py args fs =
     rbind (read_bytes fs (im_inventory args)) (\<lambda>content.
     rbind (load_inventory py content (im_identity args) (im_sha256 args) (im_count args)) (\<lambda>ivt.
     rbind (inventory_rows py ivt (im_identity args, content) (im_start_row args) (im_max_blocks args)) (\<lambda>(rows, _).
     rbind (import_cids rows) (\<lambda>cids. Inr (rows, cids)))))"

definition check_import_car :: "pylib \<Rightarrow> import_args \<Rightarrow> fs \<Rightarrow> unit res" where
  "check_import_car py args fs =
     rbind (read_bytes fs (im_car args)) (\<lambda>data.
     if length data < 1 \<or> hex (sha256 py data) \<noteq> im_car_sha256 args
     then Inl (ImportError ''CAR SHA-256 differs from export receipt'')
     else if im_free args - 2 * int (length data) < im_min_free_bytes args
     then Inl (ImportError ''physical disk reserve would be crossed'')
     else Inr ())"

definition import_result :: "import_args \<Rightarrow> nat \<Rightarrow> int \<Rightarrow> string \<Rightarrow> json" where
  "import_result args n n_bytes root_cid =
     JDict [(''status'', JStr ''complete''), (''inventory_sha256'', JStr (im_sha256 args)),
       (''start_row'', JInt (im_start_row args)), (''end_row'', JInt (im_start_row args + int n)), (''blocks'', JInt (int n)),
       (''bytes'', JInt n_bytes), (''car_sha256'', JStr (im_car_sha256 args)), (''root'', JStr root_cid),
       (''repository'', JStr (im_repository args))]"

text \<open>The receipt is written beside its place, under a name that is always the same, and renamed.\<close>

definition import_temp :: "path \<Rightarrow> path" where
  "import_temp p = butlast p @ [last p @ ''.partial'']"

definition receipt_steps :: "pylib \<Rightarrow> path \<Rightarrow> json \<Rightarrow> step list" where
  "receipt_steps py p v = [Create (import_temp p) (json_text py v), Rename (import_temp p) p (json_text py v)]"

definition save_import_receipt :: "pylib \<Rightarrow> path option \<Rightarrow> json \<Rightarrow> (fs, unit) action" where
  "save_import_receipt py receipt v =
     (case receipt of
        None \<Rightarrow> areturn ()
      | Some p \<Rightarrow>
          abind (amkdirs (butlast p)) (\<lambda>_ fs.
          if map_of fs (import_temp p) \<noteq> None then (Inl OSError, fs)
          else (Inr (), run_steps (receipt_steps py p v) fs)))"

definition import_pinned ::
    "pylib \<Rightarrow> 'w program \<Rightarrow> import_args \<Rightarrow> (json \<times> json) list \<Rightarrow> string list \<Rightarrow> ('w machine, json) action" where
  "import_pinned py prog args rows cids =
     (let ipfs = path_str (im_ipfs_bin args); repo = im_repository args;
          node = batch_node (im_sha256 args) (im_start_row args) (im_start_row args + int (length cids)) cids in
      abind (run_kubo prog ipfs repo [''dag'', ''import'', ''--allow-big-block'', ''--pin-roots=false'',
          ''--fast-provide-root=false'', ''--fast-provide-dag=false'', path_str (im_car args)] []) (\<lambda>_.
      abind (run_kubo prog ipfs repo [''dag'', ''put'', ''--pin''] (im_compact args node)) (\<lambda>out.
      let root_cid = strip out in
      if \<not> match_cid root_cid then araise (ImportError ''Kubo returned an invalid batch root'')
      else
        abind (pin_ls_recursive prog ipfs repo root_cid) (\<lambda>pinned.
        if \<not> pinned then araise (ImportError ''batch root is not recursively pinned'')
        else
          abind (check_dag_node py prog ipfs repo root_cid node) (\<lambda>_.
          abind (alift (sum_sizes rows)) (\<lambda>n_bytes.
          areturn (import_result args (length cids) n_bytes root_cid)))))))"

definition import_batch :: "pylib \<Rightarrow> 'w program \<Rightarrow> import_args \<Rightarrow> ('w machine, json) action" where
  "import_batch py prog args =
     abind (ask (check_import_args args)) (\<lambda>_.
     abind (ask (import_rows py args)) (\<lambda>(rows, cids).
     abind (ask (check_import_car py args)) (\<lambda>_.
     abind (matched_repo py prog (path_str (im_ipfs_bin args)) (im_ipfs_path args) (im_repository args)) (\<lambda>_.
     abind (import_pinned py prog args rows cids) (\<lambda>result.
     abind (on_disk (save_import_receipt py (im_receipt args) result)) (\<lambda>_.
     areturn result))))))"

text \<open>The exit status; an exception that is not caught ends the interpreter with status 1.\<close>

fun import_refused :: "exn \<Rightarrow> bool" where
  "import_refused (ImportError _) = True"
| "import_refused (InventoryError _) = True"
| "import_refused OSError = True"
| "import_refused ValueError = True"
| "import_refused _ = False"

definition import_main :: "pylib \<Rightarrow> 'w program \<Rightarrow> import_args \<Rightarrow> ('w machine, int) action" where
  "import_main py prog args s =
     (case import_batch py prog args s of
        (Inl e, s') \<Rightarrow> (Inr (if import_refused e then 2 else 1), s') | (Inr _, s') \<Rightarrow> (Inr 0, s'))"

section \<open>What an import has seen\<close>

text \<open>The rows of the declared inventory an import is for.\<close>

definition wanted_rows :: "import_args \<Rightarrow> (string \<times> int) list \<Rightarrow> (string \<times> int) list" where
  "wanted_rows args all_rows = take (nat (im_max_blocks args)) (drop (nat (im_start_row args)) all_rows)"

lemma import_cids_Inr:
  "import_cids (map row_json rows) = Inr cids \<Longrightarrow> cids = map fst rows \<and> rows \<noteq> [] \<and> (\<forall>r \<in> set rows. match_cid (fst r))"
proof -
  have step: "foldM (\<lambda>cids row. case as_str (fst row) of
        None \<Rightarrow> Inl TypeError | Some cid \<Rightarrow> if match_cid cid then Inr (cids @ [cid]) else Inl (ImportError ''invalid selected CID''))
      acc (map row_json rows) = Inr cids \<Longrightarrow> cids = acc @ map fst rows \<and> (\<forall>r \<in> set rows. match_cid (fst r))" for acc
  proof (induction rows arbitrary: acc)
    case (Cons r rows)
    from Cons.prems have "match_cid (fst r)" by (auto simp: row_json_def split: if_splits)
    with Cons.prems Cons.IH [of "acc @ [fst r]"] show ?case by (auto simp: row_json_def)
  qed simp
  assume "import_cids (map row_json rows) = Inr cids"
  then show ?thesis using step [of "[]"] by (auto simp: import_cids_def Let_def split: if_splits)
qed

lemma sum_sizes_rows: "sum_sizes (map row_json rows) = Inr (\<Sum>r\<leftarrow>rows. snd r)"
proof -
  have "foldM (\<lambda>acc r. case as_int (snd r) of None \<Rightarrow> Inl TypeError | Some n \<Rightarrow> Inr (acc + n)) a (map row_json rows) =
      Inr (a + (\<Sum>r\<leftarrow>rows. snd r))" for a
    by (induction rows arbitrary: a) (simp_all add: row_json_def)
  then show ?thesis by (simp add: sum_sizes_def)
qed

lemma import_rows_Inr:
  assumes "import_rows py args fs = Inr (rows, cids)" and "check_import_args args fs = Inr ()"
  obtains content ivt all_rows where "read_bytes fs (im_inventory args) = Inr content"
    "load_inventory py content (im_identity args) (im_sha256 args) (im_count args) = Inr ivt"
    "represents py content all_rows ivt" "inv_identity ivt = im_identity args" "inv_sha256 ivt = im_sha256 args"
    "rows = map row_json (wanted_rows args all_rows)" "cids = map fst (wanted_rows args all_rows)"
    "wanted_rows args all_rows \<noteq> []" "0 \<le> im_start_row args" "int (length all_rows) = im_count args"
    "length (wanted_rows args all_rows) \<le> 1000"
proof -
  from assms(1) obtain content ivt stop where c: "read_bytes fs (im_inventory args) = Inr content"
    "load_inventory py content (im_identity args) (im_sha256 args) (im_count args) = Inr ivt"
    "inventory_rows py ivt (im_identity args, content) (im_start_row args) (im_max_blocks args) = Inr (rows, stop)"
    "import_cids rows = Inr cids" by (auto simp: import_rows_def res_simps)
  from c(2) obtain all_rows where r: "represents py content all_rows ivt" "inv_sha256 ivt = im_sha256 args"
    "int (length all_rows) = im_count args" "inv_identity ivt = im_identity args" by (rule load_inventory_represents)
  from assms(2) have a: "1 \<le> im_max_blocks args" "im_max_blocks args \<le> 1000" "0 \<le> im_start_row args"
    by (auto simp: check_import_args_def split: if_splits)
  have "length (inv_offsets ivt) = length all_rows" using r(1) by (simp add: represents_def)
  then have lt: "nat (im_start_row args) < length all_rows"
    using c(3) inventory_rows_outside [of "im_start_row args" ivt py "(im_identity args, content)" "im_max_blocks args"] a(3)
    by (cases "int (length all_rows) \<le> im_start_row args") auto
  have rows: "rows = map row_json (wanted_rows args all_rows)"
    using inventory_rows_Inr [OF r(1) lt a(1,2)] c(3) r(4) a(3) by (simp add: wanted_rows_def)
  have cids: "cids = map fst (wanted_rows args all_rows)" "wanted_rows args all_rows \<noteq> []"
    using import_cids_Inr c(4) rows by auto
  have "length (wanted_rows args all_rows) \<le> 1000" using a(1,2) by (simp add: wanted_rows_def)
  with that [OF c(1,2) r(1,4,2) rows cids a(3) r(3)] show ?thesis by blast
qed

lemma import_pinned_Inr:
  assumes "import_pinned py prog args rows cids s = (Inr result, s')"
  obtains root_cid v n_bytes l where "match_cid root_cid" "sum_sizes rows = Inr n_bytes"
    "result = import_result args (length cids) n_bytes root_cid" "mc_log s' = mc_log s @ l"
    "pinned_node py l (path_str (im_ipfs_bin args)) (im_repository args) root_cid
      (batch_node (im_sha256 args) (im_start_row args) (im_start_row args + int (length cids)) cids) v"
proof -
  let ?ipfs = "path_str (im_ipfs_bin args)" and ?repo = "im_repository args"
  let ?node = "batch_node (im_sha256 args) (im_start_row args) (im_start_row args + int (length cids)) cids"
  from assms obtain root_cid s1 s2 s3 n_bytes where
    r: "match_cid root_cid" "pin_ls_recursive prog ?ipfs ?repo root_cid s1 = (Inr True, s2)"
      "check_dag_node py prog ?ipfs ?repo root_cid ?node s2 = (Inr (), s3)" "sum_sizes rows = Inr n_bytes"
      "result = import_result args (length cids) n_bytes root_cid" "s' = s3" and
    log: "\<exists>l. mc_log s1 = mc_log s @ l"
    unfolding import_pinned_def Let_def by (auto simp: abind_Inr run_kubo_Inr split: if_splits)
  from root_checks_Inr [OF r(2,3)] obtain l v where l: "mc_log s3 = mc_log s1 @ l" "pinned_node py l ?ipfs ?repo root_cid ?node v" by blast
  from log obtain l0 where l0: "mc_log s1 = mc_log s @ l0" by blast
  have "pinned_node py (l0 @ l) ?ipfs ?repo root_cid ?node v"
    using l(2) unfolding pinned_node_def by (metis answered_append(2))
  then show ?thesis using that [OF r(1,4,5), of "l0 @ l" v] l(1) l0 r(6) by simp
qed

lemma import_batch_Inr:
  assumes "import_batch py prog args s = (Inr result, s')"
  obtains rows cids s1 s2 where "check_import_args args (mc_fs s) = Inr ()" "import_rows py args (mc_fs s) = Inr (rows, cids)"
    "check_import_car py args (mc_fs s) = Inr ()" "\<exists>l. mc_log s1 = mc_log s @ l"
    "import_pinned py prog args rows cids s1 = (Inr result, s2)"
    "on_disk (save_import_receipt py (im_receipt args) result) s2 = (Inr (), s')"
proof -
  from assms obtain rows cids s1 s2 where r: "check_import_args args (mc_fs s) = Inr ()"
    "import_rows py args (mc_fs s) = Inr (rows, cids)" "check_import_car py args (mc_fs s) = Inr ()"
    "matched_repo py prog (path_str (im_ipfs_bin args)) (im_ipfs_path args) (im_repository args) s = (Inr (), s1)"
    "import_pinned py prog args rows cids s1 = (Inr result, s2)"
    "on_disk (save_import_receipt py (im_receipt args) result) s2 = (Inr (), s')"
    unfolding import_batch_def by (auto simp: abind_Inr ask_Inr split: prod.splits)
  have "keeps (after (mc_log s) (\<lambda>_. True)) (matched_repo py prog (path_str (im_ipfs_bin args)) (im_ipfs_path args) (im_repository args))"
    by (rule keeps_matched_repo) (simp add: prog_keeps_def)
  from keepsD [OF this _ r(4)] have "\<exists>l. mc_log s1 = mc_log s @ l" by (simp add: after_def)
  with r that show ?thesis by blast
qed

lemma import_temp_other [simp]: "import_temp p \<noteq> p"
proof -
  have "last (import_temp p) \<noteq> last p" by (simp add: import_temp_def)
  then show ?thesis by metis
qed

lemma save_import_receipt_Inr:
  assumes "on_disk (save_import_receipt py receipt v) s = (Inr (), s')"
  shows "mc_log s' = mc_log s \<and> (\<forall>p. receipt = Some p \<longrightarrow> read_bytes (mc_fs s') p = Inr (json_text py v))"
proof -
  from assms obtain fs where fs: "save_import_receipt py receipt v (mc_fs s) = (Inr (), fs)" "s' = s\<lparr>mc_fs := fs\<rparr>"
    by (auto simp: on_disk_Inr)
  have "map_of fs p = Some (File (json_text py v))" if "receipt = Some p" for p
    using fs(1) that import_temp_other [of p] by (auto simp: save_import_receipt_def abind_Inr receipt_steps_def split: if_splits)
  then show ?thesis using fs(2) by simp
qed

section \<open>Properties\<close>

text \<open>C20: an import that returns has pinned its rows. The inventory file is the declared one, the result is
  for its rows from the start row on, at least one and at most the bound, and during the run the daemon
  said that the reported root is recursively pinned and showed a node that links the CID of every such row.\<close>

theorem imported_rows_are_pinned:
  assumes "import_batch py prog args s = (Inr result, s')"
  shows "\<exists>content all_rows root_cid v l out.
    read_bytes (mc_fs s) (im_inventory args) = Inr content \<and> hex (sha256 py content) = im_sha256 args \<and>
    list_all2 (line_row py) (file_lines content) all_rows \<and> int (length all_rows) = im_count args \<and>
    wanted_rows args all_rows \<noteq> [] \<and>
    result = import_result args (length (wanted_rows args all_rows)) (\<Sum>r\<leftarrow>wanted_rows args all_rows. snd r) root_cid \<and>
    mc_log s' = mc_log s @ l \<and>
    answered l (Some (im_repository args)) [path_str (im_ipfs_bin args), ''pin'', ''ls'', ''--type=recursive'', root_cid] out \<and>
    strip (text_of out) = root_cid @ '' recursive'' \<and>
    (\<exists>out. answered l (Some (im_repository args)) [path_str (im_ipfs_bin args), ''dag'', ''get'', root_cid] out \<and>
       json_loads py out = Inr v) \<and>
    (\<forall>r \<in> set (wanted_rows args all_rows). links_to v (fst r))"
proof -
  from assms obtain rows cids s1 s2 where b: "check_import_args args (mc_fs s) = Inr ()"
    "import_rows py args (mc_fs s) = Inr (rows, cids)" "\<exists>l. mc_log s1 = mc_log s @ l"
    "import_pinned py prog args rows cids s1 = (Inr result, s2)"
    "on_disk (save_import_receipt py (im_receipt args) result) s2 = (Inr (), s')" by (rule import_batch_Inr)
  from b(2,1) obtain content ivt all_rows where i: "read_bytes (mc_fs s) (im_inventory args) = Inr content"
    "represents py content all_rows ivt" "inv_sha256 ivt = im_sha256 args" "rows = map row_json (wanted_rows args all_rows)"
    "cids = map fst (wanted_rows args all_rows)" "wanted_rows args all_rows \<noteq> []" "0 \<le> im_start_row args"
    "int (length all_rows) = im_count args" by (rule import_rows_Inr)
  from b(4) obtain root_cid v n_bytes l where p: "sum_sizes rows = Inr n_bytes"
    "result = import_result args (length cids) n_bytes root_cid" "mc_log s2 = mc_log s1 @ l"
    "pinned_node py l (path_str (im_ipfs_bin args)) (im_repository args) root_cid
      (batch_node (im_sha256 args) (im_start_row args) (im_start_row args + int (length cids)) cids) v"
    by (rule import_pinned_Inr)
  from b(3) obtain l0 where l0: "mc_log s1 = mc_log s @ l0" by blast
  have log: "mc_log s' = mc_log s @ (l0 @ l)" using save_import_receipt_Inr [OF b(5)] p(3) l0 by simp
  from p(4) have n: "pinned_node py (l0 @ l) (path_str (im_ipfs_bin args)) (im_repository args) root_cid
      (batch_node (im_sha256 args) (im_start_row args) (im_start_row args + int (length cids)) cids) v"
    unfolding pinned_node_def by (metis answered_append(2))
  from n obtain start where "json_eq v (batch_node (im_sha256 args) (int start) (int (start + length cids)) cids)"
    using i(7) unfolding pinned_node_def by (metis nat_0_le of_nat_add)
  then have "root_lists v (im_sha256 args) start (start + length cids) (map row_json (wanted_rows args all_rows))"
    unfolding i(5) by (rule batch_node_accepted)
  then have links: "\<forall>r \<in> set (wanted_rows args all_rows). links_to v (fst r)" using root_lists_links by blast
  have total: "n_bytes = (\<Sum>r\<leftarrow>wanted_rows args all_rows. snd r)" using p(1) unfolding i(4) sum_sizes_rows by simp
  have content: "hex (sha256 py content) = im_sha256 args" "list_all2 (line_row py) (file_lines content) all_rows"
    using i(2,3) by (simp_all add: represents_def)
  from n obtain out where out: "answered (l0 @ l) (Some (im_repository args)) [path_str (im_ipfs_bin args), ''pin'', ''ls'', ''--type=recursive'', root_cid] out"
    "strip (text_of out) = root_cid @ '' recursive''"
    and node: "\<exists>out. answered (l0 @ l) (Some (im_repository args)) [path_str (im_ipfs_bin args), ''dag'', ''get'', root_cid] out \<and> json_loads py out = Inr v"
    unfolding pinned_node_def by blast
  show ?thesis
    using i(1,6,8) content p(2) [unfolded total] log out node links unfolding i(5) length_map by blast
qed

text \<open>The receipt of an import is accepted by the programs that rely on it. When it is written under the
  name of its rows, the reader's receipt index takes it as covering exactly the imported rows, and the
  audit as evidence for them under the reported root. (JSON text parses back to the value it was written
  for, and the root has the length the reader asks of a CID.)\<close>

theorem import_receipt_accepted:
  assumes "import_batch py prog args s = (Inr result, s')" and "im_receipt args = Some p"
    and "read_bytes (mc_fs s) (im_inventory args) = Inr content"
    and "load_inventory py content (im_identity args) (im_sha256 args) (im_count args) = Inr ivt"
    and "last p = ''row-'' @ dec_text (nat (im_start_row args)) @ ''-'' @
      dec_text (nat (im_start_row args) + length (wanted_rows args (inv_sizes ivt)) - 1) @ ''-import.json''"
    and "json_loads py (json_text py result) = Inr result" and "result = JDict kvs" and "is_root (field kvs ''root'')"
    and "rs_inventory scope = ivt" and "rs_repository scope = im_repository args"
    and "as_inventory sc = ivt" and "as_now sc = (im_identity args, content)" and "as_repository sc = im_repository args"
  shows "let start = nat (im_start_row args); rows = wanted_rows args (inv_sizes ivt); f = (last p, read_bytes (mc_fs s') p) in
    car_range py scope f = Inr (start, start + length rows) \<and>
    (\<exists>root_cid. field kvs ''root'' = JStr root_cid \<and>
       range_receipt Car py sc f = Inr (start, start + length rows, root_cid, map row_json rows))"
proof -
  from assms(1) obtain rows cids s1 s2 where b: "check_import_args args (mc_fs s) = Inr ()"
    "import_rows py args (mc_fs s) = Inr (rows, cids)"
    "import_pinned py prog args rows cids s1 = (Inr result, s2)"
    "on_disk (save_import_receipt py (im_receipt args) result) s2 = (Inr (), s')" by (rule import_batch_Inr)
  from b(2,1) obtain content' ivt' all_rows where i': "read_bytes (mc_fs s) (im_inventory args) = Inr content'"
    "load_inventory py content' (im_identity args) (im_sha256 args) (im_count args) = Inr ivt'"
    "represents py content' all_rows ivt'" "inv_identity ivt' = im_identity args" "inv_sha256 ivt' = im_sha256 args"
    "rows = map row_json (wanted_rows args all_rows)"
    "cids = map fst (wanted_rows args all_rows)" "wanted_rows args all_rows \<noteq> []" "0 \<le> im_start_row args"
    "length (wanted_rows args all_rows) \<le> 1000" by (rule import_rows_Inr)
  have same: "content' = content" "ivt' = ivt" using i'(1,2) assms(3,4) by auto
  note i = i' [unfolded same]
  have sizes: "inv_sizes ivt = all_rows" "length (inv_offsets ivt) = length all_rows" using i(3) by (simp_all add: represents_def)
  define k where "k = nat (im_start_row args)"
  define d where "d = length (wanted_rows args all_rows)"
  have k: "im_start_row args = int k" "1 \<le> d" "d \<le> 1000" using i(8,9,10) by (simp_all add: k_def d_def Suc_le_eq)
  have "d = min (nat (im_max_blocks args)) (length all_rows - k)" by (simp add: d_def wanted_rows_def k_def)
  then have le: "d \<le> length all_rows - k" "wanted_rows args all_rows = take d (drop k all_rows)"
    by (auto simp: wanted_rows_def k_def [symmetric] min_def)
  then have fits: "k + d \<le> length all_rows" "wanted_rows args all_rows = take d (drop k all_rows)" "k < length all_rows"
    using k(2) by linarith+
  from b(3) obtain root_cid n_bytes where p: "match_cid root_cid" "sum_sizes rows = Inr n_bytes"
    "result = import_result args (length cids) n_bytes root_cid" by (rule import_pinned_Inr)
  have kvs: "kvs = [(''status'', JStr ''complete''), (''inventory_sha256'', JStr (im_sha256 args)),
       (''start_row'', JInt (int k)), (''end_row'', JInt (int k + int d)), (''blocks'', JInt (int d)),
       (''bytes'', JInt n_bytes), (''car_sha256'', JStr (im_car_sha256 args)), (''root'', JStr root_cid),
       (''repository'', JStr (im_repository args))]"
    using assms(7) p(3) k(1) i(7) by (simp add: import_result_def d_def)
  have sha: "match_sha256 (im_car_sha256 args)" using b(1) by (auto simp: check_import_args_def split: if_splits)
  have disk: "rbind (read_bytes (mc_fs s') p) (json_loads py) = Inr (JDict kvs)"
    using save_import_receipt_Inr [OF b(4)] assms(2,6,7) by simp
  have name: "parse_range_name ''row-'' ''-import.json'' (last p) = Some (k, k + d - 1)" "k + d - 1 + 1 = k + d"
    unfolding assms(5) sizes d_def [symmetric] k_def [symmetric] using k(2)
      parse_range_name_dec [of "''-import.json''" "''row-''" k "k + d - 1"] by (simp_all add: is_digit_def)
  have loaded: "load_record py e1 e2 (read_bytes (mc_fs s') p) = Inr kvs" for e1 e2 using disk by (simp add: load_record_Inr)
  have car: "car_range py scope (last p, read_bytes (mc_fs s') p) = Inr (k, k + d)"
    using name loaded sha k(2) fits(1) assms(8,9,10) sizes i(5)
    by (simp add: car_range_def car_record_ok_def kvs eq_str_def)
  have got: "inventory_rows py ivt (im_identity args, content) (int k) (int d) = Inr (map row_json (wanted_rows args all_rows), k + d)"
    using inventory_rows_Inr [OF i(3) fits(3), of "int d"] k(2,3) fits(1,2) i(4) by simp
  obtain m where m: "k + d - 1 = m" "Suc m = k + d" "Suc m - k = d" "int (Suc m - k) = int d" using k(2) by auto
  have sizes_sum: "sum_sizes (map row_json (wanted_rows args all_rows)) = Inr n_bytes" using p(2) i(6) by simp
  have audit: "range_receipt Car py sc (last p, read_bytes (mc_fs s') p) =
      Inr (k, k + d, root_cid, map row_json (wanted_rows args all_rows))"
    using name(1) [unfolded m(1)] disk sha k(2,3) fits(1) assms(11,12,13) sizes i(5) got [folded m(4) m(2)] p(1) sizes_sum m(2,3)
      d_def [symmetric]
    by (simp add: range_receipt_def kvs eq_str_def is_cid_def Let_def del: of_nat_diff)
  show ?thesis
    unfolding Let_def sizes d_def [symmetric] k_def [symmetric] using car audit by (simp add: kvs)
qed

text \<open>Imports one after the other. Before each of them anything else may have changed the files; each has its own
  arguments and finds programs of its own.\<close>

type_synonym 'w later_import = "(fs \<Rightarrow> fs) \<times> 'w program \<times> import_args"

fun import_runs :: "pylib \<Rightarrow> 'w later_import list \<Rightarrow> 'w machine \<Rightarrow> json res list \<times> 'w machine" where
  "import_runs py [] s = ([], s)"
| "import_runs py ((change, prog, args) # later) s =
     (case import_batch py prog args (s\<lparr>mc_fs := change (mc_fs s)\<rparr>) of (r, s1) \<Rightarrow>
      case import_runs py later s1 of (rs, s2) \<Rightarrow> (r # rs, s2))"

text \<open>Nobody but the importer of this receipt touches the temporary file.\<close>

definition temp_left_alone :: "path \<Rightarrow> 'w later_import \<Rightarrow> bool" where
  "temp_left_alone p = (\<lambda>(change, prog, args).
     im_receipt args = Some p \<and> prog_keeps (\<lambda>fs. map_of fs (import_temp p) \<noteq> None) prog \<and>
     (\<forall>fs. map_of fs (import_temp p) \<noteq> None \<longrightarrow> map_of (change fs) (import_temp p) \<noteq> None))"

lemma blocked_receipt:
  assumes "map_of fs (import_temp p) \<noteq> None"
  shows "\<not> is_ok (fst (save_import_receipt py (Some p) v fs)) \<and>
    map_of (snd (save_import_receipt py (Some p) v fs)) (import_temp p) \<noteq> None"
proof (cases "mkdirs (butlast p) fs")
  case (Inl e)
  then show ?thesis using assms by (auto simp: save_import_receipt_def abind_def amkdirs_def)
next
  case (Inr fs1)
  then have "map_of fs1 (import_temp p) = map_of fs (import_temp p)" using mkdirs_untouched [OF Inr assms] by simp
  then show ?thesis using assms Inr by (auto simp: save_import_receipt_def abind_def amkdirs_def)
qed

lemma blocked_import:
  assumes "im_receipt args = Some p" and "prog_keeps (\<lambda>fs. map_of fs (import_temp p) \<noteq> None) prog"
    and "map_of (mc_fs s) (import_temp p) \<noteq> None" and "import_batch py prog args s = (r, s')"
  shows "\<not> is_ok r \<and> map_of (mc_fs s') (import_temp p) \<noteq> None"
proof -
  let ?Q = "\<lambda>fs :: fs. map_of fs (import_temp p) \<noteq> None"
  have k1: "keeps (after (mc_log s) ?Q) (matched_repo py prog (path_str (im_ipfs_bin args)) (im_ipfs_path args) (im_repository args))"
    by (rule keeps_matched_repo) (rule assms(2))
  have k2: "keeps (after (mc_log s) ?Q) (import_pinned py prog args rows cids)" for rows cids
    unfolding import_pinned_def Let_def by (intro keeps_intros assms(2))
  have save: "keeps ?Q (save_import_receipt py (im_receipt args) v)" for v
    using blocked_receipt [of _ p py v] assms(1) by (simp add: keeps_def)
  have "keeps (after (mc_log s) ?Q) (import_batch py prog args)"
    unfolding import_batch_def by (intro keeps_intros k1 k2 keeps_on_disk save)
  from keepsD [OF this after_refl assms(4)] have here: "?Q (mc_fs s')" using assms(3) by (auto simp: after_def)
  moreover have "\<not> is_ok r"
  proof
    assume "is_ok r"
    then obtain result where run: "import_batch py prog args s = (Inr result, s')" using assms(4) by (auto simp: is_ok_iff)
    from run obtain rows cids s1 s2 fs1 where
      repo: "matched_repo py prog (path_str (im_ipfs_bin args)) (im_ipfs_path args) (im_repository args) s = (Inr (), s1)" and
      pinned: "import_pinned py prog args rows cids s1 = (Inr result, s2)" and
      saved: "save_import_receipt py (im_receipt args) result (mc_fs s2) = (Inr (), fs1)"
      unfolding import_batch_def by (auto simp: abind_Inr ask_Inr on_disk_Inr split: prod.splits)
    have "after (mc_log s) ?Q s" using assms(3) by (intro after_refl) simp
    from keepsD [OF k2 keepsD [OF k1 this repo] pinned] have "?Q (mc_fs s2)" by (simp add: after_def)
    from blocked_receipt [OF this, of py result] saved assms(1) show False by simp
  qed
  ultimately show ?thesis by simp
qed

lemma blocked_imports:
  "map_of (mc_fs s) (import_temp p) \<noteq> None \<Longrightarrow> \<forall>run \<in> set later. temp_left_alone p run \<Longrightarrow>
    import_runs py later s = (rs, s') \<Longrightarrow>
    length rs = length later \<and> (\<forall>r \<in> set rs. \<not> is_ok r) \<and> map_of (mc_fs s') (import_temp p) \<noteq> None"
proof (induction later arbitrary: s rs s')
  case (Cons run later)
  obtain change prog args where run: "run = (change, prog, args)" by (metis prod_cases3)
  obtain r s1 where one: "import_batch py prog args (s\<lparr>mc_fs := change (mc_fs s)\<rparr>) = (r, s1)" by (metis surj_pair)
  obtain rs' s2 where more: "import_runs py later s1 = (rs', s2)" by (metis surj_pair)
  from Cons.prems(2) have alone: "temp_left_alone p run" "\<forall>run \<in> set later. temp_left_alone p run" by simp_all
  have "map_of (mc_fs (s\<lparr>mc_fs := change (mc_fs s)\<rparr>)) (import_temp p) \<noteq> None"
    using alone(1) Cons.prems(1) by (simp add: temp_left_alone_def run)
  from blocked_import [OF _ _ this one] alone(1) have r: "\<not> is_ok r" "map_of (mc_fs s1) (import_temp p) \<noteq> None"
    by (simp_all add: temp_left_alone_def run)
  have "rs = r # rs'" "s' = s2" using Cons.prems(3) one more run by auto
  with Cons.IH [OF r(2) alone(2) more] r(1) show ?case by simp
qed simp

text \<open>C30: a crash at the wrong moment stops all later imports of the same range. The receipt is written under a
  name that is always the same and created exclusively; a power failure before it is renamed can leave it
  behind. From then on every import with this receipt fails, after all its work, in whatever number, with
  whatever arguments and programs, and whatever else happens to the files in between; and none of them removes
  the file, so only somebody who deletes it by hand ends this.\<close>

theorem crashed_import_never_completes:
  assumes "\<forall>run \<in> set later. temp_left_alone p run"
  shows "\<exists>fs'. crash_state (receipt_steps py p v) fs fs' \<and> map_of fs' (import_temp p) = Some (File (json_text py v)) \<and>
    (\<forall>s rs s'. mc_fs s = fs' \<and> import_runs py later s = (rs, s') \<longrightarrow>
       length rs = length later \<and> (\<forall>r \<in> set rs. \<not> is_ok r) \<and> map_of (mc_fs s') (import_temp p) \<noteq> None)"
proof -
  define fs' where "fs' = run_step (Create (import_temp p) (json_text py v)) fs"
  have crash: "crash_state (receipt_steps py p v) fs fs'"
    using crash_prefix [of "[Create (import_temp p) (json_text py v)]" "[Rename (import_temp p) p (json_text py v)]" fs]
    by (simp add: receipt_steps_def fs'_def)
  have there: "map_of fs' (import_temp p) = Some (File (json_text py v))" by (simp add: fs'_def)
  have "length rs = length later \<and> (\<forall>r \<in> set rs. \<not> is_ok r) \<and> map_of (mc_fs s') (import_temp p) \<noteq> None"
    if "mc_fs s = fs'" "import_runs py later s = (rs, s')" for s rs s'
    using blocked_imports [OF _ assms that(2)] that(1) there by simp
  with crash there show ?thesis by blast
qed

section \<open>A concrete import\<close>

text \<open>One row, and a daemon that answers as it should.\<close>

definition import_py :: pylib where
  "import_py = row_py\<lparr>json_loads := (\<lambda>line. case line of
      [] \<Rightarrow> Inl ValueError
    | b # _ \<Rightarrow>
        if b = 67 then Inr (JDict [(''Identity'', JDict [(''PeerID'', JStr ''P'')])])
        else if b = 78 then Inr (batch_node (hex (replicate 32 7)) 0 1 [sample_cid])
        else if b = 82 then Inr (JDict [(''status'', JStr ''complete''), (''inventory_sha256'', JStr (hex (replicate 32 7))),
          (''start_row'', JInt 0), (''end_row'', JInt 1), (''blocks'', JInt 1), (''bytes'', JInt 5),
          (''car_sha256'', JStr (hex (replicate 32 7))), (''root'', JStr sample_cid), (''repository'', JStr ''/repo'')])
        else json_loads row_py line), json_dumps := (\<lambda>_. [82])\<rparr>"

definition import_prog :: "unit program" where
  "import_prog repo argv data s =
     (let verb = argv ! 1 in
      Inr (0, if verb = ''id'' then ascii ''P'' else if verb = ''pin'' then ascii (sample_cid @ '' recursive'')
         else if argv ! 2 = ''put'' then ascii sample_cid else ascii ''N''), s)"

definition toy_import :: import_args where
  "toy_import = \<lparr>im_inventory = [''inv''], im_sha256 = hex (replicate 32 7), im_count = 1, im_start_row = 0,
     im_max_blocks = 10, im_car = [''car''], im_car_sha256 = hex (replicate 32 7), im_ipfs_bin = [''ipfs''],
     im_ipfs_path = [''repo''], im_min_free_bytes = 0, im_receipt = Some [''out'', ''row-0-0-import.json''],
     im_free = 1000, im_identity = \<lparr>st_ino = 1, st_size = 2, st_mtime_ns = 3\<rparr>, im_repository = ''/repo'',
     im_compact = (\<lambda>_. [])\<rparr>"

definition import_start :: "unit machine" where
  "import_start = \<lparr>mc_fs = [([''inv''], File [5, 10]), ([''car''], File [9]), ([''ipfs''], File [1]), ([''repo''], Dir),
     ([''repo'', ''config''], File [67]), ([''repo'', ''api''], File [1])], mc_world = (), mc_log = []\<rparr>"

definition toy_result :: "(string \<times> json) list" where
  "toy_result = [(''status'', JStr ''complete''), (''inventory_sha256'', JStr (hex (replicate 32 7))),
     (''start_row'', JInt 0), (''end_row'', JInt 1), (''blocks'', JInt 1), (''bytes'', JInt 5),
     (''car_sha256'', JStr (hex (replicate 32 7))), (''root'', JStr sample_cid), (''repository'', JStr ''/repo'')]"

definition toy_inventory :: inventory where
  "toy_inventory = \<lparr>inv_offsets = [0], inv_sizes = [(sample_cid, 5)], inv_positions = [(sample_cid, 0)],
     inv_sha256 = hex (replicate 32 7), inv_total_bytes = 5, inv_identity = im_identity toy_import\<rparr>"

lemma toy_import_runs: "fst (import_batch import_py import_prog toy_import import_start) = Inr (JDict toy_result)"
  by code_simp

lemma toy_import_run:
  "import_batch import_py import_prog toy_import import_start =
    (Inr (JDict toy_result), snd (import_batch import_py import_prog toy_import import_start))"
  using toy_import_runs by (metis prod.collapse)

lemma toy_import_loads:
  "read_bytes (mc_fs import_start) (im_inventory toy_import) = Inr [5, 10]"
  "load_inventory import_py [5, 10] (im_identity toy_import) (im_sha256 toy_import) (im_count toy_import) = Inr toy_inventory"
  "wanted_rows toy_import (inv_sizes toy_inventory) = [(sample_cid, 5)]"
  "json_loads import_py (json_text import_py (JDict toy_result)) = Inr (JDict toy_result)"
  "is_root (field toy_result ''root'')"
  by code_simp+

theorem imported_rows_are_pinned_witness:
  "\<exists>root_cid l out. answered l (Some ''/repo'') [''ipfs'', ''pin'', ''ls'', ''--type=recursive'', root_cid] out \<and>
     strip (text_of out) = root_cid @ '' recursive''"
proof -
  have "path_str (im_ipfs_bin toy_import) = ''ipfs''" "im_repository toy_import = ''/repo''"
    by (simp_all add: toy_import_def path_str_def)
  then show ?thesis using imported_rows_are_pinned [OF toy_import_run] by metis
qed

theorem import_receipt_accepted_witness:
  "car_range import_py \<lparr>rs_inventory = toy_inventory, rs_now = (im_identity toy_import, [5, 10]), rs_repository = ''/repo''\<rparr>
     (''row-0-0-import.json'', read_bytes (mc_fs (snd (import_batch import_py import_prog toy_import import_start)))
        [''out'', ''row-0-0-import.json'']) = Inr (0, 1)"
proof -
  have name: "last [''out'', ''row-0-0-import.json''] = ''row-'' @ dec_text (nat (im_start_row toy_import)) @ ''-'' @
      dec_text (nat (im_start_row toy_import) + length (wanted_rows toy_import (inv_sizes toy_inventory)) - 1) @ ''-import.json''"
    by code_simp
  have args: "im_receipt toy_import = Some [''out'', ''row-0-0-import.json'']" "im_repository toy_import = ''/repo''"
    "im_start_row toy_import = 0" by (simp_all add: toy_import_def)
  from import_receipt_accepted [OF toy_import_run args(1) toy_import_loads(1,2) name toy_import_loads(4) refl toy_import_loads(5),
      of "\<lparr>rs_inventory = toy_inventory, rs_now = (im_identity toy_import, [5, 10]), rs_repository = ''/repo''\<rparr>"
        "\<lparr>as_inventory = toy_inventory, as_now = (im_identity toy_import, [5, 10]), as_repository = ''/repo'',
           as_recursive = [], as_direct = []\<rparr>"]
  show ?thesis using args toy_import_loads(3) by (simp add: Let_def)
qed

theorem crashed_import_never_completes_witness:
  "\<exists>fs'. crash_state (receipt_steps import_py [''out'', ''row-0-0-import.json''] (JDict toy_result)) (mc_fs import_start) fs' \<and>
     (\<forall>s rs s'. mc_fs s = fs' \<and>
        import_runs import_py [((\<lambda>fs. fs), import_prog, toy_import), (write_node [''x''] Dir, import_prog, toy_import)] s = (rs, s') \<longrightarrow>
        length rs = 2 \<and> (\<forall>r \<in> set rs. \<not> is_ok r))"
proof -
  let ?later = "[((\<lambda>fs. fs), import_prog, toy_import), (write_node [''x''] Dir, import_prog, toy_import)]"
  have "im_receipt toy_import = Some [''out'', ''row-0-0-import.json'']" by (simp add: toy_import_def)
  moreover have "prog_keeps Q import_prog" for Q by (simp add: prog_keeps_def import_prog_def Let_def)
  ultimately have "\<forall>run \<in> set ?later. temp_left_alone [''out'', ''row-0-0-import.json''] run"
    by (simp add: temp_left_alone_def)
  from crashed_import_never_completes [OF this, of import_py "JDict toy_result" "mc_fs import_start"]
  show ?thesis by fastforce
qed

end
