(* ===== verification/Bitswap_Mirror.thy ===== *)
theory Bitswap_Mirror
  imports Car_Import
begin

text \<open>
  \<open>deploy/mirror_lake_bitswap.py\<close>: one range of the inventory is fetched over Bitswap from one public peer,
  pinned through a DAG node, and recorded in a checkpoint. Shown: however a run ends, the checkpoint only
  moves past rows whose node the daemon reported pinned during this run, and, unless an earlier run left
  their receipt, whose blocks this run fetched with their size and digest, in whatever order the pool ran.
\<close>

text \<open>The command line and what the process finds. \<open>mi_is_global\<close> is \<open>ipaddress.ip_address(text).is_global\<close>,
  \<open>mi_order\<close> the order in which the pool runs that many fetches, \<open>mi_uuid\<close> the random parts of names.\<close>

record mirror_args =
  mi_inventory :: path
  mi_sha256 :: string
  mi_count :: int
  mi_start_row :: int
  mi_end_row :: int
  mi_max_blocks :: int
  mi_max_bytes :: int
  mi_workers :: int
  mi_source_peer :: string
  mi_ipfs_bin :: path
  mi_ipfs_path :: path
  mi_state_dir :: path
  mi_min_free_bytes :: int
  mi_free :: int
  mi_repository :: string
  mi_compact :: "json \<Rightarrow> bytes"
  mi_is_global :: "string \<Rightarrow> bool res"
  mi_order :: "nat \<Rightarrow> nat list"
  mi_uuid :: "nat \<Rightarrow> string"
  mi_locked :: bool

section \<open>The source\<close>

text \<open>\<open>PUBLIC_PEER.fullmatch\<close>: the address and the peer identity.\<close>

definition match_public_peer :: "string \<Rightarrow> (string \<times> string) option" where
  "match_public_peer s =
     (let rest = drop 5 s;
          ip = takeWhile (\<lambda>c. is_digit c \<or> c = CHR ''.'') rest;
          body = dropWhile (\<lambda>c. is_digit c \<or> c = CHR ''.'') rest;
          peer = rev (takeWhile is_alnum (rev body));
          front = rev (dropWhile is_alnum (rev body)) in
      if take 5 s \<noteq> ''/ip4/'' \<or> ip = [] \<or> body = [] \<or> hd body \<noteq> CHR ''/'' \<or> peer = [] \<or>
        length front < 7 \<or> drop (length front - 5) front \<noteq> ''/p2p/'' \<or> newline \<in> set (take (length front - 6) (tl front))
      then None else Some (ip, peer))"

text \<open>The routes to the peer in a listing of the connections.\<close>

definition source_routes :: "string \<Rightarrow> string \<Rightarrow> string list" where
  "source_routes listing peer =
     filter (\<lambda>route. endswith route (''/p2p/'' @ peer))
       (map (\<lambda>line. hd (py_split line)) (filter (\<lambda>line. py_split line \<noteq> []) (splitlines listing)))"

text \<open>\<open>route.split("/")[2]\<close> of a route that starts with \<open>/ip4/\<close>.\<close>

definition route_ip :: "string \<Rightarrow> string" where
  "route_ip route = takeWhile (\<lambda>c. c \<noteq> CHR ''/'') (drop 5 route)"

text \<open>\<open>any(not is_global(...) for route in ...)\<close> stops at the first private route.\<close>

fun private_route :: "(string \<Rightarrow> bool res) \<Rightarrow> string list \<Rightarrow> bool res" where
  "private_route is_global [] = Inr False"
| "private_route is_global (r # rs) =
     (if startswith r ''/ip4/'' then rbind (is_global (route_ip r)) (\<lambda>g. if g then private_route is_global rs else Inr True)
      else private_route is_global rs)"

definition check_routes :: "(string \<Rightarrow> bool res) \<Rightarrow> string \<Rightarrow> string \<Rightarrow> string \<Rightarrow> string res" where
  "check_routes is_global ip peer listing =
     (let routes = source_routes listing peer in
      if \<not> list_ex (\<lambda>route. startswith route (''/ip4/'' @ ip @ ''/'')) routes
      then Inl (MirrorError ''source peer is not connected over its public IPv4 route'')
      else rbind (private_route is_global routes) (\<lambda>private.
        if private then Inl (MirrorError ''source peer also has a private route'') else Inr peer))"

definition checked_public_peer :: "'w program \<Rightarrow> mirror_args \<Rightarrow> ('w machine, string) action" where
  "checked_public_peer prog args =
     (case match_public_peer (mi_source_peer args) of
        None \<Rightarrow> araise (MirrorError ''source must be an explicit public IPv4 peer multiaddress'')
      | Some (ip, peer) \<Rightarrow>
          abind (alift (mi_is_global args ip)) (\<lambda>g.
          if \<not> g then araise (MirrorError ''source is not a public IPv4 address'')
          else
            abind (run_kubo prog (path_str (mi_ipfs_bin args)) (mi_repository args) [''swarm'', ''connect'', mi_source_peer args] []) (\<lambda>_.
            abind (run_kubo prog (path_str (mi_ipfs_bin args)) (mi_repository args) [''swarm'', ''peers'', ''-v''] []) (\<lambda>listing.
            alift (check_routes (mi_is_global args) ip peer listing)))))"

section \<open>Fetching\<close>

definition block_get :: "mirror_args \<Rightarrow> string \<Rightarrow> string list" where
  "block_get args cid = [path_str (mi_ipfs_bin args), ''block'', ''get'', cid]"

definition get_block :: "pylib \<Rightarrow> 'w program \<Rightarrow> mirror_args \<Rightarrow> string \<times> int \<Rightarrow> ('w machine, int) action" where
  "get_block py prog args row =
     (let cid = fst row; failed = MirrorError (''IPFS block fetch failed: '' @ cid) in
      abind (run_program failed failed prog (Some (mi_repository args)) (block_get args cid) []) (\<lambda>data.
      abind (alift (cid_bytes cid)) (\<lambda>(_, expected).
      if int (length data) \<noteq> snd row \<or> sha256 py data \<noteq> expected
      then araise (MirrorError (''IPFS block differs from dated inventory: '' @ cid))
      else areturn (snd row))))"

text \<open>The pool runs every fetch, whichever fail; the results are looked at in the order of the rows.\<close>

fun run_pool :: "(nat \<Rightarrow> ('s, 'a) action) \<Rightarrow> nat list \<Rightarrow> 's \<Rightarrow> (nat \<times> 'a res) list \<times> 's" where
  "run_pool task [] s = ([], s)"
| "run_pool task (i # is) s =
     (case task i s of (r, s1) \<Rightarrow> case run_pool task is s1 of (rs, s2) \<Rightarrow> ((i, r) # rs, s2))"

fun first_error :: "(nat \<times> 'a res) list \<Rightarrow> nat list \<Rightarrow> unit res" where
  "first_error results [] = Inr ()"
| "first_error results (i # is) =
     (case map_of results i of Some (Inr _) \<Rightarrow> first_error results is | Some (Inl e) \<Rightarrow> Inl e | None \<Rightarrow> Inl TimeoutExpired)"

definition fetch_all :: "pylib \<Rightarrow> 'w program \<Rightarrow> mirror_args \<Rightarrow> (string \<times> int) list \<Rightarrow> ('w machine, unit) action" where
  "fetch_all py prog args rows s =
     (case run_pool (\<lambda>i. get_block py prog args (rows ! i)) (mi_order args (length rows)) s of
        (results, s') \<Rightarrow> (first_error results [0..<length rows], s'))"

section \<open>Pinning\<close>

definition pinned_root :: "pylib \<Rightarrow> 'w program \<Rightarrow> mirror_args \<Rightarrow> json \<Rightarrow> ('w machine, string) action" where
  "pinned_root py prog args node =
     (let ipfs = path_str (mi_ipfs_bin args); repo = mi_repository args in
      abind (run_kubo prog ipfs repo [''dag'', ''put'', ''--pin''] (mi_compact args node)) (\<lambda>out.
      abind (pin_ls_recursive prog ipfs repo (strip out)) (\<lambda>pinned.
      if \<not> pinned then araise (MirrorError ''batch root is not recursively pinned'')
      else abind (check_dag_node py prog ipfs repo (strip out) node) (\<lambda>_. areturn (strip out)))))"

section \<open>One run\<close>

definition mirror_checkpoint :: "mirror_args \<Rightarrow> path" where
  "mirror_checkpoint args = mi_state_dir args @ [''checkpoint.json'']"

definition native_receipt :: "mirror_args \<Rightarrow> nat \<Rightarrow> nat \<Rightarrow> path" where
  "native_receipt args cursor stop =
     mi_state_dir args @ [''row-'' @ dec_text cursor @ ''-'' @ dec_text (stop - 1) @ ''-native.json'']"

text \<open>\<open>atomic_json\<close> of this script makes the directory first.\<close>

definition save_json :: "pylib \<Rightarrow> path \<Rightarrow> string \<Rightarrow> json \<Rightarrow> (fs, unit) action" where
  "save_json py p tag v = abind (amkdirs (butlast p)) (\<lambda>_. atomic_json py p tag v)"

definition check_mirror_args :: "mirror_args \<Rightarrow> fs \<Rightarrow> unit res" where
  "check_mirror_args args fs =
     (if \<not> match_sha256 (mi_sha256 args) \<or> mi_count args < 1 \<or>
        \<not> (0 \<le> mi_start_row args \<and> mi_start_row args < mi_end_row args \<and> mi_end_row args \<le> mi_count args) \<or>
        \<not> (1 \<le> mi_max_blocks args \<and> mi_max_blocks args \<le> 1000) \<or>
        \<not> (1 \<le> mi_max_bytes args \<and> mi_max_bytes args \<le> 536870912) \<or>
        \<not> (1 \<le> mi_workers args \<and> mi_workers args \<le> 16) \<or> mi_min_free_bytes args < 0
      then Inl (MirrorError ''invalid inventory range or resource bounds'')
      else if \<not> is_file fs (mi_ipfs_bin args) \<or> \<not> is_dir fs (mi_ipfs_path args)
      then Inl (MirrorError ''Kubo binary or repository is absent'')
      else Inr ())"

definition mirror_cursor :: "pylib \<Rightarrow> mirror_args \<Rightarrow> fs \<Rightarrow> nat res" where
  "mirror_cursor py args fs =
     (let differs = MirrorError ''native mirror checkpoint identity differs''; p = mirror_checkpoint args in
      if \<not> exists_path fs p then Inr (nat (mi_start_row args))
      else
        rbind (rbind (read_bytes fs p) (json_loads py)) (\<lambda>state.
        rbind (jget state ''cursor'') (\<lambda>cursor.
        rbind (jget state ''inventory_sha256'') (\<lambda>sha.
        case as_int cursor of
          None \<Rightarrow> Inl differs
        | Some n \<Rightarrow>
            if \<not> eq_str sha (mi_sha256 args) \<or> \<not> (mi_start_row args \<le> n \<and> n \<le> mi_end_row args)
            then Inl differs else Inr (nat n)))))"

definition mirror_rows :: "pylib \<Rightarrow> mirror_args \<Rightarrow> nat \<Rightarrow> fs \<Rightarrow> (string \<times> int) list res" where
  "mirror_rows py args cursor fs =
     rbind (read_bytes fs (mi_inventory args)) (\<lambda>content.
     export_selected_rows py content (mi_sha256 args) (nat (mi_count args)) cursor
       (nat (min (mi_max_blocks args) (mi_end_row args - int cursor))) (mi_max_bytes args))"

definition mirror_node :: "mirror_args \<Rightarrow> nat \<Rightarrow> (string \<times> int) list \<Rightarrow> json" where
  "mirror_node args cursor rows = batch_node (mi_sha256 args) (int cursor) (int (cursor + length rows)) (map fst rows)"

text \<open>A receipt an earlier run left for the same rows: its root.\<close>

definition saved_receipt ::
    "pylib \<Rightarrow> mirror_args \<Rightarrow> nat \<Rightarrow> (string \<times> int) list \<Rightarrow> string \<Rightarrow> path \<Rightarrow> fs \<Rightarrow> string res" where
  "saved_receipt py args cursor rows peer p fs =
     rbind (rbind (read_bytes fs p) (json_loads py)) (\<lambda>saved.
     rbind (jget saved ''root'') (\<lambda>root_cid.
     case saved of JDict kvs \<Rightarrow>
       if \<not> eq_str (field kvs ''status'') ''complete'' \<or> \<not> eq_int (field kvs ''start_row'') (int cursor) \<or>
         \<not> eq_int (field kvs ''end_row'') (int (cursor + length rows)) \<or>
         \<not> eq_str (field kvs ''inventory_sha256'') (mi_sha256 args) \<or> \<not> eq_str (field kvs ''source_peer'') peer \<or>
         \<not> eq_int (field kvs ''blocks'') (int (length rows)) \<or> \<not> eq_int (field kvs ''bytes'') (\<Sum>r\<leftarrow>rows. snd r)
       then Inl (MirrorError ''native mirror receipt differs from inventory'')
       else (case as_str root_cid of
           None \<Rightarrow> Inl (MirrorError ''native mirror receipt has no root'')
         | Some t \<Rightarrow> if t = [] then Inl (MirrorError ''native mirror receipt has no root'') else Inr t)
     | _ \<Rightarrow> Inl AttributeError))"

definition mirror_record :: "mirror_args \<Rightarrow> nat \<Rightarrow> (string \<times> int) list \<Rightarrow> string \<Rightarrow> string \<Rightarrow> json" where
  "mirror_record args cursor rows root_cid peer =
     JDict [(''status'', JStr ''complete''), (''inventory_sha256'', JStr (mi_sha256 args)), (''start_row'', JInt (int cursor)),
       (''end_row'', JInt (int (cursor + length rows))), (''blocks'', JInt (int (length rows))),
       (''bytes'', JInt (\<Sum>r\<leftarrow>rows. snd r)), (''root'', JStr root_cid), (''source_peer'', JStr peer),
       (''repository'', JStr (mi_repository args))]"

definition mirror_again ::
    "pylib \<Rightarrow> 'w program \<Rightarrow> mirror_args \<Rightarrow> nat \<Rightarrow> (string \<times> int) list \<Rightarrow> string \<Rightarrow> json \<Rightarrow> ('w machine, string) action" where
  "mirror_again py prog args cursor rows peer node =
     (let ipfs = path_str (mi_ipfs_bin args); repo = mi_repository args in
      abind (ask (saved_receipt py args cursor rows peer (native_receipt args cursor (cursor + length rows)))) (\<lambda>root_cid.
      abind (pin_ls_recursive prog ipfs repo root_cid) (\<lambda>pinned.
      if \<not> pinned then araise (MirrorError ''native mirror receipt root is no longer pinned'')
      else abind (check_dag_node py prog ipfs repo root_cid node) (\<lambda>_. areturn root_cid))))"

definition mirror_fresh ::
    "pylib \<Rightarrow> 'w program \<Rightarrow> mirror_args \<Rightarrow> nat \<Rightarrow> (string \<times> int) list \<Rightarrow> string \<Rightarrow> json \<Rightarrow> ('w machine, string) action" where
  "mirror_fresh py prog args cursor rows peer node =
     (if mi_free args < (\<Sum>r\<leftarrow>rows. snd r) * 2 + mi_min_free_bytes args
      then araise (MirrorError ''physical disk reserve would be crossed'')
      else
        abind (fetch_all py prog args rows) (\<lambda>_.
        abind (pinned_root py prog args node) (\<lambda>root_cid.
        abind (on_disk (save_json py (native_receipt args cursor (cursor + length rows)) (mi_uuid args 0)
          (mirror_record args cursor rows root_cid peer))) (\<lambda>_.
        areturn root_cid))))"

text \<open>The rows at the cursor are pinned: the root, or an exception.\<close>

definition mirror_range ::
    "pylib \<Rightarrow> 'w program \<Rightarrow> mirror_args \<Rightarrow> nat \<Rightarrow> (string \<times> int) list \<Rightarrow> ('w machine, string) action" where
  "mirror_range py prog args cursor rows =
     (let node = mirror_node args cursor rows in
      abind (matched_repo py prog (path_str (mi_ipfs_bin args)) (mi_ipfs_path args) (mi_repository args)) (\<lambda>_.
      abind (checked_public_peer prog args) (\<lambda>peer.
      abind (ask (\<lambda>fs. Inr (exists_path fs (native_receipt args cursor (cursor + length rows))))) (\<lambda>again.
      if again then mirror_again py prog args cursor rows peer node
      else mirror_fresh py prog args cursor rows peer node))))"

definition cursor_record :: "mirror_args \<Rightarrow> nat \<Rightarrow> string \<Rightarrow> json" where
  "cursor_record args stop root_cid =
     JDict [(''cursor'', JInt (int stop)), (''inventory_sha256'', JStr (mi_sha256 args)), (''last_root'', JStr root_cid)]"

definition mirror_locked :: "pylib \<Rightarrow> 'w program \<Rightarrow> mirror_args \<Rightarrow> ('w machine, json) action" where
  "mirror_locked py prog args =
     abind (ask (mirror_cursor py args)) (\<lambda>cursor.
     if int cursor = mi_end_row args
     then areturn (JDict [(''status'', JStr ''complete''), (''cursor'', JInt (int cursor))])
     else
       abind (ask (mirror_rows py args cursor)) (\<lambda>rows.
       abind (mirror_range py prog args cursor rows) (\<lambda>root_cid.
       abind (on_disk (save_json py (mirror_checkpoint args) (mi_uuid args 1)
           (cursor_record args (cursor + length rows) root_cid))) (\<lambda>_.
       areturn (JDict [(''status'', JStr ''mirrored''), (''start_row'', JInt (int cursor)),
         (''end_row'', JInt (int (cursor + length rows))), (''blocks'', JInt (int (length rows))), (''root'', JStr root_cid)])))))"

definition mirror_once :: "pylib \<Rightarrow> 'w program \<Rightarrow> mirror_args \<Rightarrow> ('w machine, json) action" where
  "mirror_once py prog args =
     abind (ask (check_mirror_args args)) (\<lambda>_.
     abind (on_disk (amkdirs (mi_state_dir args))) (\<lambda>_.
     abind (on_disk (take_lock (mi_state_dir args @ [''mirror.lock'']) (mi_locked args)
       (MirrorError ''native mirror already running''))) (\<lambda>_.
     mirror_locked py prog args)))"

text \<open>The exit status; an exception that is not caught ends the interpreter with status 1.\<close>

fun mirror_refused :: "exn \<Rightarrow> bool" where
  "mirror_refused (MirrorError _) = True"
| "mirror_refused (ExportError _) = True"
| "mirror_refused (ImportError _) = True"
| "mirror_refused OSError = True"
| "mirror_refused ValueError = True"
| "mirror_refused KeyError = True"
| "mirror_refused IndexError = True"
| "mirror_refused _ = False"

definition mirror_main :: "pylib \<Rightarrow> 'w program \<Rightarrow> mirror_args \<Rightarrow> ('w machine, int) action" where
  "mirror_main py prog args s =
     (case mirror_once py prog args s of
        (Inl e, s') \<Rightarrow> (Inr (if mirror_refused e then 2 else 1), s') | (Inr _, s') \<Rightarrow> (Inr 0, s'))"

section \<open>What a run leaves alone\<close>

lemma keeps_run_pool:
  assumes "\<And>i. keeps P (task i)" and "P s" and "run_pool task is s = (rs, s')"
  shows "P s'"
  using assms(2,3)
proof (induction "is" arbitrary: s rs)
  case (Cons i "is")
  obtain r s1 where one: "task i s = (r, s1)" by (metis surj_pair)
  with assms(1) Cons.prems(1) have "P s1" by (metis keepsD)
  with Cons one show ?case by (auto split: prod.splits)
qed simp

lemma keeps_fetch_all [keeps_intros]:
  fixes prog :: "'w program"
  assumes "prog_keeps Q prog"
  shows "keeps (after log Q) (fetch_all py prog args rows)"
proof -
  have one: "keeps (after log Q) (get_block py prog args row)" for row
    unfolding get_block_def Let_def by (intro keeps_intros assms)
  show ?thesis
    unfolding keeps_def
  proof (intro allI impI)
    fix s :: "'w machine"
    assume s: "after log Q s"
    obtain rs s' where pool: "run_pool (\<lambda>i. get_block py prog args (rows ! i)) (mi_order args (length rows)) s = (rs, s')"
      by (metis surj_pair)
    have "after log Q s'" by (rule keeps_run_pool [OF one s pool])
    then show "after log Q (snd (fetch_all py prog args rows s))" by (simp add: fetch_all_def pool)
  qed
qed

lemma checkpoint_apart:
  "mirror_checkpoint args \<notin> set (ancestors (mi_state_dir args))" "butlast (native_receipt args cursor stop) = mi_state_dir args"
  "butlast (mirror_checkpoint args) = mi_state_dir args"
  "mirror_checkpoint args \<noteq> native_receipt args cursor stop"
  "mirror_checkpoint args \<noteq> partial_name (native_receipt args cursor stop) tag"
  "mirror_checkpoint args \<noteq> mi_state_dir args @ [''mirror.lock'']"
  "partial_name (mirror_checkpoint args) tag \<noteq> mirror_checkpoint args"
  using ancestors_length [of "mirror_checkpoint args" "mi_state_dir args"]
  by (auto simp: mirror_checkpoint_def native_receipt_def partial_name_def)

lemma native_apart:
  "native_receipt args cursor stop \<notin> set (ancestors (mi_state_dir args))"
  "native_receipt args cursor stop \<noteq> mi_state_dir args @ [''mirror.lock'']"
  using ancestors_length [of "native_receipt args cursor stop" "mi_state_dir args"] by (auto simp: native_receipt_def)

lemma keeps_mirror_range:
  assumes "prog_keeps (\<lambda>fs. map_of fs (mirror_checkpoint args) = c) prog"
  shows "keeps (after log (\<lambda>fs. map_of fs (mirror_checkpoint args) = c)) (mirror_range py prog args cursor rows)"
proof -
  have save: "keeps (\<lambda>fs. map_of fs (mirror_checkpoint args) = c) (save_json py (native_receipt args cursor stop) tag v)" for stop tag v
    unfolding save_json_def
    by (intro keeps_intros keeps_amkdirs keeps_atomic_json) (simp_all add: checkpoint_apart)
  show ?thesis
    unfolding mirror_range_def mirror_again_def mirror_fresh_def checked_public_peer_def pinned_root_def Let_def
    by (intro keeps_intros keeps_on_disk save assms)
qed

section \<open>What a run has seen\<close>

definition fetched :: "pylib \<Rightarrow> mirror_args \<Rightarrow> program_run list \<Rightarrow> string \<times> int \<Rightarrow> bool" where
  "fetched py args log row \<longleftrightarrow>
     (\<exists>data b. answered log (Some (mi_repository args)) (block_get args (fst row)) data \<and> int (length data) = snd row \<and>
        cid_bytes (fst row) = Inr (b, sha256 py data))"

lemma fetched_append [simp]: "fetched py args log row \<Longrightarrow> fetched py args (log @ l) row"
  "fetched py args l row \<Longrightarrow> fetched py args (log @ l) row"
  unfolding fetched_def by (meson answered_append)+

lemma get_block_Inr:
  assumes "get_block py prog args row s = (Inr n, s')"
  shows "\<exists>l. mc_log s' = mc_log s @ l \<and> fetched py args l row"
proof -
  from assms obtain data b where "mc_log s' = mc_log s @ [(Some (mi_repository args), block_get args (fst row), [], Inr (0, data))]"
    "int (length data) = snd row" "cid_bytes (fst row) = Inr (b, sha256 py data)"
    unfolding get_block_def Let_def by (auto simp: abind_Inr run_program_Inr split: if_splits)
  then show ?thesis unfolding fetched_def using answered_one by blast
qed

lemma get_block_log: "get_block py prog args row s = (r, s') \<Longrightarrow> \<exists>l. mc_log s' = mc_log s @ l"
proof -
  have "keeps (after (mc_log s) (\<lambda>_. True)) (get_block py prog args row)"
    unfolding get_block_def Let_def by (intro keeps_intros) (simp add: prog_keeps_def)
  then show "get_block py prog args row s = (r, s') \<Longrightarrow> \<exists>l. mc_log s' = mc_log s @ l"
    using keepsD [of "after (mc_log s) (\<lambda>_. True)"] by (fastforce simp: after_def)
qed

lemma run_pool_fetched:
  assumes "run_pool (\<lambda>i. get_block py prog args (rows ! i)) is s = (rs, s')"
  shows "\<exists>l. mc_log s' = mc_log s @ l \<and> (\<forall>i n. (i, Inr n) \<in> set rs \<longrightarrow> fetched py args l (rows ! i))"
  using assms
proof (induction "is" arbitrary: s rs s')
  case (Cons i "is")
  obtain r s1 where one: "get_block py prog args (rows ! i) s = (r, s1)" by (metis surj_pair)
  obtain rs' s2 where more: "run_pool (\<lambda>i. get_block py prog args (rows ! i)) is s1 = (rs', s2)" by (metis surj_pair)
  from Cons.prems one more have eq: "rs = (i, r) # rs'" "s' = s2" by auto
  from Cons.IH [OF more] obtain l where l: "mc_log s2 = mc_log s1 @ l" "\<forall>i n. (i, Inr n) \<in> set rs' \<longrightarrow> fetched py args l (rows ! i)" by blast
  from get_block_log [OF one] obtain l1 where l1: "mc_log s1 = mc_log s @ l1" by blast
  have first: "fetched py args l1 (rows ! i)" if "r = Inr n" for n
    using get_block_Inr [of py prog args "rows ! i" s n s1] one that l1 by auto
  show ?case
    by (rule exI [of _ "l1 @ l"]) (use l l1 eq first in \<open>auto\<close>)
qed simp

lemma first_error_Inr: "first_error results is = Inr u \<Longrightarrow> i \<in> set is \<Longrightarrow> \<exists>x. (i, Inr x) \<in> set results"
  by (induction "is") (auto split: option.splits sum.splits dest: map_of_SomeD)

lemma fetch_all_Inr:
  assumes "fetch_all py prog args rows s = (Inr u, s')"
  shows "\<exists>l. mc_log s' = mc_log s @ l \<and> (\<forall>row \<in> set rows. fetched py args l row)"
proof -
  from assms obtain rs where pool: "run_pool (\<lambda>i. get_block py prog args (rows ! i)) (mi_order args (length rows)) s = (rs, s')"
    "first_error rs [0..<length rows] = Inr u" by (auto simp: fetch_all_def split: prod.splits)
  from run_pool_fetched [OF pool(1)] obtain l where l: "mc_log s' = mc_log s @ l"
    "\<forall>i n. (i, Inr n) \<in> set rs \<longrightarrow> fetched py args l (rows ! i)" by blast
  have "fetched py args l (rows ! i)" if "i < length rows" for i
    using first_error_Inr [OF pool(2), of i] that l(2) by auto
  then show ?thesis using l(1) by (metis in_set_conv_nth)
qed

text \<open>What is known of the rows a run has pinned: the daemon reported the root pinned and showed a node that
  links them, and their blocks were fetched in this run or a receipt among the files \<open>fs\<close> says an earlier run
  mirrored them.\<close>

definition mirrored :: "pylib \<Rightarrow> mirror_args \<Rightarrow> fs \<Rightarrow> program_run list \<Rightarrow> nat \<Rightarrow> (string \<times> int) list \<Rightarrow> string \<Rightarrow> bool" where
  "mirrored py args fs log cursor rows root_cid \<longleftrightarrow>
     (\<exists>v. pinned_node py log (path_str (mi_ipfs_bin args)) (mi_repository args) root_cid
        (mirror_node args cursor rows) v \<and>
        (\<forall>row \<in> set rows. links_to v (fst row))) \<and>
     ((\<forall>row \<in> set rows. fetched py args log row) \<or>
      (\<exists>peer. saved_receipt py args cursor rows peer (native_receipt args cursor (cursor + length rows)) fs = Inr root_cid))"

lemma node_links:
  assumes "pinned_node py l ipfs repo root_cid (mirror_node args cursor rows) v"
  shows "\<forall>row \<in> set rows. links_to v (fst row)"
proof -
  from assms have "json_eq v (mirror_node args cursor rows)" by (auto simp: pinned_node_def)
  then have "root_lists v (mi_sha256 args) cursor (cursor + length rows) (map row_json rows)"
    unfolding mirror_node_def by (rule batch_node_accepted)
  then show ?thesis by (blast intro: root_lists_links)
qed

lemma pinned_node_append: "pinned_node py l ipfs repo root_cid e v \<Longrightarrow> pinned_node py (l0 @ l) ipfs repo root_cid e v"
  unfolding pinned_node_def by (metis answered_append(2))

lemma mirror_again_Inr:
  assumes "mirror_again py prog args cursor rows peer
      (mirror_node args cursor rows) s = (Inr root_cid, s')"
  shows "\<exists>l. mc_log s' = mc_log s @ l \<and> mirrored py args (mc_fs s) l cursor rows root_cid"
proof -
  let ?node = "mirror_node args cursor rows"
  from assms obtain s1 where r: "saved_receipt py args cursor rows peer (native_receipt args cursor (cursor + length rows)) (mc_fs s) = Inr root_cid"
    "pin_ls_recursive prog (path_str (mi_ipfs_bin args)) (mi_repository args) root_cid s = (Inr True, s1)"
    "check_dag_node py prog (path_str (mi_ipfs_bin args)) (mi_repository args) root_cid ?node s1 = (Inr (), s')"
    unfolding mirror_again_def Let_def by (auto simp: abind_Inr ask_Inr split: if_splits)
  from root_checks_Inr [OF r(2,3)] obtain l v where l: "mc_log s' = mc_log s @ l"
    "pinned_node py l (path_str (mi_ipfs_bin args)) (mi_repository args) root_cid ?node v" by blast
  have "mirrored py args (mc_fs s) l cursor rows root_cid"
    unfolding mirrored_def using l(2) node_links [OF l(2)] r(1) by blast
  with l(1) show ?thesis by blast
qed

lemma mirror_fresh_Inr:
  assumes "mirror_fresh py prog args cursor rows peer
      (mirror_node args cursor rows) s = (Inr root_cid, s')"
  shows "\<exists>l. mc_log s' = mc_log s @ l \<and> mirrored py args (mc_fs s) l cursor rows root_cid"
proof -
  let ?node = "mirror_node args cursor rows"
  let ?ipfs = "path_str (mi_ipfs_bin args)" and ?repo = "mi_repository args"
  from assms obtain s1 s4 where r: "fetch_all py prog args rows s = (Inr (), s1)"
    "pinned_root py prog args ?node s1 = (Inr root_cid, s4)" "mc_log s' = mc_log s4"
    unfolding mirror_fresh_def by (auto simp: abind_Inr on_disk_Inr split: if_splits)
  from r(2) obtain out s2 s3 where p: "run_kubo prog ?ipfs ?repo [''dag'', ''put'', ''--pin''] (mi_compact args ?node) s1 = (Inr out, s2)"
    "pin_ls_recursive prog ?ipfs ?repo root_cid s2 = (Inr True, s3)"
    "check_dag_node py prog ?ipfs ?repo root_cid ?node s3 = (Inr (), s4)"
    unfolding pinned_root_def Let_def by (auto simp: abind_Inr split: if_splits)
  from p(1) obtain l2 where l2: "mc_log s2 = mc_log s1 @ l2" by (auto simp: run_kubo_Inr)
  from fetch_all_Inr [OF r(1)] obtain l1 where l1: "mc_log s1 = mc_log s @ l1" "\<forall>row \<in> set rows. fetched py args l1 row" by blast
  from root_checks_Inr [OF p(2,3)] obtain l v where l: "mc_log s4 = mc_log s2 @ l"
    "pinned_node py l ?ipfs ?repo root_cid ?node v" by blast
  let ?l = "l1 @ l2 @ l"
  have n: "pinned_node py ?l (path_str (mi_ipfs_bin args)) (mi_repository args) root_cid ?node v"
    using pinned_node_append [OF l(2), of "l1 @ l2"] by simp
  have "mirrored py args (mc_fs s) ?l cursor rows root_cid"
    unfolding mirrored_def using n node_links [OF n] l1(2) fetched_append(1) by blast
  then show ?thesis using l1(1) l2 l(1) r(3) by auto
qed

lemma mirror_range_Inr:
  assumes "mirror_range py prog args cursor rows s = (Inr root_cid, s')"
    and "\<And>c. prog_keeps (\<lambda>fs. map_of fs (native_receipt args cursor (cursor + length rows)) = c) prog"
  shows "\<exists>l. mc_log s' = mc_log s @ l \<and> mirrored py args (mc_fs s) l cursor rows root_cid"
proof -
  let ?node = "mirror_node args cursor rows"
  let ?p = "native_receipt args cursor (cursor + length rows)"
  let ?front = "abind (matched_repo py prog (path_str (mi_ipfs_bin args)) (mi_ipfs_path args) (mi_repository args)) (\<lambda>_.
    checked_public_peer prog args)"
  let ?Q = "\<lambda>fs. map_of fs ?p = map_of (mc_fs s) ?p"
  from assms(1) obtain peer s1 where front: "?front s = (Inr peer, s1)" and
    work: "mirror_again py prog args cursor rows peer ?node s1 = (Inr root_cid, s') \<or>
      mirror_fresh py prog args cursor rows peer ?node s1 = (Inr root_cid, s')"
    unfolding mirror_range_def Let_def by (auto simp: abind_Inr ask_Inr split: if_splits)
  have "keeps (after (mc_log s) ?Q) ?front"
    unfolding checked_public_peer_def by (intro keeps_intros assms(2))
  from keepsD [OF this after_refl front] obtain l0 where l0: "mc_log s1 = mc_log s @ l0" and same: "?Q (mc_fs s1)"
    by (auto simp: after_def)
  from work mirror_again_Inr mirror_fresh_Inr obtain l where l: "mc_log s' = mc_log s1 @ l"
    "mirrored py args (mc_fs s1) l cursor rows root_cid" by blast
  have "saved_receipt py args cursor rows peer ?p (mc_fs s1) = saved_receipt py args cursor rows peer ?p (mc_fs s)" for peer
    using query_cong(5) [OF same] by (simp add: saved_receipt_def)
  then have "mirrored py args (mc_fs s) (l0 @ l) cursor rows root_cid"
    using l(2) unfolding mirrored_def using pinned_node_append fetched_append(2) by (metis (no_types, lifting))
  then show ?thesis using l(1) l0 by auto
qed

lemma mirror_locked_cases:
  assumes "mirror_locked py prog args s = (r, s')"
    and "\<And>p c. butlast p = mi_state_dir args \<Longrightarrow> prog_keeps (\<lambda>fs. map_of fs p = c) prog" and "map_of (mc_fs s) (mirror_checkpoint args) = c"
  shows "map_of (mc_fs s') (mirror_checkpoint args) = c \<or>
    (\<exists>cursor rows root_cid l. mirror_cursor py args (mc_fs s) = Inr cursor \<and> int cursor \<noteq> mi_end_row args \<and>
       mirror_rows py args cursor (mc_fs s) = Inr rows \<and> mc_log s' = mc_log s @ l \<and> mirrored py args (mc_fs s) l cursor rows root_cid \<and>
       map_of (mc_fs s') (mirror_checkpoint args) =
         Some (File (json_text py (cursor_record args (cursor + length rows) root_cid))))"
proof -
  let ?Q = "\<lambda>fs. map_of fs (mirror_checkpoint args) = c"
  show ?thesis
  proof (cases "\<exists>cursor rows. mirror_cursor py args (mc_fs s) = Inr cursor \<and> int cursor \<noteq> mi_end_row args \<and>
      mirror_rows py args cursor (mc_fs s) = Inr rows")
    case False
    then have "s' = s" using assms(1)
      by (auto simp: mirror_locked_def abind_def ask_def split: sum.splits if_splits)
    then show ?thesis using assms(3) by simp
  next
    case True
    then obtain cursor rows where c: "mirror_cursor py args (mc_fs s) = Inr cursor" "int cursor \<noteq> mi_end_row args"
      "mirror_rows py args cursor (mc_fs s) = Inr rows" by blast
    obtain r1 s1 where range: "mirror_range py prog args cursor rows s = (r1, s1)" by (metis surj_pair)
    have k: "keeps (after (mc_log s) ?Q) (mirror_range py prog args cursor rows)" by (rule keeps_mirror_range [OF assms(2) [OF checkpoint_apart(3)]])
    have q1: "?Q (mc_fs s1)" using keepsD [OF k after_refl range] assms(3) by (simp add: after_def)
    show ?thesis
    proof (cases r1)
      case (Inl e)
      then have "s' = s1" using assms(1) c range by (auto simp: mirror_locked_def abind_def ask_def)
      then show ?thesis using q1 by simp
    next
      case (Inr root_cid)
      let ?v = "cursor_record args (cursor + length rows) root_cid" and ?t = "mi_uuid args 1"
      from mirror_range_Inr [OF range [unfolded Inr] assms(2) [OF checkpoint_apart(2)]] obtain l where l: "mc_log s1 = mc_log s @ l" "mirrored py args (mc_fs s) l cursor rows root_cid" by blast
      obtain r2 fs where save: "save_json py (mirror_checkpoint args) ?t ?v (mc_fs s1) = (r2, fs)" by (metis surj_pair)
      have s': "s' = s1\<lparr>mc_fs := fs\<rparr>" using assms(1) c range Inr save
        by (auto simp: mirror_locked_def abind_def ask_def on_disk_def split: sum.splits)
      have "?Q fs \<or> map_of fs (mirror_checkpoint args) = Some (File (json_text py ?v))"
      proof (cases "mkdirs (mi_state_dir args) (mc_fs s1)")
        case (Inl e)
        then show ?thesis using save q1 by (auto simp: save_json_def abind_def amkdirs_def checkpoint_apart)
      next
        case (Inr fs1)
        then have "?Q fs1" using q1 mkdirs_other [OF Inr checkpoint_apart(1)] by simp
        then show ?thesis using save Inr
          by (auto simp: save_json_def abind_def amkdirs_def checkpoint_apart atomic_json_def Let_def split: if_splits)
      qed
      then show ?thesis using c l s' by auto
    qed
  qed
qed

lemma mirror_rows_bounds:
  assumes "mirror_rows py args cursor fs = Inr rows" and "check_mirror_args args fs0 = Inr ()"
  shows "rows \<noteq> [] \<and> int (cursor + length rows) \<le> max (int cursor) (mi_end_row args)"
proof -
  let ?n = "nat (min (mi_max_blocks args) (mi_end_row args - int cursor))"
  from assms(1) obtain content where sel: "export_selected_rows py content (mi_sha256 args) (nat (mi_count args)) cursor
      ?n (mi_max_bytes args) = Inr rows" by (auto simp: mirror_rows_def res_simps)
  have "0 < mi_max_bytes args" using assms(2) by (auto simp: check_mirror_args_def split: if_splits)
  from export_selected_rows_Inr [OF sel this] have r: "rows = fitting (\<lambda>_. False) (mi_max_bytes args) 0 0 (window py content cursor ?n)"
    "rows \<noteq> []" by auto
  obtain rest where "window py content cursor ?n = rows @ rest" using fitting_prefix r(1) by metis
  then have "length rows \<le> length (window py content cursor ?n)" by simp
  also have "\<dots> \<le> ?n" by (simp add: window_def)
  finally show ?thesis using r(2) by auto
qed

text \<open>The opening makes directories and an empty lock file; it leaves the files there were.\<close>

lemma opened_files:
  assumes "amkdirs dir fs = (r1, f1)" and "take_lock lock locked busy f1 = (r2, f2)"
  shows "map_of f2 p = map_of fs p \<or> map_of fs p = None \<and> map_of f2 p \<in> {Some Dir, Some (File [])}"
proof -
  have made: "map_of (run_steps (map Mkdir ps) fs) p = map_of fs p \<or>
      map_of fs p = None \<and> map_of (run_steps (map Mkdir ps) fs) p = Some Dir" for ps fs
  proof (induction ps arbitrary: fs)
    case (Cons q ps)
    have "map_of (run_step (Mkdir q) fs) p = map_of fs p \<or> map_of fs p = None \<and> map_of (run_step (Mkdir q) fs) p = Some Dir"
      by auto
    with Cons.IH [of "run_step (Mkdir q) fs"] show ?case by (auto simp del: run_step.simps)
  qed simp
  have "map_of f1 p = map_of fs p \<or> map_of fs p = None \<and> map_of f1 p = Some Dir"
    using assms(1) made by (auto simp: amkdirs_def mkdirs_def split: sum.splits if_splits)
  moreover have "map_of f2 p = map_of f1 p \<or> map_of f1 p = None \<and> map_of f2 p = Some (File [])"
    using assms(2) by (auto simp: take_lock_def Let_def split: if_splits)
  ultimately show ?thesis by auto
qed

lemma opened_inventory:
  assumes "amkdirs dir fs = (r1, f1)" and "take_lock lock locked busy f1 = (r2, f2)"
    and "mirror_rows py args cursor f2 = Inr rows" and "0 < mi_max_bytes args"
  shows "mirror_rows py args cursor fs = Inr rows"
proof (cases "map_of f2 (mi_inventory args) = map_of fs (mi_inventory args)")
  case True
  then show ?thesis using assms(3) query_cong(5) [OF True] by (simp add: mirror_rows_def)
next
  case False
  let ?n = "nat (min (mi_max_blocks args) (mi_end_row args - int cursor))"
  from False opened_files [OF assms(1,2)] have "map_of f2 (mi_inventory args) \<in> {Some Dir, Some (File [])}" by blast
  then have "read_bytes f2 (mi_inventory args) \<in> {Inl OSError, Inr []}" by (auto simp: query_defs)
  then have sel: "export_selected_rows py [] (mi_sha256 args) (nat (mi_count args)) cursor ?n (mi_max_bytes args) = Inr rows"
    using assms(3) by (auto simp: mirror_rows_def)
  have "window py [] cursor ?n = []" by (simp add: window_def)
  with export_selected_rows_Inr [OF sel assms(4)] have False by auto
  then show ?thesis ..
qed

lemma opened_receipt:
  assumes "amkdirs dir fs = (r1, f1)" and "take_lock lock locked busy f1 = (r2, f2)"
    and "saved_receipt py args cursor rows peer p f2 = Inr root_cid" and "p \<notin> set (ancestors dir)" and "p \<noteq> lock"
  shows "saved_receipt py args cursor rows peer p fs = Inr root_cid"
proof -
  have "map_of f1 p = map_of fs p" using keepsD [OF keeps_amkdirs [OF assms(4)] refl assms(1)] by blast
  then have "map_of f2 p = map_of fs p" using keepsD [OF keeps_take_lock [OF assms(5)] _ assms(2)] by simp
  from query_cong(5) [OF this] show ?thesis using assms(3) by (simp add: saved_receipt_def)
qed

section \<open>Properties\<close>

text \<open>C21: the mirror's cursor only passes rows that are pinned. However a run ends, the checkpoint on disk is the
  old one, or the record of the next range, not empty, chosen from the declared inventory at the old
  cursor and within the end row; and during this run the daemon reported the root of this range
  recursively pinned and showed a node that links every CID of it, and every block of it was fetched with
  its size and digest, unless a receipt that was on disk before this run names the range and this root. Programs
  may do anything but write files of the state directory; the pool may run the fetches in any order.\<close>

theorem mirror_cursor_passes_only_pinned_rows:
  assumes "mirror_once py prog args s = (r, s')"
    and "\<forall>p c. butlast p = mi_state_dir args \<longrightarrow> prog_keeps (\<lambda>fs. map_of fs p = c) prog"
  shows "map_of (mc_fs s') (mirror_checkpoint args) = map_of (mc_fs s) (mirror_checkpoint args) \<or>
    (\<exists>cursor rows root_cid l. mirror_cursor py args (mc_fs s) = Inr cursor \<and>
       mirror_rows py args cursor (mc_fs s) = Inr rows \<and>
       rows \<noteq> [] \<and> int (cursor + length rows) \<le> mi_end_row args \<and>
       map_of (mc_fs s') (mirror_checkpoint args) =
         Some (File (json_text py (cursor_record args (cursor + length rows) root_cid))) \<and>
       mc_log s' = mc_log s @ l \<and> mirrored py args (mc_fs s) l cursor rows root_cid)"
proof -
  let ?c = "map_of (mc_fs s) (mirror_checkpoint args)"
  let ?Q = "\<lambda>fs. map_of fs (mirror_checkpoint args) = ?c"
  let ?lock = "take_lock (mi_state_dir args @ [''mirror.lock'']) (mi_locked args) (MirrorError ''native mirror already running'')"
  show ?thesis
  proof (cases "check_mirror_args args (mc_fs s)")
    case (Inl e)
    then show ?thesis using assms(1) by (auto simp: mirror_once_def abind_def ask_def)
  next
    case (Inr u)
    obtain r1 f1 where d: "amkdirs (mi_state_dir args) (mc_fs s) = (r1, f1)" by (metis surj_pair)
    obtain r2 f2 where l: "?lock f1 = (r2, f2)" by (metis surj_pair)
    have q1: "?Q f1" using keepsD [OF keeps_amkdirs _ d] checkpoint_apart(1) by simp
    have "keeps ?Q ?lock" using checkpoint_apart(6) by (auto simp: keeps_def take_lock_def Let_def)
    from keepsD [OF this q1 l] have q2: "?Q f2" .
    show ?thesis
    proof (cases "is_ok r1 \<and> is_ok r2")
      case False
      then have "mc_fs s' = f1 \<or> mc_fs s' = f2" using assms(1) Inr d l
        by (auto simp: mirror_once_def abind_def ask_def on_disk_def is_ok_iff split: sum.splits)
      then show ?thesis using q1 q2 by auto
    next
      case True
      then have run: "mirror_locked py prog args (s\<lparr>mc_fs := f2\<rparr>) = (r, s')"
        using assms(1) Inr d l by (auto simp: mirror_once_def abind_def ask_def on_disk_def is_ok_iff)
      have cursor: "mirror_cursor py args f2 = mirror_cursor py args (mc_fs s)"
        using query_cong [OF q2] by (simp add: mirror_cursor_def Let_def)
      have k: "prog_keeps (\<lambda>fs. map_of fs p = c) prog" if "butlast p = mi_state_dir args" for p c using assms(2) that by blast
      from Inr have check: "check_mirror_args args (mc_fs s) = Inr ()" by simp
      have bound: "rows \<noteq> [] \<and> int (cursor + length rows) \<le> mi_end_row args" if "mirror_rows py args cursor f2 = Inr rows" for cursor rows
      proof -
        from mirror_rows_bounds [OF that check] have b: "rows \<noteq> []" "int (cursor + length rows) \<le> max (int cursor) (mi_end_row args)" by auto
        from b(1) have "0 < length rows" by simp
        with b show ?thesis by (auto simp: max_def split: if_splits)
      qed
      have rows_before: "mirror_rows py args cursor (mc_fs s) = Inr rows" if "mirror_rows py args cursor f2 = Inr rows"
        for cursor rows
        using opened_inventory [OF d l that] check by (auto simp: check_mirror_args_def split: if_splits)
      have earlier: "mirrored py args (mc_fs s) l cursor rows root_cid" if "mirrored py args f2 l cursor rows root_cid"
        for l cursor rows root_cid
        using that opened_receipt [OF d l _ native_apart] unfolding mirrored_def by blast
      have "?Q (mc_fs s') \<or> (\<exists>cursor rows root_cid l. mirror_cursor py args f2 = Inr cursor \<and> int cursor \<noteq> mi_end_row args \<and>
         mirror_rows py args cursor f2 = Inr rows \<and> mc_log s' = mc_log s @ l \<and> mirrored py args f2 l cursor rows root_cid \<and>
         map_of (mc_fs s') (mirror_checkpoint args) =
           Some (File (json_text py (cursor_record args (cursor + length rows) root_cid))))"
        using mirror_locked_cases [OF run k] q2 by simp
      then show ?thesis unfolding cursor using bound rows_before earlier by blast
    qed
  qed
qed

section \<open>A concrete run\<close>

definition mirror_prog :: "unit program" where
  "mirror_prog repo argv data s =
     (let verb = argv ! 1 in
      Inr (0, if verb = ''id'' then ascii ''P'' else if verb = ''pin'' then ascii (sample_cid @ '' recursive'')
         else if verb = ''block'' then [1, 2, 3, 4, 5]
         else if argv ! 2 = ''peers'' then ascii ''/ip4/1.2.3.4/tcp/4001/p2p/QmX 5ms''
         else if argv ! 2 = ''put'' then ascii sample_cid else ascii ''N''), s)"

definition toy_mirror :: mirror_args where
  "toy_mirror = \<lparr>mi_inventory = [''inv''], mi_sha256 = hex (replicate 32 7), mi_count = 1, mi_start_row = 0, mi_end_row = 1,
     mi_max_blocks = 10, mi_max_bytes = 5000, mi_workers = 2, mi_source_peer = ''/ip4/1.2.3.4/tcp/4001/p2p/QmX'',
     mi_ipfs_bin = [''ipfs''], mi_ipfs_path = [''repo''], mi_state_dir = [''st''], mi_min_free_bytes = 0, mi_free = 1000,
     mi_repository = ''/repo'', mi_compact = (\<lambda>_. []), mi_is_global = (\<lambda>_. Inr True), mi_order = (\<lambda>n. rev [0..<n]),
     mi_uuid = dec_text, mi_locked = False\<rparr>"

definition mirror_end :: "unit machine" where
  "mirror_end = snd (mirror_once import_py mirror_prog toy_mirror import_start)"

lemma toy_mirrored:
  "map_of (mc_fs mirror_end) (mirror_checkpoint toy_mirror) \<noteq> map_of (mc_fs import_start) (mirror_checkpoint toy_mirror)"
  by code_simp

theorem mirror_cursor_passes_only_pinned_rows_witness:
  "\<exists>cursor rows root_cid l. mirror_cursor import_py toy_mirror (mc_fs import_start) = Inr cursor \<and>
     mirror_rows import_py toy_mirror cursor (mc_fs import_start) = Inr rows \<and> rows \<noteq> [] \<and>
     mirrored import_py toy_mirror (mc_fs import_start) l cursor rows root_cid"
proof -
  have run: "mirror_once import_py mirror_prog toy_mirror import_start =
      (fst (mirror_once import_py mirror_prog toy_mirror import_start), mirror_end)" by (simp add: mirror_end_def)
  have "\<forall>p c. butlast p = mi_state_dir toy_mirror \<longrightarrow> prog_keeps (\<lambda>fs. map_of fs p = c) mirror_prog"
    by (simp add: prog_keeps_def mirror_prog_def Let_def)
  from mirror_cursor_passes_only_pinned_rows [OF run this] toy_mirrored show ?thesis by blast
qed

end
