(* ===== verification/Large_Recovery.thy ===== *)
theory Large_Recovery
  imports Car_Import
begin

text \<open>
  \<open>deploy/import_large_lake_recovery.py\<close>: one oversized block is restored from a CAR of its pieces, checked
  against the inventory and its CID, put into the Kubo repository and pinned. Shown: a recovery that
  returns has seen bytes with the size and digest of the inventory row, the daemon derive the row's CID
  from the file that held them and report it pinned; the restored file does not stay; and the audit accepts
  the receipt it writes.
\<close>

record recovery_args =
  ra_inventory :: path
  ra_sha256 :: string
  ra_count :: int
  ra_row :: int
  ra_car :: path
  ra_source_receipt :: path
  ra_ipfs_bin :: path
  ra_ipfs_path :: path
  ra_min_free_bytes :: int
  ra_output_receipt :: "path option"
  ra_free :: int
  ra_identity :: file_identity
  ra_repository :: string
  ra_uuid :: "nat \<Rightarrow> string"

definition MAX_CAR :: int where "MAX_CAR = 536870912"

section \<open>Checks on files\<close>

text \<open>\<open>file_digest\<close>: size and digest, unless the file is larger than allowed.\<close>

definition file_digest :: "pylib \<Rightarrow> path \<Rightarrow> int \<Rightarrow> fs \<Rightarrow> (int \<times> string) res" where
  "file_digest py p ceiling fs =
     rbind (read_bytes fs p) (\<lambda>data.
     if ceiling < int (length data) then Inl (RecoveryError ''file exceeds recovery byte ceiling'')
     else Inr (int (length data), hex (sha256 py data)))"

definition is_sha256 :: "json \<Rightarrow> bool" where
  "is_sha256 v = (case as_str v of None \<Rightarrow> False | Some t \<Rightarrow> match_sha256 t)"

definition is_cid_v1 :: "json \<Rightarrow> bool" where
  "is_cid_v1 v = (case as_str v of None \<Rightarrow> False | Some t \<Rightarrow> match_cid_v1 t)"

definition rehydration :: string where
  "rehydration = ''fresh-offline-kubo-import-cat-and-original-cid-rehydration''"

record recovery_source =
  rs_cid :: string
  rs_bytes :: int
  rs_digest :: string
  rs_root :: string
  rs_car_sha256 :: string
  rs_car_bytes :: int

text \<open>The comparison of the source receipt with the row, evaluated from left to right.\<close>

definition check_source_receipt ::
    "recovery_args \<Rightarrow> json \<Rightarrow> json \<Rightarrow> (string \<times> json) list \<Rightarrow> recovery_source res" where
  "check_source_receipt args cid n_bytes kvs =
     (let differs = RecoveryError ''recovery receipt differs from immutable inventory'' in
      if \<not> eq_int (field kvs ''schema'') 1 \<or> \<not> eq_int (field kvs ''row'') (ra_row args) \<or>
        \<not> eq_str (field kvs ''inventory_sha256'') (ra_sha256 args) \<or> \<not> json_eq (field kvs ''original_cid'') cid \<or>
        \<not> json_eq (field kvs ''original_bytes'') n_bytes
      then Inl differs
      else
        (case (as_str cid, as_int n_bytes) of
           (Some c, Some n) \<Rightarrow>
             if \<not> match_cid_v1 c \<or> \<not> (8000000 < n \<and> n \<le> int MAX_BLOCK) then Inl differs
             else
               rbind (sha256_digest c) (\<lambda>digest.
               if \<not> eq_str (field kvs ''original_sha256'') (hex digest) \<or> \<not> eq_str (field kvs ''validation'') rehydration \<or>
                 \<not> is_cid_v1 (field kvs ''recovery_root'') \<or> \<not> is_sha256 (field kvs ''car_sha256'')
               then Inl differs
               else
                 (case as_int (field kvs ''car_bytes'') of
                    None \<Rightarrow> Inl differs
                  | Some car_bytes \<Rightarrow>
                      if \<not> (1 \<le> car_bytes \<and> car_bytes \<le> MAX_CAR) then Inl differs
                      else Inr \<lparr>rs_cid = c, rs_bytes = n, rs_digest = hex digest,
                        rs_root = the (as_str (field kvs ''recovery_root'')),
                        rs_car_sha256 = the (as_str (field kvs ''car_sha256'')), rs_car_bytes = car_bytes\<rparr>))
         | _ \<Rightarrow> Inl differs))"

definition receipt_matches :: "pylib \<Rightarrow> recovery_args \<Rightarrow> inventory \<Rightarrow> fs \<Rightarrow> recovery_source res" where
  "receipt_matches py args ivt fs =
     (let unreadable = RecoveryError ''recovery source receipt is unreadable'' in
      rbind (read_bytes fs (ra_inventory args)) (\<lambda>content.
      rbind (rbind (json_loads py (read_line (drop (inv_offsets ivt ! nat (ra_row args)) content))) (\<lambda>row.
        rbind (rename_error OSError unreadable (rename_error ValueError unreadable
          (rbind (read_bytes fs (ra_source_receipt args)) (json_loads py)))) (\<lambda>receipt.
        rbind (jsub row ''cid'') (\<lambda>cid.
        rbind (jsub row ''bytes'') (\<lambda>n_bytes. Inr (receipt, cid, n_bytes)))))) (\<lambda>(receipt, cid, n_bytes).
      rbind (dict_or AttributeError receipt) (\<lambda>kvs.
      rbind (check_source_receipt args cid n_bytes kvs) (\<lambda>src.
      rbind (file_digest py (ra_car args) MAX_CAR fs) (\<lambda>(car_size, car_sha).
      if car_size \<noteq> rs_car_bytes src \<or> car_sha \<noteq> rs_car_sha256 src
      then Inl (RecoveryError ''recovery CAR differs from source receipt'') else Inr src))))))"

section \<open>The daemon\<close>

definition run_recovery :: "'w program \<Rightarrow> recovery_args \<Rightarrow> string list \<Rightarrow> ('w machine, bytes) action" where
  "run_recovery prog args argv =
     run_program (RecoveryError (''Kubo command failed: '' @ join_text '' '' (take 2 argv)))
       (RecoveryError (''Kubo refused '' @ join_text '' '' (take 2 argv))) prog (Some (ra_repository args))
       (path_str (ra_ipfs_bin args) # argv) []"

abbreviation ask_ipfs :: "'w program \<Rightarrow> recovery_args \<Rightarrow> string list \<Rightarrow> ('w machine, string) action" where
  "ask_ipfs prog args argv \<equiv> abind (run_recovery prog args argv) (\<lambda>out. areturn (strip (text_of out)))"

text \<open>\<open>except RecoveryError: ... = None\<close>\<close>

definition or_none :: "('s, 'a) action \<Rightarrow> ('s, 'a option) action" where
  "or_none m s =
     (case m s of
        (Inl e, s') \<Rightarrow> (case e of RecoveryError _ \<Rightarrow> (Inr None, s') | _ \<Rightarrow> (Inl e, s'))
      | (Inr x, s') \<Rightarrow> (Inr (Some x), s'))"

definition verify_daemon_identity :: "'w program \<Rightarrow> recovery_args \<Rightarrow> ('w machine, unit) action" where
  "verify_daemon_identity prog args =
     abind (ask_ipfs prog args [''config'', ''Identity.PeerID'']) (\<lambda>configured_id.
     abind (ask_ipfs prog args [''id'', ''-f=<id>'']) (\<lambda>daemon_id.
     if configured_id = [] \<or> configured_id \<noteq> daemon_id
     then araise (RecoveryError ''Kubo daemon uses a different repository identity'')
     else areturn ()))"

definition root_listing :: "string \<Rightarrow> string list" where
  "root_listing root_cid = [''pin'', ''ls'', ''--type=recursive'', root_cid]"

definition direct_listing :: "string \<Rightarrow> string list" where
  "direct_listing cid = [''pin'', ''ls'', ''--type=direct'', cid]"

definition ensure_root :: "'w program \<Rightarrow> recovery_args \<Rightarrow> string \<Rightarrow> ('w machine, unit) action" where
  "ensure_root prog args root_cid =
     abind (or_none (ask_ipfs prog args (root_listing root_cid))) (\<lambda>root_pin.
     if root_pin = Some (root_cid @ '' recursive'') then areturn ()
     else
       abind (run_recovery prog args [''dag'', ''import'', ''--allow-big-block'', path_str (ra_car args)]) (\<lambda>_.
       abind (ask_ipfs prog args (root_listing root_cid)) (\<lambda>pin.
       if pin \<noteq> root_cid @ '' recursive'' then araise (RecoveryError ''recovery root is not recursively pinned'')
       else areturn ())))"

section \<open>The recovery\<close>

definition restored_path :: "recovery_args \<Rightarrow> path" where
  "restored_path args = butlast (ra_car args) @ [last (ra_car args) @ ''.'' @ ra_uuid args 0 @ ''.restored.partial'']"

definition restore_bytes :: "'w program \<Rightarrow> recovery_args \<Rightarrow> string \<Rightarrow> ('w machine, unit) action" where
  "restore_bytes prog args root_cid =
     stdout_to (restored_path args) (run_recovery prog args [''--offline'', ''cat'', root_cid])"

definition ensure_direct_pin :: "'w program \<Rightarrow> recovery_args \<Rightarrow> string \<Rightarrow> ('w machine, bytes) action" where
  "ensure_direct_pin prog args cid =
     abind (or_none (ask_ipfs prog args (direct_listing cid))) (\<lambda>pin.
     if pin = Some (cid @ '' direct'') \<or> pin = Some (cid @ '' recursive'') then areturn []
     else run_recovery prog args [''pin'', ''add'', ''--recursive=false'', cid])"

definition pin_original :: "'w program \<Rightarrow> recovery_args \<Rightarrow> recovery_source \<Rightarrow> int \<Rightarrow> ('w machine, unit) action" where
  "pin_original prog args src n =
     (let cid = rs_cid src in
      abind (ask_ipfs prog args [''block'', ''put'', ''--cid-codec=raw'', ''--mhtype=sha2-256'', ''--allow-big-block'',
          path_str (restored_path args)]) (\<lambda>produced.
      if produced \<noteq> cid then araise (RecoveryError ''Kubo rederived a different original CID'')
      else
        abind (ensure_direct_pin prog args cid) (\<lambda>_.
        abind (ask_ipfs prog args (direct_listing cid)) (\<lambda>pin.
        if pin \<noteq> cid @ '' direct'' then araise (RecoveryError ''original CID is not durably pinned'')
        else
          abind (run_recovery prog args [''block'', ''stat'', cid]) (\<lambda>block_stat.
          if ''Size: '' @ dec_text (nat n) \<notin> set (splitlines (text_of block_stat))
          then araise (RecoveryError ''Kubo original block size differs'') else areturn ())))))"

definition restore_block :: "pylib \<Rightarrow> 'w program \<Rightarrow> recovery_args \<Rightarrow> recovery_source \<Rightarrow> ('w machine, unit) action" where
  "restore_block py prog args src =
     abind (restore_bytes prog args (rs_root src)) (\<lambda>_.
     abind (ask (file_digest py (restored_path args) (int MAX_BLOCK))) (\<lambda>(n, digest).
     if n \<noteq> rs_bytes src \<or> digest \<noteq> rs_digest src
     then araise (RecoveryError ''restored bytes differ from original CID'')
     else pin_original prog args src n))"

definition recovery_result :: "recovery_args \<Rightarrow> recovery_source \<Rightarrow> json" where
  "recovery_result args src =
     JDict [(''status'', JStr ''complete''), (''row'', JInt (ra_row args)), (''inventory_sha256'', JStr (ra_sha256 args)),
       (''original_cid'', JStr (rs_cid src)), (''original_bytes'', JInt (rs_bytes src)),
       (''original_sha256'', JStr (rs_digest src)), (''recovery_root'', JStr (rs_root src)),
       (''car_sha256'', JStr (rs_car_sha256 src)), (''repository'', JStr (ra_repository args))]"

definition save_recovery :: "pylib \<Rightarrow> recovery_args \<Rightarrow> json \<Rightarrow> (fs, unit) action" where
  "save_recovery py args result =
     (case ra_output_receipt args of
        None \<Rightarrow> areturn ()
      | Some p \<Rightarrow>
          abind (amkdirs (butlast p)) (\<lambda>_ fs.
          if exists_path fs p then
            (rbind (rbind (read_bytes fs p) (json_loads py)) (\<lambda>saved.
               if json_eq saved result then Inr () else Inl (RecoveryError ''existing import receipt differs'')), fs)
          else atomic_json py p (ra_uuid args 1) result fs))"

definition check_recovery_args :: "recovery_args \<Rightarrow> fs \<Rightarrow> unit res" where
  "check_recovery_args args fs =
     (if \<not> match_sha256 (ra_sha256 args) \<or> ra_count args < 1 \<or> ra_row args < 0
      then Inl (RecoveryError ''invalid inventory identity or row'')
      else if ra_min_free_bytes args < 0 \<or> \<not> is_file fs (ra_ipfs_bin args) \<or> \<not> is_dir fs (ra_ipfs_path args)
      then Inl (RecoveryError ''invalid disk reserve or Kubo location'') else Inr ())"

definition recovery_inputs :: "pylib \<Rightarrow> recovery_args \<Rightarrow> fs \<Rightarrow> recovery_source res" where
  "recovery_inputs py args fs =
     rbind (check_recovery_args args fs) (\<lambda>_.
     rbind (read_bytes fs (ra_inventory args)) (\<lambda>content.
     rbind (load_inventory py content (ra_identity args) (ra_sha256 args) (ra_count args)) (\<lambda>ivt.
     if int (length (inv_offsets ivt)) \<le> ra_row args then Inl (RecoveryError ''row outside inventory'')
     else
       rbind (receipt_matches py args ivt fs) (\<lambda>src.
       if ra_free args - 2 * (rs_car_bytes src + rs_bytes src) < ra_min_free_bytes args
       then Inl (RecoveryError ''physical disk reserve would be crossed'') else Inr src))))"

definition recover :: "pylib \<Rightarrow> 'w program \<Rightarrow> recovery_args \<Rightarrow> ('w machine, json) action" where
  "recover py prog args =
     abind (ask (recovery_inputs py args)) (\<lambda>src.
     abind (verify_daemon_identity prog args) (\<lambda>_.
     abind (ensure_root prog args (rs_root src)) (\<lambda>_.
     abind (afinally (restore_block py prog args src) (\<lambda>s. s\<lparr>mc_fs := unlink (restored_path args) (mc_fs s)\<rparr>)) (\<lambda>_.
     abind (on_disk (save_recovery py args (recovery_result args src))) (\<lambda>_.
     areturn (recovery_result args src))))))"

text \<open>The exit status; an exception that is not caught ends the interpreter with status 1.\<close>

fun recovery_refused :: "exn \<Rightarrow> bool" where
  "recovery_refused (RecoveryError _) = True"
| "recovery_refused (InventoryError _) = True"
| "recovery_refused OSError = True"
| "recovery_refused ValueError = True"
| "recovery_refused KeyError = True"
| "recovery_refused _ = False"

definition recovery_main :: "pylib \<Rightarrow> 'w program \<Rightarrow> recovery_args \<Rightarrow> ('w machine, int) action" where
  "recovery_main py prog args s =
     (case recover py prog args s of
        (Inl e, s') \<Rightarrow> (Inr (if recovery_refused e then 2 else 1), s') | (Inr _, s') \<Rightarrow> (Inr 0, s'))"

section \<open>What a recovery has seen\<close>

lemma row_line:
  assumes "represents py content rows ivt" and "k < length rows"
  shows "row_values py (read_line (drop (inv_offsets ivt ! k) content)) = Inr (row_json (rows ! k))"
proof -
  have len: "length (inv_offsets ivt) = length rows" using assms(1) by (simp add: represents_def)
  have "take 1 (drop k rows) = [rows ! k]" using assms(2) by (simp add: take_Suc_conv_app_nth hd_drop_conv_nth take_Suc)
  then have "inventory_rows py ivt (inv_identity ivt, content) (int k) 1 = Inr ([row_json (rows ! k)], Suc k)"
    using inventory_rows_Inr [OF assms, of 1] assms(2) by simp
  then show ?thesis using assms(2) len
    by (auto simp: inventory_rows_def rbind_eq_Inr nat_add_distrib numeral_eq_Suc Let_def split: if_splits)
qed

lemma hex_inject_any: "hex as = hex bs \<longleftrightarrow> as = bs"
  using hex_inject by (metis length_hex mult_left_cancel numeral_eq_iff zero_neq_numeral)

text \<open>What the checks of the source receipt leave: the row, its digest, and CIDs and digests of the right form.\<close>

definition good_source :: "recovery_source \<Rightarrow> string \<times> int \<Rightarrow> bool" where
  "good_source src row \<longleftrightarrow> row = (rs_cid src, rs_bytes src) \<and> match_cid_v1 (rs_cid src) \<and> 8000000 < rs_bytes src \<and>
     rs_bytes src \<le> int MAX_BLOCK \<and> (\<exists>digest. sha256_digest (rs_cid src) = Inr digest \<and> rs_digest src = hex digest) \<and>
     match_cid_v1 (rs_root src) \<and> match_sha256 (rs_car_sha256 src)"

lemma check_source_receipt_Inr:
  "check_source_receipt args (JStr c) (JInt n) kvs = Inr src \<Longrightarrow> good_source src (c, n)"
  unfolding check_source_receipt_def Let_def good_source_def
  by (auto simp: res_simps is_cid_v1_def is_sha256_def split: if_splits option.splits)

lemma recovery_inputs_Inr:
  assumes "recovery_inputs py args fs = Inr src"
  obtains content ivt all_rows where "check_recovery_args args fs = Inr ()" "read_bytes fs (ra_inventory args) = Inr content"
    "load_inventory py content (ra_identity args) (ra_sha256 args) (ra_count args) = Inr ivt"
    "represents py content all_rows ivt" "inv_sha256 ivt = ra_sha256 args" "int (length all_rows) = ra_count args"
    "inv_identity ivt = ra_identity args" "nat (ra_row args) < length all_rows" "0 \<le> ra_row args"
    "good_source src (all_rows ! nat (ra_row args))"
proof -
  from assms obtain content ivt where a: "check_recovery_args args fs = Inr ()" "read_bytes fs (ra_inventory args) = Inr content"
    "load_inventory py content (ra_identity args) (ra_sha256 args) (ra_count args) = Inr ivt"
    "\<not> int (length (inv_offsets ivt)) \<le> ra_row args" "receipt_matches py args ivt fs = Inr src"
    unfolding recovery_inputs_def by (auto simp: rbind_eq_Inr split: if_splits)
  from a(3) obtain all_rows where r: "represents py content all_rows ivt" "inv_sha256 ivt = ra_sha256 args"
    "int (length all_rows) = ra_count args" "inv_identity ivt = ra_identity args" by (rule load_inventory_represents)
  have pos: "0 \<le> ra_row args" using a(1) by (auto simp: check_recovery_args_def split: if_splits)
  have "length (inv_offsets ivt) = length all_rows" using r(1) by (simp add: represents_def)
  then have lt: "nat (ra_row args) < length all_rows" using a(4) pos by linarith
  from row_line [OF r(1) lt] obtain row where row: "json_loads py (read_line (drop (inv_offsets ivt ! nat (ra_row args)) content)) = Inr row"
    "jsub row ''cid'' = Inr (JStr (fst (all_rows ! nat (ra_row args))))" "jsub row ''bytes'' = Inr (JInt (snd (all_rows ! nat (ra_row args))))"
    by (auto simp: row_values_def rbind_eq_Inr row_json_def)
  have "\<exists>kvs. check_source_receipt args (JStr (fst (all_rows ! nat (ra_row args)))) (JInt (snd (all_rows ! nat (ra_row args)))) kvs = Inr src"
    using a(2,5) row by (auto simp: receipt_matches_def Let_def rbind_eq_Inr split: if_splits)
  then have "good_source src (all_rows ! nat (ra_row args))" using check_source_receipt_Inr by fastforce
  with that [OF a(1,2,3) r lt pos] show ?thesis by blast
qed

lemma keeps_or_none [keeps_intros]: "keeps P m \<Longrightarrow> keeps P (or_none m)"
  unfolding keeps_def or_none_def by (auto split: prod.splits sum.splits exn.splits)

lemma keeps_run_recovery [keeps_intros]: "prog_keeps Q prog \<Longrightarrow> keeps (after log Q) (run_recovery prog args argv)"
  unfolding run_recovery_def by (intro keeps_intros)

lemma run_recovery_Inr [action_dest]:
  "run_recovery prog args argv s = (Inr out, s') \<longleftrightarrow>
     (\<exists>fs w. prog (Some (ra_repository args)) (path_str (ra_ipfs_bin args) # argv) [] (mc_fs s, mc_world s) = (Inr (0, out), fs, w) \<and>
        s' = s\<lparr>mc_fs := fs, mc_world := w,
          mc_log := mc_log s @ [(Some (ra_repository args), path_str (ra_ipfs_bin args) # argv, [], Inr (0, out))]\<rparr>)"
  unfolding run_recovery_def by (simp add: run_program_Inr)

text \<open>An answer of the daemon of the repository.\<close>

definition told :: "recovery_args \<Rightarrow> program_run list \<Rightarrow> string list \<Rightarrow> bytes \<Rightarrow> bool" where
  "told args log argv out \<longleftrightarrow> answered log (Some (ra_repository args)) (path_str (ra_ipfs_bin args) # argv) out"

lemma told_append [simp]: "told args log argv out \<Longrightarrow> told args (log @ l) argv out" "told args l argv out \<Longrightarrow> told args (log @ l) argv out"
  by (simp_all add: told_def)

lemma run_recovery_told: "run_recovery prog args argv s = (Inr out, s') \<Longrightarrow> \<exists>l. mc_log s' = mc_log s @ l \<and> told args l argv out"
  unfolding told_def run_recovery_Inr using answered_one by fastforce

definition put_command :: "recovery_args \<Rightarrow> string list" where
  "put_command args = [path_str (ra_ipfs_bin args), ''block'', ''put'', ''--cid-codec=raw'', ''--mhtype=sha2-256'',
     ''--allow-big-block'', path_str (restored_path args)]"

lemma pin_original_Inr:
  fixes prog :: "'w program"
  assumes "pin_original prog args src n s = (Inr u, s')"
  obtains l out1 out2 out3 where "mc_log s' = mc_log s @ l"
    "fst (prog (Some (ra_repository args)) (put_command args) [] (mc_fs s, mc_world s)) = Inr (0, out1)"
    "strip (text_of out1) = rs_cid src" "told args l (direct_listing (rs_cid src)) out2"
    "strip (text_of out2) = rs_cid src @ '' direct''" "told args l [''block'', ''stat'', rs_cid src] out3"
    "''Size: '' @ dec_text (nat n) \<in> set (splitlines (text_of out3))"
proof -
  let ?cid = "rs_cid src"
  from assms obtain out1 s1 x s3 out2 s4 out3 where
    put: "run_recovery prog args (tl (put_command args)) s = (Inr out1, s1)" "strip (text_of out1) = ?cid" and
    mid: "ensure_direct_pin prog args ?cid s1 = (Inr x, s3)" and
    final: "run_recovery prog args (direct_listing ?cid) s3 = (Inr out2, s4)" "strip (text_of out2) = ?cid @ '' direct''"
      "run_recovery prog args [''block'', ''stat'', ?cid] s4 = (Inr out3, s')"
      "''Size: '' @ dec_text (nat n) \<in> set (splitlines (text_of out3))"
    unfolding pin_original_def Let_def put_command_def list.sel by (auto simp: abind_Inr split: if_splits)
  have "keeps (after l (\<lambda>_. True)) (ensure_direct_pin prog args ?cid)" for l
    unfolding ensure_direct_pin_def by (intro keeps_intros) (simp_all add: prog_keeps_def)
  from logged_action [OF this mid] obtain l2 where l2: "mc_log s3 = mc_log s1 @ l2" by blast
  from run_recovery_told [OF put(1)] obtain l1 where l1: "mc_log s1 = mc_log s @ l1" by blast
  from run_recovery_told [OF final(1)] obtain l3 where l3: "mc_log s4 = mc_log s3 @ l3" "told args l3 (direct_listing ?cid) out2" by blast
  from run_recovery_told [OF final(3)] obtain l4 where l4: "mc_log s' = mc_log s4 @ l4" "told args l4 [''block'', ''stat'', ?cid] out3" by blast
  have "fst (prog (Some (ra_repository args)) (put_command args) [] (mc_fs s, mc_world s)) = Inr (0, out1)"
    using put(1) by (auto simp: run_recovery_Inr put_command_def)
  then show ?thesis
    using that [of "l1 @ l2 @ l3 @ l4" out1 out2 out3] l1 l2 l3 l4 put(2) final(2,4) by simp
qed

lemma restore_block_Inr:
  assumes "restore_block py prog args src s = (Inr u, s')"
  obtains data l fs w out1 out2 out3 where "mc_log s' = mc_log s @ l"
    "told args l [''--offline'', ''cat'', rs_root src] data" "int (length data) = rs_bytes src"
    "hex (sha256 py data) = rs_digest src" "map_of fs (restored_path args) = Some (File data)"
    "fst (prog (Some (ra_repository args)) (put_command args) [] (fs, w)) = Inr (0, out1)"
    "strip (text_of out1) = rs_cid src" "told args l (direct_listing (rs_cid src)) out2"
    "strip (text_of out2) = rs_cid src @ '' direct''" "told args l [''block'', ''stat'', rs_cid src] out3"
    "''Size: '' @ dec_text (nat (rs_bytes src)) \<in> set (splitlines (text_of out3))"
proof -
  from assms obtain s1 where one: "restore_bytes prog args (rs_root src) s = (Inr (), s1)"
    and digest: "file_digest py (restored_path args) (int MAX_BLOCK) (mc_fs s1) = Inr (rs_bytes src, rs_digest src)"
    and pin: "pin_original prog args src (rs_bytes src) s1 = (Inr u, s')"
    unfolding restore_block_def by (auto simp: abind_Inr ask_Inr split: if_splits)
  let ?s0 = "s\<lparr>mc_fs := write_node (restored_path args) (File []) (mc_fs s)\<rparr>"
  from one obtain s2 data where cat: "run_recovery prog args [''--offline'', ''cat'', rs_root src] ?s0 = (Inr data, s2)"
    and wrote: "s1 = s2\<lparr>mc_fs := write_node (restored_path args) (File data) (mc_fs s2)\<rparr>"
    unfolding restore_bytes_def stdout_to_def by (auto simp: abind_Inr ask_Inr on_disk_Inr awrite_Inr split: if_splits)
  from run_recovery_told [OF cat] obtain l1 where l1: "mc_log s2 = mc_log s @ l1" "told args l1 [''--offline'', ''cat'', rs_root src] data"
    by auto
  have there: "map_of (mc_fs s1) (restored_path args) = Some (File data)" using wrote by simp
  with digest have d: "int (length data) = rs_bytes src" "hex (sha256 py data) = rs_digest src"
    by (auto simp: file_digest_def split: if_splits)
  from pin obtain l out1 out2 out3 where p: "mc_log s' = mc_log s1 @ l"
    "fst (prog (Some (ra_repository args)) (put_command args) [] (mc_fs s1, mc_world s1)) = Inr (0, out1)"
    "strip (text_of out1) = rs_cid src" "told args l (direct_listing (rs_cid src)) out2"
    "strip (text_of out2) = rs_cid src @ '' direct''" "told args l [''block'', ''stat'', rs_cid src] out3"
    "''Size: '' @ dec_text (nat (rs_bytes src)) \<in> set (splitlines (text_of out3))" by (rule pin_original_Inr)
  show ?thesis
    using that [of "l1 @ l" data "mc_fs s1" "mc_world s1" out1 out2 out3] p l1 wrote there d by simp
qed

section \<open>Properties\<close>

lemma recover_Inr:
  assumes "recover py prog args s = (Inr result, s')"
  obtains src s1 s2 where "recovery_inputs py args (mc_fs s) = Inr src" "\<exists>l. mc_log s1 = mc_log s @ l"
    "restore_block py prog args src s1 = (Inr (), s2)" "result = recovery_result args src"
    "on_disk (save_recovery py args result) (s2\<lparr>mc_fs := unlink (restored_path args) (mc_fs s2)\<rparr>) = (Inr (), s')"
proof -
  from assms obtain src s0 s1 s2 where r: "recovery_inputs py args (mc_fs s) = Inr src"
    "verify_daemon_identity prog args s = (Inr (), s0)" "ensure_root prog args (rs_root src) s0 = (Inr (), s1)"
    "restore_block py prog args src s1 = (Inr (), s2)" "result = recovery_result args src"
    "on_disk (save_recovery py args result) (s2\<lparr>mc_fs := unlink (restored_path args) (mc_fs s2)\<rparr>) = (Inr (), s')"
    unfolding recover_def by (auto simp: abind_Inr ask_Inr afinally_Inr)
  have q: "prog_keeps (\<lambda>_. True) prog" by (simp add: prog_keeps_def)
  have k1: "keeps (after l (\<lambda>_. True)) (verify_daemon_identity prog args)" for l
    unfolding verify_daemon_identity_def by (intro keeps_intros q)
  have k2: "keeps (after l (\<lambda>_. True)) (ensure_root prog args (rs_root src))" for l
    unfolding ensure_root_def by (intro keeps_intros q)
  from logged_action [OF k1 r(2)] logged_action [OF k2 r(3)] have "\<exists>l. mc_log s1 = mc_log s @ l" by auto
  with r that show ?thesis by blast
qed

text \<open>The receipt is not written where the restored bytes were.\<close>

definition receipt_elsewhere :: "recovery_args \<Rightarrow> bool" where
  "receipt_elsewhere args \<longleftrightarrow>
     (case ra_output_receipt args of None \<Rightarrow> True | Some p \<Rightarrow> restored_path args \<notin> set (p # ancestors (butlast p)))"

lemma restored_gone:
  assumes "on_disk (save_recovery py args result) s = (Inr (), s')" and "receipt_elsewhere args"
    and "map_of (mc_fs s) (restored_path args) = None"
  shows "map_of (mc_fs s') (restored_path args) = None"
proof (cases "ra_output_receipt args")
  case None
  then show ?thesis using assms(1,3) by (auto simp: on_disk_Inr save_recovery_def)
next
  case (Some p)
  with assms(2) have q: "restored_path args \<noteq> p" "restored_path args \<notin> set (ancestors (butlast p))"
    by (auto simp: receipt_elsewhere_def)
  from assms(1) Some obtain fs where made: "mkdirs (butlast p) (mc_fs s) = Inr fs"
    and saved: "(if exists_path fs p then
        (rbind (rbind (read_bytes fs p) (json_loads py)) (\<lambda>saved.
           if json_eq saved result then Inr () else Inl (RecoveryError ''existing import receipt differs'')), fs)
      else atomic_json py p (ra_uuid args 1) result fs) = (Inr (), mc_fs s')"
    by (auto simp: on_disk_Inr save_recovery_def abind_Inr amkdirs_Inr)
  have "map_of fs (restored_path args) = None" using mkdirs_other [OF made q(2)] assms(3) by simp
  moreover from saved have "mc_fs s' = fs \<or> mc_fs s' = write_node p (File (json_text py result))
      (unlink (partial_name p (ra_uuid args 1)) (write_node (partial_name p (ra_uuid args 1)) (File (json_text py result)) fs))"
    by (auto simp: atomic_json_def Let_def split: if_splits)
  ultimately show ?thesis using q(1) by auto
qed

text \<open>C22: what is recovered is the block of the inventory row. When a recovery returns, the inventory file is the
  declared one, the result names its row's CID and size, and during the run the offline daemon gave bytes
  of this size and of the digest inside the CID, derived the CID itself from the file with exactly these
  bytes, and afterwards listed it as directly pinned with this size; the file the bytes were restored to is gone,
  unless the caller asked for a receipt at that very name.\<close>

theorem recovered_block_is_pinned:
  assumes "recover py prog args s = (Inr result, s')"
  shows "\<exists>content all_rows src data l fs w out1 out2 out3.
    read_bytes (mc_fs s) (ra_inventory args) = Inr content \<and> hex (sha256 py content) = ra_sha256 args \<and>
    list_all2 (line_row py) (file_lines content) all_rows \<and> int (length all_rows) = ra_count args \<and>
    nat (ra_row args) < length all_rows \<and> all_rows ! nat (ra_row args) = (rs_cid src, rs_bytes src) \<and>
    result = recovery_result args src \<and> mc_log s' = mc_log s @ l \<and>
    told args l [''--offline'', ''cat'', rs_root src] data \<and> int (length data) = rs_bytes src \<and>
    sha256_digest (rs_cid src) = Inr (sha256 py data) \<and> map_of fs (restored_path args) = Some (File data) \<and>
    fst (prog (Some (ra_repository args)) (put_command args) [] (fs, w)) = Inr (0, out1) \<and> strip (text_of out1) = rs_cid src \<and>
    told args l (direct_listing (rs_cid src)) out2 \<and> strip (text_of out2) = rs_cid src @ '' direct'' \<and>
    told args l [''block'', ''stat'', rs_cid src] out3 \<and>
    ''Size: '' @ dec_text (nat (rs_bytes src)) \<in> set (splitlines (text_of out3)) \<and>
    (receipt_elsewhere args \<longrightarrow> map_of (mc_fs s') (restored_path args) = None)"
proof -
  from assms obtain src s1 s2 where r: "recovery_inputs py args (mc_fs s) = Inr src" "\<exists>l. mc_log s1 = mc_log s @ l"
    "restore_block py prog args src s1 = (Inr (), s2)" "result = recovery_result args src"
    "on_disk (save_recovery py args result) (s2\<lparr>mc_fs := unlink (restored_path args) (mc_fs s2)\<rparr>) = (Inr (), s')"
    by (rule recover_Inr)
  from r(1) obtain content ivt all_rows where i: "read_bytes (mc_fs s) (ra_inventory args) = Inr content"
    "represents py content all_rows ivt" "inv_sha256 ivt = ra_sha256 args" "int (length all_rows) = ra_count args"
    "nat (ra_row args) < length all_rows" "good_source src (all_rows ! nat (ra_row args))" by (rule recovery_inputs_Inr)
  from r(3) obtain data l fs w out1 out2 out3 where p: "mc_log s2 = mc_log s1 @ l"
    "told args l [''--offline'', ''cat'', rs_root src] data" "int (length data) = rs_bytes src"
    "hex (sha256 py data) = rs_digest src" "map_of fs (restored_path args) = Some (File data)"
    "fst (prog (Some (ra_repository args)) (put_command args) [] (fs, w)) = Inr (0, out1)"
    "strip (text_of out1) = rs_cid src" "told args l (direct_listing (rs_cid src)) out2"
    "strip (text_of out2) = rs_cid src @ '' direct''" "told args l [''block'', ''stat'', rs_cid src] out3"
    "''Size: '' @ dec_text (nat (rs_bytes src)) \<in> set (splitlines (text_of out3))" by (rule restore_block_Inr)
  from r(2) obtain l0 where l0: "mc_log s1 = mc_log s @ l0" by blast
  have log: "mc_log s' = mc_log s @ (l0 @ l)" using r(5) p(1) l0 by (auto simp: on_disk_Inr)
  have digest: "sha256_digest (rs_cid src) = Inr (sha256 py data)"
    using i(6) p(4) by (auto simp: good_source_def hex_inject_any)
  have gone: "receipt_elsewhere args \<longrightarrow> map_of (mc_fs s') (restored_path args) = None"
    using restored_gone [OF r(5)] by simp
  have content: "hex (sha256 py content) = ra_sha256 args" "list_all2 (line_row py) (file_lines content) all_rows"
    "all_rows ! nat (ra_row args) = (rs_cid src, rs_bytes src)"
    using i(2,3,6) by (simp_all add: represents_def good_source_def)
  note told = p(2,8,10) [THEN told_append(2), of l0]
  show ?thesis
    by (intro exI conjI) (rule i(1,4,5) content r(4) log told p(3,5,6,7,9,11) digest gone)+
qed

text \<open>The receipt on disk after a recovery, whether it was written now or found.\<close>

lemma save_recovery_Inr:
  assumes "on_disk (save_recovery py args result) s = (Inr (), s')" and "ra_output_receipt args = Some p"
    and "json_loads py (json_text py result) = Inr result" and "json_eq result result"
  shows "\<exists>v. rbind (read_bytes (mc_fs s') p) (json_loads py) = Inr v \<and> json_eq v result"
proof -
  from assms(1,2) obtain fs fs' where made: "mkdirs (butlast p) (mc_fs s) = Inr fs" "mc_fs s' = fs'"
    and saved: "(if exists_path fs p then
        (rbind (rbind (read_bytes fs p) (json_loads py)) (\<lambda>saved.
           if json_eq saved result then Inr () else Inl (RecoveryError ''existing import receipt differs'')), fs)
      else atomic_json py p (ra_uuid args 1) result fs) = (Inr (), fs')"
    by (auto simp: on_disk_Inr save_recovery_def abind_Inr amkdirs_Inr)
  show ?thesis
  proof (cases "exists_path fs p")
    case True
    then show ?thesis using saved made(2) by (auto simp: rbind_eq_Inr split: if_splits)
  next
    case False
    then have "map_of fs' p = Some (File (json_text py result))"
      using saved by (auto simp: atomic_json_def Let_def split: if_splits)
    then show ?thesis using assms(3,4) made(2) by simp
  qed
qed

lemma parse_row_name_dec:
  assumes "suffix \<noteq> []" "\<not> is_digit (hd suffix)"
  shows "parse_row_name suffix (''row-'' @ dec_text k @ suffix) = Some k"
  using takeWhile_digits [OF dec_text_digits, of suffix k] assms by (simp add: parse_row_name_def Let_def)

text \<open>The audit counts a recovered block. The receipt of a recovery, written under the name of its row or
  found there from an earlier one, is accepted by the receipt audit for exactly this row and its CID. (JSON
  text parses back to the value it was written for.)\<close>

theorem recovery_receipt_accepted:
  assumes "recover py prog args s = (Inr result, s')" and "ra_output_receipt args = Some p"
    and "read_bytes (mc_fs s) (ra_inventory args) = Inr content"
    and "load_inventory py content (ra_identity args) (ra_sha256 args) (ra_count args) = Inr ivt"
    and "last p = ''row-'' @ dec_text (nat (ra_row args)) @ ''-jacob-import.json''"
    and "json_loads py (json_text py result) = Inr result"
    and "as_inventory sc = ivt" and "as_now sc = (ra_identity args, content)" and "as_repository sc = ra_repository args"
  shows "\<exists>root_cid. large_receipt py sc (last p, read_bytes (mc_fs s') p) =
    Inr (nat (ra_row args), root_cid, fst (inv_sizes ivt ! nat (ra_row args)))"
proof -
  from assms(1) obtain src s1 s2 where r: "recovery_inputs py args (mc_fs s) = Inr src" "result = recovery_result args src"
    "on_disk (save_recovery py args result) (s2\<lparr>mc_fs := unlink (restored_path args) (mc_fs s2)\<rparr>) = (Inr (), s')"
    by (rule recover_Inr)
  from r(1) obtain content' ivt' all_rows where i': "read_bytes (mc_fs s) (ra_inventory args) = Inr content'"
    "load_inventory py content' (ra_identity args) (ra_sha256 args) (ra_count args) = Inr ivt'"
    "represents py content' all_rows ivt'" "inv_sha256 ivt' = ra_sha256 args" "inv_identity ivt' = ra_identity args"
    "nat (ra_row args) < length all_rows" "0 \<le> ra_row args" "good_source src (all_rows ! nat (ra_row args))"
    by (rule recovery_inputs_Inr)
  have same: "content' = content" "ivt' = ivt" using i'(1,2) assms(3,4) by auto
  note i = i' [unfolded same]
  define k where "k = nat (ra_row args)"
  have sizes: "inv_sizes ivt = all_rows" "length (inv_offsets ivt) = length all_rows" using i(3) by (simp_all add: represents_def)
  have k: "ra_row args = int k" "k < length all_rows" "take (Suc 0) (drop k all_rows) = [all_rows ! k]"
    using i(6,7) by (simp_all add: k_def take_Suc hd_drop_conv_nth)
  have got: "inventory_rows py ivt (ra_identity args, content) (int k) 1 = Inr ([row_json (all_rows ! k)], Suc k)"
    using inventory_rows_Inr [OF i(3) k(2), of 1] i(5) k by simp
  have refl: "json_eq result result" unfolding r(2) recovery_result_def by simp
  from save_recovery_Inr [OF r(3) assms(2,6) refl] obtain v where
    v: "rbind (read_bytes (mc_fs s') p) (json_loads py) = Inr v" "json_eq v result" by blast
  from v(2) [unfolded r(2) recovery_result_def] obtain a where a: "v = JDict a"
    and f: "\<And>key y. map_of [(''status'', JStr ''complete''), (''row'', JInt (ra_row args)), (''inventory_sha256'', JStr (ra_sha256 args)),
       (''original_cid'', JStr (rs_cid src)), (''original_bytes'', JInt (rs_bytes src)),
       (''original_sha256'', JStr (rs_digest src)), (''recovery_root'', JStr (rs_root src)),
       (''car_sha256'', JStr (rs_car_sha256 src)), (''repository'', JStr (ra_repository args))] key = Some y \<Longrightarrow> json_eq (field a key) y"
    by (elim json_eq_dict) blast
  have entries: "eq_str (field a ''status'') ''complete''" "eq_int (field a ''row'') (int k)"
    "eq_str (field a ''inventory_sha256'') (ra_sha256 args)" "eq_str (field a ''original_cid'') (rs_cid src)"
    "eq_int (field a ''original_bytes'') (rs_bytes src)" "eq_str (field a ''original_sha256'') (rs_digest src)"
    "field a ''recovery_root'' = JStr (rs_root src)" "field a ''car_sha256'' = JStr (rs_car_sha256 src)"
    "eq_str (field a ''repository'') (ra_repository args)"
    using f [of "''status''"] f [of "''row''"] f [of "''inventory_sha256''"] f [of "''original_cid''"] f [of "''original_bytes''"]
      f [of "''original_sha256''"] f [of "''recovery_root''"] f [of "''car_sha256''"] f [of "''repository''"]
    by (simp_all add: json_eq_int json_eq_str eq_str_def k(1))
  from i(8) obtain digest where src: "all_rows ! k = (rs_cid src, rs_bytes src)" "sha256_digest (rs_cid src) = Inr digest"
    "rs_digest src = hex digest" "match_cid (rs_root src)" "match_sha256 (rs_car_sha256 src)"
    by (auto simp: good_source_def k_def match_cid_def)
  have name: "parse_row_name ''-jacob-import.json'' (last p) = Some k"
    using parse_row_name_dec [of "''-jacob-import.json''" k] by (simp add: assms(5) k_def is_digit_def)
  have "large_receipt py sc (last p, read_bytes (mc_fs s') p) = Inr (k, rs_root src, rs_cid src)"
    using name k(2) sizes got v(1) entries src assms(7,8,9) i(4)
    by (simp add: large_receipt_def a row_json_def is_cid_def Let_def)
  then show ?thesis unfolding sizes k_def [symmetric] src(1) by simp
qed

section \<open>A concrete recovery\<close>

text \<open>The block is not evaluated: it is some eight million bytes.\<close>

definition big_block :: bytes where "big_block = replicate 8000001 0"

definition recovery_py :: pylib where
  "recovery_py = row_py\<lparr>json_loads := (\<lambda>line. case line of
      [] \<Rightarrow> Inl ValueError
    | b # _ \<Rightarrow>
        if b = 1 then Inr (JDict [(''cid'', JStr sample_cid), (''bytes'', JInt 8000001)])
        else if b = 83 then Inr (JDict [(''schema'', JInt 1), (''row'', JInt 0), (''inventory_sha256'', JStr (hex (replicate 32 7))),
          (''original_cid'', JStr sample_cid), (''original_bytes'', JInt 8000001),
          (''original_sha256'', JStr (hex (replicate 32 7))), (''validation'', JStr rehydration),
          (''recovery_root'', JStr sample_cid), (''car_sha256'', JStr (hex (replicate 32 7))), (''car_bytes'', JInt 2)])
        else if b = 82 then Inr (JDict [(''status'', JStr ''complete''), (''row'', JInt 0),
          (''inventory_sha256'', JStr (hex (replicate 32 7))), (''original_cid'', JStr sample_cid), (''original_bytes'', JInt 8000001),
          (''original_sha256'', JStr (hex (replicate 32 7))), (''recovery_root'', JStr sample_cid),
          (''car_sha256'', JStr (hex (replicate 32 7))), (''repository'', JStr ''/repo'')])
        else Inl ValueError), json_dumps := (\<lambda>_. [82])\<rparr>"

definition recovery_answer :: "string list \<Rightarrow> bytes" where
  "recovery_answer argv =
     (let verb = argv ! 1; noun = argv ! 2 in
      if verb = ''config'' \<or> verb = ''id'' then ascii ''P''
      else if verb = ''--offline'' then big_block
      else if noun = ''ls'' then ascii (sample_cid @ (if argv ! 3 = ''--type=direct'' then '' direct'' else '' recursive''))
      else if noun = ''put'' then ascii sample_cid else ascii ''Size: 8000001'')"

definition recovery_prog :: "unit program" where
  "recovery_prog repo argv data s = (Inr (0, recovery_answer argv), s)"

definition toy_recovery :: recovery_args where
  "toy_recovery = \<lparr>ra_inventory = [''inv''], ra_sha256 = hex (replicate 32 7), ra_count = 1, ra_row = 0, ra_car = [''car''],
     ra_source_receipt = [''src''], ra_ipfs_bin = [''ipfs''], ra_ipfs_path = [''repo''], ra_min_free_bytes = 0,
     ra_output_receipt = Some [''row-0-jacob-import.json''], ra_free = 100000000,
     ra_identity = \<lparr>st_ino = 1, st_size = 2, st_mtime_ns = 3\<rparr>, ra_repository = ''/repo'', ra_uuid = dec_text\<rparr>"

definition recovery_start :: "unit machine" where
  "recovery_start = \<lparr>mc_fs = [([''inv''], File [1, 10]), ([''car''], File [9, 9]), ([''src''], File [83]), ([''ipfs''], File [1]),
     ([''repo''], Dir)], mc_world = (), mc_log = []\<rparr>"

definition toy_source :: recovery_source where
  "toy_source = \<lparr>rs_cid = sample_cid, rs_bytes = 8000001, rs_digest = hex (replicate 32 7), rs_root = sample_cid,
     rs_car_sha256 = hex (replicate 32 7), rs_car_bytes = 2\<rparr>"

lemma run_recovery_toy:
  "run_recovery recovery_prog args argv s = (Inr (recovery_answer (path_str (ra_ipfs_bin args) # argv)),
     s\<lparr>mc_log := mc_log s @ [(Some (ra_repository args), path_str (ra_ipfs_bin args) # argv, [],
       Inr (0, recovery_answer (path_str (ra_ipfs_bin args) # argv)))]\<rparr>)"
  by (simp add: run_recovery_def run_program_def recovery_prog_def)

lemma toy_answers:
  "strip (text_of (recovery_answer [i, ''config'', x])) = ''P''" "strip (text_of (recovery_answer [i, ''id'', x])) = ''P''"
  "strip (text_of (recovery_answer (i # root_listing x))) = sample_cid @ '' recursive''"
  "strip (text_of (recovery_answer (i # direct_listing x))) = sample_cid @ '' direct''"
  "recovery_answer [i, ''--offline'', x, y] = big_block"
  "strip (text_of (recovery_answer [i, ''block'', ''put'', x, y, z, u])) = sample_cid"
  "splitlines (text_of (recovery_answer [i, ''block'', ''stat'', x])) = [''Size: 8000001'']"
proof -
  have texts: "strip (text_of (ascii ''P'')) = ''P''" "strip (text_of (ascii (sample_cid @ '' recursive''))) = sample_cid @ '' recursive''"
    "strip (text_of (ascii (sample_cid @ '' direct''))) = sample_cid @ '' direct''" "strip (text_of (ascii sample_cid)) = sample_cid"
    "splitlines (text_of (ascii ''Size: 8000001'')) = [''Size: 8000001'']" by code_simp+
  show "strip (text_of (recovery_answer [i, ''config'', x])) = ''P''" "strip (text_of (recovery_answer [i, ''id'', x])) = ''P''"
  "strip (text_of (recovery_answer (i # root_listing x))) = sample_cid @ '' recursive''"
  "strip (text_of (recovery_answer (i # direct_listing x))) = sample_cid @ '' direct''"
  "recovery_answer [i, ''--offline'', x, y] = big_block"
  "strip (text_of (recovery_answer [i, ''block'', ''put'', x, y, z, u])) = sample_cid"
  "splitlines (text_of (recovery_answer [i, ''block'', ''stat'', x])) = [''Size: 8000001'']"
    using texts by (simp_all add: recovery_answer_def root_listing_def direct_listing_def)
qed

lemma toy_inputs: "recovery_inputs recovery_py toy_recovery (mc_fs recovery_start) = Inr toy_source"
  by code_simp

lemma toy_paths: "restored_path toy_recovery = [''car.0.restored.partial'']" "dec_text 8000001 = ''8000001''"
  by code_simp+

lemma toy_recovered: "\<exists>s'. recover recovery_py recovery_prog toy_recovery recovery_start =
  (Inr (recovery_result toy_recovery toy_source), s')"
proof -
  have front: "\<exists>s1. verify_daemon_identity recovery_prog toy_recovery s = (Inr (), s1) \<and> mc_fs s1 = mc_fs s" for s
    by (simp add: verify_daemon_identity_def abind_def run_recovery_toy toy_answers)
  have rooted: "\<exists>s1. ensure_root recovery_prog toy_recovery (rs_root toy_source) s = (Inr (), s1) \<and> mc_fs s1 = mc_fs s" for s
    by (simp add: ensure_root_def abind_def or_none_def run_recovery_toy toy_answers toy_source_def)
  have bytes: "\<exists>s1. restore_bytes recovery_prog toy_recovery (rs_root toy_source) s = (Inr (), s1) \<and>
      map_of (mc_fs s1) (restored_path toy_recovery) = Some (File big_block) \<and>
      (\<forall>p. p \<noteq> restored_path toy_recovery \<longrightarrow> map_of (mc_fs s1) p = map_of (mc_fs s) p)"
    if "map_of (mc_fs s) (restored_path toy_recovery) = None" for s
    using that by (simp add: restore_bytes_def stdout_to_def abind_def ask_def on_disk_def awrite_def run_recovery_toy toy_answers)
  have digest: "file_digest recovery_py p (int MAX_BLOCK) fs = Inr (8000001, hex (replicate 32 7))"
    if "map_of fs p = Some (File big_block)" for fs p
    using that by (simp add: file_digest_def big_block_def MAX_BLOCK_def recovery_py_def row_py_def sample_sha_def)
  have pins: "\<exists>s1. pin_original recovery_prog toy_recovery toy_source 8000001 s = (Inr (), s1) \<and> mc_fs s1 = mc_fs s" for s
    by (simp add: pin_original_def ensure_direct_pin_def abind_def or_none_def run_recovery_toy toy_answers toy_source_def toy_paths Let_def)
  have block: "\<exists>s1. restore_block recovery_py recovery_prog toy_recovery toy_source s = (Inr (), s1) \<and>
      (\<forall>p. p \<noteq> restored_path toy_recovery \<longrightarrow> map_of (mc_fs s1) p = map_of (mc_fs s) p)"
    if "map_of (mc_fs s) (restored_path toy_recovery) = None" for s
  proof -
    from bytes [OF that] obtain s1 where s1: "restore_bytes recovery_prog toy_recovery (rs_root toy_source) s = (Inr (), s1)"
      "map_of (mc_fs s1) (restored_path toy_recovery) = Some (File big_block)"
      "\<forall>p. p \<noteq> restored_path toy_recovery \<longrightarrow> map_of (mc_fs s1) p = map_of (mc_fs s) p" by blast
    from pins [of s1] obtain s2 where "pin_original recovery_prog toy_recovery toy_source 8000001 s1 = (Inr (), s2)" "mc_fs s2 = mc_fs s1" by blast
    then show ?thesis using s1 digest [OF s1(2)]
      by (simp add: restore_block_def abind_def ask_def toy_source_def)
  qed
  have fresh: "map_of (mc_fs recovery_start) p = None" if "p = restored_path toy_recovery \<or> p = [''row-0-jacob-import.json''] \<or>
      p = partial_name [''row-0-jacob-import.json''] (dec_text 1)" for p
    using that by (auto simp: toy_paths recovery_start_def partial_name_def)
  from front [of recovery_start] obtain s1 where s1: "verify_daemon_identity recovery_prog toy_recovery recovery_start = (Inr (), s1)"
    "mc_fs s1 = mc_fs recovery_start" by blast
  from rooted [of s1] obtain s2 where s2: "ensure_root recovery_prog toy_recovery (rs_root toy_source) s1 = (Inr (), s2)"
    "mc_fs s2 = mc_fs s1" by blast
  have "map_of (mc_fs s2) (restored_path toy_recovery) = None" using fresh s1(2) s2(2) by simp
  from block [OF this] obtain s3 where s3: "restore_block recovery_py recovery_prog toy_recovery toy_source s2 = (Inr (), s3)"
    "\<forall>p. p \<noteq> restored_path toy_recovery \<longrightarrow> map_of (mc_fs s3) p = map_of (mc_fs s2) p" by blast
  let ?fs = "unlink (restored_path toy_recovery) (mc_fs s3)"
  have none: "map_of ?fs [''row-0-jacob-import.json''] = None"
    "map_of ?fs (partial_name [''row-0-jacob-import.json''] (dec_text 1)) = None"
    using fresh s3(2) s2(2) s1(2) by auto
  obtain fs' where "save_recovery recovery_py toy_recovery (recovery_result toy_recovery toy_source) ?fs = (Inr (), fs')"
    using none by (simp add: save_recovery_def toy_recovery_def abind_def amkdirs_def mkdirs_def ancestors_def atomic_json_def Let_def)
  then show ?thesis using toy_inputs s1(1) s2(1) s3(1)
    by (simp add: recover_def abind_def ask_def afinally_def on_disk_def)
qed

theorem recovered_block_is_pinned_witness:
  "\<exists>data s'. int (length data) = 8000001 \<and> sha256_digest sample_cid = Inr (sha256 recovery_py data) \<and>
     recover recovery_py recovery_prog toy_recovery recovery_start = (Inr (recovery_result toy_recovery toy_source), s') \<and>
     map_of (mc_fs s') (restored_path toy_recovery) = None"
proof -
  obtain s' where run: "recover recovery_py recovery_prog toy_recovery recovery_start =
    (Inr (recovery_result toy_recovery toy_source), s')" using toy_recovered by blast
  have "receipt_elsewhere toy_recovery" by code_simp
  with recovered_block_is_pinned [OF run] obtain src data where
    d: "recovery_result toy_recovery toy_source = recovery_result toy_recovery src" "int (length data) = rs_bytes src"
    "sha256_digest (rs_cid src) = Inr (sha256 recovery_py data)" "map_of (mc_fs s') (restored_path toy_recovery) = None" by blast
  from d(1) have "rs_cid src = sample_cid" "rs_bytes src = 8000001" by (simp_all add: recovery_result_def toy_source_def)
  with d(2-4) run show ?thesis by auto
qed

theorem recovery_receipt_accepted_witness:
  "\<exists>(s' :: unit machine) root_cid. large_receipt recovery_py \<lparr>as_inventory = \<lparr>inv_offsets = [0], inv_sizes = [(sample_cid, 8000001)],
       inv_positions = [(sample_cid, 0)], inv_sha256 = hex (replicate 32 7), inv_total_bytes = 8000001,
       inv_identity = ra_identity toy_recovery\<rparr>, as_now = (ra_identity toy_recovery, [1, 10]), as_repository = ''/repo'',
       as_recursive = [], as_direct = []\<rparr>
     (''row-0-jacob-import.json'', read_bytes (mc_fs s') [''row-0-jacob-import.json'']) = Inr (0, root_cid, sample_cid)"
proof -
  let ?ivt = "\<lparr>inv_offsets = [0], inv_sizes = [(sample_cid, 8000001)], inv_positions = [(sample_cid, 0)],
    inv_sha256 = hex (replicate 32 7), inv_total_bytes = 8000001, inv_identity = ra_identity toy_recovery\<rparr>"
  let ?sc = "\<lparr>as_inventory = ?ivt, as_now = (ra_identity toy_recovery, [1, 10]), as_repository = ''/repo'',
    as_recursive = [], as_direct = []\<rparr>"
  obtain s' where run: "recover recovery_py recovery_prog toy_recovery recovery_start =
    (Inr (recovery_result toy_recovery toy_source), s')" using toy_recovered by blast
  have args: "ra_output_receipt toy_recovery = Some [''row-0-jacob-import.json'']" "ra_repository toy_recovery = ''/repo''"
    "ra_row toy_recovery = 0" by (simp_all add: toy_recovery_def)
  have content: "read_bytes (mc_fs recovery_start) (ra_inventory toy_recovery) = Inr [1, 10]"
    "load_inventory recovery_py [1, 10] (ra_identity toy_recovery) (ra_sha256 toy_recovery) (ra_count toy_recovery) = Inr ?ivt"
    by code_simp+
  have json: "json_loads recovery_py (json_text recovery_py (recovery_result toy_recovery toy_source)) =
    Inr (recovery_result toy_recovery toy_source)" by code_simp
  have name: "last [''row-0-jacob-import.json''] = ''row-'' @ dec_text (nat (ra_row toy_recovery)) @ ''-jacob-import.json''"
    by code_simp
  from recovery_receipt_accepted [OF run args(1) content name json, of ?sc] show ?thesis using args(2,3) by (simp, blast)
qed

end
