(* ===== verification/Large_Import_Batch.thy ===== *)
theory Large_Import_Batch
  imports Large_Recovery
begin

text \<open>
  \<open>deploy/import_large_lake_batch.py\<close>: the plan of oversized blocks is worked through in order, each block
  by a run of the recovery program, with a checkpoint after each. Shown: however a run ends, the cursor on
  disk has only passed blocks that the daemon listed as directly pinned, or that the recovery program
  reported complete, during this run.
\<close>

record recovery_batch_args =
  ba_inventory :: path
  ba_sha256 :: string
  ba_count :: int
  ba_expected_count :: int
  ba_expected_bytes :: int
  ba_archive :: path
  ba_receipt_dir :: path
  ba_state_dir :: path
  ba_importer :: path
  ba_ipfs_bin :: path
  ba_ipfs_path :: path
  ba_min_free_bytes :: int
  ba_max_new :: int
  ba_python :: string
  ba_identity :: file_identity
  ba_repository :: string
  ba_uuid :: "nat \<Rightarrow> string"
  ba_locked :: bool

section \<open>The plan\<close>

text \<open>A row of the plan: its index, its CID and its size. (The rows of a loaded inventory are texts and
  integers.)\<close>

type_synonym large_row = "nat \<times> string \<times> int"

definition plan_line :: "pylib \<Rightarrow> large_row list \<times> nat \<Rightarrow> bytes \<Rightarrow> (large_row list \<times> nat) res" where
  "plan_line py st line =
     (case st of (rows, index) \<Rightarrow>
        rbind (json_loads py line) (\<lambda>item.
        rbind (jsub item ''bytes'') (\<lambda>n.
        case as_int n of
          None \<Rightarrow> Inl TypeError
        | Some n \<Rightarrow>
            if n \<le> 8000000 then Inr (rows, index + 1)
            else
              rbind (jsub item ''cid'') (\<lambda>cid.
              case as_str cid of
                None \<Rightarrow> Inl TypeError
              | Some cid \<Rightarrow>
                  if \<not> match_cid_v1 cid \<or> 256000000 < n
                  then Inl (BatchError ''oversized row has unsupported CID or size'')
                  else Inr (rows @ [(index, cid, n)], index + 1)))))"

definition large_plan :: "pylib \<Rightarrow> bytes \<Rightarrow> int \<Rightarrow> int \<Rightarrow> large_row list res" where
  "large_plan py content expected_count expected_bytes =
     rbind (foldM (plan_line py) ([], 0) (file_lines content)) (\<lambda>(rows, _).
     if int (length rows) \<noteq> expected_count \<or> (\<Sum>(_, _, n)\<leftarrow>rows. n) \<noteq> expected_bytes
     then Inl (BatchError ''oversized plan differs from dated inventory'') else Inr rows)"

section \<open>One block\<close>

text \<open>A program whose status is looked at instead of being an error.\<close>

definition probe_program ::
    "exn \<Rightarrow> 'w program \<Rightarrow> string option \<Rightarrow> string list \<Rightarrow> ('w machine, int \<times> bytes) action" where
  "probe_program failed prog repo argv s =
     (case prog repo argv [] (mc_fs s, mc_world s) of (answer, fs, w) \<Rightarrow>
        (case answer of Inl e \<Rightarrow> Inl (if e = OSError \<or> e = TimeoutExpired then failed else e) | Inr x \<Rightarrow> Inr x,
         s\<lparr>mc_fs := fs, mc_world := w, mc_log := mc_log s @ [(repo, argv, [], answer)]\<rparr>))"

definition direct_pin :: "recovery_batch_args \<Rightarrow> string \<Rightarrow> string list" where
  "direct_pin args cid = [path_str (ba_ipfs_bin args), ''pin'', ''ls'', ''--type=direct'', cid]"

definition directly_pinned :: "'w program \<Rightarrow> recovery_batch_args \<Rightarrow> string \<Rightarrow> ('w machine, bool) action" where
  "directly_pinned prog args cid =
     abind (probe_program (BatchError ''Kubo pin check failed'') prog (Some (ba_repository args)) (direct_pin args cid)) (\<lambda>(rc, out).
     areturn (rc = 0 \<and> strip (text_of out) = cid @ '' direct''))"

definition large_car :: "recovery_batch_args \<Rightarrow> nat \<Rightarrow> path" where
  "large_car args row = ba_archive args @ [''row-'' @ dec_text row @ ''-recovery.car'']"

definition large_source_receipt :: "recovery_batch_args \<Rightarrow> nat \<Rightarrow> path" where
  "large_source_receipt args row = ba_archive args @ [''row-'' @ dec_text row @ ''-recovery.car'' @ ''.json'']"

definition destination_receipt :: "recovery_batch_args \<Rightarrow> nat \<Rightarrow> path" where
  "destination_receipt args row = ba_receipt_dir args @ [''row-'' @ dec_text row @ ''-jacob-import.json'']"

definition recovery_command :: "recovery_batch_args \<Rightarrow> nat \<Rightarrow> string list" where
  "recovery_command args row =
     [ba_python args, path_str (ba_importer args), ''--inventory'', path_str (ba_inventory args), ''--sha256'', ba_sha256 args,
      ''--count'', int_text (ba_count args), ''--row'', dec_text row, ''--car'', path_str (large_car args row),
      ''--source-receipt'', path_str (large_source_receipt args row), ''--ipfs-bin'', path_str (ba_ipfs_bin args),
      ''--ipfs-path'', path_str (ba_ipfs_path args), ''--min-free-bytes'', int_text (ba_min_free_bytes args),
      ''--output-receipt'', path_str (destination_receipt args row)]"

datatype row_outcome = Waiting | Skipped | Imported

text \<open>A receipt is there already: it must be for this row, and the block pinned.\<close>

definition saved_row_ok :: "pylib \<Rightarrow> recovery_batch_args \<Rightarrow> large_row \<Rightarrow> fs \<Rightarrow> bool res" where
  "saved_row_ok py args r fs =
     (case r of (row, cid, n) \<Rightarrow>
        rbind (rbind (read_bytes fs (destination_receipt args row)) (json_loads py)) (\<lambda>v.
        rbind (dict_or AttributeError v) (\<lambda>saved.
        Inr (eq_str (field saved ''status'') ''complete'' \<and> eq_int (field saved ''row'') (int row) \<and>
          eq_str (field saved ''inventory_sha256'') (ba_sha256 args) \<and> eq_str (field saved ''original_cid'') cid \<and>
          eq_int (field saved ''original_bytes'') n))))"

definition check_saved_row :: "pylib \<Rightarrow> 'w program \<Rightarrow> recovery_batch_args \<Rightarrow> large_row \<Rightarrow> ('w machine, row_outcome) action" where
  "check_saved_row py prog args r =
     (let differs = BatchError ''saved import receipt or Kubo pin differs'' in
      abind (ask (saved_row_ok py args r)) (\<lambda>ok.
      if \<not> ok then araise differs
      else
        abind (directly_pinned prog args (fst (snd r))) (\<lambda>pinned.
        if \<not> pinned then araise differs else areturn Skipped)))"

text \<open>What the importer printed last.\<close>

definition completed_row :: "pylib \<Rightarrow> large_row \<Rightarrow> bytes \<Rightarrow> bool res" where
  "completed_row py r out =
     (case r of (row, cid, n) \<Rightarrow>
        (case splitlines (text_of out) of
           [] \<Rightarrow> Inl IndexError
         | l # ls \<Rightarrow>
             rbind (json_loads py (ascii (last (l # ls)))) (\<lambda>v.
             rbind (dict_or AttributeError v) (\<lambda>completed.
             Inr (eq_str (field completed ''status'') ''complete'' \<and> eq_int (field completed ''row'') (int row) \<and>
               eq_str (field completed ''original_cid'') cid)))))"

definition import_row :: "pylib \<Rightarrow> 'w program \<Rightarrow> recovery_batch_args \<Rightarrow> large_row \<Rightarrow> ('w machine, row_outcome) action" where
  "import_row py prog args r =
     (case r of (row, cid, n) \<Rightarrow>
        abind (run_program (BatchError ''large recovery importer failed to run'')
            (BatchError (''large recovery importer refused row '' @ dec_text row)) prog None (recovery_command args row) []) (\<lambda>out.
        abind (alift (completed_row py r out)) (\<lambda>ok.
        abind (ask (\<lambda>fs. Inr (is_file fs (destination_receipt args row)))) (\<lambda>there.
        if \<not> ok \<or> \<not> there then araise (BatchError ''large recovery import receipt differs'')
        else areturn Imported))))"

definition advance_row :: "pylib \<Rightarrow> 'w program \<Rightarrow> recovery_batch_args \<Rightarrow> large_row \<Rightarrow> ('w machine, row_outcome) action" where
  "advance_row py prog args r =
     abind (ask (\<lambda>fs. Inr (exists_path fs (destination_receipt args (fst r)),
         is_file fs (large_car args (fst r)) \<and> is_file fs (large_source_receipt args (fst r))))) (\<lambda>(again, ready).
     if again then check_saved_row py prog args r
     else if \<not> ready then areturn Waiting
     else import_row py prog args r)"

section \<open>One run\<close>

definition batch_checkpoint :: "recovery_batch_args \<Rightarrow> path" where
  "batch_checkpoint args = ba_state_dir args @ [''checkpoint.json'']"

definition batch_record :: "recovery_batch_args \<Rightarrow> nat \<Rightarrow> nat \<Rightarrow> json" where
  "batch_record args cursor row =
     JDict [(''cursor'', JInt (int cursor)), (''inventory_sha256'', JStr (ba_sha256 args)), (''last_row'', JInt (int row))]"

definition batch_counts :: "string \<Rightarrow> (string \<times> json) list \<Rightarrow> nat \<Rightarrow> nat \<Rightarrow> json" where
  "batch_counts status extra imported skipped =
     JDict ((''status'', JStr status) # extra @ [(''imported'', JInt (int imported)), (''skipped'', JInt (int skipped))])"

text \<open>The loop over the rows from the cursor on; \<open>n_rows\<close> is the length of the plan.\<close>

fun batch_loop ::
    "pylib \<Rightarrow> 'w program \<Rightarrow> recovery_batch_args \<Rightarrow> nat \<Rightarrow> large_row list \<Rightarrow> nat \<Rightarrow> nat \<Rightarrow> nat \<Rightarrow> ('w machine, json) action" where
  "batch_loop py prog args n_rows [] cursor imported skipped =
     areturn (batch_counts ''complete'' [(''cursor'', JInt (int cursor)), (''total'', JInt (int n_rows))] imported skipped)"
| "batch_loop py prog args n_rows (r # rs) cursor imported skipped =
     (if int imported < ba_max_new args then
        abind (advance_row py prog args r) (\<lambda>outcome.
        if outcome = Waiting then
          areturn (batch_counts ''waiting-source'' [(''row'', JInt (int (fst r))), (''cursor'', JInt (int cursor))] imported skipped)
        else
          abind (on_disk (atomic_json py (batch_checkpoint args) (ba_uuid args cursor) (batch_record args (cursor + 1) (fst r)))) (\<lambda>_.
          if outcome = Imported then batch_loop py prog args n_rows rs (cursor + 1) (imported + 1) skipped
          else batch_loop py prog args n_rows rs (cursor + 1) imported (skipped + 1)))
      else areturn (batch_counts ''partial'' [(''cursor'', JInt (int cursor)), (''total'', JInt (int n_rows))] imported skipped))"

definition batch_cursor :: "pylib \<Rightarrow> recovery_batch_args \<Rightarrow> nat \<Rightarrow> fs \<Rightarrow> nat res" where
  "batch_cursor py args n_rows fs =
     (let differs = BatchError ''checkpoint identity differs''; p = batch_checkpoint args in
      if \<not> exists_path fs p then Inr 0
      else
        rbind (rbind (read_bytes fs p) (json_loads py)) (\<lambda>state.
        rbind (jget state ''cursor'') (\<lambda>cursor.
        rbind (jget state ''inventory_sha256'') (\<lambda>sha.
        case as_int cursor of
          None \<Rightarrow> Inl differs
        | Some n \<Rightarrow>
            if \<not> eq_str sha (ba_sha256 args) \<or> \<not> (0 \<le> n \<and> n \<le> int n_rows) then Inl differs else Inr (nat n)))))"

definition batch_rows :: "pylib \<Rightarrow> recovery_batch_args \<Rightarrow> fs \<Rightarrow> large_row list res" where
  "batch_rows py args fs =
     (if \<not> (1 \<le> ba_max_new args \<and> ba_max_new args \<le> 20) \<or> ba_expected_count args < 1 \<or> ba_expected_bytes args < 1 \<or>
        ba_min_free_bytes args < 0
      then Inl (BatchError ''invalid batch bounds'')
      else
        rbind (read_bytes fs (ba_inventory args)) (\<lambda>content.
        rbind (load_inventory py content (ba_identity args) (ba_sha256 args) (ba_count args)) (\<lambda>_.
        large_plan py content (ba_expected_count args) (ba_expected_bytes args))))"

definition advance_recovery :: "pylib \<Rightarrow> 'w program \<Rightarrow> recovery_batch_args \<Rightarrow> ('w machine, json) action" where
  "advance_recovery py prog args =
     abind (ask (batch_rows py args)) (\<lambda>rows.
     abind (on_disk (amkdirs (ba_state_dir args))) (\<lambda>_.
     abind (on_disk (amkdirs (ba_receipt_dir args))) (\<lambda>_.
     abind (on_disk (take_lock (ba_state_dir args @ [''import.lock'']) (ba_locked args)
       (BatchError ''large recovery batch already running''))) (\<lambda>_.
     abind (ask (batch_cursor py args (length rows))) (\<lambda>cursor.
     batch_loop py prog args (length rows) (drop cursor rows) cursor 0 0)))))"

text \<open>The exit status; an exception that is not caught ends the interpreter with status 1.\<close>

fun batch_refused :: "exn \<Rightarrow> bool" where
  "batch_refused (BatchError _) = True"
| "batch_refused (InventoryError _) = True"
| "batch_refused OSError = True"
| "batch_refused ValueError = True"
| "batch_refused KeyError = True"
| "batch_refused IndexError = True"
| "batch_refused _ = False"

definition batch_main :: "pylib \<Rightarrow> 'w program \<Rightarrow> recovery_batch_args \<Rightarrow> ('w machine, int) action" where
  "batch_main py prog args s =
     (case advance_recovery py prog args s of
        (Inl e, s') \<Rightarrow> (Inr (if batch_refused e then 2 else 1), s') | (Inr _, s') \<Rightarrow> (Inr 0, s'))"

section \<open>What a run leaves alone and what it has seen\<close>

lemma keeps_probe [keeps_intros]: "prog_keeps Q prog \<Longrightarrow> keeps (after log Q) (probe_program failed prog repo argv)"
  by (auto simp: keeps_def after_def prog_keeps_def probe_program_def split_beta)

lemma keeps_advance_row: "prog_keeps Q prog \<Longrightarrow> keeps (after log Q) (advance_row py prog args r)"
  unfolding advance_row_def check_saved_row_def import_row_def directly_pinned_def Let_def
  by (cases r) (simp, intro keeps_intros)

text \<open>A row the cursor may pass: the daemon listed its CID as directly pinned, or the recovery program ended
  with status 0 and reported it complete.\<close>

definition row_settled :: "pylib \<Rightarrow> recovery_batch_args \<Rightarrow> program_run list \<Rightarrow> large_row \<Rightarrow> bool" where
  "row_settled py args log r \<longleftrightarrow>
     (\<exists>out. answered log (Some (ba_repository args)) (direct_pin args (fst (snd r))) out \<and>
        strip (text_of out) = fst (snd r) @ '' direct'') \<or>
     (\<exists>out. answered log None (recovery_command args (fst r)) out \<and> completed_row py r out = Inr True)"

lemma row_settled_append: "row_settled py args log r \<Longrightarrow> row_settled py args (log @ l) r"
  "row_settled py args l r \<Longrightarrow> row_settled py args (log @ l) r"
  unfolding row_settled_def by (meson answered_append)+

lemma advance_row_Inr:
  assumes "advance_row py prog args r s = (Inr outcome, s')" and "outcome \<noteq> Waiting"
  shows "\<exists>l. mc_log s' = mc_log s @ l \<and> row_settled py args l r"
proof -
  obtain row cid n where r: "r = (row, cid, n)" by (cases r)
  from assms consider "check_saved_row py prog args r s = (Inr outcome, s')" | "import_row py prog args r s = (Inr outcome, s')"
    unfolding advance_row_def by (auto simp: abind_Inr ask_Inr split: if_splits)
  then show ?thesis
  proof cases
    case 1
    then obtain out where "mc_log s' = mc_log s @ [(Some (ba_repository args), direct_pin args cid, [], Inr (0, out))]"
      "strip (text_of out) = cid @ '' direct''"
      unfolding check_saved_row_def directly_pinned_def Let_def r probe_program_def
      by (auto simp: abind_Inr ask_Inr split: if_splits prod.splits sum.splits)
    then show ?thesis unfolding row_settled_def r using answered_one by (intro exI conjI) auto
  next
    case 2
    then obtain out where "mc_log s' = mc_log s @ [(None, recovery_command args row, [], Inr (0, out))]"
      "completed_row py r out = Inr True"
      unfolding import_row_def r by (auto simp: abind_Inr ask_Inr run_program_Inr split: if_splits)
    then show ?thesis unfolding row_settled_def r using answered_one by (intro exI conjI) auto
  qed
qed

text \<open>How far the checkpoint has come after the loop.\<close>

definition passed_rows :: "pylib \<Rightarrow> recovery_batch_args \<Rightarrow> large_row list \<Rightarrow> nat \<Rightarrow> 'w machine \<Rightarrow> 'w machine \<Rightarrow> bool" where
  "passed_rows py args rs cursor s s' \<longleftrightarrow>
     (\<exists>k l. 0 < k \<and> k \<le> length rs \<and> mc_log s' = mc_log s @ l \<and> (\<forall>j < k. row_settled py args l (rs ! j)) \<and>
        map_of (mc_fs s') (batch_checkpoint args) =
          Some (File (json_text py (batch_record args (cursor + k) (fst (rs ! (k - 1)))))))"

lemma settled_one:
  assumes "mc_log s1 = mc_log s @ l1" and "row_settled py args l1 r"
    and "map_of (mc_fs s') (batch_checkpoint args) = Some (File (json_text py (batch_record args (cursor + 1) (fst r))))"
    and "mc_log s' = mc_log s1 @ l2"
  shows "passed_rows py args (r # rs) cursor s s'"
  unfolding passed_rows_def
  by (intro exI [of _ "Suc 0"] exI [of _ "l1 @ l2"]) (use assms row_settled_append in auto)

lemma passed_more:
  assumes "mc_log s1 = mc_log s @ l1" and "row_settled py args l1 r" and "passed_rows py args rs (cursor + 1) s1 s'"
  shows "passed_rows py args (r # rs) cursor s s'"
proof -
  from assms(3) obtain k l where k: "0 < k" "k \<le> length rs" "mc_log s' = mc_log s1 @ l"
    "\<forall>j < k. row_settled py args l (rs ! j)"
    "map_of (mc_fs s') (batch_checkpoint args) = Some (File (json_text py (batch_record args (cursor + 1 + k) (fst (rs ! (k - 1))))))"
    unfolding passed_rows_def by blast
  have "row_settled py args (l1 @ l) ((r # rs) ! j)" if "j < Suc k" for j
    using that assms(2) k(4) row_settled_append by (cases j) auto
  moreover have "(r # rs) ! (Suc k - 1) = rs ! (k - 1)" using k(1) by (cases k) auto
  ultimately show ?thesis
    unfolding passed_rows_def using k(2,3,5) assms(1)
    by (intro exI [of _ "Suc k"] exI [of _ "l1 @ l"]) auto
qed

lemma checkpoint_temp [simp]: "partial_name (batch_checkpoint args) tag \<noteq> batch_checkpoint args"
  by (simp add: batch_checkpoint_def partial_name_def)

lemma batch_loop_passes:
  fixes prog :: "'w program"
  assumes "batch_loop py prog args n rs cursor imported skipped s = (r, s')"
    and "\<forall>c. prog_keeps (\<lambda>fs. map_of fs (batch_checkpoint args) = c) prog"
  shows "(\<exists>l. mc_log s' = mc_log s @ l) \<and>
    (map_of (mc_fs s') (batch_checkpoint args) = map_of (mc_fs s) (batch_checkpoint args) \<or> passed_rows py args rs cursor s s')"
  using assms(1)
proof (induction rs arbitrary: cursor imported skipped s)
  case Nil
  then show ?case by simp
next
  case (Cons row rs)
  let ?cp = "batch_checkpoint args"
  show ?case
  proof (cases "int imported < ba_max_new args")
    case False
    then show ?thesis using Cons.prems by simp
  next
    case True
    obtain r1 s1 where one: "advance_row py prog args row s = (r1, s1)" by (metis surj_pair)
    have k: "keeps (after (mc_log s) (\<lambda>fs. map_of fs ?cp = map_of (mc_fs s) ?cp)) (advance_row py prog args row)"
      by (rule keeps_advance_row) (use assms(2) in blast)
    have s1: "map_of (mc_fs s1) ?cp = map_of (mc_fs s) ?cp" "\<exists>l. mc_log s1 = mc_log s @ l"
      using keepsD [OF k after_refl one] by (auto simp: after_def)
    consider e where "r1 = Inl e" | "r1 = Inr Waiting" | outcome where "r1 = Inr outcome" "outcome \<noteq> Waiting" by (cases r1) auto
    then show ?thesis
    proof cases
      case 1
      then show ?thesis using Cons.prems True one s1 by (auto simp: abind_def)
    next
      case 2
      then show ?thesis using Cons.prems True one s1 by (auto simp: abind_def)
    next
      case 3
      from advance_row_Inr [of py prog args row s outcome s1] one 3 obtain l1 where
        l1: "mc_log s1 = mc_log s @ l1" "row_settled py args l1 row" by auto
      let ?v = "batch_record args (cursor + 1) (fst row)"
      obtain r2 fs where save: "atomic_json py ?cp (ba_uuid args cursor) ?v (mc_fs s1) = (r2, fs)" by (metis surj_pair)
      define s2 where "s2 = s1\<lparr>mc_fs := fs\<rparr>"
      show ?thesis
      proof (cases r2)
        case (Inl e)
        then have "fs = mc_fs s1" using save by (auto simp: atomic_json_def Let_def split: if_splits)
        then show ?thesis using Cons.prems True one 3 save Inl s1 by (auto simp: abind_def on_disk_def)
      next
        case (Inr u)
        then have cp: "map_of (mc_fs s2) ?cp = Some (File (json_text py ?v))"
          using save by (auto simp: atomic_json_def Let_def s2_def split: if_splits)
        obtain imported' skipped' where rest: "batch_loop py prog args n rs (cursor + 1) imported' skipped' s2 = (r, s')"
          using Cons.prems True one 3 save Inr by (auto simp: abind_def on_disk_def s2_def split: if_splits)
        from Cons.IH [OF rest] obtain l2 where l2: "mc_log s' = mc_log s2 @ l2"
          and ih: "map_of (mc_fs s') ?cp = map_of (mc_fs s2) ?cp \<or> passed_rows py args rs (cursor + 1) s2 s'" by blast
        have log: "mc_log s2 = mc_log s @ l1" using l1(1) by (simp add: s2_def)
        have "passed_rows py args (row # rs) cursor s s'"
          using ih settled_one [OF log l1(2) _ l2] passed_more [OF log l1(2)] cp by auto
        then show ?thesis using l2 log by auto
      qed
    qed
  qed
qed

section \<open>Properties\<close>

text \<open>C23: the cursor of the large-block importer only passes settled blocks. However a run ends, the checkpoint on
  disk is the old one, or the record of a cursor further on; then each block of the plan of the declared
  inventory between the two was listed as directly pinned by the daemon, or reported complete by the
  recovery program, during this run. Programs may do anything but write the checkpoint.\<close>

theorem batch_cursor_passes_only_settled_rows:
  assumes "advance_recovery py prog args s = (r, s')"
    and "\<forall>c. prog_keeps (\<lambda>fs. map_of fs (batch_checkpoint args) = c) prog"
    and "batch_checkpoint args \<notin> set (ancestors (ba_receipt_dir args))"
  shows "map_of (mc_fs s') (batch_checkpoint args) = map_of (mc_fs s) (batch_checkpoint args) \<or>
    (\<exists>rows cursor k l. batch_rows py args (mc_fs s) = Inr rows \<and> batch_cursor py args (length rows) (mc_fs s) = Inr cursor \<and>
       0 < k \<and> cursor + k \<le> length rows \<and> mc_log s' = mc_log s @ l \<and>
       map_of (mc_fs s') (batch_checkpoint args) =
         Some (File (json_text py (batch_record args (cursor + k) (fst (rows ! (cursor + k - 1)))))) \<and>
       (\<forall>i. cursor \<le> i \<and> i < cursor + k \<longrightarrow> row_settled py args l (rows ! i)))"
proof -
  let ?cp = "batch_checkpoint args"
  let ?Q = "\<lambda>fs. map_of fs ?cp = map_of (mc_fs s) ?cp"
  let ?lock = "take_lock (ba_state_dir args @ [''import.lock'']) (ba_locked args) (BatchError ''large recovery batch already running'')"
  have apart: "?cp \<notin> set (ancestors (ba_state_dir args))" "?cp \<noteq> ba_state_dir args @ [''import.lock'']"
    using ancestors_length [of ?cp "ba_state_dir args"] by (auto simp: batch_checkpoint_def)
  show ?thesis
  proof (cases "batch_rows py args (mc_fs s)")
    case (Inl e)
    then show ?thesis using assms(1) by (auto simp: advance_recovery_def abind_def ask_def)
  next
    case (Inr rows)
    obtain r1 f1 where d1: "amkdirs (ba_state_dir args) (mc_fs s) = (r1, f1)" by (metis surj_pair)
    obtain r2 f2 where d2: "amkdirs (ba_receipt_dir args) f1 = (r2, f2)" by (metis surj_pair)
    obtain r3 f3 where d3: "?lock f2 = (r3, f3)" by (metis surj_pair)
    have q1: "?Q f1" using keepsD [OF keeps_amkdirs [OF apart(1)] _ d1] by simp
    from keepsD [OF keeps_amkdirs [OF assms(3)] q1 d2] have q2: "?Q f2" .
    from keepsD [OF keeps_take_lock [OF apart(2)] q2 d3] have q3: "?Q f3" .
    let ?s3 = "s\<lparr>mc_fs := f3\<rparr>"
    have cursor: "batch_cursor py args (length rows) f3 = batch_cursor py args (length rows) (mc_fs s)"
      using query_cong [OF q3] by (simp add: batch_cursor_def Let_def)
    show ?thesis
    proof (cases "is_ok r1 \<and> is_ok r2 \<and> is_ok r3 \<and> is_ok (batch_cursor py args (length rows) f3)")
      case False
      then have "mc_fs s' = f1 \<or> mc_fs s' = f2 \<or> mc_fs s' = f3" using assms(1) Inr d1 d2 d3
        by (auto simp: advance_recovery_def abind_def ask_def on_disk_def is_ok_iff split: sum.splits)
      then show ?thesis using q1 q2 q3 by auto
    next
      case True
      then obtain c where c: "batch_cursor py args (length rows) f3 = Inr c" by (auto simp: is_ok_iff)
      then have run: "batch_loop py prog args (length rows) (drop c rows) c 0 0 ?s3 = (r, s')"
        using assms(1) Inr d1 d2 d3 True by (auto simp: advance_recovery_def abind_def ask_def on_disk_def is_ok_iff)
      from batch_loop_passes [OF run assms(2)] q3
      have "?Q (mc_fs s') \<or> passed_rows py args (drop c rows) c ?s3 s'" by simp
      then show ?thesis
      proof
        assume "passed_rows py args (drop c rows) c ?s3 s'"
        then obtain k l where k: "0 < k" "k \<le> length rows - c" "mc_log s' = mc_log s @ l"
          "\<forall>j < k. row_settled py args l (drop c rows ! j)"
          "map_of (mc_fs s') ?cp = Some (File (json_text py (batch_record args (c + k) (fst (drop c rows ! (k - 1))))))"
          unfolding passed_rows_def by auto
        have nth: "drop c rows ! j = rows ! (c + j)" if "j < k" for j using that k(2) by simp
        have le: "c + k \<le> length rows" using k(1,2) by linarith
        have settled: "\<forall>i. c \<le> i \<and> i < c + k \<longrightarrow> row_settled py args l (rows ! i)"
        proof (intro allI impI)
          fix i assume i: "c \<le> i \<and> i < c + k"
          then have "i - c < k" "c + (i - c) = i" by linarith+
          then show "row_settled py args l (rows ! i)" using k(4) nth by metis
        qed
        have "c + (k - 1) = c + k - 1" "k - 1 < k" using k(1) by linarith+
        then have cp: "map_of (mc_fs s') ?cp = Some (File (json_text py (batch_record args (c + k) (fst (rows ! (c + k - 1))))))"
          using k(5) nth [of "k - 1"] by simp
        have c': "batch_cursor py args (length rows) (mc_fs s) = Inr c" using c cursor by simp
        show ?thesis using Inr c' k(1) le k(3) cp settled by blast
      qed simp
    qed
  qed
qed

section \<open>A concrete run\<close>

definition toy_batch :: recovery_batch_args where
  "toy_batch = \<lparr>ba_inventory = [''inv''], ba_sha256 = hex (replicate 32 7), ba_count = 1, ba_expected_count = 1,
     ba_expected_bytes = 8000001, ba_archive = [''a''], ba_receipt_dir = [''r''], ba_state_dir = [''st''], ba_importer = [''i''],
     ba_ipfs_bin = [''ipfs''], ba_ipfs_path = [''repo''], ba_min_free_bytes = 0, ba_max_new = 5, ba_python = ''py'',
     ba_identity = \<lparr>st_ino = 1, st_size = 2, st_mtime_ns = 3\<rparr>, ba_repository = ''/repo'', ba_uuid = dec_text, ba_locked = False\<rparr>"

definition importer_prog :: "unit program" where
  "importer_prog repo argv data s =
     (Inr (0, ascii ''R''), write_node [''r'', ''row-0-jacob-import.json''] (File [82]) (fst s), snd s)"

definition batch_start :: "unit machine" where
  "batch_start = \<lparr>mc_fs = [([''inv''], File [1, 10]), ([''a'', ''row-0-recovery.car''], File [9]),
     ([''a'', ''row-0-recovery.car.json''], File [83])], mc_world = (), mc_log = []\<rparr>"

definition batch_end :: "unit machine" where "batch_end = snd (advance_recovery recovery_py importer_prog toy_batch batch_start)"

lemma toy_advanced:
  "map_of (mc_fs batch_end) (batch_checkpoint toy_batch) \<noteq> map_of (mc_fs batch_start) (batch_checkpoint toy_batch)"
  "batch_checkpoint toy_batch \<notin> set (ancestors (ba_receipt_dir toy_batch))"
  by code_simp+

theorem batch_cursor_passes_only_settled_rows_witness:
  "\<exists>rows cursor l. batch_rows recovery_py toy_batch (mc_fs batch_start) = Inr rows \<and>
     batch_cursor recovery_py toy_batch (length rows) (mc_fs batch_start) = Inr cursor \<and> row_settled recovery_py toy_batch l (rows ! cursor)"
proof -
  have run: "advance_recovery recovery_py importer_prog toy_batch batch_start =
    (fst (advance_recovery recovery_py importer_prog toy_batch batch_start), batch_end)" by (simp add: batch_end_def)
  have quiet: "\<forall>c. prog_keeps (\<lambda>fs. map_of fs (batch_checkpoint toy_batch) = c) importer_prog"
    by (simp add: prog_keeps_def importer_prog_def batch_checkpoint_def toy_batch_def)
  from batch_cursor_passes_only_settled_rows [OF run quiet toy_advanced(2)] toy_advanced(1)
  obtain rows cursor k l where "batch_rows recovery_py toy_batch (mc_fs batch_start) = Inr rows"
    "batch_cursor recovery_py toy_batch (length rows) (mc_fs batch_start) = Inr cursor" "0 < k"
    "\<forall>i. cursor \<le> i \<and> i < cursor + k \<longrightarrow> row_settled recovery_py toy_batch l (rows ! i)" by blast
  then show ?thesis by (metis le_refl less_add_same_cancel1)
qed

end
