(* ===== verification/Large_Export.thy ===== *)
theory Large_Export
  imports Large_Recovery
begin

text \<open>
  \<open>deploy/export_large_lake_block.py\<close>: one oversized block is fetched, checked against its CID, packed as
  UnixFS into a CAR, restored from this CAR in a second fresh repository, and only then published with its
  receipt. Shown: an export publishes both files or neither; what it publishes has been restored to bytes
  with the size and digest of the row and to the row's CID; and the recovery program accepts the receipt if
  the CID has version 1, and refuses it otherwise.
\<close>

text \<open>The operations that publish a file; \<open>lx_fails\<close> says which of them fail with an \<open>OSError\<close> of their own
  (no space, no permission, a full journal), beside those that find their target there already.\<close>

datatype publish_op = Copy_Car | Write_Receipt | Link_Car | Link_Receipt | Open_Directory | Sync_Directory

record large_args =
  lx_inventory :: path
  lx_sha256 :: string
  lx_count :: int
  lx_row :: int
  lx_base_url :: string
  lx_ipfs_bin :: path
  lx_output :: path
  lx_tmp :: path
  lx_tag :: string
  lx_urlsplit :: "string \<Rightarrow> split_url"
  lx_identity :: file_identity
  lx_fails :: "publish_op \<Rightarrow> bool"

definition MIN_LARGE_BLOCK :: int where "MIN_LARGE_BLOCK = 8000000"

section \<open>Programs and files\<close>

definition run_large :: "'w program \<Rightarrow> string option \<Rightarrow> string list \<Rightarrow> ('w machine, bytes) action" where
  "run_large prog repo argv =
     run_program (LargeExportError (''command failed to run: '' @ hd argv)) (LargeExportError (''command refused: '' @ hd argv))
       prog repo argv []"

definition digest_within :: "pylib \<Rightarrow> path \<Rightarrow> int \<Rightarrow> fs \<Rightarrow> (int \<times> bytes) res" where
  "digest_within py p ceiling fs =
     rbind (read_bytes fs p) (\<lambda>data.
     if ceiling < int (length data) then Inl (LargeExportError ''file exceeds byte ceiling'')
     else Inr (int (length data), sha256 py data))"

section \<open>The source\<close>

definition host_char :: "char \<Rightarrow> bool" where
  "host_char c \<longleftrightarrow> is_alnum c \<or> c = CHR ''.'' \<or> c = CHR ''-''"

definition checked_source_url :: "large_args \<Rightarrow> string \<Rightarrow> string res" where
  "checked_source_url args cid =
     (let u = lx_urlsplit args (lx_base_url args);
          remote_https = url_scheme u = ''https'' \<and>
            (case url_hostname u of None \<Rightarrow> False | Some h \<Rightarrow> h \<noteq> [] \<and> list_all host_char h);
          local_http = url_scheme u = ''http'' \<and> url_hostname u = Some ''127.0.0.1'' \<and> url_port u \<noteq> None in
      if \<not> (remote_https \<or> local_http) \<or> url_path u \<noteq> ''/ipfs/'' \<or> url_query u \<noteq> [] \<or> url_fragment u \<noteq> [] \<or>
        \<not> empty_text (url_username u) \<or> \<not> empty_text (url_password u)
      then Inl (LargeExportError ''source must be HTTPS or loopback HTTP /ipfs/ gateway base'')
      else Inr (lx_base_url args @ cid))"

definition source_curl_argv :: "large_args \<Rightarrow> string \<Rightarrow> int \<Rightarrow> path \<Rightarrow> string list" where
  "source_curl_argv args url n output =
     (let local_http = url_scheme (lx_urlsplit args url) = ''http'' in
      [''curl'', ''-fsS'', ''--proto'', if local_http then ''=http'' else ''=https''] @
      (if local_http then [''--noproxy'', ''*''] else []) @
      [''--max-redirs'', ''0'', ''--connect-timeout'', ''5'', ''--max-time'', ''300'', ''--max-filesize'', dec_text (nat n),
       ''--output'', path_str output, url])"

text \<open>The row; the inventory may have been loaded by the caller.\<close>

definition large_row_of :: "pylib \<Rightarrow> large_args \<Rightarrow> inventory option \<Rightarrow> fs \<Rightarrow> (string \<times> int) res" where
  "large_row_of py args given fs =
     rbind (read_bytes fs (lx_inventory args)) (\<lambda>content.
     rbind (case given of Some ivt \<Rightarrow> Inr ivt
       | None \<Rightarrow> load_inventory py content (lx_identity args) (lx_sha256 args) (lx_count args)) (\<lambda>ivt.
     if \<not> (0 \<le> lx_row args \<and> lx_row args < int (length (inv_offsets ivt)))
     then Inl (LargeExportError ''row outside immutable inventory'')
     else
       rbind (row_values py (read_line (drop (inv_offsets ivt ! nat (lx_row args)) content))) (\<lambda>(cid, n).
       case (as_str cid, as_int n) of
         (Some cid, Some n) \<Rightarrow>
           if \<not> (MIN_LARGE_BLOCK < n \<and> n \<le> int MAX_BLOCK) then Inl (LargeExportError ''row is outside oversized-block bounds'')
           else rbind (sha256_digest cid) (\<lambda>_. Inr (cid, n))
       | _ \<Rightarrow> Inl TypeError)))"

section \<open>Packing and restoring\<close>

text \<open>\<open>fresh_repo\<close>: the value is the \<open>IPFS_PATH\<close> of the new repository.\<close>

definition fresh_repo :: "'w program \<Rightarrow> large_args \<Rightarrow> string \<Rightarrow> ('w machine, string) action" where
  "fresh_repo prog args name =
     (let repo = path_str (lx_tmp args @ [name]) in
      abind (run_large prog (Some repo) [path_str (lx_ipfs_bin args), ''init'', ''--profile=server'']) (\<lambda>_. areturn repo))"

definition fetch_source :: "pylib \<Rightarrow> 'w program \<Rightarrow> large_args \<Rightarrow> string \<Rightarrow> string \<Rightarrow> int \<Rightarrow> ('w machine, bytes) action" where
  "fetch_source py prog args url cid n =
     (let source = lx_tmp args @ [''source.block''] in
      abind (run_large prog None (source_curl_argv args url n source)) (\<lambda>_.
      abind (ask (digest_within py source (int MAX_BLOCK))) (\<lambda>(actual, digest).
      abind (alift (sha256_digest cid)) (\<lambda>expected.
      if actual \<noteq> n \<or> digest \<noteq> expected then araise (LargeExportError ''source byte count or CID digest differs'')
      else areturn digest))))"

definition pack_source :: "pylib \<Rightarrow> 'w program \<Rightarrow> large_args \<Rightarrow> ('w machine, string \<times> int \<times> bytes) action" where
  "pack_source py prog args =
     (let ipfs = path_str (lx_ipfs_bin args); car = lx_tmp args @ [''recovery.car''] in
      abind (fresh_repo prog args ''source-repo'') (\<lambda>repo.
      abind (run_large prog (Some repo) [ipfs, ''add'', ''--cid-version=1'', ''--raw-leaves'', ''--chunker=size-262144'',
          ''--quiet'', path_str (lx_tmp args @ [''source.block''])]) (\<lambda>out.
      let root_cid = strip (text_of out) in
      if \<not> match_cid_v1 root_cid then araise (LargeExportError ''UnixFS root CID is invalid'')
      else
        abind (stdout_to car (run_large prog (Some repo) [ipfs, ''dag'', ''export'', root_cid])) (\<lambda>_.
        abind (ask (digest_within py car MAX_CAR)) (\<lambda>(car_bytes, car_digest).
        areturn (root_cid, car_bytes, car_digest))))))"

text \<open>How the block is put back under its own CID.\<close>

definition put_original :: "'w program \<Rightarrow> large_args \<Rightarrow> string \<Rightarrow> string \<Rightarrow> path \<Rightarrow> ('w machine, string list) action" where
  "put_original prog args repo cid restored =
     (let ipfs = path_str (lx_ipfs_bin args) in
      if take 2 cid = ''Qm'' then
        areturn [ipfs, ''block'', ''put'', ''--format=v0'', ''--allow-big-block'', path_str restored]
      else
        abind (run_large prog (Some repo) [ipfs, ''cid'', ''format'', ''-f'', ''%c %h %L'', cid]) (\<lambda>out.
        let prefix = py_split (strip (text_of out)) in
        if length prefix \<noteq> 3 \<or> prefix ! 1 \<noteq> ''sha2-256'' \<or> prefix ! 2 \<noteq> ''32''
        then araise (LargeExportError ''original CID prefix is unsupported'')
        else areturn [ipfs, ''block'', ''put'', ''--cid-codec='' @ prefix ! 0, ''--mhtype=sha2-256'', ''--allow-big-block'',
          path_str restored]))"

definition restore_original ::
    "pylib \<Rightarrow> 'w program \<Rightarrow> large_args \<Rightarrow> path \<Rightarrow> string \<Rightarrow> string \<Rightarrow> int \<Rightarrow> bytes \<Rightarrow> ('w machine, unit) action" where
  "restore_original py prog args car root_cid original_cid expected_size expected_digest =
     (let ipfs = path_str (lx_ipfs_bin args); restored = lx_tmp args @ [''restored.block''] in
      abind (fresh_repo prog args ''restore-repo'') (\<lambda>repo.
      abind (run_large prog (Some repo) [ipfs, ''dag'', ''import'', path_str car]) (\<lambda>_.
      abind (stdout_to restored (run_large prog (Some repo) [ipfs, ''--offline'', ''cat'', root_cid])) (\<lambda>_.
      abind (ask (digest_within py restored (int MAX_BLOCK))) (\<lambda>(n, digest).
      if n \<noteq> expected_size \<or> digest \<noteq> expected_digest
      then araise (LargeExportError ''offline UnixFS recovery differs from original CID bytes'')
      else
        abind (put_original prog args repo original_cid restored) (\<lambda>put.
        abind (run_large prog (Some repo) put) (\<lambda>out.
        if strip (text_of out) \<noteq> original_cid then araise (LargeExportError ''rehydrated original CID differs'')
        else areturn ())))))))"

section \<open>Publishing\<close>

definition large_record :: "large_args \<Rightarrow> string \<Rightarrow> int \<Rightarrow> bytes \<Rightarrow> string \<Rightarrow> int \<Rightarrow> bytes \<Rightarrow> json" where
  "large_record args cid n digest root_cid car_bytes car_digest =
     JDict [(''schema'', JInt 1), (''inventory_sha256'', JStr (lx_sha256 args)), (''row'', JInt (lx_row args)),
       (''original_cid'', JStr cid), (''original_bytes'', JInt n), (''original_sha256'', JStr (hex digest)),
       (''recovery_root'', JStr root_cid), (''car_bytes'', JInt car_bytes), (''car_sha256'', JStr (hex car_digest)),
       (''validation'', JStr rehydration)]"

definition with_json :: "path \<Rightarrow> path" where
  "with_json p = butlast p @ [last p @ ''.json'']"

text \<open>The \<open>try\<close>: the receipt beside the output, the two links and the synchronisation of the directory. What was
  published is taken back when one of them fails, the receipt first.\<close>

definition publish_files :: "(publish_op \<Rightarrow> bool) \<Rightarrow> path \<Rightarrow> path \<Rightarrow> path \<Rightarrow> bytes \<Rightarrow> bytes \<Rightarrow> (fs, unit) action" where
  "publish_files fails pending output receipt car text fs =
     (let fs1 = write_node (with_json pending) (File text) fs in
      if map_of fs (with_json pending) \<noteq> None then (Inl OSError, fs)
      else if fails Write_Receipt \<or> fails Link_Car \<or> map_of fs1 output \<noteq> None then (Inl OSError, fs1)
      else
        let fs2 = write_node output (File car) fs1 in
        if fails Link_Receipt \<or> map_of fs2 receipt \<noteq> None then (Inl OSError, unlink output fs2)
        else
          let fs3 = write_node receipt (File text) fs2 in
          if fails Open_Directory \<or> fails Sync_Directory then (Inl OSError, unlink output (unlink receipt fs3))
          else (Inr (), fs3))"

text \<open>Around it: the copy of the CAR (a new file, which stays when the copy fails), and the \<open>finally\<close>.\<close>

definition publish_export :: "pylib \<Rightarrow> large_args \<Rightarrow> path \<Rightarrow> json \<Rightarrow> (fs, unit) action" where
  "publish_export py args car record =
     (let pending = partial_name (lx_output args) (lx_tag args) in
      abind (\<lambda>fs. if map_of fs pending \<noteq> None then (Inl OSError, fs) else (Inr (), fs)) (\<lambda>_.
      abind (awrite pending []) (\<lambda>_.
      abind (aread car) (\<lambda>data.
      abind (if lx_fails args Copy_Car then araise OSError else awrite pending data) (\<lambda>_.
      afinally (publish_files (lx_fails args) pending (lx_output args) (with_json (lx_output args)) data (json_text py record))
        (\<lambda>fs. unlink (with_json pending) (unlink pending fs)))))))"

section \<open>One export\<close>

text \<open>Leaving the temporary directory removes it and all below it.\<close>

definition remove_tree :: "path \<Rightarrow> fs \<Rightarrow> fs" where
  "remove_tree dir fs = filter (\<lambda>(p, _). take (length dir) p \<noteq> dir) fs"

definition export_checked ::
    "pylib \<Rightarrow> 'w program \<Rightarrow> large_args \<Rightarrow> string \<Rightarrow> string \<Rightarrow> int \<Rightarrow> ('w machine, json) action" where
  "export_checked py prog args url cid n =
     abind (fetch_source py prog args url cid n) (\<lambda>digest.
     abind (pack_source py prog args) (\<lambda>(root_cid, car_bytes, car_digest).
     abind (restore_original py prog args (lx_tmp args @ [''recovery.car'']) root_cid cid n digest) (\<lambda>_.
     let record = large_record args cid n digest root_cid car_bytes car_digest in
     abind (on_disk (publish_export py args (lx_tmp args @ [''recovery.car'']) record)) (\<lambda>_.
     areturn record))))"

definition export_inputs :: "pylib \<Rightarrow> large_args \<Rightarrow> inventory option \<Rightarrow> fs \<Rightarrow> (string \<times> string \<times> int) res" where
  "export_inputs py args given fs =
     (if \<not> is_file fs (lx_ipfs_bin args) then Inl (LargeExportError ''Kubo binary does not exist'')
      else
        rbind (large_row_of py args given fs) (\<lambda>(cid, n).
        if exists_path fs (lx_output args) \<or> exists_path fs (with_json (lx_output args))
        then Inl (LargeExportError ''output or receipt already exists'')
        else rbind (checked_source_url args cid) (\<lambda>url. Inr (url, cid, n))))"

definition export_large ::
    "pylib \<Rightarrow> 'w program \<Rightarrow> large_args \<Rightarrow> inventory option \<Rightarrow> ('w machine, json) action" where
  "export_large py prog args given =
     abind (ask (export_inputs py args given)) (\<lambda>(url, cid, n).
     afinally (abind (on_disk (\<lambda>fs. (Inr (), write_node (lx_tmp args) Dir fs))) (\<lambda>_. export_checked py prog args url cid n))
       (\<lambda>s. s\<lparr>mc_fs := remove_tree (lx_tmp args) (mc_fs s)\<rparr>))"

text \<open>The exit status; an exception that is not caught ends the interpreter with status 1.\<close>

fun export_refused :: "exn \<Rightarrow> bool" where
  "export_refused (LargeExportError _) = True"
| "export_refused (InventoryError _) = True"
| "export_refused OSError = True"
| "export_refused ValueError = True"
| "export_refused _ = False"

definition large_export_main :: "pylib \<Rightarrow> 'w program \<Rightarrow> large_args \<Rightarrow> ('w machine, int) action" where
  "large_export_main py prog args s =
     (case export_large py prog args None s of
        (Inl e, s') \<Rightarrow> (Inr (if export_refused e then 2 else 1), s') | (Inr _, s') \<Rightarrow> (Inr 0, s'))"

section \<open>Names\<close>

lemma with_json_apart [simp]: "with_json p \<noteq> p"
proof -
  have "last (with_json p) \<noteq> last p" by (simp add: with_json_def)
  then show ?thesis by metis
qed

lemma pending_apart [simp]:
  "partial_name p tag \<noteq> p" "partial_name p tag \<noteq> with_json p" "with_json (partial_name p tag) \<noteq> p"
  "with_json (partial_name p tag) \<noteq> with_json p" "with_json (partial_name p tag) \<noteq> partial_name p tag"
proof -
  have len: "length (last (partial_name p tag)) = length (last p) + length tag + 9" "length (last (with_json p)) = length (last p) + 5"
    for p by (simp_all add: partial_name_def with_json_def)
  have "partial_name p tag = p \<Longrightarrow> False" using len(1) [of p] by simp
  then show "partial_name p tag \<noteq> p" by blast
  have "partial_name p tag = with_json p \<Longrightarrow> False" using len(1) [of p] len(2) [of p] by simp
  then show "partial_name p tag \<noteq> with_json p" by blast
  have "with_json (partial_name p tag) = p \<Longrightarrow> False" using len(1) [of p] len(2) [of "partial_name p tag"] by simp
  then show "with_json (partial_name p tag) \<noteq> p" by blast
  have "with_json (partial_name p tag) = with_json p \<Longrightarrow> False"
    using len(1) [of p] len(2) [of "partial_name p tag"] len(2) [of p] by simp
  then show "with_json (partial_name p tag) \<noteq> with_json p" by blast
  show "with_json (partial_name p tag) \<noteq> partial_name p tag" by simp
qed

text \<open>A path outside the temporary directory.\<close>

definition outside :: "large_args \<Rightarrow> path \<Rightarrow> bool" where
  "outside args p \<longleftrightarrow> take (length (lx_tmp args)) p \<noteq> lx_tmp args"

lemma outside_apart: "outside args p \<Longrightarrow> p \<noteq> lx_tmp args @ q" "outside args p \<Longrightarrow> p \<noteq> lx_tmp args"
  by (auto simp: outside_def)

lemma map_of_remove_tree:
  "map_of (remove_tree dir fs) p = (if take (length dir) p = dir then None else map_of fs p)"
  by (induction fs) (auto simp: remove_tree_def)

section \<open>What an export leaves alone\<close>

lemma keeps_run_large [keeps_intros]: "prog_keeps Q prog \<Longrightarrow> keeps (after log Q) (run_large prog repo argv)"
  unfolding run_large_def by (intro keeps_intros)

lemma keeps_awrite: "q \<noteq> p \<Longrightarrow> keeps (\<lambda>fs. map_of fs q = c) (awrite p d)"
  by (simp add: keeps_def awrite_def)

lemma keeps_stdout_to [keeps_intros]:
  "q \<noteq> p \<Longrightarrow> keeps (after log (\<lambda>fs. map_of fs q = c)) run \<Longrightarrow> keeps (after log (\<lambda>fs. map_of fs q = c)) (stdout_to p run)"
  unfolding stdout_to_def by (intro keeps_intros keeps_on_disk keeps_awrite)

lemma keeps_fresh_repo [keeps_intros]: "prog_keeps Q prog \<Longrightarrow> keeps (after log Q) (fresh_repo prog args name)"
  unfolding fresh_repo_def Let_def by (intro keeps_intros)

lemma keeps_put_original [keeps_intros]:
  "prog_keeps Q prog \<Longrightarrow> keeps (after log Q) (put_original prog args repo cid restored)"
  unfolding put_original_def Let_def by (intro keeps_intros)

lemma keeps_restore_original:
  assumes "prog_keeps (\<lambda>fs. map_of fs q = c) prog" and "q \<noteq> lx_tmp args @ [''restored.block'']"
  shows "keeps (after log (\<lambda>fs. map_of fs q = c)) (restore_original py prog args car root_cid cid n digest)"
  unfolding restore_original_def Let_def by (intro keeps_intros assms)

lemma keeps_pack_source:
  assumes "prog_keeps (\<lambda>fs. map_of fs q = c) prog" and "q \<noteq> lx_tmp args @ [''recovery.car'']"
  shows "keeps (after log (\<lambda>fs. map_of fs q = c)) (pack_source py prog args)"
  unfolding pack_source_def Let_def by (intro keeps_intros assms)

lemma keeps_fetch_source [keeps_intros]:
  "prog_keeps Q prog \<Longrightarrow> keeps (after log Q) (fetch_source py prog args url cid n)"
  unfolding fetch_source_def Let_def by (intro keeps_intros)

text \<open>Publishing makes both files or leaves both as they were.\<close>

lemma publish_files_outcome:
  assumes "publish_files fails pending output (with_json output) car text fs = (r, fs')" and "pending = partial_name output tag"
  shows "case r of
      Inl e \<Rightarrow> map_of fs' output = map_of fs output \<and> map_of fs' (with_json output) = map_of fs (with_json output)
    | Inr _ \<Rightarrow> map_of fs' output = Some (File car) \<and> map_of fs' (with_json output) = Some (File text)"
  using assms(1) pending_apart [of "output" tag, THEN not_sym] with_json_apart [of "output", THEN not_sym]
  unfolding publish_files_def Let_def assms(2) by (auto split: if_splits)

lemma publish_export_outcome:
  assumes "publish_export py args car record fs = (r, fs')" and "car \<noteq> partial_name (lx_output args) (lx_tag args)"
  shows "case r of
      Inl e \<Rightarrow> map_of fs' (lx_output args) = map_of fs (lx_output args) \<and>
        map_of fs' (with_json (lx_output args)) = map_of fs (with_json (lx_output args))
    | Inr _ \<Rightarrow> (\<exists>data. read_bytes fs car = Inr data \<and> map_of fs' (lx_output args) = Some (File data)) \<and>
        map_of fs' (with_json (lx_output args)) = Some (File (json_text py record))"
proof -
  let ?out = "lx_output args" and ?pending = "partial_name (lx_output args) (lx_tag args)"
  let ?f0 = "write_node ?pending (File []) fs"
  note apart = pending_apart [of ?out "lx_tag args"] pending_apart [of ?out "lx_tag args", THEN not_sym]
    with_json_apart [of ?out, THEN not_sym]
  have same: "read_bytes ?f0 car = read_bytes fs car" using assms(2) by (simp add: query_defs)
  show ?thesis
  proof (cases "map_of fs ?pending")
    case (Some x)
    then show ?thesis using assms(1) by (auto simp: publish_export_def abind_def Let_def)
  next
    case None
    show ?thesis
    proof (cases "read_bytes fs car")
      case (Inl e)
      then show ?thesis using assms(1) None same apart
        by (auto simp: publish_export_def abind_def Let_def awrite_def aread_def)
    next
      case data: (Inr data)
      show ?thesis
      proof (cases "lx_fails args Copy_Car")
        case True
        then have "r = Inl OSError" "fs' = ?f0" using assms(1) None same data
          by (auto simp: publish_export_def abind_def Let_def awrite_def aread_def)
        then show ?thesis using apart by simp
      next
        case copied: False
      let ?f1 = "write_node ?pending (File data) ?f0"
      obtain r1 f2 where pub: "publish_files (lx_fails args) ?pending ?out (with_json ?out) data (json_text py record) ?f1 = (r1, f2)"
        by (metis surj_pair)
      have r: "r = r1" "fs' = unlink (with_json ?pending) (unlink ?pending f2)"
        using assms(1) None data copied same pub
        by (auto simp: publish_export_def abind_def Let_def awrite_def aread_def afinally_def)
      from publish_files_outcome [OF pub refl] show ?thesis
        unfolding r using data apart by (auto split: sum.splits)
      qed
    qed
  qed
qed

section \<open>What an export has seen\<close>

lemma run_large_Inr [action_dest]:
  "run_large prog repo argv s = (Inr out, s') \<longleftrightarrow>
     (\<exists>fs w. prog repo argv [] (mc_fs s, mc_world s) = (Inr (0, out), fs, w) \<and>
        s' = s\<lparr>mc_fs := fs, mc_world := w, mc_log := mc_log s @ [(repo, argv, [], Inr (0, out))]\<rparr>)"
  unfolding run_large_def by (simp add: run_program_Inr)

lemma run_large_log: "run_large prog repo argv s = (Inr out, s') \<Longrightarrow> \<exists>l. mc_log s' = mc_log s @ l \<and> answered l repo argv out"
  unfolding run_large_Inr using answered_one by fastforce

definition restore_repo :: "large_args \<Rightarrow> string" where
  "restore_repo args = path_str (lx_tmp args @ [''restore-repo''])"

text \<open>In the second repository the offline daemon gave bytes with the size of the row and the digest of its CID,
  and derived the CID itself when they were put.\<close>

definition rehydrated :: "pylib \<Rightarrow> large_args \<Rightarrow> program_run list \<Rightarrow> string \<Rightarrow> int \<Rightarrow> string \<Rightarrow> bool" where
  "rehydrated py args log cid n root_cid \<longleftrightarrow>
     (\<exists>data. answered log (Some (restore_repo args)) [path_str (lx_ipfs_bin args), ''--offline'', ''cat'', root_cid] data \<and>
        int (length data) = n \<and> sha256_digest cid = Inr (sha256 py data)) \<and>
     (\<exists>how out. answered log (Some (restore_repo args)) (path_str (lx_ipfs_bin args) # ''block'' # ''put'' # how) out \<and>
        strip (text_of out) = cid)"

lemma rehydrated_append: "rehydrated py args l cid n root_cid \<Longrightarrow> rehydrated py args (l0 @ l) cid n root_cid"
  unfolding rehydrated_def by (blast intro: answered_append(2))

lemma stdout_to_Inr:
  assumes "stdout_to p run s = (Inr u, s')"
  obtains out s0 s1 where "mc_log s0 = mc_log s" "run s0 = (Inr out, s1)"
    "s' = s1\<lparr>mc_fs := write_node p (File out) (mc_fs s1)\<rparr>"
proof -
  let ?s0 = "s\<lparr>mc_fs := write_node p (File []) (mc_fs s)\<rparr>"
  from assms obtain out s1 where "run ?s0 = (Inr out, s1)" "s' = s1\<lparr>mc_fs := write_node p (File out) (mc_fs s1)\<rparr>"
    unfolding stdout_to_def by (auto simp: abind_Inr ask_Inr on_disk_Inr awrite_Inr split: if_splits)
  with that [of ?s0] show ?thesis by simp
qed

lemma restore_original_Inr:
  assumes "restore_original py prog args car root_cid cid n digest s = (Inr u, s')" and "sha256_digest cid = Inr digest"
  shows "\<exists>l. mc_log s' = mc_log s @ l \<and> rehydrated py args l cid n root_cid"
proof -
  let ?ipfs = "path_str (lx_ipfs_bin args)" and ?repo = "restore_repo args" and ?restored = "lx_tmp args @ [''restored.block'']"
  from assms(1) obtain s1 out2 s2 s3 put s4 out s5 where
    a: "fresh_repo prog args ''restore-repo'' s = (Inr ?repo, s1)" "run_large prog (Some ?repo) [?ipfs, ''dag'', ''import'', path_str car] s1 = (Inr out2, s2)"
      "stdout_to ?restored (run_large prog (Some ?repo) [?ipfs, ''--offline'', ''cat'', root_cid]) s2 = (Inr (), s3)"
      "digest_within py ?restored (int MAX_BLOCK) (mc_fs s3) = Inr (n, digest)"
      "put_original prog args ?repo cid ?restored s3 = (Inr put, s4)" "run_large prog (Some ?repo) put s4 = (Inr out, s')"
      "strip (text_of out) = cid"
    unfolding restore_original_def Let_def fresh_repo_def restore_repo_def
    by (auto simp: abind_Inr ask_Inr split: if_splits)
  from a(3) obtain data s20 s21 where cat: "mc_log s20 = mc_log s2"
    "run_large prog (Some ?repo) [?ipfs, ''--offline'', ''cat'', root_cid] s20 = (Inr data, s21)"
    "s3 = s21\<lparr>mc_fs := write_node ?restored (File data) (mc_fs s21)\<rparr>" by (rule stdout_to_Inr)
  have d: "int (length data) = n" "sha256 py data = digest" using a(4) cat(3) by (auto simp: digest_within_def split: if_splits)
  from a(1) obtain l1 where l1: "mc_log s1 = mc_log s @ l1"
    unfolding fresh_repo_def Let_def by (auto simp: abind_Inr run_large_Inr)
  from run_large_log [OF a(2)] obtain l2 where l2: "mc_log s2 = mc_log s1 @ l2" by blast
  from run_large_log [OF cat(2)] obtain l3 where l3: "mc_log s21 = mc_log s20 @ l3"
    "answered l3 (Some ?repo) [?ipfs, ''--offline'', ''cat'', root_cid] data" by blast
  have "keeps (after l (\<lambda>_. True)) (put_original prog args ?repo cid ?restored)" for l
    by (intro keeps_intros) (simp add: prog_keeps_def)
  from logged_action [OF this a(5)] obtain l4 where l4: "mc_log s4 = mc_log s3 @ l4" by blast
  from run_large_log [OF a(6)] obtain l5 where l5: "mc_log s' = mc_log s4 @ l5" "answered l5 (Some ?repo) put out" by blast
  obtain how where put: "put = ?ipfs # ''block'' # ''put'' # how"
    using a(5) unfolding put_original_def Let_def by (auto simp: abind_Inr run_large_Inr split: if_splits)
  let ?l = "l1 @ l2 @ l3 @ l4 @ l5"
  have "answered ?l (Some ?repo) [?ipfs, ''--offline'', ''cat'', root_cid] data" "answered ?l (Some ?repo) put out"
    using l3(2) l5(2) by simp_all
  then have "rehydrated py args ?l cid n root_cid"
    unfolding rehydrated_def using d assms(2) put a(7) by blast
  moreover have "mc_log s' = mc_log s @ ?l" using l1 l2 l3(1) l4 l5(1) cat(1,3) by simp
  ultimately show ?thesis by blast
qed

lemma fetch_source_Inr:
  assumes "fetch_source py prog args url cid n s = (Inr digest, s')"
  shows "sha256_digest cid = Inr digest"
  using assms unfolding fetch_source_def Let_def by (auto simp: abind_Inr ask_Inr split: if_splits)

lemma pack_source_Inr:
  assumes "pack_source py prog args s = (Inr (root_cid, car_bytes, car_digest), s')"
  shows "\<exists>car. read_bytes (mc_fs s') (lx_tmp args @ [''recovery.car'']) = Inr car \<and> int (length car) = car_bytes \<and>
    sha256 py car = car_digest \<and> car_bytes \<le> MAX_CAR \<and> match_cid_v1 root_cid"
  using assms unfolding pack_source_def Let_def
  by (auto simp: abind_Inr ask_Inr digest_within_def rbind_eq_Inr split: if_splits)

lemma export_checked_outcome:
  assumes "export_checked py prog args url cid n s = (r, s')"
    and "\<forall>c. prog_keeps (\<lambda>fs. map_of fs (lx_tmp args @ [''recovery.car'']) = c) prog"
    and "\<forall>c. prog_keeps (\<lambda>fs. map_of fs (lx_output args) = c) prog"
    and "\<forall>c. prog_keeps (\<lambda>fs. map_of fs (with_json (lx_output args)) = c) prog"
    and "outside args (lx_output args)" and "outside args (with_json (lx_output args))"
  shows "case r of
      Inl e \<Rightarrow> map_of (mc_fs s') (lx_output args) = map_of (mc_fs s) (lx_output args) \<and>
        map_of (mc_fs s') (with_json (lx_output args)) = map_of (mc_fs s) (with_json (lx_output args))
    | Inr record \<Rightarrow> (\<exists>digest root_cid car l. record = large_record args cid n digest root_cid (int (length car)) (sha256 py car) \<and>
        sha256_digest cid = Inr digest \<and> match_cid_v1 root_cid \<and> int (length car) \<le> MAX_CAR \<and>
        map_of (mc_fs s') (lx_output args) = Some (File car) \<and>
        map_of (mc_fs s') (with_json (lx_output args)) = Some (File (json_text py record)) \<and>
        mc_log s' = mc_log s @ l \<and> rehydrated py args l cid n root_cid)"
proof -
  let ?car = "lx_tmp args @ [''recovery.car'']"
  let ?Q = "\<lambda>p fs. map_of fs p = map_of (mc_fs s) p"
  have ne: "p \<noteq> lx_tmp args @ q" if "p = lx_output args \<or> p = with_json (lx_output args)" for p q
    using that by (elim disjE) (simp_all only: outside_apart(1) [OF assms(5)] outside_apart(1) [OF assms(6)] not_False_eq_True)
  obtain r1 s1 where one: "fetch_source py prog args url cid n s = (r1, s1)" by (metis surj_pair)
  have k1: "keeps (after (mc_log s) (?Q p)) (fetch_source py prog args url cid n)" if "p = lx_output args \<or> p = with_json (lx_output args)" for p
    using that assms(3,4) by (intro keeps_intros) auto
  have q1: "after (mc_log s) (?Q p) s1" if "p = lx_output args \<or> p = with_json (lx_output args)" for p
    using keepsD [OF k1 [OF that] after_refl one] by simp
  show ?thesis
  proof (cases r1)
    case (Inl e)
    then have "r = Inl e" "s' = s1" using assms(1) one by (simp_all add: export_checked_def abind_def)
    then show ?thesis using q1 by (simp add: after_def)
  next
    case (Inr digest)
    obtain r2 s2 where two: "pack_source py prog args s1 = (r2, s2)" by (metis surj_pair)
    have k2: "keeps (after (mc_log s) (?Q p)) (pack_source py prog args)" if "p = lx_output args \<or> p = with_json (lx_output args)" for p
      by (rule keeps_pack_source [OF _ ne [OF that]]) (use that assms(3,4) in auto)
    have q2: "after (mc_log s) (?Q p) s2" if "p = lx_output args \<or> p = with_json (lx_output args)" for p
      using keepsD [OF k2 [OF that] q1 [OF that] two] .
    show ?thesis
    proof (cases r2)
      case (Inl e)
      then have "r = Inl e" "s' = s2" using assms(1) one two \<open>r1 = Inr digest\<close> by (simp_all add: export_checked_def abind_def)
      then show ?thesis using q2 by (simp add: after_def)
    next
      case (Inr x)
      then obtain root_cid car_bytes car_digest where x: "r2 = Inr (root_cid, car_bytes, car_digest)" by (cases x) auto
      from pack_source_Inr two x obtain car where car: "read_bytes (mc_fs s2) ?car = Inr car" "int (length car) = car_bytes"
        "sha256 py car = car_digest" "car_bytes \<le> MAX_CAR" "match_cid_v1 root_cid" by blast
      have digest: "sha256_digest cid = Inr digest" using fetch_source_Inr one \<open>r1 = Inr digest\<close> by blast
      obtain r3 s3 where three: "restore_original py prog args ?car root_cid cid n digest s2 = (r3, s3)" by (metis surj_pair)
      have k3: "keeps (after (mc_log s) (?Q p)) (restore_original py prog args ?car root_cid cid n digest)"
        if "p = lx_output args \<or> p = with_json (lx_output args)" for p
        by (rule keeps_restore_original [OF _ ne [OF that]]) (use that assms(3,4) in auto)
      have q3: "after (mc_log s) (?Q p) s3" if "p = lx_output args \<or> p = with_json (lx_output args)" for p
        using keepsD [OF k3 [OF that] q2 [OF that] three] .
      have kc: "keeps (after (mc_log s2) (\<lambda>fs. map_of fs ?car = map_of (mc_fs s2) ?car)) (restore_original py prog args ?car root_cid cid n digest)"
        using assms(2) by (intro keeps_restore_original) auto
      have "map_of (mc_fs s3) ?car = map_of (mc_fs s2) ?car" using keepsD [OF kc after_refl three] by (simp add: after_def)
      then have car3: "read_bytes (mc_fs s3) ?car = Inr car" using car(1) query_cong by metis
      show ?thesis
      proof (cases r3)
        case (Inl e)
        then have "r = Inl e" "s' = s3" using assms(1) one two three x \<open>r1 = Inr digest\<close>
          by (simp_all add: export_checked_def abind_def)
        then show ?thesis using q3 by (simp add: after_def)
      next
        case (Inr u)
        let ?rcd = "large_record args cid n digest root_cid car_bytes car_digest"
        from restore_original_Inr three Inr digest obtain l3 where l3: "mc_log s3 = mc_log s2 @ l3" "rehydrated py args l3 cid n root_cid" by blast
        from q2 [of "lx_output args"] obtain l2 where l2: "mc_log s2 = mc_log s @ l2" by (auto simp: after_def)
        obtain r4 fs where pub: "publish_export py args ?car ?rcd (mc_fs s3) = (r4, fs)" by (metis surj_pair)
        have r: "s' = s3\<lparr>mc_fs := fs\<rparr>" "r = (case r4 of Inl e \<Rightarrow> Inl e | Inr _ \<Rightarrow> Inr ?rcd)"
          using assms(1) one two three x \<open>r1 = Inr digest\<close> Inr pub
          by (auto simp: export_checked_def abind_def on_disk_def Let_def split: sum.splits)
        have apart: "?car \<noteq> partial_name (lx_output args) (lx_tag args)"
        proof
          assume "?car = partial_name (lx_output args) (lx_tag args)"
          then have "butlast (lx_output args) = lx_tmp args" by (metis append_is_Nil_conv butlast_snoc partial_name_def)
          then have "lx_output args = lx_tmp args @ [last (lx_output args)] \<or> lx_output args = []"
            by (metis append_butlast_last_id)
          then show False using assms(5,6) outside_apart(1) \<open>butlast (lx_output args) = lx_tmp args\<close>
            by (auto simp: outside_def)
        qed
        note out = publish_export_outcome [OF pub apart]
        show ?thesis
        proof (cases r4)
          case (Inl e)
          then show ?thesis using out r q3 [of "lx_output args"] q3 [of "with_json (lx_output args)"] by (simp add: after_def)
        next
          case (Inr v)
          have "mc_log s' = mc_log s @ (l2 @ l3)" using r(1) l2 l3(1) by simp
          moreover have "rehydrated py args (l2 @ l3) cid n root_cid" using rehydrated_append l3(2) by blast
          ultimately show ?thesis using out r Inr car3 car digest by auto
        qed
      qed
    qed
  qed
qed

section \<open>Properties\<close>

text \<open>The programs an export runs write neither its output files nor the CAR it has them fill.\<close>

definition well_behaved :: "'w program \<Rightarrow> large_args \<Rightarrow> bool" where
  "well_behaved prog args \<longleftrightarrow>
     (\<forall>p \<in> {lx_tmp args @ [''recovery.car''], lx_output args, with_json (lx_output args)}.
        \<forall>c. prog_keeps (\<lambda>fs. map_of fs p = c) prog) \<and>
     outside args (lx_output args) \<and> outside args (with_json (lx_output args))"

text \<open>The files an export publishes and what is known of them.\<close>

definition published ::
    "pylib \<Rightarrow> large_args \<Rightarrow> 'w machine \<Rightarrow> 'w machine \<Rightarrow> string \<Rightarrow> int \<Rightarrow> json \<Rightarrow> bytes \<Rightarrow> bool" where
  "published py args s s' cid n record car \<longleftrightarrow>
     (\<exists>digest root_cid l. record = large_record args cid n digest root_cid (int (length car)) (sha256 py car) \<and>
        sha256_digest cid = Inr digest \<and> match_cid_v1 root_cid \<and> int (length car) \<le> MAX_CAR \<and>
        map_of (mc_fs s') (lx_output args) = Some (File car) \<and>
        map_of (mc_fs s') (with_json (lx_output args)) = Some (File (json_text py record)) \<and>
        mc_log s' = mc_log s @ l \<and> rehydrated py args l cid n root_cid)"

lemma export_large_outcome:
  assumes "export_large py prog args given s = (r, s')" and "well_behaved prog args"
  shows "case r of
      Inl e \<Rightarrow> map_of (mc_fs s') (lx_output args) = map_of (mc_fs s) (lx_output args) \<and>
        map_of (mc_fs s') (with_json (lx_output args)) = map_of (mc_fs s) (with_json (lx_output args))
    | Inr record \<Rightarrow> (\<exists>url cid n car. export_inputs py args given (mc_fs s) = Inr (url, cid, n) \<and>
        published py args s s' cid n record car)"
proof -
  have out: "outside args (lx_output args)" "outside args (with_json (lx_output args))"
    using assms(2) by (simp_all add: well_behaved_def)
  show ?thesis
  proof (cases "export_inputs py args given (mc_fs s)")
    case (Inl e)
    then have "r = Inl e" "s' = s" using assms(1) by (auto simp: export_large_def abind_def ask_def)
    then show ?thesis by simp
  next
    case (Inr x)
    obtain url cid n where x: "x = (url, cid, n)" by (cases x) auto
    let ?s0 = "s\<lparr>mc_fs := write_node (lx_tmp args) Dir (mc_fs s)\<rparr>"
    obtain r1 s1 where body: "export_checked py prog args url cid n ?s0 = (r1, s1)" by (metis surj_pair)
    have r: "r = r1" "s' = s1\<lparr>mc_fs := remove_tree (lx_tmp args) (mc_fs s1)\<rparr>"
      using assms(1) Inr x body by (auto simp: export_large_def abind_def ask_def afinally_def on_disk_def)
    have same: "map_of (mc_fs s') p = map_of (mc_fs s1) p" if "outside args p" for p
      using that by (simp add: r(2) map_of_remove_tree outside_def)
    have start: "map_of (mc_fs ?s0) p = map_of (mc_fs s) p" if "outside args p" for p
      using outside_apart(2) [OF that] by simp
    have "mc_log ?s0 = mc_log s" by simp
    note outcome = export_checked_outcome [OF body _ _ _ out] assms(2) [unfolded well_behaved_def]
    show ?thesis
    proof (cases r1)
      case (Inl e)
      then show ?thesis using outcome r same [OF out(1)] same [OF out(2)] start [OF out(1)] start [OF out(2)] by simp
    next
      case (Inr v)
      then obtain digest root_cid car l where "v = large_record args cid n digest root_cid (int (length car)) (sha256 py car)"
        "sha256_digest cid = Inr digest" "match_cid_v1 root_cid" "int (length car) \<le> MAX_CAR"
        "map_of (mc_fs s1) (lx_output args) = Some (File car)"
        "map_of (mc_fs s1) (with_json (lx_output args)) = Some (File (json_text py v))"
        "mc_log s1 = mc_log s @ l" "rehydrated py args l cid n root_cid"
        using outcome by auto
      then have "published py args s s' cid n v car"
        unfolding published_def using same [OF out(1)] same [OF out(2)] r(2) by fastforce
      then show ?thesis using r(1) Inr \<open>export_inputs py args given (mc_fs s) = Inr x\<close> x by auto
    qed
  qed
qed

text \<open>C24: an export publishes a verified CAR with its receipt, or nothing. If it raises, wherever it fails (also after
  both links, when the directory cannot be opened or synchronised), the output and the receipt
  are as they were; if it returns, the receipt file holds the returned record, which describes the CAR
  file, and during the run a fresh repository gave back, from a CAR of the recorded root, bytes with the
  size of the inventory row and the digest in its CID, and derived this CID from them.\<close>

theorem export_publishes_both_or_neither:
  assumes "export_large py prog args given s = (r, s')" and "well_behaved prog args"
  shows "(\<exists>e. r = Inl e \<and> map_of (mc_fs s') (lx_output args) = map_of (mc_fs s) (lx_output args) \<and>
        map_of (mc_fs s') (with_json (lx_output args)) = map_of (mc_fs s) (with_json (lx_output args))) \<or>
    (\<exists>record cid n car. r = Inr record \<and> large_row_of py args given (mc_fs s) = Inr (cid, n) \<and>
       published py args s s' cid n record car)"
proof (cases r)
  case (Inl e)
  then show ?thesis using export_large_outcome [OF assms] by simp
next
  case (Inr v)
  from export_large_outcome [OF assms] Inr obtain url cid n car where
    "export_inputs py args given (mc_fs s) = Inr (url, cid, n)" "published py args s s' cid n v car" by auto
  then show ?thesis using Inr by (auto simp: export_inputs_def rbind_eq_Inr split: if_splits)
qed

text \<open>C25: what one node exports another can recover, if its CID has version 1. The CAR and the receipt an export
  published, copied to a node with the same inventory, pass every check the recovery program makes before it
  starts, with the CID, the size and the root of the exported block. For a CID of another form, as \<open>Qm...\<close> of
  version 0, which the exporter packs and even restores on its own node, the recovery program refuses the very
  same files. Assumed are that the programs do not write the export's files, that the CAR is not empty, that the
  record's JSON text parses back to it, and that a digest has 32 bytes.\<close>

theorem exported_block_is_recoverable:
  assumes "export_large py prog args given s = (Inr record, s')" and "well_behaved prog args"
    and "read_bytes (mc_fs s) (lx_inventory args) = Inr content"
    and "load_inventory py content (lx_identity args) (lx_sha256 args) (lx_count args) = Inr ivt"
    and "given = None \<or> given = Some ivt"
    and "json_loads py (json_text py record) = Inr record"
    and "read_bytes fs (ra_inventory there) = Inr content" and "ra_sha256 there = lx_sha256 args" and "ra_row there = lx_row args"
    and "read_bytes fs (ra_car there) = read_bytes (mc_fs s') (lx_output args)" and "read_bytes fs (ra_car there) \<noteq> Inr []"
    and "read_bytes fs (ra_source_receipt there) = read_bytes (mc_fs s') (with_json (lx_output args))"
    and "\<forall>data. length (sha256 py data) = 32"
  shows "if match_cid_v1 (fst (inv_sizes ivt ! nat (lx_row args)))
    then \<exists>src. receipt_matches py there ivt fs = Inr src \<and> (rs_cid src, rs_bytes src) = inv_sizes ivt ! nat (lx_row args) \<and>
      field (case record of JDict kvs \<Rightarrow> kvs | _ \<Rightarrow> []) ''recovery_root'' = JStr (rs_root src)
    else receipt_matches py there ivt fs = Inl (RecoveryError ''recovery receipt differs from immutable inventory'')"
proof -
  from assms(4) obtain all_rows where r: "represents py content all_rows ivt" by (rule load_inventory_represents)
  have sizes: "inv_sizes ivt = all_rows" "length (inv_offsets ivt) = length all_rows" using r by (simp_all add: represents_def)
  define k where "k = nat (lx_row args)"
  from export_large_outcome [OF assms(1,2)] obtain url cid n car where
    e: "export_inputs py args given (mc_fs s) = Inr (url, cid, n)" and pub: "published py args s s' cid n record car" by auto
  from e have row: "large_row_of py args given (mc_fs s) = Inr (cid, n)"
    by (auto simp: export_inputs_def rbind_eq_Inr split: if_splits)
  have load: "(case given of Some ivt \<Rightarrow> Inr ivt
      | None \<Rightarrow> load_inventory py content (lx_identity args) (lx_sha256 args) (lx_count args)) = Inr ivt"
    using assms(4,5) by auto
  have k: "0 \<le> lx_row args" "k < length all_rows"
    using row assms(3) load sizes(2) by (auto simp: large_row_of_def k_def split: if_splits)
  have line: "row_values py (read_line (drop (inv_offsets ivt ! k) content)) = Inr (row_json (all_rows ! k))"
    by (rule row_line [OF r k(2)])
  from row obtain digest' where c: "all_rows ! k = (cid, n)" "MIN_LARGE_BLOCK < n" "n \<le> int MAX_BLOCK" "sha256_digest cid = Inr digest'"
    using assms(3) load sizes(2) line k(1)
    by (cases "all_rows ! k") (auto simp: large_row_of_def k_def [symmetric] row_json_def rbind_eq_Inr split: if_splits)
  from pub obtain digest root_cid where p: "record = large_record args cid n digest root_cid (int (length car)) (sha256 py car)"
    "sha256_digest cid = Inr digest" "match_cid_v1 root_cid" "int (length car) \<le> MAX_CAR"
    "map_of (mc_fs s') (lx_output args) = Some (File car)"
    "map_of (mc_fs s') (with_json (lx_output args)) = Some (File (json_text py record))"
    unfolding published_def by blast
  have disk: "read_bytes fs (ra_car there) = Inr car" "rbind (read_bytes fs (ra_source_receipt there)) (json_loads py) = Inr record"
    "1 \<le> int (length car)"
    using assms(6,10,11,12) p(5,6) by (auto simp: Suc_le_eq)
  obtain row' where row': "json_loads py (read_line (drop (inv_offsets ivt ! k) content)) = Inr row'"
    "jsub row' ''cid'' = Inr (JStr cid)" "jsub row' ''bytes'' = Inr (JInt n)"
    using line c(1) by (auto simp: row_values_def rbind_eq_Inr row_json_def)
  have which: "fst (inv_sizes ivt ! nat (lx_row args)) = cid" using c(1) sizes(1) by (simp add: k_def)
  have sha: "match_sha256 (hex (sha256 py car))" using assms(13) by (simp add: match_sha256_hex)
  obtain kvs where kvs: "record = JDict kvs" using p(1) by (simp add: large_record_def)
  have head: "json_loads py (read_line (drop (inv_offsets ivt ! nat (ra_row there)) content)) = Inr row'"
    using row'(1) assms(9) by (simp add: k_def)
  show ?thesis
  proof (cases "match_cid_v1 cid")
    case True
    let ?src = "\<lparr>rs_cid = cid, rs_bytes = n, rs_digest = hex digest, rs_root = root_cid, rs_car_sha256 = hex (sha256 py car),
      rs_car_bytes = int (length car)\<rparr>"
    have "check_source_receipt there (JStr cid) (JInt n) kvs = Inr ?src"
      using p(1) [unfolded kvs] p(2,3,4) True c(2,3) sha disk(3) assms(8,9)
      by (simp add: check_source_receipt_def large_record_def eq_str_def MIN_LARGE_BLOCK_def is_cid_v1_def is_sha256_def Let_def)
    moreover have "file_digest py (ra_car there) MAX_CAR fs = Inr (int (length car), hex (sha256 py car))"
      using disk(1) p(4) by (simp add: file_digest_def)
    ultimately have "receipt_matches py there ivt fs = Inr ?src"
      using assms(7) disk(2) head row'(2,3) kvs by (simp add: receipt_matches_def rename_error_def Let_def)
    moreover have "field kvs ''recovery_root'' = JStr root_cid" using p(1) kvs by (auto simp: large_record_def)
    ultimately show ?thesis using True c(1) sizes(1) kvs which by (auto intro!: exI [of _ ?src] simp: k_def)
  next
    case False
    then have "check_source_receipt there (JStr cid) (JInt n) kvs =
        Inl (RecoveryError ''recovery receipt differs from immutable inventory'')"
      by (simp add: check_source_receipt_def Let_def)
    then have "receipt_matches py there ivt fs = Inl (RecoveryError ''recovery receipt differs from immutable inventory'')"
      using assms(7) disk(2) head row'(2,3) kvs by (simp add: receipt_matches_def rename_error_def Let_def)
    then show ?thesis using False which by simp
  qed
qed

section \<open>A concrete export\<close>

definition export_answer :: "string list \<Rightarrow> bytes" where
  "export_answer argv =
     (let verb = argv ! 1; noun = argv ! 2 in
      if verb = ''--offline'' then big_block
      else if verb = ''add'' \<or> verb = ''block'' then ascii sample_cid
      else if verb = ''cid'' then ascii ''raw sha2-256 32''
      else if noun = ''export'' then [9, 9] else [])"

definition export_prog :: "unit program" where
  "export_prog repo argv data s =
     (Inr (0, export_answer argv),
      if hd argv = ''curl'' then (write_node [''tmp'', ''source.block''] (File big_block) (fst s), snd s) else s)"

definition toy_url :: "string \<Rightarrow> split_url" where
  "toy_url s = \<lparr>url_scheme = ''https'', url_hostname = Some ''x'', url_port = None, url_path = ''/ipfs/'', url_query = [],
     url_fragment = [], url_username = None, url_password = None\<rparr>"

definition toy_export :: large_args where
  "toy_export = \<lparr>lx_inventory = [''inv''], lx_sha256 = hex (replicate 32 7), lx_count = 1, lx_row = 0,
     lx_base_url = ''https://x/ipfs/'', lx_ipfs_bin = [''ipfs''], lx_output = [''out''], lx_tmp = [''tmp''], lx_tag = ''t'',
     lx_urlsplit = toy_url, lx_identity = \<lparr>st_ino = 1, st_size = 2, st_mtime_ns = 3\<rparr>,
     lx_fails = (\<lambda>_. False)\<rparr>"

definition export_start :: "unit machine" where
  "export_start = \<lparr>mc_fs = [([''inv''], File [1, 10]), ([''ipfs''], File [1])], mc_world = (), mc_log = []\<rparr>"

definition large_export_py :: pylib where
  "large_export_py = recovery_py\<lparr>json_dumps := (\<lambda>_. [84]), json_loads := (\<lambda>line. case line of
      [] \<Rightarrow> Inl ValueError
    | b # _ \<Rightarrow>
        if b = 84 then Inr (large_record toy_export sample_cid 8000001 (replicate 32 7) sample_cid 2 (replicate 32 7))
        else json_loads recovery_py line)\<rparr>"

lemma run_large_toy:
  "run_large export_prog repo argv s = (Inr (export_answer argv),
     s\<lparr>mc_fs := (if hd argv = ''curl'' then write_node [''tmp'', ''source.block''] (File big_block) (mc_fs s) else mc_fs s),
       mc_log := mc_log s @ [(repo, argv, [], Inr (0, export_answer argv))]\<rparr>)"
  by (simp add: run_large_def run_program_def export_prog_def)

lemma export_answers:
  "strip (text_of (export_answer [i, ''add'', a, b, c, d, e])) = sample_cid" "export_answer [i, ''dag'', ''export'', x] = [9, 9]"
  "export_answer [i, ''--offline'', x, y] = big_block" "strip (text_of (export_answer [i, ''block'', x, y, z, u, v])) = sample_cid"
  "py_split (strip (text_of (export_answer [i, ''cid'', x, y, z, u]))) = [''raw'', ''sha2-256'', ''32'']"
proof -
  have "strip (text_of (ascii sample_cid)) = sample_cid" "py_split (strip (text_of (ascii ''raw sha2-256 32''))) = [''raw'', ''sha2-256'', ''32'']"
    by code_simp+
  then show "strip (text_of (export_answer [i, ''add'', a, b, c, d, e])) = sample_cid" "export_answer [i, ''dag'', ''export'', x] = [9, 9]"
  "export_answer [i, ''--offline'', x, y] = big_block" "strip (text_of (export_answer [i, ''block'', x, y, z, u, v])) = sample_cid"
  "py_split (strip (text_of (export_answer [i, ''cid'', x, y, z, u]))) = [''raw'', ''sha2-256'', ''32'']"
    by (simp_all add: export_answer_def)
qed

lemma toy_export_inputs:
  "export_inputs large_export_py toy_export None (mc_fs export_start) = Inr (''https://x/ipfs/'' @ sample_cid, sample_cid, 8000001)"
  "sha256_digest sample_cid = Inr (replicate 32 7)" "match_cid_v1 sample_cid" "take 2 sample_cid \<noteq> ''Qm''"
  by code_simp+

lemma toy_digests:
  "map_of fs p = Some (File big_block) \<Longrightarrow> digest_within large_export_py p (int MAX_BLOCK) fs = Inr (8000001, replicate 32 7)"
  "map_of fs p = Some (File [9, 9]) \<Longrightarrow> digest_within large_export_py p MAX_CAR fs = Inr (2, replicate 32 7)"
  by (simp_all add: digest_within_def big_block_def MAX_BLOCK_def MAX_CAR_def large_export_py_def recovery_py_def row_py_def sample_sha_def)

lemma toy_exported: "\<exists>s'. export_large large_export_py export_prog toy_export None export_start =
  (Inr (large_record toy_export sample_cid 8000001 (replicate 32 7) sample_cid 2 (replicate 32 7)), s')"
proof -
  let ?s0 = "export_start\<lparr>mc_fs := write_node [''tmp''] Dir (mc_fs export_start)\<rparr>"
  have one: "\<exists>s1. fetch_source large_export_py export_prog toy_export url sample_cid 8000001 ?s0 = (Inr (replicate 32 7), s1) \<and>
      mc_fs s1 = write_node [''tmp'', ''source.block''] (File big_block) (mc_fs ?s0)" for url
    by (simp add: fetch_source_def abind_def run_large_toy ask_def toy_digests toy_export_inputs source_curl_argv_def Let_def toy_export_def)
  have two: "\<exists>s1. pack_source large_export_py export_prog toy_export s = (Inr (sample_cid, 2, replicate 32 7), s1) \<and>
      map_of (mc_fs s1) [''tmp'', ''recovery.car''] = Some (File [9, 9]) \<and>
      (\<forall>p. p \<noteq> [''tmp'', ''recovery.car''] \<longrightarrow> map_of (mc_fs s1) p = map_of (mc_fs s) p)"
    if "map_of (mc_fs s) [''tmp'', ''recovery.car''] = None" for s
    using that by (simp add: pack_source_def fresh_repo_def stdout_to_def abind_def run_large_toy ask_def on_disk_def awrite_def
        export_answers toy_digests toy_export_inputs Let_def toy_export_def path_str_def)
  have three: "\<exists>s1. restore_original large_export_py export_prog toy_export car sample_cid sample_cid 8000001 (replicate 32 7) s = (Inr (), s1) \<and>
      (\<forall>p. p \<noteq> [''tmp'', ''restored.block''] \<longrightarrow> map_of (mc_fs s1) p = map_of (mc_fs s) p)"
    if "map_of (mc_fs s) [''tmp'', ''restored.block''] = None" for s car
    using that by (simp add: restore_original_def put_original_def fresh_repo_def stdout_to_def abind_def run_large_toy ask_def
        on_disk_def awrite_def export_answers toy_digests toy_export_inputs Let_def toy_export_def path_str_def)
  have four: "\<exists>fs'. publish_export large_export_py toy_export [''tmp'', ''recovery.car''] v fs = (Inr (), fs')"
    if "map_of fs [''tmp'', ''recovery.car''] = Some (File [9, 9])" "\<And>n. map_of fs [n] = None \<or> n = ''inv'' \<or> n = ''ipfs'' \<or> n = ''tmp''" for fs v
  proof -
    have "map_of fs [''out''] = None" "map_of fs [''out.json''] = None" "map_of fs [''out.t.partial''] = None" "map_of fs [''out.t.partial.json''] = None"
      using that(2) [of "''out''"] that(2) [of "''out.json''"] that(2) [of "''out.t.partial''"] that(2) [of "''out.t.partial.json''"] by auto
    then show ?thesis using that(1)
      by (simp add: publish_export_def publish_files_def afinally_def aread_def awrite_def abind_def toy_export_def partial_name_def
          with_json_def query_defs Let_def)
  qed
  obtain s1 where s1: "fetch_source large_export_py export_prog toy_export (''https://x/ipfs/'' @ sample_cid) sample_cid 8000001 ?s0 = (Inr (replicate 32 7), s1)"
    "mc_fs s1 = write_node [''tmp'', ''source.block''] (File big_block) (mc_fs ?s0)" using one by blast
  have "map_of (mc_fs s1) [''tmp'', ''recovery.car''] = None" by (simp add: s1(2) export_start_def)
  from two [OF this] obtain s2 where s2: "pack_source large_export_py export_prog toy_export s1 = (Inr (sample_cid, 2, replicate 32 7), s2)"
    "map_of (mc_fs s2) [''tmp'', ''recovery.car''] = Some (File [9, 9])"
    "\<forall>p. p \<noteq> [''tmp'', ''recovery.car''] \<longrightarrow> map_of (mc_fs s2) p = map_of (mc_fs s1) p" by blast
  have "map_of (mc_fs s2) [''tmp'', ''restored.block''] = None" using s2(3) by (simp add: s1(2) export_start_def)
  from three [OF this, of "[''tmp'', ''recovery.car'']"] obtain s3 where
    s3: "restore_original large_export_py export_prog toy_export [''tmp'', ''recovery.car''] sample_cid sample_cid 8000001 (replicate 32 7) s2 = (Inr (), s3)"
    "\<forall>p. p \<noteq> [''tmp'', ''restored.block''] \<longrightarrow> map_of (mc_fs s3) p = map_of (mc_fs s2) p" by blast
  have "map_of (mc_fs s3) [n] = None \<or> n = ''inv'' \<or> n = ''ipfs'' \<or> n = ''tmp''" for n
    using s2(3) s3(2) by (simp add: s1(2) export_start_def)
  from four [OF _ this, of "large_record toy_export sample_cid 8000001 (replicate 32 7) sample_cid 2 (replicate 32 7)"] s2(2) s3(2)
  obtain fs' where "publish_export large_export_py toy_export [''tmp'', ''recovery.car'']
      (large_record toy_export sample_cid 8000001 (replicate 32 7) sample_cid 2 (replicate 32 7)) (mc_fs s3) = (Inr (), fs')" by auto
  moreover have "lx_tmp toy_export = [''tmp'']" by (simp add: toy_export_def)
  ultimately show ?thesis using s1(1) s2(1) s3(1) toy_export_inputs(1)
    by (simp add: export_large_def export_checked_def abind_def ask_def afinally_def on_disk_def Let_def)
qed

lemma toy_behaved: "well_behaved export_prog toy_export"
  by (auto simp: well_behaved_def prog_keeps_def export_prog_def toy_export_def outside_def with_json_def)

theorem export_publishes_both_or_neither_witness:
  "\<exists>(s' :: unit machine) cid n record car. large_row_of large_export_py toy_export None (mc_fs export_start) = Inr (cid, n) \<and>
     published large_export_py toy_export export_start s' cid n record car"
proof -
  obtain s' where "export_large large_export_py export_prog toy_export None export_start =
    (Inr (large_record toy_export sample_cid 8000001 (replicate 32 7) sample_cid 2 (replicate 32 7)), s')" using toy_exported by blast
  from export_publishes_both_or_neither [OF this toy_behaved] show ?thesis by blast
qed

theorem exported_block_is_recoverable_witness:
  "\<exists>src ivt fs. receipt_matches large_export_py toy_recovery ivt fs = Inr src \<and> rs_cid src = sample_cid \<and> rs_bytes src = 8000001"
proof -
  let ?rcd = "large_record toy_export sample_cid 8000001 (replicate 32 7) sample_cid 2 (replicate 32 7)"
  obtain s' where run: "export_large large_export_py export_prog toy_export None export_start = (Inr ?rcd, s')"
    using toy_exported by blast
  let ?ivt = "\<lparr>inv_offsets = [0], inv_sizes = [(sample_cid, 8000001)], inv_positions = [(sample_cid, 0)],
    inv_sha256 = hex (replicate 32 7), inv_total_bytes = 8000001, inv_identity = lx_identity toy_export\<rparr>"
  have load: "read_bytes (mc_fs export_start) (lx_inventory toy_export) = Inr [1, 10]"
    "load_inventory large_export_py [1, 10] (lx_identity toy_export) (lx_sha256 toy_export) (lx_count toy_export) = Inr ?ivt"
    by code_simp+
  have cid: "match_cid_v1 (fst (inv_sizes ?ivt ! nat (lx_row toy_export)))"
    using toy_export_inputs(3) by (simp add: toy_export_def)
  have json: "json_loads large_export_py (json_text large_export_py ?rcd) = Inr ?rcd" by (simp add: json_text_def large_export_py_def)
  from export_publishes_both_or_neither [OF run toy_behaved] obtain cid n car where
    pub: "published large_export_py toy_export export_start s' cid n ?rcd car" by blast
  then have size: "int (length car) = 2" by (auto simp: published_def large_record_def)
  from pub have files: "read_bytes (mc_fs s') (lx_output toy_export) = Inr car" by (auto simp: published_def)
  let ?fs = "[([''inv''], File [1, 10]), ([''car''], the (map_of (mc_fs s') (lx_output toy_export))),
    ([''src''], the (map_of (mc_fs s') (with_json (lx_output toy_export))))] :: fs"
  have copies: "read_bytes ?fs (ra_car toy_recovery) = read_bytes (mc_fs s') (lx_output toy_export)"
    "read_bytes ?fs (ra_source_receipt toy_recovery) = read_bytes (mc_fs s') (with_json (lx_output toy_export))"
    "read_bytes ?fs (ra_inventory toy_recovery) = Inr [1, 10]"
    using pub by (auto simp: published_def toy_recovery_def query_defs)
  have same: "ra_sha256 toy_recovery = lx_sha256 toy_export" "ra_row toy_recovery = lx_row toy_export"
    by (simp_all add: toy_recovery_def toy_export_def)
  have "\<forall>data. length (sha256 large_export_py data) = 32" by (simp add: large_export_py_def recovery_py_def row_py_def sample_sha_def)
  moreover have "read_bytes ?fs (ra_car toy_recovery) \<noteq> Inr []" using copies(1) files size by auto
  ultimately
  obtain src where "receipt_matches large_export_py toy_recovery ?ivt ?fs = Inr src"
    "(rs_cid src, rs_bytes src) = inv_sizes ?ivt ! nat (lx_row toy_export)"
    using exported_block_is_recoverable [OF run toy_behaved load disjI1 [OF refl] json copies(3) same copies(1) _ copies(2)] cid by auto
  then show ?thesis by (intro exI [of _ src] exI [of _ ?ivt] exI [of _ ?fs]) (simp add: toy_export_def)
qed

end
