(* ===== verification/Large_Export_Batch.thy ===== *)
theory Large_Export_Batch
  imports Large_Export
begin

text \<open>
  \<open>deploy/export_large_lake_batch.py\<close>: the oversized blocks of the inventory are exported one after the other
  and each CAR is put on both nodes. Shown: every row a run counts, as new or as already there, is on both
  nodes with receipts for this row and with a CAR of one and the same digest; rows are taken in order from
  the start row, none is left out, and no more than the allowed number is new.
\<close>

text \<open>The command line and what the process finds. Each export has its own temporary directory and random name.\<close>

record mirror_batch =
  mb_inventory :: path
  mb_sha256 :: string
  mb_count :: int
  mb_expected_count :: int
  mb_output_dir :: path
  mb_ipfs_bin :: path
  mb_start_row :: int
  mb_max_new :: nat
  mb_plan :: bool
  mb_free :: "nat \<Rightarrow> int"
  mb_tmp :: "nat \<Rightarrow> path"
  mb_tag :: "nat \<Rightarrow> string"
  mb_urlsplit :: "string \<Rightarrow> split_url"
  mb_identity :: file_identity
  mb_fails :: "nat \<Rightarrow> publish_op \<Rightarrow> bool"
  mb_locked :: bool

section \<open>The nodes\<close>

record node_site =
  ns_name :: string
  ns_host :: string
  ns_directory :: string
  ns_owner :: string
  ns_source :: string

definition GAD :: node_site where
  "GAD = \<lparr>ns_name = ''gad'', ns_host = ''gad'', ns_directory = ''/home/gad/.local/state/yataverse-lake/car-exports'',
     ns_owner = ''gad'', ns_source = ''https://yataverse-data.220-146-170-114.sslip.io:8444/ipfs/''\<rparr>"

definition XAVIER :: node_site where
  "XAVIER = \<lparr>ns_name = ''xavier'', ns_host = ''root@xavier'', ns_directory = ''/mnt/nvme/ipfs-xavier/lake-state/car-exports'',
     ns_owner = ''xavier'', ns_source = ''https://yataverse-data.220-146-170-114.sslip.io:8443/ipfs/''\<rparr>"

definition MIN_FREE :: int where "MIN_FREE = 50000000000"

definition batch_command :: "'w program \<Rightarrow> string list \<Rightarrow> ('w machine, string) action" where
  "batch_command prog argv =
     abind (run_program (LargeExportError (''batch command could not run: '' @ hd argv))
       (LargeExportError (''batch command refused: '' @ hd argv)) prog None argv []) (\<lambda>out. areturn (text_of out))"

text \<open>\<open>int(text)\<close>, or \<open>ValueError\<close>.\<close>

definition parsed_int :: "string \<Rightarrow> int res" where
  "parsed_int t = (case py_int t of None \<Rightarrow> Inl ValueError | Some n \<Rightarrow> Inr n)"

section \<open>Receipts\<close>

definition validate_record :: "json \<Rightarrow> nat \<Rightarrow> string \<Rightarrow> int \<Rightarrow> string \<Rightarrow> unit res" where
  "validate_record record row cid n sha =
     (let differs = LargeExportError ''recovery receipt differs from inventory row'' in
      rbind (dict_or AttributeError record) (\<lambda>kvs.
      if \<not> eq_int (field kvs ''schema'') 1 \<or> \<not> eq_int (field kvs ''row'') (int row) \<or>
        \<not> eq_str (field kvs ''inventory_sha256'') sha \<or> \<not> eq_str (field kvs ''original_cid'') cid \<or>
        \<not> eq_int (field kvs ''original_bytes'') n
      then Inl differs
      else
        rbind (sha256_digest cid) (\<lambda>digest.
        if \<not> eq_str (field kvs ''original_sha256'') (hex digest) \<or> \<not> eq_str (field kvs ''validation'') rehydration \<or>
          (case as_int (field kvs ''car_bytes'') of None \<Rightarrow> True | Some b \<Rightarrow> \<not> (0 < b \<and> b \<le> 536870912)) \<or>
          \<not> is_sha256 (field kvs ''car_sha256'') \<or> \<not> is_cid_v1 (field kvs ''recovery_root'')
        then Inl differs else Inr ())))"

type_synonym large_block = "nat \<times> string \<times> int"

definition local_status :: "pylib \<Rightarrow> mirror_batch \<Rightarrow> path \<Rightarrow> large_block \<Rightarrow> fs \<Rightarrow> json option res" where
  "local_status py args car b fs =
     (case b of (row, cid, n) \<Rightarrow>
        let receipt = with_json car in
        if \<not> exists_path fs car \<and> \<not> exists_path fs receipt then Inr None
        else if \<not> is_file fs car \<or> \<not> is_file fs receipt then Inl (LargeExportError ''local CAR and receipt are incomplete'')
        else
          rbind (rbind (read_bytes fs receipt) (json_loads py)) (\<lambda>record.
          rbind (validate_record record row cid n (mb_sha256 args)) (\<lambda>_.
          rbind (digest_within py car 536870912 fs) (\<lambda>(actual, digest).
          rbind (jget record ''car_bytes'') (\<lambda>car_bytes.
          rbind (jget record ''car_sha256'') (\<lambda>car_sha256.
          if \<not> eq_int car_bytes actual \<or> \<not> eq_str car_sha256 (hex digest)
          then Inl (LargeExportError ''local CAR differs from its receipt'') else Inr (Some record)))))))"

definition node_car :: "node_site \<Rightarrow> nat \<Rightarrow> string" where
  "node_car site row = ns_directory site @ ''/row-'' @ dec_text row @ ''-recovery.car''"

definition probe_node :: "node_site \<Rightarrow> nat \<Rightarrow> string list" where
  "probe_node site row =
     (let car = node_car site row; receipt = car @ ''.json'' in
      [''ssh'', ''-o'', ''BatchMode=yes'', ns_host site,
       ''if test -f '' @ car @ '' && test -f '' @ receipt @ ''; then cat '' @ receipt @ ''; else printf MISSING; fi''])"

definition digest_node :: "node_site \<Rightarrow> nat \<Rightarrow> string list" where
  "digest_node site row =
     [''ssh'', ''-o'', ''BatchMode=yes'', ns_host site,
      ''sha256sum '' @ node_car site row @ '' && stat -c %s '' @ node_car site row]"

text \<open>The report of \<open>sha256sum\<close> and \<open>stat\<close> is compared with the receipt.\<close>

definition check_digest_report :: "node_site \<Rightarrow> json \<Rightarrow> string \<Rightarrow> unit res" where
  "check_digest_report site record report =
     (let differs = LargeExportError (ns_name site @ '' CAR differs from its receipt''); lines = splitlines report in
      rbind (dict_or AttributeError record) (\<lambda>kvs.
      if length lines \<noteq> 2 then Inl differs
      else if py_split (lines ! 0) = [] then Inl IndexError
      else if \<not> eq_str (field kvs ''car_sha256'') (hd (py_split (lines ! 0))) then Inl differs
      else
        rbind (parsed_int (lines ! 1)) (\<lambda>n.
        if \<not> eq_int (field kvs ''car_bytes'') n then Inl differs else Inr ())))"

definition remote_status ::
    "pylib \<Rightarrow> 'w program \<Rightarrow> mirror_batch \<Rightarrow> node_site \<Rightarrow> large_block \<Rightarrow> ('w machine, json option) action" where
  "remote_status py prog args site b =
     (case b of (row, cid, n) \<Rightarrow>
        abind (batch_command prog (probe_node site row)) (\<lambda>probe.
        if probe = ''MISSING'' then areturn None
        else
          abind (alift (json_loads py (ascii probe))) (\<lambda>record.
          abind (alift (validate_record record row cid n (mb_sha256 args))) (\<lambda>_.
          abind (batch_command prog (digest_node site row)) (\<lambda>report.
          abind (alift (check_digest_report site record report)) (\<lambda>_.
          areturn (Some record)))))))"

section \<open>Copying\<close>

definition move_command :: "node_site \<Rightarrow> string \<Rightarrow> string \<Rightarrow> string" where
  "move_command site target car_sha256 =
     (let quote = [CHR 0x27]; newline_text = [CHR 0x5C, CHR ''n''] in
      ''printf '' @ quote @ ''%s  %s'' @ newline_text @ quote @ '' '' @ car_sha256 @ '' '' @ target @
      ''.partial | sha256sum -c - && mv '' @ target @ ''.partial '' @ target @
      '' && mv '' @ target @ ''.json.partial '' @ target @ ''.json'' @
      '' && chown '' @ ns_owner site @ '':'' @ ns_owner site @ '' '' @ target @ '' '' @ target @ ''.json'')"

text \<open>The record has been validated; \<open>car_bytes\<close> and \<open>car_sha256\<close> are an integer and a text.\<close>

definition put_remote :: "'w program \<Rightarrow> node_site \<Rightarrow> path \<Rightarrow> json \<Rightarrow> ('w machine, unit) action" where
  "put_remote prog site car record =
     (let target = ns_directory site @ ''/'' @ last car in
      abind (batch_command prog [''ssh'', ''-o'', ''BatchMode=yes'', ns_host site,
          ''df -B1 --output=avail '' @ ns_directory site @ '' | tail -1'']) (\<lambda>out.
      abind (alift (parsed_int (strip out))) (\<lambda>free.
      abind (alift (rbind (jsub record ''car_bytes'') (\<lambda>v. case as_int v of None \<Rightarrow> Inl TypeError | Some b \<Rightarrow> Inr b))) (\<lambda>car_bytes.
      if free - car_bytes < MIN_FREE then araise (LargeExportError (ns_name site @ '' disk reserve would be crossed''))
      else
        abind (batch_command prog [''scp'', ''-q'', path_str car, ns_host site @ '':'' @ target @ ''.partial'']) (\<lambda>_.
        abind (batch_command prog [''scp'', ''-q'', path_str car @ ''.json'', ns_host site @ '':'' @ target @ ''.json.partial'']) (\<lambda>_.
        abind (alift (text_value (jsub record ''car_sha256''))) (\<lambda>car_sha256.
        abind (batch_command prog [''ssh'', ''-o'', ''BatchMode=yes'', ns_host site, move_command site target car_sha256]) (\<lambda>_.
        areturn ()))))))))"

section \<open>One row\<close>

definition batch_car :: "mirror_batch \<Rightarrow> nat \<Rightarrow> path" where
  "batch_car args row = mb_output_dir args @ [''row-'' @ dec_text row @ ''-recovery.car'']"

definition row_export_args :: "mirror_batch \<Rightarrow> nat \<Rightarrow> large_args" where
  "row_export_args args row =
     \<lparr>lx_inventory = mb_inventory args, lx_sha256 = mb_sha256 args, lx_count = mb_count args, lx_row = int row,
      lx_base_url = ns_source (if row mod 2 = 0 then XAVIER else GAD), lx_ipfs_bin = mb_ipfs_bin args,
      lx_output = batch_car args row, lx_tmp = mb_tmp args row, lx_tag = mb_tag args row,
      lx_urlsplit = mb_urlsplit args, lx_identity = mb_identity args, lx_fails = mb_fails args row\<rparr>"

text \<open>The local CAR of a row, exported now unless it is there.\<close>

definition obtain_record ::
    "pylib \<Rightarrow> 'w program \<Rightarrow> mirror_batch \<Rightarrow> inventory \<Rightarrow> large_block \<Rightarrow> ('w machine, json) action" where
  "obtain_record py prog args ivt b =
     (case b of (row, cid, n) \<Rightarrow>
        abind (ask (local_status py args (batch_car args row) b)) (\<lambda>found.
        case found of
          Some record \<Rightarrow> areturn record
        | None \<Rightarrow>
            if mb_free args row - 4 * n < MIN_FREE then araise (LargeExportError ''local disk reserve would be crossed'')
            else export_large py prog (row_export_args args row) (Some ivt)))"

definition place_on ::
    "pylib \<Rightarrow> 'w program \<Rightarrow> mirror_batch \<Rightarrow> large_block \<Rightarrow> json \<Rightarrow> node_site \<Rightarrow> json option \<Rightarrow> ('w machine, json) action" where
  "place_on py prog args b record site before =
     (let differs = LargeExportError (ns_name site @ '' post-copy receipt differs for row '' @ dec_text (fst b)) in
      abind (if before = None then put_remote prog site (batch_car args (fst b)) record else areturn ()) (\<lambda>_.
      abind (remote_status py prog args site b) (\<lambda>check.
      case check of
        None \<Rightarrow> araise differs
      | Some v \<Rightarrow> if json_eq v record then areturn v else araise differs)))"

text \<open>Both nodes had the row already: \<open>False\<close>; it was mirrored now: \<open>True\<close>.\<close>

definition mirror_row ::
    "pylib \<Rightarrow> 'w program \<Rightarrow> mirror_batch \<Rightarrow> inventory \<Rightarrow> large_block \<Rightarrow> ('w machine, bool) action" where
  "mirror_row py prog args ivt b =
     abind (remote_status py prog args GAD b) (\<lambda>gad.
     abind (remote_status py prog args XAVIER b) (\<lambda>xavier.
     case (gad, xavier) of
       (Some g, Some x) \<Rightarrow>
         if \<not> json_eq g x then araise (LargeExportError (''node receipts differ for row '' @ dec_text (fst b)))
         else
           abind (ask (local_status py args (batch_car args (fst b)) b)) (\<lambda>found.
           if found \<noteq> None \<and> \<not> json_eq (the found) g
           then araise (LargeExportError (''local receipt differs from nodes for row '' @ dec_text (fst b)))
           else areturn False)
     | _ \<Rightarrow>
         abind (obtain_record py prog args ivt b) (\<lambda>record.
         abind (place_on py prog args b record GAD gad) (\<lambda>_.
         abind (place_on py prog args b record XAVIER xavier) (\<lambda>_.
         areturn True)))))"

section \<open>One run\<close>

definition large_row_line :: "pylib \<Rightarrow> large_block list \<times> nat \<Rightarrow> bytes \<Rightarrow> (large_block list \<times> nat) res" where
  "large_row_line py st line =
     (case st of (rows, row) \<Rightarrow>
        rbind (json_loads py line) (\<lambda>data.
        rbind (jsub data ''bytes'') (\<lambda>n.
        case as_int n of
          None \<Rightarrow> Inl TypeError
        | Some n \<Rightarrow>
            if n \<le> MIN_LARGE_BLOCK then Inr (rows, row + 1)
            else rbind (text_value (jsub data ''cid'')) (\<lambda>cid. Inr (rows @ [(row, cid, n)], row + 1)))))"

definition large_rows :: "pylib \<Rightarrow> bytes \<Rightarrow> large_block list res" where
  "large_rows py content = rbind (foldM (large_row_line py) ([], 0) (file_lines content)) (\<lambda>(rows, _). Inr rows)"

text \<open>What a run reports: the plan, or the numbers of new and of skipped rows.\<close>

datatype batch_report =
    Plan nat int nat nat
  | Mirrored nat nat nat

fun mirror_rows_loop ::
    "pylib \<Rightarrow> 'w program \<Rightarrow> mirror_batch \<Rightarrow> inventory \<Rightarrow> nat \<Rightarrow> nat \<Rightarrow> large_block list \<Rightarrow> ('w machine, nat \<times> nat) action" where
  "mirror_rows_loop py prog args ivt processed skipped [] = areturn (processed, skipped)"
| "mirror_rows_loop py prog args ivt processed skipped (b # bs) =
     (if int (fst b) < mb_start_row args then mirror_rows_loop py prog args ivt processed skipped bs
      else
        abind (mirror_row py prog args ivt b) (\<lambda>new.
        if \<not> new then mirror_rows_loop py prog args ivt processed (skipped + 1) bs
        else if mb_max_new args \<le> processed + 1 then areturn (processed + 1, skipped)
        else mirror_rows_loop py prog args ivt (processed + 1) skipped bs))"

definition batch_inputs :: "pylib \<Rightarrow> mirror_batch \<Rightarrow> fs \<Rightarrow> (inventory \<times> large_block list) res" where
  "batch_inputs py args fs =
     rbind (read_bytes fs (mb_inventory args)) (\<lambda>content.
     rbind (load_inventory py content (mb_identity args) (mb_sha256 args) (mb_count args)) (\<lambda>ivt.
     if \<not> is_file fs (mb_ipfs_bin args) then Inl (LargeExportError ''Kubo binary does not exist'')
     else
       rbind (large_rows py content) (\<lambda>rows.
       if int (length rows) \<noteq> mb_expected_count args then Inl (LargeExportError ''large-block plan count differs'')
       else Inr (ivt, rows))))"

definition run_large_batch :: "pylib \<Rightarrow> 'w program \<Rightarrow> mirror_batch \<Rightarrow> ('w machine, batch_report) action" where
  "run_large_batch py prog args =
     abind (ask (batch_inputs py args)) (\<lambda>(ivt, rows).
     if mb_plan args then
       (if rows = [] then araise IndexError
        else areturn (Plan (length rows) (\<Sum>(_, _, n)\<leftarrow>rows. n) (fst (hd rows)) (fst (last rows))))
     else
       abind (on_disk (amkdirs (mb_output_dir args))) (\<lambda>_.
       abind (mirror_rows_loop py prog args ivt 0 0 rows) (\<lambda>(new, skipped).
       areturn (Mirrored new skipped (length rows)))))"

definition batch_with_lock :: "pylib \<Rightarrow> 'w program \<Rightarrow> mirror_batch \<Rightarrow> ('w machine, batch_report) action" where
  "batch_with_lock py prog args =
     (if mb_plan args then run_large_batch py prog args
      else
        abind (on_disk (amkdirs (mb_output_dir args))) (\<lambda>_.
        abind (on_disk (take_lock (mb_output_dir args @ [''.batch.lock'']) (mb_locked args)
          (LargeExportError ''another large-block batch owns this output directory''))) (\<lambda>_.
        run_large_batch py prog args)))"

fun large_batch_refused :: "exn \<Rightarrow> bool" where
  "large_batch_refused (LargeExportError _) = True"
| "large_batch_refused (InventoryError _) = True"
| "large_batch_refused OSError = True"
| "large_batch_refused ValueError = True"
| "large_batch_refused KeyError = True"
| "large_batch_refused _ = False"

text \<open>The exit status: 2 for arguments \<open>parser.error\<close> refuses, and for a refusal; 1 for an exception that is not
  caught.\<close>

definition large_batch_main :: "pylib \<Rightarrow> 'w program \<Rightarrow> mirror_batch \<Rightarrow> ('w machine, int) action" where
  "large_batch_main py prog args s =
     (if mb_max_new args < 1 \<or> mb_start_row args < 0 then (Inr 2, s)
      else case batch_with_lock py prog args s of
          (Inl e, s') \<Rightarrow> (Inr (if large_batch_refused e then 2 else 1), s') | (Inr _, s') \<Rightarrow> (Inr 0, s'))"

section \<open>What a run has seen\<close>

text \<open>The node answered with a receipt for this row, and the digest and size its own \<open>sha256sum\<close> and \<open>stat\<close>
  printed for the CAR are those of the receipt.\<close>

definition node_holds ::
    "pylib \<Rightarrow> mirror_batch \<Rightarrow> program_run list \<Rightarrow> node_site \<Rightarrow> large_block \<Rightarrow> string \<Rightarrow> int \<Rightarrow> bool" where
  "node_holds py args log site b car_sha256 car_bytes \<longleftrightarrow>
     (case b of (row, cid, n) \<Rightarrow>
        \<exists>probe kvs report first second.
          answered log None (probe_node site row) probe \<and> json_loads py probe = Inr (JDict kvs) \<and>
          validate_record (JDict kvs) row cid n (mb_sha256 args) = Inr () \<and>
          field kvs ''car_sha256'' = JStr car_sha256 \<and> field kvs ''car_bytes'' = JInt car_bytes \<and>
          answered log None (digest_node site row) report \<and> splitlines (text_of report) = [first, second] \<and>
          py_split first \<noteq> [] \<and> hd (py_split first) = car_sha256 \<and> py_int second = Some car_bytes)"

definition row_mirrored :: "pylib \<Rightarrow> mirror_batch \<Rightarrow> program_run list \<Rightarrow> large_block \<Rightarrow> bool" where
  "row_mirrored py args log b \<longleftrightarrow>
     (\<exists>car_sha256 car_bytes. node_holds py args log GAD b car_sha256 car_bytes \<and>
        node_holds py args log XAVIER b car_sha256 car_bytes)"

lemma node_holds_append:
  "node_holds py args log site b h n \<Longrightarrow> node_holds py args (log @ l) site b h n"
  "node_holds py args l site b h n \<Longrightarrow> node_holds py args (log @ l) site b h n"
  proof -
  obtain row cid size where b: "b = (row, cid, size)" by (cases b)
  show "node_holds py args log site b h n \<Longrightarrow> node_holds py args (log @ l) site b h n"
    "node_holds py args l site b h n \<Longrightarrow> node_holds py args (log @ l) site b h n"
    unfolding node_holds_def b prod.case using answered_append by blast+
qed

lemma row_mirrored_append:
  "row_mirrored py args log b \<Longrightarrow> row_mirrored py args (log @ l) b"
  "row_mirrored py args l b \<Longrightarrow> row_mirrored py args (log @ l) b"
  unfolding row_mirrored_def using node_holds_append by blast+

lemma batch_command_Inr:
  assumes "batch_command prog argv s = (Inr out, s')"
  obtains bs where "mc_log s' = mc_log s @ [(None, argv, [], Inr (0, bs))]" "out = text_of bs"
  using assms unfolding batch_command_def by (auto simp: abind_Inr run_program_Inr)

lemma validated_car:
  assumes "validate_record (JDict kvs) row cid n sha = Inr ()"
  obtains h b where "field kvs ''car_sha256'' = JStr h" "field kvs ''car_bytes'' = JInt b"
proof -
  from assms have sha: "is_sha256 (field kvs ''car_sha256'')" and b: "as_int (field kvs ''car_bytes'') \<noteq> None"
    unfolding validate_record_def Let_def by (auto simp: rbind_eq_Inr split: if_splits option.splits)
  from sha obtain h where "field kvs ''car_sha256'' = JStr h" by (cases "field kvs ''car_sha256''") (auto simp: is_sha256_def)
  moreover from b obtain i where "field kvs ''car_bytes'' = JInt i" by (cases "field kvs ''car_bytes''") auto
  ultimately show ?thesis using that by blast
qed

lemma remote_status_Inr:
  assumes "remote_status py prog args site b s = (Inr (Some record), s')"
  obtains l kvs h n where "mc_log s' = mc_log s @ l" "record = JDict kvs" "node_holds py args l site b h n"
    "field kvs ''car_sha256'' = JStr h" "field kvs ''car_bytes'' = JInt n"
proof -
  obtain row cid size where b: "b = (row, cid, size)" by (cases b)
  from assms obtain probe s1 report where one: "batch_command prog (probe_node site row) s = (Inr probe, s1)"
    "json_loads py (ascii probe) = Inr record" "validate_record record row cid size (mb_sha256 args) = Inr ()"
    "batch_command prog (digest_node site row) s1 = (Inr report, s')" "check_digest_report site record report = Inr ()"
    unfolding remote_status_def b by (auto simp: abind_Inr split: if_splits)
  from one(1) obtain pb where pb: "mc_log s1 = mc_log s @ [(None, probe_node site row, [], Inr (0, pb))]" "probe = text_of pb"
    by (rule batch_command_Inr)
  from one(4) obtain rb where rb: "mc_log s' = mc_log s1 @ [(None, digest_node site row, [], Inr (0, rb))]" "report = text_of rb"
    by (rule batch_command_Inr)
  from one(3) obtain kvs where kvs: "record = JDict kvs"
    unfolding validate_record_def by (auto simp: rbind_eq_Inr dict_or_Inr Let_def)
  from one(3) kvs validated_car obtain h n where hn: "field kvs ''car_sha256'' = JStr h" "field kvs ''car_bytes'' = JInt n" by metis
  let ?lines = "splitlines (text_of rb)"
  have rep: "length ?lines = 2" "py_split (?lines ! 0) \<noteq> []" "hd (py_split (?lines ! 0)) = h" "py_int (?lines ! 1) = Some n"
    using one(5) hn unfolding check_digest_report_def kvs rb(2) Let_def parsed_int_def
    by (auto simp: rbind_eq_Inr eq_str_def dict_or_Inr split: if_splits option.splits)
  from rep(1) obtain first second where lines: "?lines = [first, second]" by (auto simp: numeral_2_eq_2 length_Suc_conv)
  let ?l = "[(None, probe_node site row, [], Inr (0, pb)), (None, digest_node site row, [], Inr (0, rb))] :: program_run list"
  have "answered ?l None (probe_node site row) pb" "answered ?l None (digest_node site row) rb" unfolding answered_def by auto
  moreover have "json_loads py pb = Inr (JDict kvs)" using one(2) pb(2) kvs by simp
  ultimately have "node_holds py args ?l site b h n"
    unfolding node_holds_def b using one(3) kvs hn rep(2-4) lines by fastforce
  then show ?thesis using that [of ?l kvs h n] pb(1) rb(1) kvs hn by simp
qed

lemma json_eq_car:
  assumes "json_eq (JDict a) (JDict b)" and "field a ''car_sha256'' = JStr h" and "field a ''car_bytes'' = JInt n"
    and "field b ''car_sha256'' = JStr h'" and "field b ''car_bytes'' = JInt n'"
  shows "h = h' \<and> n = n'"
proof -
  have "map_of b ''car_sha256'' = Some (JStr h')" "map_of b ''car_bytes'' = Some (JInt n')"
    using assms(4,5) by (auto simp: field_def split: option.splits)
  moreover from assms(1) obtain a' where "JDict a = JDict a'" "\<And>k y. map_of b k = Some y \<Longrightarrow> json_eq (field a' k) y"
    by (rule json_eq_dict) blast
  ultimately have "json_eq (field a ''car_sha256'') (JStr h')" "json_eq (field a ''car_bytes'') (JInt n')" by simp_all
  then show ?thesis using assms(2,3) by (simp add: json_eq_str json_eq_int)
qed

section \<open>One row has been put on both nodes\<close>

text \<open>No step of a run takes anything out of the log.\<close>

abbreviation only_logs :: "('w machine, 'a) action \<Rightarrow> bool" where
  "only_logs m \<equiv> (\<forall>log. keeps (after log (\<lambda>_. True)) m)"

lemma keeps_batch_command [keeps_intros]: "prog_keeps Q prog \<Longrightarrow> keeps (after log Q) (batch_command prog argv)"
  unfolding batch_command_def by (intro keeps_intros)

lemma keeps_remote_status [keeps_intros]:
  "prog_keeps Q prog \<Longrightarrow> keeps (after log Q) (remote_status py prog args site b)"
  unfolding remote_status_def by (intro keeps_intros)

lemma keeps_put_remote [keeps_intros]: "prog_keeps Q prog \<Longrightarrow> keeps (after log Q) (put_remote prog site car record)"
  unfolding put_remote_def Let_def by (intro keeps_intros)

lemma program_keeps_nothing [simp]: "prog_keeps (\<lambda>_. True) prog"
  by (simp add: prog_keeps_def)

lemma after_fs: "after log (\<lambda>_. True) (s\<lparr>mc_fs := fs\<rparr>) \<longleftrightarrow> after log (\<lambda>_. True) s"
  by (simp add: after_def)

lemma keeps_afinally_fs:
  "keeps (after log (\<lambda>_. True)) m \<Longrightarrow> keeps (after log (\<lambda>_. True)) (afinally m (\<lambda>s. s\<lparr>mc_fs := f (mc_fs s)\<rparr>))"
  unfolding keeps_def afinally_def by (auto simp: after_def split: prod.splits)

lemma keeps_any_disk: "keeps (after log (\<lambda>_. True)) (on_disk m)"
  by (rule keeps_on_disk) (simp add: keeps_def)

lemma export_large_logs: "keeps (after log (\<lambda>_. True)) (export_large py prog args given)"
  unfolding export_large_def export_checked_def pack_source_def restore_original_def stdout_to_def Let_def
  by (intro keeps_intros keeps_afinally_fs keeps_any_disk program_keeps_nothing)

lemma obtain_record_logs: "keeps (after log (\<lambda>_. True)) (obtain_record py prog args ivt b)"
  unfolding obtain_record_def by (intro keeps_intros export_large_logs)

lemma place_on_Inr:
  assumes "place_on py prog args b record site before s = (Inr v, s')"
  obtains l kvs h n where "mc_log s' = mc_log s @ l" "v = JDict kvs" "node_holds py args l site b h n"
    "field kvs ''car_sha256'' = JStr h" "field kvs ''car_bytes'' = JInt n" "json_eq v record"
proof -
  let ?put = "if before = None then put_remote prog site (batch_car args (fst b)) record else areturn ()"
  from assms obtain s1 where one: "?put s = (Inr (), s1)" "remote_status py prog args site b s1 = (Inr (Some v), s')" "json_eq v record"
    unfolding place_on_def Let_def by (auto simp: abind_Inr split: if_splits option.splits)
  have "keeps (after l (\<lambda>_. True)) ?put" for l by (intro keeps_intros program_keeps_nothing)
  from logged_action [OF this one(1)] obtain l0 where l0: "mc_log s1 = mc_log s @ l0" by blast
  from one(2) obtain l kvs h n where l: "mc_log s' = mc_log s1 @ l" "v = JDict kvs" "node_holds py args l site b h n"
    "field kvs ''car_sha256'' = JStr h" "field kvs ''car_bytes'' = JInt n" by (rule remote_status_Inr)
  show ?thesis using that [of "l0 @ l" kvs h n] l0 l node_holds_append(2) one(3) by simp
qed

lemma obtain_record_Inr:
  assumes "obtain_record py prog args ivt b s = (Inr record, s')"
  obtains kvs h n where "record = JDict kvs" "field kvs ''car_sha256'' = JStr h" "field kvs ''car_bytes'' = JInt n"
proof -
  obtain row cid size where b: "b = (row, cid, size)" by (cases b)
  from assms consider "local_status py args (batch_car args row) b (mc_fs s) = Inr (Some record)"
    | "export_large py prog (row_export_args args row) (Some ivt) s = (Inr record, s')"
    unfolding obtain_record_def b by (auto simp: abind_Inr ask_Inr split: option.splits if_splits)
  then show ?thesis
  proof cases
    case 1
    then have v: "validate_record record row cid size (mb_sha256 args) = Inr ()"
      unfolding local_status_def b Let_def by (auto simp: rbind_eq_Inr split: if_splits)
    then obtain kvs where kvs: "record = JDict kvs"
      unfolding validate_record_def by (auto simp: rbind_eq_Inr dict_or_Inr Let_def)
    from v [unfolded kvs] show ?thesis by (rule validated_car) (use that kvs in blast)
  next
    case 2
    then obtain url cid' n' digest root_cid cb cd where
      "record = large_record (row_export_args args row) cid' n' digest root_cid cb cd"
      unfolding export_large_def export_checked_def Let_def
      by (auto simp: abind_Inr ask_Inr afinally_Inr split: prod.splits)
    then show ?thesis using that by (simp add: large_record_def)
  qed
qed

lemma mirror_row_Inr:
  assumes "mirror_row py prog args ivt b s = (Inr fresh, s')"
  shows "\<exists>l. mc_log s' = mc_log s @ l \<and> row_mirrored py args l b"
proof -
  from assms obtain gad s1 xavier s2 where probes: "remote_status py prog args GAD b s = (Inr gad, s1)"
    "remote_status py prog args XAVIER b s1 = (Inr xavier, s2)"
    and rest: "(case (gad, xavier) of
       (Some g, Some x) \<Rightarrow>
         if \<not> json_eq g x then araise (LargeExportError (''node receipts differ for row '' @ dec_text (fst b)))
         else
           abind (ask (local_status py args (batch_car args (fst b)) b)) (\<lambda>found.
           if found \<noteq> None \<and> \<not> json_eq (the found) g
           then araise (LargeExportError (''local receipt differs from nodes for row '' @ dec_text (fst b)))
           else areturn False)
     | _ \<Rightarrow>
         abind (obtain_record py prog args ivt b) (\<lambda>record.
         abind (place_on py prog args b record GAD gad) (\<lambda>_.
         abind (place_on py prog args b record XAVIER xavier) (\<lambda>_.
         areturn True)))) s2 = (Inr fresh, s')"
    unfolding mirror_row_def by (auto simp: abind_Inr)
  show ?thesis
  proof (cases "gad \<noteq> None \<and> xavier \<noteq> None")
    case True
    then obtain g x where gx: "gad = Some g" "xavier = Some x" by blast
    from probes(1) [unfolded gx] obtain l1 a h n where one: "mc_log s1 = mc_log s @ l1" "g = JDict a"
      "node_holds py args l1 GAD b h n" "field a ''car_sha256'' = JStr h" "field a ''car_bytes'' = JInt n" by (rule remote_status_Inr)
    from probes(2) [unfolded gx] obtain l2 c h' n' where two: "mc_log s2 = mc_log s1 @ l2" "x = JDict c"
      "node_holds py args l2 XAVIER b h' n'" "field c ''car_sha256'' = JStr h'" "field c ''car_bytes'' = JInt n'"
      by (rule remote_status_Inr)
    from rest gx have "json_eq g x" "s' = s2" by (auto simp: abind_Inr ask_Inr split: if_splits)
    with json_eq_car one two have "h = h' \<and> n = n'" by metis
    then have "row_mirrored py args (l1 @ l2) b"
      unfolding row_mirrored_def using one(3) two(3) node_holds_append by blast
    then show ?thesis using one(1) two(1) \<open>s' = s2\<close> by auto
  next
    case False
    from rest False obtain rec s3 v s4 w where steps: "obtain_record py prog args ivt b s2 = (Inr rec, s3)"
      "place_on py prog args b rec GAD gad s3 = (Inr v, s4)" "place_on py prog args b rec XAVIER xavier s4 = (Inr w, s')"
      by (auto simp: abind_Inr split: option.splits)
    have logs: "\<exists>l. mc_log s2 = mc_log s @ l" "\<exists>l. mc_log s3 = mc_log s2 @ l"
      using logged_action [OF keeps_remote_status [OF program_keeps_nothing] probes(1)]
        logged_action [OF keeps_remote_status [OF program_keeps_nothing] probes(2)]
        logged_action [OF obtain_record_logs steps(1)] by auto
    from steps(1) obtain r h n where r: "rec = JDict r" "field r ''car_sha256'' = JStr h" "field r ''car_bytes'' = JInt n"
      by (rule obtain_record_Inr)
    from steps(2) obtain l1 a h1 n1 where one: "mc_log s4 = mc_log s3 @ l1" "v = JDict a" "node_holds py args l1 GAD b h1 n1"
      "field a ''car_sha256'' = JStr h1" "field a ''car_bytes'' = JInt n1" "json_eq v rec" by (rule place_on_Inr)
    from steps(3) obtain l2 c h2 n2 where two: "mc_log s' = mc_log s4 @ l2" "w = JDict c" "node_holds py args l2 XAVIER b h2 n2"
      "field c ''car_sha256'' = JStr h2" "field c ''car_bytes'' = JInt n2" "json_eq w rec" by (rule place_on_Inr)
    have "h1 = h \<and> n1 = n" "h2 = h \<and> n2 = n" using json_eq_car one(2,4-6) two(2,4-6) r by metis+
    then have "row_mirrored py args (l1 @ l2) b"
      unfolding row_mirrored_def using one(3) two(3) node_holds_append by blast
    moreover from logs obtain l0 where "mc_log s3 = mc_log s @ l0" by auto
    ultimately show ?thesis using one(1) two(1) row_mirrored_append(2) by (intro exI [of _ "l0 @ l1 @ l2"]) simp
  qed
qed

text \<open>The rows a run has to deal with, in the order of the inventory.\<close>

definition due_rows :: "mirror_batch \<Rightarrow> large_block list \<Rightarrow> large_block list" where
  "due_rows args rows = filter (\<lambda>b. mb_start_row args \<le> int (fst b)) rows"

lemma mirror_rows_loop_Inr:
  assumes "mirror_rows_loop py prog args ivt processed skipped rows s = (Inr (p, k), s')" and "processed < mb_max_new args"
  shows "\<exists>l m. mc_log s' = mc_log s @ l \<and> p + k = processed + skipped + m \<and> m \<le> length (due_rows args rows) \<and>
    p \<le> mb_max_new args \<and> (p < mb_max_new args \<longrightarrow> m = length (due_rows args rows)) \<and>
    (\<forall>b \<in> set (take m (due_rows args rows)). row_mirrored py args l b)"
  using assms
proof (induction rows arbitrary: processed skipped s)
  case Nil
  then show ?case by (auto simp: due_rows_def)
next
  case (Cons b rows)
  show ?case
  proof (cases "int (fst b) < mb_start_row args")
    case True
    then show ?thesis using Cons.IH [of processed skipped s] Cons.prems by (auto simp: due_rows_def)
  next
    case False
    then have due: "due_rows args (b # rows) = b # due_rows args rows" by (simp add: due_rows_def)
    from Cons.prems(1) False obtain fresh s1 where one: "mirror_row py prog args ivt b s = (Inr fresh, s1)"
      by (auto simp: abind_Inr)
    from mirror_row_Inr [OF one] obtain l1 where l1: "mc_log s1 = mc_log s @ l1" "row_mirrored py args l1 b" by blast
    show ?thesis
    proof (cases "fresh \<and> mb_max_new args \<le> processed + 1")
      case True
      then have "p = processed + 1" "k = skipped" "s' = s1" using Cons.prems False one by (auto simp: abind_def)
      then show ?thesis using l1 Cons.prems(2) True due by (intro exI [of _ l1] exI [of _ 1]) auto
    next
      case stay: False
      obtain processed' skipped' where next_step: "mirror_rows_loop py prog args ivt processed' skipped' rows s1 = (Inr (p, k), s')"
        "processed' < mb_max_new args" "processed' + skipped' = processed + skipped + 1"
        using that [of "processed + 1" skipped] that [of processed "skipped + 1"] Cons.prems False one stay
        by (cases fresh) (auto simp: abind_def)
      from Cons.IH [OF next_step(1,2)] obtain l m where m: "mc_log s' = mc_log s1 @ l" "p + k = processed' + skipped' + m"
        "m \<le> length (due_rows args rows)" "p \<le> mb_max_new args" "p < mb_max_new args \<longrightarrow> m = length (due_rows args rows)"
        "\<forall>b \<in> set (take m (due_rows args rows)). row_mirrored py args l b" by blast
      have "\<forall>b \<in> set (take (Suc m) (due_rows args (b # rows))). row_mirrored py args (l1 @ l) b"
        using m(6) l1(2) row_mirrored_append unfolding due by auto
      then show ?thesis using m l1(1) next_step(3) due by (intro exI [of _ "l1 @ l"] exI [of _ "Suc m"]) auto
    qed
  qed
qed

section \<open>Properties\<close>

text \<open>C26: the large-block export counts a row only when both nodes have it. When a run reports how many rows are
  new and how many were there already, that many rows of the inventory's oversized blocks from the start row
  on are, in order and without a gap, on both nodes: each node showed a receipt for exactly this row, and its
  own digest and size of the CAR, the same on both, are those of the receipt. Never more than the allowed
  number is new, and with fewer no row is left.\<close>

theorem large_batch_counts_mirrored_rows:
  assumes "run_large_batch py prog args s = (Inr (Mirrored fresh skipped planned), s')" and "0 < mb_max_new args"
  shows "\<exists>ivt rows l. batch_inputs py args (mc_fs s) = Inr (ivt, rows) \<and> planned = length rows \<and>
    int planned = mb_expected_count args \<and> mc_log s' = mc_log s @ l \<and> fresh \<le> mb_max_new args \<and>
    fresh + skipped \<le> length (due_rows args rows) \<and>
    (fresh < mb_max_new args \<longrightarrow> fresh + skipped = length (due_rows args rows)) \<and>
    (\<forall>b \<in> set (take (fresh + skipped) (due_rows args rows)). row_mirrored py args l b)"
proof -
  from assms(1) obtain ivt rows s1 where inputs: "batch_inputs py args (mc_fs s) = Inr (ivt, rows)"
    "on_disk (amkdirs (mb_output_dir args)) s = (Inr (), s1)"
    "mirror_rows_loop py prog args ivt 0 0 rows s1 = (Inr (fresh, skipped), s')" "planned = length rows"
    unfolding run_large_batch_def by (auto simp: abind_Inr ask_Inr split: if_splits)
  have "mc_log s1 = mc_log s" using inputs(2) by (auto simp: on_disk_def split: prod.splits)
  moreover have "int (length rows) = mb_expected_count args"
    using inputs(1) by (auto simp: batch_inputs_def rbind_eq_Inr split: if_splits)
  ultimately show ?thesis using inputs(1,4) mirror_rows_loop_Inr [OF inputs(3) assms(2)] by auto
qed

section \<open>A concrete run\<close>

text \<open>Both nodes hold the one oversized row already.\<close>

definition mirror_prog :: "unit program" where
  "mirror_prog repo argv data s =
     (Inr (0, if hd (argv ! 4) = CHR ''i'' then [84] else ascii (hex (replicate 32 7) @ ''  car'' @ [CHR 0x0A] @ ''2'')), s)"

definition toy_mirror :: mirror_batch where
  "toy_mirror = \<lparr>mb_inventory = [''inv''], mb_sha256 = hex (replicate 32 7), mb_count = 1, mb_expected_count = 1,
     mb_output_dir = [''o''], mb_ipfs_bin = [''ipfs''], mb_start_row = 0, mb_max_new = 1, mb_plan = False, mb_free = (\<lambda>_. 0),
     mb_tmp = (\<lambda>_. [''tmp'']), mb_tag = (\<lambda>_. ''t''), mb_urlsplit = toy_url,
     mb_identity = \<lparr>st_ino = 1, st_size = 2, st_mtime_ns = 3\<rparr>, mb_fails = (\<lambda>_ _. False), mb_locked = False\<rparr>"

lemma toy_batch_mirrored:
  "fst (run_large_batch large_export_py mirror_prog toy_mirror export_start) = Inr (Mirrored 0 1 1)"
  by code_simp

theorem large_batch_counts_mirrored_rows_witness:
  "\<exists>b l. row_mirrored large_export_py toy_mirror l b"
proof -
  obtain s' where run: "run_large_batch large_export_py mirror_prog toy_mirror export_start = (Inr (Mirrored 0 1 1), s')"
    using toy_batch_mirrored by (metis prod.collapse)
  have "0 < mb_max_new toy_mirror" by (simp add: toy_mirror_def)
  from large_batch_counts_mirrored_rows [OF run this] obtain rows l where
    "0 + 1 = length (due_rows toy_mirror rows)"
    "\<forall>b \<in> set (take (0 + 1) (due_rows toy_mirror rows)). row_mirrored large_export_py toy_mirror l b"
    by (auto simp: toy_mirror_def)
  then show ?thesis by (cases "due_rows toy_mirror rows") auto
qed

end
