(* ===== verification/Origin_Bridge.thy ===== *)
theory Origin_Bridge
  imports Replication_State File_Actions
begin

text \<open>
  \<open>deploy/r2_origin_bridge.py\<close>: a loopback server that fetches blocks of the pinned inventory from an object
  store, with a byte budget shared by all request threads and a credential shared under a lock. A thread's
  next step is a function of the shared state; any interleaving is a sequence of thread numbers. Shown: what
  is sent has the size and the digest of its inventory row, the bytes in flight never exceed the budget and
  are all given back, and the threads cannot block each other for ever.
\<close>

section \<open>Outside\<close>

text \<open>What the object store answers: a response, an \<open>HTTPError\<close> with its code, or another exception.\<close>

datatype object_answer =
    Object_Response int bytes
  | HTTP_Error_Code int
  | Open_Failed exn

type_synonym 'w opener = "string \<Rightarrow> string \<Rightarrow> 'w \<Rightarrow> object_answer \<times> 'w"

record origin =
  og_sizes :: "(string \<times> int) list"
  og_account_id :: string
  og_bucket :: string
  og_limit :: int

text \<open>The keys with the least value, the first of them: \<open>min(sizes, key=sizes.get)\<close>.\<close>

definition canary_cid :: "(string \<times> int) list \<Rightarrow> string" where
  "canary_cid sizes = fst (foldl (\<lambda>best row. if snd row < snd best then row else best) (hd sizes) (tl sizes))"

section \<open>Threads\<close>

datatype bridge_reply =
    Health_Report nat
  | Block_Bytes bytes
  | Error_Status nat

text \<open>A request: its path as received; with its bytes acquired, before the credential (again after a 401); with
  the credential, before the request; about to give the bytes back; and ended. The flag is set for the
  health check.\<close>

datatype bridge_thread =
    Arrived string
  | Holding bool string int bool
  | Authorised bool string int bool string
  | Leaving bool string int "bytes res"
  | Replied "bridge_reply res"

record 'w bridge =
  bg_used :: int
  bg_token :: "string option"
  bg_world :: 'w
  bg_threads :: "bridge_thread list"

text \<open>\<open>ByteBudget\<close>: \<open>acquire\<close> raises, waits (\<open>None\<close>) or takes the bytes; \<open>release\<close> gives them back.\<close>

definition budget_acquire :: "int \<Rightarrow> int \<Rightarrow> 'w bridge \<Rightarrow> 'w bridge option res" where
  "budget_acquire limit n s =
     (if limit < n then Inl ValueError
      else if limit < bg_used s + n then Inr None else Inr (Some (s\<lparr>bg_used := bg_used s + n\<rparr>)))"

definition budget_release :: "int \<Rightarrow> 'w bridge \<Rightarrow> 'w bridge" where
  "budget_release n s = s\<lparr>bg_used := bg_used s - n\<rparr>"

text \<open>\<open>OAuthToken.get\<close>\<close>

definition token_command :: "string list" where
  "token_command = [''npx'', ''--yes'', ''wrangler'', ''auth'', ''token'', ''--json'']"

definition read_token :: "pylib \<Rightarrow> int \<times> bytes \<Rightarrow> string res" where
  "read_token py answer =
     (case answer of (rc, out) \<Rightarrow>
        if rc \<noteq> 0 then Inl CalledProcessError
        else
          rbind (json_loads py out) (\<lambda>v.
          rbind (jsub v ''token'') (\<lambda>candidate.
          case as_str candidate of None \<Rightarrow> Inl ValueError | Some t \<Rightarrow> if t = [] then Inl ValueError else Inr t)))"

definition token_get :: "pylib \<Rightarrow> 'w runner \<Rightarrow> bool \<Rightarrow> ('w bridge, string) action" where
  "token_get py cli refresh s =
     (case bg_token s of
        Some t \<Rightarrow>
          if \<not> refresh then (Inr t, s)
          else (case cli token_command (bg_world s) of (answer, w) \<Rightarrow>
            (case rbind answer (read_token py) of
               Inl e \<Rightarrow> (Inl e, s\<lparr>bg_world := w\<rparr>) | Inr t \<Rightarrow> (Inr t, s\<lparr>bg_world := w, bg_token := Some t\<rparr>)))
      | None \<Rightarrow>
          (case cli token_command (bg_world s) of (answer, w) \<Rightarrow>
            (case rbind answer (read_token py) of
               Inl e \<Rightarrow> (Inl e, s\<lparr>bg_world := w\<rparr>) | Inr t \<Rightarrow> (Inr t, s\<lparr>bg_world := w, bg_token := Some t\<rparr>))))"

definition object_url :: "origin \<Rightarrow> string \<Rightarrow> string" where
  "object_url og cid =
     ''https://api.cloudflare.com/client/v4/accounts/'' @ og_account_id og @ ''/r2/buckets/'' @ og_bucket og @
     ''/objects/ipld/'' @ cid"

text \<open>The body against the row and against the CID.\<close>

definition checked_body :: "pylib \<Rightarrow> string \<Rightarrow> int \<Rightarrow> bytes \<Rightarrow> bytes res" where
  "checked_body py cid n body =
     (if int (length body) \<noteq> n then Inl OSError
      else case verify_cid (sha256 py) cid body of Inl e \<Rightarrow> Inl OSError | Inr _ \<Rightarrow> Inr body)"

text \<open>After the request: the block or an exception, or the second attempt.\<close>

definition object_outcome :: "pylib \<Rightarrow> bool \<Rightarrow> string \<Rightarrow> int \<Rightarrow> bool \<Rightarrow> object_answer \<Rightarrow> bridge_thread" where
  "object_outcome py health cid n retried answer =
     (case answer of
        Object_Response status body \<Rightarrow>
          Leaving health cid n (if status \<noteq> 200 then Inl OSError else checked_body py cid n (take (nat (n + 1)) body))
      | HTTP_Error_Code code \<Rightarrow> if code \<noteq> 401 \<or> retried then Leaving health cid n (Inl OSError) else Holding health cid n True
      | Open_Failed e \<Rightarrow> Leaving health cid n (Inl e))"

text \<open>The reply for what \<open>origin.fetch\<close> gave; an exception that no clause names ends the handler.\<close>

fun bad_origin :: "exn \<Rightarrow> bool" where
  "bad_origin OSError = True"
| "bad_origin CalledProcessError = True"
| "bad_origin TimeoutExpired = True"
| "bad_origin ValueError = True"
| "bad_origin _ = False"

definition bridge_reply_for :: "origin \<Rightarrow> bool \<Rightarrow> bytes res \<Rightarrow> bridge_reply res" where
  "bridge_reply_for og health r =
     (case r of
        Inr body \<Rightarrow> Inr (if health then Health_Report (length (og_sizes og)) else Block_Bytes body)
      | Inl e \<Rightarrow>
          if \<not> health \<and> e = KeyError then Inr (Error_Status 404)
          else if bad_origin e then Inr (Error_Status (if health then 503 else 502)) else Inl e)"

text \<open>\<open>do_GET\<close>: the CID a path asks for, and whether it is the health check.\<close>

definition bridge_route :: "origin \<Rightarrow> string \<Rightarrow> (bool \<times> string) option" where
  "bridge_route og path =
     (if path = ''/healthz'' then Some (True, canary_cid (og_sizes og))
      else if startswith path ''/ipfs/'' \<and> length (filter (\<lambda>c. c = CHR ''/'') path) = 2 then Some (False, drop 6 path)
      else None)"

section \<open>Steps\<close>

definition put_thread :: "nat \<Rightarrow> bridge_thread \<Rightarrow> 'w bridge \<Rightarrow> 'w bridge" where
  "put_thread i t s = s\<lparr>bg_threads := (bg_threads s)[i := t]\<rparr>"

text \<open>\<open>Origin.fetch\<close> up to \<open>acquire\<close>.\<close>

definition begin_fetch :: "origin \<Rightarrow> nat \<Rightarrow> bool \<Rightarrow> string \<Rightarrow> 'w bridge \<Rightarrow> 'w bridge option" where
  "begin_fetch og i health cid s =
     (case map_of (og_sizes og) cid of
        None \<Rightarrow> Some (put_thread i (Replied (bridge_reply_for og health (Inl KeyError))) s)
      | Some n \<Rightarrow>
          (case budget_acquire (og_limit og) n s of
             Inl e \<Rightarrow> Some (put_thread i (Replied (bridge_reply_for og health (Inl e))) s)
           | Inr None \<Rightarrow> None
           | Inr (Some s') \<Rightarrow> Some (put_thread i (Holding health cid n False) s')))"

text \<open>The next step of thread \<open>i\<close>; \<open>None\<close> when it has ended or must wait.\<close>

definition bridge_step :: "pylib \<Rightarrow> 'w runner \<Rightarrow> 'w opener \<Rightarrow> origin \<Rightarrow> nat \<Rightarrow> 'w bridge \<Rightarrow> 'w bridge option" where
  "bridge_step py cli opener og i s =
     (if \<not> i < length (bg_threads s) then None
      else case bg_threads s ! i of
        Arrived path \<Rightarrow>
          (case bridge_route og path of
             None \<Rightarrow> Some (put_thread i (Replied (Inr (Error_Status 404))) s)
           | Some (health, cid) \<Rightarrow> begin_fetch og i health cid s)
      | Holding health cid n retried \<Rightarrow>
          (case token_get py cli retried s of
             (Inl e, s') \<Rightarrow> Some (put_thread i (Leaving health cid n (Inl e)) s')
           | (Inr t, s') \<Rightarrow> Some (put_thread i (Authorised health cid n retried t) s'))
      | Authorised health cid n retried t \<Rightarrow>
          (case opener (object_url og cid) t (bg_world s) of
             (answer, w) \<Rightarrow> Some (put_thread i (object_outcome py health cid n retried answer) (s\<lparr>bg_world := w\<rparr>)))
      | Leaving health cid n r \<Rightarrow> Some (put_thread i (Replied (bridge_reply_for og health r)) (budget_release n s))
      | Replied r \<Rightarrow> None)"

text \<open>A schedule: the numbers of the threads in the order of their steps. A thread that cannot move is passed
  over.\<close>

definition scheduled_step :: "pylib \<Rightarrow> 'w runner \<Rightarrow> 'w opener \<Rightarrow> origin \<Rightarrow> nat \<Rightarrow> 'w bridge \<Rightarrow> 'w bridge" where
  "scheduled_step py cli opener og i s = (case bridge_step py cli opener og i s of None \<Rightarrow> s | Some s' \<Rightarrow> s')"

definition bridge_run :: "pylib \<Rightarrow> 'w runner \<Rightarrow> 'w opener \<Rightarrow> origin \<Rightarrow> nat list \<Rightarrow> 'w bridge \<Rightarrow> 'w bridge" where
  "bridge_run py cli opener og schedule s = fold (scheduled_step py cli opener og) schedule s"

section \<open>Starting\<close>

record bridge_args =
  bra_inventory :: path
  bra_sha256 :: string
  bra_account_id :: string
  bra_bucket :: string
  bra_port :: int
  bra_max_memory :: int

definition bucket_char :: "char \<Rightarrow> bool" where
  "bucket_char c \<longleftrightarrow> (CHR ''a'' \<le> c \<and> c \<le> CHR ''z'') \<or> is_digit c"

definition match_bucket :: "string \<Rightarrow> bool" where
  "match_bucket s \<longleftrightarrow> 3 \<le> length s \<and> length s \<le> 64 \<and> bucket_char (hd s) \<and>
     list_all (\<lambda>c. bucket_char c \<or> c = CHR ''-'') (tl s)"

definition match_account :: "string \<Rightarrow> bool" where
  "match_account s \<longleftrightarrow> length s = 32 \<and> list_all (\<lambda>c. c \<in> set hex_digits) s"

definition bridge_args_ok :: "bridge_args \<Rightarrow> bool" where
  "bridge_args_ok args \<longleftrightarrow> match_account (bra_account_id args) \<and> match_bucket (bra_bucket args) \<and>
     \<not> (bra_port args < 1 \<or> 65535 < bra_port args \<or> bra_max_memory args < 256000000)"

definition origin_of :: "bridge_args \<Rightarrow> (string \<times> int) list \<Rightarrow> origin" where
  "origin_of args sizes =
     \<lparr>og_sizes = sizes, og_account_id = bra_account_id args, og_bucket = bra_bucket args, og_limit = bra_max_memory args\<rparr>"

text \<open>\<open>main\<close> up to the point where it serves: exit status 2 from the parser, 1 for an exception; else the server
  with the requests that will arrive.\<close>

definition start_bridge ::
    "pylib \<Rightarrow> 'w runner \<Rightarrow> fs \<Rightarrow> bridge_args \<Rightarrow> string list \<Rightarrow> 'w \<Rightarrow> int + origin \<times> 'w bridge" where
  "start_bridge py cli fs args paths w =
     (if \<not> bridge_args_ok args then Inl 2
      else case inventory_sizes py fs (bra_inventory args) (Some (bra_sha256 args)) of
          Inl e \<Rightarrow> Inl 1
        | Inr sizes \<Rightarrow>
            (case token_get py cli False \<lparr>bg_used = 0, bg_token = None, bg_world = w, bg_threads = map Arrived paths\<rparr> of
               (Inl e, s) \<Rightarrow> Inl 1 | (Inr t, s) \<Rightarrow> Inr (origin_of args sizes, s)))"

section \<open>What every interleaving keeps\<close>

fun held :: "bridge_thread \<Rightarrow> int" where
  "held (Holding health cid n retried) = n"
| "held (Authorised health cid n retried t) = n"
| "held (Leaving health cid n r) = n"
| "held _ = 0"

text \<open>The bytes are those of the row and of the CID.\<close>

definition verified_block :: "pylib \<Rightarrow> origin \<Rightarrow> string \<Rightarrow> bytes \<Rightarrow> bool" where
  "verified_block py og cid d \<longleftrightarrow>
     map_of (og_sizes og) cid = Some (int (length d)) \<and> sha256_digest cid = Inr (sha256 py d)"

definition asked_for :: "origin \<Rightarrow> string \<Rightarrow> bool \<Rightarrow> string \<Rightarrow> int \<Rightarrow> bool" where
  "asked_for og path health cid n \<longleftrightarrow> bridge_route og path = Some (health, cid) \<and> map_of (og_sizes og) cid = Some n"

text \<open>What a reply says of the request it answers.\<close>

fun reply_ok :: "pylib \<Rightarrow> origin \<Rightarrow> string \<Rightarrow> bridge_reply res \<Rightarrow> bool" where
  "reply_ok py og path (Inr (Block_Bytes d)) = (\<exists>cid. path = ''/ipfs/'' @ cid \<and> verified_block py og cid d)"
| "reply_ok py og path (Inr (Health_Report m)) =
     (path = ''/healthz'' \<and> m = length (og_sizes og) \<and> (\<exists>d. verified_block py og (canary_cid (og_sizes og)) d))"
| "reply_ok py og path _ = True"

fun thread_ok :: "pylib \<Rightarrow> origin \<Rightarrow> string \<Rightarrow> bridge_thread \<Rightarrow> bool" where
  "thread_ok py og path (Arrived p) = (p = path)"
| "thread_ok py og path (Holding health cid n retried) = asked_for og path health cid n"
| "thread_ok py og path (Authorised health cid n retried t) = asked_for og path health cid n"
| "thread_ok py og path (Leaving health cid n r) =
     (asked_for og path health cid n \<and> (\<forall>d. r = Inr d \<longrightarrow> verified_block py og cid d))"
| "thread_ok py og path (Replied r) = reply_ok py og path r"

definition bridge_ok :: "pylib \<Rightarrow> origin \<Rightarrow> string list \<Rightarrow> 'w bridge \<Rightarrow> bool" where
  "bridge_ok py og paths s \<longleftrightarrow>
     length (bg_threads s) = length paths \<and> (\<forall>i < length paths. thread_ok py og (paths ! i) (bg_threads s ! i)) \<and>
     bg_used s = (\<Sum>t\<leftarrow>bg_threads s. held t) \<and> bg_used s \<le> og_limit og"

lemma held_update:
  "i < length ts \<Longrightarrow> (\<Sum>x\<leftarrow>ts[i := t]. f x) = (\<Sum>x\<leftarrow>ts. f x) - f (ts ! i) + (f t :: int)"
  by (induction ts arbitrary: i) (auto split: nat.splits)

lemma bridge_ok_put:
  assumes "bridge_ok py og paths s" and "i < length (bg_threads s)" and "thread_ok py og (paths ! i) t"
    and "bg_threads s' = bg_threads s" and "bg_used s' = bg_used s - held (bg_threads s ! i) + held t"
    and "bg_used s' \<le> og_limit og"
  shows "bridge_ok py og paths (put_thread i t s')"
  using assms held_update [OF assms(2), of held t] by (auto simp: bridge_ok_def put_thread_def nth_list_update)

lemma token_get_shared:
  assumes "token_get py cli refresh s = (r, s')"
  shows "bg_threads s' = bg_threads s" "bg_used s' = bg_used s"
  using assms unfolding token_get_def by (auto split: option.splits prod.splits sum.splits if_splits)

lemma bridge_route_Some:
  "bridge_route og path = Some (True, cid) \<Longrightarrow> path = ''/healthz'' \<and> cid = canary_cid (og_sizes og)"
  "bridge_route og path = Some (False, cid) \<Longrightarrow> path = ''/ipfs/'' @ cid"
proof -
  show "bridge_route og path = Some (True, cid) \<Longrightarrow> path = ''/healthz'' \<and> cid = canary_cid (og_sizes og)"
    by (auto simp: bridge_route_def split: if_splits)
  assume "bridge_route og path = Some (False, cid)"
  then have "take 6 path = ''/ipfs/''" "drop 6 path = cid"
    by (auto simp: bridge_route_def startswith_def numeral_eq_Suc split: if_splits)
  then show "path = ''/ipfs/'' @ cid" by (metis append_take_drop_id)
qed

lemma checked_body_Inr: "checked_body py cid n body = Inr d \<Longrightarrow> d = body \<and> int (length d) = n \<and> sha256_digest cid = Inr (sha256 py d)"
  unfolding checked_body_def by (auto simp: verify_cid_ok split: if_splits sum.splits)

lemma object_outcome_ok:
  assumes "asked_for og path health cid n"
  shows "thread_ok py og path (object_outcome py health cid n retried answer) \<and> held (object_outcome py health cid n retried answer) = n"
  using assms by (cases answer) (auto simp: object_outcome_def verified_block_def asked_for_def dest!: checked_body_Inr)

lemma reply_for_ok:
  assumes "asked_for og path health cid n" and "\<forall>d. r = Inr d \<longrightarrow> verified_block py og cid d"
  shows "reply_ok py og path (bridge_reply_for og health r)"
proof (cases r)
  case (Inl e)
  then show ?thesis by (auto simp: bridge_reply_for_def)
next
  case (Inr d)
  with assms have "verified_block py og cid d" "bridge_route og path = Some (health, cid)" by (simp_all add: asked_for_def)
  then show ?thesis using Inr bridge_route_Some(1) [of og path cid] bridge_route_Some(2) [of og path cid]
    by (cases health) (auto simp: bridge_reply_for_def)
qed

lemma refused_reply_ok [simp]: "reply_ok py og path (bridge_reply_for og health (Inl e))"
  by (auto simp: bridge_reply_for_def)

lemma begin_fetch_ok:
  assumes "begin_fetch og i health cid s = Some s'" and "bridge_ok py og paths s" and "i < length (bg_threads s)"
    and "bg_threads s ! i = Arrived path" and "bridge_route og path = Some (health, cid)"
  shows "bridge_ok py og paths s'"
proof -
  have path: "paths ! i = path" using assms(2-4) by (auto simp: bridge_ok_def)
  have used: "bg_used s \<le> og_limit og" using assms(2) by (simp add: bridge_ok_def)
  show ?thesis
  proof (cases "map_of (og_sizes og) cid")
    case None
    then show ?thesis using assms(1) bridge_ok_put [OF assms(2,3), of _ s] assms(4) used by (auto simp: begin_fetch_def)
  next
    case (Some n)
    then have "asked_for og path health cid n" using assms(5) by (simp add: asked_for_def)
    then show ?thesis
      using assms(1,4) Some path used bridge_ok_put [OF assms(2,3), of _ s]
        bridge_ok_put [OF assms(2,3), of "Holding health cid n False" "s\<lparr>bg_used := bg_used s + n\<rparr>"]
      by (auto simp: begin_fetch_def budget_acquire_def split: if_splits)
  qed
qed

lemma bridge_step_ok:
  assumes "bridge_step py cli opener og i s = Some s'" and "bridge_ok py og paths s" and "\<forall>(cid, n) \<in> set (og_sizes og). 0 < n"
  shows "bridge_ok py og paths s'"
proof -
  from assms(1) have i: "i < length (bg_threads s)" by (auto simp: bridge_step_def split: if_splits)
  then have ok: "thread_ok py og (paths ! i) (bg_threads s ! i)" and used: "bg_used s \<le> og_limit og"
    using assms(2) by (auto simp: bridge_ok_def)
  note put = bridge_ok_put [OF assms(2) i]
  show ?thesis
  proof (cases "bg_threads s ! i")
    case (Arrived path)
    show ?thesis
    proof (cases "bridge_route og path")
      case None
      then have "s' = put_thread i (Replied (Inr (Error_Status 404))) s" using assms(1) i Arrived by (simp add: bridge_step_def)
      then show ?thesis using put [of "Replied (Inr (Error_Status 404))" s] Arrived used by simp
    next
      case (Some x)
      obtain health cid where x: "x = (health, cid)" by (cases x)
      then have "begin_fetch og i health cid s = Some s'" using assms(1) i Arrived Some by (simp add: bridge_step_def)
      from begin_fetch_ok [OF this assms(2) i Arrived] Some x show ?thesis by simp
    qed
  next
    case (Holding health cid n retried)
    obtain r s1 where tok: "token_get py cli retried s = (r, s1)" by (metis surj_pair)
    note same = token_get_shared [OF tok]
    show ?thesis
      using assms(1) i Holding tok ok same used put [of _ s1] by (cases r) (auto simp: bridge_step_def)
  next
    case (Authorised health cid n retried t)
    obtain answer w where ans: "opener (object_url og cid) t (bg_world s) = (answer, w)" by (metis surj_pair)
    have s': "s' = put_thread i (object_outcome py health cid n retried answer) (s\<lparr>bg_world := w\<rparr>)"
      using assms(1) i Authorised ans by (simp add: bridge_step_def)
    have "asked_for og (paths ! i) health cid n" using ok Authorised by simp
    from object_outcome_ok [OF this] show ?thesis unfolding s' by (intro put) (use Authorised used in auto)
  next
    case (Leaving health cid n r)
    have s': "s' = put_thread i (Replied (bridge_reply_for og health r)) (budget_release n s)"
      using assms(1) i Leaving by (simp add: bridge_step_def)
    have a: "asked_for og (paths ! i) health cid n" "\<forall>d. r = Inr d \<longrightarrow> verified_block py og cid d" using ok Leaving by simp_all
    then have "0 < n" using assms(3) by (auto simp: asked_for_def dest: map_of_SomeD)
    then show ?thesis unfolding s' by (intro put) (use Leaving used reply_for_ok [OF a] in \<open>auto simp: budget_release_def\<close>)
  next
    case (Replied r)
    then show ?thesis using assms(1) i by (simp add: bridge_step_def)
  qed
qed

lemma bridge_run_ok:
  assumes "bridge_ok py og paths s" and "\<forall>(cid, n) \<in> set (og_sizes og). 0 < n"
  shows "bridge_ok py og paths (bridge_run py cli opener og schedule s)"
  using assms(1) unfolding bridge_run_def
  by (induction schedule arbitrary: s) (auto simp: scheduled_step_def split: option.splits intro: bridge_step_ok [OF _ _ assms(2)])

lemma inventory_sizes_positive:
  assumes "inventory_sizes py fs path sha = Inr sizes"
  shows "\<forall>(cid, n) \<in> set sizes. 0 < n"
proof -
  from inventory_sizes_Inr [OF assms] obtain content where "foldM (size_row py) [] (file_lines content) = Inr sizes" by blast
  then show ?thesis by (rule foldM_invariant) (auto simp: size_row_Inr)
qed

lemma start_bridge_ok:
  assumes "start_bridge py cli fs args paths w = Inr (og, s)"
  shows "bridge_ok py og paths s" "\<forall>(cid, n) \<in> set (og_sizes og). 0 < n"
    "inventory_sizes py fs (bra_inventory args) (Some (bra_sha256 args)) = Inr (og_sizes og)" "og_limit og = bra_max_memory args"
proof -
  let ?s0 = "\<lparr>bg_used = 0, bg_token = None, bg_world = w, bg_threads = map Arrived paths\<rparr>"
  from assms obtain sizes t where sizes: "inventory_sizes py fs (bra_inventory args) (Some (bra_sha256 args)) = Inr sizes"
    "token_get py cli False ?s0 = (Inr t, s)" "og = origin_of args sizes" "bridge_args_ok args"
    unfolding start_bridge_def by (auto split: if_splits sum.splits prod.splits)
  have "(\<Sum>t\<leftarrow>map Arrived paths. held t) = 0" by (induction paths) auto
  then show "bridge_ok py og paths s"
    using token_get_shared [OF sizes(2)] sizes(3,4) by (simp add: bridge_ok_def origin_of_def bridge_args_ok_def)
  show "\<forall>(cid, n) \<in> set (og_sizes og). 0 < n" using inventory_sizes_positive [OF sizes(1)] sizes(3) by (simp add: origin_of_def)
  show "inventory_sizes py fs (bra_inventory args) (Some (bra_sha256 args)) = Inr (og_sizes og)" "og_limit og = bra_max_memory args"
    using sizes(1,3) by (simp_all add: origin_of_def)
qed

section \<open>Every request is answered\<close>

fun bridge_steps_left :: "bridge_thread \<Rightarrow> nat" where
  "bridge_steps_left (Arrived path) = 6"
| "bridge_steps_left (Holding health cid n retried) = (if retried then 3 else 5)"
| "bridge_steps_left (Authorised health cid n retried t) = (if retried then 2 else 4)"
| "bridge_steps_left (Leaving health cid n r) = 1"
| "bridge_steps_left (Replied r) = 0"

definition steps_to_go :: "'w bridge \<Rightarrow> nat" where
  "steps_to_go s = (\<Sum>t\<leftarrow>bg_threads s. bridge_steps_left t)"

definition replied :: "bridge_thread \<Rightarrow> bool" where
  "replied t \<longleftrightarrow> (case t of Replied r \<Rightarrow> True | _ \<Rightarrow> False)"

text \<open>A schedule in which every step is taken.\<close>

fun moving :: "pylib \<Rightarrow> 'w runner \<Rightarrow> 'w opener \<Rightarrow> origin \<Rightarrow> nat list \<Rightarrow> 'w bridge \<Rightarrow> bool" where
  "moving py cli opener og [] s = True"
| "moving py cli opener og (i # js) s =
     (case bridge_step py cli opener og i s of None \<Rightarrow> False | Some s' \<Rightarrow> moving py cli opener og js s')"

lemma update_decreases:
  "i < length ts \<Longrightarrow> f t < f (ts ! i) \<Longrightarrow> (\<Sum>x\<leftarrow>ts[i := t]. f x) < (\<Sum>x\<leftarrow>ts. f x :: nat)"
  by (induction ts arbitrary: i) (auto split: nat.splits)

lemma steps_to_go_put:
  assumes "i < length (bg_threads s)" and "bridge_steps_left t < bridge_steps_left (bg_threads s ! i)" and "bg_threads s' = bg_threads s"
  shows "steps_to_go (put_thread i t s') < steps_to_go s"
  using update_decreases [where f = bridge_steps_left, OF assms(1,2)] assms(3) by (simp add: steps_to_go_def put_thread_def)

lemma bridge_step_decreases:
  assumes "bridge_step py cli opener og i s = Some s'"
  shows "steps_to_go s' < steps_to_go s"
proof -
  from assms have i: "i < length (bg_threads s)" by (auto simp: bridge_step_def split: if_splits)
  note put = steps_to_go_put [OF i]
  show ?thesis
  proof (cases "bg_threads s ! i")
    case (Arrived path)
    then show ?thesis using assms i put [of _ s] put [of "Holding h c n False" "s\<lparr>bg_used := u\<rparr>" for h c n u]
      by (auto simp: bridge_step_def begin_fetch_def budget_acquire_def split: option.splits if_splits)
  next
    case (Holding health cid n retried)
    obtain r s1 where tok: "token_get py cli retried s = (r, s1)" by (metis surj_pair)
    then show ?thesis using assms i Holding token_get_shared(1) [OF tok] put [of _ s1]
      by (cases r) (auto simp: bridge_step_def split: if_splits)
  next
    case (Authorised health cid n retried t)
    obtain answer w where ans: "opener (object_url og cid) t (bg_world s) = (answer, w)" by (metis surj_pair)
    have s': "s' = put_thread i (object_outcome py health cid n retried answer) (s\<lparr>bg_world := w\<rparr>)"
      using assms i Authorised ans by (simp add: bridge_step_def)
    have "bridge_steps_left (object_outcome py health cid n retried answer) < bridge_steps_left (bg_threads s ! i)"
      using Authorised by (cases answer) (auto simp: object_outcome_def)
    then show ?thesis unfolding s' by (intro put) simp_all
  next
    case (Leaving health cid n r)
    then have s': "s' = put_thread i (Replied (bridge_reply_for og health r)) (budget_release n s)"
      using assms i by (simp add: bridge_step_def)
    show ?thesis unfolding s' by (intro put) (simp_all add: Leaving budget_release_def)
  next
    case (Replied r)
    then show ?thesis using assms i by (simp add: bridge_step_def)
  qed
qed

lemma moving_length: "moving py cli opener og schedule s \<Longrightarrow> length schedule \<le> steps_to_go s"
proof (induction schedule arbitrary: s)
  case (Cons i js)
  then obtain s' where "bridge_step py cli opener og i s = Some s'" "moving py cli opener og js s'" by (auto split: option.splits)
  then show ?case using Cons.IH [of s'] bridge_step_decreases [of py cli opener og i s s'] by simp
qed simp

text \<open>When all the threads that are left wait for bytes, no bytes are taken, and each can go on.\<close>

lemma some_thread_moves:
  assumes "bridge_ok py og paths s" and "t \<in> set (bg_threads s)" and "\<not> replied t"
  shows "\<exists>i s'. bridge_step py cli opener og i s = Some s'"
proof (cases "\<exists>i < length (bg_threads s). held (bg_threads s ! i) \<noteq> 0")
  case True
  then obtain i where "i < length (bg_threads s)" "held (bg_threads s ! i) \<noteq> 0" by blast
  then have "bridge_step py cli opener og i s \<noteq> None"
    by (cases "bg_threads s ! i") (auto simp: bridge_step_def split: prod.splits sum.splits)
  then show ?thesis by blast
next
  case False
  then have none: "map held (bg_threads s) = map (\<lambda>_. 0) (bg_threads s)" by (auto simp: list_eq_iff_nth_eq)
  have "(\<Sum>t\<leftarrow>bg_threads s. held t) = 0" unfolding none by simp
  then have used: "bg_used s = 0" using assms(1) by (simp add: bridge_ok_def)
  from assms(2) obtain i where i: "i < length (bg_threads s)" "bg_threads s ! i = t" by (auto simp: in_set_conv_nth)
  have "begin_fetch og i health cid s \<noteq> None" for health cid
    using used by (auto simp: begin_fetch_def budget_acquire_def split: option.splits)
  then have "bridge_step py cli opener og i s \<noteq> None"
    using i assms(3) by (cases t) (auto simp: bridge_step_def replied_def split: option.splits prod.splits sum.splits)
  then show ?thesis by blast
qed

lemma bridge_completes:
  assumes "bridge_ok py og paths s" and "\<forall>(cid, n) \<in> set (og_sizes og). 0 < n"
  shows "\<exists>more. moving py cli opener og more s \<and> list_all replied (bg_threads (bridge_run py cli opener og more s))"
  using assms(1)
proof (induction "steps_to_go s" arbitrary: s rule: less_induct)
  case less
  show ?case
  proof (cases "list_all replied (bg_threads s)")
    case True
    then show ?thesis by (intro exI [of _ "[]"]) (simp add: bridge_run_def)
  next
    case False
    then obtain t where "t \<in> set (bg_threads s)" "\<not> replied t" by (auto simp: list_all_iff)
    then obtain i s' where one: "bridge_step py cli opener og i s = Some s'"
      using some_thread_moves [OF less.prems] by blast
    from less.hyps [OF bridge_step_decreases [OF one] bridge_step_ok [OF one less.prems assms(2)]]
    obtain more where "moving py cli opener og more s'" "list_all replied (bg_threads (bridge_run py cli opener og more s'))" by blast
    then show ?thesis using one by (intro exI [of _ "i # more"]) (simp add: bridge_run_def scheduled_step_def)
  qed
qed

section \<open>Properties\<close>

text \<open>C27: the bridge sends only blocks of the pinned inventory, within its memory budget. Whatever the object store,
  the credential helper and the scheduler do: a block sent for a path is the one the path names, with the
  size of its inventory row and the digest in its CID; a health report was preceded by such a fetch of the
  canary; the bytes being held are what the budget counts, never more than its limit; and when every request
  has ended, by a reply or by an exception, all of them have been given back.\<close>

theorem bridge_sends_verified_blocks:
  assumes "start_bridge py cli fs args paths w = Inr (og, s)"
  shows "let s' = bridge_run py cli opener og schedule s in
    inventory_sizes py fs (bra_inventory args) (Some (bra_sha256 args)) = Inr (og_sizes og) \<and>
    length (bg_threads s') = length paths \<and>
    (\<forall>i r. i < length paths \<and> bg_threads s' ! i = Replied r \<longrightarrow> reply_ok py og (paths ! i) r) \<and>
    bg_used s' = (\<Sum>t\<leftarrow>bg_threads s'. held t) \<and> bg_used s' \<le> bra_max_memory args \<and>
    (list_all replied (bg_threads s') \<longrightarrow> bg_used s' = 0)"
proof -
  let ?s' = "bridge_run py cli opener og schedule s"
  note start = start_bridge_ok [OF assms]
  have ok: "bridge_ok py og paths ?s'" using bridge_run_ok start(1,2) by blast
  have "reply_ok py og (paths ! i) r" if "i < length paths" "bg_threads ?s' ! i = Replied r" for i r
    using ok that unfolding bridge_ok_def by (metis thread_ok.simps(5))
  moreover have "(\<Sum>t\<leftarrow>ts. held t) = 0" if "list_all replied ts" for ts
    using that by (induction ts) (auto simp: replied_def split: bridge_thread.splits)
  ultimately show ?thesis using ok start(3,4) by (simp add: Let_def bridge_ok_def)
qed

text \<open>C28: the threads of the bridge cannot block each other for ever. From every state a run can reach, some
  schedule without a pause has every request answered; no schedule without a pause is longer than six steps
  for each request. So a request that waits for memory is let in once others have ended.\<close>

theorem bridge_answers_every_request:
  assumes "start_bridge py cli fs args paths w = Inr (og, s)"
  shows "(\<exists>more. moving py cli opener og more (bridge_run py cli opener og schedule s) \<and>
       list_all replied (bg_threads (bridge_run py cli opener og (schedule @ more) s))) \<and>
    (\<forall>steps. moving py cli opener og steps s \<longrightarrow> length steps \<le> 6 * length paths)"
proof -
  note start = start_bridge_ok [OF assms]
  have "bridge_ok py og paths (bridge_run py cli opener og schedule s)" using bridge_run_ok start(1,2) by blast
  from bridge_completes [OF this start(2), of cli opener] have "\<exists>more. moving py cli opener og more (bridge_run py cli opener og schedule s) \<and>
      list_all replied (bg_threads (bridge_run py cli opener og (schedule @ more) s))" by (simp add: bridge_run_def)
  moreover have "bg_threads s = map Arrived paths"
    using assms token_get_shared(1) unfolding start_bridge_def by (fastforce split: if_splits sum.splits prod.splits)
  then have "steps_to_go s = 6 * length paths" by (simp add: steps_to_go_def comp_def sum_list_triv)
  ultimately show ?thesis using moving_length by metis
qed

text \<open>C29: a credential problem is reported as a missing block. When the stored token is refused with 401 and the
  helper then prints a JSON object without \<open>token\<close>, the \<open>KeyError\<close> of that access is taken for the one of an
  unknown CID: a block the inventory has is answered with 404, and the health check ends without a reply.\<close>

theorem expired_token_reported_as_missing_block:
  assumes "start_bridge py cli fs args [path] w = Inr (og, s)"
    and "bridge_route og path = Some (health, cid)" and "map_of (og_sizes og) cid = Some n" and "n \<le> og_limit og"
    and "bg_token s = Some t" and "opener (object_url og cid) t (bg_world s) = (HTTP_Error_Code 401, v)"
    and "cli token_command v = (Inr (0, out), u)" and "json_loads py out = Inr (JDict kvs)" and "map_of kvs ''token'' = None"
  shows "bg_threads (bridge_run py cli opener og [0, 0, 0, 0, 0] s) =
    [Replied (if health then Inl KeyError else Inr (Error_Status 404))]"
proof -
  have threads: "bg_threads s = [Arrived path]" and used: "bg_used s = 0"
    using assms(1) token_get_shared unfolding start_bridge_def by (fastforce split: if_splits sum.splits prod.splits)+
  let ?s1 = "put_thread 0 (Holding health cid n False) (s\<lparr>bg_used := 0 + n\<rparr>)"
  let ?s2 = "put_thread 0 (Authorised health cid n False t) ?s1"
  let ?s3 = "put_thread 0 (Holding health cid n True) (?s2\<lparr>bg_world := v\<rparr>)"
  let ?s4 = "put_thread 0 (Leaving health cid n (Inl KeyError)) (?s3\<lparr>bg_world := u\<rparr>)"
  let ?step = "scheduled_step py cli opener og 0"
  have 1: "?step s = ?s1"
    using assms(2-4) threads used by (simp add: scheduled_step_def bridge_step_def begin_fetch_def budget_acquire_def)
  have 2: "?step ?s1 = ?s2" using assms(5) threads by (simp add: scheduled_step_def bridge_step_def put_thread_def token_get_def)
  have 3: "?step ?s2 = ?s3" using assms(6) threads by (simp add: scheduled_step_def bridge_step_def put_thread_def object_outcome_def)
  have "read_token py (0, out) = Inl KeyError" using assms(8,9) by (simp add: read_token_def)
  then have 4: "?step ?s3 = ?s4" using assms(5,7) threads by (simp add: scheduled_step_def bridge_step_def put_thread_def token_get_def)
  have "bg_threads (?step ?s4) = [Replied (bridge_reply_for og health (Inl KeyError))]"
    using threads by (simp add: scheduled_step_def bridge_step_def put_thread_def budget_release_def)
  moreover have "bridge_run py cli opener og [0, 0, 0, 0, 0] s = ?step (?step (?step (?step (?step s))))" by (simp add: bridge_run_def)
  ultimately show ?thesis unfolding 1 2 3 4 by (simp add: bridge_reply_for_def)
qed

section \<open>Concrete runs\<close>

text \<open>An inventory of one block of three bytes; the helper prints a token the first time and \<open>{}\<close> after that.\<close>

definition bridge_py :: pylib where
  "bridge_py = row_py\<lparr>json_loads := (\<lambda>text.
     if text = [84] then Inr (JDict [(''token'', JStr ''t'')])
     else if text = [85] then Inr (JDict []) else json_loads row_py text)\<rparr>"

definition bridge_files :: fs where
  "bridge_files = [([''inv''], File [3, 10])]"

definition toy_bridge :: bridge_args where
  "toy_bridge = \<lparr>bra_inventory = [''inv''], bra_sha256 = hex (replicate 32 7), bra_account_id = replicate 32 (CHR ''0''),
     bra_bucket = ''lake'', bra_port = 18095, bra_max_memory = 512000000\<rparr>"

definition bridge_cli :: "nat runner" where
  "bridge_cli argv w = (Inr (0, if w = 0 then [84] else [85]), w + 1)"

definition serving_store :: "nat opener" where "serving_store url token w = (Object_Response 200 [1, 2, 3], w)"

definition refusing_store :: "nat opener" where "refusing_store url token w = (HTTP_Error_Code 401, w)"

definition toy_path :: string where "toy_path = ''/ipfs/'' @ sample_cid"

definition toy_origin :: origin where "toy_origin = origin_of toy_bridge [(sample_cid, 3)]"

definition toy_state :: "string list \<Rightarrow> nat bridge" where
  "toy_state paths = \<lparr>bg_used = 0, bg_token = Some ''t'', bg_world = 1, bg_threads = map Arrived paths\<rparr>"

lemma toy_start: "start_bridge bridge_py bridge_cli bridge_files toy_bridge paths 0 = Inr (toy_origin, toy_state paths)"
proof -
  have "bridge_args_ok toy_bridge" "inventory_sizes bridge_py bridge_files [''inv''] (Some (hex (replicate 32 7))) = Inr [(sample_cid, 3)]"
    "read_token bridge_py (0, [84]) = Inr ''t''" by code_simp+
  moreover have "bra_inventory toy_bridge = [''inv'']" "bra_sha256 toy_bridge = hex (replicate 32 7)" by (simp_all add: toy_bridge_def)
  ultimately show ?thesis by (simp add: start_bridge_def token_get_def bridge_cli_def toy_origin_def toy_state_def)
qed

lemma toy_bridge_runs:
  "bg_threads (bridge_run bridge_py bridge_cli serving_store toy_origin [0, 0, 0, 0] (toy_state [toy_path])) = [Replied (Inr (Block_Bytes [1, 2, 3]))]"
  "bridge_route toy_origin toy_path = Some (False, sample_cid)" "map_of (og_sizes toy_origin) sample_cid = Some 3" "3 \<le> og_limit toy_origin"
  by code_simp+

theorem bridge_sends_verified_blocks_witness:
  "verified_block bridge_py toy_origin sample_cid [1, 2, 3] \<and>
   bg_used (bridge_run bridge_py bridge_cli serving_store toy_origin [0, 0, 0, 0] (toy_state [toy_path])) = 0"
proof -
  from bridge_sends_verified_blocks [OF toy_start [of "[toy_path]"], of serving_store "[0, 0, 0, 0]"]
  have "reply_ok bridge_py toy_origin toy_path (Inr (Block_Bytes [1, 2, 3]))"
    "bg_used (bridge_run bridge_py bridge_cli serving_store toy_origin [0, 0, 0, 0] (toy_state [toy_path])) = 0"
    unfolding Let_def toy_bridge_runs(1) by (auto simp: replied_def)
  then show ?thesis by (auto simp: toy_path_def)
qed

theorem bridge_answers_every_request_witness:
  "\<exists>more. list_all replied (bg_threads (bridge_run bridge_py bridge_cli refusing_store toy_origin ([1, 0] @ more)
     (toy_state [toy_path, ''/healthz''])))"
  using bridge_answers_every_request [OF toy_start [of "[toy_path, ''/healthz'']"], of refusing_store "[1, 0]"] by blast

theorem expired_token_reported_as_missing_block_witness:
  "bg_threads (bridge_run bridge_py bridge_cli refusing_store toy_origin [0, 0, 0, 0, 0] (toy_state [toy_path])) =
     [Replied (Inr (Error_Status 404))] \<and> map_of (og_sizes toy_origin) sample_cid = Some 3"
proof -
  have "bg_token (toy_state [toy_path]) = Some ''t''"
    "refusing_store (object_url toy_origin sample_cid) ''t'' (bg_world (toy_state [toy_path])) = (HTTP_Error_Code 401, 1)"
    "bridge_cli token_command 1 = (Inr (0, [85]), 2)" "json_loads bridge_py [85] = Inr (JDict [])" "map_of [] ''token'' = (None :: json option)"
    by (simp_all add: toy_state_def refusing_store_def bridge_cli_def bridge_py_def)
  from expired_token_reported_as_missing_block [where cli = bridge_cli and opener = refusing_store and t = "''t''" and v = 1 and out = "[85]" and kvs = "[]",
      OF toy_start [of "[toy_path]"] toy_bridge_runs(2,3,4) this] toy_bridge_runs(3)
  show ?thesis by simp
qed

end
