(* ===== verification/Block_Sources.thy ===== *)
theory Block_Sources
  imports Kubo_Rpc
begin

text \<open>
  The block sources of \<open>deploy/replicate_lake.py\<close>: \<open>curl\<close>, the public origin as a fallback for a local
  bridge, and a peer that is asked first or alone. Shown: a follower in peer-only mode runs no command but
  requests to its peer's pinned address; its wait for a block ends; and the source counts tell which origin
  the blocks came from. A fetch is one step: threads of the prefetch that fetch at the same time are not
  interleaved inside it.
\<close>

text \<open>The surroundings: \<open>subprocess.run\<close>, \<open>time.monotonic\<close> and \<open>time.sleep\<close> in units of which there are
  \<open>second\<close> in a second, \<open>urlsplit\<close>, and the URLs whose \<open>port\<close> raises \<open>ValueError\<close> (not a number up to 65535).\<close>

record 'w fetch_env =
  fv_run :: "'w runner"
  fv_now :: "'w \<Rightarrow> int"
  fv_sleep :: "int \<Rightarrow> 'w \<Rightarrow> 'w"
  fv_second :: int
  fv_urlsplit :: "string \<Rightarrow> split_url"
  fv_bad_port :: "string \<Rightarrow> bool"

record source_args =
  so_block_url_base :: string
  so_fallback_base :: "string option"
  so_peer_base :: "string option"
  so_peer_resolve :: "string option"
  so_peer_only :: bool
  so_peer_wait_seconds :: int

text \<open>The world with the commands run so far and their answers, and the variables the fetchers share.\<close>

record 'w fetch_state =
  fe_world :: 'w
  fe_log :: "(string list \<times> (int \<times> bytes) res) list"
  fe_suppressed_until :: int
  fe_primary :: nat
  fe_fallback :: nat

section \<open>\<open>curl\<close>\<close>

definition source_command :: "'w fetch_env \<Rightarrow> string list \<Rightarrow> ('w fetch_state, bytes) action" where
  "source_command env argv s =
     (case fv_run env argv (fe_world s) of (answer, w) \<Rightarrow>
        (rbind answer (\<lambda>(rc, out). if rc \<noteq> 0 then Inl (ReplicationError (hd argv @ '' failed'')) else Inr out),
         s\<lparr>fe_world := w, fe_log := fe_log s @ [(argv, answer)]\<rparr>))"

definition curl_argv :: "bool \<Rightarrow> string \<Rightarrow> int \<Rightarrow> string option \<Rightarrow> int \<Rightarrow> nat \<Rightarrow> string list" where
  "curl_argv loopback url limit address max_seconds retries =
     (let protocol = (if loopback then ''=http'' else ''=https''); follow = (\<not> loopback \<and> address = None) in
      [''curl'', if follow then ''-fLsS'' else ''-fsS'', ''--retry'', dec_text retries, ''--retry-delay'', ''1'',
       ''--max-redirs'', if follow then ''3'' else ''0'', ''--proto'', protocol, ''--proto-redir'', protocol,
       ''--connect-timeout'', ''2'', ''--max-time'', int_text max_seconds, ''--max-filesize'', int_text limit] @
      (case address of None \<Rightarrow> [] | Some r \<Rightarrow> if r = [] then [] else [''--noproxy'', ''*'', ''--resolve'', r]) @ [url])"

definition curl ::
    "'w fetch_env \<Rightarrow> string option \<Rightarrow> int \<Rightarrow> nat \<Rightarrow> string \<Rightarrow> int \<Rightarrow> ('w fetch_state, bytes) action" where
  "curl env address max_seconds retries url limit =
     (let u = fv_urlsplit env url; loopback = (url_scheme u = ''http'' \<and> url_hostname u = Some ''127.0.0.1'') in
      if \<not> loopback \<and> url_scheme u \<noteq> ''https'' then araise (ReplicationError ''HTTP source must be loopback or HTTPS'')
      else
        abind (source_command env (curl_argv loopback url limit address max_seconds retries)) (\<lambda>data.
        if limit < int (length data) then araise (ReplicationError ''HTTP body exceeds configured maximum'')
        else areturn data))"

text \<open>\<open>curl(url, limit)\<close>, the block function of a batch.\<close>

definition default_curl :: "'w fetch_env \<Rightarrow> string \<Rightarrow> int \<Rightarrow> ('w fetch_state, bytes) action" where
  "default_curl env = curl env None 240 2"

text \<open>The CID a block URL names.\<close>

definition url_cid :: "string \<Rightarrow> string \<Rightarrow> string res" where
  "url_cid base url =
     (if \<not> startswith url base then Inl (ReplicationError ''block source URL differs from configured base'')
      else if \<not> match_cid (drop (length base) url) then Inl (ReplicationError ''block source URL has invalid CID'')
      else Inr (drop (length base) url))"

section \<open>The fallback\<close>

type_synonym 'w fetcher = "string \<Rightarrow> int \<Rightarrow> ('w fetch_state, bytes) action"

definition count_primary :: "('w fetch_state, unit) action" where
  "count_primary s = (Inr (), s\<lparr>fe_primary := fe_primary s + 1\<rparr>)"

definition count_fallback :: "('w fetch_state, unit) action" where
  "count_fallback s = (Inr (), s\<lparr>fe_fallback := fe_fallback s + 1\<rparr>)"

definition suppress_primary :: "'w fetch_env \<Rightarrow> ('w fetch_state, unit) action" where
  "suppress_primary env s = (Inr (), s\<lparr>fe_suppressed_until := fv_now env (fe_world s) + 60 * fv_second env\<rparr>)"

definition ask_fallback :: "'w fetcher \<Rightarrow> string \<Rightarrow> string \<Rightarrow> int \<Rightarrow> string \<Rightarrow> ('w fetch_state, bytes) action" where
  "ask_fallback primary_fetch fallback_base cid limit primary_error =
     abind (acatch_replication (primary_fetch (fallback_base @ cid) limit) (\<lambda>fallback_error.
         araise (ReplicationError (''both block origins failed: primary='' @ primary_error @ '', fallback='' @ fallback_error))))
       (\<lambda>data. abind count_fallback (\<lambda>_. areturn data))"

definition fallback_fetch :: "'w fetch_env \<Rightarrow> 'w fetcher \<Rightarrow> string \<Rightarrow> string \<Rightarrow> 'w fetcher" where
  "fallback_fetch env primary_fetch primary_base fallback_base url limit =
     abind (alift (url_cid primary_base url)) (\<lambda>cid s.
     if fv_now env (fe_world s) < fe_suppressed_until s
     then ask_fallback primary_fetch fallback_base cid limit ''primary bridge temporarily unavailable'' s
     else
       (case primary_fetch url limit s of
          (Inr data, s') \<Rightarrow> abind count_primary (\<lambda>_. areturn data) s'
        | (Inl e, s') \<Rightarrow>
            (case replication_message e of
               None \<Rightarrow> (Inl e, s')
             | Some m \<Rightarrow> abind (suppress_primary env) (\<lambda>_. ask_fallback primary_fetch fallback_base cid limit m) s')))"

definition origin_fallback_block_fetcher :: "'w fetch_env \<Rightarrow> source_args \<Rightarrow> 'w fetcher \<Rightarrow> 'w fetcher res" where
  "origin_fallback_block_fetcher env args primary_fetch =
     (let primary_base = so_block_url_base args in
      case so_fallback_base args of
        None \<Rightarrow> Inr primary_fetch
      | Some fallback_base \<Rightarrow>
          if fallback_base = [] then Inr primary_fetch
          else if \<not> endswith primary_base ''/ipfs/'' \<or> \<not> startswith fallback_base ''https://'' \<or>
            \<not> endswith fallback_base ''/ipfs/'' \<or> primary_base = fallback_base
          then Inl (ReplicationError ''invalid origin fallback configuration'')
          else Inr (fallback_fetch env primary_fetch primary_base fallback_base))"

section \<open>The peer\<close>

definition transfer_seconds :: "int \<Rightarrow> int" where
  "transfer_seconds limit = min 600 (12 + limit div (512 * 1024))"

definition peer_curl :: "'w fetch_env \<Rightarrow> string \<Rightarrow> string \<Rightarrow> string \<Rightarrow> int \<Rightarrow> ('w fetch_state, bytes) action" where
  "peer_curl env peer_base address cid limit = curl env (Some address) (transfer_seconds limit) 3 (peer_base @ cid) limit"

definition sleep_for :: "'w fetch_env \<Rightarrow> int \<Rightarrow> 'w fetch_state \<Rightarrow> 'w fetch_state" where
  "sleep_for env d s = s\<lparr>fe_world := fv_sleep env d (fe_world s)\<rparr>"

text \<open>\<open>while True\<close> in peer-only mode; \<open>None\<close> when it never ends.\<close>

partial_function (option) peer_wait ::
    "'w fetch_env \<Rightarrow> ('w fetch_state, bytes) action \<Rightarrow> string \<Rightarrow> int \<Rightarrow> 'w fetch_state \<Rightarrow> (bytes res \<times> 'w fetch_state) option"
where
  "peer_wait env get cid deadline s =
     (case get s of
        (Inr data, s') \<Rightarrow> Some (Inr data, s')
      | (Inl e, s') \<Rightarrow>
          (case replication_message e of
             None \<Rightarrow> Some (Inl e, s')
           | Some m \<Rightarrow>
               (let remaining = deadline - fv_now env (fe_world s') in
                if remaining \<le> 0
                then Some (Inl (ReplicationError (''peer-only block source unavailable: '' @ cid @ '': '' @ m)), s')
                else peer_wait env get cid deadline (sleep_for env (min (10 * fv_second env) remaining) s'))))"

definition peer_fetch ::
    "'w fetch_env \<Rightarrow> source_args \<Rightarrow> string \<Rightarrow> string \<Rightarrow> 'w fetcher \<Rightarrow> string \<Rightarrow> int \<Rightarrow> 'w fetch_state \<Rightarrow>
      (bytes res \<times> 'w fetch_state) option" where
  "peer_fetch env args peer_base address public_fetch url limit s =
     (case url_cid (so_block_url_base args) url of
        Inl e \<Rightarrow> Some (Inl e, s)
      | Inr cid \<Rightarrow>
          if so_peer_only args then
            peer_wait env (peer_curl env peer_base address cid limit) cid
              (fv_now env (fe_world s) + so_peer_wait_seconds args * fv_second env) s
          else Some (acatch_replication (peer_curl env peer_base address cid limit) (\<lambda>_. public_fetch url limit) s))"

definition peer_config_ok :: "'w fetch_env \<Rightarrow> string \<Rightarrow> string option \<Rightarrow> bool" where
  "peer_config_ok env peer_base address =
     (let peer = fv_urlsplit env peer_base;
          port = (case url_port peer of None \<Rightarrow> 443 | Some p \<Rightarrow> if p = 0 then 443 else p) in
      case (url_hostname peer, address) of
        (Some h, Some r) \<Rightarrow> url_scheme peer = ''https'' \<and> h \<noteq> [] \<and> endswith peer_base ''/ipfs/'' \<and> r \<noteq> [] \<and>
          startswith r (h @ '':'' @ dec_text port @ '':'')
      | _ \<Rightarrow> False)"

type_synonym 'w block_source = "string \<Rightarrow> int \<Rightarrow> 'w fetch_state \<Rightarrow> (bytes res \<times> 'w fetch_state) option"

definition peer_first_block_fetcher :: "'w fetch_env \<Rightarrow> source_args \<Rightarrow> 'w fetcher \<Rightarrow> 'w block_source res" where
  "peer_first_block_fetcher env args public_fetch =
     (let peer_base = (case so_peer_base args of None \<Rightarrow> [] | Some b \<Rightarrow> b) in
      if peer_base = [] then
        (if so_peer_only args then Inl (ReplicationError ''peer-only mode has no peer source'')
         else Inr (\<lambda>url limit s. Some (public_fetch url limit s)))
      else if fv_bad_port env peer_base then Inl ValueError
      else if \<not> peer_config_ok env peer_base (so_peer_resolve args)
      then Inl (ReplicationError ''peer source must be an explicit HTTPS host and address'')
      else Inr (peer_fetch env args peer_base (the (so_peer_resolve args)) public_fetch))"

text \<open>The source of the blocks of a batch, as \<open>run_batch\<close> puts it together.\<close>

definition block_source :: "'w fetch_env \<Rightarrow> source_args \<Rightarrow> 'w block_source res" where
  "block_source env args =
     rbind (origin_fallback_block_fetcher env args (default_curl env)) (\<lambda>origin_fetch.
     peer_first_block_fetcher env args origin_fetch)"


section \<open>What a source does\<close>

lemma source_command_effect:
  assumes "source_command env argv s = (r, s')"
  obtains answer where "s' = s\<lparr>fe_world := snd (fv_run env argv (fe_world s)), fe_log := fe_log s @ [(argv, answer)]\<rparr>"
    "\<And>data. r = Inr data \<Longrightarrow> answer = Inr (0, data)"
proof -
  obtain answer w where run: "fv_run env argv (fe_world s) = (answer, w)" by (metis surj_pair)
  have "answer = Inr (0, data)" if "r = Inr data" for data
    using assms run that by (auto simp: source_command_def rbind_eq_Inr split: if_splits)
  then show ?thesis using that [of answer] assms run by (auto simp: source_command_def)
qed

text \<open>A request: one command for this URL, whose output is what is returned; or none.\<close>

definition one_request :: "'w fetch_env \<Rightarrow> string option \<Rightarrow> string \<Rightarrow> 'w fetch_state \<Rightarrow> bytes res \<Rightarrow> 'w fetch_state \<Rightarrow> bool" where
  "one_request env address url s r s' \<longleftrightarrow>
     (s' = s \<and> (\<exists>e. r = Inl e)) \<or>
     (\<exists>loopback limit seconds retries answer. let argv = curl_argv loopback url limit address seconds retries in
        s' = s\<lparr>fe_world := snd (fv_run env argv (fe_world s)), fe_log := fe_log s @ [(argv, answer)]\<rparr> \<and>
        (\<forall>data. r = Inr data \<longrightarrow> answer = Inr (0, data)))"

lemma curl_request:
  assumes "curl env address seconds retries url limit s = (r, s')"
  shows "one_request env address url s r s'"
proof -
  let ?u = "fv_urlsplit env url"
  let ?loopback = "url_scheme ?u = ''http'' \<and> url_hostname ?u = Some ''127.0.0.1''"
  let ?argv = "curl_argv ?loopback url limit address seconds retries"
  show ?thesis
  proof (cases "\<not> ?loopback \<and> url_scheme ?u \<noteq> ''https''")
    case True
    then show ?thesis using assms by (auto simp: curl_def one_request_def)
  next
    case False
    obtain r1 s1 where run: "source_command env ?argv s = (r1, s1)" by (metis surj_pair)
    from run obtain answer where a: "s1 = s\<lparr>fe_world := snd (fv_run env ?argv (fe_world s)), fe_log := fe_log s @ [(?argv, answer)]\<rparr>"
      "\<And>data. r1 = Inr data \<Longrightarrow> answer = Inr (0, data)" by (rule source_command_effect) blast
    from assms run False have r: "s' = s1" "\<And>data. r = Inr data \<Longrightarrow> r1 = Inr data"
      by (cases r1; force simp: curl_def Let_def abind_def split: if_splits)+
    show ?thesis unfolding one_request_def Let_def using a r by blast
  qed
qed

lemma last_curl_argv [simp]: "last (curl_argv loopback url limit address seconds retries) = url"
  by (simp add: curl_argv_def Let_def)

text \<open>The command of a request to a fixed address: no redirects, no proxy, the address given.\<close>

definition pinned_request :: "string \<Rightarrow> string \<Rightarrow> string list \<Rightarrow> bool" where
  "pinned_request address url argv \<longleftrightarrow>
     (\<exists>retries middle. argv = [''curl'', ''-fsS'', ''--retry'', retries, ''--retry-delay'', ''1'', ''--max-redirs'', ''0''] @ middle @
        [''--noproxy'', ''*'', ''--resolve'', address, url])"

lemma pinned_curl_argv: "address \<noteq> [] \<Longrightarrow> pinned_request address url (curl_argv loopback url limit (Some address) seconds retries)"
  unfolding pinned_request_def curl_argv_def Let_def by (cases loopback) auto

lemma peer_curl_log:
  assumes "peer_curl env peer_base address cid limit s = (r, s')" and "address \<noteq> []"
  shows "\<exists>l. fe_log s' = fe_log s @ l \<and> length l \<le> 1 \<and> (\<forall>(argv, answer) \<in> set l. pinned_request address (peer_base @ cid) argv)"
  using curl_request [OF assms(1) [unfolded peer_curl_def]] pinned_curl_argv [OF assms(2)]
  unfolding one_request_def Let_def by force

lemma peer_wait_keeps:
  assumes "peer_wait env get cid deadline s = Some y" and "P s" and "\<And>s r s'. P s \<Longrightarrow> get s = (r, s') \<Longrightarrow> P s'"
    and "\<And>d s. P s \<Longrightarrow> P (sleep_for env d s)"
  shows "P (snd y)"
proof -
  have "P s \<longrightarrow> (\<forall>s r s'. P s \<longrightarrow> get s = (r, s') \<longrightarrow> P s') \<longrightarrow> (\<forall>d s. P s \<longrightarrow> P (sleep_for env d s)) \<longrightarrow> P (snd y)"
  proof (rule peer_wait.raw_induct [OF _ assms(1), where P = "\<lambda>env get cid deadline s y. P s \<longrightarrow>
      (\<forall>s r s'. P s \<longrightarrow> get s = (r, s') \<longrightarrow> P s') \<longrightarrow> (\<forall>d s. P s \<longrightarrow> P (sleep_for env d s)) \<longrightarrow> P (snd y)"])
    fix wait env get cid deadline s y
    assume ih: "\<And>env get cid deadline s y. wait env get cid deadline s = Some y \<Longrightarrow>
        P s \<longrightarrow> (\<forall>s r s'. P s \<longrightarrow> get s = (r, s') \<longrightarrow> P s') \<longrightarrow> (\<forall>d s. P s \<longrightarrow> P (sleep_for env d s)) \<longrightarrow> P (snd y)"
      and body: "(case get s of
        (Inl e, s') \<Rightarrow>
          (case replication_message e of
             None \<Rightarrow> Some (Inl e, s')
           | Some m \<Rightarrow>
               (let remaining = deadline - fv_now env (fe_world s') in
                if remaining \<le> 0
                then Some (Inl (ReplicationError (''peer-only block source unavailable: '' @ cid @ '': '' @ m)), s')
                else wait env get cid deadline (sleep_for env (min (10 * fv_second env) remaining) s')))
      | (Inr data, s') \<Rightarrow> Some (Inr data, s')) = Some y"
    obtain r s1 where get: "get s = (r, s1)" by (metis surj_pair)
    show "P s \<longrightarrow> (\<forall>s r s'. P s \<longrightarrow> get s = (r, s') \<longrightarrow> P s') \<longrightarrow> (\<forall>d s. P s \<longrightarrow> P (sleep_for env d s)) \<longrightarrow> P (snd y)"
    proof (intro impI)
      assume P: "P s" "\<forall>s r s'. P s \<longrightarrow> get s = (r, s') \<longrightarrow> P s'" "\<forall>d s. P s \<longrightarrow> P (sleep_for env d s)"
      then have s1: "P s1" using get by blast
      from body consider "snd y = s1"
        | d where "wait env get cid deadline (sleep_for env d s1) = Some y"
        unfolding get Let_def by (auto split: sum.splits option.splits if_splits)
      then show "P (snd y)"
      proof cases
        case 2
        then show ?thesis using ih [OF 2] s1 P(2,3) by blast
      qed (use s1 in simp)
    qed
  qed
  then show ?thesis using assms(2-4) by blast
qed

lemma peer_wait_log:
  fixes env :: "'w fetch_env"
  assumes "peer_wait env (peer_curl env peer_base address cid limit) cid deadline s = Some y" and "address \<noteq> []"
  shows "\<exists>l. fe_log (snd y) = fe_log s @ l \<and> (\<forall>(argv, answer) \<in> set l. pinned_request address (peer_base @ cid) argv)"
proof (rule peer_wait_keeps [OF assms(1), where P = "\<lambda>s'. \<exists>l. fe_log s' = fe_log s @ l \<and>
    (\<forall>(argv, answer) \<in> set l. pinned_request address (peer_base @ cid) argv)"])
  fix s1 s2 :: "'w fetch_state" and r
  assume "\<exists>l. fe_log s1 = fe_log s @ l \<and> (\<forall>(argv, answer) \<in> set l. pinned_request address (peer_base @ cid) argv)"
  then obtain l where l: "fe_log s1 = fe_log s @ l" "\<forall>(argv, answer) \<in> set l. pinned_request address (peer_base @ cid) argv" by blast
  assume "peer_curl env peer_base address cid limit s1 = (r, s2)"
  from peer_curl_log [OF this assms(2)] obtain l' where "fe_log s2 = fe_log s1 @ l'"
    "\<forall>(argv, answer) \<in> set l'. pinned_request address (peer_base @ cid) argv" by blast
  then show "\<exists>l. fe_log s2 = fe_log s @ l \<and> (\<forall>(argv, answer) \<in> set l. pinned_request address (peer_base @ cid) argv)"
    using l by (intro exI [of _ "l @ l'"]) auto
qed (auto simp: sleep_for_def)

section \<open>The wait ends\<close>

text \<open>The documented behaviour of the clock: monotonic, and \<open>sleep\<close> suspends for at least the time given.\<close>

definition clock_ok :: "'w fetch_env \<Rightarrow> bool" where
  "clock_ok env \<longleftrightarrow> 0 < fv_second env \<and> (\<forall>d w. 0 < d \<longrightarrow> fv_now env w + d \<le> fv_now env (fv_sleep env d w)) \<and>
     (\<forall>argv w. fv_now env w \<le> fv_now env (snd (fv_run env argv w)))"

lemma peer_curl_clock:
  assumes "peer_curl env peer_base address cid limit s = (r, s')" and "clock_ok env"
  shows "fv_now env (fe_world s) \<le> fv_now env (fe_world s') \<and> length (fe_log s') \<le> length (fe_log s) + 1"
  using curl_request [OF assms(1) [unfolded peer_curl_def]] assms(2) unfolding one_request_def clock_ok_def Let_def by force

lemma peer_wait_returns:
  assumes "clock_ok env" and "deadline - fv_now env (fe_world s) \<le> int k * (10 * fv_second env)"
  shows "\<exists>y. peer_wait env (peer_curl env peer_base address cid limit) cid deadline s = Some y \<and>
    length (fe_log (snd y)) \<le> length (fe_log s) + k + 1"
  using assms(2)
proof (induction k arbitrary: s)
  case (0 s)
  obtain r s1 where get: "peer_curl env peer_base address cid limit s = (r, s1)" by (metis surj_pair)
  note step = peer_curl_clock [OF get assms(1)]
  then have "deadline - fv_now env (fe_world s1) \<le> 0" using 0 by simp
  then show ?case using step by (subst peer_wait.simps) (auto simp: get split: sum.splits option.splits)
next
  case (Suc k s)
  obtain r s1 where get: "peer_curl env peer_base address cid limit s = (r, s1)" by (metis surj_pair)
  note step = peer_curl_clock [OF get assms(1)]
  let ?rem = "deadline - fv_now env (fe_world s1)" and ?ten = "10 * fv_second env"
  show ?case
  proof (cases "(\<exists>d. r = Inr d) \<or> (\<exists>e. r = Inl e \<and> replication_message e = None) \<or> ?rem \<le> 0")
    case True
    then show ?thesis using step by (subst peer_wait.simps) (auto simp: get split: sum.splits option.splits)
  next
    case False
    then obtain e m where e: "r = Inl e" "replication_message e = Some m" by (cases r) auto
    let ?s2 = "sleep_for env (min ?ten ?rem) s1"
    have "0 < min ?ten ?rem" using False assms(1) by (simp add: clock_ok_def)
    then have "fv_now env (fe_world s1) + min ?ten ?rem \<le> fv_now env (fe_world ?s2)"
      using assms(1) by (simp add: clock_ok_def sleep_for_def)
    moreover have "?rem \<le> int k * ?ten + ?ten" using Suc.prems step by (simp add: algebra_simps)
    moreover have "0 \<le> int k * ?ten" using assms(1) by (simp add: clock_ok_def)
    ultimately have "deadline - fv_now env (fe_world ?s2) \<le> int k * ?ten" by linarith
    from Suc.IH [OF this] obtain y where "peer_wait env (peer_curl env peer_base address cid limit) cid deadline ?s2 = Some y"
      "length (fe_log (snd y)) \<le> length (fe_log ?s2) + k + 1" by blast
    then show ?thesis using step False e by (subst peer_wait.simps) (auto simp: get Let_def sleep_for_def)
  qed
qed

section \<open>Properties\<close>

lemma url_cid_Inr: "url_cid base url = Inr cid \<longleftrightarrow> url = base @ cid \<and> match_cid cid"
proof -
  have "url = base @ cid" if "take (length base) url = base" "cid = drop (length base) url"
    using that by (metis append_take_drop_id)
  then show ?thesis by (auto simp: url_cid_def startswith_def)
qed

lemma peer_configured:
  assumes "peer_first_block_fetcher env args public_fetch = Inr fetch" and "so_peer_only args"
  obtains peer_base address where "so_peer_base args = Some peer_base" "so_peer_resolve args = Some address" "address \<noteq> []"
    "peer_config_ok env peer_base (Some address)" "fetch = peer_fetch env args peer_base address public_fetch"
proof (cases "so_peer_base args")
  case None
  then show ?thesis using assms by (simp add: peer_first_block_fetcher_def)
next
  case (Some peer_base)
  then have ok: "peer_config_ok env peer_base (so_peer_resolve args)" "fetch = peer_fetch env args peer_base (the (so_peer_resolve args)) public_fetch"
    using assms by (auto simp: peer_first_block_fetcher_def split: if_splits)
  then obtain address where "so_peer_resolve args = Some address" "address \<noteq> []"
    unfolding peer_config_ok_def Let_def by (auto split: option.splits)
  then show ?thesis using that [of peer_base address] Some ok by simp
qed

text \<open>C33: a follower in peer-only mode asks nobody but its peer. Whatever a fetch returns, every command it ran is
  \<open>curl\<close> for the peer's URL of this very CID, without following redirects and without a proxy, with the host
  resolved to the configured address. The public origin and the fallback are never used.\<close>

theorem peer_only_asks_only_the_peer:
  assumes "block_source env args = Inr fetch" and "so_peer_only args" and "fetch url limit s = Some (r, s')"
  shows "\<exists>peer_base address l. so_peer_base args = Some peer_base \<and> so_peer_resolve args = Some address \<and>
    peer_config_ok env peer_base (Some address) \<and> fe_log s' = fe_log s @ l \<and>
    (\<forall>(argv, answer) \<in> set l. \<exists>cid. url = so_block_url_base args @ cid \<and> match_cid cid \<and>
       pinned_request address (peer_base @ cid) argv)"
proof -
  from assms(1) obtain origin_fetch where "peer_first_block_fetcher env args origin_fetch = Inr fetch"
    by (auto simp: block_source_def rbind_eq_Inr)
  from this assms(2) obtain peer_base address where c: "so_peer_base args = Some peer_base" "so_peer_resolve args = Some address"
    "address \<noteq> []" "peer_config_ok env peer_base (Some address)" "fetch = peer_fetch env args peer_base address origin_fetch"
    by (rule peer_configured)
  show ?thesis
  proof (cases "url_cid (so_block_url_base args) url")
    case (Inl e)
    then have "s' = s" using assms(3) c(5) by (simp add: peer_fetch_def)
    then show ?thesis using c by auto
  next
    case (Inr cid)
    then have "peer_wait env (peer_curl env peer_base address cid limit) cid
        (fv_now env (fe_world s) + so_peer_wait_seconds args * fv_second env) s = Some (r, s')"
      using assms(2,3) c(5) by (simp add: peer_fetch_def)
    from peer_wait_log [OF this c(3)] obtain l where l: "fe_log s' = fe_log s @ l"
      "\<forall>(argv, answer) \<in> set l. pinned_request address (peer_base @ cid) argv" by auto
    have "url = so_block_url_base args @ cid \<and> match_cid cid" using Inr by (simp add: url_cid_Inr)
    then have "\<forall>(argv, answer) \<in> set l. \<exists>cid. url = so_block_url_base args @ cid \<and> match_cid cid \<and>
        pinned_request address (peer_base @ cid) argv" using l(2) by fast
    then show ?thesis using c l(1) by blast
  qed
qed

text \<open>C34: waiting for the peer ends. In peer-only mode every fetch returns, with bytes or with an exception, after at
  most one request for every ten seconds it may wait and one more, if the clock is monotonic and sleeping
  takes at least the time asked for.\<close>

theorem peer_wait_ends:
  assumes "block_source env args = Inr fetch" and "so_peer_only args" and "clock_ok env" and "0 \<le> so_peer_wait_seconds args"
  shows "\<exists>r s'. fetch url limit s = Some (r, s') \<and>
    length (fe_log s') \<le> length (fe_log s) + nat ((so_peer_wait_seconds args + 9) div 10) + 1"
proof -
  from assms(1) obtain origin_fetch where "peer_first_block_fetcher env args origin_fetch = Inr fetch"
    by (auto simp: block_source_def rbind_eq_Inr)
  from this assms(2) obtain peer_base address where c: "fetch = peer_fetch env args peer_base address origin_fetch"
    by (rule peer_configured)
  show ?thesis
  proof (cases "url_cid (so_block_url_base args) url")
    case (Inl e)
    then show ?thesis using c by (simp add: peer_fetch_def)
  next
    case (Inr cid)
    let ?wait = "so_peer_wait_seconds args" and ?now = "fv_now env (fe_world s)"
    let ?k = "nat ((?wait + 9) div 10)"
    have "?wait \<le> 10 * ((?wait + 9) div 10)" by presburger
    then have "?wait \<le> 10 * int ?k" using assms(4) by linarith
    then have "?wait * fv_second env \<le> 10 * int ?k * fv_second env" using assms(3) by (simp add: clock_ok_def)
    then have "(?now + ?wait * fv_second env) - ?now \<le> int ?k * (10 * fv_second env)" by (simp add: algebra_simps)
    from peer_wait_returns [OF assms(3) this, of peer_base address cid limit] obtain y where
      "peer_wait env (peer_curl env peer_base address cid limit) cid (?now + ?wait * fv_second env) s = Some y"
      "length (fe_log (snd y)) \<le> length (fe_log s) + ?k + 1" by blast
    then show ?thesis using Inr assms(2) c by (cases y) (simp add: peer_fetch_def)
  qed
qed

lemma default_curl_Inr:
  assumes "default_curl env url limit s = (Inr data, s')"
  shows "\<exists>argv. fe_log s' = fe_log s @ [(argv, Inr (0, data))] \<and> last argv = url \<and> fe_primary s' = fe_primary s \<and> fe_fallback s' = fe_fallback s"
  using curl_request [OF assms [unfolded default_curl_def]] last_curl_argv unfolding one_request_def Let_def by force

lemma default_curl_counts:
  assumes "default_curl env url limit s = (r, s')"
  shows "fe_primary s' = fe_primary s \<and> fe_fallback s' = fe_fallback s \<and>
    (\<exists>l. fe_log s' = fe_log s @ l \<and> (\<forall>(argv, answer) \<in> set l. last argv = url))"
  using curl_request [OF assms [unfolded default_curl_def]] unfolding one_request_def Let_def by force

text \<open>The URLs that commands of a log asked for.\<close>

abbreviation asked :: "(string list \<times> (int \<times> bytes) res) list \<Rightarrow> string list" where
  "asked l \<equiv> map (last \<circ> fst) l"

lemma default_curl_asked:
  assumes "default_curl env url limit s = (r, s')"
  shows "\<exists>l. fe_log s' = fe_log s @ l \<and> (asked l = [] \<or> asked l = [url])"
  using curl_request [OF assms [unfolded default_curl_def]] unfolding one_request_def Let_def
  by (elim disjE exE conjE) (rule exI [of _ "[]"], simp, rule exI, auto)

lemma ask_fallback_asked:
  assumes "ask_fallback (default_curl env) fallback_base cid limit m s = (r, s')"
  shows "\<exists>l. fe_log s' = fe_log s @ l \<and> (asked l = [] \<or> asked l = [fallback_base @ cid])"
proof -
  obtain r1 s1 where run: "default_curl env (fallback_base @ cid) limit s = (r1, s1)" by (metis surj_pair)
  have "fe_log s' = fe_log s1" using assms run
    by (auto simp: ask_fallback_def abind_def acatch_replication_def count_fallback_def split: sum.splits option.splits)
  with default_curl_asked [OF run] show ?thesis by simp
qed

definition counted_fallback :: "'w fetch_state \<Rightarrow> 'w fetch_state \<Rightarrow> string \<Rightarrow> bytes \<Rightarrow> bool" where
  "counted_fallback s s' url data \<longleftrightarrow>
     fe_primary s' = fe_primary s \<and> fe_fallback s' = fe_fallback s + 1 \<and>
     (\<exists>argv. fe_log s' = fe_log s @ [(argv, Inr (0, data))] \<and> last argv = url)"

lemma ask_fallback_outcome:
  assumes "ask_fallback (default_curl env) fallback_base cid limit m s = (r, s')"
  shows "case r of Inl e \<Rightarrow> fe_primary s' = fe_primary s \<and> fe_fallback s' = fe_fallback s
    | Inr data \<Rightarrow> counted_fallback s s' (fallback_base @ cid) data"
proof -
  obtain r1 s1 where run: "default_curl env (fallback_base @ cid) limit s = (r1, s1)" by (metis surj_pair)
  show ?thesis
  proof (cases r1)
    case (Inl e)
    then show ?thesis using assms run default_curl_counts [OF run]
      by (auto simp: ask_fallback_def abind_def acatch_replication_def split: option.splits)
  next
    case (Inr data)
    then show ?thesis using assms run default_curl_Inr [of env "fallback_base @ cid" limit s data s1]
      by (auto simp: ask_fallback_def abind_def acatch_replication_def count_fallback_def counted_fallback_def)
  qed
qed

text \<open>Which origins a fetch asks, however it ends.\<close>

lemma fallback_fetch_asked:
  assumes "fallback_fetch env (default_curl env) base fb url limit s = (r, s')"
  shows "\<exists>l. fe_log s' = fe_log s @ l \<and>
    (case url_cid base url of
       Inl e \<Rightarrow> l = []
     | Inr cid \<Rightarrow> asked l \<in> (if fv_now env (fe_world s) < fe_suppressed_until s then {[], [fb @ cid]}
         else {[], [url], [fb @ cid], [url, fb @ cid]}))"
proof (cases "url_cid base url")
  case (Inl e)
  then show ?thesis using assms by (auto simp: fallback_fetch_def abind_def)
next
  case cid: (Inr cid)
  show ?thesis
  proof (cases "fv_now env (fe_world s) < fe_suppressed_until s")
    case True
    then have "ask_fallback (default_curl env) fb cid limit ''primary bridge temporarily unavailable'' s = (r, s')"
      using assms cid by (simp add: fallback_fetch_def abind_def)
    from ask_fallback_asked [OF this] show ?thesis unfolding cid using True by simp
  next
    case False
    obtain r1 s1 where run: "default_curl env url limit s = (r1, s1)" by (metis surj_pair)
    from default_curl_asked [OF run] obtain l where l: "fe_log s1 = fe_log s @ l" "asked l = [] \<or> asked l = [url]"
      by (elim exE conjE) (rule that)
    let ?s2 = "s1\<lparr>fe_suppressed_until := fv_now env (fe_world s1) + 60 * fv_second env\<rparr>"
    have "fe_log s' = fe_log s1 \<or> (\<exists>m. ask_fallback (default_curl env) fb cid limit m ?s2 = (r, s'))"
    proof (cases r1)
      case (Inl e)
      then show ?thesis using assms cid False run
        by (cases "replication_message e") (simp_all add: fallback_fetch_def abind_def suppress_primary_def, blast)
    next
      case (Inr data)
      then have "s' = s1\<lparr>fe_primary := fe_primary s1 + 1\<rparr>" using assms cid False run
        by (simp add: fallback_fetch_def abind_def count_primary_def)
      then show ?thesis by simp
    qed
    then consider "fe_log s' = fe_log s1" | m where "ask_fallback (default_curl env) fb cid limit m ?s2 = (r, s')" by blast
    then show ?thesis
    proof cases
      case 1
      then have "fe_log s' = fe_log s @ l" using l(1) by simp
      moreover have "asked l \<in> {[], [url], [fb @ cid], [url, fb @ cid]}" using l(2) by (elim disjE) (simp_all only: insert_iff simp_thms)
      ultimately show ?thesis unfolding cid using False by (intro exI [of _ l]) simp
    next
      case (2 m)
      have logs: "fe_log ?s2 = fe_log s1" by simp
      from ask_fallback_asked [OF 2, unfolded logs] obtain l' where "fe_log s' = fe_log s1 @ l'" "asked l' = [] \<or> asked l' = [fb @ cid]"
        by (elim exE conjE) (rule that)
      then have "fe_log s' = fe_log s @ (l @ l')" "asked (l @ l') \<in> {[], [url], [fb @ cid], [url, fb @ cid]}"
        using l by (simp, elim disjE) (simp_all only: map_append insert_iff append_Nil append_Cons simp_thms)
      then show ?thesis unfolding cid using False by (intro exI [of _ "l @ l'"]) simp
    qed
  qed
qed

lemma fallback_fetch_counts:
  assumes "origin_fallback_block_fetcher env args (default_curl env) = Inr fetch" and "so_fallback_base args = Some fb" and "fb \<noteq> []"
    and "fetch url limit s = (r, s')"
  shows "fb \<noteq> so_block_url_base args \<and>
    (case r of
       Inl e \<Rightarrow> fe_primary s' = fe_primary s \<and> fe_fallback s' = fe_fallback s
     | Inr data \<Rightarrow>
         \<exists>cid l argv. url = so_block_url_base args @ cid \<and> match_cid cid \<and> fe_log s' = fe_log s @ l @ [(argv, Inr (0, data))] \<and>
           (fe_primary s' = fe_primary s + 1 \<and> fe_fallback s' = fe_fallback s \<and> last argv = url \<or>
            fe_primary s' = fe_primary s \<and> fe_fallback s' = fe_fallback s + 1 \<and> last argv = fb @ cid) \<and>
           (fv_now env (fe_world s) < fe_suppressed_until s \<longrightarrow> l = [] \<and> last argv = fb @ cid))"
proof -
  from assms(1-3) have f: "fb \<noteq> so_block_url_base args"
    "fetch = fallback_fetch env (default_curl env) (so_block_url_base args) fb"
    by (auto simp: origin_fallback_block_fetcher_def Let_def split: if_splits)
  show ?thesis
  proof (cases "url_cid (so_block_url_base args) url")
    case (Inl e)
    then show ?thesis using assms(4) f by (auto simp: fallback_fetch_def abind_def)
  next
    case (Inr cid)
    then have url: "url = so_block_url_base args @ cid" "match_cid cid" by (simp_all add: url_cid_Inr)
    show ?thesis
    proof (cases "fv_now env (fe_world s) < fe_suppressed_until s")
      case True
      then have "ask_fallback (default_curl env) fb cid limit ''primary bridge temporarily unavailable'' s = (r, s')"
        using assms(4) f(2) Inr by (simp add: fallback_fetch_def abind_def)
      note outcome = ask_fallback_outcome [OF this]
      show ?thesis
      proof (cases r)
        case (Inr data)
        with outcome obtain argv where "fe_log s' = fe_log s @ [] @ [(argv, Inr (0, data))]" "last argv = fb @ cid"
          "fe_primary s' = fe_primary s" "fe_fallback s' = fe_fallback s + 1" by (auto simp: counted_fallback_def)
        then show ?thesis using f(1) url Inr by auto
      qed (use outcome f(1) in simp)
    next
      case False
      obtain r1 s1 where run: "default_curl env url limit s = (r1, s1)" by (metis surj_pair)
      show ?thesis
      proof (cases r1)
        case (Inr data)
        then have "r = Inr data" "s' = s1\<lparr>fe_primary := fe_primary s1 + 1\<rparr>"
          using assms(4) f(2) \<open>url_cid (so_block_url_base args) url = Inr cid\<close> False run
          by (auto simp: fallback_fetch_def abind_def count_primary_def)
        moreover from default_curl_Inr run Inr obtain argv where "fe_log s1 = fe_log s @ [(argv, Inr (0, data))]" "last argv = url"
          "fe_primary s1 = fe_primary s" "fe_fallback s1 = fe_fallback s" by blast
        ultimately have "fe_log s' = fe_log s @ [] @ [(argv, Inr (0, data))] \<and> fe_primary s' = fe_primary s + 1 \<and>
            fe_fallback s' = fe_fallback s \<and> last argv = url \<and> r = Inr data" by simp
        then show ?thesis using f(1) url False by auto
      next
        case (Inl e)
        note counts = default_curl_counts [OF run]
        show ?thesis
        proof (cases "replication_message e")
          case None
          then show ?thesis using assms(4) f Inr False run Inl counts by (auto simp: fallback_fetch_def abind_def)
        next
          case (Some m)
          let ?s2 = "s1\<lparr>fe_suppressed_until := fv_now env (fe_world s1) + 60 * fv_second env\<rparr>"
          have "ask_fallback (default_curl env) fb cid limit m ?s2 = (r, s')"
            using assms(4) f(2) Inr False run Inl Some by (simp add: fallback_fetch_def abind_def suppress_primary_def)
          from ask_fallback_outcome [OF this] counts show ?thesis
            using f(1) url False by (cases r) (auto simp: counted_fallback_def)
        qed
      qed
    qed
  qed
qed

text \<open>C35: the source counts cannot be mistaken. A fetch with a fallback that returns bytes adds one to exactly one
  count: to the primary's, and then the bytes are what the last command printed, a request for the URL of
  the primary; or to the fallback's, and then the last command was a request to the fallback's URL of the
  same CID. A fetch that raises counts nothing. Whether it returns or raises, its commands ask the primary at most
  once, then the fallback at most once, for this CID and nothing else; while the primary is held back it is not
  asked at all; and a URL that is not the primary's for a CID makes no request.\<close>

theorem source_counts_tell_the_origin:
  assumes "origin_fallback_block_fetcher env args (default_curl env) = Inr fetch" and "so_fallback_base args = Some fb" and "fb \<noteq> []"
    and "fetch url limit s = (r, s')"
  shows "fb \<noteq> so_block_url_base args \<and>
    (case r of
       Inl e \<Rightarrow> fe_primary s' = fe_primary s \<and> fe_fallback s' = fe_fallback s
     | Inr data \<Rightarrow>
         \<exists>cid l argv. url = so_block_url_base args @ cid \<and> match_cid cid \<and> fe_log s' = fe_log s @ l @ [(argv, Inr (0, data))] \<and>
           (fe_primary s' = fe_primary s + 1 \<and> fe_fallback s' = fe_fallback s \<and> last argv = url \<or>
            fe_primary s' = fe_primary s \<and> fe_fallback s' = fe_fallback s + 1 \<and> last argv = fb @ cid) \<and>
           (fv_now env (fe_world s) < fe_suppressed_until s \<longrightarrow> l = [] \<and> last argv = fb @ cid)) \<and>
    (\<exists>l. fe_log s' = fe_log s @ l \<and>
       (case url_cid (so_block_url_base args) url of
          Inl e \<Rightarrow> l = []
        | Inr cid \<Rightarrow> asked l \<in> (if fv_now env (fe_world s) < fe_suppressed_until s then {[], [fb @ cid]}
            else {[], [url], [fb @ cid], [url, fb @ cid]})))"
proof -
  note counts = fallback_fetch_counts [OF assms]
  from assms have "fallback_fetch env (default_curl env) (so_block_url_base args) fb url limit s = (r, s')"
    by (auto simp: origin_fallback_block_fetcher_def Let_def split: if_splits)
  from fallback_fetch_asked [OF this] counts show ?thesis by blast
qed

text \<open>C36: a source that stalls is not replaced. \<open>curl\<close> applies \<open>--max-time\<close> to each attempt and repeats attempts that
  time out, so the process can outlive the 30 seconds \<open>command\<close> adds; then \<open>TimeoutExpired\<close> is raised, which is no
  \<open>ReplicationError\<close>: the fetch ends with it, without a request to the fallback.\<close>

theorem stalled_primary_skips_fallback:
  assumes "origin_fallback_block_fetcher env args (default_curl env) = Inr fetch"
    and "url = so_block_url_base args @ cid" and "match_cid cid" and "fe_suppressed_until s \<le> fv_now env (fe_world s)"
    and "url_scheme (fv_urlsplit env url) = ''https'' \<or> url_scheme (fv_urlsplit env url) = ''http'' \<and> url_hostname (fv_urlsplit env url) = Some ''127.0.0.1''"
    and "\<forall>argv. last argv = url \<longrightarrow> fst (fv_run env argv (fe_world s)) = Inl TimeoutExpired"
  shows "\<exists>s' argv. fetch url limit s = (Inl TimeoutExpired, s') \<and> fe_log s' = fe_log s @ [(argv, Inl TimeoutExpired)] \<and> last argv = url \<and>
    fe_fallback s' = fe_fallback s \<and> fe_suppressed_until s' = fe_suppressed_until s"
proof -
  let ?u = "fv_urlsplit env url"
  let ?loopback = "url_scheme ?u = ''http'' \<and> url_hostname ?u = Some ''127.0.0.1''"
  let ?argv = "curl_argv ?loopback url limit None 240 2"
  have "fst (fv_run env ?argv (fe_world s)) = Inl TimeoutExpired" using assms(6) by simp
  then obtain w where "fv_run env ?argv (fe_world s) = (Inl TimeoutExpired, w)" by (metis prod.collapse)
  then have run: "default_curl env url limit s = (Inl TimeoutExpired, s\<lparr>fe_world := w, fe_log := fe_log s @ [(?argv, Inl TimeoutExpired)]\<rparr>)"
    using assms(5) by (auto simp: default_curl_def curl_def Let_def abind_def source_command_def)
  have "fetch = default_curl env \<or> (\<exists>fb. fetch = fallback_fetch env (default_curl env) (so_block_url_base args) fb)"
    using assms(1) by (auto simp: origin_fallback_block_fetcher_def Let_def split: option.splits if_splits)
  moreover have "url_cid (so_block_url_base args) url = Inr cid" using assms(2,3) by (simp add: url_cid_Inr)
  ultimately have "fetch url limit s = (Inl TimeoutExpired, s\<lparr>fe_world := w, fe_log := fe_log s @ [(?argv, Inl TimeoutExpired)]\<rparr>)"
    using run assms(4) by (auto simp: fallback_fetch_def abind_def replication_message_def)
  then show ?thesis by (intro exI [of _ "s\<lparr>fe_world := w, fe_log := fe_log s @ [(?argv, Inl TimeoutExpired)]\<rparr>"] exI [of _ ?argv]) simp
qed

section \<open>Concrete runs\<close>

text \<open>A world that is a clock; the bridge is down, the other hosts answer.\<close>

definition source_split :: "string \<Rightarrow> split_url" where
  "source_split u = \<lparr>url_scheme = takeWhile (\<lambda>c. c \<noteq> CHR '':'') u, url_hostname = Some (if startswith u ''http:'' then ''127.0.0.1'' else ''peer''),
     url_port = None, url_path = ''/ipfs/'', url_query = [], url_fragment = [], url_username = None, url_password = None\<rparr>"

definition source_env :: "bool \<Rightarrow> int fetch_env" where
  "source_env up = \<lparr>fv_run = (\<lambda>argv w. (Inr (if up \<and> \<not> startswith (last argv) ''http:'' then 0 else 7, [1, 2]), w + 1)), fv_now = (\<lambda>w. w),
     fv_sleep = (\<lambda>d w. w + d), fv_second = 1, fv_urlsplit = source_split, fv_bad_port = (\<lambda>_. False)\<rparr>"

definition peer_args :: source_args where
  "peer_args = \<lparr>so_block_url_base = ''https://o/ipfs/'', so_fallback_base = None, so_peer_base = Some ''https://peer/ipfs/'',
     so_peer_resolve = Some ''peer:443:10.0.0.1'', so_peer_only = True, so_peer_wait_seconds = 25\<rparr>"

definition bridge_first_args :: source_args where
  "bridge_first_args = \<lparr>so_block_url_base = ''http://127.0.0.1:18095/ipfs/'', so_fallback_base = Some ''https://o/ipfs/'', so_peer_base = None,
     so_peer_resolve = None, so_peer_only = False, so_peer_wait_seconds = 0\<rparr>"

definition source_start :: "int fetch_state" where
  "source_start = \<lparr>fe_world = 0, fe_log = [], fe_suppressed_until = 0, fe_primary = 0, fe_fallback = 0\<rparr>"

lemma toy_source:
  "block_source (source_env up) peer_args = Inr (peer_fetch (source_env up) peer_args ''https://peer/ipfs/'' ''peer:443:10.0.0.1'' (default_curl (source_env up)))"
  "so_peer_only peer_args" "clock_ok (source_env up)" "0 \<le> so_peer_wait_seconds peer_args"
proof -
  have "peer_config_ok (source_env up) ''https://peer/ipfs/'' (Some ''peer:443:10.0.0.1'')" by (cases up; code_simp)
  moreover have "\<not> fv_bad_port (source_env up) ''https://peer/ipfs/''" by (simp add: source_env_def)
  ultimately show "block_source (source_env up) peer_args =
      Inr (peer_fetch (source_env up) peer_args ''https://peer/ipfs/'' ''peer:443:10.0.0.1'' (default_curl (source_env up)))"
    by (simp add: block_source_def origin_fallback_block_fetcher_def peer_first_block_fetcher_def peer_args_def Let_def)
  show "so_peer_only peer_args" "clock_ok (source_env up)" "0 \<le> so_peer_wait_seconds peer_args"
    by (simp_all add: peer_args_def clock_ok_def source_env_def)
qed

theorem peer_wait_ends_witness:
  "\<exists>r s'. peer_fetch (source_env False) peer_args ''https://peer/ipfs/'' ''peer:443:10.0.0.1'' (default_curl (source_env False))
     (''https://o/ipfs/'' @ sample_cid) 100 source_start = Some (r, s') \<and> length (fe_log s') \<le> 4"
  using peer_wait_ends [OF toy_source(1) [of False] toy_source(2-4), where url = "''https://o/ipfs/'' @ sample_cid" and limit = 100 and s = source_start]
  by (simp add: peer_args_def source_start_def)

theorem peer_only_asks_only_the_peer_witness:
  "\<exists>s' argv answer. peer_fetch (source_env True) peer_args ''https://peer/ipfs/'' ''peer:443:10.0.0.1'' (default_curl (source_env True))
     (''https://o/ipfs/'' @ sample_cid) 100 source_start = Some (Inr [1, 2], s') \<and> (argv, answer) \<in> set (fe_log s') \<and>
     pinned_request ''peer:443:10.0.0.1'' (''https://peer/ipfs/'' @ sample_cid) argv"
proof -
  let ?fetch = "peer_fetch (source_env True) peer_args ''https://peer/ipfs/'' ''peer:443:10.0.0.1'' (default_curl (source_env True))"
  let ?url = "''https://o/ipfs/'' @ sample_cid"
  obtain s1 where one: "peer_curl (source_env True) ''https://peer/ipfs/'' ''peer:443:10.0.0.1'' sample_cid 100 source_start = (Inr [1, 2], s1)"
    "length (fe_log s1) = 1"
  proof -
    have "case peer_curl (source_env True) ''https://peer/ipfs/'' ''peer:443:10.0.0.1'' sample_cid 100 source_start of
        (r, s1) \<Rightarrow> r = Inr [1, 2] \<and> length (fe_log s1) = 1" by code_simp
    then show ?thesis using that by (auto split: prod.splits)
  qed
  have "url_cid ''https://o/ipfs/'' ?url = Inr sample_cid" by code_simp
  then have run: "?fetch ?url 100 source_start = Some (Inr [1, 2], s1)"
    using one(1) by (simp add: peer_fetch_def peer_args_def peer_wait.simps)
  from peer_only_asks_only_the_peer [OF toy_source(1) toy_source(2) run] obtain l cid where l: "fe_log s1 = l"
    "\<forall>(argv, answer) \<in> set l. \<exists>cid. ?url = ''https://o/ipfs/'' @ cid \<and> match_cid cid \<and>
       pinned_request ''peer:443:10.0.0.1'' (''https://peer/ipfs/'' @ cid) argv"
    by (auto simp: source_start_def peer_args_def)
  then obtain argv answer where "l = [(argv, answer)]" using one(2) by (cases l) auto
  then show ?thesis using run l by auto
qed

theorem source_counts_tell_the_origin_witness:
  "\<exists>fetch data s'. origin_fallback_block_fetcher (source_env True) bridge_first_args (default_curl (source_env True)) = Inr fetch \<and>
     fetch (''http://127.0.0.1:18095/ipfs/'' @ sample_cid) 100 source_start = (Inr data, s') \<and> fe_primary s' + fe_fallback s' = 1"
proof -
  let ?env = "source_env True" and ?url = "''http://127.0.0.1:18095/ipfs/'' @ sample_cid"
  obtain fetch where f: "origin_fallback_block_fetcher ?env bridge_first_args (default_curl ?env) = Inr fetch"
    "fetch = fallback_fetch ?env (default_curl ?env) ''http://127.0.0.1:18095/ipfs/'' ''https://o/ipfs/''"
    by (simp add: origin_fallback_block_fetcher_def bridge_first_args_def endswith_def startswith_def)
  have "fst (fallback_fetch ?env (default_curl ?env) ''http://127.0.0.1:18095/ipfs/'' ''https://o/ipfs/'' ?url 100 source_start) = Inr [1, 2]"
    by code_simp
  then obtain s' where run: "fetch ?url 100 source_start = (Inr [1, 2], s')" using f(2) by (metis prod.collapse)
  have "so_fallback_base bridge_first_args = Some ''https://o/ipfs/''" by (simp add: bridge_first_args_def)
  from source_counts_tell_the_origin [OF f(1) this _ run] have "fe_primary s' + fe_fallback s' = 1"
    by (auto simp: source_start_def)
  then show ?thesis using f(1) run by blast
qed

definition stalled_env :: "int fetch_env" where
  "stalled_env = (source_env True)\<lparr>fv_run := (\<lambda>argv w. (if startswith (last argv) ''http:'' then Inl TimeoutExpired else Inr (0, [1, 2]), w + 270))\<rparr>"

theorem stalled_primary_skips_fallback_witness:
  "\<exists>fetch s'. origin_fallback_block_fetcher stalled_env bridge_first_args (default_curl stalled_env) = Inr fetch \<and>
     fetch (''http://127.0.0.1:18095/ipfs/'' @ sample_cid) 100 source_start = (Inl TimeoutExpired, s') \<and> fe_fallback s' = 0"
proof -
  let ?url = "''http://127.0.0.1:18095/ipfs/'' @ sample_cid"
  obtain fetch where f: "origin_fallback_block_fetcher stalled_env bridge_first_args (default_curl stalled_env) = Inr fetch"
    by (simp add: origin_fallback_block_fetcher_def bridge_first_args_def endswith_def startswith_def)
  have facts: "?url = so_block_url_base bridge_first_args @ sample_cid" "match_cid sample_cid"
    "fe_suppressed_until source_start \<le> fv_now stalled_env (fe_world source_start)"
    "url_scheme (fv_urlsplit stalled_env ?url) = ''http''" "url_hostname (fv_urlsplit stalled_env ?url) = Some ''127.0.0.1''"
    "startswith ?url ''http:''" by code_simp+
  have "\<forall>argv. last argv = ?url \<longrightarrow> fst (fv_run stalled_env argv (fe_world source_start)) = Inl TimeoutExpired"
    using facts(6) by (simp add: stalled_env_def)
  from stalled_primary_skips_fallback [OF f facts(1,2,3) disjI2 [OF conjI [OF facts(4,5)]] this, of 100]
  obtain s' where "fetch ?url 100 source_start = (Inl TimeoutExpired, s')" "fe_fallback s' = fe_fallback source_start" by blast
  then show ?thesis using f by (auto simp: source_start_def)
qed

end
