(* ===== verification/Kubo_Cli.thy ===== *)
theory Kubo_Cli
  imports Replication_Batch Kubo_Commands
begin

text \<open>
  \<open>deploy/replicate_lake.py\<close>, the class \<open>Kubo\<close>: the per-block operations through the command line, which
  \<open>KuboRPC\<close> replaces by requests to the daemon. Shown: both keep the contract of \<open>put_verified\<close>, stated
  as a locale: a put that returns has evidence for the block, and no later put takes it away; so blocks
  stored one after the other are all held at the end.
\<close>

section \<open>Commands\<close>

text \<open>The object with the machine its commands run on.\<close>

record 'w kubo_cli =
  kc_machine :: "'w machine"
  kc_pins :: "string list"
  kc_raw_cids :: "string list"

text \<open>\<open>Kubo.run\<close>; \<open>command\<close> lets \<open>OSError\<close> and \<open>TimeoutExpired\<close> through.\<close>

definition cli_command :: "'w program \<Rightarrow> path \<Rightarrow> string list \<Rightarrow> bytes \<Rightarrow> ('w kubo_cli, bytes) action" where
  "cli_command prog binary args data s =
     (let m = kc_machine s; argv = path_str binary # args in
      case prog None argv data (mc_fs m, mc_world m) of (answer, fs, w) \<Rightarrow>
        (rbind answer (\<lambda>(rc, out). if rc \<noteq> 0 then Inl (ReplicationError (hd argv @ '' failed'')) else Inr out),
         s\<lparr>kc_machine := m\<lparr>mc_fs := fs, mc_world := w, mc_log := mc_log m @ [(None, argv, data, answer)]\<rparr>\<rparr>))"

definition cli_mark_pinned :: "string \<Rightarrow> ('w kubo_cli, unit) action" where
  "cli_mark_pinned cid s = (Inr (), s\<lparr>kc_pins := add_cid cid (kc_pins s)\<rparr>)"

section \<open>Operations\<close>

definition size_pattern :: "rx list" where
  "size_pattern = [RLine_Start] @ rx_text ''Size:'' @ [RStar py_space, ROpen] @ rx_plus ascii_digit @ [RClose, RStar py_space, RLine_End]"

definition cli_block_size :: "pylib \<Rightarrow> 'w program \<Rightarrow> path \<Rightarrow> path option \<Rightarrow> string \<Rightarrow> ('w kubo_cli, int) action" where
  "cli_block_size py prog binary store cid s =
     (if cid \<in> set (kc_raw_cids s) then
        (case store of None \<Rightarrow> (Inl AttributeError, s)
         | Some root \<Rightarrow>
             (rbind (raw_read py root (mc_fs (kc_machine s)) cid MAX_BLOCK) (\<lambda>found.
                case found of None \<Rightarrow> Inl TypeError | Some d \<Rightarrow> Inr (int (length d))), s))
      else
        abind (cli_command prog binary [''block'', ''stat'', cid] []) (\<lambda>out.
          case rx_search size_pattern [] (text_of out) of
            Some [number] \<Rightarrow> areturn (int (dec_value number))
          | _ \<Rightarrow> araise (ReplicationError (''Kubo block size unreadable for '' @ cid))) s)"

text \<open>The pattern of \<open>durable_pin_type\<close>: the CID, blanks, and the kind of the pin.\<close>

definition pin_kind_text :: "string \<Rightarrow> string \<Rightarrow> string option" where
  "pin_kind_text cid line =
     (let rest = drop (length cid) line; kind = dropWhile py_space rest in
      if \<not> startswith line cid \<or> kind = rest then None
      else if kind = ''direct'' \<or> kind = ''recursive'' \<or>
        (startswith kind ''indirect through '' \<and> match_cid (drop (length ''indirect through '') kind)) then Some kind
      else None)"

definition cli_durable_pin_type :: "'w program \<Rightarrow> path \<Rightarrow> string \<Rightarrow> ('w kubo_cli, string option) action" where
  "cli_durable_pin_type prog binary cid =
     acatch_replication
       (abind (cli_command prog binary [''pin'', ''ls'', ''--type=all'', cid] []) (\<lambda>out.
          areturn (pin_kind_text cid (strip (text_of out)))))
       (\<lambda>_. areturn None)"

definition cli_put_args :: "string \<Rightarrow> bytes \<Rightarrow> string list \<Rightarrow> string list res" where
  "cli_put_args cid data prefix =
     (case prefix of
        [version, codec, hash_name, hash_length] \<Rightarrow>
          rbind (if version = ''cidv0'' then Inr [''block'', ''put'', ''--format=v0'']
            else if version = ''cidv1''
            then Inr [''block'', ''put'', ''--cid-codec='' @ codec, ''--mhtype='' @ hash_name, ''--mhlen='' @ hash_length]
            else Inl (ReplicationError (''unsupported CID version '' @ version))) (\<lambda>argv.
          Inr (argv @ (if 2 * 1024 * 1024 < length data then [''--allow-big-block''] else []) @ [''-'']))
      | _ \<Rightarrow> Inl (ReplicationError (''Kubo could not decode CID prefix '' @ cid)))"

text \<open>A refused pin is accepted only if the block turns out to be pinned.\<close>

definition cli_pin :: "'w program \<Rightarrow> path \<Rightarrow> string \<Rightarrow> ('w kubo_cli, unit) action" where
  "cli_pin prog binary cid =
     acatch_replication
       (abind (cli_command prog binary [''pin'', ''add'', ''--recursive=false'', cid] []) (\<lambda>_. areturn ()))
       (\<lambda>message. abind (cli_durable_pin_type prog binary cid) (\<lambda>kind.
          if kind = None then araise (ReplicationError message) else areturn ()))"

definition cli_put_verified :: "'w program \<Rightarrow> path \<Rightarrow> string \<Rightarrow> bytes \<Rightarrow> ('w kubo_cli, unit) action" where
  "cli_put_verified prog binary cid data =
     abind (cli_command prog binary [''cid'', ''format'', ''-f'', ''%v %c %h %L'', cid] []) (\<lambda>out.
     abind (alift (cli_put_args cid data (py_split (strip (text_of out))))) (\<lambda>args.
     abind (cli_command prog binary args data) (\<lambda>produced.
     if strip (text_of produced) \<noteq> cid then araise (ReplicationError (''Kubo rederived a different CID for '' @ cid))
     else
       abind (cli_command prog binary [''block'', ''get'', cid] []) (\<lambda>reread.
       if reread \<noteq> data then araise (ReplicationError (''Kubo readback differs for '' @ cid))
       else abind (cli_pin prog binary cid) (\<lambda>_. cli_mark_pinned cid)))))"

text \<open>\<open>require_disk_reserve\<close>, with the free space of the repository's disk.\<close>

definition require_disk_reserve :: "int \<Rightarrow> int \<Rightarrow> int \<Rightarrow> unit res" where
  "require_disk_reserve free new_bytes reserve =
     (if free - 2 * new_bytes < reserve then Inl (ReplicationError ''physical disk reserve would be crossed'') else Inr ())"

text \<open>\<open>Kubo.preflight\<close>: the pins of all three kinds, the raw store's CIDs, and the repository's size and limit.\<close>

definition cli_pin_listing :: "'w program \<Rightarrow> path \<Rightarrow> unit \<Rightarrow> string \<Rightarrow> ('w kubo_cli, unit) action" where
  "cli_pin_listing prog binary _ kind =
     abind (cli_command prog binary [''pin'', ''ls'', ''--type='' @ kind] []) (\<lambda>out s.
     (Inr (), s\<lparr>kc_pins := kc_pins s @ first_words (text_of out)\<rparr>))"

definition cli_raw_listing :: "pylib \<Rightarrow> path option \<Rightarrow> ('w kubo_cli, unit) action" where
  "cli_raw_listing py store s =
     (case store of
        None \<Rightarrow> (Inr (), s)
      | Some root \<Rightarrow>
          (case raw_cids py root (mc_fs (kc_machine s)) of
             Inl e \<Rightarrow> (Inl e, s)
           | Inr cids \<Rightarrow> (Inr (), s\<lparr>kc_raw_cids := cids, kc_pins := kc_pins s @ cids\<rparr>)))"

definition cli_preflight ::
    "pylib \<Rightarrow> 'w program \<Rightarrow> path \<Rightarrow> path option \<Rightarrow> (string \<Rightarrow> path) \<Rightarrow> ('w kubo_cli, int \<times> int \<times> string) action" where
  "cli_preflight py prog binary store repo_dir =
     abind (\<lambda>s. (Inr (), s\<lparr>kc_pins := []\<rparr>)) (\<lambda>_.
     abind (afold (cli_pin_listing prog binary) () [''direct'', ''recursive'', ''indirect'']) (\<lambda>_.
     abind (cli_raw_listing py store) (\<lambda>_.
     abind (cli_command prog binary [''repo'', ''stat''] []) (\<lambda>out.
     abind (alift (stat_numbers (colon_fields (text_of out)))) (\<lambda>(repo_size, storage_max, repo_path) s.
       if \<not> is_dir (mc_fs (kc_machine s)) (repo_dir repo_path)
       then (Inl (ReplicationError ''Kubo repo path is not a directory''), s)
       else if storage_max \<le> repo_size
       then (Inl (ReplicationError ''Kubo repo has no configured storage headroom''), s)
       else (Inr (repo_size, storage_max, repo_path), s))))))"

section \<open>The contract of \<open>put_verified\<close>\<close>

text \<open>What a batch relies on: a put that returns holds the block, and blocks once held stay held, whatever way
  later puts end.\<close>

locale verified_writer =
  fixes put :: "string \<Rightarrow> bytes \<Rightarrow> ('s, unit) action" and held :: "'s \<Rightarrow> string \<Rightarrow> bytes \<Rightarrow> bool"
  assumes put_holds: "put cid data s = (Inr u, s') \<Longrightarrow> held s' cid data"
    and held_stays: "held s cid data \<Longrightarrow> put cid' data' s = (r, s') \<Longrightarrow> held s' cid data"
begin

lemma stores_keep: "held s cid data \<Longrightarrow> afold (\<lambda>_ (cid, data). put cid data) () blocks s = (r, s') \<Longrightarrow> held s' cid data"
proof (induction blocks arbitrary: s)
  case (Cons b blocks)
  obtain r1 s1 where one: "(case b of (cid, data) \<Rightarrow> put cid data) s = (r1, s1)" by (metis surj_pair)
  have "held s1 cid data" using held_stays [OF Cons.prems(1)] one by (cases b) simp
  then show ?case using Cons one by (cases r1) auto
qed simp

lemma stores_hold:
  "afold (\<lambda>_ (cid, data). put cid data) () blocks s = (Inr u, s') \<Longrightarrow> \<forall>(cid, data) \<in> set blocks. held s' cid data"
proof (induction blocks arbitrary: s)
  case (Cons b blocks)
  obtain cid data where b: "b = (cid, data)" by (cases b)
  from Cons.prems obtain s1 where one: "put cid data s = (Inr (), s1)"
    "afold (\<lambda>_ (cid, data). put cid data) () blocks s1 = (Inr u, s')"
    unfolding b by (auto split: prod.splits sum.splits)
  show ?case using Cons.IH [OF one(2)] stores_keep [OF put_holds [OF one(1)] one(2)] b by auto
qed simp

end

section \<open>The command line keeps it\<close>

definition cli_log :: "'w kubo_cli \<Rightarrow> program_run list" where "cli_log s = mc_log (kc_machine s)"

text \<open>The commands for this block: derived from these bytes, given back, and pinned or listed as pinned.\<close>

definition cli_held :: "path \<Rightarrow> 'w kubo_cli \<Rightarrow> string \<Rightarrow> bytes \<Rightarrow> bool" where
  "cli_held binary s cid data \<longleftrightarrow>
     (let log = set (cli_log s); bin = path_str binary in
      cid \<in> set (kc_pins s) \<and>
      (\<exists>options out. (None, bin # ''block'' # ''put'' # options, data, Inr (0, out)) \<in> log \<and> strip (text_of out) = cid) \<and>
      (None, [bin, ''block'', ''get'', cid], [], Inr (0, data)) \<in> log \<and>
      ((\<exists>out. (None, [bin, ''pin'', ''add'', ''--recursive=false'', cid], [], Inr (0, out)) \<in> log) \<or>
       (\<exists>out. (None, [bin, ''pin'', ''ls'', ''--type=all'', cid], [], Inr (0, out)) \<in> log \<and> pin_kind_text cid (strip (text_of out)) \<noteq> None)))"

definition cli_extends :: "'w kubo_cli \<Rightarrow> 'w kubo_cli \<Rightarrow> bool" where
  "cli_extends s0 s \<longleftrightarrow> set (cli_log s0) \<subseteq> set (cli_log s) \<and> set (kc_pins s0) \<subseteq> set (kc_pins s)"

lemma cli_extends_refl: "cli_extends s s"
  by (simp add: cli_extends_def)

lemma keeps_cli_command [keeps_intros]: "keeps (cli_extends s0) (cli_command prog binary args data)"
  by (auto simp: keeps_def cli_extends_def cli_command_def cli_log_def Let_def split: prod.splits)

lemma keeps_cli_mark [keeps_intros]: "keeps (cli_extends s0) (cli_mark_pinned cid)"
  by (auto simp: keeps_def cli_extends_def cli_mark_pinned_def cli_log_def add_cid_def)

lemma keeps_cli_put: "keeps (cli_extends s0) (cli_put_verified prog binary cid data)"
  unfolding cli_put_verified_def cli_pin_def cli_durable_pin_type_def by (intro keeps_intros)

lemma cli_held_extends: "cli_held binary s cid data \<Longrightarrow> cli_extends s s' \<Longrightarrow> cli_held binary s' cid data"
  unfolding cli_held_def cli_extends_def Let_def by blast

lemma cli_command_Inr:
  assumes "cli_command prog binary args data s = (Inr out, s')"
  shows "(None, path_str binary # args, data, Inr (0, out)) \<in> set (cli_log s')"
  using assms by (auto simp: cli_command_def cli_log_def Let_def rbind_eq_Inr split: prod.splits if_splits)

lemma cli_pin_Inr:
  assumes "cli_pin prog binary cid s = (Inr u, s')"
  shows "(\<exists>out. (None, [path_str binary, ''pin'', ''add'', ''--recursive=false'', cid], [], Inr (0, out)) \<in> set (cli_log s')) \<or>
    (\<exists>out. (None, [path_str binary, ''pin'', ''ls'', ''--type=all'', cid], [], Inr (0, out)) \<in> set (cli_log s') \<and>
       pin_kind_text cid (strip (text_of out)) \<noteq> None)"
proof -
  from assms consider out where "cli_command prog binary [''pin'', ''add'', ''--recursive=false'', cid] [] s = (Inr out, s')"
    | s1 kind where "cli_durable_pin_type prog binary cid s1 = (Inr (Some kind), s')"
    unfolding cli_pin_def by (auto simp: acatch_Inr abind_Inr split: if_splits)
  then show ?thesis
  proof cases
    case 1
    from cli_command_Inr [OF this] show ?thesis by blast
  next
    case 2
    then obtain out where "cli_command prog binary [''pin'', ''ls'', ''--type=all'', cid] [] s1 = (Inr out, s')"
      "pin_kind_text cid (strip (text_of out)) = Some kind"
      unfolding cli_durable_pin_type_def by (auto simp: acatch_Inr abind_Inr)
    with cli_command_Inr show ?thesis by (metis option.distinct(1))
  qed
qed

lemma cli_put_args_Inr: "cli_put_args cid data prefix = Inr args \<Longrightarrow> \<exists>options. args = ''block'' # ''put'' # options"
  unfolding cli_put_args_def by (auto simp: rbind_eq_Inr split: list.splits if_splits)

lemma cli_put_steps:
  assumes "cli_put_verified prog binary cid data s = (Inr u, s')"
  obtains s1 s2 s3 s4 options produced where
    "cli_command prog binary (''block'' # ''put'' # options) data s1 = (Inr produced, s2)" "strip (text_of produced) = cid"
    "cli_command prog binary [''block'', ''get'', cid] [] s2 = (Inr data, s3)"
    "cli_pin prog binary cid s3 = (Inr (), s4)" "cli_mark_pinned cid s4 = (Inr (), s')"
proof -
  from assms obtain out args s1 produced s2 s3 s4 where
    args: "cli_put_args cid data (py_split (strip (text_of out))) = Inr args"
    and steps: "cli_command prog binary args data s1 = (Inr produced, s2)" "strip (text_of produced) = cid"
      "cli_command prog binary [''block'', ''get'', cid] [] s2 = (Inr data, s3)"
      "cli_pin prog binary cid s3 = (Inr (), s4)" "cli_mark_pinned cid s4 = (Inr (), s')"
    unfolding cli_put_verified_def by (auto simp: abind_Inr split: if_splits)
  from cli_put_args_Inr [OF args] obtain options where "args = ''block'' # ''put'' # options" ..
  with steps show thesis by (auto intro: that)
qed

lemma cli_logs:
  "cli_command prog binary args data s = (r, s') \<Longrightarrow> set (cli_log s) \<subseteq> set (cli_log s')"
  "cli_pin prog binary cid s = (r', s') \<Longrightarrow> set (cli_log s) \<subseteq> set (cli_log s')"
proof -
  have pin: "keeps (cli_extends s) (cli_pin prog binary cid)"
    unfolding cli_pin_def cli_durable_pin_type_def by (intro keeps_intros)
  show "cli_command prog binary args data s = (r, s') \<Longrightarrow> set (cli_log s) \<subseteq> set (cli_log s')"
    "cli_pin prog binary cid s = (r', s') \<Longrightarrow> set (cli_log s) \<subseteq> set (cli_log s')"
    using keepsD [OF keeps_cli_command cli_extends_refl] keepsD [OF pin cli_extends_refl] unfolding cli_extends_def by blast+
qed

lemma cli_put_holds:
  assumes "cli_put_verified prog binary cid data s = (Inr u, s')"
  shows "cli_held binary s' cid data"
  using assms
proof (rule cli_put_steps)
  fix s1 s2 s3 s4 options produced
  assume put: "cli_command prog binary (''block'' # ''put'' # options) data s1 = (Inr produced, s2)"
      "strip (text_of produced) = cid"
    and got: "cli_command prog binary [''block'', ''get'', cid] [] s2 = (Inr data, s3)"
    and pin: "cli_pin prog binary cid s3 = (Inr (), s4)" and mark: "cli_mark_pinned cid s4 = (Inr (), s')"
  have s': "cli_log s' = cli_log s4" "cid \<in> set (kc_pins s')"
    using mark by (auto simp: cli_mark_pinned_def cli_log_def add_cid_def)
  have logs: "set (cli_log s2) \<subseteq> set (cli_log s4)" "set (cli_log s3) \<subseteq> set (cli_log s4)"
    using cli_logs(1) [OF got] cli_logs(2) [OF pin] by auto
  have "(None, path_str binary # ''block'' # ''put'' # options, data, Inr (0, produced)) \<in> set (cli_log s4)"
    using cli_command_Inr [OF put(1)] logs(1) by blast
  moreover have "(None, [path_str binary, ''block'', ''get'', cid], [], Inr (0, data)) \<in> set (cli_log s4)"
    using cli_command_Inr [OF got] logs(2) by blast
  ultimately show ?thesis
    unfolding cli_held_def Let_def s'(1) using s'(2) put(2) cli_pin_Inr [OF pin] by blast
qed

interpretation cli: verified_writer "cli_put_verified prog binary" "cli_held binary"
proof
  show "cli_put_verified prog binary cid data s = (Inr u, s') \<Longrightarrow> cli_held binary s' cid data" for cid data s u s'
    by (rule cli_put_holds)
  show "cli_held binary s cid data \<Longrightarrow> cli_put_verified prog binary cid' data' s = (r, s') \<Longrightarrow> cli_held binary s' cid data"
    for s cid data cid' data' r s'
    using cli_held_extends keepsD [OF keeps_cli_put cli_extends_refl] by blast
qed

section \<open>The daemon's requests keep it\<close>

definition rpc_held :: "pylib \<Rightarrow> 'k rpc_kubo \<Rightarrow> string \<Rightarrow> bytes \<Rightarrow> bool" where
  "rpc_held py s cid data \<longleftrightarrow> cid \<in> set (kb_pins s) \<and> rederived py (kb_log s) cid data \<and> read_back (kb_log s) cid data"

definition rpc_extends :: "'k rpc_kubo \<Rightarrow> 'k rpc_kubo \<Rightarrow> bool" where
  "rpc_extends s0 s \<longleftrightarrow> set (kb_log s0) \<subseteq> set (kb_log s) \<and> set (kb_pins s0) \<subseteq> set (kb_pins s)"

lemma rpc_extends_refl: "rpc_extends s s"
  by (simp add: rpc_extends_def)

lemma keeps_rpc_extends: "only_rpc m \<Longrightarrow> keeps (rpc_extends s0) m"
proof -
  assume m: "only_rpc m"
  have "rpc_extends s0 s \<Longrightarrow> rpc_extends s0 (snd (m s))" for s
    using rpc_only_facts(2,4) [OF only_rpcD [OF m, of s "fst (m s)" "snd (m s)"]] by (auto simp: rpc_extends_def)
  then show ?thesis by (simp add: keeps_def)
qed

lemma keeps_rpc_mark [keeps_intros]: "keeps (rpc_extends s0) (mark_pinned cid)"
  by (auto simp: keeps_def rpc_extends_def mark_pinned_def add_cid_def)

lemma keeps_rpc_raw: "keeps (rpc_extends s0) (keep_raw py store cid data tags message)"
  by (auto simp: keeps_def rpc_extends_def keep_raw_def Let_def add_cid_def split: option.split prod.split sum.split)

lemma keeps_rpc_put: "keeps (rpc_extends s0) (put_verified py rpc store tags cid data)"
  unfolding put_verified_def pin_or_keep_def
  by (intro keeps_intros keeps_rpc_raw keeps_rpc_extends only_rpc_json only_rpc_request only_rpc_durable only_rpc_pin_add)

lemma rpc_put_holds: "put_verified py rpc store tags cid data s = (Inr u, s') \<Longrightarrow> rpc_held py s' cid data"
proof -
  assume "put_verified py rpc store tags cid data s = (Inr u, s')"
  then have run: "put_verified py rpc store tags cid data s = (Inr (), s')" by simp
  from run obtain s1 where s1: "rederived py (kb_log s1) cid data" "read_back (kb_log s1) cid data"
    and how: "(\<exists>s2 message. rpc_only s1 s2 \<and> keep_raw py store cid data tags message s2 = (Inr (), s')) \<or>
     (\<exists>s2. rpc_only s1 s2 \<and> confirmed_pin py (kb_log s2) cid \<and> mark_pinned cid s2 = (Inr (), s'))"
    by (rule put_verified_Inr)
  from how obtain s2 where s2: "rpc_only s1 s2" "kb_log s' = kb_log s2" "cid \<in> set (kb_pins s')"
    using keep_raw_Inr by (fastforce simp: mark_pinned_def add_cid_def)
  show ?thesis
    unfolding rpc_held_def s2(2) using s2(3) s1 evidence_mono(1,2) [OF rpc_only_facts(4) [OF s2(1)]] by blast
qed

lemma rpc_held_extends: "rpc_held py s cid data \<Longrightarrow> rpc_extends s s' \<Longrightarrow> rpc_held py s' cid data"
  unfolding rpc_held_def rpc_extends_def using evidence_mono(1,2) by blast

interpretation daemon: verified_writer "\<lambda>cid. put_verified py rpc store (tags cid) cid" "rpc_held py"
proof
  show "put_verified py rpc store (tags cid) cid data s = (Inr u, s') \<Longrightarrow> rpc_held py s' cid data" for cid data s u s'
    by (rule rpc_put_holds)
  show "rpc_held py s cid data \<Longrightarrow> put_verified py rpc store (tags cid') cid' data' s = (r, s') \<Longrightarrow> rpc_held py s' cid data"
    for s cid data cid' data' r s'
    using rpc_held_extends keepsD [OF keeps_rpc_put rpc_extends_refl] by blast
qed

end
