(* ===== verification/Replication_Command.thy ===== *)
theory Replication_Command
  imports Replication_Batch Block_Sources File_Actions
begin

text \<open>
  \<open>deploy/replicate_lake.py\<close>, \<open>run_and_record_batch\<close> and \<open>main\<close>: the checks of the options, the lock, the
  client of the daemon, one batch and its receipt. Shown: a run that ends with status 0 has left a receipt
  that holds the checkpoint now on disk and a result within the byte budget; while another run holds the
  lock, a run ends with status 2, asks the daemon nothing and changes no file but the lock.
\<close>

section \<open>Options\<close>

text \<open>What the run is given. \<open>--kubo-api-url\<close> is set, as in the deployed units.\<close>

record command_args =
  cm_batch :: replication_args
  cm_sources :: source_args
  cm_binary :: path
  cm_kubo_api :: split_url
  cm_api :: split_url
  cm_raw_store :: "path option"

text \<open>What varies from run to run: whether another process holds the lock, the process and its file, the
  times, the name of the receipt, and the counts of the origins when a fallback is configured.\<close>

record run_env =
  rn_locked :: bool
  rn_script :: path
  rn_pid :: int
  rn_invocation :: "string option"
  rn_started :: string
  rn_completed :: string
  rn_receipt_name :: string
  rn_sources :: "(int \<times> int) option"

definition local_listing :: "split_url \<Rightarrow> bool" where
  "local_listing u \<longleftrightarrow> url_scheme u = ''http'' \<and> url_hostname u = Some ''127.0.0.1'' \<and>
     url_path u = ''/api/v1/lake/blocks'' \<and> url_query u = []"

definition batch_options :: "command_args \<Rightarrow> replication_args" where
  "batch_options args = (cm_batch args)\<lparr>ra_local_api := local_listing (cm_api args)\<rparr>"

text \<open>\<open>parser.error\<close>; a negative number of pages or workers is refused like 0.\<close>

definition args_refused :: "command_args \<Rightarrow> bool" where
  "args_refused args \<longleftrightarrow>
     (let b = cm_batch args in
      ra_max_pages b < 1 \<or> ra_max_new_bytes b < 1 \<or> ra_max_block_bytes b < 1 \<or> ra_fetch_workers b < 1 \<or>
      ra_max_prefetch_bytes b < 1 \<or> ra_min_free_bytes b < 0 \<or> so_peer_wait_seconds (cm_sources args) < 0 \<or>
      (so_peer_only (cm_sources args) \<and> \<not> local_listing (cm_api args)))"

section \<open>The client\<close>

text \<open>\<open>KuboRPC.__init__\<close>\<close>

definition new_kubo :: "path \<Rightarrow> split_url \<Rightarrow> ('k rpc_kubo, unit) action" where
  "new_kubo binary api s =
     (if \<not> is_file (kb_fs s) binary then (Inl (ReplicationError ''Kubo binary does not exist''), s)
      else
        let s' = s\<lparr>kb_pins := [], kb_raw_cids := [], kb_repo_size := 0, kb_storage_max := 0\<rparr> in
        if \<not> loopback_url api then (Inl (ReplicationError ''Kubo RPC must be a loopback HTTP origin''), s')
        else (Inr (), s'))"

section \<open>The receipt of a batch\<close>

definition result_json :: "(int \<times> int) option \<Rightarrow> batch_result \<Rightarrow> json" where
  "result_json sources res =
     JDict ([(''status'', JStr (br_status res)), (''pages'', JInt (int (br_pages res))),
         (''checked_blocks'', JInt (int (br_checked res))), (''new_blocks'', JInt (int (br_new_blocks res))),
         (''new_bytes'', JInt (br_new_bytes res)), (''cursor_advanced'', JBool (br_cursor_advanced res))] @
       (case sources of None \<Rightarrow> []
        | Some (primary, fallback) \<Rightarrow>
            [(''origin_sources'', JDict [(''primary'', JInt primary), (''fallback'', JInt fallback)])]))"

definition optional_str :: "string option \<Rightarrow> json" where
  "optional_str v = (case v of None \<Rightarrow> JNull | Some t \<Rightarrow> JStr t)"

definition batch_receipt :: "pylib \<Rightarrow> run_env \<Rightarrow> replication_args \<Rightarrow> bytes \<Rightarrow> checkpoint \<Rightarrow> batch_result \<Rightarrow> (string \<times> json) list" where
  "batch_receipt py run args script st res =
     [(''schema'', JInt 1), (''started_at'', JStr (rn_started run)), (''completed_at'', JStr (rn_completed run)),
      (''pid'', JInt (rn_pid run)), (''systemd_invocation_id'', optional_str (rn_invocation run)),
      (''script_sha256'', JStr (hex (sha256 py script))), (''inventory_sha256'', optional_str (ra_inventory_sha256 args)),
      (''listing_source'', field st ''listing_source''), (''checkpoint'', JDict st),
      (''result'', result_json (rn_sources run) res)]"

definition batch_receipt_path :: "run_env \<Rightarrow> replication_args \<Rightarrow> path" where
  "batch_receipt_path run args = ra_state_dir args @ [''batch-receipts'', rn_receipt_name run @ ''.json'']"

definition record_batch :: "pylib \<Rightarrow> run_env \<Rightarrow> replication_args \<Rightarrow> batch_result \<Rightarrow> (fs, unit) action" where
  "record_batch py run args res =
     abind (\<lambda>fs. (state_load py fs (state_path args), fs)) (\<lambda>st.
     abind (\<lambda>fs. (read_bytes fs (rn_script run), fs)) (\<lambda>script.
     abind (amkdirs (ra_state_dir args @ [''batch-receipts''])) (\<lambda>_ fs.
     (Inr (), save_state py (batch_receipt_path run args) (batch_receipt py run args script st res) fs))))"

definition run_and_record_batch ::
    "pylib \<Rightarrow> (string \<Rightarrow> json res) \<Rightarrow> run_env \<Rightarrow> 'k surroundings \<Rightarrow> path option \<Rightarrow> replication_args \<Rightarrow> ('k rpc_kubo, batch_result) action" where
  "run_and_record_batch py decode run su store args =
     abind (run_batch py decode su store args) (\<lambda>res.
     abind (on_files (record_batch py run args res)) (\<lambda>_. areturn res))"

section \<open>\<open>main\<close>\<close>

definition lock_path :: "replication_args \<Rightarrow> path" where
  "lock_path args = ra_state_dir args @ [''replicate.lock'']"

text \<open>The lock file is opened for writing, which empties it, before the lock is asked for.\<close>

definition take_run_lock :: "run_env \<Rightarrow> replication_args \<Rightarrow> (fs, unit) action" where
  "take_run_lock run args fs =
     (if is_dir fs (lock_path args) then (Inl OSError, fs)
      else
        let fs' = write_node (lock_path args) (File []) fs in
        if rn_locked run then (Inl (ReplicationError ''another lake replication is running''), fs') else (Inr (), fs'))"

definition replicate_locked ::
    "pylib \<Rightarrow> (string \<Rightarrow> json res) \<Rightarrow> run_env \<Rightarrow> 'k surroundings \<Rightarrow> command_args \<Rightarrow> ('k rpc_kubo, batch_result) action" where
  "replicate_locked py decode run su args =
     abind (on_files (take_run_lock run (batch_options args))) (\<lambda>_.
     abind (new_kubo (cm_binary args) (cm_kubo_api args)) (\<lambda>_.
     run_and_record_batch py decode run su (cm_raw_store args) (batch_options args)))"

fun replication_refused :: "exn \<Rightarrow> bool" where
  "replication_refused (ReplicationError _) = True"
| "replication_refused (RawBlockStoreError _) = True"
| "replication_refused OSError = True"
| "replication_refused TimeoutExpired = True"
| "replication_refused _ = False"

text \<open>The exit status; an exception that is not caught ends the interpreter with status 1.\<close>

definition replicate_main ::
    "pylib \<Rightarrow> (string \<Rightarrow> json res) \<Rightarrow> run_env \<Rightarrow> 'k surroundings \<Rightarrow> command_args \<Rightarrow> ('k rpc_kubo, int) action" where
  "replicate_main py decode run su args s =
     (if args_refused args then (Inr 2, s)
      else
        case on_files (amkdirs (ra_state_dir (batch_options args))) s of
          (Inl e, s') \<Rightarrow> (Inr 1, s')
        | (Inr _, s1) \<Rightarrow>
            (case replicate_locked py decode run su args s1 of
               (Inl e, s') \<Rightarrow> (Inr (if replication_refused e then 2 else 1), s')
             | (Inr _, s') \<Rightarrow> (Inr 0, s')))"

section \<open>A run on toy surroundings\<close>

definition command_py :: pylib where
  "command_py = batch_py\<lparr>json_loads := (\<lambda>text. if text = [9, 10] then Inr (JDict fresh_checkpoint) else json_loads batch_py text)\<rparr>"

definition toy_kubo_url :: split_url where
  "toy_kubo_url = \<lparr>url_scheme = ''http'', url_hostname = Some ''127.0.0.1'', url_port = Some 5001, url_path = [],
     url_query = [], url_fragment = [], url_username = None, url_password = None\<rparr>"

definition toy_command :: command_args where
  "toy_command = \<lparr>cm_batch = batch_args,
     cm_sources = \<lparr>so_block_url_base = ''https://o/ipfs/'', so_fallback_base = None, so_peer_base = None,
       so_peer_resolve = None, so_peer_only = False, so_peer_wait_seconds = 0\<rparr>,
     cm_binary = [''ipfs''], cm_kubo_api = toy_kubo_url, cm_api = toy_kubo_url, cm_raw_store = None\<rparr>"

definition toy_run_env :: "bool \<Rightarrow> run_env" where
  "toy_run_env locked = \<lparr>rn_locked = locked, rn_script = [''script''], rn_pid = 7, rn_invocation = None, rn_started = ''a'',
     rn_completed = ''b'', rn_receipt_name = ''r'', rn_sources = Some (1, 0)\<rparr>"

definition command_kubo :: "string list rpc_kubo" where
  "command_kubo = empty_kubo\<lparr>kb_fs := ([''ipfs''], File [1]) # ([''script''], File [2]) # kb_fs empty_kubo\<rparr>"

lemma toy_main_ends: "fst (replicate_main command_py (\<lambda>_. Inr JNull) (toy_run_env False) batch_world toy_command command_kubo) = Inr 0"
  by code_simp

section \<open>What a run leaves\<close>

lemma state_path_apart:
  "state_path args \<noteq> batch_receipt_path run args" "state_path args \<noteq> temp_name (batch_receipt_path run args)"
  "state_path args \<notin> set (ancestors (ra_state_dir args @ [''batch-receipts'']))"
proof -
  let ?n = "length (ra_state_dir args)"
  have len: "length (state_path args) = Suc ?n" by (simp add: state_path_def)
  have "length (batch_receipt_path run args) = Suc (Suc ?n)" "length (temp_name (batch_receipt_path run args)) = Suc (Suc ?n)"
    by (simp_all add: batch_receipt_path_def temp_name_def)
  then show "state_path args \<noteq> batch_receipt_path run args" "state_path args \<noteq> temp_name (batch_receipt_path run args)"
    using len by auto
  show "state_path args \<notin> set (ancestors (ra_state_dir args @ [''batch-receipts'']))"
  proof
    assume "state_path args \<in> set (ancestors (ra_state_dir args @ [''batch-receipts'']))"
    then obtain k where k: "state_path args = take k (ra_state_dir args @ [''batch-receipts''])"
      and within: "k \<in> set [1..<Suc (length (ra_state_dir args @ [''batch-receipts'']))]"
      unfolding ancestors_def set_map by (rule imageE)
    have "length (take k (ra_state_dir args @ [''batch-receipts''])) = Suc ?n" using len k by metis
    then have "k = Suc ?n" using within by auto
    then show False using k by (simp add: state_path_def)
  qed
qed

lemma save_state_other: "q \<noteq> p \<Longrightarrow> q \<noteq> temp_name p \<Longrightarrow> map_of (save_state py p st fs) q = map_of fs q"
  unfolding save_state_def by (rule run_steps_untouched) (simp add: state_save_def)

lemma record_batch_Inr:
  assumes "record_batch py run args res fs = (Inr u, fs')"
  obtains st script where "state_load py fs (state_path args) = Inr st" "read_bytes fs (rn_script run) = Inr script"
    "map_of fs' (batch_receipt_path run args) = Some (File (checkpoint_text py (batch_receipt py run args script st res)))"
    "map_of fs' (state_path args) = map_of fs (state_path args)"
proof -
  from assms obtain st script fs1 where r: "state_load py fs (state_path args) = Inr st" "read_bytes fs (rn_script run) = Inr script"
    and dirs: "mkdirs (ra_state_dir args @ [''batch-receipts'']) fs = Inr fs1"
    and fs': "fs' = save_state py (batch_receipt_path run args) (batch_receipt py run args script st res) fs1"
    unfolding record_batch_def by (auto simp: abind_Inr amkdirs_Inr)
  from that [OF r] show thesis
    using mkdirs_other [OF dirs state_path_apart(3)] state_path_apart(1,2)
    by (simp add: fs' save_state_other)
qed

lemma state_load_same: "map_of fs p = map_of fs' p \<Longrightarrow> state_load py fs p = state_load py fs' p"
  by (simp add: state_load_def query_defs)

lemma on_files_Inr: "on_files m s = (Inr x, s') \<longleftrightarrow> (\<exists>fs. m (kb_fs s) = (Inr x, fs) \<and> s' = s\<lparr>kb_fs := fs\<rparr>)"
  by (auto simp: on_files_def split: prod.splits)

lemma main_zero:
  assumes "replicate_main py decode run su args s = (Inr 0, s')"
  obtains s0 res s1 fs where "\<not> args_refused args" "\<not> rn_locked run"
    "run_batch py decode su (cm_raw_store args) (batch_options args) s0 = (Inr res, s1)"
    "record_batch py run (batch_options args) res (kb_fs s1) = (Inr (), fs)" "s' = s1\<lparr>kb_fs := fs\<rparr>"
proof -
  from assms have ok: "\<not> args_refused args" by (auto simp: replicate_main_def)
  obtain r a where dirs: "on_files (amkdirs (ra_state_dir (batch_options args))) s = (r, a)" by (metis surj_pair)
  with assms ok have "\<exists>res. replicate_locked py decode run su args a = (Inr res, s')"
    by (auto simp: replicate_main_def split: sum.splits prod.splits if_splits)
  then obtain res s0 s1 fs where "\<not> rn_locked run"
    "run_batch py decode su (cm_raw_store args) (batch_options args) s0 = (Inr res, s1)"
    "record_batch py run (batch_options args) res (kb_fs s1) = (Inr (), fs)" "s' = s1\<lparr>kb_fs := fs\<rparr>"
    unfolding replicate_locked_def run_and_record_batch_def
    by (auto simp: abind_Inr on_files_Inr take_run_lock_def Let_def split: if_splits)
  with ok show thesis by (intro that)
qed

lemma run_batch_opened:
  assumes "run_batch py decode su store args s = (Inr res, s')"
  obtains st fs where "open_state py decode (su_pages su 0) args (kb_fs s) = (Inr st, fs)"
  using assms unfolding run_batch_def by (auto simp: abind_Inr on_files_def split: prod.splits)

text \<open>C15: a replication run that ends with status 0 has left a receipt on disk that names the inventory it was
  asked for and holds the checkpoint that is now in the checkpoint file and a result within the byte budget.\<close>

theorem zero_status_leaves_receipt:
  assumes "replicate_main py decode run su args s = (Inr 0, s')" and "apart (cm_raw_store args) (state_path (batch_options args))"
  shows "\<exists>receipt st res.
    map_of (kb_fs s') (batch_receipt_path run (batch_options args)) = Some (File (checkpoint_text py receipt)) \<and>
    field receipt ''inventory_sha256'' = optional_str (ra_inventory_sha256 (batch_options args)) \<and>
    field receipt ''checkpoint'' = JDict st \<and> state_load py (kb_fs s') (state_path (batch_options args)) = Inr st \<and>
    field receipt ''result'' = result_json (rn_sources run) res \<and>
    br_new_bytes res \<le> ra_max_new_bytes (batch_options args)"
  using assms(1)
proof (rule main_zero)
  fix s0 res s1 fs
  assume ok: "\<not> args_refused args" and run: "run_batch py decode su (cm_raw_store args) (batch_options args) s0 = (Inr res, s1)"
    and record_step: "record_batch py run (batch_options args) res (kb_fs s1) = (Inr (), fs)" and s': "s' = s1\<lparr>kb_fs := fs\<rparr>"
  from run obtain st0 fs0 where opened: "open_state py decode (su_pages su 0) (batch_options args) (kb_fs s0) = (Inr st0, fs0)"
    by (rule run_batch_opened)
  have "0 \<le> ra_max_new_bytes (batch_options args)" using ok by (simp add: args_refused_def batch_options_def Let_def)
  then have "br_new_bytes res \<le> ra_max_new_bytes (batch_options args)"
    using run_batch_rounds [OF run opened assms(2)] by metis
  moreover from record_step obtain st script where "state_load py (kb_fs s1) (state_path (batch_options args)) = Inr st"
    "map_of fs (batch_receipt_path run (batch_options args)) =
       Some (File (checkpoint_text py (batch_receipt py run (batch_options args) script st res)))"
    "map_of fs (state_path (batch_options args)) = map_of (kb_fs s1) (state_path (batch_options args))"
    by (rule record_batch_Inr)
  ultimately show ?thesis
    using state_load_same [of fs "state_path (batch_options args)" "kb_fs s1" py]
    by (intro exI [of _ "batch_receipt py run (batch_options args) script st res"] exI [of _ st] exI [of _ res])
      (simp add: s' batch_receipt_def field_def)
qed

text \<open>While another run holds the lock, a run ends with status 2, asks the daemon nothing and leaves every file as
  it was except the lock and the directories on the way to it.\<close>

theorem locked_run_refused:
  assumes "rn_locked run" and "\<not> args_refused args"
    and "mkdirs (ra_state_dir (batch_options args)) (kb_fs s) = Inr fs" 
  shows "\<exists>s'. replicate_main py decode run su args s = (Inr 2, s') \<and> kb_log s' = kb_log s \<and> kb_daemon s' = kb_daemon s \<and>
    (\<forall>p. p \<noteq> lock_path (batch_options args) \<longrightarrow> p \<notin> set (ancestors (ra_state_dir (batch_options args))) \<longrightarrow>
       map_of (kb_fs s') p = map_of (kb_fs s) p)"
  using assms mkdirs_other [OF assms(3)]
  by (auto simp: replicate_main_def replicate_locked_def on_files_def amkdirs_def take_run_lock_def abind_def Let_def)

theorem zero_status_leaves_receipt_witness:
  "\<exists>s' receipt st res.
    replicate_main command_py (\<lambda>_. Inr JNull) (toy_run_env False) batch_world toy_command command_kubo = (Inr 0, s') \<and>
    map_of (kb_fs s') [''state'', ''batch-receipts'', ''r.json''] = Some (File (checkpoint_text command_py receipt)) \<and>
    field receipt ''checkpoint'' = JDict st \<and> field receipt ''result'' = result_json (Some (1, 0)) res \<and> br_new_bytes res \<le> 10"
proof -
  obtain s' where run: "replicate_main command_py (\<lambda>_. Inr JNull) (toy_run_env False) batch_world toy_command command_kubo = (Inr 0, s')"
    using toy_main_ends by (metis prod.collapse)
  have path: "batch_receipt_path (toy_run_env False) (batch_options toy_command) = [''state'', ''batch-receipts'', ''r.json'']"
    and budget: "ra_max_new_bytes (batch_options toy_command) = 10" and counts: "rn_sources (toy_run_env False) = Some (1, 0)" by code_simp+
  have "apart (cm_raw_store toy_command) (state_path (batch_options toy_command))" by (simp add: apart_def toy_command_def)
  from zero_status_leaves_receipt [OF run this] show ?thesis using run unfolding path budget counts by blast
qed

theorem locked_run_refused_witness:
  "\<exists>s'. replicate_main command_py (\<lambda>_. Inr JNull) (toy_run_env True) batch_world toy_command command_kubo = (Inr 2, s') \<and>
    kb_log s' = []"
proof -
  have busy: "rn_locked (toy_run_env True)" "\<not> args_refused toy_command" by code_simp+
  have log: "kb_log command_kubo = []" by code_simp
  have dirs: "mkdirs (ra_state_dir (batch_options toy_command)) (kb_fs command_kubo) = Inr (kb_fs command_kubo)" by code_simp
  from locked_run_refused [OF busy dirs] log show ?thesis by metis
qed

end
