(* ===== verification/Reader_Command.thy ===== *)
theory Reader_Command
  imports Http_Reader Kubo_Rpc
begin

text \<open>
  \<open>deploy/serve_lake.py\<close>, \<open>main\<close>: how the reader is put together from one inventory, or from the epochs of a
  log. Shown: whatever requests run at the same time, a block body the reader answers is a row of inventory
  files whose bytes, one after the other, have the digest the reader was started with.
\<close>

section \<open>Options\<close>

text \<open>\<open>--raw-block-store\<close>, \<open>--ipfs-bin\<close> and \<open>--ipfs-path\<close> are with the surroundings: the commands, the store
  and the resolved path of the repository.\<close>

record reader_args =
  rr_epochs :: "string list"
  rr_inventory :: "string option"
  rr_sha256 :: string
  rr_count :: int
  rr_car_receipts :: "string option"
  rr_native_receipts :: "string list"
  rr_max_block_bytes :: int
  rr_max_concurrent_requests :: int
  rr_large_client_timeout :: int

text \<open>What opening an inventory file and listing a receipt directory gives.\<close>

record reader_files =
  rf_inventory :: "string \<Rightarrow> (bytes \<times> file_identity) res"
  rf_receipts :: "string \<Rightarrow> receipt_dir"
  rf_cli :: ipfs_cli
  rf_raw_store :: "(path \<times> fs) option"
  rf_repository :: string

text \<open>\<open>str.split\<close> at one character.\<close>

fun split_at :: "char \<Rightarrow> string \<Rightarrow> string list" where
  "split_at c [] = [[]]"
| "split_at c (x # xs) =
     (if x = c then [] # split_at c xs
      else case split_at c xs of [] \<Rightarrow> [[x]] | w # ws \<Rightarrow> (x # w) # ws)"

section \<open>One inventory with its reader\<close>

text \<open>\<open>CarReceipts(...)\<close> when a directory is given; what it was built from is kept by the reader.\<close>

definition reader_receipts ::
    "pylib \<Rightarrow> reader_files \<Rightarrow> inventory \<Rightarrow> bytes \<times> file_identity \<Rightarrow> string option \<Rightarrow> string list \<Rightarrow>
       (receipt_scope \<times> receipt_dir option \<times> receipt_dir list) option res" where
  "reader_receipts py files part found car natives =
     (if car = None \<and> natives = [] then Inr None
      else
        let scope = \<lparr>rs_inventory = part, rs_now = (snd found, fst found), rs_repository = rf_repository files\<rparr>;
            car_dir = map_option (rf_receipts files) car; native_dirs = map (rf_receipts files) natives in
        rbind (open_receipts py scope car_dir native_dirs) (\<lambda>_. Inr (Some (scope, car_dir, native_dirs))))"

definition open_part ::
    "pylib \<Rightarrow> reader_files \<Rightarrow> int \<Rightarrow> string \<Rightarrow> string \<Rightarrow> int \<Rightarrow> string option \<Rightarrow> string list \<Rightarrow> ((inventory \<times> bytes) \<times> block_reader) res" where
  "open_part py files max_block_bytes path sha count car natives =
     rbind (rf_inventory files path) (\<lambda>found.
     rbind (load_inventory py (fst found) (snd found) sha count) (\<lambda>part.
     rbind (reader_receipts py files part found car natives) (\<lambda>receipts.
     rbind (open_blocks (rf_cli files) part max_block_bytes (rf_raw_store files) receipts) (\<lambda>rd.
     Inr ((part, fst found), rd)))))"

text \<open>The body of the loop over \<open>--epoch\<close>.\<close>

definition open_epoch_spec :: "pylib \<Rightarrow> reader_files \<Rightarrow> int \<Rightarrow> string \<Rightarrow> ((inventory \<times> bytes) \<times> block_reader) res" where
  "open_epoch_spec py files max_block_bytes spec =
     (case split_at CHR '':'' spec of
        path # sha # count # directories \<Rightarrow>
          (case py_int count of
             None \<Rightarrow> Inl ValueError
           | Some n \<Rightarrow>
               open_part py files max_block_bytes path sha n
                 (case directories of [] \<Rightarrow> None | car # _ \<Rightarrow> if car = [] then None else Some car)
                 (filter (\<lambda>d. d \<noteq> []) (drop 1 directories)))
      | _ \<Rightarrow> Inl (SystemExit ''--epoch needs INVENTORY:SHA256:COUNT''))"

fun open_epoch_specs :: "pylib \<Rightarrow> reader_files \<Rightarrow> int \<Rightarrow> string list \<Rightarrow> ((inventory \<times> bytes) \<times> block_reader) list res" where
  "open_epoch_specs py files max_block_bytes [] = Inr []"
| "open_epoch_specs py files max_block_bytes (spec # specs) =
     rbind (open_epoch_spec py files max_block_bytes spec) (\<lambda>p.
     rbind (open_epoch_specs py files max_block_bytes specs) (\<lambda>ps. Inr (p # ps)))"

section \<open>The reader\<close>

datatype reader_blocks =
    One_Inventory block_reader
  | Epoch_List "epochs \<times> block_reader list"

definition start_reader :: "pylib \<Rightarrow> reader_files \<Rightarrow> reader_args \<Rightarrow> (lake_server \<times> reader_blocks) res" where
  "start_reader py files args =
     (if rr_epochs args \<noteq> [] then
        rbind (open_epoch_specs py files (rr_max_block_bytes args) (rr_epochs args)) (\<lambda>parts.
        rbind (open_epochs py (map fst parts) (rr_sha256 args) (rr_count args)) (\<lambda>ep.
        rbind (open_epoch_blocks ep (map snd parts)) (\<lambda>blocks.
        Inr (log_server py ep (map (\<lambda>((part, content), _). (inv_identity part, content)) parts), Epoch_List blocks))))
      else
        case rr_inventory args of
          None \<Rightarrow> Inl TypeError
        | Some path \<Rightarrow>
            rbind (open_part py files (rr_max_block_bytes args) path (rr_sha256 args) (rr_count args)
                (rr_car_receipts args) (rr_native_receipts args)) (\<lambda>((part, content), rd).
            Inr (file_server py part (inv_identity part, content), One_Inventory rd)))"

text \<open>\<open>main\<close>: the reader with the requests it gets.\<close>

definition reader_main :: "pylib \<Rightarrow> reader_files \<Rightarrow> reader_args \<Rightarrow> request list \<Rightarrow> (lake_server \<times> reader_blocks \<times> serving) res" where
  "reader_main py files args rqs =
     rbind (start_reader py files args) (\<lambda>(sv, blocks).
     rbind (handler_for (rr_max_concurrent_requests args) (rr_large_client_timeout args) rqs) (\<lambda>s.
     Inr (sv, blocks, s)))"

text \<open>What reading a block may give: the receipt indexes are not older than the directories say.\<close>

definition reader_reads :: "pylib \<Rightarrow> reader_blocks \<Rightarrow> string \<Rightarrow> bytes res \<Rightarrow> bool" where
  "reader_reads py blocks cid r \<longleftrightarrow>
     (case blocks of
        One_Inventory rd \<Rightarrow> local_reads py rd cid r
      | Epoch_List b \<Rightarrow>
          \<exists>sts. length sts = length (snd b) \<and> (\<forall>i < length sts. index_current py (snd b ! i) (sts ! i)) \<and>
            fst (epoch_read py b sts cid) = r)"

section \<open>What the reader serves\<close>

text \<open>A row of the inventory files the reader loaded.\<close>

definition declared_row :: "pylib \<Rightarrow> string \<Rightarrow> bytes list \<Rightarrow> string \<times> int \<Rightarrow> bool" where
  "declared_row py sha contents row \<longleftrightarrow>
     hex (sha256 py (concat contents)) = sha \<and> (\<exists>content \<in> set contents. \<exists>line \<in> set (file_lines content). line_row py line row)"

lemma open_part_Inr:
  assumes "open_part py files n path sha count car natives = Inr ((part, content), rd)"
  shows "br_inventory rd = part \<and> br_max_block_bytes rd = n \<and>
    (\<exists>identity. load_inventory py content identity sha count = Inr part)"
  using assms by (auto simp: open_part_def open_blocks_def res_simps split: if_splits)

lemma loaded_row:
  assumes "load_inventory py content identity sha count = Inr part" and "map_of (inv_sizes part) cid = Some n"
  shows "hex (sha256 py content) = sha \<and> (\<exists>line \<in> set (file_lines content). line_row py line (cid, n))"
proof -
  from assms(1) obtain rows where r: "represents py content rows part" and s: "inv_sha256 part = sha"
    by (rule load_inventory_represents)
  have "(cid, n) \<in> set rows" using assms(2) r by (auto simp: represents_def dest: map_of_SomeD)
  moreover have "list_all2 (line_row py) (file_lines content) rows" using r by (simp add: represents_def)
  ultimately show ?thesis
    using r s by (fastforce simp: represents_def list_all2_conv_all_nth in_set_conv_nth)
qed

lemma open_epoch_specs_Inr:
  "open_epoch_specs py files n specs = Inr parts \<Longrightarrow> p \<in> set parts \<Longrightarrow>
    br_inventory (snd p) = fst (fst p) \<and> br_max_block_bytes (snd p) = n \<and>
    (\<exists>identity sha count. load_inventory py (snd (fst p)) identity sha count = Inr (fst (fst p)))"
proof (induction specs arbitrary: parts)
  case (Cons spec specs)
  then obtain q ps where q: "open_epoch_spec py files n spec = Inr q" "open_epoch_specs py files n specs = Inr ps"
    "parts = q # ps" by (auto simp: res_simps)
  then obtain path sha count car natives where "open_part py files n path sha count car natives = Inr q"
    unfolding open_epoch_spec_def by (auto split: list.splits option.splits)
  then have "open_part py files n path sha count car natives = Inr ((fst (fst q), snd (fst q)), snd q)" by simp
  from open_part_Inr [OF this] show ?case using Cons q by auto
qed simp

lemma reader_read_row:
  assumes "start_reader py files args = Inr (sv, blocks)" and "reader_reads py blocks cid (Inr data)"
  shows "sha256_digest cid = Inr (sha256 py data) \<and> int (length data) \<le> rr_max_block_bytes args \<and>
    (\<exists>contents. declared_row py (rr_sha256 args) contents (cid, int (length data)))"
proof (cases "rr_epochs args = []")
  case True
  then obtain path part content rd where o: "open_part py files (rr_max_block_bytes args) path (rr_sha256 args) (rr_count args)
      (rr_car_receipts args) (rr_native_receipts args) = Inr ((part, content), rd)" and b: "blocks = One_Inventory rd"
    using assms(1) by (auto simp: start_reader_def res_simps split: option.splits)
  obtain st st' where read_step: "local_read py rd st cid = (Inr data, st')" and st: "index_current py rd st"
    using assms(2) unfolding reader_reads_def b local_reads_def reader_blocks.case by (metis prod.collapse)
  note got = local_read_Inr [OF read_step st] and part = open_part_Inr [OF o]
  then obtain identity where load: "load_inventory py content identity (rr_sha256 args) (rr_count args) = Inr part" by blast
  have "map_of (inv_sizes part) cid = Some (int (length data))" using got part by auto
  from loaded_row [OF load this] have "declared_row py (rr_sha256 args) [content] (cid, int (length data))"
    by (simp add: declared_row_def)
  then show ?thesis using got part by auto
next
  case False
  then obtain parts ep where o: "open_epoch_specs py files (rr_max_block_bytes args) (rr_epochs args) = Inr parts"
    and ep: "open_epochs py (map fst parts) (rr_sha256 args) (rr_count args) = Inr ep"
    and b: "blocks = Epoch_List (ep, map snd parts)"
    using assms(1) by (auto simp: start_reader_def open_epoch_blocks_def res_simps split: if_splits)
  obtain sts where sts: "length sts = length parts" "\<forall>i < length sts. index_current py (map snd parts ! i) (sts ! i)"
    and "fst (epoch_read py (ep, map snd parts) sts cid) = Inr data"
    using assms(2) by (auto simp: reader_reads_def b)
  then obtain sts' where read_step: "epoch_read py (ep, map snd parts) sts cid = (Inr data, sts')" by (metis prod.collapse)
  note opened = open_epoch_specs_Inr [OF o]
  have readers: "br_inventory (map snd parts ! i) = fst (map fst parts ! i) \<and> index_current py (map snd parts ! i) (sts ! i)"
    if "i < length (map fst parts)" for i
    using that sts opened [of "parts ! i"] by simp
  have len: "length (map snd parts) = length (map fst parts)" by simp
  from epoch_read_verified [OF ep len readers read_step] obtain i where i: "i < length parts"
    "map_of (inv_sizes (fst (fst (parts ! i)))) cid = Some (int (length data))" "sha256_digest cid = Inr (sha256 py data)"
    and within: "int (length data) \<le> br_max_block_bytes (snd (parts ! i))"
    by auto
  have mem: "parts ! i \<in> set parts" using i(1) by simp
  obtain identity sha count where load: "load_inventory py (snd (fst (parts ! i))) identity sha count = Inr (fst (fst (parts ! i)))"
    using opened [OF mem] by blast
  have "hex (sha256 py (concat (map (snd \<circ> fst) parts))) = rr_sha256 args"
    using open_epochs_Inr [OF ep] by simp
  moreover have "snd (fst (parts ! i)) \<in> set (map (snd \<circ> fst) parts)" using mem by auto
  ultimately have "declared_row py (rr_sha256 args) (map (snd \<circ> fst) parts) (cid, int (length data))"
    unfolding declared_row_def using loaded_row [OF load i(2)] by blast
  then show ?thesis using i(3) within opened [OF mem] by auto
qed

text \<open>C1: whatever requests run at the same time, a request the reader answers with a block body (one it is writing
  to the client, or has written) asked for the CID
  of a row of the inventory files it loaded, whose bytes together have the digest it was started with; the body has
  the size in that row, is within the byte limit and has the SHA-256 digest inside the CID. This holds for a
  single inventory and for a log of epochs.\<close>

theorem reader_serves_declared_rows:
  assumes "reader_main py files args rqs = Inr (sv, blocks, s)" and "serve_steps sv (reader_reads py blocks) sent s s'"
    and "i < length rqs" and "answers (threads s' ! i) = Some (Octets data)"
  shows "\<exists>cid contents. rq_path (rqs ! i) = ''/ipfs/'' @ cid \<and>
    declared_row py (rr_sha256 args) contents (cid, int (length data)) \<and>
    int (length data) \<le> rr_max_block_bytes args \<and> sha256_digest cid = Inr (sha256 py data)"
proof -
  from assms(1) have start: "start_reader py files args = Inr (sv, blocks)"
    and serving: "handler_for (rr_max_concurrent_requests args) (rr_large_client_timeout args) rqs = Inr s"
    by (auto simp: reader_main_def res_simps)
  from serving assms(2-4) obtain cid large where path: "route sv (rqs ! i) = Read_Block cid large"
    and got: "reader_reads py blocks cid (Inr data)" by (rule octets_read)
  from reader_read_row [OF start got] path show ?thesis by (auto simp: route_block)
qed

section \<open>A reader of two epochs\<close>

definition two_epoch_files :: reader_files where
  "two_epoch_files = \<lparr>rf_inventory = (\<lambda>path. Inr (if path = ''a'' then [1, 10] else [2, 10], lake_identity)),
     rf_receipts = (\<lambda>d. lake_dir), rf_cli = pinning_cli, rf_raw_store = None, rf_repository = ''repo''\<rparr>"

definition epoch_spec :: "string \<Rightarrow> string" where
  "epoch_spec path = path @ '':'' @ hex (replicate 32 7) @ '':1''"

definition two_epoch_args :: reader_args where
  "two_epoch_args = \<lparr>rr_epochs = [epoch_spec ''a'', epoch_spec ''b''], rr_inventory = None,
     rr_sha256 = hex (replicate 32 7), rr_count = 2, rr_car_receipts = None, rr_native_receipts = [],
     rr_max_block_bytes = 8000000, rr_max_concurrent_requests = 1, rr_large_client_timeout = 120\<rparr>"

lemma epoch_specs_opened:
  "open_epoch_spec lake_py two_epoch_files 8000000 (epoch_spec ''a'') = Inr ((first_epoch, [1, 10]), epoch_reader first_epoch)"
  "open_epoch_spec lake_py two_epoch_files 8000000 (epoch_spec ''b'') = Inr ((second_epoch, [2, 10]), epoch_reader second_epoch)"
proof -
  have parts: "split_at CHR '':'' (epoch_spec ''a'') = [''a'', hex (replicate 32 7), ''1'']"
    "split_at CHR '':'' (epoch_spec ''b'') = [''b'', hex (replicate 32 7), ''1'']" by code_simp+
  have count: "py_int ''1'' = Some 1" by code_simp
  have loads: "load_inventory lake_py [1, 10] lake_identity (hex (replicate 32 7)) 1 = Inr first_epoch"
    "load_inventory lake_py [2, 10] lake_identity (hex (replicate 32 7)) 1 = Inr second_epoch" by code_simp+
  note unfolds = open_epoch_spec_def count open_part_def two_epoch_files_def reader_receipts_def open_blocks_def
    MAX_BLOCK_BYTES_def epoch_reader_def
  show "open_epoch_spec lake_py two_epoch_files 8000000 (epoch_spec ''a'') = Inr ((first_epoch, [1, 10]), epoch_reader first_epoch)"
    "open_epoch_spec lake_py two_epoch_files 8000000 (epoch_spec ''b'') = Inr ((second_epoch, [2, 10]), epoch_reader second_epoch)"
    by (simp_all add: unfolds parts loads)
qed

lemma two_epoch_reader:
  "reader_main lake_py two_epoch_files two_epoch_args [block_request] =
     Inr (log_server lake_py two_epoch_log [(lake_identity, [1, 10]), (lake_identity, [2, 10])],
       Epoch_List (two_epoch_log, [epoch_reader first_epoch, epoch_reader second_epoch]), one_thread (Waiting block_request) 1)"
proof -
  have identity: "inv_identity first_epoch = lake_identity" "inv_identity second_epoch = lake_identity"
    by (simp_all add: second_epoch_def first_epoch_def)
  have parts: "length (ep_parts two_epoch_log) = 2" by (simp add: two_epoch_log_def)
  show ?thesis
    by (simp add: reader_main_def start_reader_def two_epoch_args_def epoch_specs_opened two_epoch_log_opened(2)
      open_epoch_blocks_def parts identity one_thread_start)
qed

theorem reader_serves_declared_rows_witness:
  "\<exists>contents. declared_row lake_py (hex (replicate 32 7)) contents (sample_cid2, 2) \<and>
    sha256_digest sample_cid2 = Inr (sha256 lake_py [1, 2])"
proof -
  let ?sv = "log_server lake_py two_epoch_log [(lake_identity, [1, 10]), (lake_identity, [2, 10])]"
  let ?blocks = "Epoch_List (two_epoch_log, [epoch_reader first_epoch, epoch_reader second_epoch])"
  have route: "route ?sv block_request = Read_Block sample_cid2 False" by code_simp
  have "index_current lake_py (epoch_reader part) closed_receipts" for part
    by (simp add: epoch_reader_def index_current_def)
  then have "reader_reads lake_py ?blocks sample_cid2 (Inr [1, 2])"
    unfolding reader_reads_def reader_blocks.case
    by (intro exI [of _ "[closed_receipts, closed_receipts]"]) (auto simp: two_epochs_read nth_Cons')
  moreover have "\<not> rq_malformed block_request" "all_sent (Octets [1, 2]) True" by (simp_all add: block_request_def all_sent_def)
  ultimately have run: "serve_steps ?sv (reader_reads lake_py ?blocks) all_sent (one_thread (Waiting block_request) 1)
    (one_thread (Done (Inr (Octets [1, 2]))) 1)"
    using one_block_served [OF _ route] by blast
  have done_now: "answers (threads (one_thread (Done (Inr (Octets [1, 2]))) 1) ! 0) = Some (Octets [1, 2])"
    by (simp add: one_thread_def)
  from reader_serves_declared_rows [OF two_epoch_reader run _ done_now]
  have "\<exists>cid contents. rq_path block_request = ''/ipfs/'' @ cid \<and>
    declared_row lake_py (hex (replicate 32 7)) contents (cid, 2) \<and> sha256_digest cid = Inr (sha256 lake_py [1, 2])"
    by (auto simp: two_epoch_args_def)
  then show ?thesis by (auto simp: block_request_def)
qed

end
