(* ===== verification/Spec2Isabelle.thy ===== *)
theory Spec2Isabelle
  imports Carv2_Commands Raw_Block_Store Audit_Command Ship_Car Export_Car Http_Reader Router_Standby Replication_Batch Leaf_Readback Bitswap_Mirror
    Large_Import_Batch Large_Export_Batch Origin_Bridge Block_Sources Kubo_Cli Replication_Command Reader_Command
begin

text \<open>
  A verification development for the Python programs under \<open>src/deploy/\<close> of yataverse-distribution.
  They keep, move and serve the Yataverse lake: a long list of content-addressed blocks (CIDs with
  SHA-256 digests) described by an inventory file with one JSON row per block.

  \<^bold>\<open>Parts of the program and their theories\<close>

  \<^item> \<open>Lake_Prelude\<close>: bytes, the exception classes, results, positional numbers, hexadecimal text.
  \<^item> \<open>Varint\<close>: the four varint routines (\<open>carv2_zstd.uvarint\<close>/\<open>read_uvarint\<close>,
    \<open>export_lake_car_from_kubo.varint\<close>/\<open>read_varint\<close>, \<open>raw_block_store._varint\<close>).
  \<^item> \<open>Cid_Codec\<close>: CID texts and their digests (\<open>raw_block_store._sha256_digest\<close>, \<open>verify_cid\<close>,
    \<open>export_lake_car_from_kubo.cid_bytes\<close>) with base58 and base32 decoding written out.
  \<^item> \<open>Carv1_Copy\<close>, \<open>Carv1_Stream\<close>: \<open>carv2_zstd.copy_carv1_payload\<close>, frame by frame, and the grammar of
    the byte strings it accepts.
  \<^item> \<open>Carv2_Index\<close>, \<open>Carv2_Archive\<close>: \<open>encode_index\<close>, the file \<open>pack\<close> writes, \<open>validate_carv2\<close>,
    \<open>zstd_frame_content_size\<close>.
  \<^item> \<open>Json_Files\<close>: decoded JSON values with Python's comparisons, and a file system with crash semantics.
  \<^item> \<open>Raw_Block_Store\<close>: the class \<open>RawBlockStore\<close>; \<open>put\<close> is the list of its file-system steps.
  \<^item> \<open>Row_Selection\<close>: \<open>selected_rows\<close> of the exporter and of \<open>ship_lake_car.py\<close>.
  \<^item> \<open>Export_Car\<close>: \<open>export_lake_car_from_kubo.export\<close>.
  \<^item> \<open>Decimal_Text\<close>, \<open>Inventory\<close>, \<open>Range_Cover\<close>, \<open>Car_Receipts\<close>, \<open>Block_Reader\<close>, \<open>Epoch_Log\<close>,
    \<open>Http_Reader\<close>, \<open>Reader_Command\<close>: \<open>serve_lake.py\<close>, one theory per class, the last two for \<open>handler_for\<close>
    and \<open>main\<close>.
  \<^item> \<open>Actions\<close>, \<open>File_Actions\<close>, \<open>Text_Search\<close>: statements with effects and exceptions, what they leave
    alone, files made durable; the part of the \<open>re\<close> module used on command output.
  \<^item> \<open>Carv2_Commands\<close>: the commands \<open>pack\<close> and \<open>unpack\<close> of \<open>carv2_zstd.py\<close>.
  \<^item> \<open>Replication_State\<close>, \<open>Kubo_Rpc\<close>, \<open>Prefetch\<close>, \<open>Replication_Batch\<close>, \<open>Block_Sources\<close>, \<open>Kubo_Cli\<close>,
    \<open>Replication_Command\<close>: \<open>replicate_lake.py\<close>, the checkpoint and its migration, the class \<open>KuboRPC\<close>,
    \<open>prefetch_ordered\<close>, \<open>run_batch\<close>, the fetchers (\<open>curl\<close>, peer, fallback), the class \<open>Kubo\<close>, and
    \<open>run_and_record_batch\<close> with \<open>main\<close>.
  \<^item> \<open>Leaf_Readback\<close>: \<open>verify_lake_leaves.py\<close>. \<open>Lake_Audit\<close>, \<open>Audit_Command\<close>: \<open>audit_lake.py\<close>.
    \<open>Router_Standby\<close>: \<open>router_standby.py\<close>.
  \<^item> \<open>Ship_Commands\<close>, \<open>Ship_Car\<close>: \<open>ship_lake_car.ship_once\<close> and the commands it runs on the other nodes.
  \<^item> \<open>Kubo_Commands\<close>: programs that may change files, with a log of their answers; the checks on \<open>ipfs\<close> output
    that several scripts share. On it: \<open>Car_Import\<close> (\<open>import_lake_car.py\<close>), \<open>Bitswap_Mirror\<close>
    (\<open>mirror_lake_bitswap.py\<close>), \<open>Large_Recovery\<close> and \<open>Large_Import_Batch\<close> (\<open>import_large_lake_recovery.py\<close>,
    \<open>import_large_lake_batch.py\<close>), \<open>Large_Export\<close> and \<open>Large_Export_Batch\<close> (\<open>export_large_lake_block.py\<close>,
    \<open>export_large_lake_batch.py\<close>).
  \<^item> \<open>Origin_Bridge\<close>: \<open>r2_origin_bridge.py\<close>, its request threads stepped one by one.

  The programs meet in files and blocks: the exporter's CAR is what the packer packs and the importer pins;
  import, mirror and recovery receipts are what the reader's index and the audit count; the large exporter's
  CAR and receipt are what the recovery takes. Theorems across theories say that what one writes the other
  accepts (\<open>exported_car_is_packed\<close>, \<open>import_receipt_accepted\<close>, \<open>recovery_receipt_accepted\<close>,
  \<open>exported_block_is_recoverable\<close>).

  \<^bold>\<open>How code and model correspond\<close>

  A function that may raise returns \<open>'a res\<close>: \<open>Inl\<close> the exception, \<open>Inr\<close> the value. A binary stream is
  the list of the bytes still to be read, or the whole file and a position. A file system is a finite
  table from paths to nodes. Where a crash matters (\<open>RawBlockStore.put\<close>, checkpoints, receipts) a writing
  function is the list of the steps it performs and its result, and a crash keeps an arbitrary subset of
  what was not synchronised; elsewhere it is an action, a function from the state to the result and the
  state after it. Objects are records; threads are entries of a list, stepped by an inductive relation or
  by a function of the thread number. A run of an external program is a function argument that maps the
  command, its input, the files and the state of the world to an answer and their successors; the commands
  and answers are logged, and theorems about what a program has seen speak about this log. Other
  arguments are SHA-256 and the JSON text format (the record \<open>pylib\<close>), \<open>urlsplit\<close>, \<open>ipaddress.is_global\<close>,
  clocks, free disk space, random parts of temporary names, resolved paths, and whether a lock is held.
  The text an exception takes from standard error is left out of its message.

  \<^bold>\<open>What the lemmas show\<close>

  Round trips of the encodings; that accepted CAR files are exactly those with good frames, and accepted
  CARv2 files exactly those the packer writes; that bytes leave the raw store, the exporter, the reader and
  the bridge only under the CID of their digest; crash safety and retry of \<open>put\<close>; that paging yields every
  row once; that the receipt index answers as the list of receipts would; that the bridge's threads leak no
  bytes and do not deadlock; that the HTTP handlers lose a slot only to a target \<open>urlsplit\<close> refuses, and end
  when their reads and the writes to their clients do. For every program with a checkpoint (replication,
  shipping, mirror, large import, read-back): however a run ends, the cursor on disk has only passed what
  that run, or an earlier one, has evidence for. For the audit: what it reports as accounted for, it has
  seen. Interfaces with several providers are locales (\<open>block_store\<close>, \<open>coverage_index\<close>, \<open>paged_rows\<close>,
  \<open>varint_decoder\<close>, \<open>verified_writer\<close>), interpreted on the model's own definitions.

  \<^bold>\<open>Bounds and fuel\<close>

  Only \<open>follow_pages\<close> has fuel (the number of pages a reader is willing to fetch); it is shown that as
  many as there are rows left is enough. \<open>peer_wait\<close> may run for ever and is a partial function; it is shown
  to return when the clock is monotonic and sleeping takes the time asked for. All other loops of the code
  are structural or have a termination proof.

  \<^bold>\<open>Not modelled\<close>

  Argument parsing, printing, sockets and HTTP header rendering; in \<open>replicate_lake.py\<close> a run without
  \<open>--kubo-api-url\<close> (the class \<open>Kubo\<close> is modelled by itself, the deployed units use \<open>KuboRPC\<close>) and a run with a
  fetcher inside \<open>run_batch\<close> (there the block source is an argument that depends on the CID only), and two
  fetches that update the shared counts at the same time; a base URL that \<open>urlsplit\<close> itself refuses; and the
  programs in other languages (\<open>.cljk\<close>, JavaScript, shell).
\<close>

end
